(* ===== verification/Prelude.thy ===== *)
theory Prelude
  imports Main "HOL-Library.Word" "HOL-Library.Monad_Syntax"
begin

text \<open>
  Shared vocabulary of the development: the machine-integer types of the Rust code, checked
  arithmetic, rounding up to an alignment, little-endian byte encodings, byte memories, and
  decimal printing.

  Integers of type \<open>u8\<close>, \<open>u16\<close>, \<open>u32\<close>, \<open>u64\<close> and \<open>usize\<close> are natural numbers. Where the code
  computes with them, the model writes the check out: the repository is built with cargo's
  default (dev) profile, in which an arithmetic overflow panics, so \<open>chk_add\<close> and its kin
  return \<open>None\<close> on overflow, on a subtraction below zero and on a division by zero. A cast
  \<open>x as u32\<close> truncates and is written \<open>x mod 2 ^ 32\<close>.

  A \<open>Result<T, E>\<close> is a sum \<open>'e + 'a\<close> (\<open>Inl\<close> the error); a Rust \<open>Option\<close> is an \<open>option\<close>.
  Bytes of source text are HOL characters, which are exactly the 256 byte values.
\<close>

section \<open>Machine integers\<close>

type_synonym u8 = nat
type_synonym u16 = nat
type_synonym u32 = nat
type_synonym u64 = nat
type_synonym usize = nat

named_theorems chk_defs \<open>definitions of the checked arithmetic operations\<close>

definition chk_add :: "nat \<Rightarrow> nat \<Rightarrow> nat \<Rightarrow> nat option" where
  [chk_defs]: "chk_add w a b = (if a + b < 2 ^ w then Some (a + b) else None)"

definition chk_sub :: "nat \<Rightarrow> nat \<Rightarrow> nat option" where
  [chk_defs]: "chk_sub a b = (if b \<le> a then Some (a - b) else None)"

definition chk_mul :: "nat \<Rightarrow> nat \<Rightarrow> nat \<Rightarrow> nat option" where
  [chk_defs]: "chk_mul w a b = (if a * b < 2 ^ w then Some (a * b) else None)"

definition chk_div :: "nat \<Rightarrow> nat \<Rightarrow> nat option" where
  [chk_defs]: "chk_div a b = (if b = 0 then None else Some (a div b))"

lemma chk_add_Some [simp]: "chk_add w a b = Some c \<longleftrightarrow> a + b < 2 ^ w \<and> c = a + b"
  by (auto simp: chk_defs)

lemma chk_sub_Some [simp]: "chk_sub a b = Some c \<longleftrightarrow> b \<le> a \<and> c = a - b"
  by (auto simp: chk_defs)

lemma chk_mul_Some [simp]: "chk_mul w a b = Some c \<longleftrightarrow> a * b < 2 ^ w \<and> c = a * b"
  by (auto simp: chk_defs)

lemma chk_div_Some [simp]: "chk_div a b = Some c \<longleftrightarrow> b \<noteq> 0 \<and> c = a div b"
  by (auto simp: chk_defs)

lemma chk_None [simp]:
  "chk_add w a b = None \<longleftrightarrow> 2 ^ w \<le> a + b" "chk_sub a b = None \<longleftrightarrow> a < b"
  "chk_mul w a b = None \<longleftrightarrow> 2 ^ w \<le> a * b" "chk_div a b = None \<longleftrightarrow> b = 0"
  by (auto simp: chk_defs)

lemma option_bind_Some [simp]: "Option.bind m f = Some y \<longleftrightarrow> (\<exists>x. m = Some x \<and> f x = Some y)"
  by (cases m) auto

section \<open>Rounding up to a multiple\<close>

definition round_up :: "nat \<Rightarrow> nat \<Rightarrow> nat" where
  "round_up n a = (n + a - 1) div a * a"

lemma round_up_dvd: "a dvd round_up n a"
  by (simp add: round_up_def)

lemma round_up_ge: "0 < a \<Longrightarrow> n \<le> round_up n a"
proof -
  assume a: "0 < a"
  have "n + a - 1 = (n + a - 1) div a * a + (n + a - 1) mod a" by simp
  moreover have "(n + a - 1) mod a < a" using a by simp
  ultimately show ?thesis unfolding round_up_def using a by linarith
qed

lemma round_up_less: "0 < a \<Longrightarrow> round_up n a < n + a"
  using div_times_less_eq_dividend [of "n + a - 1" a] unfolding round_up_def by linarith

lemma round_up_id: "0 < a \<Longrightarrow> a dvd n \<Longrightarrow> round_up n a = n"
proof -
  assume "0 < a" and "a dvd n"
  then obtain k where n: "n = k * a" by (auto elim: dvdE simp: mult.commute)
  have "k * a + a - 1 = k * a + (a - 1)" using \<open>0 < a\<close> by linarith
  moreover have "(k * a + (a - 1)) div a = k + (a - 1) div a"
    using \<open>0 < a\<close> by (intro div_mult_self3) simp
  moreover have "(a - 1) div a = 0" using \<open>0 < a\<close> by simp
  ultimately have "(k * a + a - 1) div a = k" by (simp only: add_0_right)
  then show ?thesis by (simp only: round_up_def n)
qed

text \<open>The code's \<open>(x + a - 1) / a * a\<close> with every step checked.\<close>

definition chk_round_up :: "nat \<Rightarrow> nat \<Rightarrow> nat \<Rightarrow> nat option" where
  "chk_round_up w x a = do {
     s \<leftarrow> chk_add w x a;
     t \<leftarrow> chk_sub s 1;
     q \<leftarrow> chk_div t a;
     chk_mul w q a }"

lemma chk_round_up_Some:
  "chk_round_up w x a = Some y \<longleftrightarrow> 0 < a \<and> x + a < 2 ^ w \<and> y = round_up x a"
proof -
  have "(x + a - 1) div a * a \<le> x + a - 1" by (rule div_times_less_eq_dividend)
  then have "x + a < 2 ^ w \<Longrightarrow> (x + a - 1) div a * a < 2 ^ w" by linarith
  then show ?thesis by (auto simp: chk_round_up_def round_up_def)
qed

section \<open>Little-endian byte encodings\<close>

fun le_bytes :: "nat \<Rightarrow> nat \<Rightarrow> u8 list" where
  "le_bytes 0 n = []"
| "le_bytes (Suc k) n = n mod 256 # le_bytes k (n div 256)"

fun le_val :: "u8 list \<Rightarrow> nat" where
  "le_val [] = 0"
| "le_val (b # bs) = b + 256 * le_val bs"

lemma length_le_bytes [simp]: "length (le_bytes k n) = k"
  by (induction k arbitrary: n) auto

lemma le_val_le_bytes: "le_val (le_bytes k n) = n mod 256 ^ k"
proof (induction k arbitrary: n)
  case 0
  then show ?case by simp
next
  case (Suc k)
  then show ?case by (simp add: mod_mult2_eq)
qed

lemma le_val_le_bytes2 [simp]: "n < 2 ^ 16 \<Longrightarrow> le_val (le_bytes 2 n) = n"
  by (simp add: le_val_le_bytes)

lemma le_val_le_bytes4 [simp]: "n < 2 ^ 32 \<Longrightarrow> le_val (le_bytes 4 n) = n"
  by (simp add: le_val_le_bytes)

section \<open>Byte memories\<close>

type_synonym memory = "nat \<Rightarrow> u8"

definition mem_write :: "memory \<Rightarrow> nat \<Rightarrow> u8 list \<Rightarrow> memory" where
  "mem_write m off bs = (\<lambda>a. if off \<le> a \<and> a < off + length bs then bs ! (a - off) else m a)"

definition mem_read :: "memory \<Rightarrow> nat \<Rightarrow> nat \<Rightarrow> u8 list" where
  "mem_read m off n = map m [off ..< off + n]"

lemma length_mem_read [simp]: "length (mem_read m off n) = n"
  by (simp add: mem_read_def)

lemma mem_read_write_part:
  "d + k \<le> length bs \<Longrightarrow> mem_read (mem_write m off bs) (off + d) k = take k (drop d bs)"
  by (rule nth_equalityI) (auto simp: mem_read_def mem_write_def)

lemma mem_read_write_same [simp]:
  "mem_read (mem_write m off bs) off (length bs) = bs"
  using mem_read_write_part [of 0 "length bs" bs m off] by simp

lemma mem_read_write_disjoint:
  "off' + k \<le> off \<or> off + length bs \<le> off' \<Longrightarrow>
     mem_read (mem_write m off bs) off' k = mem_read m off' k"
  by (auto simp: mem_read_def mem_write_def)

section \<open>UTF-8\<close>

text \<open>
  Well-formed UTF-8, the check of \<open>std::str::from_utf8\<close>: no overlong forms, no surrogates,
  nothing above U+10FFFF.
\<close>

definition utf8_cont :: "u8 \<Rightarrow> bool" where
  "utf8_cont b \<longleftrightarrow> 128 \<le> b \<and> b \<le> 191"

fun utf8_ok :: "u8 list \<Rightarrow> bool" where
  "utf8_ok [] = True"
| "utf8_ok (b # bs) =
     (if b < 128 then utf8_ok bs
      else if 194 \<le> b \<and> b \<le> 223 then
        (case bs of c # r \<Rightarrow> utf8_cont c \<and> utf8_ok r | _ \<Rightarrow> False)
      else if 224 \<le> b \<and> b \<le> 239 then
        (case bs of c # d # r \<Rightarrow>
           utf8_cont c \<and> (b = 224 \<longrightarrow> 160 \<le> c) \<and> (b = 237 \<longrightarrow> c \<le> 159) \<and>
           utf8_cont d \<and> utf8_ok r
         | _ \<Rightarrow> False)
      else if 240 \<le> b \<and> b \<le> 244 then
        (case bs of c # d # e # r \<Rightarrow>
           utf8_cont c \<and> (b = 240 \<longrightarrow> 144 \<le> c) \<and> (b = 244 \<longrightarrow> c \<le> 143) \<and>
           utf8_cont d \<and> utf8_cont e \<and> utf8_ok r
         | _ \<Rightarrow> False)
      else False)"

definition str_bytes :: "string \<Rightarrow> u8 list" where
  "str_bytes s = map of_char s"

definition bytes_str :: "u8 list \<Rightarrow> string" where
  "bytes_str bs = map char_of bs"

lemma length_str_bytes [simp]: "length (str_bytes s) = length s"
  by (simp add: str_bytes_def)

lemma bytes_str_bytes [simp]: "bytes_str (str_bytes s) = s"
  by (induction s) (simp_all add: bytes_str_def str_bytes_def)

lemma utf8_ok_ascii: "\<forall>b \<in> set bs. b < 128 \<Longrightarrow> utf8_ok bs"
  by (induction bs) auto

section \<open>Decimal printing\<close>

text \<open>Rust's \<open>format!("{}", n)\<close> on an unsigned integer.\<close>

fun digits :: "nat \<Rightarrow> string" where
  "digits n = (if n < 10 then [char_of (48 + n)]
               else digits (n div 10) @ [char_of (48 + n mod 10)])"

declare digits.simps [simp del]

definition starts_with :: "string \<Rightarrow> string \<Rightarrow> bool" where
  "starts_with p s = (take (length p) s = p)"

section \<open>Fallible conditions\<close>

text \<open>\<open>&&\<close> and \<open>||\<close> on conditions whose evaluation may fail: the right operand only when needed.\<close>

definition opt_and :: "bool option \<Rightarrow> bool option \<Rightarrow> bool option" where
  "opt_and a b = Option.bind a (\<lambda>x. if x then b else Some False)"

definition opt_or :: "bool option \<Rightarrow> bool option \<Rightarrow> bool option" where
  "opt_or a b = Option.bind a (\<lambda>x. if x then Some True else b)"

lemma opt_and_or_Some [simp]:
  "opt_and (Some x) (Some y) = Some (x \<and> y)" "opt_or (Some x) (Some y) = Some (x \<or> y)"
  "opt_and (Some False) b = Some False" "opt_or (Some True) b = Some True"
  by (simp_all add: opt_and_def opt_or_def)

section \<open>Runs with fuel\<close>

text \<open>
  The result of a recursion over a structure that may be cyclic, given a bound on its depth: it
  returns a value, panics, or has not returned within the bound.
\<close>

datatype 'a run = Done 'a | Crash | NoFuel

fun run_bind :: "'a run \<Rightarrow> ('a \<Rightarrow> 'b run) \<Rightarrow> 'b run" where
  "run_bind (Done x) f = f x"
| "run_bind Crash f = Crash"
| "run_bind NoFuel f = NoFuel"

fun run_of :: "'a option \<Rightarrow> 'a run" where
  "run_of (Some x) = Done x"
| "run_of None = Crash"

text \<open>\<open>x?\<close> on an \<open>Option\<close> in a recursion that returns one.\<close>

definition when_done :: "'a option run \<Rightarrow> ('a \<Rightarrow> 'b option run) \<Rightarrow> 'b option run" where
  "when_done r k = run_bind r (\<lambda>v. case v of None \<Rightarrow> Done None | Some x \<Rightarrow> k x)"

lemma run_bind_Done [simp]: "run_bind m f = Done y \<longleftrightarrow> (\<exists>x. m = Done x \<and> f x = Done y)"
  by (cases m) auto

lemma run_bind_NoFuel: "run_bind m f = NoFuel \<longleftrightarrow> m = NoFuel \<or> (\<exists>x. m = Done x \<and> f x = NoFuel)"
  by (cases m) auto

lemma run_of_Done [simp]: "run_of m = Done x \<longleftrightarrow> m = Some x" "run_of m \<noteq> NoFuel"
  by (cases m; simp)+

section \<open>Scanning a byte string\<close>

abbreviation ord :: "char \<Rightarrow> nat" where
  "ord c \<equiv> of_char c"

definition is_digit :: "char \<Rightarrow> bool" where
  "is_digit c \<longleftrightarrow> 48 \<le> ord c \<and> ord c \<le> 57"

definition is_alpha :: "char \<Rightarrow> bool" where
  "is_alpha c \<longleftrightarrow> 97 \<le> ord c \<and> ord c \<le> 122 \<or> 65 \<le> ord c \<and> ord c \<le> 90"

text \<open>The byte at a position, and the loop \<open>while let Some(c) = current && p(c) \{ advance \}\<close>.\<close>

definition byte_at :: "'a list \<Rightarrow> nat \<Rightarrow> 'a option" where
  "byte_at s i = (if i < length s then Some (s ! i) else None)"

function advance_while :: "('a \<Rightarrow> bool) \<Rightarrow> 'a list \<Rightarrow> nat \<Rightarrow> nat" where
  "advance_while p s i =
     (case byte_at s i of Some c \<Rightarrow> if p c then advance_while p s (i + 1) else i | None \<Rightarrow> i)"
  by pat_completeness auto
termination
  by (relation "measure (\<lambda>(p, s, i). length s - i)") (auto simp: byte_at_def split: if_splits)

declare advance_while.simps [simp del]

lemma byte_at_Some: "byte_at s i = Some c \<longleftrightarrow> i < length s \<and> c = s ! i"
  by (auto simp: byte_at_def)

lemma byte_at_None: "byte_at s i = None \<longleftrightarrow> length s \<le> i"
  by (auto simp: byte_at_def)

lemma advance_while_bounds: "i \<le> advance_while p s i \<and> (i \<le> length s \<longrightarrow> advance_while p s i \<le> length s)"
proof (induction p s i rule: advance_while.induct)
  case (1 p s i)
  then show ?case by (auto simp: advance_while.simps [of p s i] byte_at_def)
qed

lemmas advance_while_ge = advance_while_bounds [THEN conjunct1]

lemma advance_while_le: "i \<le> length s \<Longrightarrow> advance_while p s i \<le> length s"
  using advance_while_bounds by blast

lemma advance_while_all: "i \<le> j \<Longrightarrow> j < advance_while p s i \<Longrightarrow> p (s ! j)"
proof (induction p s i rule: advance_while.induct)
  case (1 p s i)
  show ?case
  proof (cases "i < length s \<and> p (s ! i)")
    case True
    then have "advance_while p s i = advance_while p s (i + 1)"
      by (simp add: advance_while.simps [of p s i] byte_at_def)
    with 1 True show ?thesis by (cases "i = j") (auto simp: byte_at_def)
  next
    case False
    then have "advance_while p s i = i"
      by (auto simp: advance_while.simps [of p s i] byte_at_def)
    with 1 show ?thesis by simp
  qed
qed

lemma advance_while_stop: "advance_while p s i < length s \<Longrightarrow> \<not> p (s ! advance_while p s i)"
proof (induction p s i rule: advance_while.induct)
  case (1 p s i)
  show ?case
  proof (cases "i < length s \<and> p (s ! i)")
    case True
    then have "advance_while p s i = advance_while p s (i + 1)"
      by (simp add: advance_while.simps [of p s i] byte_at_def)
    with 1 True show ?thesis by (simp add: byte_at_def)
  next
    case False
    then have "advance_while p s i = i"
      by (auto simp: advance_while.simps [of p s i] byte_at_def)
    with 1 False show ?thesis by simp
  qed
qed

lemma advance_while_step: "i < length s \<Longrightarrow> p (s ! i) \<Longrightarrow> i < advance_while p s i"
  using advance_while_ge [of "i + 1" p s] by (simp add: advance_while.simps [of p s i] byte_at_def)

lemma drop_eq_Cons: "drop i s = c # r \<Longrightarrow> i < length s \<and> s ! i = c \<and> drop (Suc i) s = r"
  by (cases "i < length s") (auto simp: Cons_nth_drop_Suc [symmetric])

lemma drop_eq_append: "drop i s = a @ r \<Longrightarrow> drop (i + length a) s = r"
  by (metis add.commute append_eq_conv_conj drop_drop)

text \<open>The piece of a string between two positions, \<open>&s[i..j]\<close>.\<close>

definition piece :: "'a list \<Rightarrow> nat \<Rightarrow> nat \<Rightarrow> 'a list" where
  "piece s i j = take (j - i) (drop i s)"

lemma length_piece [simp]: "i \<le> j \<Longrightarrow> j \<le> length s \<Longrightarrow> length (piece s i j) = j - i"
  by (simp add: piece_def)

lemma piece_append: "i \<le> j \<Longrightarrow> j \<le> k \<Longrightarrow> k \<le> length s \<Longrightarrow> piece s i j @ piece s j k = piece s i k"
proof -
  assume "i \<le> j" "j \<le> k" "k \<le> length s"
  then have "take (j - i + (k - j)) (drop i s) = take (j - i) (drop i s) @ take (k - j) (drop j s)"
    by (simp only: take_add drop_drop) simp
  moreover have "j - i + (k - j) = k - i" using \<open>i \<le> j\<close> \<open>j \<le> k\<close> by simp
  ultimately show ?thesis by (simp add: piece_def)
qed

lemma piece_all [simp]: "piece s 0 (length s) = s"
  by (simp add: piece_def)

lemma set_piece: "j \<le> length s \<Longrightarrow> set (piece s i j) = {s ! k | k. i \<le> k \<and> k < j}"
proof (cases "i \<le> j")
  case True
  assume j: "j \<le> length s"
  show ?thesis
  proof (intro set_eqI iffI)
    fix x assume "x \<in> set (piece s i j)"
    then obtain k where "k < j - i" "x = piece s i j ! k"
      using True j by (auto simp: in_set_conv_nth)
    then show "x \<in> {s ! k | k. i \<le> k \<and> k < j}"
      using True j by (auto simp: piece_def intro!: exI [of _ "i + k"])
  next
    fix x assume "x \<in> {s ! k | k. i \<le> k \<and> k < j}"
    then obtain k where k: "i \<le> k" "k < j" "x = s ! k" by blast
    then have "x = piece s i j ! (k - i)" "k - i < length (piece s i j)"
      using True j by (simp_all add: piece_def)
    then show "x \<in> set (piece s i j)" by simp
  qed
qed (auto simp: piece_def)

end
