(* ===== verification/Arena.thy ===== *)
theory Arena
  imports Prelude
begin

text \<open>
  The AST arena of \<open>src/src/arena.rs\<close>: one memory-mapped file cut into slots of 56 bytes
  (\<open>size_of::<CAstNode>()\<close>), the nodes in the slots \<open>1 .. node_allocated - 1\<close> and the string
  pool in the slots from \<open>string_start\<close>. The mapping is a byte memory with a length; every
  raw-pointer access of the code is a read or a write of that memory, and an access outside
  the mapping (undefined behaviour in Rust) is the outcome \<open>Fault\<close>. Opening, sizing and mapping
  the file is the operating system's: its error, if any, is an argument of \<open>arena_new\<close>.
\<close>

section \<open>Data\<close>

datatype 'a outcome =
    Ret 'a
  | Panic
  | Fault

type_synonym node_offset = u32

abbreviation (input) NULL :: node_offset where
  "NULL \<equiv> 0"

definition is_null :: "node_offset \<Rightarrow> bool" where
  "is_null off \<longleftrightarrow> off = 0"

record source_location =
  file_id :: u32
  sl_line :: u32
  sl_column :: u32
  sl_length :: u32

definition source_unknown :: source_location where
  "source_unknown = \<lparr>file_id = 0, sl_line = 0, sl_column = 0, sl_length = 0\<rparr>"

type_synonym node_flags = "16 word"

definition FLAG_NONE :: node_flags where "FLAG_NONE = 0"
definition IS_VALID :: node_flags where "IS_VALID = 1"
definition HAS_ERROR :: node_flags where "HAS_ERROR = 2"
definition IS_SYNTHETIC :: node_flags where "IS_SYNTHETIC = 4"
definition HAS_PAYLOAD :: node_flags where "HAS_PAYLOAD = 8"

record cast_node =
  kind :: u16
  flags :: node_flags
  parent :: node_offset
  first_child :: node_offset
  last_child :: node_offset
  next_sibling :: node_offset
  prev_sibling :: node_offset
  child_count :: u16
  node_data :: u32
  node_source :: source_location
  payload_offset :: node_offset
  payload_len :: u32

definition cast_node_new :: "u16 \<Rightarrow> cast_node" where
  "cast_node_new k =
     \<lparr>kind = k, flags = FLAG_NONE, parent = NULL, first_child = NULL, last_child = NULL,
      next_sibling = NULL, prev_sibling = NULL, child_count = 0, node_data = 0,
      node_source = source_unknown, payload_offset = NULL, payload_len = 0\<rparr>"

definition with_source :: "cast_node \<Rightarrow> source_location \<Rightarrow> cast_node" where
  "with_source n src = n\<lparr>node_source := src\<rparr>"

definition with_flags :: "cast_node \<Rightarrow> node_flags \<Rightarrow> cast_node" where
  "with_flags n fl = n\<lparr>flags := fl\<rparr>"

text \<open>The values the Rust field types admit.\<close>

definition node_wf :: "cast_node \<Rightarrow> bool" where
  "node_wf n \<longleftrightarrow> kind n < 2 ^ 16 \<and> parent n < 2 ^ 32 \<and> first_child n < 2 ^ 32 \<and>
     last_child n < 2 ^ 32 \<and> next_sibling n < 2 ^ 32 \<and> prev_sibling n < 2 ^ 32 \<and>
     child_count n < 2 ^ 16 \<and> node_data n < 2 ^ 32 \<and> file_id (node_source n) < 2 ^ 32 \<and>
     sl_line (node_source n) < 2 ^ 32 \<and> sl_column (node_source n) < 2 ^ 32 \<and>
     sl_length (node_source n) < 2 ^ 32 \<and> payload_offset n < 2 ^ 32 \<and> payload_len n < 2 ^ 32"

type_synonym io_error = string

datatype arena_error =
    ZeroCapacity
  | AllocationFull
  | StringPoolFull
  | InvalidOffset
  | IoError io_error

fun arena_error_display :: "arena_error \<Rightarrow> string" where
  "arena_error_display ZeroCapacity = ''arena capacity must be greater than zero''"
| "arena_error_display AllocationFull = ''arena node allocation pool is full''"
| "arena_error_display StringPoolFull = ''arena string pool is full''"
| "arena_error_display InvalidOffset = ''offset is out of bounds or invalid''"
| "arena_error_display (IoError e) = ''I/O error: '' @ e"

fun arena_error_source :: "arena_error \<Rightarrow> io_error option" where
  "arena_error_source (IoError e) = Some e"
| "arena_error_source _ = None"

record arena =
  mmap :: memory
  mmap_len :: nat
  node_capacity :: u32
  node_allocated :: u32
  string_start :: u32
  string_capacity :: u32
  string_allocated :: u32

section \<open>The layout of a node in its slot\<close>

text \<open>
  \<open>#[repr(C)]\<close> order with the compiler's padding: two bytes after \<open>child_count\<close>. Padding bytes
  are never read; the encoding writes zeros there. The size is 56 bytes.
\<close>

definition slot_size :: nat where
  "slot_size = 56"

definition encode_node :: "cast_node \<Rightarrow> u8 list" where
  "encode_node n =
     le_bytes 2 (kind n) @ le_bytes 2 (unat (flags n)) @ le_bytes 4 (parent n) @
     le_bytes 4 (first_child n) @ le_bytes 4 (last_child n) @ le_bytes 4 (next_sibling n) @
     le_bytes 4 (prev_sibling n) @ le_bytes 2 (child_count n) @ le_bytes 2 0 @
     le_bytes 4 (node_data n) @ le_bytes 4 (file_id (node_source n)) @
     le_bytes 4 (sl_line (node_source n)) @ le_bytes 4 (sl_column (node_source n)) @
     le_bytes 4 (sl_length (node_source n)) @ le_bytes 4 (payload_offset n) @
     le_bytes 4 (payload_len n)"

definition field_at :: "memory \<Rightarrow> nat \<Rightarrow> nat \<Rightarrow> nat \<Rightarrow> nat" where
  "field_at m base off k = le_val (mem_read m (base + off) k)"

definition decode_node :: "memory \<Rightarrow> nat \<Rightarrow> cast_node" where
  "decode_node m b =
     \<lparr>kind = field_at m b 0 2, flags = of_nat (field_at m b 2 2), parent = field_at m b 4 4,
      first_child = field_at m b 8 4, last_child = field_at m b 12 4,
      next_sibling = field_at m b 16 4, prev_sibling = field_at m b 20 4,
      child_count = field_at m b 24 2, node_data = field_at m b 28 4,
      node_source = \<lparr>file_id = field_at m b 32 4, sl_line = field_at m b 36 4,
                     sl_column = field_at m b 40 4, sl_length = field_at m b 44 4\<rparr>,
      payload_offset = field_at m b 48 4, payload_len = field_at m b 52 4\<rparr>"

lemma length_encode_node [simp]: "length (encode_node n) = slot_size"
  by (simp add: encode_node_def slot_size_def)

lemma field_at_written:
  "d + k \<le> length bs \<Longrightarrow> field_at (mem_write m b bs) b d k = le_val (take k (drop d bs))"
  by (simp add: field_at_def mem_read_write_part)

lemma field_at_disjoint:
  "d + k \<le> slot_size \<Longrightarrow> b + slot_size \<le> off \<or> off + length bs \<le> b \<Longrightarrow>
     field_at (mem_write m off bs) b d k = field_at m b d k"
  by (auto simp: field_at_def intro!: arg_cong [where f = le_val] mem_read_write_disjoint)

lemma decode_encode_node:
  assumes "node_wf n"
  shows "decode_node (mem_write m b (encode_node n)) b = n"
proof -
  have w: "unat (flags n) < 2 ^ 16"
    using unsigned_less [of "flags n"] by simp
  show ?thesis
    using assms w
    by (simp add: decode_node_def field_at_written slot_size_def, simp add: encode_node_def node_wf_def)
qed

lemma decode_node_disjoint:
  "b + slot_size \<le> off \<or> off + length bs \<le> b \<Longrightarrow>
     decode_node (mem_write m off bs) b = decode_node m b"
  by (simp add: decode_node_def field_at_disjoint slot_size_def)

section \<open>Operations\<close>

definition arena_new :: "io_error option \<Rightarrow> u32 \<Rightarrow> (arena_error + arena) outcome" where
  "arena_new io cap =
     (if cap = 0 then Ret (Inl ZeroCapacity)
      else let pool = cap div 4 in
        case chk_add 32 cap pool of None \<Rightarrow> Panic
        | Some total_slots \<Rightarrow>
            (case io of Some e \<Rightarrow> Ret (Inl (IoError e))
             | None \<Rightarrow>
                 (case chk_add 32 cap 1 of None \<Rightarrow> Panic
                  | Some start \<Rightarrow>
                      Ret (Inr \<lparr>mmap = (\<lambda>_. 0), mmap_len = total_slots * slot_size,
                                node_capacity = cap, node_allocated = 1, string_start = start,
                                string_capacity = pool, string_allocated = 0\<rparr>))))"

definition arena_alloc :: "arena \<Rightarrow> cast_node \<Rightarrow> (node_offset option \<times> arena) outcome" where
  "arena_alloc A node =
     (if node_allocated A \<ge> node_capacity A then Ret (None, A)
      else let offset = node_allocated A; byte_offset = node_allocated A * slot_size in
        if byte_offset + slot_size > mmap_len A then Fault
        else Ret (Some offset,
                  A\<lparr>node_allocated := node_allocated A + 1,
                    mmap := mem_write (mmap A) byte_offset (encode_node node)\<rparr>))"

definition arena_get :: "arena \<Rightarrow> node_offset \<Rightarrow> cast_node option" where
  "arena_get A off =
     (if off = 0 \<or> off \<ge> node_allocated A then None
      else Some (decode_node (mmap A) (off * slot_size)))"

text \<open>
  \<open>get_mut\<close> hands out a mutable reference, which every caller uses as
  \<open>if let Some(n) = arena.get_mut(off) { n.field = v; }\<close>: the update \<open>f\<close> is applied in place.
\<close>

definition arena_get_mut :: "arena \<Rightarrow> node_offset \<Rightarrow> (cast_node \<Rightarrow> cast_node) \<Rightarrow> arena" where
  "arena_get_mut A off f =
     (if off = 0 \<or> off \<ge> node_allocated A then A
      else A\<lparr>mmap := mem_write (mmap A) (off * slot_size)
                         (encode_node (f (decode_node (mmap A) (off * slot_size))))\<rparr>)"

text \<open>The unsafe block of \<open>store_string\<close> and \<open>store_payload\<close>: a length word, then the bytes.\<close>

definition write_block :: "memory \<Rightarrow> nat \<Rightarrow> u8 list \<Rightarrow> memory" where
  "write_block m byte_offset bs =
     mem_write (mem_write m byte_offset (le_bytes 4 (length bs mod 2 ^ 32))) (byte_offset + 4) bs"

definition store_string :: "arena \<Rightarrow> string \<Rightarrow> (node_offset option \<times> arena) outcome" where
  "store_string A s =
     (if s = '''' then Ret (Some NULL, A)
      else let total_bytes = 4 + length s in
        case chk_add 32 (total_bytes mod 2 ^ 32) slot_size of None \<Rightarrow> Panic
        | Some t \<Rightarrow>
            let slots_needed = (t - 1) div slot_size in
            (case chk_add 32 (string_allocated A) slots_needed of None \<Rightarrow> Panic
             | Some allocated \<Rightarrow>
                 if allocated > string_capacity A then Ret (None, A)
                 else let slot_index = string_allocated A;
                          byte_offset = string_start A * slot_size + slot_index * slot_size in
                   if byte_offset + 4 + length s > mmap_len A then Fault
                   else Ret (Some (string_start A + slot_index),
                             A\<lparr>string_allocated := allocated,
                               mmap := write_block (mmap A) byte_offset (str_bytes s)\<rparr>)))"

definition get_string :: "arena \<Rightarrow> node_offset \<Rightarrow> string option outcome" where
  "get_string A off =
     (if is_null off then Ret (Some '''')
      else if off < string_start A then Ret None
      else case chk_add 32 (string_start A) (string_allocated A) of None \<Rightarrow> Panic
        | Some lim \<Rightarrow>
            if off \<ge> lim then Ret None
            else let string_slot = off - string_start A;
                     byte_offset = string_start A * slot_size + string_slot * slot_size in
              if byte_offset + 4 > mmap_len A then Fault
              else let len = le_val (mem_read (mmap A) byte_offset 4) in
                if byte_offset + 4 + len > mmap_len A then Fault
                else let bytes = mem_read (mmap A) (byte_offset + 4) len in
                  Ret (if utf8_ok bytes then Some (bytes_str bytes) else None))"

definition store_payload :: "arena \<Rightarrow> u8 list \<Rightarrow> ((node_offset \<times> u32) option \<times> arena) outcome" where
  "store_payload A bs =
     (if bs = [] then Ret (Some (NULL, 0), A)
      else let total_bytes = 4 + length bs in
        case chk_add 32 (total_bytes mod 2 ^ 32) slot_size of None \<Rightarrow> Panic
        | Some t \<Rightarrow>
            let slots_needed = (t - 1) div slot_size in
            (case chk_add 32 (string_allocated A) slots_needed of None \<Rightarrow> Panic
             | Some allocated \<Rightarrow>
                 if allocated > string_capacity A then Ret (None, A)
                 else let slot_index = string_allocated A;
                          byte_offset = string_start A * slot_size + slot_index * slot_size in
                   if byte_offset + 4 + length bs > mmap_len A then Fault
                   else Ret (Some (string_start A + slot_index, length bs mod 2 ^ 32),
                             A\<lparr>string_allocated := allocated,
                               mmap := write_block (mmap A) byte_offset bs\<rparr>)))"

definition get_payload :: "arena \<Rightarrow> node_offset \<Rightarrow> u32 \<Rightarrow> u8 list option outcome" where
  "get_payload A off len =
     (if is_null off then Ret (Some [])
      else if off < string_start A then Ret None
      else case chk_add 32 (string_start A) (string_allocated A) of None \<Rightarrow> Panic
        | Some lim \<Rightarrow>
            if off \<ge> lim then Ret None
            else let string_slot = off - string_start A;
                     byte_offset = string_start A * slot_size + string_slot * slot_size in
              if byte_offset + 4 > mmap_len A then Fault
              else let stored_len = le_val (mem_read (mmap A) byte_offset 4) in
                if stored_len \<noteq> len then Ret None
                else if byte_offset + 4 + len > mmap_len A then Fault
                else Ret (Some (mem_read (mmap A) (byte_offset + 4) len)))"

definition nodes_allocated :: "arena \<Rightarrow> u32" where
  "nodes_allocated A = node_allocated A - 1"

definition remaining_nodes :: "arena \<Rightarrow> u32" where
  "remaining_nodes A = node_capacity A - node_allocated A"

definition string_bytes_used :: "arena \<Rightarrow> u32 option" where
  "string_bytes_used A = chk_mul 32 (string_allocated A) slot_size"

definition link_child :: "node_offset \<Rightarrow> node_offset \<Rightarrow> cast_node" where
  "link_child p c = (cast_node_new 0)\<lparr>parent := p, first_child := c, last_child := c, child_count := 1\<rparr>"

section \<open>The invariant and its preservation\<close>

definition arena_inv :: "arena \<Rightarrow> bool" where
  "arena_inv A \<longleftrightarrow>
     0 < node_capacity A \<and> 1 \<le> node_allocated A \<and> node_allocated A \<le> node_capacity A \<and>
     string_capacity A = node_capacity A div 4 \<and> string_start A = node_capacity A + 1 \<and>
     mmap_len A = (node_capacity A + string_capacity A) * slot_size \<and>
     node_capacity A + string_capacity A < 2 ^ 32 \<and>
     (string_allocated A = 0 \<or> string_allocated A < string_capacity A)"

lemma arena_new_inv: "arena_new io cap = Ret (Inr A) \<Longrightarrow> arena_inv A"
  by (auto simp: arena_new_def arena_inv_def Let_def split: if_splits option.splits)

lemma arena_alloc_inv: "arena_inv A \<Longrightarrow> arena_alloc A n = Ret (r, B) \<Longrightarrow> arena_inv B"
  by (auto simp: arena_alloc_def arena_inv_def Let_def split: if_splits)

lemma arena_get_mut_inv: "arena_inv A \<Longrightarrow> arena_inv (arena_get_mut A off f)"
  by (auto simp: arena_get_mut_def arena_inv_def)

text \<open>
  A block that would end in the last slot of the pool does not fit in the mapping, because the
  pool starts one slot late (\<open>string_start = node_capacity + 1\<close>): whatever is stored without
  leaving the mapping keeps the last slot free.
\<close>

lemma last_pool_slot:
  assumes "(nc + 1) * slot_size + idx * slot_size + total_bytes \<le> (nc + sc) * slot_size"
    and "x \<le> total_bytes" and "0 < total_bytes"
  shows "idx + (x + slot_size - 1) div slot_size < sc"
proof -
  have "(nc + 1 + idx) * slot_size + total_bytes \<le> (nc + sc) * slot_size"
    using assms(1) by (simp add: add_mult_distrib)
  then have "(idx + 1) * slot_size + x \<le> sc * slot_size"
    using assms(2) by (simp add: add_mult_distrib)
  then have "x + slot_size \<le> (sc - idx) * slot_size" and "idx < sc"
    using assms(1,3) by (auto simp: slot_size_def)
  moreover have "(x + slot_size - 1) div slot_size * slot_size < x + slot_size"
    using round_up_less [of slot_size x] by (simp add: round_up_def slot_size_def)
  ultimately have "(x + slot_size - 1) div slot_size * slot_size < (sc - idx) * slot_size" by linarith
  then have "(x + slot_size - 1) div slot_size < sc - idx" by simp
  with \<open>idx < sc\<close> show ?thesis by linarith
qed

lemma store_payload_inv:
  assumes "arena_inv A" and "store_payload A bs = Ret (r, B)"
  shows "arena_inv B"
proof (cases "B = A")
  case False
  let ?x = "(4 + length bs) mod 2 ^ 32"
  from False assms(2)
  have bnd: "string_start A * slot_size + string_allocated A * slot_size + (4 + length bs) \<le> mmap_len A"
    and B: "B = A\<lparr>string_allocated := string_allocated A + (?x + slot_size - 1) div slot_size,
        mmap := write_block (mmap A)
          (string_start A * slot_size + string_allocated A * slot_size) bs\<rparr>"
    by (auto simp: store_payload_def Let_def split: if_splits option.splits)
  have "string_allocated A + (?x + slot_size - 1) div slot_size < string_capacity A"
    using assms(1) bnd
    by (intro last_pool_slot [where nc = "node_capacity A" and total_bytes = "4 + length bs"])
       (simp_all add: arena_inv_def)
  with assms(1) show ?thesis unfolding B by (simp add: arena_inv_def)
qed (use assms in simp)

lemma store_string_payload:
  "store_string A s =
     (case store_payload A (str_bytes s) of
        Ret (r, B) \<Rightarrow> Ret (map_option fst r, B) | Panic \<Rightarrow> Panic | Fault \<Rightarrow> Fault)"
  by (auto simp: store_string_def store_payload_def str_bytes_def Let_def split: option.splits)

lemma store_string_inv: "arena_inv A \<Longrightarrow> store_string A s = Ret (r, B) \<Longrightarrow> arena_inv B"
  by (auto simp: store_string_payload split: outcome.splits prod.splits intro: store_payload_inv)

text \<open>
  The operations a client performs on an arena, as a step relation (blocks below 4 GiB), and
  the states it can bring an arena into.
\<close>

inductive arena_step :: "arena \<Rightarrow> arena \<Rightarrow> bool" where
  step_alloc: "arena_alloc A n = Ret (r, B) \<Longrightarrow> arena_step A B"
| step_get_mut: "arena_step A (arena_get_mut A off f)"
| step_string: "store_string A s = Ret (r', B) \<Longrightarrow> 4 + length s < 2 ^ 32 \<Longrightarrow> arena_step A B"
| step_payload: "store_payload A bs = Ret (r'', B) \<Longrightarrow> 4 + length bs < 2 ^ 32 \<Longrightarrow> arena_step A B"

definition arena_reach :: "arena \<Rightarrow> bool" where
  "arena_reach A \<longleftrightarrow> (\<exists>io cap A0. arena_new io cap = Ret (Inr A0) \<and> arena_step\<^sup>*\<^sup>* A0 A)"

lemma arena_step_inv: "arena_step A B \<Longrightarrow> arena_inv A \<Longrightarrow> arena_inv B"
  by (induction rule: arena_step.induct)
     (blast intro: arena_alloc_inv arena_get_mut_inv store_string_inv store_payload_inv)+

lemma arena_steps_inv: "arena_step\<^sup>*\<^sup>* A B \<Longrightarrow> arena_inv A \<Longrightarrow> arena_inv B"
  by (induction rule: rtranclp_induct) (auto intro: arena_step_inv)

lemma arena_reach_inv: "arena_reach A \<Longrightarrow> arena_inv A"
  by (auto simp: arena_reach_def intro: arena_steps_inv arena_new_inv)

section \<open>Nodes: allocation, lookup, update\<close>

lemma arena_alloc_total: "arena_inv A \<Longrightarrow> \<exists>r. arena_alloc A n = Ret r"
proof -
  assume inv: "arena_inv A"
  show ?thesis
  proof (cases "node_allocated A < node_capacity A")
    case True
    then have "node_allocated A * slot_size + slot_size \<le> mmap_len A"
      using inv mult_le_mono1 [of "node_allocated A + 1" "node_capacity A + string_capacity A" slot_size]
      by (simp add: arena_inv_def)
    with True show ?thesis by (simp add: arena_alloc_def Let_def)
  qed (simp add: arena_alloc_def)
qed

lemma arena_alloc_SomeD:
  "arena_alloc A n = Ret (Some off, B) \<Longrightarrow>
     off = node_allocated A \<and> node_allocated A < node_capacity A \<and>
     B = A\<lparr>node_allocated := node_allocated A + 1,
           mmap := mem_write (mmap A) (node_allocated A * slot_size) (encode_node n)\<rparr>"
  by (auto simp: arena_alloc_def Let_def split: if_splits)

lemma arena_alloc_NoneD:
  "arena_alloc A n = Ret (None, B) \<Longrightarrow> B = A \<and> node_capacity A \<le> node_allocated A"
  by (auto simp: arena_alloc_def Let_def split: if_splits)

lemma slot_disjoint:
  "i \<noteq> j \<Longrightarrow> i * slot_size + slot_size \<le> j * slot_size \<or> j * slot_size + slot_size \<le> i * slot_size"
  by (auto simp: slot_size_def)

lemma decode_node_other_slot:
  "i \<noteq> j \<Longrightarrow> decode_node (mem_write m (j * slot_size) (encode_node n)) (i * slot_size) =
     decode_node m (i * slot_size)"
  using slot_disjoint [of i j] by (intro decode_node_disjoint) auto

lemma arena_get_alloc:
  assumes "arena_inv A" and "node_wf n" and "arena_alloc A n = Ret (Some off, B)"
  shows "arena_get B = (arena_get A)(off \<mapsto> n)"
proof
  fix x
  from arena_alloc_SomeD [OF assms(3)]
  have off: "off = node_allocated A"
    and B: "B = A\<lparr>node_allocated := node_allocated A + 1,
                  mmap := mem_write (mmap A) (node_allocated A * slot_size) (encode_node n)\<rparr>"
    by auto
  from assms(1) have "1 \<le> node_allocated A" by (simp add: arena_inv_def)
  then show "arena_get B x = ((arena_get A)(off \<mapsto> n)) x"
    using assms(2)
    by (auto simp: arena_get_def off B decode_encode_node decode_node_other_slot)
qed

lemma arena_alloc_fresh:
  "arena_inv A \<Longrightarrow> arena_alloc A n = Ret (Some off, B) \<Longrightarrow> arena_get A off = None \<and> off \<noteq> 0"
  by (auto dest!: arena_alloc_SomeD simp: arena_get_def arena_inv_def)

lemma arena_get_get_mut:
  assumes "\<And>n. arena_get A off = Some n \<Longrightarrow> node_wf (f n)"
  shows "arena_get (arena_get_mut A off f) =
           (case arena_get A off of None \<Rightarrow> arena_get A | Some n \<Rightarrow> (arena_get A)(off \<mapsto> f n))"
proof
  fix x
  show "arena_get (arena_get_mut A off f) x =
          (case arena_get A off of None \<Rightarrow> arena_get A | Some n \<Rightarrow> (arena_get A)(off \<mapsto> f n)) x"
  proof (cases "arena_get A off")
    case None
    then show ?thesis by (auto simp: arena_get_def arena_get_mut_def split: if_splits)
  next
    case (Some n)
    then have "off \<noteq> 0" "off < node_allocated A" "n = decode_node (mmap A) (off * slot_size)"
      by (auto simp: arena_get_def split: if_splits)
    with Some assms [OF Some] show ?thesis
      by (auto simp: arena_get_def arena_get_mut_def decode_encode_node decode_node_other_slot)
  qed
qed

text \<open>Every lookup reads inside the mapping.\<close>

lemma arena_get_in_bounds:
  "arena_inv A \<Longrightarrow> arena_get A off = Some n \<Longrightarrow> off * slot_size + slot_size \<le> mmap_len A"
proof -
  assume inv: "arena_inv A" and "arena_get A off = Some n"
  then have "off + 1 \<le> node_capacity A + string_capacity A"
    by (auto simp: arena_get_def arena_inv_def split: if_splits)
  from mult_le_mono1 [OF this, of slot_size] inv show ?thesis by (simp add: arena_inv_def)
qed

section \<open>The string pool\<close>

text \<open>
  \<open>holds_bytes A off bs\<close>: the slot \<open>off\<close> of the pool carries the block with contents \<open>bs\<close>, within
  the allocated part of the pool and within the mapping.
\<close>

definition holds_bytes :: "arena \<Rightarrow> node_offset \<Rightarrow> u8 list \<Rightarrow> bool" where
  "holds_bytes A off bs \<longleftrightarrow>
     string_start A \<le> off \<and> off < string_start A + string_allocated A \<and> length bs < 2 ^ 32 \<and>
     off * slot_size + 4 + length bs \<le> (string_start A + string_allocated A) * slot_size \<and>
     off * slot_size + 4 + length bs \<le> mmap_len A \<and>
     mem_read (mmap A) (off * slot_size) 4 = le_bytes 4 (length bs) \<and>
     mem_read (mmap A) (off * slot_size + 4) (length bs) = bs"

lemma write_block_read:
  assumes "length bs < 2 ^ 32"
  shows "mem_read (write_block m b bs) b 4 = le_bytes 4 (length bs)"
    and "mem_read (write_block m b bs) (b + 4) (length bs) = bs"
proof -
  have "mem_read (mem_write m b (le_bytes 4 (length bs))) b 4 = le_bytes 4 (length bs)"
    using mem_read_write_same [of m b "le_bytes 4 (length bs)"] by simp
  with assms show "mem_read (write_block m b bs) b 4 = le_bytes 4 (length bs)"
    by (simp add: write_block_def mem_read_write_disjoint)
  show "mem_read (write_block m b bs) (b + 4) (length bs) = bs"
    by (simp add: write_block_def)
qed

lemma write_block_disjoint:
  "off + k \<le> b \<or> b + 4 + length bs \<le> off \<Longrightarrow> mem_read (write_block m b bs) off k = mem_read m off k"
  by (auto simp: write_block_def mem_read_write_disjoint)

lemma pool_slots_needed:
  assumes "t = (4 + len) + slot_size" shows "4 + len \<le> (t - 1) div slot_size * slot_size"
    and "1 \<le> (t - 1) div slot_size"
proof -
  show A: "4 + len \<le> (t - 1) div slot_size * slot_size"
    using round_up_ge [of slot_size "4 + len"] assms by (simp add: round_up_def slot_size_def)
  show "1 \<le> (t - 1) div slot_size"
    using A by (cases "(t - 1) div slot_size") auto
qed

text \<open>What a successful store did.\<close>

lemma store_payload_SomeD:
  assumes "store_payload A bs = Ret (Some (off, len), B)" and "bs \<noteq> []"
    and "4 + length bs < 2 ^ 32"
  shows "off = string_start A + string_allocated A" and "len = length bs"
    and "off * slot_size + 4 + length bs \<le> mmap_len A"
    and "string_allocated A < string_allocated B"
    and "off * slot_size + 4 + length bs \<le> (string_start A + string_allocated B) * slot_size"
    and "B = A\<lparr>string_allocated := string_allocated B,
               mmap := write_block (mmap A) (off * slot_size) bs\<rparr>"
proof -
  let ?s = "(4 + length bs + slot_size - 1) div slot_size"
  from assms have len: "len = length bs" and off: "off = string_start A + string_allocated A"
    and al: "string_allocated B = string_allocated A + ?s"
    and bnd: "string_start A * slot_size + string_allocated A * slot_size + 4 + length bs \<le> mmap_len A"
    and B: "B = A\<lparr>string_allocated := string_allocated A + ?s,
               mmap := write_block (mmap A)
                 (string_start A * slot_size + string_allocated A * slot_size) bs\<rparr>"
    by (auto simp: store_payload_def Let_def split: if_splits option.splits)
  have s: "4 + length bs \<le> ?s * slot_size" "1 \<le> ?s"
    using pool_slots_needed [of "4 + length bs + slot_size" "length bs"] by simp_all
  show "off = string_start A + string_allocated A" "len = length bs" by (fact off, fact len)
  show "off * slot_size + 4 + length bs \<le> mmap_len A"
    using bnd off by (simp add: add_mult_distrib)
  show "string_allocated A < string_allocated B" using al s by linarith
  show "off * slot_size + 4 + length bs \<le> (string_start A + string_allocated B) * slot_size"
    using s off al by (simp add: add_mult_distrib)
  show "B = A\<lparr>string_allocated := string_allocated B,
               mmap := write_block (mmap A) (off * slot_size) bs\<rparr>"
    using B off by (simp add: add_mult_distrib)
qed

lemma holds_bytes_store_payload:
  assumes "store_payload A bs = Ret (Some (off, len), B)" and "bs \<noteq> []" and "4 + length bs < 2 ^ 32"
  shows "holds_bytes B off bs"
proof -
  note D = store_payload_SomeD [OF assms]
  have "string_start B = string_start A" "mmap_len B = mmap_len A"
    "mmap B = write_block (mmap A) (off * slot_size) bs"
    by (subst D(6), simp)+
  with D(1,3,4,5) assms(3) show ?thesis
    by (simp add: holds_bytes_def write_block_read)
qed

text \<open>Blocks already in the pool survive every operation.\<close>

lemma holds_bytes_store_other:
  assumes "holds_bytes A off bs" and "store_payload A cs = Ret (r, B)" and "4 + length cs < 2 ^ 32"
  shows "holds_bytes B off bs"
proof (cases "cs = [] \<or> r = None")
  case True
  with assms(2) have "B = A"
    by (auto simp: store_payload_def Let_def split: if_splits option.splits)
  with assms(1) show ?thesis by simp
next
  case False
  then obtain off' len where r: "r = Some (off', len)" and cs: "cs \<noteq> []" by (cases r) auto
  note D = store_payload_SomeD [OF assms(2) [unfolded r] cs assms(3)]
  have B: "string_start B = string_start A" "mmap_len B = mmap_len A"
    "mmap B = write_block (mmap A) (off' * slot_size) cs"
    by (subst D(6), simp)+
  have before: "off * slot_size + 4 + length bs \<le> off' * slot_size"
    using assms(1) D(1) by (simp add: holds_bytes_def)
  have "off * slot_size + 4 + length bs \<le> (string_start A + string_allocated A) * slot_size"
    using assms(1) by (simp add: holds_bytes_def)
  also have "\<dots> \<le> (string_start A + string_allocated B) * slot_size"
    using D(4) by simp
  finally have within: "off * slot_size + 4 + length bs \<le> (string_start A + string_allocated B) * slot_size" .
  have "mem_read (mmap B) (off * slot_size) 4 = mem_read (mmap A) (off * slot_size) 4"
    "mem_read (mmap B) (off * slot_size + 4) (length bs) = mem_read (mmap A) (off * slot_size + 4) (length bs)"
    unfolding B(3) using before by (intro write_block_disjoint disjI1; linarith)+
  then show ?thesis
    using assms(1) D(4) within by (simp add: holds_bytes_def B(1,2))
qed

lemma holds_bytes_store_string:
  "holds_bytes A off bs \<Longrightarrow> store_string A s = Ret (r, B) \<Longrightarrow> 4 + length s < 2 ^ 32 \<Longrightarrow>
     holds_bytes B off bs"
  by (auto simp: store_string_payload split: outcome.splits prod.splits
      intro: holds_bytes_store_other [of A off bs "str_bytes s"])

lemma node_slot_below_pool:
  "arena_inv A \<Longrightarrow> holds_bytes A off bs \<Longrightarrow> i < node_capacity A \<Longrightarrow>
     i * slot_size + slot_size \<le> off * slot_size"
  using mult_le_mono1 [of "i + 1" off slot_size] by (simp add: holds_bytes_def arena_inv_def)

lemma holds_bytes_alloc:
  assumes "arena_inv A" and "holds_bytes A off bs" and "arena_alloc A n = Ret (r, B)"
  shows "holds_bytes B off bs"
proof (cases r)
  case None
  with assms show ?thesis by (auto dest: arena_alloc_NoneD)
next
  case (Some x)
  note D = arena_alloc_SomeD [OF assms(3) [unfolded Some]]
  with node_slot_below_pool [OF assms(1,2), of "node_allocated A"] assms(2)
  show ?thesis by (auto simp: holds_bytes_def mem_read_write_disjoint)
qed

lemma holds_bytes_get_mut:
  assumes "arena_inv A" and "holds_bytes A off bs"
  shows "holds_bytes (arena_get_mut A x f) off bs"
proof (cases "x = 0 \<or> x \<ge> node_allocated A")
  case True
  with assms(2) show ?thesis by (auto simp: arena_get_mut_def)
next
  case False
  with assms(1) have "x < node_capacity A" by (simp add: arena_inv_def)
  from node_slot_below_pool [OF assms this] assms(2) False
  show ?thesis by (auto simp: arena_get_mut_def holds_bytes_def mem_read_write_disjoint)
qed

lemma pool_byte_offset:
  "string_start A \<le> off \<Longrightarrow>
     string_start A * slot_size + (off - string_start A) * slot_size = off * slot_size"
  by (simp add: add_mult_distrib [symmetric])

lemma get_payload_holds:
  assumes "arena_inv A" and "holds_bytes A off bs"
  shows "get_payload A off (length bs) = Ret (Some bs)"
proof -
  have "off \<noteq> 0" "string_start A * slot_size + (off - string_start A) * slot_size = off * slot_size"
    using assms(1,2) pool_byte_offset [of A off] by (auto simp: holds_bytes_def arena_inv_def)
  moreover have "string_start A + string_allocated A < 2 ^ 32"
    using assms(1,2) by (auto simp: holds_bytes_def arena_inv_def)
  ultimately show ?thesis
    using assms(2)
    by (auto simp: get_payload_def holds_bytes_def is_null_def chk_defs Let_def)
qed

lemma get_string_holds:
  assumes "arena_inv A" and "holds_bytes A off bs" and "utf8_ok bs"
  shows "get_string A off = Ret (Some (bytes_str bs))"
proof -
  have "off \<noteq> 0" "string_start A * slot_size + (off - string_start A) * slot_size = off * slot_size"
    using assms(1,2) pool_byte_offset [of A off] by (auto simp: holds_bytes_def arena_inv_def)
  moreover have "string_start A + string_allocated A < 2 ^ 32"
    using assms(1,2) by (auto simp: holds_bytes_def arena_inv_def)
  ultimately show ?thesis
    using assms(2,3)
    by (auto simp: get_string_def holds_bytes_def is_null_def chk_defs Let_def)
qed

section \<open>The interface of the node store\<close>

text \<open>
  What the clients of the arena (parser, macro expander) rely on: \<open>alloc\<close> never fails to
  return, a new node gets an offset that named nothing before, and no other lookup changes.
\<close>

fun alloc_list :: "('s \<Rightarrow> 'n \<Rightarrow> (nat option \<times> 's) outcome) \<Rightarrow> 's \<Rightarrow> 'n list \<Rightarrow>
    (nat option list \<times> 's) outcome" where
  "alloc_list alloc s [] = Ret ([], s)"
| "alloc_list alloc s (n # ns) =
     (case alloc s n of
        Ret (r, t) \<Rightarrow>
          (case alloc_list alloc t ns of
             Ret (rs, u) \<Rightarrow> Ret (r # rs, u) | Panic \<Rightarrow> Panic | Fault \<Rightarrow> Fault)
      | Panic \<Rightarrow> Panic | Fault \<Rightarrow> Fault)"

locale node_store =
  fixes inv :: "'s \<Rightarrow> bool"
    and wf_node :: "'n \<Rightarrow> bool"
    and lookup :: "'s \<Rightarrow> nat \<Rightarrow> 'n option"
    and alloc :: "'s \<Rightarrow> 'n \<Rightarrow> (nat option \<times> 's) outcome"
  assumes alloc_total: "inv s \<Longrightarrow> \<exists>r. alloc s n = Ret r"
    and alloc_inv: "inv s \<Longrightarrow> alloc s n = Ret (r, t) \<Longrightarrow> inv t"
    and lookup_alloc: "inv s \<Longrightarrow> wf_node n \<Longrightarrow> alloc s n = Ret (Some off, t) \<Longrightarrow>
      lookup t = (lookup s)(off \<mapsto> n)"
    and alloc_fresh: "inv s \<Longrightarrow> alloc s n = Ret (Some off, t) \<Longrightarrow> lookup s off = None \<and> off \<noteq> 0"
    and alloc_full: "alloc s n = Ret (None, t) \<Longrightarrow> t = s"
begin

lemma alloc_list_total: "inv s \<Longrightarrow> \<exists>r. alloc_list alloc s ns = Ret r"
proof (induction ns arbitrary: s)
  case (Cons n ns)
  obtain r t where a: "alloc s n = Ret (r, t)" using alloc_total [OF Cons.prems] by fastforce
  from Cons.IH [OF alloc_inv [OF Cons.prems a]] a show ?case by (auto split: prod.splits)
qed simp

lemma alloc_step:
  assumes "inv s" and "wf_node n" and "alloc s n = Ret (r, t)"
  shows "lookup s \<subseteq>\<^sub>m lookup t" and "r = Some off \<Longrightarrow> lookup t off = Some n"
proof -
  show "lookup s \<subseteq>\<^sub>m lookup t"
  proof (cases r)
    case None
    with assms(3) show ?thesis by (auto dest: alloc_full)
  next
    case (Some x)
    with lookup_alloc [OF assms(1,2)] alloc_fresh [OF assms(1)] assms(3)
    show ?thesis by (auto simp: map_le_def dom_def)
  qed
  show "r = Some off \<Longrightarrow> lookup t off = Some n"
    using lookup_alloc [OF assms(1,2)] assms(3) by simp
qed

text \<open>A run of allocations keeps every node and stores each new one at the offset it returned.\<close>

lemma alloc_list_lookup:
  "inv s \<Longrightarrow> list_all wf_node ns \<Longrightarrow> alloc_list alloc s ns = Ret (rs, t) \<Longrightarrow>
     lookup s \<subseteq>\<^sub>m lookup t \<and> list_all2 (\<lambda>r n. \<forall>off. r = Some off \<longrightarrow> lookup t off = Some n) rs ns"
proof (induction ns arbitrary: s rs)
  case Nil
  then show ?case by simp
next
  case (Cons n ns)
  from Cons.prems(3) obtain r u rs' where a: "alloc s n = Ret (r, u)"
    and b: "alloc_list alloc u ns = Ret (rs', t)" and rs: "rs = r # rs'"
    by (auto split: outcome.splits)
  from Cons.prems have wf: "wf_node n" "list_all wf_node ns" by auto
  note st = alloc_step [OF Cons.prems(1) wf(1) a]
  from Cons.IH [OF alloc_inv [OF Cons.prems(1) a] wf(2) b] st(1)
  have keep: "lookup s \<subseteq>\<^sub>m lookup t" and "lookup u \<subseteq>\<^sub>m lookup t"
    and tl: "list_all2 (\<lambda>r n. \<forall>off. r = Some off \<longrightarrow> lookup t off = Some n) rs' ns"
    by (auto intro: map_le_trans)
  then have "\<forall>off. r = Some off \<longrightarrow> lookup t off = Some n"
    using st(2) by (auto simp: map_le_def dom_def)
  with keep tl show ?case by (simp add: rs)
qed

end

interpretation arena_nodes: node_store arena_inv node_wf arena_get arena_alloc
  by unfold_locales
     (blast intro: arena_alloc_total arena_alloc_inv arena_get_alloc dest: arena_alloc_fresh
        arena_alloc_NoneD)+

section \<open>Properties\<close>

lemma arena_step_holds:
  "arena_step A B \<Longrightarrow> arena_inv A \<Longrightarrow> holds_bytes A off bs \<Longrightarrow> holds_bytes B off bs"
  by (induction rule: arena_step.induct)
     (blast intro: holds_bytes_alloc holds_bytes_get_mut holds_bytes_store_string
        holds_bytes_store_other)+

lemma arena_steps_holds:
  "arena_step\<^sup>*\<^sup>* A B \<Longrightarrow> arena_inv A \<Longrightarrow> holds_bytes A off bs \<Longrightarrow> holds_bytes B off bs"
proof (induction rule: rtranclp_induct)
  case (step y z)
  then show ?case by (auto intro: arena_step_holds arena_steps_inv)
qed

lemma arena_reach_step: "arena_reach A \<Longrightarrow> arena_step A B \<Longrightarrow> arena_reach B"
  unfolding arena_reach_def by (blast intro: rtranclp.rtrancl_into_rtrancl)

lemma holds_bytes_stored_string:
  "store_string A s = Ret (Some off, B) \<Longrightarrow> s \<noteq> [] \<Longrightarrow> 4 + length s < 2 ^ 32 \<Longrightarrow>
     holds_bytes B off (str_bytes s)"
  by (auto simp: store_string_payload str_bytes_def split: outcome.splits
      intro!: holds_bytes_store_payload)

text \<open>
  C8: In every arena a client can reach, allocating a node returns the next unused offset, the
  new node is read back from it, every other lookup (nodes allocated before, offsets not yet
  allocated) is unchanged, and the arena is again a well-formed one.
\<close>

theorem arena_alloc_roundtrip:
  assumes "arena_reach A" and "node_wf n" and "arena_alloc A n = Ret (Some off, B)"
  shows "off = node_allocated A \<and> arena_get A off = None \<and>
         arena_get B = (arena_get A)(off \<mapsto> n) \<and> arena_reach B"
proof -
  note inv = arena_reach_inv [OF assms(1)]
  have "arena_reach B"
    using assms(1,3) by (blast intro: arena_reach_step step_alloc)
  then show ?thesis
    using arena_alloc_SomeD [OF assms(3)] arena_get_alloc [OF inv assms(2,3)]
      arena_alloc_fresh [OF inv assms(3)] by simp
qed

lemma arena_new_ok:
  "0 < cap \<Longrightarrow> cap + cap div 4 < 2 ^ 32 \<Longrightarrow> cap + 1 < 2 ^ 32 \<Longrightarrow>
   arena_new None cap = Ret (Inr \<lparr>mmap = (\<lambda>_. 0), mmap_len = (cap + cap div 4) * slot_size,
     node_capacity = cap, node_allocated = 1, string_start = cap + 1,
     string_capacity = cap div 4, string_allocated = 0\<rparr>)"
  by (simp add: arena_new_def chk_defs Let_def)

definition arena8 :: arena where
  "arena8 = \<lparr>mmap = (\<lambda>_. 0), mmap_len = 560, node_capacity = 8, node_allocated = 1,
     string_start = 9, string_capacity = 2, string_allocated = 0\<rparr>"

lemma arena8_new: "arena_new None 8 = Ret (Inr arena8)"
  using arena_new_ok [of 8] by (simp add: arena8_def slot_size_def)

lemma arena8_reach: "arena_reach arena8"
  using arena8_new by (auto simp: arena_reach_def)

lemma arena8_alloc: "\<exists>B. arena_alloc arena8 n = Ret (Some 1, B)"
  by (simp add: arena_alloc_def arena8_def slot_size_def)

theorem arena_alloc_roundtrip_witness:
  "\<exists>B. arena_alloc arena8 (cast_node_new 64) = Ret (Some 1, B) \<and>
       arena_get B 1 = Some (cast_node_new 64) \<and> arena_get arena8 1 = None \<and> arena_reach B"
proof -
  obtain B where B: "arena_alloc arena8 (cast_node_new 64) = Ret (Some 1, B)"
    using arena8_alloc by blast
  have "node_wf (cast_node_new 64)" by (simp add: node_wf_def cast_node_new_def source_unknown_def)
  from arena_alloc_roundtrip [OF arena8_reach this B] B show ?thesis by auto
qed

text \<open>
  C31: The number of nodes an arena yields is exact: of any run of allocations in a reachable
  arena, exactly the first \<open>remaining_nodes\<close> succeed; a fresh arena of capacity \<open>c\<close> therefore
  yields \<open>c - 1\<close> nodes (slot 0 is the null node).
\<close>

theorem arena_alloc_exhaustion:
  assumes "arena_reach A" and "alloc_list arena_alloc A ns = Ret (rs, B)"
  shows "rs = map Some [node_allocated A ..< node_allocated A + min (length ns) (remaining_nodes A)] @
              replicate (length ns - remaining_nodes A) None"
  using arena_reach_inv [OF assms(1)] assms(2)
proof (induction ns arbitrary: A rs)
  case Nil
  then show ?case by simp
next
  case (Cons n ns)
  from Cons.prems(2) obtain r C rs' where a: "arena_alloc A n = Ret (r, C)"
    and b: "alloc_list arena_alloc C ns = Ret (rs', B)" and rs: "rs = r # rs'"
    by (auto split: outcome.splits)
  note IH = Cons.IH [OF arena_alloc_inv [OF Cons.prems(1) a] b]
  show ?case
  proof (cases r)
    case None
    with arena_alloc_NoneD a have "C = A" "node_capacity A \<le> node_allocated A" by blast+
    with IH show ?thesis by (simp add: rs None remaining_nodes_def)
  next
    case (Some off)
    from arena_alloc_SomeD [OF a [unfolded Some]] have off: "off = node_allocated A"
      and lt: "node_allocated A < node_capacity A"
      and C: "node_allocated C = Suc (node_allocated A)" "node_capacity C = node_capacity A" by auto
    from lt obtain k where k: "node_capacity A - node_allocated A = Suc k"
      by (metis Suc_diff_Suc)
    then have "node_capacity A - Suc (node_allocated A) = k" by simp
    with IH k show ?thesis
      by (simp add: rs Some off remaining_nodes_def C upt_conv_Cons del: upt.simps)
  qed
qed

theorem arena_alloc_exhaustion_witness:
  "\<exists>B. alloc_list arena_alloc arena8 (replicate 9 (cast_node_new 1)) =
     Ret (map Some [1 ..< 8] @ [None, None], B)"
proof -
  obtain rs B where r: "alloc_list arena_alloc arena8 (replicate 9 (cast_node_new 1)) = Ret (rs, B)"
    using arena_nodes.alloc_list_total [OF arena_reach_inv [OF arena8_reach]] by fastforce
  from arena_alloc_exhaustion [OF arena8_reach r]
  have "rs = map Some [1 ..< 8] @ [None, None]"
    by (simp add: remaining_nodes_def arena8_def numeral_2_eq_2)
  with r show ?thesis by blast
qed

text \<open>
  C24: A string stored in a reachable arena is read back from the returned offset, and stays
  readable there through any further sequence of allocations, in-place node updates and stores:
  nodes never overwrite the pool and later blocks never overwrite earlier ones.
\<close>

theorem arena_string_persistent:
  assumes "arena_reach A" and "utf8_ok (str_bytes s)" and "4 + length s < 2 ^ 32"
    and "store_string A s = Ret (Some off, B)" and "arena_step\<^sup>*\<^sup>* B C"
  shows "get_string C off = Ret (Some s)"
proof (cases "s = []")
  case True
  with assms(4) show ?thesis by (auto simp: store_string_def get_string_def is_null_def)
next
  case False
  have invB: "arena_inv B" by (rule store_string_inv [OF arena_reach_inv [OF assms(1)] assms(4)])
  have "holds_bytes B off (str_bytes s)"
    by (rule holds_bytes_stored_string [OF assms(4) False assms(3)])
  from arena_steps_holds [OF assms(5) invB this] arena_steps_inv [OF assms(5) invB] assms(2)
  show ?thesis by (simp add: get_string_holds)
qed

lemma arena8_string: "\<exists>B. store_string arena8 ''main'' = Ret (Some 9, B)"
  by (simp add: store_string_def arena8_def slot_size_def chk_defs Let_def)

theorem arena_string_persistent_witness:
  "\<exists>B C. store_string arena8 ''main'' = Ret (Some 9, B) \<and>
     arena_alloc B (cast_node_new 60) = Ret (Some 1, C) \<and> get_string C 9 = Ret (Some ''main'')"
proof -
  obtain B where B: "store_string arena8 ''main'' = Ret (Some 9, B)"
    using arena8_string by blast
  then have B': "node_allocated B = 1" "node_capacity B = 8" "mmap_len B = 560"
    by (auto simp: store_string_def arena8_def Let_def split: if_splits option.splits)
  then have "\<exists>C. arena_alloc B (cast_node_new 60) = Ret (Some 1, C)"
    by (simp add: arena_alloc_def slot_size_def)
  then obtain C where C: "arena_alloc B (cast_node_new 60) = Ret (Some 1, C)" by blast
  then have "arena_step\<^sup>*\<^sup>* B C" by (blast intro: step_alloc)
  moreover have "utf8_ok (str_bytes ''main'')" by (simp add: str_bytes_def utf8_ok_ascii)
  ultimately have "get_string C 9 = Ret (Some ''main'')"
    using arena_string_persistent [OF arena8_reach _ _ B, of C] by simp
  with B C show ?thesis by blast
qed

text \<open>The number of slots a block of \<open>len\<close> bytes takes: its length word and the bytes, rounded up.\<close>

definition pool_slots :: "nat \<Rightarrow> nat" where
  "pool_slots len = (4 + len + slot_size - 1) div slot_size"

lemma pool_slots_less: "pool_slots len * slot_size < 4 + len + slot_size"
  using round_up_less [of slot_size "4 + len"] by (simp add: pool_slots_def round_up_def slot_size_def)

lemma pool_slots_ge: "4 + len \<le> pool_slots len * slot_size"
  using round_up_ge [of slot_size "4 + len"] by (simp add: pool_slots_def round_up_def slot_size_def)

lemma pool_fits_mapping:
  assumes "arena_inv A" and "string_allocated A + pool_slots len \<le> string_capacity A"
  shows "string_start A * slot_size + string_allocated A * slot_size + 4 + len \<le> mmap_len A \<longleftrightarrow>
         string_allocated A + pool_slots len < string_capacity A"
proof
  assume "string_start A * slot_size + string_allocated A * slot_size + 4 + len \<le> mmap_len A"
  then have "(node_capacity A + 1) * slot_size + string_allocated A * slot_size + (4 + len) \<le>
      (node_capacity A + string_capacity A) * slot_size"
    using assms(1) by (simp add: arena_inv_def)
  then show "string_allocated A + pool_slots len < string_capacity A"
    unfolding pool_slots_def by (rule last_pool_slot) simp_all
next
  assume "string_allocated A + pool_slots len < string_capacity A"
  then have "node_capacity A + 1 + string_allocated A + pool_slots len \<le>
      node_capacity A + string_capacity A" by linarith
  from mult_le_mono1 [OF this, of slot_size]
  have "(node_capacity A + 1) * slot_size + string_allocated A * slot_size + pool_slots len * slot_size \<le>
      (node_capacity A + string_capacity A) * slot_size"
    by (simp add: add_mult_distrib)
  moreover have "(node_capacity A + 1) * slot_size = string_start A * slot_size"
    "(node_capacity A + string_capacity A) * slot_size = mmap_len A"
    using assms(1) by (simp_all add: arena_inv_def)
  ultimately show "string_start A * slot_size + string_allocated A * slot_size + 4 + len \<le> mmap_len A"
    using pool_slots_ge [of len] by linarith
qed

text \<open>
  C32: The three outcomes of storing a non-empty string in a reachable arena, exactly: refused
  when the pool has too few slots left, stored at the next pool slot when at least one slot stays
  free, and a write outside the mapping (undefined behaviour) when the string would exactly use
  up the pool. The last case is a defect: \<open>string_start\<close> is \<open>node_capacity + 1\<close>, while the
  mapping has \<open>node_capacity + string_capacity\<close> slots.
\<close>

theorem store_string_outcomes:
  assumes "arena_reach A" and "s \<noteq> []" and "4 + length s + slot_size < 2 ^ 32"
  shows "(store_string A s = Ret (None, A) \<longleftrightarrow>
            string_capacity A < string_allocated A + pool_slots (length s)) \<and>
         (store_string A s = Fault \<longleftrightarrow>
            string_allocated A + pool_slots (length s) = string_capacity A) \<and>
         ((\<exists>B. store_string A s = Ret (Some (string_start A + string_allocated A), B)) \<longleftrightarrow>
            string_allocated A + pool_slots (length s) < string_capacity A)"
proof -
  note inv = arena_reach_inv [OF assms(1)]
  let ?n = "string_allocated A + pool_slots (length s)"
  have "string_allocated A < 2 ^ 31"
    using inv by (auto simp: arena_inv_def)
  moreover have "pool_slots (length s) < 2 ^ 31"
    using pool_slots_less [of "length s"] assms(3) by (simp add: slot_size_def)
  ultimately have small: "?n < 2 ^ 32" by simp
  have eq: "store_string A s =
     (if ?n > string_capacity A then Ret (None, A)
      else if string_start A * slot_size + string_allocated A * slot_size + 4 + length s > mmap_len A
      then Fault
      else Ret (Some (string_start A + string_allocated A),
             A\<lparr>string_allocated := ?n,
               mmap := write_block (mmap A)
                 (string_start A * slot_size + string_allocated A * slot_size) (str_bytes s)\<rparr>))"
    using assms(2,3) small by (simp add: store_string_def pool_slots_def chk_add_def Let_def)
  show ?thesis
  proof (cases "?n > string_capacity A")
    case False
    with pool_fits_mapping [OF inv, of "length s"] show ?thesis by (auto simp: eq)
  qed (auto simp: eq)
qed

theorem store_string_outcomes_witness:
  "store_string arena8 (replicate 60 CHR ''x'') = Fault \<and>
   (\<exists>B. store_string arena8 ''x'' = Ret (Some 9, B))"
proof -
  have "store_string arena8 (replicate 60 CHR ''x'') = Fault"
    using store_string_outcomes [OF arena8_reach, of "replicate 60 CHR ''x''"]
    by (simp add: pool_slots_def arena8_def slot_size_def)
  moreover have "\<exists>B. store_string arena8 ''x'' = Ret (Some 9, B)"
    using store_string_outcomes [OF arena8_reach, of "''x''"]
    by (simp add: pool_slots_def arena8_def slot_size_def)
  ultimately show ?thesis by simp
qed

section \<open>Sample trees\<close>

lemma arena_alloc_next:
  assumes "arena_reach A" and "node_allocated A < node_capacity A" and "node_wf n"
  obtains B where "arena_reach B" "arena_get B = (arena_get A)(node_allocated A \<mapsto> n)"
    "node_allocated B = node_allocated A + 1" "node_capacity B = node_capacity A"
proof -
  note inv = arena_reach_inv [OF assms(1)]
  obtain B where B: "arena_alloc A n = Ret (Some (node_allocated A), B)"
    "node_allocated B = node_allocated A + 1" "node_capacity B = node_capacity A"
  proof -
    obtain r B where "arena_alloc A n = Ret (r, B)" using arena_alloc_total [OF inv] by fastforce
    with assms(2) that show thesis
      by (cases r) (auto dest: arena_alloc_SomeD arena_alloc_NoneD)
  qed
  have "arena_step A B" using B(1) assms(3) by (intro arena_step.intros)
  with assms(1) have "arena_reach B" by (rule arena_reach_step)
  with arena_get_alloc [OF inv assms(3) B(1)] B(2,3) that show thesis by blast
qed

text \<open>A reachable arena that holds a given list of at most seven nodes at the offsets 1, 2, \<open>\<dots>\<close>.\<close>

lemma arena_holding:
  "list_all node_wf ns \<Longrightarrow> length ns \<le> 7 \<Longrightarrow>
   \<exists>A. arena_reach A \<and> node_allocated A = length ns + 1 \<and> node_capacity A = 8 \<and>
     (\<forall>i. arena_get A i = (if 1 \<le> i \<and> i \<le> length ns then Some (ns ! (i - 1)) else None))"
proof (induction ns rule: rev_induct)
  case Nil
  show ?case by (rule exI [of _ arena8]) (simp add: arena8_reach, auto simp: arena8_def arena_get_def)
next
  case (snoc n ns)
  then obtain A where A: "arena_reach A" "node_allocated A = length ns + 1" "node_capacity A = 8"
    "\<forall>i. arena_get A i = (if 1 \<le> i \<and> i \<le> length ns then Some (ns ! (i - 1)) else None)"
    by auto
  obtain B where "arena_reach B" "arena_get B = (arena_get A)(node_allocated A \<mapsto> n)"
    "node_allocated B = node_allocated A + 1" "node_capacity B = node_capacity A"
    using arena_alloc_next [OF A(1)] A(2,3) snoc.prems by auto
  with A show ?case by (intro exI [of _ B]) (auto simp: nth_append)
qed

end
