(* ===== verification/TypeSystem.thy ===== *)
theory TypeSystem
  imports Prelude "HOL-Library.Sublist"
begin

text \<open>
  The C type table of \<open>src/src/types/mod.rs\<close>: a vector of types addressed by \<open>TypeId\<close>, with a
  hash-consing cache, the size, alignment and classification queries, and the layout of structs,
  unions and bit-fields.

  The queries that follow type references are loops or recursions over the table, which may hold
  a cycle; they are partial functions into \<open>option\<close>, where \<open>None\<close> means that the Rust call does
  not return a value (it panics on an arithmetic overflow, or recurses for ever).
\<close>

section \<open>Data\<close>

type_synonym type_id = u32

definition VOID_T :: type_id where "VOID_T = 0"
definition BOOL_T :: type_id where "BOOL_T = 1"
definition CHAR_T :: type_id where "CHAR_T = 2"
definition SCHAR_T :: type_id where "SCHAR_T = 3"
definition UCHAR_T :: type_id where "UCHAR_T = 4"
definition SHORT_T :: type_id where "SHORT_T = 5"
definition USHORT_T :: type_id where "USHORT_T = 6"
definition INT_T :: type_id where "INT_T = 7"
definition UINT_T :: type_id where "UINT_T = 8"
definition LONG_T :: type_id where "LONG_T = 9"
definition ULONG_T :: type_id where "ULONG_T = 10"
definition LONGLONG_T :: type_id where "LONGLONG_T = 11"
definition ULONGLONG_T :: type_id where "ULONGLONG_T = 12"
definition FLOAT_T :: type_id where "FLOAT_T = 13"
definition DOUBLE_T :: type_id where "DOUBLE_T = 14"
definition LONGDOUBLE_T :: type_id where "LONGDOUBLE_T = 15"

lemmas type_id_defs =
  VOID_T_def BOOL_T_def CHAR_T_def SCHAR_T_def UCHAR_T_def SHORT_T_def USHORT_T_def INT_T_def UINT_T_def
  LONG_T_def ULONG_T_def LONGLONG_T_def ULONGLONG_T_def FLOAT_T_def DOUBLE_T_def LONGDOUBLE_T_def

record struct_member =
  m_name :: string
  m_type :: type_id
  m_offset :: u64
  m_bit_offset :: "u32 option"
  m_bit_width :: "u32 option"

record param_type =
  p_name :: "string option"
  p_type :: type_id

type_synonym type_qualifiers = "8 word"

definition Q_CONST :: type_qualifiers where "Q_CONST = 1"
definition Q_VOLATILE :: type_qualifiers where "Q_VOLATILE = 2"
definition Q_RESTRICT :: type_qualifiers where "Q_RESTRICT = 4"

datatype ctype =
    TVoid
  | TBool
  | TChar bool
  | TShort bool
  | TInt bool
  | TLong bool
  | TLongLong bool
  | TFloat
  | TDouble
  | TLongDouble
  | TPointer type_id
  | TArray type_id "u64 option"
  | TStruct "string option" "struct_member list" u64 u64
  | TUnion "string option" "struct_member list" u64 u64
  | TEnum "string option" type_id
  | TFunction type_id "param_type list" bool
  | TTypedef string type_id
  | TQualified type_qualifiers type_id

datatype type_signature =
    SVoid
  | SBool
  | SChar bool
  | SShort bool
  | SInt bool
  | SLong bool
  | SLongLong bool
  | SFloat
  | SDouble
  | SLongDouble
  | SPointer type_id
  | SArray type_id "u64 option"
  | SFunction type_id "param_type list" bool
  | SEnum "string option" type_id
  | STypedef string type_id
  | SQualified type_qualifiers type_id

fun from_ctype :: "ctype \<Rightarrow> type_signature option" where
  "from_ctype TVoid = Some SVoid"
| "from_ctype TBool = Some SBool"
| "from_ctype (TChar sg) = Some (SChar sg)"
| "from_ctype (TShort sg) = Some (SShort sg)"
| "from_ctype (TInt sg) = Some (SInt sg)"
| "from_ctype (TLong sg) = Some (SLong sg)"
| "from_ctype (TLongLong sg) = Some (SLongLong sg)"
| "from_ctype TFloat = Some SFloat"
| "from_ctype TDouble = Some SDouble"
| "from_ctype TLongDouble = Some SLongDouble"
| "from_ctype (TPointer base) = Some (SPointer base)"
| "from_ctype (TArray element n) = Some (SArray element n)"
| "from_ctype (TFunction return_type params variadic) = Some (SFunction return_type params variadic)"
| "from_ctype (TEnum name underlying) = Some (SEnum name underlying)"
| "from_ctype (TTypedef name underlying) = Some (STypedef name underlying)"
| "from_ctype (TQualified qualifiers base) = Some (SQualified qualifiers base)"
| "from_ctype (TStruct _ _ _ _) = None"
| "from_ctype (TUnion _ _ _ _) = None"

record type_system =
  types :: "ctype list"
  type_cache :: "type_signature \<rightharpoonup> type_id"

definition primitive_types :: "ctype list" where
  "primitive_types =
     [TVoid, TBool, TChar False, TChar True, TChar False, TShort True, TShort False,
      TInt True, TInt False, TLong True, TLong False, TLongLong True, TLongLong False,
      TFloat, TDouble, TLongDouble]"

definition type_system_new :: type_system where
  "type_system_new =
     \<lparr>types = primitive_types,
      type_cache = fold (\<lambda>i cache. case from_ctype (primitive_types ! i) of
                                     Some sig \<Rightarrow> cache(sig \<mapsto> i) | None \<Rightarrow> cache)
                        [0 ..< 16] Map.empty\<rparr>"

section \<open>Lookup and insertion\<close>

definition get_type :: "type_system \<Rightarrow> type_id \<Rightarrow> ctype option" where
  "get_type ts tid = (if tid < length (types ts) then Some (types ts ! tid) else None)"

definition add_type :: "type_system \<Rightarrow> ctype \<Rightarrow> type_id \<times> type_system" where
  "add_type ts ty =
     (case (case from_ctype ty of None \<Rightarrow> None | Some sig \<Rightarrow> type_cache ts sig) of
        Some existing_id \<Rightarrow> (existing_id, ts)
      | None \<Rightarrow>
          let tid = length (types ts) mod 2 ^ 32;
              cache = (case from_ctype ty of
                         Some sig \<Rightarrow> (type_cache ts)(sig \<mapsto> tid) | None \<Rightarrow> type_cache ts)
          in (tid, ts\<lparr>types := types ts @ [ty], type_cache := cache\<rparr>))"

section \<open>Size, alignment and classification\<close>

partial_function (option) size_of :: "type_system \<Rightarrow> type_id \<Rightarrow> u64 option" where
  "size_of ts tid =
     (case get_type ts tid of
        None \<Rightarrow> Some 0
      | Some ty \<Rightarrow>
          (case ty of
             TVoid \<Rightarrow> Some 0
           | TBool \<Rightarrow> Some 1
           | TChar _ \<Rightarrow> Some 1
           | TShort _ \<Rightarrow> Some 2
           | TInt _ \<Rightarrow> Some 4
           | TLong _ \<Rightarrow> Some 8
           | TLongLong _ \<Rightarrow> Some 8
           | TFloat \<Rightarrow> Some 4
           | TDouble \<Rightarrow> Some 8
           | TLongDouble \<Rightarrow> Some 16
           | TPointer _ \<Rightarrow> Some 8
           | TArray element n \<Rightarrow>
               Option.bind (size_of ts element)
                 (\<lambda>elem_size. case n of Some k \<Rightarrow> chk_mul 64 elem_size k | None \<Rightarrow> Some 0)
           | TStruct _ _ sz _ \<Rightarrow> Some sz
           | TUnion _ _ sz _ \<Rightarrow> Some sz
           | TEnum _ underlying \<Rightarrow> size_of ts underlying
           | TFunction _ _ _ \<Rightarrow> Some 0
           | TTypedef _ underlying \<Rightarrow> size_of ts underlying
           | TQualified _ base \<Rightarrow> size_of ts base))"

partial_function (option) align_of :: "type_system \<Rightarrow> type_id \<Rightarrow> u64 option" where
  "align_of ts tid =
     (case get_type ts tid of
        None \<Rightarrow> Some 1
      | Some ty \<Rightarrow>
          (case ty of
             TVoid \<Rightarrow> Some 1
           | TBool \<Rightarrow> Some 1
           | TChar _ \<Rightarrow> Some 1
           | TShort _ \<Rightarrow> Some 2
           | TInt _ \<Rightarrow> Some 4
           | TLong _ \<Rightarrow> Some 8
           | TLongLong _ \<Rightarrow> Some 8
           | TFloat \<Rightarrow> Some 4
           | TDouble \<Rightarrow> Some 8
           | TLongDouble \<Rightarrow> Some 16
           | TPointer _ \<Rightarrow> Some 8
           | TArray element _ \<Rightarrow> align_of ts element
           | TStruct _ _ _ align \<Rightarrow> Some align
           | TUnion _ _ _ align \<Rightarrow> Some align
           | TEnum _ underlying \<Rightarrow> align_of ts underlying
           | TFunction _ _ _ \<Rightarrow> Some 1
           | TTypedef _ underlying \<Rightarrow> align_of ts underlying
           | TQualified _ base \<Rightarrow> align_of ts base))"

partial_function (option) is_integer :: "type_system \<Rightarrow> type_id \<Rightarrow> bool option" where
  "is_integer ts tid =
     (case get_type ts tid of
        None \<Rightarrow> Some False
      | Some ty \<Rightarrow>
          (case ty of
             TBool \<Rightarrow> Some True
           | TChar _ \<Rightarrow> Some True
           | TShort _ \<Rightarrow> Some True
           | TInt _ \<Rightarrow> Some True
           | TLong _ \<Rightarrow> Some True
           | TLongLong _ \<Rightarrow> Some True
           | TEnum _ _ \<Rightarrow> Some True
           | TQualified _ base \<Rightarrow> is_integer ts base
           | TTypedef _ underlying \<Rightarrow> is_integer ts underlying
           | _ \<Rightarrow> Some False))"

partial_function (option) strip_qualifiers :: "type_system \<Rightarrow> type_id \<Rightarrow> type_id option" where
  "strip_qualifiers ts current =
     (case get_type ts current of
        Some ty \<Rightarrow> (case ty of TQualified _ base \<Rightarrow> strip_qualifiers ts base | _ \<Rightarrow> Some current)
      | None \<Rightarrow> Some current)"

definition is_floating :: "type_system \<Rightarrow> type_id \<Rightarrow> bool" where
  "is_floating ts tid =
     (case get_type ts tid of
        Some TFloat \<Rightarrow> True | Some TDouble \<Rightarrow> True | Some TLongDouble \<Rightarrow> True | _ \<Rightarrow> False)"

definition is_pointer :: "type_system \<Rightarrow> type_id \<Rightarrow> bool" where
  "is_pointer ts tid = (case get_type ts tid of Some (TPointer _) \<Rightarrow> True | _ \<Rightarrow> False)"

text \<open>\<open>||\<close> evaluates its right operand only when the left one is false.\<close>

definition is_arithmetic :: "type_system \<Rightarrow> type_id \<Rightarrow> bool option" where
  "is_arithmetic ts tid =
     Option.bind (is_integer ts tid) (\<lambda>b. Some (b \<or> is_floating ts tid))"

definition is_scalar :: "type_system \<Rightarrow> type_id \<Rightarrow> bool option" where
  "is_scalar ts tid =
     Option.bind (is_arithmetic ts tid) (\<lambda>b. Some (b \<or> is_pointer ts tid))"

lemma unvisited_less:
  "(c :: nat) < n \<Longrightarrow> c \<notin> set visited \<Longrightarrow>
     card ({..< n} - set (visited @ [c])) < card ({..< n} - set visited)"
proof -
  assume "c < n" and "c \<notin> set visited"
  then have "card ({..< n} - set visited - {c}) < card ({..< n} - set visited)"
    by (intro card_Diff1_less) auto
  moreover have "{..< n} - set (visited @ [c]) = {..< n} - set visited - {c}" by auto
  ultimately show ?thesis by simp
qed

lemma get_type_less: "get_type ts tid = Some ty \<Longrightarrow> tid < length (types ts)"
  by (simp add: get_type_def split: if_splits)

function resolve_loop :: "type_system \<Rightarrow> type_id \<Rightarrow> type_id list \<Rightarrow> type_id" where
  "resolve_loop ts current visited =
     (if current \<in> set visited then current
      else case get_type ts current of
             Some (TTypedef _ underlying) \<Rightarrow> resolve_loop ts underlying (visited @ [current])
           | Some (TQualified _ base) \<Rightarrow> resolve_loop ts base (visited @ [current])
           | _ \<Rightarrow> current)"
  by pat_completeness auto
termination
  by (relation "measure (\<lambda>(ts, current, visited). card ({..< length (types ts)} - set visited))")
     (simp_all only: in_measure case_prod_conv wf_measure, (blast intro: unvisited_less get_type_less)+)

declare resolve_loop.simps [simp del]

definition resolve_typedef :: "type_system \<Rightarrow> type_id \<Rightarrow> type_id" where
  "resolve_typedef ts tid = resolve_loop ts tid []"

definition integer_rank :: "type_system \<Rightarrow> type_id \<Rightarrow> u32" where
  "integer_rank ts tid =
     (case get_type ts (resolve_typedef ts tid) of
        Some TBool \<Rightarrow> 0
      | Some (TChar _) \<Rightarrow> 1
      | Some (TShort _) \<Rightarrow> 2
      | Some (TInt _) \<Rightarrow> 3
      | Some (TLong _) \<Rightarrow> 4
      | Some (TLongLong _) \<Rightarrow> 5
      | Some TFloat \<Rightarrow> 6
      | Some TDouble \<Rightarrow> 7
      | Some TLongDouble \<Rightarrow> 8
      | _ \<Rightarrow> 3)"

definition is_signed :: "type_system \<Rightarrow> type_id \<Rightarrow> bool" where
  "is_signed ts tid =
     (case get_type ts (resolve_typedef ts tid) of
        Some TBool \<Rightarrow> False
      | Some (TChar sg) \<Rightarrow> sg
      | Some (TShort sg) \<Rightarrow> sg
      | Some (TInt sg) \<Rightarrow> sg
      | Some (TLong sg) \<Rightarrow> sg
      | Some (TLongLong sg) \<Rightarrow> sg
      | _ \<Rightarrow> False)"

definition pointer_base :: "type_system \<Rightarrow> type_id \<Rightarrow> type_id option" where
  "pointer_base ts tid = (case get_type ts tid of Some (TPointer base) \<Rightarrow> Some base | _ \<Rightarrow> None)"

definition void_type_id :: type_id where "void_type_id = VOID_T"
definition bool_type_id :: type_id where "bool_type_id = BOOL_T"
definition char_type_id :: type_id where "char_type_id = CHAR_T"
definition int_type_id :: type_id where "int_type_id = INT_T"
definition long_type_id :: type_id where "long_type_id = LONG_T"
definition double_type_id :: type_id where "double_type_id = DOUBLE_T"

section \<open>Struct and union layout\<close>

record layout_info =
  li_size :: u64
  li_align :: u64
  li_members :: "struct_member list"

text \<open>The local variables of the loop over the members of a struct.\<close>

record layout_state =
  l_offset :: u64
  l_max_align :: u64
  bf_base :: "u64 option"
  bf_bits :: u32
  bf_type_size :: u64
  l_members :: "struct_member list"

definition layout_start :: layout_state where
  "layout_start = \<lparr>l_offset = 0, l_max_align = 1, bf_base = None, bf_bits = 0,
                   bf_type_size = 0, l_members = []\<rparr>"

text \<open>Leaving an open bit-field unit: the offset moves past it.\<close>

definition close_unit :: "layout_state \<Rightarrow> layout_state option" where
  "close_unit st =
     (case bf_base st of
        None \<Rightarrow> Some st
      | Some base \<Rightarrow> do {
          off \<leftarrow> chk_add 64 base (bf_type_size st);
          Some (st\<lparr>l_offset := off, bf_base := None, bf_bits := 0\<rparr>) })"

text \<open>A member that is not packed into a bit-field unit.\<close>

definition place_plain ::
  "layout_state \<Rightarrow> struct_member \<Rightarrow> u64 \<Rightarrow> u64 \<Rightarrow> u32 option \<Rightarrow> u32 option \<Rightarrow> layout_state option" where
  "place_plain st member m_align m_size bit_off bit_wid = do {
     st1 \<leftarrow> close_unit st;
     off \<leftarrow> chk_round_up 64 (l_offset st1) m_align;
     nxt \<leftarrow> chk_add 64 off m_size;
     Some (st1\<lparr>l_offset := nxt,
              l_members := l_members st1 @
                [member\<lparr>m_offset := off, m_bit_offset := bit_off, m_bit_width := bit_wid\<rparr>]\<rparr>) }"

definition place_bitfield ::
  "layout_state \<Rightarrow> struct_member \<Rightarrow> u64 \<Rightarrow> u64 \<Rightarrow> u32 \<Rightarrow> layout_state option" where
  "place_bitfield st member m_align m_size bit_wid = do {
     st1 \<leftarrow> (case bf_base st of
               None \<Rightarrow> Some st
             | Some base \<Rightarrow> do {
                 unit_bits \<leftarrow> chk_mul 64 (bf_type_size st) 8;
                 bits_remaining \<leftarrow> chk_sub (unit_bits mod 2 ^ 32) (bf_bits st);
                 if bits_remaining < bit_wid then close_unit st else Some st });
     (base, st2) \<leftarrow> (case bf_base st1 of
               Some base \<Rightarrow> Some (base, st1)
             | None \<Rightarrow> do {
                 off \<leftarrow> chk_round_up 64 (l_offset st1) m_align;
                 Some (off, st1\<lparr>l_offset := off, bf_base := Some off, bf_type_size := m_size,
                               bf_bits := 0\<rparr>) });
     used \<leftarrow> chk_add 32 (bf_bits st2) bit_wid;
     Some (st2\<lparr>bf_bits := used,
              l_members := l_members st2 @
                [member\<lparr>m_offset := base, m_bit_offset := Some (bf_bits st2),
                        m_bit_width := Some bit_wid\<rparr>]\<rparr>) }"

definition layout_member :: "type_system \<Rightarrow> layout_state \<Rightarrow> struct_member \<Rightarrow> layout_state option" where
  "layout_member ts st member = do {
     m_align \<leftarrow> align_of ts (m_type member);
     m_size \<leftarrow> size_of ts (m_type member);
     let st = st\<lparr>l_max_align := (if m_align > l_max_align st then m_align else l_max_align st)\<rparr>;
     case (m_bit_offset member, m_bit_width member) of
       (Some bit_off, Some bit_wid) \<Rightarrow>
         if bit_off = 0 \<and> bit_wid > 0 then place_bitfield st member m_align m_size bit_wid
         else place_plain st member m_align m_size (m_bit_offset member) (m_bit_width member)
     | _ \<Rightarrow> place_plain st member m_align m_size None None }"

fun layout_members :: "type_system \<Rightarrow> layout_state \<Rightarrow> struct_member list \<Rightarrow> layout_state option" where
  "layout_members ts st [] = Some st"
| "layout_members ts st (m # ms) = do { st' \<leftarrow> layout_member ts st m; layout_members ts st' ms }"

fun union_members :: "type_system \<Rightarrow> u64 \<Rightarrow> u64 \<Rightarrow> struct_member list \<Rightarrow> (u64 \<times> u64) option" where
  "union_members ts max_align max_size [] = Some (max_align, max_size)"
| "union_members ts max_align max_size (m # ms) = do {
     m_align \<leftarrow> align_of ts (m_type m);
     m_size \<leftarrow> size_of ts (m_type m);
     union_members ts (if m_align > max_align then m_align else max_align)
                      (if m_size > max_size then m_size else max_size) ms }"

definition compute_layout_info :: "type_system \<Rightarrow> struct_member list \<Rightarrow> bool \<Rightarrow> layout_info option" where
  "compute_layout_info ts members is_union =
     (if is_union then do {
        (max_align, max_size) \<leftarrow> union_members ts 1 0 members;
        rounded \<leftarrow> (if max_align > 0 then chk_round_up 64 max_size max_align else Some max_size);
        Some \<lparr>li_size = rounded, li_align = max_align,
              li_members = map (\<lambda>m. m\<lparr>m_offset := 0\<rparr>) members\<rparr> }
      else do {
        st0 \<leftarrow> layout_members ts layout_start members;
        st \<leftarrow> close_unit st0;
        rounded \<leftarrow> (if l_max_align st > 0 then chk_round_up 64 (l_offset st) (l_max_align st)
                   else Some (l_offset st));
        Some \<lparr>li_size = rounded, li_align = l_max_align st, li_members = l_members st\<rparr> })"

definition update_struct_layout ::
  "type_system \<Rightarrow> type_id \<Rightarrow> u64 \<Rightarrow> u64 \<Rightarrow> struct_member list \<Rightarrow> type_system" where
  "update_struct_layout ts tid sz al ms =
     (case get_type ts tid of
        Some (TStruct name _ _ _) \<Rightarrow> ts\<lparr>types := (types ts)[tid := TStruct name ms sz al]\<rparr>
      | Some (TUnion name _ _ _) \<Rightarrow> ts\<lparr>types := (types ts)[tid := TUnion name ms sz al]\<rparr>
      | _ \<Rightarrow> ts)"

definition compute_struct_layout :: "type_system \<Rightarrow> type_id \<Rightarrow> type_system option" where
  "compute_struct_layout ts tid =
     (case (case get_type ts tid of
              Some (TStruct _ members _ align) \<Rightarrow> Some (members, align, False)
            | Some (TUnion _ members _ align) \<Rightarrow> Some (members, align, True)
            | _ \<Rightarrow> None) of
        None \<Rightarrow> Some ts
      | Some (members, align, is_union) \<Rightarrow>
          if align = 0 then do {
            computed \<leftarrow> compute_layout_info ts members is_union;
            Some (update_struct_layout ts tid (li_size computed) (li_align computed)
                    (li_members computed)) }
          else Some ts)"

section \<open>The table and its cache\<close>

text \<open>A signature determines the type it was taken from.\<close>

fun ctype_of :: "type_signature \<Rightarrow> ctype" where
  "ctype_of SVoid = TVoid"
| "ctype_of SBool = TBool"
| "ctype_of (SChar sg) = TChar sg"
| "ctype_of (SShort sg) = TShort sg"
| "ctype_of (SInt sg) = TInt sg"
| "ctype_of (SLong sg) = TLong sg"
| "ctype_of (SLongLong sg) = TLongLong sg"
| "ctype_of SFloat = TFloat"
| "ctype_of SDouble = TDouble"
| "ctype_of SLongDouble = TLongDouble"
| "ctype_of (SPointer base) = TPointer base"
| "ctype_of (SArray element n) = TArray element n"
| "ctype_of (SFunction return_type params variadic) = TFunction return_type params variadic"
| "ctype_of (SEnum name underlying) = TEnum name underlying"
| "ctype_of (STypedef name underlying) = TTypedef name underlying"
| "ctype_of (SQualified qualifiers base) = TQualified qualifiers base"

lemma ctype_of_from_ctype: "from_ctype ty = Some sig \<Longrightarrow> ctype_of sig = ty"
  by (cases ty) auto

lemma from_ctype_inj: "from_ctype a = Some sig \<Longrightarrow> from_ctype b = Some sig \<Longrightarrow> a = b"
  by (auto dest: ctype_of_from_ctype)

lemma from_ctype_None:
  "from_ctype ty = None \<longleftrightarrow> (\<exists>n ms s a. ty = TStruct n ms s a \<or> ty = TUnion n ms s a)"
  by (cases ty) auto

definition cache_ok :: "type_system \<Rightarrow> bool" where
  "cache_ok ts \<longleftrightarrow>
     (\<forall>sig i. type_cache ts sig = Some i \<longrightarrow>
        (\<exists>ty. get_type ts i = Some ty \<and> from_ctype ty = Some sig))"

text \<open>The references that size, alignment and classification follow.\<close>

fun size_refs :: "ctype \<Rightarrow> type_id list" where
  "size_refs (TArray element _) = [element]"
| "size_refs (TEnum _ underlying) = [underlying]"
| "size_refs (TTypedef _ underlying) = [underlying]"
| "size_refs (TQualified _ base) = [base]"
| "size_refs _ = []"

definition types_wf :: "type_system \<Rightarrow> bool" where
  "types_wf ts \<longleftrightarrow> (\<forall>i ty r. get_type ts i = Some ty \<and> r \<in> set (size_refs ty) \<longrightarrow> r < i)"

lemma types_wfD: "types_wf ts \<Longrightarrow> get_type ts i = Some ty \<Longrightarrow> r \<in> set (size_refs ty) \<Longrightarrow> r < i"
  by (auto simp: types_wf_def)

lemma type_cache_new:
  "type_cache type_system_new =
     [SVoid \<mapsto> 0, SBool \<mapsto> 1, SChar True \<mapsto> 3, SChar False \<mapsto> 4, SShort True \<mapsto> 5,
      SShort False \<mapsto> 6, SInt True \<mapsto> 7, SInt False \<mapsto> 8, SLong True \<mapsto> 9, SLong False \<mapsto> 10,
      SLongLong True \<mapsto> 11, SLongLong False \<mapsto> 12, SFloat \<mapsto> 13, SDouble \<mapsto> 14, SLongDouble \<mapsto> 15]"
proof -
  have "[0 ..< 16] = [0, 1, 2, 3, 4, 5, 6, 7, 8, 9, 10, 11, 12, 13, 14, 15 :: nat]"
    by (simp add: upt_rec)
  then show ?thesis by (simp add: type_system_new_def primitive_types_def fun_eq_iff)
qed

lemma types_new [simp]: "types type_system_new = primitive_types"
  by (simp add: type_system_new_def)

lemma length_primitive_types [simp]: "length primitive_types = 16"
  by (simp add: primitive_types_def)

lemma get_type_new:
  "get_type type_system_new i = (if i < 16 then Some (primitive_types ! i) else None)"
  by (simp add: get_type_def)

lemma cache_ok_new: "cache_ok type_system_new"
  by (auto simp: cache_ok_def type_cache_new get_type_new primitive_types_def split: if_splits)

lemma types_wf_new: "types_wf type_system_new"
proof -
  have "\<forall>ty \<in> set primitive_types. size_refs ty = []" by (simp add: primitive_types_def)
  then show ?thesis
    by (auto simp: types_wf_def get_type_new split: if_splits dest: nth_mem)
qed

lemma get_type_snoc:
  "types ts' = types ts @ [ty] \<Longrightarrow>
     get_type ts' i = (if i = length (types ts) then Some ty else get_type ts i)"
  by (auto simp: get_type_def nth_append)

lemma add_type_cases:
  assumes "add_type ts ty = (tid, ts')" and "length (types ts) < 2 ^ 32"
  obtains (hit) sig where "from_ctype ty = Some sig" "type_cache ts sig = Some tid" "ts' = ts"
  | (record_type) "from_ctype ty = None" "tid = length (types ts)"
      "types ts' = types ts @ [ty]" "type_cache ts' = type_cache ts"
  | (miss) sig where "from_ctype ty = Some sig" "type_cache ts sig = None" "tid = length (types ts)"
      "types ts' = types ts @ [ty]" "type_cache ts' = (type_cache ts)(sig \<mapsto> tid)"
proof (cases "from_ctype ty")
  case None
  with assms record_type show ?thesis by (auto simp: add_type_def Let_def)
next
  case (Some sig)
  show ?thesis
  proof (cases "type_cache ts sig")
    case None
    let ?n = "length (types ts)"
    let ?u = "ts\<lparr>types := types ts @ [ty], type_cache := (type_cache ts)(sig \<mapsto> ?n)\<rparr>"
    have e: "add_type ts ty = (?n, ?u)"
      using assms(2) by (simp add: add_type_def \<open>from_ctype ty = Some sig\<close> None Let_def)
    have "tid = fst (add_type ts ty)" "ts' = snd (add_type ts ty)" by (simp_all only: assms(1) fst_conv snd_conv)
    then have "tid = ?n" "ts' = ?u" by (simp_all only: e fst_conv snd_conv)
    then have "tid = ?n" "types ts' = types ts @ [ty]" "type_cache ts' = (type_cache ts)(sig \<mapsto> tid)"
      by simp_all
    with Some None show ?thesis by (rule miss)
  next
    case (Some e)
    have e: "add_type ts ty = (e, ts)"
      by (simp add: add_type_def \<open>from_ctype ty = Some sig\<close> Some)
    have "tid = fst (add_type ts ty)" "ts' = snd (add_type ts ty)" by (simp_all only: assms(1) fst_conv snd_conv)
    then have eqs: "tid = e" "ts' = ts" by (simp_all only: e fst_conv snd_conv)
    have "type_cache ts sig = Some tid" by (simp only: eqs(1) Some)
    with \<open>from_ctype ty = Some sig\<close> show ?thesis using eqs(2) by (rule hit)
  qed
qed

lemma add_type_cache_ok:
  assumes "cache_ok ts" and "length (types ts) < 2 ^ 32" and "add_type ts ty = (tid, ts')"
  shows "cache_ok ts'"
  using assms(3,2)
proof (cases rule: add_type_cases)
  case hit
  with assms(1) show ?thesis by simp
next
  case record_type
  show ?thesis unfolding cache_ok_def
  proof (intro allI impI)
    fix sig i assume "type_cache ts' sig = Some i"
    with assms(1) record_type(4) obtain ty' where ty': "get_type ts i = Some ty'" "from_ctype ty' = Some sig"
      by (auto simp: cache_ok_def)
    with get_type_less [OF ty'(1)]
    show "\<exists>ty. get_type ts' i = Some ty \<and> from_ctype ty = Some sig"
      by (simp add: get_type_snoc [OF record_type(3)])
  qed
next
  case (miss sig0)
  show ?thesis unfolding cache_ok_def
  proof (intro allI impI)
    fix sig i assume a: "type_cache ts' sig = Some i"
    show "\<exists>ty. get_type ts' i = Some ty \<and> from_ctype ty = Some sig"
    proof (cases "sig = sig0")
      case True
      with a miss show ?thesis by (simp add: get_type_snoc [OF miss(4)])
    next
      case False
      with a miss(5) assms(1) obtain ty' where ty': "get_type ts i = Some ty'" "from_ctype ty' = Some sig"
        by (auto simp: cache_ok_def)
      with get_type_less [OF ty'(1)] show ?thesis by (simp add: get_type_snoc [OF miss(4)])
    qed
  qed
qed

lemma add_type_get:
  assumes "cache_ok ts" and "length (types ts) < 2 ^ 32" and "add_type ts ty = (tid, ts')"
  shows "get_type ts' tid = Some ty"
  using assms(3,2)
proof (cases rule: add_type_cases)
  case (hit sig)
  with assms(1) obtain ty' where "get_type ts tid = Some ty'" "from_ctype ty' = Some sig"
    by (auto simp: cache_ok_def)
  with hit from_ctype_inj show ?thesis by blast
qed (auto simp: get_type_snoc)

lemma add_type_prefix: "add_type ts ty = (tid, ts') \<Longrightarrow> prefix (types ts) (types ts')"
  by (auto simp: add_type_def Let_def split: option.splits)

lemma prefix_get_type:
  "prefix (types ts) (types ts') \<Longrightarrow> get_type ts i = Some ty \<Longrightarrow> get_type ts' i = Some ty"
  by (auto simp: get_type_def prefix_def nth_append split: if_splits)

lemma add_type_again:
  assumes "cache_ok ts" and "length (types ts) < 2 ^ 32" and "add_type ts ty = (tid, ts')"
    and "from_ctype ty \<noteq> None"
  shows "add_type ts' ty = (tid, ts')"
  using assms(3,2)
proof (cases rule: add_type_cases)
  case (hit sig)
  then show ?thesis by (simp add: add_type_def)
next
  case (miss sig)
  then show ?thesis by (simp add: add_type_def)
qed (use assms(4) in simp)

lemma add_type_wf:
  assumes "types_wf ts" and "length (types ts) < 2 ^ 32" and "add_type ts ty = (tid, ts')"
    and "\<forall>r \<in> set (size_refs ty). r < length (types ts)"
  shows "types_wf ts'"
  using assms(3,2)
proof (cases rule: add_type_cases)
  case hit
  with assms(1) show ?thesis by simp
next
  case record_type
  with assms(1,4) show ?thesis
    by (auto simp: types_wf_def get_type_snoc [OF record_type(3)] split: if_splits)
next
  case miss
  with assms(1,4) show ?thesis
    by (auto simp: types_wf_def get_type_snoc [OF miss(4)] split: if_splits)
qed

lemma length_update_struct_layout [simp]:
  "length (types (update_struct_layout ts i sz al ms)) = length (types ts)"
  by (auto simp: update_struct_layout_def split: option.splits ctype.splits)

lemma get_type_update_struct_layout:
  "get_type (update_struct_layout ts i sz al ms) j =
     (if i \<noteq> j then get_type ts j
      else case get_type ts j of
             Some (TStruct n _ _ _) \<Rightarrow> Some (TStruct n ms sz al)
           | Some (TUnion n _ _ _) \<Rightarrow> Some (TUnion n ms sz al)
           | t \<Rightarrow> t)"
  by (auto simp: update_struct_layout_def get_type_def nth_list_update split: option.splits ctype.splits)

lemma update_struct_layout_cache [simp]:
  "type_cache (update_struct_layout ts i sz al ms) = type_cache ts"
  by (auto simp: update_struct_layout_def split: option.splits ctype.splits)

lemma update_struct_layout_ok:
  assumes "cache_ok ts" shows "cache_ok (update_struct_layout ts i sz al ms)"
  unfolding cache_ok_def update_struct_layout_cache
proof (intro allI impI)
  fix sig j assume "type_cache ts sig = Some j"
  with assms obtain ty where "get_type ts j = Some ty" "from_ctype ty = Some sig"
    by (auto simp: cache_ok_def)
  then show "\<exists>ty. get_type (update_struct_layout ts i sz al ms) j = Some ty \<and> from_ctype ty = Some sig"
    by (cases ty) (auto simp: get_type_update_struct_layout)
qed

lemma update_struct_layout_wf: "types_wf ts \<Longrightarrow> types_wf (update_struct_layout ts i sz al ms)"
  by (auto simp: types_wf_def get_type_update_struct_layout split: if_splits option.splits ctype.splits)

lemma compute_struct_layout_cases:
  assumes "compute_struct_layout ts i = Some ts'"
  obtains "ts' = ts" | sz al ms where "ts' = update_struct_layout ts i sz al ms"
  using assms
  by (auto simp: compute_struct_layout_def split: option.splits prod.splits if_splits)

section \<open>Queries\<close>

lemma align_of_total: "types_wf ts \<Longrightarrow> \<exists>a. align_of ts tid = Some a"
proof (induction tid rule: less_induct)
  case (less tid)
  show ?case
  proof (cases "get_type ts tid")
    case None
    then show ?thesis by (simp add: align_of.simps)
  next
    case (Some ty)
    have "r \<in> set (size_refs ty) \<Longrightarrow> \<exists>a. align_of ts r = Some a" for r
      using less.IH less.prems types_wfD [OF less.prems Some] by blast
    with Some show ?thesis by (cases ty) (simp_all add: align_of.simps [of ts tid])
  qed
qed

lemma is_integer_not_None: "types_wf ts \<Longrightarrow> is_integer ts tid \<noteq> None"
proof (induction tid rule: less_induct)
  case (less tid)
  show ?case
  proof (cases "get_type ts tid")
    case None
    then show ?thesis by (simp add: is_integer.simps)
  next
    case (Some ty)
    have "r \<in> set (size_refs ty) \<Longrightarrow> is_integer ts r \<noteq> None" for r
      using less.IH less.prems types_wfD [OF less.prems Some] by blast
    with Some show ?thesis by (cases ty) (simp_all add: is_integer.simps [of ts tid])
  qed
qed

lemma is_integer_total: "types_wf ts \<Longrightarrow> \<exists>b. is_integer ts tid = Some b"
  using is_integer_not_None by blast

lemma is_arithmetic_total: "types_wf ts \<Longrightarrow> \<exists>b. is_arithmetic ts tid = Some b"
  using is_integer_total [of ts tid] by (auto simp: is_arithmetic_def)

lemma is_scalar_total: "types_wf ts \<Longrightarrow> \<exists>b. is_scalar ts tid = Some b"
  using is_arithmetic_total [of ts tid] by (auto simp: is_scalar_def)

lemma strip_qualifiers_total:
  "types_wf ts \<Longrightarrow> \<exists>u. strip_qualifiers ts tid = Some u \<and>
     (\<forall>q b. get_type ts u \<noteq> Some (TQualified q b))"
proof (induction tid rule: less_induct)
  case (less tid)
  show ?case
  proof (cases "get_type ts tid")
    case None
    then show ?thesis by (simp add: strip_qualifiers.simps)
  next
    case (Some ty)
    have "r \<in> set (size_refs ty) \<Longrightarrow> \<exists>u. strip_qualifiers ts r = Some u \<and>
        (\<forall>q b. get_type ts u \<noteq> Some (TQualified q b))" for r
      using less.IH less.prems types_wfD [OF less.prems Some] by blast
    with Some show ?thesis by (cases ty) (simp_all add: strip_qualifiers.simps [of ts tid])
  qed
qed

text \<open>No array of the table is larger than the address space.\<close>

definition arrays_fit :: "type_system \<Rightarrow> bool" where
  "arrays_fit ts \<longleftrightarrow>
     (\<forall>i element k e. get_type ts i = Some (TArray element (Some k)) \<longrightarrow>
        size_of ts element = Some e \<longrightarrow> e * k < 2 ^ 64)"

lemma size_of_total: "types_wf ts \<Longrightarrow> arrays_fit ts \<Longrightarrow> \<exists>s. size_of ts tid = Some s"
proof (induction tid rule: less_induct)
  case (less tid)
  show ?case
  proof (cases "get_type ts tid")
    case None
    then show ?thesis by (simp add: size_of.simps)
  next
    case (Some ty)
    have IH: "r \<in> set (size_refs ty) \<Longrightarrow> \<exists>s. size_of ts r = Some s" for r
      using less.IH less.prems types_wfD [OF less.prems(1) Some] by blast
    show ?thesis
    proof (cases "\<exists>element n. ty = TArray element n")
      case True
      then obtain element n where ty: "ty = TArray element n" by blast
      with IH obtain s where s: "size_of ts element = Some s" by auto
      show ?thesis
      proof (cases n)
        case None
        with Some ty s show ?thesis by (simp add: size_of.simps [of ts tid])
      next
        case (Some k)
        with less.prems(2) \<open>get_type ts tid = _\<close> ty s have "s * k < 2 ^ 64"
          unfolding arrays_fit_def by blast
        with Some \<open>get_type ts tid = _\<close> ty s show ?thesis by (simp add: size_of.simps [of ts tid])
      qed
    next
      case False
      with Some IH show ?thesis by (cases ty) (simp_all add: size_of.simps [of ts tid])
    qed
  qed
qed

section \<open>Following typedefs and qualifiers\<close>

definition is_alias :: "type_system \<Rightarrow> type_id \<Rightarrow> bool" where
  "is_alias ts i =
     (case get_type ts i of Some (TTypedef _ _) \<Rightarrow> True | Some (TQualified _ _) \<Rightarrow> True | _ \<Rightarrow> False)"

lemma resolve_loop_spec:
  "size_of ts (resolve_loop ts c v) = size_of ts c \<and>
   align_of ts (resolve_loop ts c v) = align_of ts c \<and>
   is_integer ts (resolve_loop ts c v) = is_integer ts c"
proof (induction ts c v rule: resolve_loop.induct)
  case (1 ts c v)
  show ?case
  proof (cases "c \<in> set v")
    case True
    then show ?thesis by (simp add: resolve_loop.simps [of ts c v])
  next
    case False
    with 1 show ?thesis
      by (simp add: resolve_loop.simps [of ts c v] size_of.simps [of ts c] align_of.simps [of ts c]
          is_integer.simps [of ts c] split: option.split ctype.split)
  qed
qed

lemma resolve_loop_stops:
  "types_wf ts \<Longrightarrow> \<forall>x \<in> set v. c < x \<Longrightarrow> \<not> is_alias ts (resolve_loop ts c v)"
proof (induction ts c v rule: resolve_loop.induct)
  case (1 ts c v)
  from "1.prems"(2) have nv: "c \<notin> set v" by blast
  have lower: "get_type ts c = Some ty \<Longrightarrow> r \<in> set (size_refs ty) \<Longrightarrow> \<forall>x \<in> set (v @ [c]). r < x" for ty r
    using types_wfD [OF "1.prems"(1)] "1.prems"(2) by force
  show ?case
  proof (cases "get_type ts c")
    case None
    with nv show ?thesis by (simp add: resolve_loop.simps [of ts c v] is_alias_def)
  next
    case (Some ty)
    with nv lower [OF Some] "1.IH" "1.prems"(1) show ?thesis
      by (cases ty) (simp_all add: resolve_loop.simps [of ts c v] is_alias_def)
  qed
qed

lemma resolve_typedef_stops: "types_wf ts \<Longrightarrow> \<not> is_alias ts (resolve_typedef ts tid)"
  by (simp add: resolve_typedef_def resolve_loop_stops)

lemma resolve_typedef_id: "\<not> is_alias ts tid \<Longrightarrow> resolve_typedef ts tid = tid"
  by (auto simp: resolve_typedef_def resolve_loop.simps [of ts tid] is_alias_def
      split: option.splits ctype.splits)

section \<open>Properties\<close>

text \<open>
  The resolver also writes the member list of a record type in place
  (\<open>if let Some(CType::Struct \{ members: ms, .. \}) = types.get_mut(i) \{ *ms = members; \}\<close>).
\<close>

definition set_members :: "type_system \<Rightarrow> type_id \<Rightarrow> struct_member list \<Rightarrow> type_system" where
  "set_members ts i ms =
     (case get_type ts i of
        Some (TStruct n _ s a) \<Rightarrow> ts\<lparr>types := (types ts)[i := TStruct n ms s a]\<rparr>
      | Some (TUnion n _ s a) \<Rightarrow> ts\<lparr>types := (types ts)[i := TUnion n ms s a]\<rparr>
      | _ \<Rightarrow> ts)"

lemma set_members_update:
  "\<exists>s a. set_members ts i ms = update_struct_layout ts i s a ms"
  by (auto simp: set_members_def update_struct_layout_def split: option.splits ctype.splits)

text \<open>The tables built through the interface, every type referring only to types already there.\<close>

inductive types_reach :: "type_system \<Rightarrow> bool" where
  reach_types_new: "types_reach type_system_new"
| reach_add_type: "types_reach ts \<Longrightarrow> length (types ts) < 2 ^ 32 \<Longrightarrow>
    \<forall>r \<in> set (size_refs ty). r < length (types ts) \<Longrightarrow> add_type ts ty = (tid, ts') \<Longrightarrow>
    types_reach ts'"
| reach_layout: "types_reach ts \<Longrightarrow> compute_struct_layout ts i = Some ts' \<Longrightarrow> types_reach ts'"
| reach_members: "types_reach ts \<Longrightarrow> types_reach (set_members ts i ms)"

lemma types_reach_inv: "types_reach ts \<Longrightarrow> cache_ok ts \<and> types_wf ts \<and> 16 \<le> length (types ts)"
proof (induction rule: types_reach.induct)
  case reach_types_new
  show ?case by (simp add: cache_ok_new types_wf_new)
next
  case (reach_add_type ts ty tid ts')
  have "length (types ts) \<le> length (types ts')"
    by (rule prefix_length_le [OF add_type_prefix [OF reach_add_type.hyps(4)]])
  with reach_add_type show ?case by (auto intro: add_type_cache_ok add_type_wf)
next
  case (reach_layout ts i ts')
  from reach_layout.hyps(2) show ?case
    by (cases rule: compute_struct_layout_cases)
       (use reach_layout.IH in \<open>auto intro: update_struct_layout_ok update_struct_layout_wf\<close>)
next
  case (reach_members ts i ms)
  obtain s a where "set_members ts i ms = update_struct_layout ts i s a ms"
    using set_members_update by blast
  with reach_members.IH show ?case
    by (auto intro: update_struct_layout_ok update_struct_layout_wf)
qed

text \<open>
  C35: Hash-consing. Adding a type to a reachable table returns an id that denotes exactly that
  type, keeps every id handed out before, and, for every type that is not a struct or a union,
  adding the same type again returns the same id and changes nothing.
\<close>

theorem add_type_hash_consing:
  assumes "types_reach ts" and "length (types ts) < 2 ^ 32" and "add_type ts ty = (tid, ts')"
  shows "get_type ts' tid = Some ty \<and>
         (\<forall>i t. get_type ts i = Some t \<longrightarrow> get_type ts' i = Some t) \<and>
         (from_ctype ty \<noteq> None \<longrightarrow> add_type ts' ty = (tid, ts'))"
proof -
  from types_reach_inv [OF assms(1)] have ok: "cache_ok ts" by blast
  show ?thesis
    using add_type_get [OF ok assms(2,3)] add_type_again [OF ok assms(2,3)]
      prefix_get_type [OF add_type_prefix [OF assms(3)]] by blast
qed

lemma add_int_pointer:
  "add_type type_system_new (TPointer INT_T) =
     (16, type_system_new\<lparr>types := primitive_types @ [TPointer INT_T],
                         type_cache := (type_cache type_system_new)(SPointer INT_T \<mapsto> 16)\<rparr>)"
  by (simp add: add_type_def type_cache_new)

theorem add_type_hash_consing_witness:
  "\<exists>ts'. add_type type_system_new (TPointer INT_T) = (16, ts') \<and>
     get_type ts' 16 = Some (TPointer INT_T) \<and> add_type ts' (TPointer INT_T) = (16, ts')"
proof -
  obtain ts' where a: "add_type type_system_new (TPointer INT_T) = (16, ts')"
    using add_int_pointer by blast
  from add_type_hash_consing [OF reach_types_new _ a] a show ?thesis by auto
qed

text \<open>
  C37: In every reachable table, alignment, integer classification and qualifier stripping return
  for every id, and so does the size when no array exceeds the 64-bit range: the recursions of
  the queries cannot loop.
\<close>

theorem type_queries_return:
  assumes "types_reach ts"
  shows "(\<exists>a. align_of ts tid = Some a) \<and> (\<exists>b. is_integer ts tid = Some b) \<and>
         (\<exists>b. is_scalar ts tid = Some b) \<and> (\<exists>u. strip_qualifiers ts tid = Some u) \<and>
         (arrays_fit ts \<longrightarrow> (\<exists>s. size_of ts tid = Some s))"
proof -
  from types_reach_inv [OF assms] have "types_wf ts" by blast
  then show ?thesis
    using align_of_total is_integer_total is_scalar_total strip_qualifiers_total size_of_total
    by meson
qed

theorem type_queries_return_witness:
  "\<exists>s. size_of type_system_new LONGDOUBLE_T = Some s"
proof -
  have "arrays_fit type_system_new"
    by (auto simp: arrays_fit_def get_type_new primitive_types_def nth_Cons' split: if_splits)
  with type_queries_return [OF reach_types_new, of LONGDOUBLE_T] show ?thesis by blast
qed

text \<open>
  C36: Resolving typedefs and qualifiers ends for every table, cyclic ones included; the result
  has the size, the alignment and the integer classification of the type it stands for, and in
  a reachable table it is itself neither a typedef nor a qualified type, so resolving again
  changes nothing.
\<close>

theorem resolve_typedef_correct:
  "size_of ts (resolve_typedef ts tid) = size_of ts tid \<and>
   align_of ts (resolve_typedef ts tid) = align_of ts tid \<and>
   is_integer ts (resolve_typedef ts tid) = is_integer ts tid \<and>
   (types_reach ts \<longrightarrow> \<not> is_alias ts (resolve_typedef ts tid) \<and>
      resolve_typedef ts (resolve_typedef ts tid) = resolve_typedef ts tid)"
  using resolve_loop_spec [of ts tid "[]"] types_reach_inv [of ts] resolve_typedef_stops [of ts tid]
    resolve_typedef_id [of ts "resolve_typedef ts tid"]
  by (auto simp: resolve_typedef_def)

theorem resolve_typedef_correct_witness:
  "resolve_typedef type_system_new (resolve_typedef type_system_new INT_T) =
   resolve_typedef type_system_new INT_T"
  using resolve_typedef_correct [of type_system_new INT_T] reach_types_new by blast

end
