(* ===== verification/TypeLayout.thy ===== *)
theory TypeLayout
  imports TypeSystem
begin

text \<open>
  The layout that \<open>compute_layout_info\<close> (\<open>src/src/types/mod.rs\<close>) gives to the members of a struct
  or a union: the members are disjoint, in declaration order and inside the object; without
  bit-fields the layout is the natural one; laying out twice changes nothing.
\<close>

section \<open>The bits a member occupies\<close>

definition size0 :: "type_system \<Rightarrow> type_id \<Rightarrow> nat" where
  "size0 ts t = (case size_of ts t of Some s \<Rightarrow> s | None \<Rightarrow> 0)"

definition align0 :: "type_system \<Rightarrow> type_id \<Rightarrow> nat" where
  "align0 ts t = (case align_of ts t of Some s \<Rightarrow> s | None \<Rightarrow> 0)"

definition bit_start :: "struct_member \<Rightarrow> nat" where
  "bit_start m = 8 * m_offset m + (case m_bit_offset m of Some b \<Rightarrow> b | None \<Rightarrow> 0)"

definition bit_end :: "type_system \<Rightarrow> struct_member \<Rightarrow> nat" where
  "bit_end ts m = bit_start m + (case m_bit_width m of Some w \<Rightarrow> w | None \<Rightarrow> 8 * size0 ts (m_type m))"

text \<open>A member as the resolver declares it: an ordinary member, or a bit-field that fits its type.\<close>

definition plain_member :: "struct_member \<Rightarrow> bool" where
  "plain_member m \<longleftrightarrow> m_bit_offset m = None \<and> m_bit_width m = None"

definition bitfield_ok :: "type_system \<Rightarrow> struct_member \<Rightarrow> bool" where
  "bitfield_ok ts m \<longleftrightarrow> m_bit_offset m = Some 0 \<and>
     (case m_bit_width m of
        Some w \<Rightarrow> 0 < w \<and> w \<le> 8 * size0 ts (m_type m) \<and> 8 * size0 ts (m_type m) < 2 ^ 32
      | None \<Rightarrow> False)"

definition member_ok :: "type_system \<Rightarrow> struct_member \<Rightarrow> bool" where
  "member_ok ts m \<longleftrightarrow> plain_member m \<or> bitfield_ok ts m"

text \<open>What the layout keeps of a declared member.\<close>

definition same_decl :: "struct_member \<Rightarrow> struct_member \<Rightarrow> bool" where
  "same_decl a b \<longleftrightarrow> m_name a = m_name b \<and> m_type a = m_type b \<and> m_bit_width a = m_bit_width b"

section \<open>The invariant of the member loop\<close>

definition frontier :: "layout_state \<Rightarrow> nat" where
  "frontier st = (case bf_base st of None \<Rightarrow> 8 * l_offset st | Some base \<Rightarrow> 8 * base + bf_bits st)"

definition placed :: "type_system \<Rightarrow> layout_state \<Rightarrow> bool" where
  "placed ts st \<longleftrightarrow>
     0 < l_max_align st \<and>
     (bf_base st \<noteq> None \<longrightarrow> bf_bits st \<le> 8 * bf_type_size st \<and> 8 * bf_type_size st < 2 ^ 32) \<and>
     sorted_wrt (\<lambda>a b. bit_end ts a \<le> bit_start b) (l_members st) \<and>
     (\<forall>m \<in> set (l_members st). bit_end ts m \<le> frontier st \<and>
        (plain_member m \<longrightarrow> align0 ts (m_type m) dvd m_offset m))"

lemma placed_start: "placed ts layout_start"
  by (simp add: placed_def layout_start_def)

lemma frontier_add:
  "placed ts st \<Longrightarrow> frontier st \<le> bit_start m \<Longrightarrow> bit_end ts m \<le> frontier st' \<Longrightarrow>
   l_members st' = l_members st @ [m] \<Longrightarrow> l_max_align st' = l_max_align st \<Longrightarrow>
   (plain_member m \<Longrightarrow> align0 ts (m_type m) dvd m_offset m) \<Longrightarrow>
   (bf_base st' \<noteq> None \<longrightarrow> bf_bits st' \<le> 8 * bf_type_size st' \<and> 8 * bf_type_size st' < 2 ^ 32) \<Longrightarrow>
   placed ts st'"
proof -
  assume a: "placed ts st" "frontier st \<le> bit_start m" "bit_end ts m \<le> frontier st'"
    "l_members st' = l_members st @ [m]" "l_max_align st' = l_max_align st"
    "plain_member m \<Longrightarrow> align0 ts (m_type m) dvd m_offset m"
    "bf_base st' \<noteq> None \<longrightarrow> bf_bits st' \<le> 8 * bf_type_size st' \<and> 8 * bf_type_size st' < 2 ^ 32"
  have "frontier st \<le> frontier st'"
    using a(2,3) by (simp add: bit_end_def)
  then show ?thesis
    using a unfolding placed_def by (auto simp: sorted_wrt_append intro: order_trans)
qed

lemma close_unit_placed:
  assumes "placed ts st" and "close_unit st = Some st'"
  shows "placed ts st' \<and> bf_base st' = None \<and> frontier st \<le> frontier st' \<and>
    l_members st' = l_members st \<and> l_max_align st' = l_max_align st"
  using assms
  by (auto simp: close_unit_def placed_def frontier_def split: option.splits) force

lemma place_plain_placed:
  assumes "placed ts st" and "place_plain st m (align0 ts (m_type m)) (size0 ts (m_type m)) None None = Some st'"
  shows "\<exists>m'. l_members st' = l_members st @ [m'] \<and> plain_member m' \<and> m_name m' = m_name m \<and>
    m_type m' = m_type m \<and> l_max_align st' = l_max_align st \<and> placed ts st'"
proof -
  from assms(2) obtain st1 off where c: "close_unit st = Some st1"
    and off: "chk_round_up 64 (l_offset st1) (align0 ts (m_type m)) = Some off"
    and st': "st' = st1\<lparr>l_offset := off + size0 ts (m_type m),
              l_members := l_members st1 @ [m\<lparr>m_offset := off, m_bit_offset := None, m_bit_width := None\<rparr>]\<rparr>"
    by (auto simp: place_plain_def)
  from off have al: "0 < align0 ts (m_type m)" and off_eq: "off = round_up (l_offset st1) (align0 ts (m_type m))"
    by (auto simp: chk_round_up_Some)
  note p = close_unit_placed [OF assms(1) c]
  let ?m = "m\<lparr>m_offset := off, m_bit_offset := None, m_bit_width := None\<rparr>"
  have "placed ts st'"
  proof (rule frontier_add [of ts st1 ?m])
    show "placed ts st1" using p by blast
    show "frontier st1 \<le> bit_start ?m"
      using p round_up_ge [OF al, of "l_offset st1"] by (simp add: frontier_def bit_start_def off_eq)
    show "bit_end ts ?m \<le> frontier st'"
      using p by (simp add: frontier_def bit_end_def bit_start_def st')
    show "bf_base st' \<noteq> None \<longrightarrow> bf_bits st' \<le> 8 * bf_type_size st' \<and> 8 * bf_type_size st' < 2 ^ 32"
      using p by (simp add: st')
  qed (simp_all add: st' off_eq round_up_dvd)
  with p show ?thesis by (simp add: st' plain_member_def)
qed

text \<open>The unit a bit-field goes to: the open one when it has room, a fresh one otherwise.\<close>

lemma open_unit_placed:
  assumes "placed ts st" and "bf_base st = None" and "chk_round_up 64 (l_offset st) al = Some off"
    and "8 * sz < 2 ^ 32"
    and st2: "st2 = st\<lparr>l_offset := off, bf_base := Some off, bf_type_size := sz, bf_bits := 0\<rparr>"
  shows "placed ts st2"
proof -
  from assms(3) have "l_offset st \<le> off" using round_up_ge by (auto simp: chk_round_up_Some)
  then have "frontier st \<le> frontier st2" using assms(2) by (simp add: frontier_def st2)
  with assms(1,4) show ?thesis by (fastforce simp: placed_def st2 frontier_def)
qed

lemma place_bitfield_placed:
  assumes p: "placed ts st" and ok: "bitfield_ok ts m" and w: "m_bit_width m = Some w"
    and pl: "place_bitfield st m (align0 ts (m_type m)) (size0 ts (m_type m)) w = Some st'"
  shows "\<exists>m'. l_members st' = l_members st @ [m'] \<and> same_decl m' m \<and>
    l_max_align st' = l_max_align st \<and> placed ts st'"
proof -
  let ?sz = "size0 ts (m_type m)"
  from ok w have w0: "0 < w" and wsz: "w \<le> 8 * ?sz" and small: "8 * ?sz < 2 ^ 32"
    by (auto simp: bitfield_ok_def)
  from pl obtain st1 where s1: "(case bf_base st of
               None \<Rightarrow> Some st
             | Some base \<Rightarrow> do {
                 unit_bits \<leftarrow> chk_mul 64 (bf_type_size st) 8;
                 bits_remaining \<leftarrow> chk_sub (unit_bits mod 2 ^ 32) (bf_bits st);
                 if bits_remaining < w then close_unit st else Some st }) = Some st1"
    and r1: "(do { (base, st2) \<leftarrow> (case bf_base st1 of
               Some base \<Rightarrow> Some (base, st1)
             | None \<Rightarrow> do {
                 off \<leftarrow> chk_round_up 64 (l_offset st1) (align0 ts (m_type m));
                 Some (off, st1\<lparr>l_offset := off, bf_base := Some off, bf_type_size := ?sz,
                               bf_bits := 0\<rparr>) });
     used \<leftarrow> chk_add 32 (bf_bits st2) w;
     Some (st2\<lparr>bf_bits := used,
              l_members := l_members st2 @
                [m\<lparr>m_offset := base, m_bit_offset := Some (bf_bits st2),
                        m_bit_width := Some w\<rparr>]\<rparr>) }) = Some st'"
    unfolding place_bitfield_def by (auto simp: option_bind_Some)
  have st1: "placed ts st1 \<and> l_members st1 = l_members st \<and> l_max_align st1 = l_max_align st \<and>
      (bf_base st1 \<noteq> None \<longrightarrow> bf_bits st1 + w \<le> 8 * bf_type_size st1)"
    using s1 p close_unit_placed [OF p]
    by (auto simp: placed_def split: option.splits if_splits)
  from r1 obtain base st2 where st2: "(case bf_base st1 of
               Some base \<Rightarrow> Some (base, st1)
             | None \<Rightarrow> do {
                 off \<leftarrow> chk_round_up 64 (l_offset st1) (align0 ts (m_type m));
                 Some (off, st1\<lparr>l_offset := off, bf_base := Some off, bf_type_size := ?sz,
                               bf_bits := 0\<rparr>) }) = Some (base, st2)"
    and st': "st' = st2\<lparr>bf_bits := bf_bits st2 + w,
              l_members := l_members st2 @
                [m\<lparr>m_offset := base, m_bit_offset := Some (bf_bits st2), m_bit_width := Some w\<rparr>]\<rparr>"
    by (auto simp: option_bind_Some split: prod.splits)
  have p2: "placed ts st2 \<and> bf_base st2 = Some base \<and> bf_bits st2 + w \<le> 8 * bf_type_size st2 \<and>
      l_members st2 = l_members st \<and> l_max_align st2 = l_max_align st"
  proof (cases "bf_base st1")
    case (Some b)
    with st2 st1 show ?thesis by auto
  next
    case None
    with st2 obtain off where "chk_round_up 64 (l_offset st1) (align0 ts (m_type m)) = Some off"
      and "st2 = st1\<lparr>l_offset := off, bf_base := Some off, bf_type_size := ?sz, bf_bits := 0\<rparr>" "base = off"
      by (auto simp: option_bind_Some simp del: chk_round_up_Some)
    with open_unit_placed [OF _ None, of ts "align0 ts (m_type m)" off ?sz st2] st1 small wsz
    show ?thesis by auto
  qed
  let ?m = "m\<lparr>m_offset := base, m_bit_offset := Some (bf_bits st2), m_bit_width := Some w\<rparr>"
  have "placed ts st'"
    by (rule frontier_add [of ts st2 ?m])
       (use p2 in \<open>auto simp: st' frontier_def bit_start_def bit_end_def plain_member_def placed_def\<close>)
  with p2 w show ?thesis by (simp add: st' same_decl_def)
qed

lemma frontier_max_align [simp]: "frontier (st\<lparr>l_max_align := a\<rparr>) = frontier st"
  by (simp add: frontier_def split: option.split)

lemma layout_member_placed:
  assumes p: "placed ts st" and ok: "member_ok ts m" and l: "layout_member ts st m = Some st'"
  shows "\<exists>m'. l_members st' = l_members st @ [m'] \<and> same_decl m' m \<and> placed ts st' \<and>
    l_max_align st \<le> l_max_align st' \<and> align0 ts (m_type m) \<le> l_max_align st'"
proof -
  from l obtain al sz where al: "align_of ts (m_type m) = Some al" and sz: "size_of ts (m_type m) = Some sz"
    by (auto simp: layout_member_def option_bind_Some)
  then have a0: "align0 ts (m_type m) = al" "size0 ts (m_type m) = sz" by (simp_all add: align0_def size0_def)
  define st1 where "st1 = st\<lparr>l_max_align := (if al > l_max_align st then al else l_max_align st)\<rparr>"
  have p1: "placed ts st1" and m1: "l_members st1 = l_members st"
    and x1: "l_max_align st \<le> l_max_align st1" "al \<le> l_max_align st1"
    using p by (auto simp: st1_def placed_def)
  show ?thesis
  proof (cases "plain_member m")
    case True
    then have "place_plain st1 m al sz None None = Some st'"
      using l by (simp add: layout_member_def al sz plain_member_def flip: st1_def)
    with place_plain_placed [OF p1, of m st', unfolded a0] m1 x1 a0 True
    show ?thesis by (auto simp: same_decl_def plain_member_def)
  next
    case False
    with ok have b: "bitfield_ok ts m" by (simp add: member_ok_def)
    then obtain w where w: "m_bit_width m = Some w" "0 < w" "m_bit_offset m = Some 0"
      by (auto simp: bitfield_ok_def split: option.splits)
    then have "place_bitfield st1 m al sz w = Some st'"
      using l by (simp add: layout_member_def al sz flip: st1_def)
    with place_bitfield_placed [OF p1 b w(1), of st', unfolded a0] m1 x1 a0
    show ?thesis by auto
  qed
qed

lemma layout_members_placed:
  "placed ts st \<Longrightarrow> \<forall>m \<in> set ms. member_ok ts m \<Longrightarrow> layout_members ts st ms = Some st' \<Longrightarrow>
   placed ts st' \<and> l_max_align st \<le> l_max_align st' \<and>
   (\<exists>ms'. l_members st' = l_members st @ ms' \<and> list_all2 same_decl ms' ms) \<and>
   (\<forall>m \<in> set ms. align0 ts (m_type m) \<le> l_max_align st')"
proof (induction ms arbitrary: st)
  case Nil
  then show ?case by simp
next
  case (Cons m ms)
  from Cons.prems(3) obtain st1 where l: "layout_member ts st m = Some st1"
    and r: "layout_members ts st1 ms = Some st'" by (auto simp: option_bind_Some)
  from layout_member_placed [OF Cons.prems(1) _ l] Cons.prems(2) obtain m' where
    m': "l_members st1 = l_members st @ [m']" "same_decl m' m" "placed ts st1"
      "l_max_align st \<le> l_max_align st1" "align0 ts (m_type m) \<le> l_max_align st1" by auto
  from Cons.IH [OF m'(3) _ r] Cons.prems(2) obtain ms' where
    ms': "placed ts st'" "l_max_align st1 \<le> l_max_align st'" "l_members st' = l_members st1 @ ms'"
      "list_all2 same_decl ms' ms" "\<forall>m \<in> set ms. align0 ts (m_type m) \<le> l_max_align st'" by auto
  then have "l_members st' = l_members st @ (m' # ms') \<and> list_all2 same_decl (m' # ms') (m # ms)"
    using m' by simp
  with ms' m' show ?case by (auto intro: order_trans)
qed

text \<open>
  C2: The layout of a struct is sound. When the members are ordinary members and bit-fields that fit
  their type, and the layout returns, then the members keep their order, names, types and widths;
  each one ends before the next one starts, counted in bits, so no two overlap; all of them lie
  inside the size of the struct; every ordinary member is aligned; and the size is a multiple of
  the alignment, which is at least that of every member.
\<close>

theorem struct_layout_sound:
  assumes "compute_layout_info ts ms False = Some li" and "\<forall>m \<in> set ms. member_ok ts m"
  shows "list_all2 same_decl (li_members li) ms \<and>
         sorted_wrt (\<lambda>a b. bit_end ts a \<le> bit_start b) (li_members li) \<and>
         (\<forall>m \<in> set (li_members li). bit_end ts m \<le> 8 * li_size li \<and>
            (plain_member m \<longrightarrow> align0 ts (m_type m) dvd m_offset m)) \<and>
         li_align li dvd li_size li \<and> (\<forall>m \<in> set ms. align0 ts (m_type m) \<le> li_align li)"
proof -
  from assms(1) obtain st0 st where l: "layout_members ts layout_start ms = Some st0"
    and c: "close_unit st0 = Some st"
    and li: "(do { rounded \<leftarrow> (if l_max_align st > 0 then chk_round_up 64 (l_offset st) (l_max_align st)
                   else Some (l_offset st));
        Some \<lparr>li_size = rounded, li_align = l_max_align st, li_members = l_members st\<rparr> }) = Some li"
    by (auto simp: compute_layout_info_def option_bind_Some)
  from layout_members_placed [OF placed_start assms(2) l] obtain
    p0: "placed ts st0" "list_all2 same_decl (l_members st0) ms"
      "\<forall>m \<in> set ms. align0 ts (m_type m) \<le> l_max_align st0"
    by (auto simp: layout_start_def)
  note p = close_unit_placed [OF p0(1) c]
  then have pos: "0 < l_max_align st" by (simp add: placed_def)
  with li have eqs: "li_size li = round_up (l_offset st) (l_max_align st)" "li_align li = l_max_align st"
    "li_members li = l_members st" by (auto simp: option_bind_Some chk_round_up_Some)
  have "frontier st \<le> 8 * li_size li"
    using p round_up_ge [OF pos, of "l_offset st"] by (simp add: frontier_def eqs)
  then have inside: "\<forall>m \<in> set (l_members st). bit_end ts m \<le> 8 * li_size li"
    using p by (auto simp: placed_def intro: order_trans)
  from p have sorted: "sorted_wrt (\<lambda>a b. bit_end ts a \<le> bit_start b) (l_members st)"
    and aligned: "\<forall>m \<in> set (l_members st). plain_member m \<longrightarrow> align0 ts (m_type m) dvd m_offset m"
    and same: "l_members st = l_members st0" "l_max_align st = l_max_align st0"
    by (auto simp: placed_def)
  from sorted aligned inside p0 same show ?thesis
    by (simp add: eqs round_up_dvd)
qed

text \<open>\<open>struct \{ char a; int b : 3; int c : 30; short d; \}\<close>\<close>

definition sample_members :: "struct_member list" where
  "sample_members =
     [\<lparr>m_name = ''a'', m_type = CHAR_T, m_offset = 0, m_bit_offset = None, m_bit_width = None\<rparr>,
      \<lparr>m_name = ''b'', m_type = INT_T, m_offset = 0, m_bit_offset = Some 0, m_bit_width = Some 3\<rparr>,
      \<lparr>m_name = ''c'', m_type = INT_T, m_offset = 0, m_bit_offset = Some 0, m_bit_width = Some 30\<rparr>,
      \<lparr>m_name = ''d'', m_type = SHORT_T, m_offset = 0, m_bit_offset = None, m_bit_width = None\<rparr>]"

lemma new_sizes [simp]:
  "size_of type_system_new CHAR_T = Some 1" "align_of type_system_new CHAR_T = Some 1"
  "size_of type_system_new INT_T = Some 4" "align_of type_system_new INT_T = Some 4"
  "size_of type_system_new SHORT_T = Some 2" "align_of type_system_new SHORT_T = Some 2"
  by (simp_all add: size_of.simps align_of.simps get_type_new primitive_types_def type_id_defs)

lemma sample_layout:
  "compute_layout_info type_system_new sample_members False =
     Some \<lparr>li_size = 16, li_align = 4, li_members =
       [\<lparr>m_name = ''a'', m_type = CHAR_T, m_offset = 0, m_bit_offset = None, m_bit_width = None\<rparr>,
        \<lparr>m_name = ''b'', m_type = INT_T, m_offset = 4, m_bit_offset = Some 0, m_bit_width = Some 3\<rparr>,
        \<lparr>m_name = ''c'', m_type = INT_T, m_offset = 8, m_bit_offset = Some 0, m_bit_width = Some 30\<rparr>,
        \<lparr>m_name = ''d'', m_type = SHORT_T, m_offset = 12, m_bit_offset = None, m_bit_width = None\<rparr>]\<rparr>"
  by (simp add: compute_layout_info_def sample_members_def layout_start_def layout_member_def Let_def
      place_plain_def place_bitfield_def close_unit_def chk_defs chk_round_up_def)

theorem struct_layout_sound_witness:
  "\<exists>li. compute_layout_info type_system_new sample_members False = Some li \<and>
     sorted_wrt (\<lambda>a b. bit_end type_system_new a \<le> bit_start b) (li_members li) \<and>
     (\<forall>m \<in> set (li_members li). bit_end type_system_new m \<le> 8 * li_size li)"
proof -
  have "\<forall>m \<in> set sample_members. member_ok type_system_new m"
    by (simp add: sample_members_def member_ok_def plain_member_def bitfield_ok_def size0_def)
  with sample_layout struct_layout_sound show ?thesis by blast
qed

section \<open>Structs without bit-fields\<close>

text \<open>The natural layout: every member at the next multiple of its alignment.\<close>

fun natural :: "type_system \<Rightarrow> nat \<Rightarrow> struct_member list \<Rightarrow> struct_member list" where
  "natural ts e [] = []"
| "natural ts e (m # ms) =
     (let off = round_up e (align0 ts (m_type m))
      in m\<lparr>m_offset := off\<rparr> # natural ts (off + size0 ts (m_type m)) ms)"

fun natural_end :: "type_system \<Rightarrow> nat \<Rightarrow> struct_member list \<Rightarrow> nat" where
  "natural_end ts e [] = e"
| "natural_end ts e (m # ms) =
     natural_end ts (round_up e (align0 ts (m_type m)) + size0 ts (m_type m)) ms"

fun max_align :: "type_system \<Rightarrow> nat \<Rightarrow> struct_member list \<Rightarrow> nat" where
  "max_align ts a [] = a"
| "max_align ts a (m # ms) = max_align ts (max a (align0 ts (m_type m))) ms"

definition sized :: "type_system \<Rightarrow> struct_member \<Rightarrow> bool" where
  "sized ts m \<longleftrightarrow> size_of ts (m_type m) \<noteq> None \<and> align_of ts (m_type m) \<noteq> None \<and> 0 < align0 ts (m_type m)"

lemma natural_end_ge: "\<forall>m \<in> set ms. sized ts m \<Longrightarrow> e \<le> natural_end ts e ms"
proof (induction ms arbitrary: e)
  case (Cons m ms)
  then have "e \<le> round_up e (align0 ts (m_type m))" by (simp add: sized_def round_up_ge)
  with Cons.IH [of "round_up e (align0 ts (m_type m)) + size0 ts (m_type m)"] Cons.prems
  show ?case by simp
qed simp

lemma max_align_ge: "a \<le> max_align ts a ms"
  by (induction ms arbitrary: a) (auto intro: order_trans [OF max.cobounded1])

lemma max_align_mem: "m \<in> set ms \<Longrightarrow> align0 ts (m_type m) \<le> max_align ts a ms"
proof (induction ms arbitrary: a)
  case (Cons x ms)
  then show ?case using max_align_ge [of "max a (align0 ts (m_type x))" ts ms] by auto
qed simp

lemma max_align_in: "max_align ts a ms \<in> insert a ((\<lambda>m. align0 ts (m_type m)) ` set ms)"
proof (induction ms arbitrary: a)
  case (Cons x ms)
  show ?case using Cons.IH [of "max a (align0 ts (m_type x))"] by (auto simp: max_def)
qed simp

lemma layout_members_plain:
  assumes "\<forall>m \<in> set ms. plain_member m \<and> sized ts m" and "bf_base st = None"
    and "natural_end ts (l_offset st) ms + max_align ts (l_max_align st) ms < 2 ^ 64"
  shows "layout_members ts st ms =
    Some (st\<lparr>l_offset := natural_end ts (l_offset st) ms,
             l_max_align := max_align ts (l_max_align st) ms,
             l_members := l_members st @ natural ts (l_offset st) ms\<rparr>)"
  using assms
proof (induction ms arbitrary: st)
  case (Cons m ms)
  obtain al sz where al: "align_of ts (m_type m) = Some al" and sz: "size_of ts (m_type m) = Some sz"
    using Cons.prems(1) by (auto simp: sized_def)
  then have a0: "align0 ts (m_type m) = al" "size0 ts (m_type m) = sz" by (simp_all add: align0_def size0_def)
  let ?off = "round_up (l_offset st) al"
  from Cons.prems(1) a0 have pos: "0 < al" by (simp add: sized_def)
  from Cons.prems(1) have "?off + sz \<le> natural_end ts (?off + sz) ms" by (intro natural_end_ge) simp
  moreover have "al \<le> max_align ts (max (l_max_align st) al) ms"
    using max_align_ge [of "max (l_max_align st) al" ts ms] by simp
  moreover have "l_offset st \<le> ?off" by (rule round_up_ge [OF pos])
  ultimately have b: "l_offset st + al < 2 ^ 64" "?off + sz < 2 ^ 64"
    using Cons.prems(3) by (simp_all add: a0 pos)
  let ?st = "st\<lparr>l_max_align := max (l_max_align st) al, l_offset := ?off + sz,
                l_members := l_members st @ [m\<lparr>m_offset := ?off\<rparr>]\<rparr>"
  have mx: "(if al > l_max_align st then al else l_max_align st) = max (l_max_align st) al" by simp
  have m_eq: "m\<lparr>m_offset := ?off, m_bit_offset := None, m_bit_width := None\<rparr> = m\<lparr>m_offset := ?off\<rparr>"
    using Cons.prems(1) by (cases m) (simp add: plain_member_def)
  have "layout_member ts st m = Some ?st"
    using Cons.prems(1,2) b pos
    by (simp add: layout_member_def al sz plain_member_def place_plain_def close_unit_def Let_def mx m_eq
        chk_round_up_Some option_bind_Some)
  moreover have "layout_members ts ?st ms =
    Some (?st\<lparr>l_offset := natural_end ts (l_offset ?st) ms,
             l_max_align := max_align ts (l_max_align ?st) ms,
             l_members := l_members ?st @ natural ts (l_offset ?st) ms\<rparr>)"
    by (rule Cons.IH) (use Cons.prems a0 in simp_all)
  ultimately show ?case by (simp add: a0 Let_def)
qed simp

lemma length_natural [simp]: "length (natural ts e ms) = length ms"
  by (induction ts e ms rule: natural.induct) (simp_all add: Let_def)

text \<open>Where the member before position \<open>i\<close> ends.\<close>

definition prev_end :: "type_system \<Rightarrow> nat \<Rightarrow> struct_member list \<Rightarrow> nat \<Rightarrow> nat" where
  "prev_end ts e ms i =
     (if i = 0 then e else m_offset (ms ! (i - 1)) + size0 ts (m_type (ms ! (i - 1))))"

text \<open>The least multiple of \<open>a\<close> that is not below \<open>lo\<close>.\<close>

definition least_aligned :: "nat \<Rightarrow> nat \<Rightarrow> nat \<Rightarrow> bool" where
  "least_aligned lo a x \<longleftrightarrow> a dvd x \<and> lo \<le> x \<and> x < lo + a"

lemma least_aligned_least: "least_aligned lo a x \<Longrightarrow> a dvd y \<Longrightarrow> lo \<le> y \<Longrightarrow> x \<le> y"
proof (rule ccontr)
  assume x: "least_aligned lo a x" and y: "a dvd y" "lo \<le> y" and "\<not> x \<le> y"
  then have "a dvd x - y" "0 < x - y" "x - y < a"
    by (auto simp: least_aligned_def intro: dvd_diff_nat)
  then show False by (meson nat_dvd_not_less)
qed

lemma least_aligned_round_up: "0 < a \<Longrightarrow> least_aligned lo a (round_up lo a)"
  by (simp add: least_aligned_def round_up_dvd round_up_ge round_up_less)

lemma natural_least:
  "\<forall>m \<in> set ms. 0 < align0 ts (m_type m) \<Longrightarrow> i < length ms \<Longrightarrow>
   least_aligned (prev_end ts e (natural ts e ms) i) (align0 ts (m_type (ms ! i)))
     (m_offset (natural ts e ms ! i)) \<and> same_decl (natural ts e ms ! i) (ms ! i)"
proof (induction ms arbitrary: e i)
  case (Cons m ms)
  let ?off = "round_up e (align0 ts (m_type m))"
  show ?case
  proof (cases i)
    case 0
    with Cons.prems show ?thesis
      by (simp add: prev_end_def Let_def least_aligned_round_up same_decl_def)
  next
    case (Suc j)
    have "prev_end ts e (natural ts e (m # ms)) (Suc j) =
          prev_end ts (?off + size0 ts (m_type m)) (natural ts (?off + size0 ts (m_type m)) ms) j"
      by (cases j) (simp_all add: prev_end_def Let_def)
    with Cons Suc show ?thesis by (simp add: Let_def)
  qed
qed simp

lemma natural_end_last:
  "natural_end ts e ms = prev_end ts e (natural ts e ms) (length ms)"
proof (induction ms arbitrary: e)
  case (Cons m ms)
  let ?off = "round_up e (align0 ts (m_type m))"
  show ?case
    using Cons.IH [of "?off + size0 ts (m_type m)"]
    by (cases ms) (simp_all add: prev_end_def Let_def)
qed (simp add: prev_end_def)

text \<open>
  C33: Without bit-fields the layout is the natural one, and it exists. When every member has a size
  and a positive alignment and the padded total fits 64 bits, the layout returns; every member
  is placed at the least multiple of its alignment that is not below the end of the previous
  member; the alignment is the largest one (at least 1); and the size is the least multiple of
  that alignment that holds the last member.
\<close>

theorem struct_layout_natural:
  assumes "\<forall>m \<in> set ms. plain_member m \<and> sized ts m"
    and "natural_end ts 0 ms + max_align ts 1 ms < 2 ^ 64"
  shows "\<exists>li. compute_layout_info ts ms False = Some li \<and> length (li_members li) = length ms \<and>
    (\<forall>i < length ms. same_decl (li_members li ! i) (ms ! i) \<and>
       least_aligned (prev_end ts 0 (li_members li) i) (align0 ts (m_type (ms ! i)))
         (m_offset (li_members li ! i))) \<and>
    li_align li = Max (insert 1 ((\<lambda>m. align0 ts (m_type m)) ` set ms)) \<and>
    least_aligned (prev_end ts 0 (li_members li) (length ms)) (li_align li) (li_size li)"
proof -
  let ?A = "max_align ts 1 ms" and ?e = "natural_end ts 0 ms"
  have A: "0 < ?A" using max_align_ge [of 1 ts ms] by simp
  define st where "st = layout_start\<lparr>l_offset := ?e, l_max_align := ?A, l_members := natural ts 0 ms\<rparr>"
  have l: "layout_members ts layout_start ms = Some st"
    using layout_members_plain [OF assms(1), of layout_start] assms(2)
    by (simp add: layout_start_def st_def)
  have cl: "close_unit st = Some st" "l_offset st = ?e" "l_max_align st = ?A" "l_members st = natural ts 0 ms"
    by (simp_all add: st_def close_unit_def layout_start_def)
  have r: "chk_round_up 64 ?e ?A = Some (round_up ?e ?A)"
    using A assms(2) by (simp add: chk_round_up_Some)
  have c: "compute_layout_info ts ms False =
      Some \<lparr>li_size = round_up ?e ?A, li_align = ?A, li_members = natural ts 0 ms\<rparr>"
    using A r by (simp add: compute_layout_info_def l cl del: One_nat_def chk_round_up_Some)
  have mx: "?A = Max (insert 1 ((\<lambda>m. align0 ts (m_type m)) ` set ms))"
    using max_align_in [of ts 1 ms] max_align_ge [of 1 ts ms] max_align_mem [of _ ms ts 1]
    by (intro Max_eqI [symmetric]) auto
  have n: "\<forall>i < length ms. same_decl (natural ts 0 ms ! i) (ms ! i) \<and>
       least_aligned (prev_end ts 0 (natural ts 0 ms) i) (align0 ts (m_type (ms ! i)))
         (m_offset (natural ts 0 ms ! i))"
    using natural_least [of ms ts _ 0] assms(1) by (simp add: sized_def)
  show ?thesis
    using n least_aligned_round_up [OF A, of ?e]
    by (simp add: c mx [symmetric] natural_end_last [symmetric] del: One_nat_def)
qed

theorem struct_layout_natural_witness:
  "\<exists>li. compute_layout_info type_system_new
      (filter plain_member sample_members) False = Some li \<and> li_align li = 2"
proof -
  let ?ms = "filter plain_member sample_members"
  have ms: "?ms = [sample_members ! 0, sample_members ! 3]"
    by (simp add: sample_members_def plain_member_def)
  have s: "m_type (sample_members ! 0) = CHAR_T" "m_type (sample_members ! 3) = SHORT_T"
    by (simp_all add: sample_members_def)
  have "\<forall>m \<in> set ?ms. plain_member m \<and> sized type_system_new m"
    by (simp add: ms sized_def align0_def s) (simp add: sample_members_def plain_member_def)
  moreover have "natural_end type_system_new 0 ?ms + max_align type_system_new 1 ?ms < 2 ^ 64"
    by (simp add: ms s align0_def size0_def round_up_def)
  ultimately obtain li where "compute_layout_info type_system_new ?ms False = Some li"
    and "li_align li = Max (insert 1 ((\<lambda>m. align0 type_system_new (m_type m)) ` set ?ms))"
    using struct_layout_natural by blast
  then show ?thesis by (simp add: ms s align0_def)
qed

section \<open>Unions\<close>

fun max_size :: "type_system \<Rightarrow> nat \<Rightarrow> struct_member list \<Rightarrow> nat" where
  "max_size ts a [] = a"
| "max_size ts a (m # ms) = max_size ts (max a (size0 ts (m_type m))) ms"

lemma max_size_ge: "a \<le> max_size ts a ms"
  by (induction ms arbitrary: a) (auto intro: order_trans [OF max.cobounded1])

lemma max_size_mem: "m \<in> set ms \<Longrightarrow> size0 ts (m_type m) \<le> max_size ts a ms"
proof (induction ms arbitrary: a)
  case (Cons x ms)
  then show ?case using max_size_ge [of "max a (size0 ts (m_type x))" ts ms] by auto
qed simp

lemma max_size_in: "max_size ts a ms \<in> insert a ((\<lambda>m. size0 ts (m_type m)) ` set ms)"
proof (induction ms arbitrary: a)
  case (Cons x ms)
  show ?case using Cons.IH [of "max a (size0 ts (m_type x))"] by (auto simp: max_def)
qed simp

lemma union_members_max:
  "union_members ts a s ms = Some r \<Longrightarrow> r = (max_align ts a ms, max_size ts s ms)"
proof (induction ms arbitrary: a s)
  case (Cons m ms)
  then show ?case
    by (auto simp: option_bind_Some align0_def size0_def max_def split: if_splits)
qed simp

text \<open>
  The layout of a union. Every member is at offset 0 with its name, type and width kept; the
  alignment is the largest alignment of a member (at least 1); and the size is the least
  multiple of it that is not below the largest member.
\<close>

theorem union_layout_sound:
  assumes "compute_layout_info ts ms True = Some li"
  shows "list_all2 same_decl (li_members li) ms \<and> (\<forall>m \<in> set (li_members li). m_offset m = 0) \<and>
    li_align li = Max (insert 1 ((\<lambda>m. align0 ts (m_type m)) ` set ms)) \<and>
    least_aligned (Max (insert 0 ((\<lambda>m. size0 ts (m_type m)) ` set ms))) (li_align li) (li_size li)"
proof -
  let ?A = "max_align ts 1 ms" and ?S = "max_size ts 0 ms"
  have A: "0 < ?A" using max_align_ge [of 1 ts ms] by simp
  from assms obtain a s rounded where u: "union_members ts 1 0 ms = Some (a, s)"
    and r: "(if a > 0 then chk_round_up 64 s a else Some s) = Some rounded"
    and li: "li = \<lparr>li_size = rounded, li_align = a, li_members = map (\<lambda>m. m\<lparr>m_offset := 0\<rparr>) ms\<rparr>"
    by (auto simp: compute_layout_info_def option_bind_Some)
  from union_members_max [OF u] have as: "a = ?A" "s = ?S" by simp_all
  with r A have rnd: "rounded = round_up ?S ?A" by (auto simp: chk_round_up_Some)
  have mx: "?A = Max (insert 1 ((\<lambda>m. align0 ts (m_type m)) ` set ms))"
    using max_align_in [of ts 1 ms] max_align_ge [of 1 ts ms] max_align_mem [of _ ms ts 1]
    by (intro Max_eqI [symmetric]) auto
  have sx: "?S = Max (insert 0 ((\<lambda>m. size0 ts (m_type m)) ` set ms))"
    using max_size_in [of ts 0 ms] max_size_ge [of 0 ts ms] max_size_mem [of _ ms ts 0]
    by (intro Max_eqI [symmetric]) auto
  show ?thesis
    by (simp add: li as rnd least_aligned_round_up [OF A] mx [symmetric] sx [symmetric]
        list_all2_map1 list_all2_same same_decl_def del: One_nat_def)
qed

theorem union_layout_sound_witness:
  "\<exists>li. compute_layout_info type_system_new sample_members True = Some li \<and>
     (\<forall>m \<in> set (li_members li). m_offset m = 0)"
proof -
  have "\<exists>li. compute_layout_info type_system_new sample_members True = Some li"
    by (simp add: compute_layout_info_def sample_members_def chk_round_up_Some)
  with union_layout_sound show ?thesis by blast
qed

section \<open>Laying out a type of the table\<close>

lemma close_unit_align: "close_unit st = Some st' \<Longrightarrow> l_max_align st' = l_max_align st"
  by (auto simp: close_unit_def option_bind_Some split: option.splits)

lemma place_plain_align: "place_plain st m al sz b w = Some st' \<Longrightarrow> l_max_align st' = l_max_align st"
  by (auto simp: place_plain_def option_bind_Some dest: close_unit_align)

lemma place_bitfield_align: "place_bitfield st m al sz w = Some st' \<Longrightarrow> l_max_align st' = l_max_align st"
proof -
  assume "place_bitfield st m al sz w = Some st'"
  then obtain st1 where s1: "(case bf_base st of
               None \<Rightarrow> Some st
             | Some base \<Rightarrow> do {
                 unit_bits \<leftarrow> chk_mul 64 (bf_type_size st) 8;
                 bits_remaining \<leftarrow> chk_sub (unit_bits mod 2 ^ 32) (bf_bits st);
                 if bits_remaining < w then close_unit st else Some st }) = Some st1"
    and r1: "l_max_align st' = l_max_align st1"
    unfolding place_bitfield_def by (auto simp: option_bind_Some split: option.splits prod.splits)
  from s1 close_unit_align [of st st1] have "l_max_align st1 = l_max_align st"
    by (auto simp: option_bind_Some split: option.splits if_splits)
  with r1 show ?thesis by simp
qed

lemma layout_member_align: "layout_member ts st m = Some st' \<Longrightarrow> l_max_align st \<le> l_max_align st'"
  by (cases "m_bit_offset m"; cases "m_bit_width m")
     (auto simp: layout_member_def option_bind_Some Let_def split: if_splits
      dest!: place_plain_align place_bitfield_align)

lemma layout_members_align: "layout_members ts st ms = Some st' \<Longrightarrow> l_max_align st \<le> l_max_align st'"
  by (induction ts st ms rule: layout_members.induct)
     (auto simp: option_bind_Some dest: layout_member_align intro: order_trans)

lemma layout_align_pos:
  assumes "compute_layout_info ts ms u = Some li"
  shows "0 < li_align li"
proof (cases u)
  case True
  with assms show ?thesis
    using max_align_ge [of 1 ts ms]
    by (auto simp: compute_layout_info_def option_bind_Some dest!: union_members_max)
next
  case False
  with assms show ?thesis
    by (auto simp: compute_layout_info_def option_bind_Some layout_start_def
        dest!: close_unit_align layout_members_align)
qed

lemma compute_struct_layout_struct:
  "get_type ts i = Some (TStruct n ms s 0) \<Longrightarrow> compute_struct_layout ts i =
     Option.bind (compute_layout_info ts ms False)
       (\<lambda>li. Some (update_struct_layout ts i (li_size li) (li_align li) (li_members li)))"
  by (simp add: compute_struct_layout_def)

lemma compute_struct_layout_union:
  "get_type ts i = Some (TUnion n ms s 0) \<Longrightarrow> compute_struct_layout ts i =
     Option.bind (compute_layout_info ts ms True)
       (\<lambda>li. Some (update_struct_layout ts i (li_size li) (li_align li) (li_members li)))"
  by (simp add: compute_struct_layout_def)

lemma compute_struct_layout_other:
  "\<forall>n ms s. get_type ts i \<noteq> Some (TStruct n ms s 0) \<and> get_type ts i \<noteq> Some (TUnion n ms s 0) \<Longrightarrow>
     compute_struct_layout ts i = Some ts"
  by (auto simp: compute_struct_layout_def split: option.split ctype.split)

lemma struct_layout_step:
  assumes "compute_struct_layout ts i = Some ts'"
  shows "(\<forall>j. j \<noteq> i \<longrightarrow> get_type ts' j = get_type ts j) \<and> type_cache ts' = type_cache ts \<and>
    (cache_ok ts \<longrightarrow> cache_ok ts') \<and> (types_wf ts \<longrightarrow> types_wf ts') \<and>
    compute_struct_layout ts' i = Some ts' \<and>
    (\<forall>n ms s. get_type ts i = Some (TStruct n ms s 0) \<longrightarrow>
       (\<exists>li. compute_layout_info ts ms False = Some li \<and>
          get_type ts' i = Some (TStruct n (li_members li) (li_size li) (li_align li)))) \<and>
    (\<forall>n ms s. get_type ts i = Some (TUnion n ms s 0) \<longrightarrow>
       (\<exists>li. compute_layout_info ts ms True = Some li \<and>
          get_type ts' i = Some (TUnion n (li_members li) (li_size li) (li_align li))))"
proof -
  consider (same) "\<forall>n ms s. get_type ts i \<noteq> Some (TStruct n ms s 0) \<and> get_type ts i \<noteq> Some (TUnion n ms s 0)"
    | (struct) n ms s where "get_type ts i = Some (TStruct n ms s 0)"
    | (union) n ms s where "get_type ts i = Some (TUnion n ms s 0)" by blast
  then show ?thesis
  proof cases
    case same
    with assms have "ts = ts'" by (simp add: compute_struct_layout_other)
    with same assms show ?thesis by simp
  next
    case struct
    with assms obtain li where li: "compute_layout_info ts ms False = Some li"
        "update_struct_layout ts i (li_size li) (li_align li) (li_members li) = ts'"
      by (auto simp: compute_struct_layout_struct option_bind_Some)
    from struct li(1) layout_align_pos [OF li(1)] show ?thesis unfolding li(2) [symmetric]
      by (simp add: get_type_update_struct_layout update_struct_layout_ok update_struct_layout_wf
          compute_struct_layout_def)
  next
    case union
    with assms obtain li where li: "compute_layout_info ts ms True = Some li"
        "update_struct_layout ts i (li_size li) (li_align li) (li_members li) = ts'"
      by (auto simp: compute_struct_layout_union option_bind_Some)
    from union li(1) layout_align_pos [OF li(1)] show ?thesis unfolding li(2) [symmetric]
      by (simp add: get_type_update_struct_layout update_struct_layout_ok update_struct_layout_wf
          compute_struct_layout_def)
  qed
qed

text \<open>
  Laying out a type is idempotent and local. When \<open>compute_struct_layout\<close> returns, no other
  type of the table changes, the table keeps its cache and its invariants, and a second call
  returns the same table; a struct or union that had no layout is left with exactly the size,
  the alignment and the members that \<open>compute_layout_info\<close> computes, and its name.
\<close>

theorem compute_struct_layout_correct:
  assumes "compute_struct_layout ts i = Some ts'"
  shows "(\<forall>j. j \<noteq> i \<longrightarrow> get_type ts' j = get_type ts j) \<and> type_cache ts' = type_cache ts \<and>
    (cache_ok ts \<longrightarrow> cache_ok ts') \<and> (types_wf ts \<longrightarrow> types_wf ts') \<and>
    compute_struct_layout ts' i = Some ts' \<and>
    (\<forall>n ms s. get_type ts i = Some (TStruct n ms s 0) \<longrightarrow>
       (\<exists>li. compute_layout_info ts ms False = Some li \<and>
          get_type ts' i = Some (TStruct n (li_members li) (li_size li) (li_align li)))) \<and>
    (\<forall>n ms s. get_type ts i = Some (TUnion n ms s 0) \<longrightarrow>
       (\<exists>li. compute_layout_info ts ms True = Some li \<and>
          get_type ts' i = Some (TUnion n (li_members li) (li_size li) (li_align li))))"
  using assms by (rule struct_layout_step)

definition sample_table :: type_system where
  "sample_table = snd (add_type type_system_new (TStruct (Some ''S'') sample_members 0 0))"

lemma sample_table_types:
  "types sample_table = primitive_types @ [TStruct (Some ''S'') sample_members 0 0]"
  by (simp add: sample_table_def add_type_def Let_def)

lemma sample_table_sizes [simp]:
  "size_of sample_table CHAR_T = Some 1" "align_of sample_table CHAR_T = Some 1"
  "size_of sample_table INT_T = Some 4" "align_of sample_table INT_T = Some 4"
  "size_of sample_table SHORT_T = Some 2" "align_of sample_table SHORT_T = Some 2"
  by (simp_all add: size_of.simps align_of.simps get_type_def sample_table_types primitive_types_def type_id_defs)

theorem compute_struct_layout_correct_witness:
  "\<exists>ts' ms. compute_struct_layout sample_table 16 = Some ts' \<and>
     get_type ts' 16 = Some (TStruct (Some ''S'') ms 16 4) \<and> compute_struct_layout ts' 16 = Some ts'"
proof -
  have g: "get_type sample_table 16 = Some (TStruct (Some ''S'') sample_members 0 0)"
    by (simp add: get_type_def sample_table_types primitive_types_def)
  have c: "\<exists>ms. compute_layout_info sample_table sample_members False =
      Some \<lparr>li_size = 16, li_align = 4, li_members = ms\<rparr>"
    by (simp add: compute_layout_info_def sample_members_def layout_start_def layout_member_def Let_def
        place_plain_def place_bitfield_def close_unit_def chk_defs chk_round_up_def)
  then obtain ts' where s: "compute_struct_layout sample_table 16 = Some ts'"
    using g by (auto simp: compute_struct_layout_def)
  from compute_struct_layout_correct [OF s] g c s show ?thesis by fastforce
qed

end
