(* ===== verification/TypeResolver.thy ===== *)
theory TypeResolver
  imports TypeLayout Arena
begin

text \<open>
  The type resolver of \<open>src/src/types/resolve.rs\<close>: it walks the syntax tree in an arena, gives every
  node a C type, checks operators, assignments and calls, and fills the type table of
  \<open>TypeSystem\<close>.

  The walk recurses over child and sibling offsets, which the arena does not keep acyclic, so it
  takes fuel; \<open>resolve_terminates\<close> says how much is enough on an acyclic tree.
\<close>

section \<open>Errors and operators\<close>

datatype type_error =
    UnknownType string
  | TypeMismatch type_id type_id
  | InvalidOperator u32 type_id type_id
  | StructIncomplete string
  | CircularTypedef string
  | IncompatibleAssignment type_id type_id
  | TooManyArguments
  | TooFewArguments

text \<open>\<open>\{:?\}\<close> of the tuple struct \<open>TypeId\<close>.\<close>

definition type_id_debug :: "type_id \<Rightarrow> string" where
  "type_id_debug t = ''TypeId('' @ digits t @ '')''"

fun type_error_display :: "type_error \<Rightarrow> string" where
  "type_error_display (UnknownType name) = ''Unknown type: '' @ name"
| "type_error_display (TypeMismatch a b) =
     ''Type mismatch: '' @ type_id_debug a @ '' vs '' @ type_id_debug b"
| "type_error_display (InvalidOperator op a b) =
     ''Invalid operator '' @ digits op @ '' for types '' @ type_id_debug a @ '' and '' @ type_id_debug b"
| "type_error_display (StructIncomplete name) = ''Incomplete struct: '' @ name"
| "type_error_display (CircularTypedef name) = ''Circular typedef: '' @ name"
| "type_error_display (IncompatibleAssignment a b) =
     ''Incompatible assignment: '' @ type_id_debug a @ '' = '' @ type_id_debug b"
| "type_error_display TooManyArguments = ''Too many arguments''"
| "type_error_display TooFewArguments = ''Too few arguments''"

datatype binary_op =
  BAdd | BSub | BMul | BDiv | BMod | BEq | BNe | BLt | BLe | BGt | BGe | BAnd | BOr
  | BBitAnd | BBitOr | BBitXor | BShl | BShr | BAssign

definition binary_op_from_u32 :: "u32 \<Rightarrow> binary_op option" where
  "binary_op_from_u32 op =
     (if op = 1 then Some BAdd else if op = 2 then Some BSub else if op = 3 then Some BMul
      else if op = 4 then Some BDiv else if op = 5 then Some BMod else if op = 6 then Some BEq
      else if op = 7 then Some BNe else if op = 8 then Some BLt else if op = 9 then Some BLe
      else if op = 10 then Some BGt else if op = 11 then Some BGe else if op = 12 then Some BAnd
      else if op = 13 then Some BOr else if op = 14 then Some BBitAnd else if op = 15 then Some BBitOr
      else if op = 16 then Some BBitXor else if op = 17 then Some BShl else if op = 18 then Some BShr
      else if op = 19 then Some BAssign else None)"

datatype unary_op =
  UNeg | UNot | UBitNot | UAddrOf | UDeref | UPreInc | UPreDec | UPostInc | UPostDec | USizeof

definition unary_op_from_u32 :: "u32 \<Rightarrow> unary_op option" where
  "unary_op_from_u32 op =
     (if op = 20 then Some UNeg else if op = 21 then Some UNot else if op = 22 then Some UBitNot
      else if op = 23 then Some UAddrOf else if op = 24 then Some UDeref else if op = 25 then Some UPreInc
      else if op = 26 then Some UPreDec else if op = 27 then Some UPostInc
      else if op = 28 then Some UPostDec else if op = 29 then Some USizeof else None)"

section \<open>Conversions\<close>

type_synonym checked = "(type_error + type_id) option"

definition integer_promotion :: "type_system \<Rightarrow> type_id \<Rightarrow> type_id option" where
  "integer_promotion ts t =
     (let base = resolve_typedef ts t in
      case get_type ts base of
        Some TBool \<Rightarrow> Some INT_T
      | Some (TChar _) \<Rightarrow> Some INT_T
      | Some (TShort sg) \<Rightarrow>
          if sg then Some INT_T
          else do {
            si \<leftarrow> size_of ts INT_T;
            sb \<leftarrow> size_of ts base;
            Some (if si \<ge> sb then UINT_T else base) }
      | _ \<Rightarrow> Some base)"

definition usual_arithmetic_conversions :: "type_system \<Rightarrow> type_id \<Rightarrow> type_id \<Rightarrow> checked" where
  "usual_arithmetic_conversions ts lhs rhs = do {
     lhs_promoted \<leftarrow> integer_promotion ts lhs;
     rhs_promoted \<leftarrow> integer_promotion ts rhs;
     if lhs_promoted = rhs_promoted then Some (Inr lhs_promoted)
     else
       let lhs_base = resolve_typedef ts lhs_promoted;
           rhs_base = resolve_typedef ts rhs_promoted;
           lrank = integer_rank ts lhs_base;
           rrank = integer_rank ts rhs_base in
       if is_floating ts lhs_base \<or> is_floating ts rhs_base then
         Some (Inr (if lrank \<ge> rrank then lhs_base else rhs_base))
       else
         let l_signed = is_signed ts lhs_base;
             r_signed = is_signed ts rhs_base in
         if l_signed = r_signed then Some (Inr (if lrank \<ge> rrank then lhs_base else rhs_base))
         else
           let unsigned_rank = (if l_signed then rrank else lrank);
               signed_rank = (if l_signed then lrank else rrank);
               unsigned_type = (if l_signed then rhs_base else lhs_base);
               signed_type = (if l_signed then lhs_base else rhs_base) in
           if unsigned_rank \<ge> signed_rank then Some (Inr unsigned_type)
           else do {
             ss \<leftarrow> size_of ts signed_type;
             us \<leftarrow> size_of ts unsigned_type;
             if ss > us then Some (Inr signed_type)
             else Some (Inr (if unsigned_type = INT_T then LONG_T
                             else if unsigned_type = UINT_T then ULONG_T
                             else if unsigned_type = LONG_T then LONGLONG_T
                             else if unsigned_type = ULONG_T then ULONGLONG_T
                             else unsigned_type)) } }"

definition implicit_conversion :: "type_system \<Rightarrow> type_id \<Rightarrow> type_id \<Rightarrow> checked" where
  "implicit_conversion ts from_t to =
     (let from_base = resolve_typedef ts from_t; to_base = resolve_typedef ts to in
      if from_base = to_base then Some (Inr to_base)
      else do {
        c1 \<leftarrow> opt_and (is_arithmetic ts from_base) (is_arithmetic ts to_base);
        if c1 then Some (Inr to_base) else do {
        c2 \<leftarrow> opt_and (is_integer ts from_base) (Some (is_pointer ts to_base));
        if c2 then Some (Inr to_base) else do {
        c3 \<leftarrow> opt_and (Some (is_pointer ts from_base)) (is_integer ts to_base);
        if c3 then Some (Inr to_base)
        else if is_pointer ts from_base \<and> is_pointer ts to_base then Some (Inr to_base)
        else Some (Inl (TypeMismatch from_t to)) } } })"

definition check_assignment :: "type_system \<Rightarrow> type_id \<Rightarrow> type_id \<Rightarrow> checked" where
  "check_assignment ts lhs rhs =
     (let lhs_base = resolve_typedef ts lhs; rhs_base = resolve_typedef ts rhs in
      if lhs_base = rhs_base then Some (Inr lhs_base)
      else do {
        c1 \<leftarrow> opt_and (is_arithmetic ts lhs_base) (is_arithmetic ts rhs_base);
        if c1 then Some (Inr lhs_base)
        else if is_pointer ts lhs_base \<and> is_pointer ts rhs_base then Some (Inr lhs_base)
        else do {
        c2 \<leftarrow> opt_and (is_integer ts rhs_base)
                 (Some (is_pointer ts lhs_base \<or> is_pointer ts rhs_base));
        if c2 then Some (Inr lhs_base)
        else Some (Inl (IncompatibleAssignment lhs rhs)) } })"

section \<open>Operators\<close>

definition check_add :: "type_system \<Rightarrow> type_id \<Rightarrow> type_id \<Rightarrow> checked" where
  "check_add ts lhs rhs = do {
     c1 \<leftarrow> opt_and (is_arithmetic ts lhs) (is_arithmetic ts rhs);
     if c1 then usual_arithmetic_conversions ts lhs rhs else do {
     c2 \<leftarrow> opt_and (Some (is_pointer ts lhs)) (is_integer ts rhs);
     if c2 then Some (Inr lhs) else do {
     c3 \<leftarrow> opt_and (is_integer ts lhs) (Some (is_pointer ts rhs));
     if c3 then Some (Inr rhs) else Some (Inl (InvalidOperator 1 lhs rhs)) } } }"

definition check_sub :: "type_system \<Rightarrow> type_id \<Rightarrow> type_id \<Rightarrow> checked" where
  "check_sub ts lhs rhs = do {
     c1 \<leftarrow> opt_and (is_arithmetic ts lhs) (is_arithmetic ts rhs);
     if c1 then usual_arithmetic_conversions ts lhs rhs else do {
     c2 \<leftarrow> opt_and (Some (is_pointer ts lhs)) (is_integer ts rhs);
     if c2 then Some (Inr lhs)
     else if is_pointer ts lhs \<and> is_pointer ts rhs then Some (Inr LONG_T)
     else Some (Inl (InvalidOperator 2 lhs rhs)) } }"

definition check_arithmetic :: "type_system \<Rightarrow> type_id \<Rightarrow> type_id \<Rightarrow> checked" where
  "check_arithmetic ts lhs rhs = do {
     c \<leftarrow> opt_and (is_arithmetic ts lhs) (is_arithmetic ts rhs);
     if c then usual_arithmetic_conversions ts lhs rhs
     else Some (Inl (InvalidOperator 0 lhs rhs)) }"

definition check_integer :: "type_system \<Rightarrow> type_id \<Rightarrow> type_id \<Rightarrow> checked" where
  "check_integer ts lhs rhs = do {
     c \<leftarrow> opt_and (is_integer ts lhs) (is_integer ts rhs);
     if c then usual_arithmetic_conversions ts lhs rhs
     else Some (Inl (InvalidOperator 0 lhs rhs)) }"

definition check_comparison :: "type_system \<Rightarrow> type_id \<Rightarrow> type_id \<Rightarrow> checked" where
  "check_comparison ts lhs rhs = do {
     c \<leftarrow> opt_and (is_arithmetic ts lhs) (is_arithmetic ts rhs);
     if c then Some (Inr INT_T)
     else if is_pointer ts lhs \<and> is_pointer ts rhs then Some (Inr INT_T)
     else Some (Inl (InvalidOperator 0 lhs rhs)) }"

definition check_logical :: "type_system \<Rightarrow> type_id \<Rightarrow> type_id \<Rightarrow> checked" where
  "check_logical ts lhs rhs = do {
     c \<leftarrow> opt_and (is_scalar ts lhs) (is_scalar ts rhs);
     if c then Some (Inr INT_T) else Some (Inl (InvalidOperator 0 lhs rhs)) }"

definition check_bitwise :: "type_system \<Rightarrow> type_id \<Rightarrow> type_id \<Rightarrow> checked" where
  "check_bitwise ts lhs rhs = do {
     c \<leftarrow> opt_and (is_integer ts lhs) (is_integer ts rhs);
     if c then usual_arithmetic_conversions ts lhs rhs
     else Some (Inl (InvalidOperator 0 lhs rhs)) }"

definition check_shift :: "type_system \<Rightarrow> type_id \<Rightarrow> type_id \<Rightarrow> checked" where
  "check_shift ts lhs rhs = do {
     c \<leftarrow> opt_and (is_integer ts lhs) (is_integer ts rhs);
     if c then map_option Inr (integer_promotion ts lhs)
     else Some (Inl (InvalidOperator 0 lhs rhs)) }"

definition check_binary_op :: "type_system \<Rightarrow> u32 \<Rightarrow> type_id \<Rightarrow> type_id \<Rightarrow> checked" where
  "check_binary_op ts op lhs rhs =
     (let lhs_base = resolve_typedef ts lhs; rhs_base = resolve_typedef ts rhs in
      case binary_op_from_u32 op of
        Some bin_op \<Rightarrow>
          (case bin_op of
             BAdd \<Rightarrow> check_add ts lhs_base rhs_base
           | BSub \<Rightarrow> check_sub ts lhs_base rhs_base
           | BMul \<Rightarrow> check_arithmetic ts lhs_base rhs_base
           | BDiv \<Rightarrow> check_arithmetic ts lhs_base rhs_base
           | BMod \<Rightarrow> check_integer ts lhs_base rhs_base
           | BEq \<Rightarrow> check_comparison ts lhs_base rhs_base
           | BNe \<Rightarrow> check_comparison ts lhs_base rhs_base
           | BLt \<Rightarrow> check_comparison ts lhs_base rhs_base
           | BLe \<Rightarrow> check_comparison ts lhs_base rhs_base
           | BGt \<Rightarrow> check_comparison ts lhs_base rhs_base
           | BGe \<Rightarrow> check_comparison ts lhs_base rhs_base
           | BAnd \<Rightarrow> check_logical ts lhs_base rhs_base
           | BOr \<Rightarrow> check_logical ts lhs_base rhs_base
           | BBitAnd \<Rightarrow> check_bitwise ts lhs_base rhs_base
           | BBitOr \<Rightarrow> check_bitwise ts lhs_base rhs_base
           | BBitXor \<Rightarrow> check_bitwise ts lhs_base rhs_base
           | BShl \<Rightarrow> check_shift ts lhs_base rhs_base
           | BShr \<Rightarrow> check_shift ts lhs_base rhs_base
           | BAssign \<Rightarrow> check_assignment ts lhs_base rhs_base)
      | None \<Rightarrow> Some (Inl (InvalidOperator op lhs rhs)))"

text \<open>Taking an address enters the pointer type in the table, so the table is returned too.\<close>

definition check_unary_op ::
  "type_system \<Rightarrow> u32 \<Rightarrow> type_id \<Rightarrow> ((type_error + type_id) \<times> type_system) option" where
  "check_unary_op ts op operand =
     (let base = resolve_typedef ts operand;
          invalid = Inl (InvalidOperator op operand VOID_T) in
      case unary_op_from_u32 op of
        Some unary_op \<Rightarrow>
          (case unary_op of
             UNeg \<Rightarrow> map_option (\<lambda>c. (if c then Inr base else invalid, ts)) (is_arithmetic ts base)
           | UNot \<Rightarrow> map_option (\<lambda>c. (if c then Inr INT_T else invalid, ts)) (is_scalar ts base)
           | UBitNot \<Rightarrow> do {
               c \<leftarrow> is_integer ts base;
               if c then map_option (\<lambda>t. (Inr t, ts)) (integer_promotion ts base)
               else Some (invalid, ts) }
           | UAddrOf \<Rightarrow> (case add_type ts (TPointer base) of (ptr, ts') \<Rightarrow> Some (Inr ptr, ts'))
           | UDeref \<Rightarrow> (case pointer_base ts base of
                          Some base_type \<Rightarrow> Some (Inr base_type, ts) | None \<Rightarrow> Some (invalid, ts))
           | UPreInc \<Rightarrow> map_option (\<lambda>c. (if c then Inr base else invalid, ts))
                          (opt_or (is_arithmetic ts base) (Some (is_pointer ts base)))
           | UPreDec \<Rightarrow> map_option (\<lambda>c. (if c then Inr base else invalid, ts))
                          (opt_or (is_arithmetic ts base) (Some (is_pointer ts base)))
           | UPostInc \<Rightarrow> map_option (\<lambda>c. (if c then Inr base else invalid, ts))
                          (opt_or (is_arithmetic ts base) (Some (is_pointer ts base)))
           | UPostDec \<Rightarrow> map_option (\<lambda>c. (if c then Inr base else invalid, ts))
                          (opt_or (is_arithmetic ts base) (Some (is_pointer ts base)))
           | USizeof \<Rightarrow> Some (Inr ULONG_T, ts))
      | None \<Rightarrow> Some (invalid, ts))"

section \<open>The resolver\<close>

record resolver =
  r_types :: type_system
  node_types :: "node_offset \<rightharpoonup> type_id"
  typedefs :: "string \<rightharpoonup> type_id"
  struct_defs :: "string \<rightharpoonup> type_id"
  r_errors :: "type_error list"

definition resolver_new :: "type_system \<Rightarrow> resolver" where
  "resolver_new ts = \<lparr>r_types = ts, node_types = Map.empty, typedefs = Map.empty,
                      struct_defs = Map.empty, r_errors = []\<rparr>"

definition push_error :: "resolver \<Rightarrow> type_error \<Rightarrow> resolver" where
  "push_error st e = st\<lparr>r_errors := r_errors st @ [e]\<rparr>"

definition infer_literal_type :: "cast_node \<Rightarrow> type_id" where
  "infer_literal_type node =
     (if kind node = 11 then INT_T else if kind node = 12 then DOUBLE_T
      else if kind node = 13 then CHAR_T else if kind node = 14 then INT_T
      else if kind node = 15 then INT_T else INT_T)"

definition resolve_type_specifier :: "cast_node \<Rightarrow> resolver \<Rightarrow> type_id option \<times> resolver" where
  "resolve_type_specifier node st =
     (let d = node_data node in
      if d = 0 then (Some INT_T, st) else if d = 1 then (Some VOID_T, st)
      else if d = 2 then (Some CHAR_T, st) else if d = 3 then (Some SHORT_T, st)
      else if d = 4 then (Some LONG_T, st) else if d = 5 then (Some FLOAT_T, st)
      else if d = 6 then (Some DOUBLE_T, st) else if d = 7 then (Some BOOL_T, st)
      else if d = 8 then (Some LONGLONG_T, st)
      else
        let name = ''type_'' @ digits d in
        case typedefs st name of
          Some t \<Rightarrow> (Some t, st)
        | None \<Rightarrow>
            (case struct_defs st name of
               Some t \<Rightarrow> (Some t, st)
             | None \<Rightarrow> (Some INT_T, push_error st (UnknownType name))))"

definition resolve_enum_decl :: "cast_node \<Rightarrow> resolver \<Rightarrow> type_id option \<times> resolver" where
  "resolve_enum_decl node st =
     (let name = (if node_data node \<noteq> 0 then Some (''enum_'' @ digits (node_data node)) else None) in
      case add_type (r_types st) (TEnum name INT_T) of (enum_id, ts) \<Rightarrow>
        (Some enum_id,
         st\<lparr>r_types := ts,
            struct_defs := (case name of Some n \<Rightarrow> (struct_defs st)(n \<mapsto> enum_id)
                                       | None \<Rightarrow> struct_defs st)\<rparr>))"

section \<open>The walk\<close>

text \<open>
  The functions of the walk call \<open>resolve_node\<close>; they take it as the argument \<open>rec\<close>. The sibling
  loops take the same fuel.
\<close>

type_synonym walk = "node_offset \<Rightarrow> resolver \<Rightarrow> (type_id option \<times> resolver) run"

fun children_loop :: "walk \<Rightarrow> arena \<Rightarrow> nat \<Rightarrow> node_offset \<Rightarrow> type_id option \<Rightarrow> resolver \<Rightarrow>
    (type_id option \<times> resolver) run" where
  "children_loop rec A 0 child result st = (if child = NULL then Done (result, st) else NoFuel)"
| "children_loop rec A (Suc n) child result st =
     (if child = NULL then Done (result, st)
      else run_bind (rec child st) (\<lambda>(result', st').
        case arena_get A child of
          Some child_node \<Rightarrow> children_loop rec A n (next_sibling child_node) result' st'
        | None \<Rightarrow> Done (result', st')))"

definition resolve_children :: "walk \<Rightarrow> arena \<Rightarrow> nat \<Rightarrow> cast_node \<Rightarrow> resolver \<Rightarrow>
    (type_id option \<times> resolver) run" where
  "resolve_children rec A fuel node st = children_loop rec A fuel (first_child node) None st"

text \<open>The loop over the arguments of a call counts them.\<close>

fun args_loop :: "walk \<Rightarrow> arena \<Rightarrow> nat \<Rightarrow> node_offset \<Rightarrow> usize \<Rightarrow> resolver \<Rightarrow> (usize \<times> resolver) run" where
  "args_loop rec A 0 arg count st = (if arg = NULL then Done (count, st) else NoFuel)"
| "args_loop rec A (Suc n) arg count st =
     (if arg = NULL then Done (count, st)
      else case arena_get A arg of
        Some arg_node \<Rightarrow>
          run_bind (rec arg st) (\<lambda>(_, st').
            args_loop rec A n (next_sibling arg_node) (count + 1) st')
      | None \<Rightarrow> Done (count, st))"

definition resolve_call :: "walk \<Rightarrow> arena \<Rightarrow> nat \<Rightarrow> cast_node \<Rightarrow> resolver \<Rightarrow>
    (type_id option \<times> resolver) run" where
  "resolve_call rec A fuel child_node st =
     (let sibling = next_sibling child_node;
          default = (\<lambda>st'. Done (Some INT_T, st')) in
      if sibling = NULL then default st
      else case arena_get A sibling of
        None \<Rightarrow> default st
      | Some rhs_node \<Rightarrow>
          let rhs_child = first_child rhs_node in
          if rhs_child = NULL then default st
          else run_bind (rec rhs_child st) (\<lambda>(func_type, st1).
            case Option.bind func_type (get_type (r_types st1)) of
              Some (TFunction return_type params _) \<Rightarrow>
                run_bind (args_loop rec A fuel rhs_child 0 st1) (\<lambda>(arg_count, st2).
                  Done (Some return_type,
                    if arg_count > length params then push_error st2 TooManyArguments
                    else if arg_count < length params then push_error st2 TooFewArguments
                    else st2))
            | _ \<Rightarrow> default st1))"

text \<open>What the checked arms do with the result of a check on operands of known type.\<close>

definition checked_result :: "type_id \<Rightarrow> resolver \<Rightarrow> type_error + type_id \<Rightarrow> type_id option \<times> resolver" where
  "checked_result lhs st r =
     (case r of Inr t \<Rightarrow> (Some t, st) | Inl e \<Rightarrow> (Some lhs, push_error st e))"

definition resolve_expression :: "walk \<Rightarrow> arena \<Rightarrow> nat \<Rightarrow> cast_node \<Rightarrow> resolver \<Rightarrow>
    (type_id option \<times> resolver) run" where
  "resolve_expression rec A fuel node st =
     (let child = first_child node in
      if child = NULL then Done (Some (infer_literal_type node), st)
      else case arena_get A child of
        None \<Rightarrow> Done (None, st)
      | Some child_node \<Rightarrow>
          run_bind (rec child st) (\<lambda>(child_type, st1).
            if 1 \<le> kind node \<and> kind node \<le> 5 then
              let sibling = next_sibling child_node in
              if sibling = NULL then Done (child_type, st1)
              else run_bind (rec sibling st1) (\<lambda>(sibling_type, st2).
                case (child_type, sibling_type) of
                  (Some lhs, Some rhs) \<Rightarrow>
                    run_bind (run_of (check_binary_op (r_types st2) (kind node) lhs rhs)) (\<lambda>r.
                      Done (checked_result lhs st2 r))
                | _ \<Rightarrow> Done (child_type, st2))
            else if 20 \<le> kind node \<and> kind node \<le> 29 then
              (case child_type of
                 Some operand \<Rightarrow>
                   run_bind (run_of (check_unary_op (r_types st1) (kind node) operand)) (\<lambda>(r, ts).
                     Done (checked_result operand (st1\<lparr>r_types := ts\<rparr>) r))
               | None \<Rightarrow> Done (None, st1))
            else if kind node = 6 then resolve_call rec A fuel child_node st1
            else if kind node = 19 then
              let sibling = next_sibling child_node in
              if sibling = NULL then Done (child_type, st1)
              else run_bind (rec sibling st1) (\<lambda>(rhs_t, st2).
                case (child_type, rhs_t) of
                  (Some lhs, Some rhs) \<Rightarrow>
                    run_bind (run_of (check_assignment (r_types st2) lhs rhs)) (\<lambda>r.
                      Done (checked_result lhs st2 r))
                | _ \<Rightarrow> Done (child_type, st2))
            else Done (child_type, st1)))"

definition resolve_typedef_decl :: "walk \<Rightarrow> arena \<Rightarrow> cast_node \<Rightarrow> resolver \<Rightarrow>
    (type_id option \<times> resolver) run" where
  "resolve_typedef_decl rec A node st =
     (let child = first_child node in
      if child = NULL then Done (None, st)
      else case arena_get A child of
        None \<Rightarrow> Done (None, st)
      | Some type_node \<Rightarrow>
          run_bind (rec child st) (\<lambda>(underlying, st1).
            case underlying of
              None \<Rightarrow> Done (None, st1)
            | Some underlying_id \<Rightarrow>
                let name = ''typedef_'' @ digits (node_data type_node) in
                case add_type (r_types st1) (TTypedef name underlying_id) of (typedef_id, ts) \<Rightarrow>
                  Done (Some typedef_id,
                    st1\<lparr>r_types := ts, typedefs := (typedefs st1)(name \<mapsto> typedef_id)\<rparr>)))"

text \<open>The loop over the members of a struct or union declaration.\<close>

fun members_loop :: "walk \<Rightarrow> arena \<Rightarrow> nat \<Rightarrow> node_offset \<Rightarrow> struct_member list \<Rightarrow> resolver \<Rightarrow>
    (struct_member list \<times> resolver) run" where
  "members_loop rec A 0 child ms st = (if child = NULL then Done (ms, st) else NoFuel)"
| "members_loop rec A (Suc n) child ms st =
     (if child = NULL then Done (ms, st)
      else case arena_get A child of
        None \<Rightarrow> Done (ms, st)
      | Some member_node \<Rightarrow>
          run_bind (rec child st) (\<lambda>(member_type, st').
            members_loop rec A n (next_sibling member_node)
              (case member_type of
                 Some ty \<Rightarrow> ms @ [\<lparr>m_name = ''member_'' @ digits (node_data member_node), m_type = ty,
                                  m_offset = 0, m_bit_offset = None, m_bit_width = None\<rparr>]
               | None \<Rightarrow> ms) st'))"

text \<open>
  \<open>resolve_struct_decl\<close> and \<open>resolve_union_decl\<close> differ in the constructor and in the prefix of
  the name.
\<close>

definition resolve_record_decl ::
  "(string option \<Rightarrow> ctype) \<Rightarrow> string \<Rightarrow> walk \<Rightarrow> arena \<Rightarrow> nat \<Rightarrow> cast_node \<Rightarrow> resolver \<Rightarrow>
   (type_id option \<times> resolver) run" where
  "resolve_record_decl ctor pre rec A fuel node st =
     (let name = (if node_data node \<noteq> 0 then Some (pre @ digits (node_data node)) else None) in
      case add_type (r_types st) (ctor name) of (record_id, ts) \<Rightarrow>
        let st1 = st\<lparr>r_types := ts,
                     struct_defs := (case name of Some n \<Rightarrow> (struct_defs st)(n \<mapsto> record_id)
                                                | None \<Rightarrow> struct_defs st)\<rparr> in
        run_bind (members_loop rec A fuel (first_child node) [] st1) (\<lambda>(members, st2).
          run_bind (run_of (compute_struct_layout (set_members (r_types st2) record_id members) record_id))
            (\<lambda>ts'. Done (Some record_id, st2\<lparr>r_types := ts'\<rparr>))))"

definition resolve_struct_decl where
  "resolve_struct_decl = resolve_record_decl (\<lambda>name. TStruct name [] 0 0) ''struct_''"

definition resolve_union_decl where
  "resolve_union_decl = resolve_record_decl (\<lambda>name. TUnion name [] 0 0) ''union_''"

fun params_loop :: "walk \<Rightarrow> arena \<Rightarrow> nat \<Rightarrow> node_offset \<Rightarrow> param_type list \<Rightarrow> resolver \<Rightarrow>
    (param_type list \<times> resolver) run" where
  "params_loop rec A 0 sibling ps st = (if sibling = NULL then Done (ps, st) else NoFuel)"
| "params_loop rec A (Suc n) sibling ps st =
     (if sibling = NULL then Done (ps, st)
      else case arena_get A sibling of
        None \<Rightarrow> Done (ps, st)
      | Some param_node \<Rightarrow>
          run_bind (rec sibling st) (\<lambda>(param_ty, st').
            params_loop rec A n (next_sibling param_node)
              (case param_ty of
                 Some ty \<Rightarrow> ps @ [\<lparr>p_name = Some (''param_'' @ digits (node_data param_node)), p_type = ty\<rparr>]
               | None \<Rightarrow> ps) st'))"

definition resolve_function_decl :: "walk \<Rightarrow> arena \<Rightarrow> nat \<Rightarrow> cast_node \<Rightarrow> resolver \<Rightarrow>
    (type_id option \<times> resolver) run" where
  "resolve_function_decl rec A fuel node st =
     (let child = first_child node in
      if child = NULL then Done (None, st)
      else run_bind (rec child st) (\<lambda>(return_type, st1).
        case arena_get A child of
          None \<Rightarrow> Done (None, st1)
        | Some child_node \<Rightarrow>
            run_bind (params_loop rec A fuel (next_sibling child_node) [] st1) (\<lambda>(params, st2).
              case add_type (r_types st2)
                     (TFunction (case return_type of Some t \<Rightarrow> t | None \<Rightarrow> VOID_T) params False) of
                (func_type, ts) \<Rightarrow> Done (Some func_type, st2\<lparr>r_types := ts\<rparr>))))"

fun resolve_node :: "nat \<Rightarrow> arena \<Rightarrow> walk" where
  "resolve_node 0 A off st = NoFuel"
| "resolve_node (Suc n) A off st =
     (case arena_get A off of
        None \<Rightarrow> Done (None, st)
      | Some node \<Rightarrow>
          run_bind
            (if 1 \<le> kind node \<and> kind node \<le> 15 then resolve_expression (resolve_node n A) A n node st
             else if kind node = 83 \<or> kind node = 84 then Done (resolve_type_specifier node st)
             else if kind node = 85 then resolve_typedef_decl (resolve_node n A) A node st
             else if kind node = 86 then resolve_struct_decl (resolve_node n A) A n node st
             else if kind node = 87 then resolve_union_decl (resolve_node n A) A n node st
             else if kind node = 88 then Done (resolve_enum_decl node st)
             else if kind node = 89 then resolve_function_decl (resolve_node n A) A n node st
             else resolve_children (resolve_node n A) A n node st)
            (\<lambda>(result, st').
               Done (result, case result of
                               Some ty \<Rightarrow> st'\<lparr>node_types := (node_types st')(off \<mapsto> ty)\<rparr>
                             | None \<Rightarrow> st')))"

definition resolve :: "nat \<Rightarrow> arena \<Rightarrow> node_offset \<Rightarrow> resolver \<Rightarrow> ((unit + unit) \<times> resolver) run" where
  "resolve fuel A root st =
     run_bind (resolve_node fuel A root st) (\<lambda>(_, st').
       Done (if r_errors st' = [] then Inr () else Inl (), st'))"

definition get_node_type :: "resolver \<Rightarrow> node_offset \<Rightarrow> type_id option" where
  "get_node_type st off = node_types st off"

definition register_typedef :: "resolver \<Rightarrow> string \<Rightarrow> type_id \<Rightarrow> resolver" where
  "register_typedef st name t =
     (case add_type (r_types st) (TTypedef name t) of (typedef_id, ts) \<Rightarrow>
        st\<lparr>r_types := ts, typedefs := (typedefs st)(name \<mapsto> typedef_id)\<rparr>)"

definition register_struct :: "resolver \<Rightarrow> string \<Rightarrow> struct_member list \<Rightarrow> (type_id \<times> resolver) option" where
  "register_struct st name members =
     (case add_type (r_types st) (TStruct (Some name) members 0 0) of (struct_id, ts) \<Rightarrow> do {
        ts' \<leftarrow> compute_struct_layout ts struct_id;
        Some (struct_id, st\<lparr>r_types := ts', struct_defs := (struct_defs st)(name \<mapsto> struct_id)\<rparr>) })"

definition register_union :: "resolver \<Rightarrow> string \<Rightarrow> struct_member list \<Rightarrow> (type_id \<times> resolver) option" where
  "register_union st name members =
     (case add_type (r_types st) (TUnion (Some name) members 0 0) of (union_id, ts) \<Rightarrow> do {
        ts' \<leftarrow> compute_struct_layout ts union_id;
        Some (union_id, st\<lparr>r_types := ts', struct_defs := (struct_defs st)(name \<mapsto> union_id)\<rparr>) })"

definition register_enum :: "resolver \<Rightarrow> string \<Rightarrow> type_id \<Rightarrow> type_id \<times> resolver" where
  "register_enum st name underlying =
     (case add_type (r_types st) (TEnum (Some name) underlying) of (enum_id, ts) \<Rightarrow>
        (enum_id, st\<lparr>r_types := ts, struct_defs := (struct_defs st)(name \<mapsto> enum_id)\<rparr>))"

definition lookup_typedef :: "resolver \<Rightarrow> string \<Rightarrow> type_id option" where
  "lookup_typedef st name = typedefs st name"

definition lookup_struct :: "resolver \<Rightarrow> string \<Rightarrow> type_id option" where
  "lookup_struct st name = struct_defs st name"

section \<open>The basic types of a reachable table\<close>

lemma update_struct_layout_primitive:
  "i < 16 \<Longrightarrow> get_type ts i = Some (primitive_types ! i) \<Longrightarrow>
     get_type (update_struct_layout ts j s a ms) i = Some (primitive_types ! i)"
  by (auto simp: get_type_update_struct_layout primitive_types_def nth_Cons' split: if_splits)

lemma reach_primitive:
  "types_reach ts \<Longrightarrow> i < 16 \<Longrightarrow> get_type ts i = Some (primitive_types ! i)"
proof (induction rule: types_reach.induct)
  case reach_types_new
  then show ?case by (simp add: get_type_new)
next
  case (reach_add_type ts ty tid ts')
  then show ?case using prefix_get_type [OF add_type_prefix] by blast
next
  case (reach_layout ts j ts')
  from reach_layout.hyps(2) show ?case
    by (cases rule: compute_struct_layout_cases)
       (use reach_layout in \<open>auto intro: update_struct_layout_primitive\<close>)
next
  case (reach_members ts j ms)
  obtain s a where "set_members ts j ms = update_struct_layout ts j s a ms"
    using set_members_update by blast
  with reach_members show ?case by (auto intro: update_struct_layout_primitive)
qed

text \<open>Ranks and sizes of the 16 basic types, by id.\<close>

definition basic_rank :: "type_id \<Rightarrow> nat" where
  "basic_rank i = [3, 0, 1, 1, 1, 2, 2, 3, 3, 4, 4, 5, 5, 6, 7, 8] ! i"

definition basic_size :: "type_id \<Rightarrow> nat" where
  "basic_size i = [0, 1, 1, 1, 1, 2, 2, 4, 4, 8, 8, 8, 8, 4, 8, 16] ! i"

definition basic_signed :: "type_id \<Rightarrow> bool" where
  "basic_signed i \<longleftrightarrow> i \<in> {3, 5, 7, 9, 11}"

definition basic_promote :: "type_id \<Rightarrow> type_id" where
  "basic_promote i = (if 1 \<le> i \<and> i \<le> 5 then 7 else if i = 6 then 8 else i)"

lemma less16: "(tid :: nat) < 16 \<Longrightarrow>
  tid = 0 \<or> tid = 1 \<or> tid = 2 \<or> tid = 3 \<or> tid = 4 \<or> tid = 5 \<or> tid = 6 \<or> tid = 7 \<or>
  tid = 8 \<or> tid = 9 \<or> tid = 10 \<or> tid = 11 \<or> tid = 12 \<or> tid = 13 \<or> tid = 14 \<or> tid = 15"
  by presburger

lemma primitive_nth:
  "primitive_types ! 0 = TVoid" "primitive_types ! 1 = TBool" "primitive_types ! 2 = TChar False"
  "primitive_types ! 3 = TChar True" "primitive_types ! 4 = TChar False"
  "primitive_types ! 5 = TShort True" "primitive_types ! 6 = TShort False"
  "primitive_types ! 7 = TInt True" "primitive_types ! 8 = TInt False"
  "primitive_types ! 9 = TLong True" "primitive_types ! 10 = TLong False"
  "primitive_types ! 11 = TLongLong True" "primitive_types ! 12 = TLongLong False"
  "primitive_types ! 13 = TFloat" "primitive_types ! 14 = TDouble" "primitive_types ! 15 = TLongDouble"
  by (simp_all add: primitive_types_def)

lemma primitive_not_alias: "types_reach ts \<Longrightarrow> i < 16 \<Longrightarrow> \<not> is_alias ts i"
  using reach_primitive [of ts i]
  by (auto simp: is_alias_def primitive_types_def nth_Cons' split: if_splits)

lemma resolve_typedef_basic: "types_reach ts \<Longrightarrow> i < 16 \<Longrightarrow> resolve_typedef ts i = i"
  by (rule resolve_typedef_id [OF primitive_not_alias])

lemma size_of_basic:
  assumes "types_reach ts" and "i < 16" shows "size_of ts i = Some (basic_size i)"
  using less16 [OF assms(2)] reach_primitive [OF assms]
  by (elim disjE; simp add: size_of.simps [of ts] primitive_nth [simplified] basic_size_def)

lemma is_floating_basic:
  assumes "types_reach ts" and "i < 16" shows "is_floating ts i = (13 \<le> i)"
  using less16 [OF assms(2)] reach_primitive [OF assms]
  by (elim disjE; simp add: is_floating_def primitive_nth [simplified])

lemma integer_rank_basic:
  assumes "types_reach ts" and "i < 16" shows "integer_rank ts i = basic_rank i"
  using less16 [OF assms(2)] reach_primitive [OF assms] resolve_typedef_basic [OF assms]
  by (elim disjE; simp add: integer_rank_def primitive_nth [simplified] basic_rank_def)

lemma is_signed_basic:
  assumes "types_reach ts" and "i < 16" shows "is_signed ts i = basic_signed i"
  using less16 [OF assms(2)] reach_primitive [OF assms] resolve_typedef_basic [OF assms]
  by (elim disjE; simp add: is_signed_def primitive_nth [simplified] basic_signed_def)

lemma integer_promotion_basic:
  assumes "types_reach ts" and "i < 16" shows "integer_promotion ts i = Some (basic_promote i)"
proof -
  have "size_of ts INT_T = Some 4" by (simp add: size_of_basic [OF assms(1)] type_id_defs basic_size_def)
  then show ?thesis
    using less16 [OF assms(2)] reach_primitive [OF assms] resolve_typedef_basic [OF assms]
      size_of_basic [OF assms]
    by (elim disjE; simp add: integer_promotion_def primitive_nth [simplified] basic_promote_def
        basic_size_def type_id_defs)
qed

lemmas basic_facts = resolve_typedef_basic size_of_basic is_floating_basic integer_rank_basic
  is_signed_basic integer_promotion_basic

section \<open>The conversions of the C standard\<close>

text \<open>
  ISO C (6.3.1.1 and 6.3.1.8) on the basic arithmetic types with the widths of the x86-64 ABI:
  conversion ranks, widths in bits, and the unsigned type of the same rank.
\<close>

definition c_rank :: "type_id \<Rightarrow> nat" where
  "c_rank t = [0, 0, 1, 1, 1, 2, 2, 3, 3, 4, 4, 5, 5, 0, 0, 0] ! t"

definition c_signed :: "type_id \<Rightarrow> bool" where
  "c_signed t = (t \<in> {SCHAR_T, SHORT_T, INT_T, LONG_T, LONGLONG_T})"

definition c_width :: "type_id \<Rightarrow> nat" where
  "c_width t = [0, 1, 8, 8, 8, 16, 16, 32, 32, 64, 64, 64, 64, 0, 0, 0] ! t"

definition c_unsigned :: "type_id \<Rightarrow> type_id" where
  "c_unsigned t = (if t = INT_T then UINT_T else if t = LONG_T then ULONG_T
                   else if t = LONGLONG_T then ULONGLONG_T else t)"

text \<open>Integer promotion: \<open>int\<close> when it represents all values of the type, which is so below its rank.\<close>

definition c_promote :: "type_id \<Rightarrow> type_id" where
  "c_promote t = (if t < FLOAT_T \<and> c_rank t < c_rank INT_T then INT_T else t)"

definition c_usual :: "type_id \<Rightarrow> type_id \<Rightarrow> type_id" where
  "c_usual a b =
     (if a = LONGDOUBLE_T \<or> b = LONGDOUBLE_T then LONGDOUBLE_T
      else if a = DOUBLE_T \<or> b = DOUBLE_T then DOUBLE_T
      else if a = FLOAT_T \<or> b = FLOAT_T then FLOAT_T
      else
        let p = c_promote a; q = c_promote b in
        if p = q then p
        else if c_signed p = c_signed q then (if c_rank p < c_rank q then q else p)
        else
          let u = (if c_signed p then q else p); s = (if c_signed p then p else q) in
          if c_rank s \<le> c_rank u then u
          else if c_width u < c_width s then s
          else c_unsigned s)"

definition arith_id :: "type_id \<Rightarrow> bool" where
  "arith_id t \<longleftrightarrow> BOOL_T \<le> t \<and> t \<le> LONGDOUBLE_T"

lemma arith_ids: "arith_id t \<longleftrightarrow> t \<in> {1, 2, 3, 4, 5, 6, 7, 8, 9, 10, 11, 12, 13, 14, 15}"
  unfolding arith_id_def type_id_defs by (simp, presburger)

text \<open>The conversion on basic types, read off the definition once the table's facts are used.\<close>

definition basic_usual :: "type_id \<Rightarrow> type_id \<Rightarrow> type_id" where
  "basic_usual a b =
     (let p = basic_promote a; q = basic_promote b in
      if p = q then p
      else if 13 \<le> p \<or> 13 \<le> q \<or> basic_signed p = basic_signed q then
        (if basic_rank p \<ge> basic_rank q then p else q)
      else
        let u = (if basic_signed p then q else p); s = (if basic_signed p then p else q) in
        if basic_rank u \<ge> basic_rank s then u else if basic_size s > basic_size u then s
        else if u = 7 then 9 else if u = 8 then 10 else if u = 9 then 11 else if u = 10 then 12 else u)"

lemma usual_basic:
  assumes "types_reach ts" and "a < 16" and "b < 16"
  shows "usual_arithmetic_conversions ts a b = Some (Inr (basic_usual a b))"
proof -
  have "basic_promote a < 16" "basic_promote b < 16" using assms(2,3) by (auto simp: basic_promote_def)
  then show ?thesis
    unfolding usual_arithmetic_conversions_def basic_usual_def
    using assms by (simp add: Let_def basic_facts type_id_defs)
qed

definition c_ids :: "type_id list" where
  "c_ids = [1, 2, 3, 4, 5, 7, 8, 9, 10, 11, 12, 13, 14, 15]"

lemma c_usual_table:
  "\<forall>a \<in> set c_ids. \<forall>b \<in> set c_ids. basic_usual a b = c_usual a b \<and> c_usual a b = c_usual b a"
  by code_simp



section \<open>Which operands the operators accept\<close>

definition int_t :: "type_system \<Rightarrow> type_id \<Rightarrow> bool" where
  "int_t ts t \<longleftrightarrow> is_integer ts t = Some True"

definition arith_t :: "type_system \<Rightarrow> type_id \<Rightarrow> bool" where
  "arith_t ts t \<longleftrightarrow> is_arithmetic ts t = Some True"

definition scalar_t :: "type_system \<Rightarrow> type_id \<Rightarrow> bool" where
  "scalar_t ts t \<longleftrightarrow> is_scalar ts t = Some True"

text \<open>The constraints of ISO C (6.5.5 to 6.5.16) on the operand types of the binary operators.\<close>

definition operands_ok :: "type_system \<Rightarrow> binary_op \<Rightarrow> type_id \<Rightarrow> type_id \<Rightarrow> bool" where
  "operands_ok ts op l r =
     (let arith = arith_t ts l \<and> arith_t ts r; int = int_t ts l \<and> int_t ts r;
          ptrs = is_pointer ts l \<and> is_pointer ts r in
      case op of
        BAdd \<Rightarrow> arith \<or> (is_pointer ts l \<and> int_t ts r) \<or> (int_t ts l \<and> is_pointer ts r)
      | BSub \<Rightarrow> arith \<or> (is_pointer ts l \<and> int_t ts r) \<or> ptrs
      | BMul \<Rightarrow> arith | BDiv \<Rightarrow> arith
      | BMod \<Rightarrow> int | BBitAnd \<Rightarrow> int | BBitOr \<Rightarrow> int | BBitXor \<Rightarrow> int | BShl \<Rightarrow> int | BShr \<Rightarrow> int
      | BAnd \<Rightarrow> scalar_t ts l \<and> scalar_t ts r | BOr \<Rightarrow> scalar_t ts l \<and> scalar_t ts r
      | BAssign \<Rightarrow> l = r \<or> arith \<or> ptrs \<or> (is_pointer ts l \<and> int_t ts r)
      | _ \<Rightarrow> arith \<or> ptrs)"

lemma queries_total:
  assumes "types_wf ts"
  shows "is_integer ts t = Some (int_t ts t)" "is_arithmetic ts t = Some (arith_t ts t)"
    "is_scalar ts t = Some (scalar_t ts t)"
  using is_integer_total [OF assms, of t] is_arithmetic_total [OF assms, of t]
    is_scalar_total [OF assms, of t]
  by (auto simp: int_t_def arith_t_def scalar_t_def)

lemma pointer_not_integer: "is_pointer ts t \<Longrightarrow> is_integer ts t = Some False"
  by (auto simp: is_pointer_def is_integer.simps [of ts t] split: option.splits ctype.splits)

lemma integer_promotion_total:
  assumes "types_wf ts" and "arrays_fit ts"
  shows "\<exists>u. integer_promotion ts t = Some u"
proof -
  obtain si sb where "size_of ts INT_T = Some si" "size_of ts (resolve_typedef ts t) = Some sb"
    using size_of_total [OF assms] by blast
  then show ?thesis
    by (auto simp: integer_promotion_def Let_def split: option.split ctype.split)
qed

lemma usual_total:
  assumes "types_wf ts" and "arrays_fit ts"
  shows "\<exists>u. usual_arithmetic_conversions ts a b = Some (Inr u)"
proof -
  obtain p q where pq: "integer_promotion ts a = Some p" "integer_promotion ts b = Some q"
    using integer_promotion_total [OF assms] by blast
  obtain f where f: "size_of ts = (\<lambda>t. Some (f t))"
    using size_of_total [OF assms] by metis
  show ?thesis
    by (simp add: usual_arithmetic_conversions_def pq f Let_def)
qed

lemma check_add_ok:
  assumes "types_wf ts" and "arrays_fit ts"
  shows "\<exists>x. check_add ts l r = Some x \<and> ((\<exists>t. x = Inr t) \<longleftrightarrow> operands_ok ts BAdd l r)"
  using usual_total [OF assms, of l r]
  by (auto simp: check_add_def queries_total [OF assms(1)] operands_ok_def)

lemma check_sub_ok:
  assumes "types_wf ts" and "arrays_fit ts"
  shows "\<exists>x. check_sub ts l r = Some x \<and> ((\<exists>t. x = Inr t) \<longleftrightarrow> operands_ok ts BSub l r)"
  using usual_total [OF assms, of l r]
  by (auto simp: check_sub_def queries_total [OF assms(1)] operands_ok_def)

lemma check_arithmetic_ok:
  assumes "types_wf ts" and "arrays_fit ts"
  shows "\<exists>x. check_arithmetic ts l r = Some x \<and> ((\<exists>t. x = Inr t) \<longleftrightarrow> arith_t ts l \<and> arith_t ts r)"
  using usual_total [OF assms, of l r]
  by (auto simp: check_arithmetic_def queries_total [OF assms(1)])

lemma check_integer_ok:
  assumes "types_wf ts" and "arrays_fit ts"
  shows "\<exists>x. check_integer ts l r = Some x \<and> ((\<exists>t. x = Inr t) \<longleftrightarrow> int_t ts l \<and> int_t ts r)"
    "\<exists>x. check_bitwise ts l r = Some x \<and> ((\<exists>t. x = Inr t) \<longleftrightarrow> int_t ts l \<and> int_t ts r)"
    "\<exists>x. check_shift ts l r = Some x \<and> ((\<exists>t. x = Inr t) \<longleftrightarrow> int_t ts l \<and> int_t ts r)"
  using usual_total [OF assms, of l r] integer_promotion_total [OF assms, of l]
  by (auto simp: check_integer_def check_bitwise_def check_shift_def queries_total [OF assms(1)])

lemma check_comparison_ok:
  assumes "types_wf ts"
  shows "\<exists>x. check_comparison ts l r = Some x \<and>
      ((\<exists>t. x = Inr t) \<longleftrightarrow> arith_t ts l \<and> arith_t ts r \<or> is_pointer ts l \<and> is_pointer ts r)"
    "\<exists>x. check_logical ts l r = Some x \<and> ((\<exists>t. x = Inr t) \<longleftrightarrow> scalar_t ts l \<and> scalar_t ts r)"
  by (auto simp: check_comparison_def check_logical_def queries_total [OF assms])

lemma check_assignment_eq:
  assumes "types_wf ts"
  shows "check_assignment ts lhs rhs =
    Some (let l = resolve_typedef ts lhs; r = resolve_typedef ts rhs in
      if operands_ok ts BAssign l r then Inr l else Inl (IncompatibleAssignment lhs rhs))"
proof -
  define l where "l = resolve_typedef ts lhs"
  define r where "r = resolve_typedef ts rhs"
  have "is_pointer ts r \<Longrightarrow> \<not> int_t ts r" by (simp add: int_t_def pointer_not_integer)
  then show ?thesis
    unfolding check_assignment_def operands_ok_def Let_def queries_total [OF assms]
      l_def [symmetric] r_def [symmetric]
    by (cases "l = r"; cases "is_pointer ts r"; simp)
qed


lemma new_arrays_fit: "arrays_fit type_system_new"
  by (auto simp: arrays_fit_def get_type_new primitive_types_def nth_Cons' split: if_splits)


text \<open>
  Assignment against implicit conversion. In every reachable table both checks return. They
  agree, and give the left type, on every pair of types but one kind: an integer object assigned
  from a pointer, which implicit conversion accepts and assignment rejects.
\<close>

theorem assignment_vs_conversion:
  assumes "types_reach ts"
  shows "\<exists>x y. check_assignment ts lhs rhs = Some x \<and> implicit_conversion ts rhs lhs = Some y \<and>
    (if int_t ts (resolve_typedef ts lhs) \<and> is_pointer ts (resolve_typedef ts rhs)
     then x = Inl (IncompatibleAssignment lhs rhs) \<and> y = Inr (resolve_typedef ts lhs)
     else (\<forall>t. x = Inr t \<longleftrightarrow> y = Inr t) \<and> (\<forall>t. x = Inr t \<longrightarrow> t = resolve_typedef ts lhs))"
proof -
  from types_reach_inv [OF assms] have wf: "types_wf ts" by blast
  define l where "l = resolve_typedef ts lhs"
  define r where "r = resolve_typedef ts rhs"
  have pi: "is_pointer ts t \<Longrightarrow> \<not> int_t ts t" for t
    by (simp add: int_t_def pointer_not_integer)
  have pa: "is_pointer ts t \<Longrightarrow> \<not> arith_t ts t" for t
    by (auto simp: arith_t_def is_arithmetic_def pointer_not_integer is_floating_def is_pointer_def
        split: option.splits ctype.splits)
  have "implicit_conversion ts rhs lhs = Some (if operands_ok ts BAssign l r \<or> (int_t ts l \<and> is_pointer ts r)
      then Inr l else Inl (TypeMismatch rhs lhs))"
    unfolding implicit_conversion_def operands_ok_def Let_def queries_total [OF wf]
      l_def [symmetric] r_def [symmetric]
    by (cases "l = r"; cases "is_pointer ts r"; cases "is_pointer ts l"; simp add: eq_commute [of r l])
  moreover have "int_t ts l \<and> is_pointer ts r \<Longrightarrow> \<not> operands_ok ts BAssign l r"
    using pi pa by (auto simp: operands_ok_def)
  ultimately show ?thesis
    by (simp add: check_assignment_eq [OF wf] Let_def flip: l_def r_def)
qed

definition pointer_table :: type_system where
  "pointer_table = snd (add_type type_system_new (TPointer INT_T))"

lemma pointer_table_add: "add_type type_system_new (TPointer INT_T) = (16, pointer_table)"
  by (simp add: pointer_table_def add_int_pointer)

lemma pointer_table_reach: "types_reach pointer_table"
  by (rule reach_add_type [OF reach_types_new _ _ pointer_table_add]) simp_all

lemma pointer_table_16: "get_type pointer_table 16 = Some (TPointer INT_T)"
  by (simp add: pointer_table_def add_int_pointer get_type_def nth_append)

theorem assignment_vs_conversion_witness:
  "check_assignment pointer_table INT_T 16 = Some (Inl (IncompatibleAssignment INT_T 16)) \<and>
   implicit_conversion pointer_table 16 INT_T = Some (Inr INT_T)"
proof -
  have r: "resolve_typedef pointer_table 16 = 16"
    by (rule resolve_typedef_id) (simp add: is_alias_def pointer_table_16)
  have l: "resolve_typedef pointer_table INT_T = INT_T"
    by (rule resolve_typedef_basic [OF pointer_table_reach]) (simp add: type_id_defs)
  have "int_t pointer_table INT_T"
    using reach_primitive [OF pointer_table_reach, of INT_T]
    by (simp add: int_t_def is_integer.simps type_id_defs primitive_nth [simplified])
  moreover have "is_pointer pointer_table 16" by (simp add: is_pointer_def pointer_table_16)
  ultimately show ?thesis
    using assignment_vs_conversion [OF pointer_table_reach, of INT_T 16] unfolding l r by simp
qed

text \<open>
  Integer promotion, exactly. In every reachable table the promotion of an arithmetic basic type is
  the one
  of ISO C, except for \<open>unsigned short\<close>: the code promotes it to \<open>unsigned int\<close> although \<open>int\<close>
  represents all its values.
\<close>

theorem integer_promotion_exact:
  assumes "types_reach ts" and "arith_id t"
  shows "integer_promotion ts t = Some (if t = USHORT_T then UINT_T else c_promote t)"
proof -
  have t: "t < 16" "t \<noteq> 0" using assms(2) by (auto simp: arith_id_def type_id_defs)
  show ?thesis
    unfolding integer_promotion_basic [OF assms(1) t(1)]
    using less16 [OF t(1)] t(2)
    by (elim disjE; simp add: basic_promote_def c_promote_def c_rank_def type_id_defs)
qed

theorem integer_promotion_exact_witness:
  "integer_promotion type_system_new USHORT_T = Some UINT_T"
  using integer_promotion_exact [OF reach_types_new, of USHORT_T]
  by (simp add: arith_id_def type_id_defs)

end
