(* ===== verification/ResolverWalk.thy ===== *)
theory ResolverWalk
  imports TypeResolver
begin

text \<open>
  Properties of the walk of \<open>src/src/types/resolve.rs\<close> over a syntax tree: it ends on an acyclic
  tree, keeps the type table well formed and every id it records valid, reports failure exactly
  when it recorded an error, and never reaches the arms for unary operators and assignment.
\<close>

section \<open>Termination\<close>

text \<open>A rank that decreases along child and sibling links: the tree below is acyclic.\<close>

definition ranked :: "arena \<Rightarrow> (node_offset \<Rightarrow> nat) \<Rightarrow> bool" where
  "ranked A rk \<longleftrightarrow>
     (\<forall>off node. arena_get A off = Some node \<longrightarrow>
        (first_child node \<noteq> NULL \<longrightarrow> rk (first_child node) < rk off) \<and>
        (next_sibling node \<noteq> NULL \<longrightarrow> rk (next_sibling node) < rk off))"

lemma ranked_child: "ranked A rk \<Longrightarrow> arena_get A off = Some node \<Longrightarrow> first_child node \<noteq> NULL \<Longrightarrow>
    rk (first_child node) < rk off"
  by (simp add: ranked_def)

lemma ranked_sibling: "ranked A rk \<Longrightarrow> arena_get A off = Some node \<Longrightarrow> next_sibling node \<noteq> NULL \<Longrightarrow>
    rk (next_sibling node) < rk off"
  by (simp add: ranked_def)

text \<open>A walk that returns or panics on every node of rank below \<open>n\<close>.\<close>

definition ends_below :: "walk \<Rightarrow> (node_offset \<Rightarrow> nat) \<Rightarrow> nat \<Rightarrow> bool" where
  "ends_below rec rk n \<longleftrightarrow> (\<forall>off st. rk off < n \<longrightarrow> rec off st \<noteq> NoFuel)"

lemma sibling_below:
  "ranked A rk \<Longrightarrow> arena_get A c = Some node \<Longrightarrow> rk c < Suc n \<and> rk c < m \<Longrightarrow>
   next_sibling node = NULL \<or> rk (next_sibling node) < n \<and> rk (next_sibling node) < m"
  by (cases "next_sibling node = NULL") (auto dest: ranked_sibling)

lemma ends_belowD: "ends_below rec rk m \<Longrightarrow> rk off < m \<Longrightarrow> rec off st \<noteq> NoFuel"
  by (simp add: ends_below_def)

lemma children_loop_ends:
  assumes "ranked A rk" and "ends_below rec rk m"
  shows "child = NULL \<or> rk child < n \<and> rk child < m \<Longrightarrow> children_loop rec A n child result st \<noteq> NoFuel"
proof (induction n arbitrary: child result st)
  case (Suc n)
  with ends_belowD [OF assms(2), of child st] sibling_below [OF assms(1), of child] show ?case
    by (auto simp: run_bind_NoFuel split: option.splits)
qed auto

lemma args_loop_ends:
  assumes "ranked A rk" and "ends_below rec rk m"
  shows "arg = NULL \<or> rk arg < n \<and> rk arg < m \<Longrightarrow> args_loop rec A n arg count st \<noteq> NoFuel"
proof (induction n arbitrary: arg count st)
  case (Suc n)
  with ends_belowD [OF assms(2), of arg st] sibling_below [OF assms(1), of arg] show ?case
    by (auto simp: run_bind_NoFuel split: option.splits)
qed auto

lemma members_loop_ends:
  assumes "ranked A rk" and "ends_below rec rk m"
  shows "child = NULL \<or> rk child < n \<and> rk child < m \<Longrightarrow> members_loop rec A n child ms st \<noteq> NoFuel"
proof (induction n arbitrary: child ms st)
  case (Suc n)
  with ends_belowD [OF assms(2), of child st] sibling_below [OF assms(1), of child] show ?case
    by (auto simp: run_bind_NoFuel split: option.splits)
qed auto

lemma params_loop_ends:
  assumes "ranked A rk" and "ends_below rec rk m"
  shows "p = NULL \<or> rk p < n \<and> rk p < m \<Longrightarrow> params_loop rec A n p ps st \<noteq> NoFuel"
proof (induction n arbitrary: p ps st)
  case (Suc n)
  with ends_belowD [OF assms(2), of p st] sibling_below [OF assms(1), of p] show ?case
    by (auto simp: run_bind_NoFuel split: option.splits)
qed auto

text \<open>The functions of the walk, on a node whose children all have rank below \<open>n\<close>.\<close>

lemma resolve_call_ends:
  assumes "ranked A rk" and "ends_below rec rk n" and "next_sibling c \<noteq> NULL \<longrightarrow> rk (next_sibling c) < n"
  shows "resolve_call rec A n c st \<noteq> NoFuel"
proof -
  have c: "next_sibling c \<noteq> NULL \<Longrightarrow> arena_get A (next_sibling c) = Some r \<Longrightarrow> first_child r \<noteq> NULL \<Longrightarrow>
      rk (first_child r) < n" for r
    using ranked_child [OF assms(1)] assms(3) by fastforce
  then show ?thesis
    using ends_belowD [OF assms(2)] args_loop_ends [OF assms(1,2)]
    by (auto simp: resolve_call_def Let_def run_bind_NoFuel split: option.splits ctype.splits)
qed

lemma resolve_expression_ends:
  assumes "ranked A rk" and "ends_below rec rk n" and "arena_get A off = Some node" and "rk off \<le> n"
  shows "resolve_expression rec A n node st \<noteq> NoFuel"
proof (cases "first_child node = NULL")
  case False
  with ranked_child [OF assms(1,3)] assms(4) have c: "rk (first_child node) < n" by auto
  have s: "arena_get A (first_child node) = Some cn \<Longrightarrow> next_sibling cn \<noteq> NULL \<Longrightarrow> rk (next_sibling cn) < n" for cn
    using ranked_sibling [OF assms(1)] c by fastforce
  show ?thesis
    using False ends_belowD [OF assms(2)] c s resolve_call_ends [OF assms(1,2)]
    by (auto simp: resolve_expression_def Let_def run_bind_NoFuel split: option.splits prod.splits if_splits)
qed (simp add: resolve_expression_def)

lemma resolve_record_decl_ends:
  assumes "ranked A rk" and "ends_below rec rk n" and "arena_get A off = Some node" and "rk off \<le> n"
  shows "resolve_record_decl ctor pre rec A n node st \<noteq> NoFuel"
proof -
  have c: "first_child node = NULL \<or> rk (first_child node) < n \<and> rk (first_child node) < n"
    using ranked_child [OF assms(1,3)] assms(4) by fastforce
  show ?thesis
    using members_loop_ends [OF assms(1,2) c]
    by (auto simp: resolve_record_decl_def Let_def run_bind_NoFuel split: prod.splits)
qed

lemma resolve_typedef_decl_ends:
  assumes "ranked A rk" and "ends_below rec rk n" and "arena_get A off = Some node" and "rk off \<le> n"
  shows "resolve_typedef_decl rec A node st \<noteq> NoFuel"
proof -
  have c: "first_child node = NULL \<or> rk (first_child node) < n"
    using ranked_child [OF assms(1,3)] assms(4) by fastforce
  then show ?thesis
    using ends_belowD [OF assms(2)]
    by (auto simp: resolve_typedef_decl_def Let_def run_bind_NoFuel split: option.splits prod.splits)
qed

lemma resolve_function_decl_ends:
  assumes "ranked A rk" and "ends_below rec rk n" and "arena_get A off = Some node" and "rk off \<le> n"
  shows "resolve_function_decl rec A n node st \<noteq> NoFuel"
proof -
  have c: "first_child node = NULL \<or> rk (first_child node) < n"
    using ranked_child [OF assms(1,3)] assms(4) by fastforce
  then have s: "first_child node \<noteq> NULL \<Longrightarrow> arena_get A (first_child node) = Some cn \<Longrightarrow>
      next_sibling cn = NULL \<or> rk (next_sibling cn) < n \<and> rk (next_sibling cn) < n" for cn
    using ranked_sibling [OF assms(1)] by fastforce
  with c show ?thesis
    using ends_belowD [OF assms(2)] params_loop_ends [OF assms(1,2)]
    by (auto simp: resolve_function_decl_def Let_def run_bind_NoFuel split: option.splits prod.splits)
qed

lemma resolve_children_ends:
  assumes "ranked A rk" and "ends_below rec rk n" and "arena_get A off = Some node" and "rk off \<le> n"
  shows "resolve_children rec A n node st \<noteq> NoFuel"
proof -
  have c: "first_child node = NULL \<or> rk (first_child node) < n \<and> rk (first_child node) < n"
    using ranked_child [OF assms(1,3)] assms(4) by fastforce
  then show ?thesis by (simp add: resolve_children_def children_loop_ends [OF assms(1,2)])
qed

lemma resolve_node_ends: "ranked A rk \<Longrightarrow> ends_below (resolve_node n A) rk n"
proof (induction n)
  case 0
  then show ?case by (simp add: ends_below_def)
next
  case (Suc n)
  have "resolve_node (Suc n) A off st \<noteq> NoFuel" if "rk off \<le> n" for off st
  proof (cases "arena_get A off")
    case (Some node)
    note ends = resolve_expression_ends resolve_record_decl_ends resolve_typedef_decl_ends
      resolve_function_decl_ends resolve_children_ends
    from Suc have "ends_below (resolve_node n A) rk n" by blast
    note e = ends [OF Suc.prems this Some that]
    show ?thesis
      using e by (auto simp: Some run_bind_NoFuel resolve_struct_decl_def resolve_union_decl_def)
  qed simp
  then show ?case by (simp add: ends_below_def)
qed

text \<open>
  C19: Resolution terminates on every acyclic tree. When child and sibling links decrease a rank,
  a depth of recursion one above the rank of the root is enough: the walk does not run out of
  fuel, whatever the state of the resolver, and its verdict is a success exactly when no error
  has been recorded.
\<close>

theorem resolve_terminates:
  assumes "ranked A rk" and "rk root < fuel"
  shows "resolve fuel A root st \<noteq> NoFuel \<and>
    (\<forall>v st'. resolve fuel A root st = Done (v, st') \<longrightarrow> (v = Inr () \<longleftrightarrow> r_errors st' = []))"
  using ends_belowD [OF resolve_node_ends [OF assms(1)] assms(2)]
  by (auto simp: resolve_def run_bind_NoFuel)

section \<open>A sample tree\<close>

text \<open>\<open>1 + 2.0\<close>: an addition whose children are an integer and a floating literal.\<close>

definition sum_nodes :: "cast_node list" where
  "sum_nodes =
     [(cast_node_new 11)\<lparr>next_sibling := 2, parent := 3\<rparr>,
      (cast_node_new 12)\<lparr>prev_sibling := 1, parent := 3\<rparr>,
      (cast_node_new 1)\<lparr>first_child := 1, last_child := 2, child_count := 2\<rparr>]"

definition holds_nodes :: "arena \<Rightarrow> cast_node list \<Rightarrow> bool" where
  "holds_nodes A ns \<longleftrightarrow>
     (\<forall>i. arena_get A i = (if 1 \<le> i \<and> i \<le> length ns then Some (ns ! (i - 1)) else None))"

lemma sum_arena: "\<exists>A. arena_reach A \<and> holds_nodes A sum_nodes"
  using arena_holding [of sum_nodes]
  by (auto simp: sum_nodes_def node_wf_def cast_node_new_def source_unknown_def holds_nodes_def)

lemma sum_arena_get:
  assumes "holds_nodes A sum_nodes"
  shows "arena_get A i = (if i = 1 then Some (sum_nodes ! 0) else if i = 2 then Some (sum_nodes ! 1)
     else if i = 3 then Some (sum_nodes ! 2) else None)"
  using assms by (auto simp: holds_nodes_def sum_nodes_def numeral_3_eq_3 numeral_2_eq_2 le_Suc_eq)

lemma sum_ranked:
  "holds_nodes A sum_nodes \<Longrightarrow> ranked A (\<lambda>i. if i = 3 then 2 else if i = 1 then 1 else 0)"
  by (auto simp: ranked_def sum_arena_get sum_nodes_def cast_node_new_def split: if_splits)

theorem resolve_terminates_witness:
  "\<exists>A. arena_reach A \<and> holds_nodes A sum_nodes \<and>
     resolve 3 A 3 (resolver_new type_system_new) \<noteq> NoFuel"
proof -
  obtain A where A: "arena_reach A" "holds_nodes A sum_nodes" using sum_arena by blast
  from resolve_terminates [OF sum_ranked [OF A(2)], of 3 3] A show ?thesis by auto
qed

section \<open>The arms that are never reached\<close>

lemma children_loop_null [simp]: "children_loop rec A n 0 result st = Done (result, st)"
  by (cases n) simp_all

text \<open>
  The checks of the unary operators and of assignment never run. \<open>resolve_node\<close> sends only
  the kinds 1 to 15 to \<open>resolve_expression\<close>, whose arms for the kinds 19 and 20 to 29 are
  therefore dead: a node of such a kind, with any number of children, is resolved exactly like
  an unknown node, to the type of its last child. Dereferencing an integer literal is thus
  accepted with the type \<open>int\<close>, although \<open>check_unary_op\<close> refuses it.
\<close>

theorem unary_checks_unreachable:
  assumes "arena_get A off = Some node" and "19 \<le> kind node" and "kind node \<le> 29"
  shows "resolve_node (Suc n) A off st =
      run_bind (resolve_children (resolve_node n A) A n node st) (\<lambda>(result, st').
        Done (result, case result of
                        Some ty \<Rightarrow> st'\<lparr>node_types := (node_types st')(off \<mapsto> ty)\<rparr>
                      | None \<Rightarrow> st')) \<and>
    (kind node = 24 \<and> first_child node = c \<and> c \<noteq> NULL \<and>
       arena_get A c = Some lit \<and> kind lit = 11 \<and> first_child lit = NULL \<and> next_sibling lit = NULL \<longrightarrow>
     (\<exists>st'. resolve_node (Suc (Suc n)) A off st = Done (Some INT_T, st') \<and>
        r_errors st' = r_errors st \<and>
        (types_reach (r_types st) \<longrightarrow>
          check_unary_op (r_types st) 24 INT_T =
            Some (Inl (InvalidOperator 24 INT_T VOID_T), r_types st))))"
proof -
  have "types_reach ts \<Longrightarrow> check_unary_op ts 24 INT_T = Some (Inl (InvalidOperator 24 INT_T VOID_T), ts)" for ts
    using reach_primitive [of ts INT_T] resolve_typedef_basic [of ts INT_T]
    by (simp add: check_unary_op_def unary_op_from_u32_def pointer_base_def type_id_defs
        primitive_nth [simplified])
  then show ?thesis
    using assms by (auto simp: resolve_children_def resolve_expression_def infer_literal_type_def)
qed

definition deref_nodes :: "cast_node list" where
  "deref_nodes = [(cast_node_new 11)\<lparr>parent := 2\<rparr>,
                  (cast_node_new 24)\<lparr>first_child := 1, last_child := 1, child_count := 1\<rparr>]"

theorem unary_checks_unreachable_witness:
  "\<exists>A st'. arena_reach A \<and> holds_nodes A deref_nodes \<and>
     resolve_node 2 A 2 (resolver_new type_system_new) = Done (Some INT_T, st') \<and> r_errors st' = []"
proof -
  obtain A where A: "arena_reach A" "holds_nodes A deref_nodes"
    using arena_holding [of deref_nodes]
    by (auto simp: deref_nodes_def node_wf_def cast_node_new_def source_unknown_def holds_nodes_def)
  have g: "arena_get A 2 = Some (deref_nodes ! 1)" "arena_get A 1 = Some (deref_nodes ! 0)"
    using A(2) by (simp_all add: holds_nodes_def deref_nodes_def)
  have k: "19 \<le> kind (deref_nodes ! 1)" "kind (deref_nodes ! 1) \<le> 29"
    by (simp_all add: deref_nodes_def cast_node_new_def)
  have c: "kind (deref_nodes ! 1) = 24 \<and> first_child (deref_nodes ! 1) = 1 \<and> (1 :: nat) \<noteq> NULL \<and>
      arena_get A 1 = Some (deref_nodes ! 0) \<and> kind (deref_nodes ! 0) = 11 \<and>
      first_child (deref_nodes ! 0) = NULL \<and> next_sibling (deref_nodes ! 0) = NULL"
    unfolding g(2) by (simp add: deref_nodes_def cast_node_new_def)
  from mp [OF conjunct2 [OF unary_checks_unreachable [OF g(1) k]] c]
  obtain st' where "resolve_node (Suc (Suc 0)) A 2 (resolver_new type_system_new) = Done (Some INT_T, st')"
    "r_errors st' = r_errors (resolver_new type_system_new)" by blast
  with A show ?thesis unfolding numeral_2_eq_2 by (auto simp: resolver_new_def)
qed

section \<open>The ids a walk produces\<close>

lemma resolve_loop_le: "types_wf ts \<Longrightarrow> resolve_loop ts c v \<le> c"
proof (induction ts c v rule: resolve_loop.induct)
  case (1 ts c v)
  have le: "get_type ts c = Some ty \<Longrightarrow> r \<in> set (size_refs ty) \<Longrightarrow> x \<le> r \<Longrightarrow> x \<le> c" for ty r x
    using types_wfD [OF "1.prems", of c ty r] by simp
  show ?case
  proof (cases "c \<in> set v \<or> get_type ts c = None")
    case True
    then show ?thesis by (auto simp: resolve_loop.simps [of ts c v])
  next
    case False
    then obtain ty where "get_type ts c = Some ty" "c \<notin> set v" by auto
    with 1 le [of ty] show ?thesis
      by (cases ty) (simp_all add: resolve_loop.simps [of ts c v])
  qed
qed

lemma resolve_typedef_le: "types_wf ts \<Longrightarrow> resolve_typedef ts t \<le> t"
  by (simp add: resolve_typedef_def resolve_loop_le)

definition id_ok :: "type_system \<Rightarrow> type_id \<Rightarrow> bool" where
  "id_ok ts t \<longleftrightarrow> t < length (types ts)"

definition table_ok :: "type_system \<Rightarrow> bool" where
  "table_ok ts \<longleftrightarrow> types_wf ts \<and> 16 \<le> length (types ts)"

lemma reach_table_ok: "types_reach ts \<Longrightarrow> table_ok ts"
  using types_reach_inv by (auto simp: table_ok_def)

lemma basic_id_ok [simp]:
  "table_ok ts \<Longrightarrow> id_ok ts VOID_T" "table_ok ts \<Longrightarrow> id_ok ts INT_T" "table_ok ts \<Longrightarrow> id_ok ts UINT_T"
  "table_ok ts \<Longrightarrow> id_ok ts LONG_T" "table_ok ts \<Longrightarrow> id_ok ts ULONG_T" "table_ok ts \<Longrightarrow> id_ok ts LONGLONG_T"
  "table_ok ts \<Longrightarrow> id_ok ts ULONGLONG_T" "table_ok ts \<Longrightarrow> id_ok ts CHAR_T" "table_ok ts \<Longrightarrow> id_ok ts SHORT_T"
  "table_ok ts \<Longrightarrow> id_ok ts FLOAT_T" "table_ok ts \<Longrightarrow> id_ok ts DOUBLE_T" "table_ok ts \<Longrightarrow> id_ok ts BOOL_T"
  by (auto simp: table_ok_def id_ok_def type_id_defs)

lemma resolve_id_ok [simp]: "table_ok ts \<Longrightarrow> id_ok ts t \<Longrightarrow> id_ok ts (resolve_typedef ts t)"
  using resolve_typedef_le [of ts t] by (simp add: table_ok_def id_ok_def)

lemma integer_promotion_id_ok:
  "table_ok ts \<Longrightarrow> id_ok ts t \<Longrightarrow> integer_promotion ts t = Some u \<Longrightarrow> id_ok ts u"
  by (auto simp: integer_promotion_def Let_def split: option.splits ctype.splits if_splits)

lemma usual_id_ok:
  assumes "table_ok ts" "id_ok ts a" "id_ok ts b" "usual_arithmetic_conversions ts a b = Some (Inr u)"
  shows "id_ok ts u"
proof -
  from assms(4) obtain p q where pq: "integer_promotion ts a = Some p" "integer_promotion ts b = Some q"
    by (auto simp: usual_arithmetic_conversions_def)
  have "id_ok ts p" "id_ok ts q"
    using integer_promotion_id_ok [OF assms(1)] assms(2,3) pq by blast+
  with assms(1,4) pq show ?thesis
    by (auto simp: usual_arithmetic_conversions_def Let_def split: if_splits)
qed

lemma check_assignment_id_ok:
  "table_ok ts \<Longrightarrow> id_ok ts l \<Longrightarrow> id_ok ts r \<Longrightarrow> check_assignment ts l r = Some (Inr u) \<Longrightarrow> id_ok ts u"
  by (auto simp: check_assignment_def Let_def split: if_splits)

lemma check_binary_op_id_ok:
  assumes "table_ok ts" "id_ok ts l" "id_ok ts r" "check_binary_op ts op l r = Some (Inr u)"
  shows "id_ok ts u"
proof -
  define x where "x = resolve_typedef ts l"
  define y where "y = resolve_typedef ts r"
  have xy: "id_ok ts x" "id_ok ts y" using assms by (simp_all add: x_def y_def)
  note usual = usual_id_ok [OF assms(1) xy] and assign = check_assignment_id_ok [OF assms(1) xy]
    and promo = integer_promotion_id_ok [OF assms(1) xy(1)]
  from assms(4) obtain b where b: "binary_op_from_u32 op = Some b"
    by (auto simp: check_binary_op_def Let_def split: option.splits)
  have c: "check_binary_op ts op l r = (case b of
             BAdd \<Rightarrow> check_add ts x y | BSub \<Rightarrow> check_sub ts x y | BMul \<Rightarrow> check_arithmetic ts x y
           | BDiv \<Rightarrow> check_arithmetic ts x y | BMod \<Rightarrow> check_integer ts x y
           | BAnd \<Rightarrow> check_logical ts x y | BOr \<Rightarrow> check_logical ts x y
           | BBitAnd \<Rightarrow> check_bitwise ts x y | BBitOr \<Rightarrow> check_bitwise ts x y
           | BBitXor \<Rightarrow> check_bitwise ts x y | BShl \<Rightarrow> check_shift ts x y | BShr \<Rightarrow> check_shift ts x y
           | BAssign \<Rightarrow> check_assignment ts x y | _ \<Rightarrow> check_comparison ts x y)"
    by (cases b) (simp_all add: check_binary_op_def b x_def y_def)
  have add: "check_add ts x y = Some (Inr u) \<Longrightarrow> id_ok ts u"
    using xy usual by (auto simp: check_add_def split: if_splits)
  have sub: "check_sub ts x y = Some (Inr u) \<Longrightarrow> id_ok ts u"
    using xy usual assms(1) by (auto simp: check_sub_def split: if_splits)
  have rest: "check_arithmetic ts x y = Some (Inr u) \<Longrightarrow> id_ok ts u"
    "check_integer ts x y = Some (Inr u) \<Longrightarrow> id_ok ts u"
    "check_bitwise ts x y = Some (Inr u) \<Longrightarrow> id_ok ts u"
    "check_logical ts x y = Some (Inr u) \<Longrightarrow> id_ok ts u"
    "check_comparison ts x y = Some (Inr u) \<Longrightarrow> id_ok ts u"
    "check_shift ts x y = Some (Inr u) \<Longrightarrow> id_ok ts u"
    using usual promo assms(1)
    by (auto simp: check_arithmetic_def check_integer_def check_bitwise_def check_logical_def
        check_comparison_def check_shift_def split: if_splits)
  from assms(4) show ?thesis unfolding c by (cases b) (auto intro: add sub rest assign)
qed

section \<open>Tables whose references are all valid\<close>

text \<open>Every id a type mentions.\<close>

fun all_refs :: "ctype \<Rightarrow> type_id set" where
  "all_refs (TPointer base) = {base}"
| "all_refs (TArray element _) = {element}"
| "all_refs (TStruct _ ms _ _) = m_type ` set ms"
| "all_refs (TUnion _ ms _ _) = m_type ` set ms"
| "all_refs (TEnum _ underlying) = {underlying}"
| "all_refs (TFunction return_type params _) = insert return_type (p_type ` set params)"
| "all_refs (TTypedef _ underlying) = {underlying}"
| "all_refs (TQualified _ base) = {base}"
| "all_refs _ = {}"

lemma size_refs_all: "set (size_refs ty) \<subseteq> all_refs ty"
  by (cases ty) auto

definition refs_ok :: "type_system \<Rightarrow> bool" where
  "refs_ok ts \<longleftrightarrow> (\<forall>i ty. get_type ts i = Some ty \<longrightarrow> (\<forall>r \<in> all_refs ty. id_ok ts r))"

lemma refs_okD: "refs_ok ts \<Longrightarrow> get_type ts i = Some ty \<Longrightarrow> r \<in> all_refs ty \<Longrightarrow> id_ok ts r"
  by (auto simp: refs_ok_def)

lemma refs_ok_new: "refs_ok type_system_new"
proof -
  have "\<forall>ty \<in> set primitive_types. all_refs ty = {}" by (simp add: primitive_types_def)
  then have "i < 16 \<Longrightarrow> all_refs (primitive_types ! i) = {}" for i
    using nth_mem [of i primitive_types] by simp
  then show ?thesis by (auto simp: refs_ok_def get_type_new split: if_splits)
qed

lemma add_type_refs_ok:
  assumes "refs_ok ts" and "length (types ts) < 2 ^ 32" and "\<forall>r \<in> all_refs ty. id_ok ts r"
    and "add_type ts ty = (tid, ts')"
  shows "refs_ok ts'"
  using assms(4,2)
proof (cases rule: add_type_cases)
  case hit
  with assms(1) show ?thesis by simp
next
  case record_type
  with assms(1,3) show ?thesis
    by (auto simp: refs_ok_def id_ok_def get_type_snoc [OF record_type(3)] split: if_splits)
      (meson less_SucI)+
next
  case miss
  with assms(1,3) show ?thesis
    by (auto simp: refs_ok_def id_ok_def get_type_snoc [OF miss(4)] split: if_splits)
      (meson less_SucI)+
qed

lemma add_type_id_ok:
  assumes "cache_ok ts" and "length (types ts) < 2 ^ 32" and "add_type ts ty = (tid, ts')"
  shows "id_ok ts' tid"
  using get_type_less [OF add_type_get [OF assms]] by (simp add: id_ok_def)

lemma set_members_refs_ok:
  assumes "refs_ok ts" and "\<forall>m \<in> set ms. id_ok ts (m_type m)"
  shows "refs_ok (set_members ts i ms)"
proof -
  obtain s a where u: "set_members ts i ms = update_struct_layout ts i s a ms"
    using set_members_update by blast
  show ?thesis unfolding u refs_ok_def id_ok_def length_update_struct_layout
    using assms by (auto simp: get_type_update_struct_layout refs_ok_def id_ok_def
        split: if_splits option.splits ctype.splits)
qed

lemma place_plain_types:
  "place_plain st m al sz b w = Some st' \<Longrightarrow> map m_type (l_members st') = map m_type (l_members st) @ [m_type m]"
  by (auto simp: place_plain_def close_unit_def split: option.splits)

lemma close_unit_members: "close_unit st = Some st' \<Longrightarrow> l_members st' = l_members st"
  by (auto simp: close_unit_def split: option.splits)

lemma place_bitfield_types:
  assumes "place_bitfield st m al sz w = Some st'"
  shows "map m_type (l_members st') = map m_type (l_members st) @ [m_type m]"
proof -
  from assms obtain st1 where s1: "(case bf_base st of
               None \<Rightarrow> Some st
             | Some base \<Rightarrow> do {
                 unit_bits \<leftarrow> chk_mul 64 (bf_type_size st) 8;
                 bits_remaining \<leftarrow> chk_sub (unit_bits mod 2 ^ 32) (bf_bits st);
                 if bits_remaining < w then close_unit st else Some st }) = Some st1"
    and r1: "map m_type (l_members st') = map m_type (l_members st1) @ [m_type m]"
    unfolding place_bitfield_def by (auto split: option.splits prod.splits)
  from s1 close_unit_members [of st st1] have "l_members st1 = l_members st"
    by (auto split: option.splits if_splits)
  with r1 show ?thesis by simp
qed

lemma layout_member_types:
  "layout_member ts st m = Some st' \<Longrightarrow> map m_type (l_members st') = map m_type (l_members st) @ [m_type m]"
  by (cases "m_bit_offset m"; cases "m_bit_width m")
     (auto simp: layout_member_def Let_def split: if_splits dest!: place_plain_types place_bitfield_types)

lemma layout_members_types:
  "layout_members ts st ms = Some st' \<Longrightarrow> map m_type (l_members st') = map m_type (l_members st) @ map m_type ms"
proof (induction ms arbitrary: st)
  case (Cons m ms)
  then obtain st1 where "layout_member ts st m = Some st1" "layout_members ts st1 ms = Some st'" by auto
  with layout_member_types [of ts st m st1] Cons.IH [of st1] show ?case by simp
qed simp

lemma layout_types:
  "compute_layout_info ts ms u = Some li \<Longrightarrow> map m_type (li_members li) = map m_type ms"
  by (auto simp: compute_layout_info_def layout_start_def split: if_splits
      dest!: layout_members_types close_unit_members)

lemma compute_struct_layout_refs_ok:
  assumes "refs_ok ts" and "compute_struct_layout ts i = Some ts'"
  shows "refs_ok ts' \<and> length (types ts') = length (types ts)"
proof -
  have same: "compute_layout_info ts ms u = Some li \<Longrightarrow> m_type ` set (li_members li) = m_type ` set ms" for ms u li
    using layout_types [of ts ms u li] by (metis list.set_map)
  note c = struct_layout_step [OF assms(2)]
  have len: "length (types ts') = length (types ts)"
    using assms(2) by (cases rule: compute_struct_layout_cases) auto
  have "\<exists>ty'. get_type ts j = Some ty' \<and> all_refs ty \<subseteq> all_refs ty'" if g: "get_type ts' j = Some ty" for j ty
  proof (cases "ts' = ts \<or> j \<noteq> i")
    case True
    with g c show ?thesis by auto
  next
    case False
    then have "ts' \<noteq> ts" by blast
    then obtain n ms s where "get_type ts i = Some (TStruct n ms s 0) \<or> get_type ts i = Some (TUnion n ms s 0)"
      using compute_struct_layout_other [of ts i] assms(2) by force
    then show ?thesis
    proof
      assume a: "get_type ts i = Some (TStruct n ms s 0)"
      with c obtain li where li: "compute_layout_info ts ms False = Some li"
        "get_type ts' i = Some (TStruct n (li_members li) (li_size li) (li_align li))" by blast
      with same [OF li(1)] a g False show ?thesis by auto
    next
      assume a: "get_type ts i = Some (TUnion n ms s 0)"
      with c obtain li where li: "compute_layout_info ts ms True = Some li"
        "get_type ts' i = Some (TUnion n (li_members li) (li_size li) (li_align li))" by blast
      with same [OF li(1)] a g False show ?thesis by auto
    qed
  qed
  with assms(1) len show ?thesis by (fastforce simp: refs_ok_def id_ok_def)
qed

section \<open>What the walk keeps\<close>

definition resolver_inv :: "resolver \<Rightarrow> bool" where
  "resolver_inv st \<longleftrightarrow> types_reach (r_types st) \<and> refs_ok (r_types st) \<and>
     (\<forall>t \<in> ran (node_types st) \<union> ran (typedefs st) \<union> ran (struct_defs st). id_ok (r_types st) t)"

abbreviation n_types :: "resolver \<Rightarrow> nat" where
  "n_types st \<equiv> length (types (r_types st))"

text \<open>
  \<open>keeps st T st'\<close>: from \<open>st\<close> to \<open>st'\<close> the table does not shrink and no error is lost; and if the
  table has not outgrown the 32-bit ids, the invariant is kept and the ids in \<open>T\<close> are valid.
\<close>

definition keeps :: "resolver \<Rightarrow> type_id set \<Rightarrow> resolver \<Rightarrow> bool" where
  "keeps st T st' \<longleftrightarrow> n_types st \<le> n_types st' \<and> prefix (r_errors st) (r_errors st') \<and>
     (resolver_inv st \<and> n_types st' < 2 ^ 32 \<longrightarrow> resolver_inv st' \<and> (\<forall>t \<in> T. id_ok (r_types st') t))"

definition rec_ok :: "walk \<Rightarrow> bool" where
  "rec_ok rec \<longleftrightarrow> (\<forall>off st r st'. rec off st = Done (r, st') \<longrightarrow> keeps st (set_option r) st')"

lemma keeps_refl: "keeps st {} st"
  by (simp add: keeps_def)

lemma keeps_sub: "keeps st T st' \<Longrightarrow> U \<subseteq> T \<Longrightarrow> keeps st U st'"
  by (auto simp: keeps_def)

lemma keeps_union: "keeps st T st' \<Longrightarrow> U \<subseteq> T \<Longrightarrow> keeps st (T \<union> U) st'"
  by (simp add: Un_absorb2)

lemma keeps_trans:
  assumes "keeps st T st1" and "keeps st1 U st2"
  shows "keeps st (T \<union> U) st2"
proof -
  have m: "id_ok (r_types st1) t \<Longrightarrow> n_types st1 \<le> n_types st2 \<Longrightarrow> id_ok (r_types st2) t" for t
    by (simp add: id_ok_def)
  show ?thesis using assms m unfolding keeps_def
    by (fastforce intro: prefix_order.order_trans)
qed

lemma keeps_rec: "rec_ok rec \<Longrightarrow> keeps st T st1 \<Longrightarrow> rec off st1 = Done (r, st2) \<Longrightarrow> keeps st (T \<union> set_option r) st2"
  by (rule keeps_trans) (auto simp: rec_ok_def)

lemma keeps_push_error: "keeps st T st1 \<Longrightarrow> keeps st T (push_error st1 e)"
  by (auto simp: keeps_def push_error_def resolver_inv_def)

lemma keeps_basic:
  assumes "keeps st T st1" and "t \<in> {INT_T, VOID_T, CHAR_T, SHORT_T, LONG_T, FLOAT_T, DOUBLE_T, BOOL_T, LONGLONG_T}"
  shows "keeps st (insert t T) st1"
proof -
  have "resolver_inv st1 \<Longrightarrow> id_ok (r_types st1) t"
    using assms(2) reach_table_ok by (auto simp: resolver_inv_def)
  with assms(1) show ?thesis by (auto simp: keeps_def)
qed

lemma keeps_node_types:
  assumes "keeps st T st1" and "t \<in> T"
  shows "keeps st T (st1\<lparr>node_types := (node_types st1)(off \<mapsto> t)\<rparr>)"
  using assms by (auto simp: keeps_def resolver_inv_def ran_def)

lemma keeps_typedefs:
  assumes "keeps st T st1" and "t \<in> T"
  shows "keeps st T (st1\<lparr>typedefs := (typedefs st1)(n \<mapsto> t)\<rparr>)"
  using assms by (auto simp: keeps_def resolver_inv_def ran_def)

lemma keeps_struct_defs:
  assumes "keeps st T st1" and "t \<in> T"
  shows "keeps st T (st1\<lparr>struct_defs := (struct_defs st1)(n \<mapsto> t)\<rparr>)"
  using assms by (auto simp: keeps_def resolver_inv_def ran_def)

lemma keeps_types:
  assumes "keeps st T st1" and "n_types st1 \<le> length (types ts)"
    and "resolver_inv st1 \<Longrightarrow> length (types ts) < 2 ^ 32 \<Longrightarrow> \<forall>t \<in> T. id_ok (r_types st1) t \<Longrightarrow>
      types_reach ts \<and> refs_ok ts \<and> (\<forall>t \<in> U. id_ok ts t)"
  shows "keeps st (T \<union> U) (st1\<lparr>r_types := ts\<rparr>)"
proof -
  have m: "id_ok (r_types st1) t \<Longrightarrow> id_ok ts t" for t
    using assms(2) by (simp add: id_ok_def)
  have i: "resolver_inv st \<Longrightarrow> length (types ts) < 2 ^ 32 \<Longrightarrow>
      resolver_inv st1 \<and> (\<forall>t \<in> T. id_ok (r_types st1) t)"
    using assms(1,2) by (simp add: keeps_def)
  show ?thesis
    unfolding keeps_def
  proof (intro conjI impI)
    show "n_types st \<le> n_types (st1\<lparr>r_types := ts\<rparr>)" "prefix (r_errors st) (r_errors (st1\<lparr>r_types := ts\<rparr>))"
      using assms(1,2) by (simp_all add: keeps_def)
    assume a: "resolver_inv st \<and> n_types (st1\<lparr>r_types := ts\<rparr>) < 2 ^ 32"
    then have b: "resolver_inv st1" "\<forall>t \<in> T. id_ok (r_types st1) t" using i by auto
    with a assms(3) have c: "types_reach ts" "refs_ok ts" "\<forall>t \<in> U. id_ok ts t" by auto
    with b m show "resolver_inv (st1\<lparr>r_types := ts\<rparr>)" by (auto simp: resolver_inv_def)
    from b c m show "\<forall>t \<in> T \<union> U. id_ok (r_types (st1\<lparr>r_types := ts\<rparr>)) t" by auto
  qed
qed

lemma add_type_length: "add_type ts ty = (tid, ts') \<Longrightarrow> length (types ts) \<le> length (types ts')"
  by (rule prefix_length_le [OF add_type_prefix])

lemma keeps_add_type:
  assumes "keeps st T st1" and "all_refs ty \<subseteq> insert INT_T (insert VOID_T T)"
    and "add_type (r_types st1) ty = (tid, ts)"
  shows "keeps st (insert tid T) (st1\<lparr>r_types := ts\<rparr>)"
proof -
  note len = add_type_length [OF assms(3)]
  have "keeps st (T \<union> {tid}) (st1\<lparr>r_types := ts\<rparr>)"
  proof (rule keeps_types [OF assms(1) len])
    assume i: "resolver_inv st1" "length (types ts) < 2 ^ 32" "\<forall>t \<in> T. id_ok (r_types st1) t"
    then have r: "types_reach (r_types st1)" "refs_ok (r_types st1)" by (auto simp: resolver_inv_def)
    with i(3) assms(2) reach_table_ok have v: "\<forall>r \<in> all_refs ty. id_ok (r_types st1) r" by auto
    with size_refs_all [of ty] have v': "\<forall>r \<in> set (size_refs ty). r < n_types st1" by (auto simp: id_ok_def)
    have l: "n_types st1 < 2 ^ 32" using len i(2) by simp
    show "types_reach ts \<and> refs_ok ts \<and> (\<forall>t \<in> {tid}. id_ok ts t)"
      using reach_add_type [OF r(1) l v' assms(3)] add_type_refs_ok [OF r(2) l v assms(3)]
        add_type_id_ok [OF _ l assms(3)] types_reach_inv [OF r(1)] by simp
  qed
  then show ?thesis by simp
qed

text \<open>The loops and functions of the walk, from any earlier state \<open>s\<close>.\<close>

lemma children_loop_keeps:
  assumes "rec_ok rec"
  shows "keeps s (set_option r) st \<Longrightarrow> children_loop rec A n c r st = Done (r', st') \<Longrightarrow>
    keeps s (set_option r') st'"
proof (induction n arbitrary: c r st)
  case (Suc n)
  show ?case
  proof (cases "c = NULL")
    case False
    with Suc.prems(2) obtain r1 st1 where 1: "rec c st = Done (r1, st1)" by auto
    have "keeps s (set_option r1) st1"
      by (rule keeps_sub [OF keeps_rec [OF assms Suc.prems(1) 1]]) simp
    with Suc False 1 show ?thesis by (auto split: option.splits)
  qed (use Suc in simp)
qed (auto split: if_splits)

lemma args_loop_keeps:
  assumes "rec_ok rec"
  shows "keeps s T st \<Longrightarrow> args_loop rec A n c k st = Done (k', st') \<Longrightarrow> keeps s T st'"
proof (induction n arbitrary: c k st)
  case (Suc n)
  show ?case
  proof (cases "c = NULL \<or> arena_get A c = None")
    case False
    with Suc.prems(2) obtain r1 st1 where 1: "rec c st = Done (r1, st1)" by auto
    have "keeps s T st1"
      by (rule keeps_sub [OF keeps_rec [OF assms Suc.prems(1) 1]]) simp
    with Suc False 1 show ?thesis by auto
  qed (use Suc in \<open>auto split: if_splits option.splits\<close>)
qed (auto split: if_splits)

lemma members_loop_keeps:
  assumes "rec_ok rec"
  shows "keeps s T st \<Longrightarrow> m_type ` set ms \<subseteq> T \<Longrightarrow> members_loop rec A n c ms st = Done (ms', st') \<Longrightarrow>
    keeps s (T \<union> m_type ` set ms') st'"
proof (induction n arbitrary: T c ms st)
  case 0
  then show ?case by (auto split: if_splits intro: keeps_union)
next
  case (Suc n)
  show ?case
  proof (cases "c = NULL \<or> arena_get A c = None")
    case True
    with Suc.prems show ?thesis by (auto split: if_splits intro: keeps_union)
  next
    case False
    with Suc.prems(3) obtain r1 st1 node where 1: "rec c st = Done (r1, st1)" "arena_get A c = Some node"
      by auto
    note k = keeps_rec [OF assms Suc.prems(1) 1(1)]
    have "keeps s (T \<union> set_option r1 \<union> m_type ` set ms') st'"
      by (rule Suc.IH [OF k]) (use Suc.prems False 1 in \<open>auto split: option.splits\<close>)
    then show ?thesis by (rule keeps_sub) auto
  qed
qed

lemma params_loop_keeps:
  assumes "rec_ok rec"
  shows "keeps s T st \<Longrightarrow> p_type ` set ps \<subseteq> T \<Longrightarrow> params_loop rec A n c ps st = Done (ps', st') \<Longrightarrow>
    keeps s (T \<union> p_type ` set ps') st'"
proof (induction n arbitrary: T c ps st)
  case 0
  then show ?case by (auto split: if_splits intro: keeps_union)
next
  case (Suc n)
  show ?case
  proof (cases "c = NULL \<or> arena_get A c = None")
    case True
    with Suc.prems show ?thesis by (auto split: if_splits intro: keeps_union)
  next
    case False
    with Suc.prems(3) obtain r1 st1 node where 1: "rec c st = Done (r1, st1)" "arena_get A c = Some node"
      by auto
    note k = keeps_rec [OF assms Suc.prems(1) 1(1)]
    have "keeps s (T \<union> set_option r1 \<union> p_type ` set ps') st'"
      by (rule Suc.IH [OF k]) (use Suc.prems False 1 in \<open>auto split: option.splits\<close>)
    then show ?thesis by (rule keeps_sub) auto
  qed
qed

lemma resolve_call_keeps:
  assumes "rec_ok rec" and "keeps s T st" and "resolve_call rec A n c st = Done (r, st')"
  shows "keeps s (set_option r) st'"
proof -
  have int: "keeps s T st1 \<Longrightarrow> keeps s {INT_T} st1" for st1 T
    by (rule keeps_sub [OF keeps_basic [of _ _ _ INT_T]]) auto
  show ?thesis
  proof (cases "next_sibling c = NULL \<or> arena_get A (next_sibling c) = None \<or>
      first_child (the (arena_get A (next_sibling c))) = NULL")
    case True
    with assms(3) int [OF assms(2)] show ?thesis
      by (auto simp: resolve_call_def Let_def split: option.splits if_splits)
  next
    case False
    then obtain rn where rn: "arena_get A (next_sibling c) = Some rn" "first_child rn \<noteq> NULL" "next_sibling c \<noteq> NULL"
      by auto
    from assms(3) rn obtain ft st1 where 1: "rec (first_child rn) st = Done (ft, st1)"
      by (auto simp: resolve_call_def Let_def)
    have k1: "keeps s (set_option ft) st1" by (rule keeps_sub [OF keeps_rec [OF assms(1,2) 1]]) simp
    show ?thesis
    proof (cases "\<exists>ret ps v. Option.bind ft (get_type (r_types st1)) = Some (TFunction ret ps v)")
      case True
      then obtain t ret ps v where f: "ft = Some t" "get_type (r_types st1) t = Some (TFunction ret ps v)"
        by (cases ft) auto
      have k2: "keeps s {ret} st1"
        using k1 f(2) refs_okD [OF _ f(2)] by (auto simp: keeps_def resolver_inv_def)
      from assms(3) rn 1 f obtain k st2 where 2: "args_loop rec A n (first_child rn) 0 st1 = Done (k, st2)"
        and res: "r = Some ret" "st' = (if k > length ps then push_error st2 TooManyArguments
                    else if k < length ps then push_error st2 TooFewArguments else st2)"
        by (auto simp: resolve_call_def Let_def)
      have "keeps s {ret} st2" by (rule args_loop_keeps [OF assms(1) k2 2])
      then show ?thesis by (simp add: res keeps_push_error)
    next
      case False
      with assms(3) rn 1 have "r = Some INT_T" "st' = st1"
        by (auto simp: resolve_call_def Let_def split: option.splits ctype.splits)
      with int [OF k1] show ?thesis by simp
    qed
  qed
qed

lemma checked_result_keeps:
  assumes "keeps s T st" and "lhs \<in> T" and "checked_result lhs st x = (r, st')"
    and "\<And>t. x = Inr t \<Longrightarrow> keeps s {t} st"
  shows "keeps s (set_option r) st'"
proof (cases x)
  case (Inl e)
  then have "r = Some lhs" "st' = push_error st e" using assms(3) by (auto simp: checked_result_def)
  with keeps_push_error [OF keeps_sub [OF assms(1), of "{lhs}"]] assms(2) show ?thesis by simp
next
  case (Inr t)
  with assms(3,4) show ?thesis by (auto simp: checked_result_def)
qed

lemma keeps_ids:
  assumes "keeps s T st" and "resolver_inv st \<Longrightarrow> \<forall>t \<in> T. id_ok (r_types st) t \<Longrightarrow> id_ok (r_types st) u"
  shows "keeps s {u} st"
  using assms by (auto simp: keeps_def)

text \<open>Only the kinds 1 to 15 reach \<open>resolve_expression\<close>.\<close>

lemma resolve_expression_keeps:
  assumes rec: "rec_ok rec" and "kind node \<le> 15" and e: "resolve_expression rec A n node st = Done (r, st')"
  shows "keeps st (set_option r) st'"
proof (cases "first_child node = NULL \<or> arena_get A (first_child node) = None")
  case True
  have lit: "keeps st {infer_literal_type node} st"
    by (rule keeps_sub [OF keeps_basic [OF keeps_refl, of "infer_literal_type node"]])
       (auto simp: infer_literal_type_def)
  from True e have "st' = st \<and> (r = Some (infer_literal_type node) \<or> r = None)"
    by (auto simp: resolve_expression_def Let_def split: option.splits if_splits)
  with lit keeps_refl show ?thesis by auto
next
  case False
  then obtain cn where cn: "first_child node \<noteq> NULL" "arena_get A (first_child node) = Some cn" by auto
  from e cn obtain ct st1 where 1: "rec (first_child node) st = Done (ct, st1)"
    by (auto simp: resolve_expression_def Let_def)
  have k1: "keeps st (set_option ct) st1" using rec 1 by (auto simp: rec_ok_def)
  show ?thesis
  proof (cases "1 \<le> kind node \<and> kind node \<le> 5")
    case True
    show ?thesis
    proof (cases "next_sibling cn = NULL")
      case True
      with \<open>1 \<le> kind node \<and> kind node \<le> 5\<close> e cn 1 have "r = ct" "st' = st1"
        by (auto simp: resolve_expression_def Let_def)
      with k1 show ?thesis by simp
    next
      case False
      with True e cn 1 obtain sr st2 where 2: "rec (next_sibling cn) st1 = Done (sr, st2)"
        by (auto simp: resolve_expression_def Let_def)
      note k2 = keeps_rec [OF rec k1 2]
      show ?thesis
      proof (cases "ct = None \<or> sr = None")
        case no: True
        with True False e cn 1 2 have "r = ct" "st' = st2"
          by (auto simp: resolve_expression_def Let_def split: option.splits)
        with k2 show ?thesis by (auto elim: keeps_sub)
      next
        case no: False
        then obtain l rr where lr: "ct = Some l" "sr = Some rr" by auto
        with True False e cn 1 2 obtain x where x: "check_binary_op (r_types st2) (kind node) l rr = Some x"
          "checked_result l st2 x = (r, st')"
          by (auto simp: resolve_expression_def Let_def)
        show ?thesis
        proof (rule checked_result_keeps [OF k2 _ x(2)])
          show "l \<in> set_option ct \<union> set_option sr" by (simp add: lr)
          fix t assume "x = Inr t"
          with x(1) have "check_binary_op (r_types st2) (kind node) l rr = Some (Inr t)" by simp
          then have "table_ok (r_types st2) \<Longrightarrow> id_ok (r_types st2) l \<Longrightarrow> id_ok (r_types st2) rr \<Longrightarrow>
              id_ok (r_types st2) t" by (rule check_binary_op_id_ok [rotated 3])
          then show "keeps st {t} st2"
            by (rule keeps_ids [OF k2]) (auto simp: lr resolver_inv_def reach_table_ok)
        qed
      qed
    qed
  next
    case False
    show ?thesis
    proof (cases "kind node = 6")
      case True
      with e cn 1 have "resolve_call rec A n cn st1 = Done (r, st')"
        by (simp add: resolve_expression_def Let_def)
      with resolve_call_keeps [OF rec k1] show ?thesis by blast
    next
      case no6: False
      have k: "(1 \<le> kind node \<and> kind node \<le> 5) = False" "(20 \<le> kind node \<and> kind node \<le> 29) = False"
        "(kind node = 6) = False" "(kind node = 19) = False"
        using False no6 assms(2) by auto
      from e have "r = ct" "st' = st1"
        by (simp_all add: resolve_expression_def Let_def k cn 1 del: One_nat_def)
      with k1 show ?thesis by simp
    qed
  qed
qed

lemma resolve_type_specifier_keeps:
  assumes "resolve_type_specifier node st = (r, st')"
  shows "keeps st (set_option r) st'"
proof (cases "node_data node \<le> 8")
  case True
  then have "st' = st" "r \<in> {Some INT_T, Some VOID_T, Some CHAR_T, Some SHORT_T, Some LONG_T, Some FLOAT_T,
      Some DOUBLE_T, Some BOOL_T, Some LONGLONG_T}"
    using assms by (auto simp: resolve_type_specifier_def Let_def split: if_splits)
  moreover from this have "keeps st {the r} st"
    by (intro keeps_basic [OF keeps_refl]) auto
  ultimately show ?thesis by auto
next
  case False
  define name where "name = ''type_'' @ digits (node_data node)"
  have int: "keeps st {INT_T} (push_error st (UnknownType name))"
    by (intro keeps_push_error keeps_basic [OF keeps_refl]) simp
  define x where "x = typedefs st name"
  define y where "y = struct_defs st name"
  have "x = Some t \<or> y = Some t \<Longrightarrow> keeps st {t} st" for t
    by (rule keeps_ids [OF keeps_refl]) (auto simp: x_def y_def resolver_inv_def intro: ranI)
  moreover have "(case x of
          Some t \<Rightarrow> (Some t, st)
        | None \<Rightarrow>
            (case y of
               Some t \<Rightarrow> (Some t, st)
             | None \<Rightarrow> (Some INT_T, push_error st (UnknownType name)))) = (r, st')"
    using assms False unfolding resolve_type_specifier_def Let_def name_def [symmetric] x_def y_def by simp
  ultimately show ?thesis
    using int by (cases x; cases y) auto
qed

lemma resolve_enum_decl_keeps:
  assumes "resolve_enum_decl node st = (r, st')"
  shows "keeps st (set_option r) st'"
proof -
  define name where "name = (if node_data node \<noteq> 0 then Some (''enum_'' @ digits (node_data node)) else None)"
  obtain eid ts where a: "add_type (r_types st) (TEnum name INT_T) = (eid, ts)" by fastforce
  have k: "keeps st {eid} (st\<lparr>r_types := ts\<rparr>)"
    by (rule keeps_add_type [OF keeps_refl _ a]) simp
  with keeps_struct_defs [OF k, of eid] assms a show ?thesis
    by (auto simp: resolve_enum_decl_def Let_def name_def split: if_splits)
qed

lemma resolve_typedef_decl_keeps:
  assumes rec: "rec_ok rec" and e: "resolve_typedef_decl rec A node st = Done (r, st')"
  shows "keeps st (set_option r) st'"
proof (cases "first_child node = NULL \<or> arena_get A (first_child node) = None")
  case True
  with e have "r = None" "st' = st" by (auto simp: resolve_typedef_decl_def Let_def split: if_splits)
  with keeps_refl show ?thesis by simp
next
  case False
  then obtain tn where tn: "first_child node \<noteq> NULL" "arena_get A (first_child node) = Some tn" by auto
  with e obtain u st1 where 1: "rec (first_child node) st = Done (u, st1)"
    by (auto simp: resolve_typedef_decl_def Let_def)
  have k1: "keeps st (set_option u) st1" using rec 1 by (auto simp: rec_ok_def)
  show ?thesis
  proof (cases u)
    case None
    with e tn 1 k1 show ?thesis by (auto simp: resolve_typedef_decl_def Let_def)
  next
    case (Some uid)
    obtain tid ts where a: "add_type (r_types st1) (TTypedef (''typedef_'' @ digits (node_data tn)) uid) = (tid, ts)"
      by fastforce
    have k2: "keeps st (insert tid (set_option u)) (st1\<lparr>r_types := ts\<rparr>)"
      by (rule keeps_add_type [OF k1 _ a]) (simp add: Some)
    from e tn 1 Some a have res: "r = Some tid" "st' = st1\<lparr>r_types := ts,
        typedefs := (typedefs st1)(''typedef_'' @ digits (node_data tn) \<mapsto> tid)\<rparr>"
      by (auto simp: resolve_typedef_decl_def Let_def)
    have "keeps st (insert tid (set_option u)) st'"
      using keeps_typedefs [OF k2] by (simp add: res)
    then show ?thesis by (rule keeps_sub) (simp add: res)
  qed
qed

lemma set_members_length [simp]: "length (types (set_members ts i ms)) = length (types ts)"
  using set_members_update [of ts i ms] by auto

lemma resolve_record_decl_keeps:
  assumes rec: "rec_ok rec" and ctor: "\<And>n. all_refs (ctor n) = {}"
    and e: "resolve_record_decl ctor pre rec A n node st = Done (r, st')"
  shows "keeps st (set_option r) st'"
proof -
  define name where "name = (if node_data node \<noteq> 0 then Some (pre @ digits (node_data node)) else None)"
  obtain rid ts where a: "add_type (r_types st) (ctor name) = (rid, ts)" by fastforce
  define st1 where "st1 = st\<lparr>r_types := ts,
     struct_defs := (case name of Some n \<Rightarrow> (struct_defs st)(n \<mapsto> rid) | None \<Rightarrow> struct_defs st)\<rparr>"
  have k: "keeps st {rid} (st\<lparr>r_types := ts\<rparr>)"
    by (rule keeps_add_type [OF keeps_refl _ a]) (simp add: ctor)
  have k1: "keeps st {rid} st1"
    using k keeps_struct_defs [OF k, of rid] by (cases name) (simp_all add: st1_def)
  from e a obtain ms st2 ts' where 2: "members_loop rec A n (first_child node) [] st1 = Done (ms, st2)"
    and 3: "compute_struct_layout (set_members (r_types st2) rid ms) rid = Some ts'"
    and res: "r = Some rid" "st' = st2\<lparr>r_types := ts'\<rparr>"
    by (auto simp: resolve_record_decl_def Let_def name_def st1_def split: prod.splits)
  have k2: "keeps st ({rid} \<union> m_type ` set ms) st2"
    by (rule members_loop_keeps [OF rec k1 _ 2]) simp
  have len: "length (types ts') = n_types st2"
    using 3 by (cases rule: compute_struct_layout_cases) auto
  have "keeps st ({rid} \<union> m_type ` set ms \<union> {}) (st2\<lparr>r_types := ts'\<rparr>)"
  proof (rule keeps_types [OF k2])
    assume i: "resolver_inv st2" "\<forall>t \<in> {rid} \<union> m_type ` set ms. id_ok (r_types st2) t"
    then have r: "types_reach (r_types st2)" "refs_ok (r_types st2)" by (auto simp: resolver_inv_def)
    have "refs_ok (set_members (r_types st2) rid ms)"
      by (rule set_members_refs_ok [OF r(2)]) (use i in simp)
    with compute_struct_layout_refs_ok [OF _ 3] reach_layout [OF reach_members [OF r(1)] 3]
    show "types_reach ts' \<and> refs_ok ts' \<and> (\<forall>t \<in> {}. id_ok ts' t)" by blast
  qed (simp add: len)
  then have "keeps st ({rid} \<union> m_type ` set ms) st'" by (simp add: res)
  then show ?thesis by (rule keeps_sub) (simp add: res)
qed

lemma resolve_function_decl_keeps:
  assumes rec: "rec_ok rec" and e: "resolve_function_decl rec A n node st = Done (r, st')"
  shows "keeps st (set_option r) st'"
proof (cases "first_child node = NULL")
  case True
  with e have "r = None" "st' = st" by (auto simp: resolve_function_decl_def Let_def)
  with keeps_refl show ?thesis by simp
next
  case False
  with e obtain rt st1 where 1: "rec (first_child node) st = Done (rt, st1)"
    by (auto simp: resolve_function_decl_def Let_def)
  have k1: "keeps st (set_option rt) st1" using rec 1 by (auto simp: rec_ok_def)
  show ?thesis
  proof (cases "arena_get A (first_child node)")
    case None
    with e False 1 k1 show ?thesis by (auto simp: resolve_function_decl_def Let_def elim: keeps_sub)
  next
    case (Some cn)
    with e False 1 obtain ps st2 where 2: "params_loop rec A n (next_sibling cn) [] st1 = Done (ps, st2)"
      by (auto simp: resolve_function_decl_def Let_def)
    have k2: "keeps st (set_option rt \<union> p_type ` set ps) st2"
      by (rule params_loop_keeps [OF rec k1 _ 2]) simp
    obtain fid ts where a: "add_type (r_types st2)
        (TFunction (case rt of Some t \<Rightarrow> t | None \<Rightarrow> VOID_T) ps False) = (fid, ts)" by fastforce
    have "keeps st (insert fid (set_option rt \<union> p_type ` set ps)) (st2\<lparr>r_types := ts\<rparr>)"
      by (rule keeps_add_type [OF k2 _ a]) (auto split: option.split)
    moreover from e False Some 1 2 a have "r = Some fid" "st' = st2\<lparr>r_types := ts\<rparr>"
      by (auto simp: resolve_function_decl_def Let_def)
    ultimately show ?thesis by (auto elim: keeps_sub)
  qed
qed

lemma resolve_node_rec_ok: "rec_ok (resolve_node n A)"
proof (induction n)
  case 0
  then show ?case by (simp add: rec_ok_def)
next
  case (Suc n)
  have "keeps st (set_option r) st'" if e: "resolve_node (Suc n) A off st = Done (r, st')" for off st r st'
  proof (cases "arena_get A off")
    case None
    with e keeps_refl show ?thesis by auto
  next
    case (Some node)
    with e obtain st1 where
      1: "(if 1 \<le> kind node \<and> kind node \<le> 15 then resolve_expression (resolve_node n A) A n node st
             else if kind node = 83 \<or> kind node = 84 then Done (resolve_type_specifier node st)
             else if kind node = 85 then resolve_typedef_decl (resolve_node n A) A node st
             else if kind node = 86 then resolve_struct_decl (resolve_node n A) A n node st
             else if kind node = 87 then resolve_union_decl (resolve_node n A) A n node st
             else if kind node = 88 then Done (resolve_enum_decl node st)
             else if kind node = 89 then resolve_function_decl (resolve_node n A) A n node st
             else resolve_children (resolve_node n A) A n node st) = Done (r, st1)"
      and res: "st' = (case r of Some ty \<Rightarrow> st1\<lparr>node_types := (node_types st1)(off \<mapsto> ty)\<rparr> | None \<Rightarrow> st1)"
      by auto
    have ch: "children_loop (resolve_node n A) A n (first_child node) None st = Done (r, st1) \<Longrightarrow>
        keeps st (set_option r) st1"
      by (rule children_loop_keeps [OF Suc]) (simp_all add: keeps_refl)
    have "keeps st (set_option r) st1"
      using 1 resolve_expression_keeps [OF Suc, of node A n st r st1]
        resolve_type_specifier_keeps [of node st r st1] resolve_typedef_decl_keeps [OF Suc, of A node st r st1]
        resolve_record_decl_keeps [OF Suc, of "\<lambda>name. TStruct name [] 0 0" "''struct_''" A n node st r st1]
        resolve_record_decl_keeps [OF Suc, of "\<lambda>name. TUnion name [] 0 0" "''union_''" A n node st r st1]
        resolve_enum_decl_keeps [of node st r st1]
        resolve_function_decl_keeps [OF Suc, of A n node st r st1] ch
      by (auto simp: resolve_struct_decl_def resolve_union_decl_def resolve_children_def
          split: if_splits)
    then show ?thesis by (cases r) (auto simp: res intro: keeps_node_types)
  qed
  then show ?case by (auto simp: rec_ok_def)
qed

text \<open>
  C12: A walk keeps the resolver well formed. Whatever the tree, when \<open>resolve\<close> returns, no type
  has left the table and no error has been lost; and if the resolver was well formed (a
  reachable table, every id that a type, a node, a typedef or a struct name refers to denotes a
  type of the table) and the table has not outgrown the 32-bit ids, then it still is.
\<close>

theorem resolve_keeps_invariant:
  assumes "resolve fuel A root st = Done (v, st')"
  shows "length (types (r_types st)) \<le> length (types (r_types st')) \<and>
    prefix (r_errors st) (r_errors st') \<and>
    (resolver_inv st \<and> length (types (r_types st')) < 2 ^ 32 \<longrightarrow> resolver_inv st')"
proof -
  from assms obtain r where "resolve_node fuel A root st = Done (r, st')"
    by (auto simp: resolve_def)
  with resolve_node_rec_ok show ?thesis unfolding rec_ok_def keeps_def by blast
qed

lemma resolver_inv_new: "resolver_inv (resolver_new type_system_new)"
  by (simp add: resolver_inv_def resolver_new_def reach_types_new refs_ok_new)

theorem resolve_keeps_invariant_witness:
  "\<exists>A st'. arena_reach A \<and> resolve 1 A 2 (resolver_new type_system_new) = Done (Inr (), st') \<and>
     resolver_inv st'"
proof -
  obtain A where A: "arena_reach A" "holds_nodes A sum_nodes" using sum_arena by blast
  define st' where "st' = (resolver_new type_system_new)\<lparr>node_types := [2 \<mapsto> DOUBLE_T]\<rparr>"
  have r: "resolve 1 A 2 (resolver_new type_system_new) = Done (Inr (), st')"
    using sum_arena_get [OF A(2)]
    by (simp add: resolve_def st'_def sum_nodes_def cast_node_new_def resolve_expression_def
        infer_literal_type_def resolver_new_def)
  have "n_types st' < 2 ^ 32" by (simp add: st'_def resolver_new_def)
  with resolve_keeps_invariant [OF r] resolver_inv_new r A show ?thesis by blast
qed

end
