(* ===== verification/Lexer.thy ===== *)
theory Lexer
  imports Prelude "HOL-Library.Sublist"
begin

text \<open>
  The hand-written lexer of \<open>src/src/frontend/lexer.rs\<close>: tokens as ranges of the source bytes.

  Positions are \<open>u32\<close> in the code. The model leaves them unbounded: \<open>next_token_sound\<close> shows that
  a position never passes the end of the source, and the code looks at most three bytes beyond
  the position, so on a source shorter than 4 GiB minus three bytes no addition overflows.
\<close>

section \<open>Tokens\<close>

datatype token_kind =
    EndOfFile
  | Keyword
  | Identifier
  | NumericConstant
  | StringLiteral
  | Punctuator
  | Preprocessor
  | Comment
  | WhiteSpace

record token =
  tok_kind :: token_kind
  tok_start :: u32
  tok_end :: u32
  tok_data :: u32

definition token_new :: "token_kind \<Rightarrow> u32 \<Rightarrow> u32 \<Rightarrow> u32 \<Rightarrow> token" where
  "token_new k s e d = \<lparr>tok_kind = k, tok_start = s, tok_end = e, tok_data = d\<rparr>"

record lexer =
  source :: string
  position :: u32

definition lexer_new :: "string \<Rightarrow> lexer" where
  "lexer_new src = \<lparr>source = src, position = 0\<rparr>"

definition current_byte :: "lexer \<Rightarrow> char option" where
  "current_byte lx = byte_at (source lx) (position lx)"

definition peek_byte :: "lexer \<Rightarrow> u32 \<Rightarrow> char option" where
  "peek_byte lx offset = byte_at (source lx) (position lx + offset)"

definition advance :: "lexer \<Rightarrow> lexer" where
  "advance lx = lx\<lparr>position := position lx + 1\<rparr>"

text \<open>The loops that advance while the current byte satisfies a test.\<close>

definition skip_while :: "(char \<Rightarrow> bool) \<Rightarrow> lexer \<Rightarrow> lexer" where
  "skip_while p lx = lx\<lparr>position := advance_while p (source lx) (position lx)\<rparr>"

definition is_alnum :: "char \<Rightarrow> bool" where
  "is_alnum c \<longleftrightarrow> is_alpha c \<or> is_digit c \<or> c = CHR ''_''"

definition is_space :: "char \<Rightarrow> bool" where
  "is_space c \<longleftrightarrow> ord c \<in> {32, 9, 13, 10, 11, 12}"

definition is_hex :: "char \<Rightarrow> bool" where
  "is_hex c \<longleftrightarrow> is_digit c \<or> 97 \<le> ord c \<and> ord c \<le> 102 \<or> 65 \<le> ord c \<and> ord c \<le> 70"

definition is_octal :: "char \<Rightarrow> bool" where
  "is_octal c \<longleftrightarrow> 48 \<le> ord c \<and> ord c \<le> 55"

section \<open>The readers\<close>

text \<open>The token from \<open>start\<close> to the position reached.\<close>

definition finish :: "token_kind \<Rightarrow> u32 \<Rightarrow> lexer \<Rightarrow> token \<times> lexer" where
  "finish k start lx = (token_new k start (position lx) 0, lx)"

definition skip_whitespace :: "lexer \<Rightarrow> token \<times> lexer" where
  "skip_whitespace lx = finish WhiteSpace (position lx) (skip_while is_space lx)"

definition read_identifier :: "lexer \<Rightarrow> token \<times> lexer" where
  "read_identifier lx = finish Identifier (position lx) (skip_while is_alnum lx)"

text \<open>
  The main loop of \<open>read_numeric\<close>. An exponent ends the loop, so \<open>has_exponent\<close> is false whenever
  it is tested.
\<close>

function numeric_loop :: "lexer \<Rightarrow> bool \<Rightarrow> lexer" where
  "numeric_loop lx has_decimal =
     (case current_byte lx of
        None \<Rightarrow> lx
      | Some c \<Rightarrow>
          if is_digit c then numeric_loop (advance lx) has_decimal
          else if c = CHR ''.'' \<and> \<not> has_decimal then numeric_loop (advance lx) True
          else if c = CHR ''e'' \<or> c = CHR ''E'' then
            let lx1 = advance lx;
                lx2 = (if current_byte lx1 = Some (CHR ''+'') \<or> current_byte lx1 = Some (CHR ''-'')
                       then advance lx1 else lx1)
            in skip_while is_digit lx2
          else if c \<in> set ''uUlLfF'' then advance lx
          else lx)"
  by pat_completeness auto
termination
  by (relation "measure (\<lambda>(lx, d). length (source lx) - position lx)")
     (auto simp: current_byte_def byte_at_def advance_def split: if_splits)

declare numeric_loop.simps [simp del]

definition read_numeric :: "lexer \<Rightarrow> token \<times> lexer" where
  "read_numeric lx =
     finish NumericConstant (position lx)
       (if current_byte lx = Some (CHR ''0'') then
          let lx1 = advance lx in
          case current_byte lx1 of
            Some c \<Rightarrow>
              if c = CHR ''x'' \<or> c = CHR ''X'' then skip_while is_hex (advance lx1)
              else if c = CHR ''.'' then numeric_loop (advance lx1) True
              else if is_octal c then
                let lx2 = skip_while is_octal lx1 in
                if current_byte lx2 = Some (CHR ''8'') \<or> current_byte lx2 = Some (CHR ''9'')
                then skip_while is_digit lx2 else lx2
              else numeric_loop lx1 False
          | None \<Rightarrow> numeric_loop lx1 False
        else numeric_loop lx False)"

function string_loop :: "char \<Rightarrow> lexer \<Rightarrow> lexer" where
  "string_loop quote lx =
     (case current_byte lx of
        None \<Rightarrow> lx
      | Some c \<Rightarrow>
          if c = CHR 0x5C then
            let lx1 = advance lx in
            string_loop quote (if current_byte lx1 \<noteq> None then advance lx1 else lx1)
          else if c = quote then advance lx
          else string_loop quote (advance lx))"
  by pat_completeness auto
termination
  by (relation "measure (\<lambda>(q, lx). length (source lx) - position lx)")
     (auto simp: current_byte_def byte_at_def advance_def split: if_splits)

declare string_loop.simps [simp del]

definition read_string_literal :: "lexer \<Rightarrow> token \<times> lexer" where
  "read_string_literal lx =
     (let quote = (case current_byte lx of Some c \<Rightarrow> c | None \<Rightarrow> CHR 0x22)
      in finish StringLiteral (position lx) (string_loop quote (advance lx)))"

definition read_line_comment :: "lexer \<Rightarrow> token \<times> lexer" where
  "read_line_comment lx =
     finish Comment (position lx) (skip_while (\<lambda>c. c \<noteq> CHR 0x0A) (advance (advance lx)))"

function block_loop :: "lexer \<Rightarrow> lexer" where
  "block_loop lx =
     (case current_byte lx of
        None \<Rightarrow> lx
      | Some c \<Rightarrow>
          if c = CHR ''*'' \<and> peek_byte lx 1 = Some (CHR ''/'') then advance (advance lx)
          else block_loop (advance lx))"
  by pat_completeness auto
termination
  by (relation "measure (\<lambda>lx. length (source lx) - position lx)")
     (auto simp: current_byte_def byte_at_def advance_def split: if_splits)

declare block_loop.simps [simp del]

definition read_block_comment :: "lexer \<Rightarrow> token \<times> lexer" where
  "read_block_comment lx = finish Comment (position lx) (block_loop (advance (advance lx)))"

definition read_preprocessor :: "lexer \<Rightarrow> token \<times> lexer" where
  "read_preprocessor lx = finish Preprocessor (position lx) (skip_while (\<lambda>c. c \<noteq> CHR 0x0A) lx)"

definition punctuators :: string where
  "punctuators = ''[](){}.&*+-~!/%<>^|?:;=,#''"

text \<open>The pairs of bytes that make one token, other than \<open>..\<close>, \<open><<\<close> and \<open>>>\<close>.\<close>

definition double_punctuators :: "(char \<times> char) list" where
  "double_punctuators =
     [(CHR ''+'', CHR ''+''), (CHR ''-'', CHR ''-''), (CHR ''&'', CHR ''&''), (CHR ''|'', CHR ''|''),
      (CHR ''<'', CHR ''=''), (CHR ''>'', CHR ''=''), (CHR ''='', CHR ''=''), (CHR ''!'', CHR ''=''),
      (CHR ''*'', CHR ''=''), (CHR ''/'', CHR ''=''), (CHR ''%'', CHR ''=''), (CHR ''+'', CHR ''=''),
      (CHR ''-'', CHR ''=''), (CHR ''&'', CHR ''=''), (CHR ''^'', CHR ''=''), (CHR ''|'', CHR ''=''),
      (CHR ''#'', CHR ''#'')]"

definition read_punctuator :: "lexer \<Rightarrow> token \<times> lexer" where
  "read_punctuator lx =
     (let c = (case current_byte lx of Some c \<Rightarrow> c | None \<Rightarrow> CHR '' '');
          lx1 = advance lx;
          nxt = (case current_byte lx1 of Some d \<Rightarrow> d | None \<Rightarrow> CHR '' '')
      in finish Punctuator (position lx)
        (if c \<notin> set punctuators then lx1
         else if c = CHR ''.'' \<and> nxt = CHR ''.'' then
           (if peek_byte lx1 2 = Some (CHR ''.'') then advance (advance lx1) else lx1)
         else if c = CHR ''<'' \<and> nxt = CHR ''<'' then
           (if peek_byte lx1 2 = Some (CHR ''='') then advance (advance lx1) else lx1)
         else if c = CHR ''>'' \<and> nxt = CHR ''>'' then
           (if peek_byte lx1 2 = Some (CHR ''='') then advance (advance lx1) else lx1)
         else if (c, nxt) \<in> set double_punctuators then advance lx1
         else lx1))"

definition scan_token :: "lexer \<Rightarrow> token \<times> lexer" where
  "scan_token lx =
     (case current_byte lx of
        None \<Rightarrow> (token_new EndOfFile (position lx) (position lx) 0, lx)
      | Some c \<Rightarrow>
          if is_space c then skip_whitespace lx
          else if c = CHR ''/'' then
            (if peek_byte lx 1 = Some (CHR ''/'') then read_line_comment lx
             else if peek_byte lx 1 = Some (CHR ''*'') then read_block_comment lx
             else read_punctuator lx)
          else if c = CHR ''#'' then read_preprocessor lx
          else if c = CHR 0x22 \<or> c = CHR 0x27 then read_string_literal lx
          else if is_alpha c \<or> c = CHR ''_'' then read_identifier lx
          else if is_digit c then read_numeric lx
          else read_punctuator lx)"

section \<open>Progress\<close>

definition moves :: "lexer \<Rightarrow> lexer \<Rightarrow> bool" where
  "moves lx lx' \<longleftrightarrow> source lx' = source lx \<and> position lx \<le> position lx' \<and>
     position lx' \<le> length (source lx)"

lemma moves_trans: "moves a b \<Longrightarrow> moves b c \<Longrightarrow> moves a c"
  by (simp add: moves_def)

lemma moves_refl: "position lx \<le> length (source lx) \<Longrightarrow> moves lx lx"
  by (simp add: moves_def)

lemma current_byte_Some: "current_byte lx = Some c \<longleftrightarrow> position lx < length (source lx) \<and> c = source lx ! position lx"
  by (simp add: current_byte_def byte_at_Some)

lemma current_byte_None: "current_byte lx = None \<longleftrightarrow> length (source lx) \<le> position lx"
  by (simp add: current_byte_def byte_at_None)

lemma advance_fields [simp]: "source (advance lx) = source lx" "position (advance lx) = position lx + 1"
  by (simp_all add: advance_def)

lemma skip_while_fields [simp]: "source (skip_while p lx) = source lx"
    "position (skip_while p lx) = advance_while p (source lx) (position lx)"
  by (simp_all add: skip_while_def)

lemma moves_advance: "current_byte lx = Some c \<Longrightarrow> moves lx (advance lx)"
  by (simp add: moves_def current_byte_Some)

lemma moves_skip_while: "position lx \<le> length (source lx) \<Longrightarrow> moves lx (skip_while p lx)"
  by (simp add: moves_def advance_while_ge advance_while_le)

lemma moves_end: "moves a b \<Longrightarrow> position b \<le> length (source b)"
  by (simp add: moves_def)

lemma numeric_loop_moves: "position lx \<le> length (source lx) \<Longrightarrow> moves lx (numeric_loop lx d)"
proof (induction lx d rule: numeric_loop.induct)
  case (1 lx d)
  show ?case
  proof (cases "current_byte lx")
    case None
    with 1 show ?thesis by (simp add: numeric_loop.simps [of lx d] moves_refl)
  next
    case (Some c)
    note a = moves_advance [OF Some]
    define lx2 where "lx2 = (if current_byte (advance lx) = Some (CHR ''+'') \<or>
        current_byte (advance lx) = Some (CHR ''-'') then advance (advance lx) else advance lx)"
    have "moves lx lx2"
      using a moves_trans [OF a moves_advance, of "CHR ''+''"] moves_trans [OF a moves_advance, of "CHR ''-''"]
      by (auto simp: lx2_def)
    then have e: "moves lx (skip_while is_digit lx2)"
      using moves_trans moves_skip_while moves_end by blast
    have r: "is_digit c \<Longrightarrow> moves lx (numeric_loop (advance lx) d)"
      "\<not> is_digit c \<Longrightarrow> c = CHR ''.'' \<and> \<not> d \<Longrightarrow> moves lx (numeric_loop (advance lx) True)"
      using "1.IH" [OF Some] moves_trans [OF a] moves_end [OF a] by blast+
    with Some a e "1.prems" show ?thesis
      by (simp add: numeric_loop.simps [of lx d] Let_def lx2_def moves_refl)
  qed
qed

lemma string_loop_moves: "position lx \<le> length (source lx) \<Longrightarrow> moves lx (string_loop q lx)"
proof (induction q lx rule: string_loop.induct)
  case (1 q lx)
  show ?case
  proof (cases "current_byte lx")
    case None
    with 1 show ?thesis by (simp add: string_loop.simps [of q lx] moves_refl)
  next
    case (Some c)
    note a = moves_advance [OF Some]
    define lx2 where "lx2 = (if current_byte (advance lx) \<noteq> None then advance (advance lx) else advance lx)"
    have m2: "moves lx lx2"
      using a moves_trans [OF a moves_advance] by (auto simp: lx2_def)
    have "c = CHR 0x5C \<Longrightarrow> moves lx (string_loop q lx2)"
      using "1.IH"(1) [OF Some _ refl] moves_trans [OF m2] moves_end [OF m2] by (simp add: lx2_def)
    moreover have "c \<noteq> CHR 0x5C \<Longrightarrow> c \<noteq> q \<Longrightarrow> moves lx (string_loop q (advance lx))"
      using "1.IH"(2) [OF Some] moves_trans [OF a] moves_end [OF a] by simp
    ultimately show ?thesis using Some a
      by (simp add: string_loop.simps [of q lx] Let_def lx2_def)
  qed
qed

lemma block_loop_moves: "position lx \<le> length (source lx) \<Longrightarrow> moves lx (block_loop lx)"
proof (induction lx rule: block_loop.induct)
  case (1 lx)
  show ?case
  proof (cases "current_byte lx")
    case None
    with 1 show ?thesis by (simp add: block_loop.simps [of lx] moves_refl)
  next
    case (Some c)
    note a = moves_advance [OF Some]
    have "peek_byte lx 1 = Some (CHR ''/'') \<Longrightarrow> moves lx (advance (advance lx))"
      by (auto simp: peek_byte_def byte_at_Some moves_def)
    moreover have "\<not> (c = CHR ''*'' \<and> peek_byte lx 1 = Some (CHR ''/'')) \<Longrightarrow> moves lx (block_loop (advance lx))"
      using "1.IH" [OF Some] moves_trans [OF a] moves_end [OF a] by blast
    ultimately show ?thesis using Some by (simp add: block_loop.simps [of lx])
  qed
qed

text \<open>A reader that makes a token of kind \<open>k\<close>: the token is the range it moved over, not empty.\<close>

definition reads :: "token_kind \<Rightarrow> lexer \<Rightarrow> token \<times> lexer \<Rightarrow> bool" where
  "reads k lx r \<longleftrightarrow> fst r = token_new k (position lx) (position (snd r)) 0 \<and>
     moves lx (snd r) \<and> position lx < position (snd r)"

lemma reads_finish: "current_byte lx = Some c \<Longrightarrow> moves (advance lx) lx' \<Longrightarrow> reads k lx (finish k (position lx) lx')"
  by (auto simp: reads_def finish_def moves_def)

lemma moves_skip_current:
  assumes "current_byte lx = Some c" and "p c"
  shows "moves (advance lx) (skip_while p lx)"
  using assms advance_while_step [of "position lx" "source lx" p]
  by (auto simp: moves_def current_byte_Some advance_while_le)

lemma skip_while_reads:
  "current_byte lx = Some c \<Longrightarrow> p c \<Longrightarrow> reads k lx (finish k (position lx) (skip_while p lx))"
  by (rule reads_finish [OF _ moves_skip_current])

lemma read_numeric_reads:
  assumes "current_byte lx = Some c" and "is_digit c"
  shows "reads NumericConstant lx (read_numeric lx)"
proof -
  have a: "position (advance lx) \<le> length (source (advance lx))"
    using assms(1) by (simp add: current_byte_Some)
  have d: "d \<noteq> CHR ''.'' \<or> True" for d :: char by simp
  show ?thesis
  proof (cases "c = CHR ''0''")
    case False
    have "numeric_loop lx False = numeric_loop (advance lx) False"
      using assms by (simp add: numeric_loop.simps [of lx])
    then show ?thesis
      using False assms numeric_loop_moves [OF a]
      by (simp add: read_numeric_def reads_finish)
  next
    case True
    let ?l = "advance lx"
    have hex: "current_byte ?l = Some x \<Longrightarrow> moves ?l (skip_while is_hex (advance ?l))" for x
      using moves_trans [OF moves_advance moves_skip_while] moves_end [OF moves_advance] by blast
    have dec: "current_byte ?l = Some x \<Longrightarrow> moves ?l (numeric_loop (advance ?l) True)" for x
      using moves_trans [OF moves_advance numeric_loop_moves] moves_end [OF moves_advance] by blast
    have oct: "moves ?l (skip_while is_octal ?l)" by (rule moves_skip_while [OF a])
    have oct2: "moves ?l (skip_while is_digit (skip_while is_octal ?l))"
      using moves_trans [OF oct moves_skip_while] moves_end [OF oct] by blast
    show ?thesis
      unfolding read_numeric_def Let_def
      by (rule reads_finish [OF assms(1)])
        (use True assms(1) hex dec oct oct2 numeric_loop_moves [OF a] in \<open>auto split: option.split\<close>)
  qed
qed

lemma read_string_literal_reads:
  assumes "current_byte lx = Some c"
  shows "reads StringLiteral lx (read_string_literal lx)"
  using assms reads_finish [OF assms string_loop_moves]
  by (simp add: read_string_literal_def current_byte_Some)

lemma read_line_comment_reads:
  assumes "current_byte lx = Some c" and "peek_byte lx 1 = Some d"
  shows "reads Comment lx (read_line_comment lx)"
proof -
  have "moves (advance lx) (advance (advance lx))"
    using assms(2) by (simp add: moves_def peek_byte_def byte_at_Some)
  then show ?thesis
    unfolding read_line_comment_def
    using reads_finish [OF assms(1)] moves_trans moves_skip_while moves_end by blast
qed

lemma read_block_comment_reads:
  assumes "current_byte lx = Some c" and "peek_byte lx 1 = Some d"
  shows "reads Comment lx (read_block_comment lx)"
proof -
  have "moves (advance lx) (advance (advance lx))"
    using assms(2) by (simp add: moves_def peek_byte_def byte_at_Some)
  then show ?thesis
    unfolding read_block_comment_def
    using reads_finish [OF assms(1)] moves_trans block_loop_moves moves_end by blast
qed

lemma read_punctuator_reads:
  assumes "current_byte lx = Some c"
  shows "reads Punctuator lx (read_punctuator lx)"
proof -
  let ?l = "advance lx"
  have a: "position ?l \<le> length (source ?l)" using assms by (simp add: current_byte_Some)
  have three: "peek_byte ?l 2 = Some x \<Longrightarrow> moves ?l (advance (advance ?l))" for x
    by (simp add: moves_def peek_byte_def byte_at_Some)
  have two: "(c, case current_byte ?l of Some d \<Rightarrow> d | None \<Rightarrow> CHR '' '') \<in> set double_punctuators \<Longrightarrow>
      moves ?l (advance ?l)"
    using moves_advance [of ?l] by (cases "current_byte ?l") (auto simp: double_punctuators_def)
  show ?thesis
    unfolding read_punctuator_def Let_def
    by (rule reads_finish [OF assms]) (use assms three two moves_refl [OF a] in auto)
qed

lemma reads_if: "(b \<Longrightarrow> reads k lx r) \<Longrightarrow> (\<not> b \<Longrightarrow> reads k' lx r') \<Longrightarrow>
    reads (if b then k else k') lx (if b then r else r')"
  by simp

text \<open>What one scan does, for every source and position.\<close>

lemma scan_token_reads:
  assumes "current_byte lx = Some c"
  shows "\<exists>k. k \<noteq> EndOfFile \<and> reads k lx (scan_token lx) \<and> (k = WhiteSpace \<longleftrightarrow> is_space c)"
proof -
  have sp: "is_space c \<Longrightarrow> reads WhiteSpace lx (skip_whitespace lx)"
    unfolding skip_whitespace_def by (rule skip_while_reads [OF assms])
  have id: "is_alpha c \<or> c = CHR ''_'' \<Longrightarrow> reads Identifier lx (read_identifier lx)"
    unfolding read_identifier_def by (rule skip_while_reads [OF assms]) (auto simp: is_alnum_def)
  have pp: "c = CHR ''#'' \<Longrightarrow> reads Preprocessor lx (read_preprocessor lx)"
    unfolding read_preprocessor_def by (rule skip_while_reads [OF assms]) auto
  have sl: "reads (if peek_byte lx 1 = Some (CHR ''/'') \<or> peek_byte lx 1 = Some (CHR ''*'') then Comment
      else Punctuator) lx
      (if peek_byte lx 1 = Some (CHR ''/'') then read_line_comment lx
       else if peek_byte lx 1 = Some (CHR ''*'') then read_block_comment lx else read_punctuator lx)"
    using read_line_comment_reads [OF assms] read_block_comment_reads [OF assms]
      read_punctuator_reads [OF assms] by simp
  define k where "k = (if is_space c then WhiteSpace else if c = CHR ''/'' then
      (if peek_byte lx 1 = Some (CHR ''/'') \<or> peek_byte lx 1 = Some (CHR ''*'') then Comment else Punctuator)
    else if c = CHR ''#'' then Preprocessor else if c = CHR 0x22 \<or> c = CHR 0x27 then StringLiteral
    else if is_alpha c \<or> c = CHR ''_'' then Identifier else if is_digit c then NumericConstant else Punctuator)"
  have "reads k lx (scan_token lx)"
    unfolding scan_token_def assms option.case k_def
    by (intro reads_if sp sl pp id read_numeric_reads [OF assms] read_string_literal_reads [OF assms]
        read_punctuator_reads [OF assms])
  moreover have "k \<noteq> EndOfFile" "k = WhiteSpace \<longleftrightarrow> is_space c" by (simp_all add: k_def)
  ultimately show ?thesis by blast
qed

lemma scan_token_progress:
  assumes "scan_token lx = (t, lx')" and "tok_kind t = WhiteSpace"
  shows "source lx' = source lx \<and> position lx < position lx' \<and> position lx' \<le> length (source lx)"
proof (cases "current_byte lx")
  case None
  with assms show ?thesis by (auto simp: scan_token_def token_new_def)
next
  case (Some c)
  from scan_token_reads [OF this] assms show ?thesis
    by (auto simp: reads_def moves_def)
qed

function next_token :: "lexer \<Rightarrow> token \<times> lexer" where
  "next_token lx =
     (case scan_token lx of (token, lx') \<Rightarrow>
        if tok_kind token = WhiteSpace then next_token lx' else (token, lx'))"
  by pat_completeness auto
termination
  by (relation "measure (\<lambda>lx. length (source lx) - position lx)")
     (auto dest!: sym [of _ "scan_token _"] scan_token_progress)

declare next_token.simps [simp del]

definition token_text :: "lexer \<Rightarrow> token \<Rightarrow> string" where
  "token_text lx t = piece (source lx) (tok_start t) (tok_end t)"

section \<open>Nothing is lost\<close>

definition all_space :: "string \<Rightarrow> nat \<Rightarrow> nat \<Rightarrow> bool" where
  "all_space s i j \<longleftrightarrow> (\<forall>c \<in> set (piece s i j). is_space c)"

lemma all_space_trans:
  "all_space s i j \<Longrightarrow> all_space s j k \<Longrightarrow> i \<le> j \<Longrightarrow> j \<le> k \<Longrightarrow> k \<le> length s \<Longrightarrow> all_space s i k"
  unfolding all_space_def by (subst piece_append [of i j k s, symmetric]) auto

lemma scan_whitespace:
  assumes "scan_token lx = (t, lx')" and "tok_kind t = WhiteSpace"
  shows "all_space (source lx) (position lx) (position lx')"
proof (cases "current_byte lx")
  case None
  with assms show ?thesis by (auto simp: scan_token_def token_new_def)
next
  case (Some c)
  from scan_token_reads [OF this] assms have c: "is_space c" and le: "position lx' \<le> length (source lx)"
    by (auto simp: reads_def token_new_def moves_def)
  with assms(1) Some have "position lx' = advance_while is_space (source lx) (position lx)"
    by (auto simp: scan_token_def skip_whitespace_def finish_def)
  with le show ?thesis
    by (auto simp: all_space_def set_piece dest: advance_while_all)
qed

lemma next_token_spec:
  "position lx \<le> length (source lx) \<Longrightarrow> next_token lx = (t, lx') \<Longrightarrow>
   source lx' = source lx \<and> tok_end t = position lx' \<and> position lx \<le> tok_start t \<and>
   tok_start t \<le> tok_end t \<and> tok_end t \<le> length (source lx) \<and>
   all_space (source lx) (position lx) (tok_start t) \<and> tok_kind t \<noteq> WhiteSpace \<and>
   (tok_kind t = EndOfFile \<longleftrightarrow> tok_start t = length (source lx)) \<and>
   (tok_kind t \<noteq> EndOfFile \<longrightarrow> tok_start t < tok_end t \<and> \<not> is_space (source lx ! tok_start t)) \<and>
   (\<exists>lx0. source lx0 = source lx \<and> position lx0 = tok_start t \<and> scan_token lx0 = (t, lx'))"
proof (induction lx rule: next_token.induct)
  case (1 lx)
  obtain t0 lx0 where s: "scan_token lx = (t0, lx0)" by fastforce
  show ?case
  proof (cases "tok_kind t0 = WhiteSpace")
    case True
    note p = scan_token_progress [OF s True] and w = scan_whitespace [OF s True]
    from True s "1.prems"(2) have n: "next_token lx0 = (t, lx')" by (simp add: next_token.simps [of lx])
    from p have "position lx0 \<le> length (source lx0)" by simp
    note IH = "1.IH" [OF s [symmetric] True this n]
    have "all_space (source lx) (position lx) (tok_start t)"
      by (rule all_space_trans [OF w]) (use IH p in auto)
    with IH p show ?thesis by auto
  next
    case False
    with s "1.prems"(2) have t: "t0 = t" "lx0 = lx'" by (auto simp: next_token.simps [of lx])
    have e: "all_space (source lx) (position lx) (position lx)" by (simp add: all_space_def piece_def)
    show ?thesis
    proof (cases "current_byte lx")
      case None
      then have "scan_token lx = (token_new EndOfFile (position lx) (position lx) 0, lx)"
        by (simp add: scan_token_def)
      with s t have r: "t = token_new EndOfFile (position lx) (position lx) 0" "lx' = lx" by auto
      from s t have "\<exists>lx0. source lx0 = source lx \<and> position lx0 = position lx \<and> scan_token lx0 = (t, lx')"
        by blast
      with r None "1.prems"(1) e show ?thesis
        by (simp add: token_new_def current_byte_None)
    next
      case (Some c)
      from scan_token_reads [OF this] s t False have r: "tok_start t = position lx" "tok_end t = position lx'"
        "moves lx lx'" "position lx < position lx'" "tok_kind t \<noteq> EndOfFile" "\<not> is_space c"
        by (auto simp: reads_def token_new_def)
      with s t e Some False show ?thesis
        by (auto simp: moves_def current_byte_Some intro!: exI [of _ lx])
    qed
  qed
qed

text \<open>The stream of tokens a client reads, up to the end-of-file token.\<close>

function lex_all :: "lexer \<Rightarrow> token list" where
  "lex_all lx =
     (if position lx \<le> length (source lx) then
        case next_token lx of (t, lx') \<Rightarrow> if tok_kind t = EndOfFile then [t] else t # lex_all lx'
      else [])"
  by pat_completeness auto
termination
proof (relation "measure (\<lambda>lx. length (source lx) - position lx)")
  fix lx t lx'
  assume a: "position lx \<le> length (source lx)" "(t, lx') = next_token lx" "tok_kind t \<noteq> EndOfFile"
  then have n: "next_token lx = (t, lx')" by simp
  from next_token_spec [OF a(1) n] a(3) show "(lx', lx) \<in> measure (\<lambda>lx. length (source lx) - position lx)"
    by auto
qed simp

declare lex_all.simps [simp del]

text \<open>
  \<open>covers s i ts\<close>: from position \<open>i\<close> on, \<open>s\<close> is made of the texts of the tokens, in order, with
  only white space before each of them, up to an end-of-file token at the end of \<open>s\<close>.
\<close>

fun covers :: "string \<Rightarrow> nat \<Rightarrow> token list \<Rightarrow> bool" where
  "covers s i [] = False"
| "covers s i (t # ts) =
     (i \<le> tok_start t \<and> tok_start t \<le> tok_end t \<and> tok_end t \<le> length s \<and> all_space s i (tok_start t) \<and>
      (if tok_kind t = EndOfFile then ts = [] \<and> tok_start t = length s
       else tok_start t < tok_end t \<and> covers s (tok_end t) ts))"

lemma lex_all_covers:
  "position lx \<le> length (source lx) \<Longrightarrow> covers (source lx) (position lx) (lex_all lx)"
proof (induction lx rule: lex_all.induct)
  case (1 lx)
  obtain t lx' where n: "next_token lx = (t, lx')" by fastforce
  note s = next_token_spec [OF "1.prems" n]
  have IH: "tok_kind t \<noteq> EndOfFile \<Longrightarrow> covers (source lx) (position lx') (lex_all lx')"
    using "1.IH" [OF "1.prems" n [symmetric]] s by simp
  show ?case
    using s n "1.prems" IH by (subst lex_all.simps) auto
qed

lemma covers_text:
  "covers s i ts \<Longrightarrow> i \<le> length s \<Longrightarrow>
   filter (\<lambda>c. \<not> is_space c) (concat (map (\<lambda>t. piece s (tok_start t) (tok_end t)) ts)) =
   filter (\<lambda>c. \<not> is_space c) (drop i s)"
proof (induction s i ts rule: covers.induct)
  case (2 s i t ts)
  let ?f = "filter (\<lambda>c. \<not> is_space c)"
  have split: "drop i s = piece s i (tok_start t) @ piece s (tok_start t) (tok_end t) @ drop (tok_end t) s"
  proof -
    have "piece s i (tok_start t) @ piece s (tok_start t) (tok_end t) = piece s i (tok_end t)"
      using 2 by (intro piece_append) auto
    moreover have "piece s i (tok_end t) @ drop (tok_end t) s = drop i s"
      using 2 append_take_drop_id [of "tok_end t - i" "drop i s"] by (simp add: piece_def)
    ultimately show ?thesis by (metis append.assoc)
  qed
  have sp: "?f (piece s i (tok_start t)) = []"
    using 2 by (simp add: all_space_def filter_empty_conv)
  show ?case
  proof (cases "tok_kind t = EndOfFile")
    case True
    with 2 sp show ?thesis by (subst split) (auto simp: piece_def)
  next
    case False
    with 2 sp show ?thesis by (subst split) auto
  qed
qed simp

section \<open>Properties\<close>

text \<open>
  C17: Lexing is lossless. Reading tokens from any source ends with exactly one end-of-file token;
  the texts of the tokens are consecutive pieces of the source, none of them empty, with only
  white space between them; so the source without its white space is the concatenation of the
  token texts without theirs.
\<close>

theorem lexing_lossless:
  "covers s 0 (lex_all (lexer_new s)) \<and>
   filter (\<lambda>c. \<not> is_space c) (concat (map (token_text (lexer_new s)) (lex_all (lexer_new s)))) =
   filter (\<lambda>c. \<not> is_space c) s"
proof -
  have c: "covers s 0 (lex_all (lexer_new s))"
    using lex_all_covers [of "lexer_new s"] by (simp add: lexer_new_def)
  from covers_text [OF this] c show ?thesis
    by (simp add: token_text_def [abs_def] lexer_new_def)
qed

text \<open>
  Every call of \<open>next_token\<close> makes progress. From any position inside the source it returns a
  token that is not white space, ends where the lexer now stands, and has only white space before
  it; the token is the end of file exactly when nothing but white space is left, and otherwise it
  is not empty and starts with a byte that is not white space. No position passes the end of the
  source.
\<close>

theorem next_token_sound:
  assumes "position lx \<le> length (source lx)" and "next_token lx = (t, lx')"
  shows "source lx' = source lx \<and> tok_end t = position lx' \<and> position lx' \<le> length (source lx) \<and>
    position lx \<le> tok_start t \<and> all_space (source lx) (position lx) (tok_start t) \<and>
    tok_kind t \<noteq> WhiteSpace \<and>
    (tok_kind t = EndOfFile \<longleftrightarrow> all_space (source lx) (position lx) (length (source lx))) \<and>
    (tok_kind t \<noteq> EndOfFile \<longrightarrow> tok_start t < tok_end t \<and> \<not> is_space (source lx ! tok_start t))"
proof -
  note s = next_token_spec [OF assms]
  have "tok_kind t \<noteq> EndOfFile \<Longrightarrow> \<not> all_space (source lx) (position lx) (length (source lx))"
  proof
    assume "tok_kind t \<noteq> EndOfFile" "all_space (source lx) (position lx) (length (source lx))"
    moreover from this s have "source lx ! tok_start t \<in> set (piece (source lx) (position lx) (length (source lx)))"
      by (auto simp: set_piece)
    ultimately show False using s by (auto simp: all_space_def)
  qed
  with s show ?thesis by auto
qed

theorem next_token_sound_witness:
  "\<exists>t lx'. next_token (lexer_new '' x'') = (t, lx') \<and> tok_kind t \<noteq> EndOfFile \<and> tok_start t < tok_end t"
proof -
  obtain t lx' where n: "next_token (lexer_new '' x'') = (t, lx')" by fastforce
  have p: "position (lexer_new '' x'') \<le> length (source (lexer_new '' x''))" by (simp add: lexer_new_def)
  have "\<not> all_space (source (lexer_new '' x'')) (position (lexer_new '' x'')) (length (source (lexer_new '' x'')))"
    by (simp add: all_space_def lexer_new_def is_space_def piece_def)
  with next_token_sound [OF p n] n show ?thesis by blast
qed

section \<open>Keywords\<close>

definition is_keyword_text :: "string \<Rightarrow> bool" where
  "is_keyword_text text \<longleftrightarrow> text \<in>
     {''auto'', ''break'', ''case'', ''char'', ''const'', ''continue'', ''default'', ''do'', ''double'',
      ''else'', ''enum'', ''extern'', ''float'', ''for'', ''goto'', ''if'', ''inline'', ''int'', ''long'',
      ''register'', ''restrict'', ''return'', ''short'', ''signed'', ''sizeof'', ''static'', ''struct'',
      ''switch'', ''typedef'', ''union'', ''unsigned'', ''void'', ''volatile'', ''while'',
      ''_Thread_local'', ''__thread'', ''_Bool'', ''_Complex'', ''_Imaginary''}"

definition is_keyword :: "lexer \<Rightarrow> token \<Rightarrow> bool" where
  "is_keyword lx t \<longleftrightarrow> tok_kind t = Identifier \<and> is_keyword_text (token_text lx t)"

definition keyword_table :: "string list" where
  "keyword_table =
     [''auto'', ''break'', ''case'', ''char'', ''const'', ''continue'', ''default'', ''do'', ''double'',
      ''else'', ''enum'', ''extern'', ''float'', ''for'', ''goto'', ''if'', ''inline'', ''int'', ''long'',
      ''register'', ''restrict'', ''return'', ''short'', ''signed'', ''sizeof'', ''static'', ''struct'',
      ''switch'', ''typedef'', ''union'', ''unsigned'', ''void'', ''volatile'', ''while'',
      ''_Thread_local'', ''__thread'', ''_Bool'', ''_Complex'', ''_Imaginary'']"

fun list_position :: "string \<Rightarrow> string list \<Rightarrow> nat option" where
  "list_position x [] = None"
| "list_position x (y # ys) = (if y = x then Some 0 else map_option Suc (list_position x ys))"

definition get_keyword_index :: "string \<Rightarrow> u16 option" where
  "get_keyword_index text = map_option (\<lambda>i. i mod 2 ^ 16 + 256) (list_position text keyword_table)"

lemma list_position_Some: "list_position x ys = Some i \<Longrightarrow> i < length ys \<and> ys ! i = x"
  by (induction ys arbitrary: i) (auto split: if_splits)

lemma list_position_nth: "distinct ys \<Longrightarrow> i < length ys \<Longrightarrow> list_position (ys ! i) ys = Some i"
  by (induction ys arbitrary: i) (auto simp: nth_Cons' split: if_splits)

lemma list_position_None: "list_position x ys = None \<longleftrightarrow> x \<notin> set ys"
  by (induction ys) auto

lemma distinct_keywords: "distinct keyword_table"
  by code_simp

lemma length_keywords: "length keyword_table = 39"
  by (simp add: keyword_table_def)

text \<open>
  The two keyword tables agree. A token is a keyword exactly when it is an identifier whose text
  has a keyword index; the indices are the numbers 256 to 294, each given to exactly one of the
  39 keyword_table, in table order.
\<close>

theorem keyword_tables_agree:
  "(is_keyword lx t \<longleftrightarrow> tok_kind t = Identifier \<and> get_keyword_index (token_text lx t) \<noteq> None) \<and>
   (get_keyword_index w = Some k \<longleftrightarrow> 256 \<le> k \<and> k < 295 \<and> keyword_table ! (k - 256) = w)"
proof -
  have "is_keyword_text x \<longleftrightarrow> x \<in> set keyword_table" for x
    by (simp add: is_keyword_text_def keyword_table_def)
  then have 1: "is_keyword lx t \<longleftrightarrow> tok_kind t = Identifier \<and> get_keyword_index (token_text lx t) \<noteq> None"
    by (simp add: is_keyword_def get_keyword_index_def list_position_None)
  have "get_keyword_index w = Some k \<longleftrightarrow> 256 \<le> k \<and> k < 295 \<and> keyword_table ! (k - 256) = w"
  proof
    assume "get_keyword_index w = Some k"
    then obtain i where "list_position w keyword_table = Some i" "k = i mod 2 ^ 16 + 256"
      by (auto simp: get_keyword_index_def)
    with list_position_Some [of w keyword_table i] show "256 \<le> k \<and> k < 295 \<and> keyword_table ! (k - 256) = w"
      by (auto simp: length_keywords)
  next
    assume k: "256 \<le> k \<and> k < 295 \<and> keyword_table ! (k - 256) = w"
    then have "list_position w keyword_table = Some (k - 256)"
      using list_position_nth [OF distinct_keywords, of "k - 256"] less_diff_conv2 [of 256 k 39]
      by (simp add: length_keywords)
    moreover have "(k - 256) mod 2 ^ 16 = k - 256" by (rule mod_less) (use k in auto)
    ultimately show "get_keyword_index w = Some k" using k by (simp add: get_keyword_index_def)
  qed
  with 1 show ?thesis by blast
qed

section \<open>The shapes of tokens\<close>

text \<open>
  Identifiers are read whole. When a scan yields an identifier, its text starts with a letter or
  an underscore and consists of letters, digits and underscores, and the byte after it, if there
  is one, is none of these.
\<close>

theorem identifiers_maximal:
  assumes "scan_token lx = (t, lx')" and "tok_kind t = Identifier"
  shows "\<exists>c w. token_text lx t = c # w \<and> (is_alpha c \<or> c = CHR ''_'') \<and> (\<forall>d \<in> set w. is_alnum d) \<and>
    (position lx' < length (source lx) \<longrightarrow> \<not> is_alnum (source lx ! position lx'))"
proof -
  let ?s = "source lx" and ?i = "position lx"
  obtain c where c: "current_byte lx = Some c"
    using assms by (cases "current_byte lx") (auto simp: scan_token_def token_new_def)
  from assms c have r: "(t, lx') = read_identifier lx" "is_alpha c \<or> c = CHR ''_''"
    by (auto simp: scan_token_def skip_whitespace_def read_line_comment_def read_block_comment_def
        read_punctuator_def read_preprocessor_def read_string_literal_def read_numeric_def finish_def
        token_new_def Let_def split: if_splits)
  define e where "e = advance_while is_alnum ?s ?i"
  from r(1) have t: "tok_start t = ?i" "tok_end t = e" "position lx' = e"
    by (auto simp: read_identifier_def finish_def token_new_def e_def)
  from c have i: "?i < length ?s" "c = ?s ! ?i" by (simp_all add: current_byte_Some)
  with r(2) have ie: "?i < e" "e \<le> length ?s"
    unfolding e_def using advance_while_step [of ?i ?s is_alnum] advance_while_le [of ?i ?s is_alnum]
    by (auto simp: is_alnum_def)
  have "token_text lx t = ?s ! ?i # piece ?s (?i + 1) e"
    using ie i(1) Cons_nth_drop_Suc [OF i(1), symmetric]
    by (simp add: token_text_def t piece_def take_Cons' Suc_diff_Suc)
  moreover have "\<forall>d \<in> set (piece ?s (?i + 1) e). is_alnum d"
    using ie advance_while_all [of ?i _ is_alnum ?s] by (auto simp: set_piece e_def)
  moreover have "e < length ?s \<longrightarrow> \<not> is_alnum (?s ! e)"
    using advance_while_stop [of is_alnum ?s ?i] by (simp add: e_def)
  ultimately show ?thesis using r(2) i(2) t by auto
qed

theorem identifiers_maximal_witness:
  "\<exists>c w. piece ''x1+y'' 0 2 = c # w \<and> (is_alpha c \<or> c = CHR ''_'') \<and> (\<forall>d \<in> set w. is_alnum d)"
proof -
  let ?lx = "lexer_new ''x1+y''"
  have s: "scan_token ?lx = (token_new Identifier 0 2 0, ?lx\<lparr>position := 2\<rparr>)"
    by (simp add: scan_token_def current_byte_def byte_at_def lexer_new_def is_space_def is_alpha_def
        read_identifier_def skip_while_def finish_def advance_while.simps is_alnum_def is_digit_def numeral_2_eq_2)
  have "tok_kind (token_new Identifier 0 2 0) = Identifier" by (simp add: token_new_def)
  from identifiers_maximal [OF s this] show ?thesis
    by (auto simp: token_text_def token_new_def lexer_new_def)
qed

text \<open>The body of a literal: no unescaped quote, and no backslash left without the byte it escapes.\<close>

fun literal_body :: "char \<Rightarrow> string \<Rightarrow> bool" where
  "literal_body q [] = True"
| "literal_body q (c # cs) =
     (if c = CHR 0x5C then (case cs of [] \<Rightarrow> False | d # ds \<Rightarrow> literal_body q ds)
      else c \<noteq> q \<and> literal_body q cs)"

lemma current_byte_drop:
  assumes "drop (position lx) (source lx) = c # r"
  shows "current_byte lx = Some c" "drop (position (advance lx)) (source (advance lx)) = r"
  using drop_eq_Cons [OF assms] by (simp_all add: current_byte_Some)

lemma string_loop_body:
  "drop (position lx) (source lx) = body @ q # rest \<Longrightarrow> literal_body q body \<Longrightarrow> q \<noteq> CHR 0x5C \<Longrightarrow>
   string_loop q lx = lx\<lparr>position := position lx + length body + 1\<rparr>"
proof (induction q body arbitrary: lx rule: literal_body.induct)
  case (1 q)
  then have "current_byte lx = Some q" using current_byte_drop [of lx q rest] by simp
  with 1 show ?case by (simp add: string_loop.simps [of q lx] advance_def)
next
  case (2 q c cs)
  from "2.prems"(1) have c: "current_byte lx = Some c"
    and d1: "drop (position (advance lx)) (source (advance lx)) = cs @ q # rest"
    using current_byte_drop [of lx c "cs @ q # rest"] by simp_all
  show ?case
  proof (cases "c = CHR 0x5C")
    case True
    with "2.prems"(2) obtain d ds where cs: "cs = d # ds" "literal_body q ds" by (cases cs) auto
    with d1 have n: "current_byte (advance lx) = Some d"
      and d2: "drop (position (advance (advance lx))) (source (advance (advance lx))) = ds @ q # rest"
      using current_byte_drop [of "advance lx" d "ds @ q # rest"] by simp_all
    from "2.IH"(1) [OF True cs(1) d2 cs(2) "2.prems"(3)] True c n cs(1) show ?thesis
      by (simp add: string_loop.simps [of q lx] Let_def advance_def)
  next
    case False
    with "2.prems"(2) have "c \<noteq> q" "literal_body q cs" by auto
    with "2.IH"(2) [OF False d1 _ "2.prems"(3)] False c show ?thesis
      by (simp add: string_loop.simps [of q lx] advance_def)
  qed
qed

lemma token_text_take:
  assumes "drop (position lx) (source lx) = w @ rest"
  shows "token_text lx (token_new k (position lx) (position lx + length w) d) = w"
  using assms by (simp add: token_text_def token_new_def piece_def)

text \<open>
  Character and string literals. At an opening quote followed by a body without an unescaped
  quote or a dangling backslash, and by the closing quote, the scan yields one literal token whose
  text runs from the opening to the closing quote, escaped quotes included.
\<close>

theorem string_literal_scanned:
  assumes "drop (position lx) (source lx) = q # body @ q # rest" and "q \<in> {CHR 0x22, CHR 0x27}"
    and "literal_body q body"
  shows "\<exists>t. scan_token lx = (t, lx\<lparr>position := position lx + length body + 2\<rparr>) \<and>
    tok_kind t = StringLiteral \<and> token_text lx t = q # body @ [q]"
proof -
  note c = current_byte_drop [OF assms(1)]
  have q: "\<not> is_space q" "q \<noteq> CHR ''/''" "q \<noteq> CHR ''#''" "q \<noteq> CHR 0x5C"
    using assms(2) by (auto simp: is_space_def)
  have l: "string_loop q (advance lx) = lx\<lparr>position := position lx + length body + 2\<rparr>"
    using string_loop_body [OF c(2) assms(3) q(4)] by (simp add: advance_def)
  have "scan_token lx = read_string_literal lx"
    using assms(2) q c(1) by (auto simp: scan_token_def)
  then have s: "scan_token lx = (token_new StringLiteral (position lx) (position lx + length (q # body @ [q])) 0,
      lx\<lparr>position := position lx + length body + 2\<rparr>)"
    by (simp add: read_string_literal_def c(1) l finish_def)
  have "token_text lx (token_new StringLiteral (position lx) (position lx + length (q # body @ [q])) 0) = q # body @ [q]"
    by (rule token_text_take [of _ _ rest]) (simp add: assms(1))
  with s show ?thesis by (simp add: token_new_def)
qed

theorem string_literal_scanned_witness:
  "\<exists>t lx'. scan_token (lexer_new (CHR 0x22 # [CHR ''a'', CHR 0x5C, CHR 0x22] @ CHR 0x22 # '';'')) = (t, lx') \<and>
     tok_kind t = StringLiteral \<and> position lx' = 5"
  using string_literal_scanned [of "lexer_new (CHR 0x22 # [CHR ''a'', CHR 0x5C, CHR 0x22] @ CHR 0x22 # '';'')"
      "CHR 0x22" "[CHR ''a'', CHR 0x5C, CHR 0x22]" "'';''"]
  by (auto simp: lexer_new_def)

lemma block_loop_body:
  "drop (position lx) (source lx) = body @ ''*/'' @ rest \<Longrightarrow> \<not> sublist ''*/'' (body @ ''*'') \<Longrightarrow>
   block_loop lx = lx\<lparr>position := position lx + length body + 2\<rparr>"
proof (induction body arbitrary: lx)
  case Nil
  then have d: "drop (position lx) (source lx) = CHR ''*'' # CHR ''/'' # rest" by simp
  from current_byte_drop [OF d] current_byte_drop [OF current_byte_drop(2) [OF d]]
  have "current_byte lx = Some (CHR ''*'')" "peek_byte lx 1 = Some (CHR ''/'')"
    by (simp_all add: peek_byte_def current_byte_def)
  then show ?case by (simp add: block_loop.simps [of lx] advance_def)
next
  case (Cons c body)
  then have d: "drop (position lx) (source lx) = c # body @ ''*/'' @ rest" by simp
  note c = current_byte_drop [OF d]
  have no: "\<not> (c = CHR ''*'' \<and> peek_byte lx 1 = Some (CHR ''/''))"
  proof
    assume a: "c = CHR ''*'' \<and> peek_byte lx 1 = Some (CHR ''/'')"
    then have n: "current_byte (advance lx) = Some (CHR ''/'')" by (simp add: peek_byte_def current_byte_def)
    obtain b r where br: "body @ ''*/'' @ rest = b # r" by (cases body) auto
    with current_byte_drop(1) [of "advance lx" b r] c(2) n have "b = CHR ''/''" by simp
    with br obtain body' where "body = CHR ''/'' # body'" by (cases body) auto
    with a have "(c # body) @ ''*'' = [] @ ''*/'' @ (body' @ ''*'')" by simp
    with Cons.prems(2) show False unfolding sublist_def by metis
  qed
  have "sublist (body @ ''*'') ((c # body) @ ''*'')" by (simp add: sublist_Cons_right)
  with Cons.prems(2) have "\<not> sublist ''*/'' (body @ ''*'')"
    using sublist_order.order_trans by blast
  from Cons.IH [OF c(2) this] have "block_loop (advance lx) = lx\<lparr>position := position lx + length (c # body) + 2\<rparr>"
    by (simp add: advance_def)
  with no c(1) show ?case by (simp add: block_loop.simps [of lx])
qed

text \<open>
  Block comments end at the first \<open>*/\<close>. After \<open>/*\<close>, a body in which no \<open>*/\<close> is completed,
  and \<open>*/\<close>, the scan yields one comment token with exactly that text.
\<close>

theorem block_comment_scanned:
  assumes "drop (position lx) (source lx) = ''/*'' @ body @ ''*/'' @ rest"
    and "\<not> sublist ''*/'' (body @ ''*'')"
  shows "\<exists>t. scan_token lx = (t, lx\<lparr>position := position lx + length body + 4\<rparr>) \<and>
    tok_kind t = Comment \<and> token_text lx t = ''/*'' @ body @ ''*/''"
proof -
  from assms(1) have d: "drop (position lx) (source lx) = CHR ''/'' # CHR ''*'' # body @ ''*/'' @ rest" by simp
  note c1 = current_byte_drop [OF d] and c2 = current_byte_drop [OF current_byte_drop(2) [OF d]]
  have p: "peek_byte lx 1 = Some (CHR ''*'')" using c2(1) by (simp add: peek_byte_def current_byte_def)
  have l: "block_loop (advance (advance lx)) = lx\<lparr>position := position lx + length body + 4\<rparr>"
    using block_loop_body [OF c2(2) assms(2)] by (simp add: advance_def)
  have "scan_token lx = read_block_comment lx"
    using c1(1) p by (simp add: scan_token_def is_space_def)
  then have s: "scan_token lx = (token_new Comment (position lx) (position lx + length (''/*'' @ body @ ''*/'')) 0,
      lx\<lparr>position := position lx + length body + 4\<rparr>)"
    by (simp add: read_block_comment_def l finish_def eval_nat_numeral)
  have "token_text lx (token_new Comment (position lx) (position lx + length (''/*'' @ body @ ''*/'')) 0) =
      ''/*'' @ body @ ''*/''"
    by (rule token_text_take [of _ _ rest]) (simp add: assms(1))
  with s show ?thesis by (auto simp: token_new_def)
qed

theorem block_comment_scanned_witness:
  "\<exists>t lx'. scan_token (lexer_new (''/*'' @ ''*a'' @ ''*/'' @ ''b'')) = (t, lx') \<and> tok_kind t = Comment \<and>
     position lx' = 6"
proof -
  have "\<not> sublist ''*/'' (''*a'' @ ''*'')" by (simp add: sublist_code)
  with block_comment_scanned [of "lexer_new (''/*'' @ ''*a'' @ ''*/'' @ ''b'')" "''*a''" "''b''"]
  show ?thesis by (auto simp: lexer_new_def)
qed

text \<open>
  Three-byte operators are looked up one byte too far. At \<open><<\<close>, \<open>>>\<close> or \<open>..\<close> the scan looks
  at the fourth byte instead of the third: if that one is \<open>=\<close> (or \<open>.\<close>) it takes three bytes,
  whatever the third byte is, and otherwise only one. So \<open><<\<close> and \<open>>>\<close> are never a token, and
  \<open><<=\<close>, \<open>>>=\<close> and \<open>...\<close> are one only before a further \<open>=\<close> or \<open>.\<close>.
\<close>

theorem long_operators_misread:
  assumes "drop (position lx) (source lx) = c # c # x # d # rest"
    and "(c, e) \<in> {(CHR ''<'', CHR ''=''), (CHR ''>'', CHR ''=''), (CHR ''.'', CHR ''.'')}"
  shows "\<exists>t. scan_token lx = (t, lx\<lparr>position := position lx + (if d = e then 3 else 1)\<rparr>) \<and>
    tok_kind t = Punctuator \<and> token_text lx t = (if d = e then [c, c, x] else [c])"
proof -
  note c1 = current_byte_drop [OF assms(1)]
  note c2 = current_byte_drop [OF c1(2)]
  note c3 = current_byte_drop [OF c2(2)]
  note c4 = current_byte_drop [OF c3(2)]
  have p: "peek_byte (advance lx) 2 = Some d" using c4(1) by (simp add: peek_byte_def current_byte_def)
  have c: "\<not> is_space c" "c \<noteq> CHR ''/''" "c \<noteq> CHR ''#''" "c \<noteq> CHR 0x22" "c \<noteq> CHR 0x27" "c \<noteq> CHR ''_''"
    "\<not> is_alpha c" "\<not> is_digit c"
    using assms(2) by (auto simp: is_space_def is_alpha_def is_digit_def)
  have "scan_token lx = read_punctuator lx"
    using c c1(1) by (simp add: scan_token_def)
  also have "\<dots> = finish Punctuator (position lx) (lx\<lparr>position := position lx + (if d = e then 3 else 1)\<rparr>)"
  proof -
    have pc: "c \<in> set punctuators" using assms(2) by (auto simp: punctuators_def)
    have ce: "c = CHR ''.'' \<and> e = CHR ''.'' \<or> c = CHR ''<'' \<and> e = CHR ''='' \<or> c = CHR ''>'' \<and> e = CHR ''=''"
      using assms(2) by auto
    show ?thesis
      unfolding read_punctuator_def c1(1) c2(1) p Let_def option.case
      using ce pc by (elim disjE conjE; simp add: advance_def eval_nat_numeral)
  qed
  finally have s: "scan_token lx = (token_new Punctuator (position lx) (position lx + length (if d = e then [c, c, x] else [c])) 0,
      lx\<lparr>position := position lx + (if d = e then 3 else 1)\<rparr>)"
    by (simp add: finish_def eval_nat_numeral)
  have "token_text lx (token_new Punctuator (position lx) (position lx + length (if d = e then [c, c, x] else [c])) 0) =
      (if d = e then [c, c, x] else [c])"
    by (rule token_text_take [of _ _ "if d = e then d # rest else c # x # d # rest"]) (simp add: assms(1))
  with s show ?thesis by (simp add: token_new_def)
qed

theorem long_operators_misread_witness:
  "\<exists>t lx'. scan_token (lexer_new ''<<=1'') = (t, lx') \<and> token_text (lexer_new ''<<=1'') t = ''<'' \<and> position lx' = 1"
  using long_operators_misread [of "lexer_new ''<<=1''" "CHR ''<''" "CHR ''=''" "CHR ''1''" "[]" "CHR ''=''"]
  by (fastforce simp: lexer_new_def)

end
