(* ===== verification/MacroExpander.thy ===== *)
theory MacroExpander
  imports Arena
begin

text \<open>
  The macro expander of \<open>src/src/frontend/macro_expander.rs\<close>: expansion of object-like and
  function-like macros over token lists, stringification and pasting, the string interner, and the
  trees it builds in the arena.

  The source text is taken to be ASCII, so that byte offsets and character offsets coincide.
  Expansion may run for ever (\<open>expansion_diverges\<close>), so its model takes fuel.
\<close>

section \<open>Tokens and definitions\<close>

datatype mt_kind =
    M_EndOfFile
  | M_Identifier
  | M_Number
  | M_StringLiteral
  | M_Punctuator
  | M_Whitespace
  | M_Hash
  | M_HashHash

text \<open>\<open>token.kind as u16\<close>\<close>

fun mt_kind_code :: "mt_kind \<Rightarrow> u16" where
  "mt_kind_code M_EndOfFile = 0"
| "mt_kind_code M_Identifier = 1"
| "mt_kind_code M_Number = 2"
| "mt_kind_code M_StringLiteral = 3"
| "mt_kind_code M_Punctuator = 4"
| "mt_kind_code M_Whitespace = 5"
| "mt_kind_code M_Hash = 6"
| "mt_kind_code M_HashHash = 7"

record mtoken =
  mt_kind :: mt_kind
  mt_offset :: u32
  mt_length :: u32
  mt_line :: u32
  mt_column :: u32

datatype macro_definition =
    ObjectLike "mtoken list"
  | FunctionLike "string list" bool "mtoken list"

record expander =
  x_arena :: arena
  definitions :: "string \<rightharpoonup> macro_definition"
  string_interner :: "string \<rightharpoonup> u32"
  string_data :: "u8 list"
  active_macros :: "string list"

definition expander_new :: "arena \<Rightarrow> expander" where
  "expander_new A = \<lparr>x_arena = A, definitions = Map.empty, string_interner = Map.empty,
                     string_data = [], active_macros = []\<rparr>"

definition define_macro :: "expander \<Rightarrow> string \<Rightarrow> macro_definition \<Rightarrow> expander" where
  "define_macro x name d = x\<lparr>definitions := (definitions x)(name \<mapsto> d)\<rparr>"

definition is_macro_defined :: "expander \<Rightarrow> string \<Rightarrow> bool" where
  "is_macro_defined x name \<longleftrightarrow> definitions x name \<noteq> None"

definition get_macro_definition :: "expander \<Rightarrow> string \<Rightarrow> macro_definition option" where
  "get_macro_definition x name = definitions x name"

definition is_active_macro :: "expander \<Rightarrow> string \<Rightarrow> bool" where
  "is_active_macro x name \<longleftrightarrow> name \<in> set (active_macros x)"

definition intern_string :: "expander \<Rightarrow> string \<Rightarrow> u32 \<times> expander" where
  "intern_string x s =
     (case string_interner x s of
        Some off \<Rightarrow> (off, x)
      | None \<Rightarrow>
          let off = length (string_data x) mod 2 ^ 32 in
          (off, x\<lparr>string_data := string_data x @ str_bytes s @ [0],
                 string_interner := (string_interner x)(s \<mapsto> off)\<rparr>))"

section \<open>Token text, stringification, pasting\<close>

definition extract_token_text :: "mtoken \<Rightarrow> string \<Rightarrow> string" where
  "extract_token_text t src =
     (let start = mt_offset t; e = start + mt_length t in
      if start < length src \<and> e \<le> length src then piece src start e else [])"

text \<open>\<open>format!("\"\{\}\"", text.replace("\"", "\\\""))\<close>\<close>

definition quote_text :: "string \<Rightarrow> string" where
  "quote_text text =
     CHR 0x22 # concat (map (\<lambda>c. if c = CHR 0x22 then [CHR 0x5C, CHR 0x22] else [c]) text) @ [CHR 0x22]"

definition stringify_argument :: "mtoken \<Rightarrow> string \<Rightarrow> mtoken" where
  "stringify_argument t src =
     \<lparr>mt_kind = M_StringLiteral, mt_offset = mt_offset t,
      mt_length = length (quote_text (extract_token_text t src)) mod 2 ^ 32,
      mt_line = mt_line t, mt_column = mt_column t\<rparr>"

fun joined_text :: "string \<Rightarrow> bool \<Rightarrow> mtoken list \<Rightarrow> string" where
  "joined_text src first [] = []"
| "joined_text src first (t # ts) =
     (if \<not> first \<and> mt_kind t \<noteq> M_Whitespace then '' '' else []) @ extract_token_text t src @
     joined_text src False ts"

definition stringify_tokens :: "mtoken list \<Rightarrow> string \<Rightarrow> mtoken" where
  "stringify_tokens ts src =
     \<lparr>mt_kind = M_StringLiteral,
      mt_offset = (case ts of t # _ \<Rightarrow> mt_offset t | [] \<Rightarrow> 0),
      mt_length = length (quote_text (joined_text src True ts)) mod 2 ^ 32,
      mt_line = (case ts of t # _ \<Rightarrow> mt_line t | [] \<Rightarrow> 0),
      mt_column = (case ts of t # _ \<Rightarrow> mt_column t | [] \<Rightarrow> 0)\<rparr>"

text \<open>\<open>char::is_alphabetic\<close> and \<open>char::is_numeric\<close> on ASCII.\<close>

definition paste_tokens :: "mtoken \<Rightarrow> mtoken \<Rightarrow> string \<Rightarrow> mtoken" where
  "paste_tokens l r src =
     (let pasted = extract_token_text l src @ extract_token_text r src in
      \<lparr>mt_kind = (case pasted of
                    c # _ \<Rightarrow> if is_alpha c then M_Identifier else if is_digit c then M_Number
                             else M_Punctuator
                  | [] \<Rightarrow> M_Punctuator),
       mt_offset = mt_offset l, mt_length = length pasted mod 2 ^ 32,
       mt_line = mt_line l, mt_column = mt_column l\<rparr>)"

section \<open>Substitution without arguments\<close>

text \<open>The loop of \<open>substitute_tokens\<close>, with \<open>tokens[i..]\<close> as the list that is left.\<close>

fun subst_loop :: "string \<Rightarrow> mtoken list \<Rightarrow> mtoken list \<Rightarrow> mtoken list" where
  "subst_loop src result [] = result"
| "subst_loop src result [t] =
     (if mt_kind t = M_HashHash then result else result @ [t])"
| "subst_loop src result (t # nxt # rest) =
     (if mt_kind t = M_HashHash then
        (if result \<noteq> [] then
           subst_loop src (butlast result @ [paste_tokens (last result) nxt src]) rest
         else subst_loop src result (nxt # rest))
      else if mt_kind t = M_Hash then subst_loop src (result @ [stringify_argument nxt src]) rest
      else subst_loop src (result @ [t]) (nxt # rest))"

definition substitute_tokens :: "mtoken list \<Rightarrow> string \<Rightarrow> mtoken list" where
  "substitute_tokens tokens src = subst_loop src [] tokens"

definition expand_object_macro :: "expander \<Rightarrow> string \<Rightarrow> string \<Rightarrow> mtoken list option" where
  "expand_object_macro x name src =
     (case definitions x name of
        None \<Rightarrow> None
      | Some (ObjectLike replacement) \<Rightarrow> Some (substitute_tokens replacement src)
      | Some (FunctionLike _ _ _) \<Rightarrow> Some [])"

section \<open>Stringification in running text\<close>

definition is_stringification_or_paste :: "mtoken list \<Rightarrow> nat \<Rightarrow> bool" where
  "is_stringification_or_paste tokens i \<longleftrightarrow>
     (if length tokens - i < 2 then False
      else mt_kind (tokens ! (i + 1)) = M_Hash \<or> mt_kind (tokens ! (i + 1)) = M_HashHash)"

definition handle_stringification :: "mtoken list \<Rightarrow> nat \<Rightarrow> string \<Rightarrow> (mtoken \<times> nat) option" where
  "handle_stringification tokens i src =
     (if i + 1 \<ge> length tokens then None
      else
        let nxt = tokens ! (i + 1) in
        if mt_kind nxt = M_HashHash then None
        else if mt_kind nxt = M_Identifier then Some (stringify_argument nxt src, i + 2)
        else None)"

section \<open>Arguments of a call\<close>

text \<open>
  The argument loop of \<open>expand_function_macro\<close>: the arguments, the open argument, the depth of
  parentheses and the position; it ends at the closing parenthesis or at the end of the tokens.
  The depth is an \<open>i32\<close> that is never negative: it goes down only when it is positive.
\<close>

function args_of_call :: "string \<Rightarrow> mtoken list \<Rightarrow> nat \<Rightarrow> nat \<Rightarrow> mtoken list list \<Rightarrow> mtoken list \<Rightarrow>
    mtoken list list \<times> nat" where
  "args_of_call src tokens j depth args cur =
     (if j < length tokens then
        let t = tokens ! j; text = extract_token_text t src in
        if text = '')'' \<and> depth = 0 then ((if cur \<noteq> [] then args @ [cur] else args), j)
        else
          let depth1 = (if text = ''('' then depth + 1 else depth);
              depth2 = (if depth1 > 0 \<and> text = '')'' then depth1 - 1 else depth1) in
          if text = '','' \<and> depth = 0 then args_of_call src tokens (j + 1) depth2 (args @ [cur]) []
          else args_of_call src tokens (j + 1) depth2 args (cur @ [t])
      else (args, j))"
  by pat_completeness auto
termination
  by (relation "measure (\<lambda>(src, tokens, j, depth, args, cur). length tokens - j)") auto

declare args_of_call.simps [simp del]

fun index_of :: "string \<Rightarrow> string list \<Rightarrow> nat option" where
  "index_of p [] = None"
| "index_of p (q # qs) = (if q = p then Some 0 else map_option Suc (index_of p qs))"

section \<open>Expansion\<close>

text \<open>
  The loop of \<open>substitute_tokens_with_args\<close>; \<open>rec\<close> is \<open>expand_macros\<close>, called on the arguments.
\<close>

definition param_arg :: "string list \<Rightarrow> mtoken list list \<Rightarrow> string \<Rightarrow> mtoken list option" where
  "param_arg params args text =
     (case index_of text params of
        Some idx \<Rightarrow> if idx < length args then Some (args ! idx) else None
      | None \<Rightarrow> None)"

fun args_subst_loop :: "(mtoken list \<Rightarrow> mtoken list run) \<Rightarrow> string \<Rightarrow> string list \<Rightarrow> mtoken list list \<Rightarrow>
    mtoken list \<Rightarrow> mtoken list \<Rightarrow> mtoken list run" where
  "args_subst_loop rec src params args result [] = Done result"
| "args_subst_loop rec src params args result [t] =
     (if mt_kind t = M_HashHash then Done result
      else case (if mt_kind t = M_Identifier then param_arg params args (extract_token_text t src) else None) of
        Some arg \<Rightarrow> run_bind (rec arg) (\<lambda>substituted. Done (result @ substituted))
      | None \<Rightarrow> Done (result @ [t]))"
| "args_subst_loop rec src params args result (t # nxt # rest) =
     (if mt_kind t = M_HashHash then
        (if result \<noteq> [] then
           args_subst_loop rec src params args
             (butlast result @ [paste_tokens (last result) nxt src]) rest
         else args_subst_loop rec src params args result (nxt # rest))
      else case (if mt_kind t = M_Hash \<and> mt_kind nxt = M_Identifier
                 then param_arg params args (extract_token_text nxt src) else None) of
        Some arg \<Rightarrow> args_subst_loop rec src params args (result @ [stringify_tokens arg src]) rest
      | None \<Rightarrow>
          (case (if mt_kind t = M_Identifier then param_arg params args (extract_token_text t src) else None) of
             Some arg \<Rightarrow>
               run_bind (rec arg) (\<lambda>substituted.
                 args_subst_loop rec src params args (result @ substituted) (nxt # rest))
           | None \<Rightarrow> args_subst_loop rec src params args (result @ [t]) (nxt # rest)))"

definition substitute_tokens_with_args ::
  "(mtoken list \<Rightarrow> mtoken list run) \<Rightarrow> macro_definition \<Rightarrow> mtoken list list \<Rightarrow> string \<Rightarrow> mtoken list run" where
  "substitute_tokens_with_args rec d args src =
     (case d of
        FunctionLike params _ replacement \<Rightarrow> args_subst_loop rec src params args [] replacement
      | ObjectLike _ \<Rightarrow> Done [])"

text \<open>The result carries the new position \<open>*i\<close>.\<close>

definition expand_function_macro ::
  "(expander \<Rightarrow> mtoken list \<Rightarrow> mtoken list run) \<Rightarrow> expander \<Rightarrow> string \<Rightarrow> mtoken list \<Rightarrow> nat \<Rightarrow> string \<Rightarrow>
   (mtoken list \<times> nat) option run" where
  "expand_function_macro rec x name tokens i src =
     (case definitions x name of
        None \<Rightarrow> Done None
      | Some (ObjectLike _) \<Rightarrow> Done None
      | Some (FunctionLike ps v rpl) \<Rightarrow>
          (case args_of_call src tokens (i + 2) 0 [] [] of (arg_tokens, j) \<Rightarrow>
             if arg_tokens = [] then Done None
             else
               run_bind (substitute_tokens_with_args
                   (rec (x\<lparr>active_macros := active_macros x @ [name]\<rparr>))
                   (FunctionLike ps v rpl) arg_tokens src)
                 (\<lambda>expanded. Done (Some (expanded, j)))))"

fun expand_loop :: "nat \<Rightarrow> expander \<Rightarrow> string \<Rightarrow> mtoken list \<Rightarrow> nat \<Rightarrow> mtoken list \<Rightarrow> mtoken list run" where
  "expand_loop 0 x src tokens i expanded = NoFuel"
| "expand_loop (Suc n) x src tokens i expanded =
     (if i \<ge> length tokens then Done expanded
      else
        let token = tokens ! i in
        if mt_kind token = M_Identifier then
          let identifier = extract_token_text token src in
          run_bind
            (if i + 1 < length tokens \<and>
                (mt_kind (tokens ! (i + 1)) = M_Whitespace \<or> mt_kind (tokens ! (i + 1)) = M_Punctuator) \<and>
                extract_token_text (tokens ! (i + 1)) src = ''('' \<and> is_macro_defined x identifier
             then expand_function_macro (\<lambda>x' ts. expand_loop n x' src ts 0 []) x identifier tokens i src
             else Done None)
            (\<lambda>call. case call of
               Some (expanded_tokens, j) \<Rightarrow> expand_loop n x src tokens j (expanded @ expanded_tokens)
             | None \<Rightarrow>
                 if is_macro_defined x identifier \<and> \<not> is_active_macro x identifier then
                   run_bind (run_of (expand_object_macro x identifier src)) (\<lambda>ts.
                     expand_loop n x src tokens i (expanded @ ts))
                 else expand_loop n x src tokens i (expanded @ [token]))
        else if mt_kind token = M_Hash \<and> \<not> is_stringification_or_paste tokens i then
          (case handle_stringification tokens i src of
             Some (stringified, new_i) \<Rightarrow> expand_loop n x src tokens new_i (expanded @ [stringified])
           | None \<Rightarrow> expand_loop n x src tokens (i + 1) (expanded @ [token]))
        else expand_loop n x src tokens (i + 1) (expanded @ [token]))"

definition expand_macros :: "nat \<Rightarrow> expander \<Rightarrow> string \<Rightarrow> mtoken list \<Rightarrow> mtoken list run" where
  "expand_macros fuel x src tokens = expand_loop fuel x src tokens 0 []"

section \<open>Trees of expanded tokens\<close>

definition token_node :: "mtoken \<Rightarrow> node_offset \<Rightarrow> u32 \<Rightarrow> cast_node" where
  "token_node t par string_offset =
     (cast_node_new (mt_kind_code (mt_kind t)))\<lparr>flags := IS_VALID, parent := par, node_data := string_offset\<rparr>"

text \<open>The loop that appends one node per token below \<open>par\<close>; \<open>prev\<close> is the last node made.\<close>

fun attach_tokens :: "expander \<Rightarrow> string \<Rightarrow> node_offset \<Rightarrow> node_offset \<Rightarrow> mtoken list \<Rightarrow> expander outcome" where
  "attach_tokens x src par prev [] = Ret x"
| "attach_tokens x src par prev (t # ts) =
     (case intern_string x (extract_token_text t src) of (string_offset, x1) \<Rightarrow>
        (case arena_alloc (x_arena x1) (token_node t par string_offset) of
           Panic \<Rightarrow> Panic
         | Fault \<Rightarrow> Fault
         | Ret (r, A) \<Rightarrow>
             (case r of
                None \<Rightarrow> attach_tokens (x1\<lparr>x_arena := A\<rparr>) src par prev ts
              | Some tn \<Rightarrow>
                  if tn = NULL then attach_tokens (x1\<lparr>x_arena := A\<rparr>) src par prev ts
                  else
                    let B = (if prev = NULL then arena_get_mut A par (\<lambda>n. n\<lparr>first_child := tn\<rparr>)
                             else arena_get_mut A prev (\<lambda>n. n\<lparr>next_sibling := tn\<rparr>))
                    in attach_tokens (x1\<lparr>x_arena := B\<rparr>) src par tn ts)))"

definition build_expanded_ast ::
  "nat \<Rightarrow> expander \<Rightarrow> mtoken list \<Rightarrow> string \<Rightarrow> (node_offset \<times> expander) outcome run" where
  "build_expanded_ast fuel x tokens src =
     (case arena_alloc (x_arena x) ((cast_node_new 0)\<lparr>flags := IS_VALID\<rparr>) of
        Panic \<Rightarrow> Done Panic
      | Fault \<Rightarrow> Done Fault
      | Ret (None, A) \<Rightarrow> Done (Ret (NULL, x\<lparr>x_arena := A\<rparr>))
      | Ret (Some root, A) \<Rightarrow>
          run_bind (expand_macros fuel (x\<lparr>x_arena := A\<rparr>) src tokens) (\<lambda>expanded.
            Done (case attach_tokens (x\<lparr>x_arena := A\<rparr>) src root NULL expanded of
                    Ret x' \<Rightarrow> Ret (root, x') | Panic \<Rightarrow> Panic | Fault \<Rightarrow> Fault)))"

definition expand_to_dual_node ::
  "nat \<Rightarrow> expander \<Rightarrow> node_offset \<Rightarrow> string \<Rightarrow> mtoken list list option \<Rightarrow> string \<Rightarrow>
   (node_offset \<times> expander) outcome run" where
  "expand_to_dual_node fuel x invocation_offset name args src =
     (case arena_alloc (x_arena x) ((cast_node_new 256)\<lparr>flags := or IS_VALID HAS_ERROR\<rparr>) of
        Panic \<Rightarrow> Done Panic
      | Fault \<Rightarrow> Done Fault
      | Ret (None, A) \<Rightarrow> Done (Ret (NULL, x\<lparr>x_arena := A\<rparr>))
      | Ret (Some expanded_node, A) \<Rightarrow>
          let B = arena_get_mut A invocation_offset
                    (\<lambda>n. n\<lparr>node_data := expanded_node, flags := or (flags n) IS_VALID\<rparr>);
              x1 = x\<lparr>x_arena := B\<rparr> in
          run_bind
            (case get_macro_definition x1 name of
               None \<Rightarrow> Done []
             | Some (ObjectLike replacement) \<Rightarrow> Done (substitute_tokens replacement src)
             | Some (FunctionLike ps v rpl) \<Rightarrow>
                 (case args of
                    Some as \<Rightarrow>
                      substitute_tokens_with_args (expand_macros fuel x1 src) (FunctionLike ps v rpl) as src
                  | None \<Rightarrow> Done []))
            (\<lambda>expanded.
               Done (case attach_tokens x1 src expanded_node NULL expanded of
                       Ret x2 \<Rightarrow>
                         Ret (expanded_node,
                              x2\<lparr>x_arena := arena_get_mut (x_arena x2) expanded_node
                                   (\<lambda>n. n\<lparr>flags := and (flags n) (not HAS_ERROR)\<rparr>)\<rparr>)
                     | Panic \<Rightarrow> Panic | Fault \<Rightarrow> Fault)))"

definition get_invocation_link :: "expander \<Rightarrow> node_offset \<Rightarrow> node_offset option" where
  "get_invocation_link x expanded_node =
     (if expanded_node = NULL then None
      else case arena_get (x_arena x) expanded_node of
        None \<Rightarrow> None
      | Some node \<Rightarrow> if kind node = 256 then Some (node_data node) else None)"

section \<open>When expansion returns\<close>

definition no_functions :: "expander \<Rightarrow> bool" where
  "no_functions x \<longleftrightarrow> (\<forall>name ps v rpl. definitions x name \<noteq> Some (FunctionLike ps v rpl))"

definition no_ident :: "mtoken list \<Rightarrow> bool" where
  "no_ident tokens \<longleftrightarrow> (\<forall>t \<in> set tokens. mt_kind t \<noteq> M_Identifier)"

definition no_hash :: "mtoken list \<Rightarrow> bool" where
  "no_hash tokens \<longleftrightarrow> (\<forall>t \<in> set tokens. mt_kind t \<noteq> M_Hash \<and> mt_kind t \<noteq> M_HashHash)"

text \<open>At an identifier that is not a function-like call, the loop never moves on.\<close>

lemma expand_loop_stuck:
  assumes "no_functions x" and "i < length tokens" and "mt_kind (tokens ! i) = M_Identifier"
  shows "expand_loop n x src tokens i ex = NoFuel"
proof (induction n arbitrary: ex)
  case (Suc n)
  have f: "expand_function_macro rec x name tokens i src = Done None" for rec name
    using assms(1) by (auto simp: expand_function_macro_def no_functions_def split: option.split macro_definition.split)
  have o: "is_macro_defined x name \<Longrightarrow> \<exists>ts. expand_object_macro x name src = Some ts" for name
    by (auto simp: is_macro_defined_def expand_object_macro_def split: macro_definition.split)
  obtain ts where "is_macro_defined x (extract_token_text (tokens ! i) src) \<Longrightarrow>
      expand_object_macro x (extract_token_text (tokens ! i) src) src = Some ts"
    using o by blast
  with assms Suc f show ?case by (simp add: Let_def)
qed simp

lemma expand_loop_plain:
  assumes "no_ident tokens" and "no_hash tokens"
  shows "i \<le> length tokens \<Longrightarrow> expand_loop n x src tokens i ex =
    (if length tokens - i < n then Done (ex @ drop i tokens) else NoFuel)"
proof (induction n arbitrary: i ex)
  case (Suc n)
  show ?case
  proof (cases "i = length tokens")
    case False
    with Suc.prems have i: "i < length tokens" by simp
    then have "tokens ! i \<in> set tokens" by simp
    with assms have k: "mt_kind (tokens ! i) \<noteq> M_Identifier" "mt_kind (tokens ! i) \<noteq> M_Hash"
      by (auto simp: no_ident_def no_hash_def)
    from i have d: "drop i tokens = tokens ! i # drop (Suc i) tokens" by (simp add: Cons_nth_drop_Suc)
    from i k Suc.IH [of "i + 1" "ex @ [tokens ! i]"] show ?thesis by (auto simp: d Let_def)
  qed simp
qed simp

lemma expand_loop_reaches_ident:
  assumes "no_functions x" and "no_hash tokens"
  shows "\<exists>t \<in> set (drop i tokens). mt_kind t = M_Identifier \<Longrightarrow> expand_loop n x src tokens i ex = NoFuel"
proof (induction n arbitrary: i ex)
  case (Suc n)
  then have i: "i < length tokens" by (cases "i < length tokens") auto
  show ?case
  proof (cases "mt_kind (tokens ! i) = M_Identifier")
    case True
    with expand_loop_stuck [OF assms(1) i] show ?thesis by blast
  next
    case False
    from i assms(2) have h: "mt_kind (tokens ! i) \<noteq> M_Hash" by (auto simp: no_hash_def)
    have "\<exists>t \<in> set (drop (i + 1) tokens). mt_kind t = M_Identifier"
      using Suc.prems False i by (auto simp: Cons_nth_drop_Suc [symmetric])
    with False h i Suc.IH [of "i + 1"] show ?thesis by (simp add: Let_def)
  qed
qed simp

text \<open>
  When macro expansion returns. With object-like definitions only, and on tokens without \<open>#\<close>
  and \<open>##\<close>, the loop of \<open>expand_macros\<close> returns exactly when the list holds no identifier: at an
  identifier, defined or not, it appends its expansion and visits the same identifier again, for
  ever. When it returns, which takes one round per token and one more, the tokens come back
  unchanged.
\<close>

theorem expansion_diverges:
  assumes "no_functions x" and "no_hash tokens"
  shows "((\<exists>fuel ts. expand_macros fuel x src tokens = Done ts) \<longleftrightarrow> no_ident tokens) \<and>
    (no_ident tokens \<longrightarrow> expand_macros (length tokens + 1) x src tokens = Done tokens) \<and>
    (\<not> no_ident tokens \<longrightarrow> (\<forall>fuel. expand_macros fuel x src tokens = NoFuel))"
proof (cases "no_ident tokens")
  case True
  have "expand_macros (length tokens + 1) x src tokens = Done tokens"
    using expand_loop_plain [OF True assms(2), of 0 "length tokens + 1"] by (simp add: expand_macros_def)
  with True show ?thesis by blast
next
  case False
  then have "\<exists>t \<in> set (drop 0 tokens). mt_kind t = M_Identifier" by (simp add: no_ident_def)
  then have "\<forall>fuel. expand_macros fuel x src tokens = NoFuel"
    unfolding expand_macros_def using expand_loop_reaches_ident [OF assms] by blast
  with False show ?thesis by simp
qed

definition tok_a :: mtoken where
  "tok_a = \<lparr>mt_kind = M_Identifier, mt_offset = 0, mt_length = 1, mt_line = 1, mt_column = 1\<rparr>"

theorem expansion_diverges_witness:
  "\<forall>fuel. expand_macros fuel (expander_new arena8) ''a'' [tok_a] = NoFuel"
  using expansion_diverges [of "expander_new arena8" "[tok_a]"]
  by (simp add: no_functions_def no_hash_def no_ident_def expander_new_def tok_a_def)

section \<open>The string interner\<close>

definition string_at :: "u8 list \<Rightarrow> nat \<Rightarrow> string \<Rightarrow> bool" where
  "string_at bytes off s \<longleftrightarrow> take (length s + 1) (drop off bytes) = str_bytes s @ [0]"

definition interner_inv :: "expander \<Rightarrow> bool" where
  "interner_inv x \<longleftrightarrow> (\<forall>s off. string_interner x s = Some off \<longrightarrow> string_at (string_data x) off s)"

lemma string_at_append: "string_at bytes off s \<Longrightarrow> string_at (bytes @ extra) off s"
proof -
  assume a: "string_at bytes off s"
  then have "length (take (length s + 1) (drop off bytes)) = length s + 1" by (simp add: string_at_def)
  then have "length s + 1 \<le> length (drop off bytes)" by simp
  with a show ?thesis by (simp add: string_at_def)
qed

lemma string_at_new: "string_at (bytes @ str_bytes s @ [0]) (length bytes) s"
  by (simp add: string_at_def)

lemma interning_fact:
  assumes "interner_inv x" and "length (string_data x) < 2 ^ 32" and "intern_string x s = (off, x')"
  shows "string_at (string_data x') off s \<and> interner_inv x' \<and>
    (\<forall>s' off'. string_interner x s' = Some off' \<longrightarrow> string_interner x' s' = Some off') \<and>
    intern_string x' s = (off, x')"
proof (cases "string_interner x s")
  case None
  with assms(2,3) have off: "off = length (string_data x)"
    and x': "string_data x' = string_data x @ str_bytes s @ [0]"
      "string_interner x' = (string_interner x)(s \<mapsto> off)"
    by (auto simp: intern_string_def Let_def)
  have "interner_inv x'"
    using assms(1) string_at_append string_at_new by (auto simp: interner_inv_def x' off)
  with None show ?thesis by (simp add: x' off string_at_new intern_string_def)
next
  case (Some o')
  with assms show ?thesis by (auto simp: intern_string_def interner_inv_def)
qed

text \<open>
  The string interner. From a consistent interner with less than 4 GiB of data, interning a
  string returns an offset at which the string and its terminating zero are stored, keeps every
  string interned before at its offset, keeps the interner consistent, and returns the same
  offset and changes nothing when the string is interned again.
\<close>

theorem interning_correct:
  assumes "interner_inv x" and "length (string_data x) < 2 ^ 32" and "intern_string x s = (off, x')"
  shows "string_at (string_data x') off s \<and> interner_inv x' \<and>
    (\<forall>s' off'. string_interner x s' = Some off' \<longrightarrow> string_interner x' s' = Some off') \<and>
    intern_string x' s = (off, x')"
  by (rule interning_fact [OF assms])

theorem interning_correct_witness:
  "\<exists>off x'. intern_string (expander_new arena8) ''ab'' = (off, x') \<and> intern_string x' ''ab'' = (off, x')"
proof -
  obtain off x' where i: "intern_string (expander_new arena8) ''ab'' = (off, x')" by fastforce
  have "interner_inv (expander_new arena8)" "length (string_data (expander_new arena8)) < 2 ^ 32"
    by (simp_all add: interner_inv_def expander_new_def)
  from interning_correct [OF this i] i show ?thesis by blast
qed

section \<open>Trees of tokens\<close>

text \<open>The node offsets below the number of allocated nodes, and the nodes themselves, are 32-bit values.\<close>

lemma arena_alloc_room:
  assumes "arena_reach A" and "node_wf n" and "node_allocated A < node_capacity A"
  shows "\<exists>B. arena_alloc A n = Ret (Some (node_allocated A), B) \<and> arena_reach B \<and>
    node_allocated B = node_allocated A + 1 \<and> node_capacity B = node_capacity A \<and>
    arena_get B = (arena_get A)(node_allocated A \<mapsto> n) \<and>
    arena_get A (node_allocated A) = None \<and> node_allocated A \<noteq> 0"
proof -
  note inv = arena_reach_inv [OF assms(1)]
  obtain r B where a: "arena_alloc A n = Ret (r, B)" using arena_alloc_total [OF inv] by fastforce
  with assms(3) have r: "r = Some (node_allocated A)" "node_allocated B = node_allocated A + 1"
      "node_capacity B = node_capacity A"
    by (cases r; auto dest: arena_alloc_SomeD arena_alloc_NoneD)+
  with a have a': "arena_alloc A n = Ret (Some (node_allocated A), B)" by simp
  have "arena_reach B" using arena_reach_step [OF assms(1) step_alloc [OF a]] .
  with r a' arena_get_alloc [OF inv assms(2) a'] arena_alloc_fresh [OF inv a'] show ?thesis by blast
qed

lemma get_mut_update:
  assumes "arena_reach A" and "arena_get A off = Some n" and "node_wf (f n)"
  shows "arena_get (arena_get_mut A off f) = (arena_get A)(off \<mapsto> f n)"
    "arena_reach (arena_get_mut A off f)"
    "node_allocated (arena_get_mut A off f) = node_allocated A"
    "node_capacity (arena_get_mut A off f) = node_capacity A"
proof -
  show "arena_get (arena_get_mut A off f) = (arena_get A)(off \<mapsto> f n)"
    using arena_get_get_mut [of A off f] assms(2,3) by simp
  show "arena_reach (arena_get_mut A off f)" by (rule arena_reach_step [OF assms(1) step_get_mut])
qed (simp_all add: arena_get_mut_def)

lemma intern_string_fields:
  "intern_string x s = (off, x') \<Longrightarrow> x_arena x' = x_arena x \<and> definitions x' = definitions x"
  by (auto simp: intern_string_def Let_def split: option.splits)

text \<open>The offsets the interner hands out for the texts of a list of tokens.\<close>

fun intern_all :: "expander \<Rightarrow> string \<Rightarrow> mtoken list \<Rightarrow> u32 list \<times> expander" where
  "intern_all x src [] = ([], x)"
| "intern_all x src (t # ts) =
     (case intern_string x (extract_token_text t src) of (off, x1) \<Rightarrow>
        case intern_all x1 src ts of (offs, x2) \<Rightarrow> (off # offs, x2))"

definition ids_small :: "expander \<Rightarrow> bool" where
  "ids_small x \<longleftrightarrow> (\<forall>s off. string_interner x s = Some off \<longrightarrow> off < 2 ^ 32)"

lemma intern_string_small:
  "ids_small x \<Longrightarrow> intern_string x s = (off, x') \<Longrightarrow> off < 2 ^ 32 \<and> ids_small x'"
  by (auto simp: ids_small_def intern_string_def Let_def split: option.splits if_splits)

lemma intern_string_arena: "intern_string (x\<lparr>x_arena := B\<rparr>) s = (case intern_string x s of (off, x') \<Rightarrow> (off, x'\<lparr>x_arena := B\<rparr>))"
  by (auto simp: intern_string_def Let_def split: option.split)

lemma intern_all_arena: "intern_all (x\<lparr>x_arena := B\<rparr>) src ts = (case intern_all x src ts of (offs, x') \<Rightarrow> (offs, x'\<lparr>x_arena := B\<rparr>))"
  by (induction ts arbitrary: x) (auto simp: intern_string_arena split: prod.split)

lemma length_intern_all: "length (fst (intern_all x src ts)) = length ts"
proof (induction ts arbitrary: x)
  case (Cons t ts)
  obtain off x1 where i: "intern_string x (extract_token_text t src) = (off, x1)" by fastforce
  from Cons.IH [of x1] show ?case by (auto simp: i split: prod.split)
qed simp

lemma token_node_wf: "par < 2 ^ 32 \<Longrightarrow> off < 2 ^ 32 \<Longrightarrow> node_wf (token_node t par off)"
  by (cases "mt_kind t") (auto simp: node_wf_def token_node_def cast_node_new_def source_unknown_def)

lemma allocated_small: "arena_reach A \<Longrightarrow> node_allocated A < 2 ^ 32"
  using arena_reach_inv [of A] by (auto simp: arena_inv_def)

text \<open>
  The node of token \<open>k\<close> of \<open>n\<close> in a run of nodes that starts at offset \<open>a\<close>: each is linked to the
  next, the last to none.
\<close>

definition run_node :: "nat \<Rightarrow> nat \<Rightarrow> node_offset \<Rightarrow> mtoken list \<Rightarrow> u32 list \<Rightarrow> nat \<Rightarrow> cast_node" where
  "run_node a n par ts offs k =
     (token_node (ts ! k) par (offs ! k))\<lparr>next_sibling := (if k + 1 < n then a + k + 1 else NULL)\<rparr>"

text \<open>The link made to the first node of the run.\<close>

definition link_first :: "(node_offset \<Rightarrow> cast_node option) \<Rightarrow> node_offset \<Rightarrow> node_offset \<Rightarrow> nat \<Rightarrow>
    node_offset \<Rightarrow> cast_node option" where
  "link_first g par prev a =
     (if prev = NULL then g(par := map_option (\<lambda>n. n\<lparr>first_child := a\<rparr>) (g par))
      else g(prev := map_option (\<lambda>n. n\<lparr>next_sibling := a\<rparr>) (g prev)))"

lemma run_node_shift:
  "a < y \<Longrightarrow> run_node a (Suc n) par (t # ts) (off # offs) (y - a) = run_node (a + 1) n par ts offs (y - (a + 1))"
proof -
  assume "a < y"
  then obtain d where "y = a + 1 + d" using less_imp_add_positive [of a y] by (metis Suc_eq_plus1 Suc_leI le_add_diff_inverse)
  then show ?thesis by (simp add: run_node_def)
qed

lemma attach_tokens_spec:
  "arena_reach (x_arena x) \<Longrightarrow> arena_get (x_arena x) par = Some pn \<Longrightarrow> node_wf pn \<Longrightarrow> par < 2 ^ 32 \<Longrightarrow>
   prev = NULL \<or> prev \<noteq> par \<and> (\<exists>qn. arena_get (x_arena x) prev = Some qn \<and> node_wf qn) \<Longrightarrow>
   ids_small x \<Longrightarrow> a = node_allocated (x_arena x) \<Longrightarrow> a + length ts \<le> node_capacity (x_arena x) \<Longrightarrow>
   intern_all x src ts = (offs, xi) \<Longrightarrow>
   \<exists>A. attach_tokens x src par prev ts = Ret (xi\<lparr>x_arena := A\<rparr>) \<and> arena_reach A \<and>
     (\<forall>y. arena_get A y =
        (if a \<le> y \<and> y < a + length ts then Some (run_node a (length ts) par ts offs (y - a))
         else if ts = [] then arena_get (x_arena x) y
         else link_first (arena_get (x_arena x)) par prev a y))"
proof (induction ts arbitrary: x pn prev a offs xi)
  case Nil
  then show ?case by (intro exI [of _ "x_arena x"]) auto
next
  case (Cons t ts)
  let ?A = "x_arena x"
  obtain off x1 where i: "intern_string x (extract_token_text t src) = (off, x1)" by fastforce
  obtain offs1 where is': "intern_all x1 src ts = (offs1, xi)" "offs = off # offs1"
    using Cons.prems(9) i by (auto split: prod.splits)
  have x1: "x_arena x1 = ?A" "off < 2 ^ 32" "ids_small x1"
    using intern_string_fields [OF i] intern_string_small [OF Cons.prems(6) i] by auto
  let ?tn = "token_node t par off"
  have wf: "node_wf ?tn" by (rule token_node_wf [OF Cons.prems(4) x1(2)])
  obtain B where B: "arena_alloc ?A ?tn = Ret (Some a, B)" "arena_reach B" "node_allocated B = a + 1"
    "node_capacity B = node_capacity ?A" "arena_get B = (arena_get ?A)(a \<mapsto> ?tn)"
    "arena_get ?A a = None" "a \<noteq> 0"
    using arena_alloc_room [OF Cons.prems(1) wf] Cons.prems(7,8) by auto
  have a32: "a < 2 ^ 32" using allocated_small [OF Cons.prems(1)] Cons.prems(7) by simp
  have pa: "par \<noteq> a" "prev \<noteq> a" using B(6,7) Cons.prems(2,5) by auto
  define C where "C = (if prev = NULL then arena_get_mut B par (\<lambda>n. n\<lparr>first_child := a\<rparr>)
      else arena_get_mut B prev (\<lambda>n. n\<lparr>next_sibling := a\<rparr>))"
  have C: "arena_reach C" "node_allocated C = a + 1" "node_capacity C = node_capacity ?A"
    "arena_get C = (link_first (arena_get ?A) par prev a)(a \<mapsto> ?tn)"
    "\<exists>pn'. arena_get C par = Some pn' \<and> node_wf pn'"
  proof -
    have "arena_reach C \<and> node_allocated C = a + 1 \<and> node_capacity C = node_capacity ?A \<and>
      arena_get C = (link_first (arena_get ?A) par prev a)(a \<mapsto> ?tn) \<and>
      (\<exists>pn'. arena_get C par = Some pn' \<and> node_wf pn')"
    proof (cases "prev = NULL")
      case True
      have g: "arena_get B par = Some pn" using B(5) pa Cons.prems(2) by simp
      have w: "node_wf (pn\<lparr>first_child := a\<rparr>)" using Cons.prems(3) a32 by (simp add: node_wf_def)
      from get_mut_update [where f = "\<lambda>n. n\<lparr>first_child := a\<rparr>", OF B(2) g w] True B(3,4,5) pa Cons.prems(2) w
      show ?thesis by (auto simp: C_def link_first_def fun_eq_iff)
    next
      case False
      with Cons.prems(5) obtain qn where qn: "prev \<noteq> par" "arena_get ?A prev = Some qn" "node_wf qn" by blast
      then have g: "arena_get B prev = Some qn" using B(5) pa by simp
      have w: "node_wf (qn\<lparr>next_sibling := a\<rparr>)" using qn(3) a32 by (simp add: node_wf_def)
      from get_mut_update [where f = "\<lambda>n. n\<lparr>next_sibling := a\<rparr>", OF B(2) g w] False B(3,4,5) pa
        Cons.prems(2,3) qn
      show ?thesis by (auto simp: C_def link_first_def fun_eq_iff)
    qed
    then show "arena_reach C" "node_allocated C = a + 1" "node_capacity C = node_capacity ?A"
      "arena_get C = (link_first (arena_get ?A) par prev a)(a \<mapsto> ?tn)"
      "\<exists>pn'. arena_get C par = Some pn' \<and> node_wf pn'" by blast+
  qed
  from C(5) obtain pn' where pn': "arena_get C par = Some pn'" "node_wf pn'" by blast
  have step: "attach_tokens x src par prev (t # ts) = attach_tokens (x1\<lparr>x_arena := C\<rparr>) src par a ts"
    using B(1,7) by (simp add: i x1(1) C_def Let_def)
  have ia: "intern_all (x1\<lparr>x_arena := C\<rparr>) src ts = (offs1, xi\<lparr>x_arena := C\<rparr>)"
    by (simp add: intern_all_arena is'(1))
  have "\<exists>A. attach_tokens (x1\<lparr>x_arena := C\<rparr>) src par a ts = Ret ((xi\<lparr>x_arena := C\<rparr>)\<lparr>x_arena := A\<rparr>) \<and> arena_reach A \<and>
     (\<forall>y. arena_get A y =
        (if a + 1 \<le> y \<and> y < a + 1 + length ts then Some (run_node (a + 1) (length ts) par ts offs1 (y - (a + 1)))
         else if ts = [] then arena_get (x_arena (x1\<lparr>x_arena := C\<rparr>)) y
         else link_first (arena_get (x_arena (x1\<lparr>x_arena := C\<rparr>))) par a (a + 1) y))"
    by (rule Cons.IH [of _ pn']) (use C pn' pa wf x1 ia B(7) Cons.prems(4,8) in \<open>auto simp: ids_small_def\<close>)
  moreover have "x_arena (x1\<lparr>x_arena := C\<rparr>) = C" "(xi\<lparr>x_arena := C\<rparr>)\<lparr>x_arena := A\<rparr> = xi\<lparr>x_arena := A\<rparr>" for A
    by simp_all
  ultimately obtain A where A: "attach_tokens (x1\<lparr>x_arena := C\<rparr>) src par a ts = Ret (xi\<lparr>x_arena := A\<rparr>)" "arena_reach A"
    "\<forall>y. arena_get A y =
        (if a + 1 \<le> y \<and> y < a + 1 + length ts then Some (run_node (a + 1) (length ts) par ts offs1 (y - (a + 1)))
         else if ts = [] then arena_get C y else link_first (arena_get C) par a (a + 1) y)"
    unfolding expander.select_convs by metis
  have first: "run_node a (Suc (length ts)) par (t # ts) (off # offs1) 0 =
      ?tn\<lparr>next_sibling := (if ts = [] then NULL else a + 1)\<rparr>"
    by (cases ts) (simp_all add: run_node_def)
  have tn0: "?tn\<lparr>next_sibling := NULL\<rparr> = ?tn" by (simp add: token_node_def cast_node_new_def)
  have "arena_get A y = (if a \<le> y \<and> y < a + length (t # ts) then Some (run_node a (length (t # ts)) par (t # ts) offs (y - a))
         else link_first (arena_get ?A) par prev a y)" for y
  proof (cases "y = a")
    case True
    then show ?thesis
      using A(3) C(4) B(7) first tn0 by (auto simp: is'(2) link_first_def)
  next
    case False
    then have "link_first (arena_get C) par a (a + 1) y = link_first (arena_get ?A) par prev a y"
      "arena_get C y = link_first (arena_get ?A) par prev a y"
      using C(4) B(7) by (auto simp: link_first_def [of _ par a])
    with False A(3) run_node_shift [of a y "length ts" par t ts off offs1] show ?thesis
      by (auto simp: is'(2))
  qed
  with step A(1,2) show ?case by (intro exI [of _ A]) auto
qed

lemma expand_loop_arena: "expand_loop n (x\<lparr>x_arena := A\<rparr>) src tokens i ex = expand_loop n x src tokens i ex"
proof (induction n arbitrary: x tokens i ex)
  case (Suc n)
  have f: "expand_function_macro (\<lambda>x' ts. expand_loop n x' src ts 0 []) (x\<lparr>x_arena := A\<rparr>) name tokens i src =
      expand_function_macro (\<lambda>x' ts. expand_loop n x' src ts 0 []) x name tokens i src" for name
  proof -
    have act: "(x\<lparr>x_arena := A\<rparr>)\<lparr>active_macros := active_macros (x\<lparr>x_arena := A\<rparr>) @ [name]\<rparr> =
        (x\<lparr>active_macros := active_macros x @ [name]\<rparr>)\<lparr>x_arena := A\<rparr>" by simp
    show ?thesis unfolding expand_function_macro_def act Suc by simp
  qed
  have d: "is_macro_defined (x\<lparr>x_arena := A\<rparr>) = is_macro_defined x"
    "is_active_macro (x\<lparr>x_arena := A\<rparr>) = is_active_macro x"
    "expand_object_macro (x\<lparr>x_arena := A\<rparr>) = expand_object_macro x"
    by (simp_all add: fun_eq_iff is_macro_defined_def is_active_macro_def expand_object_macro_def)
  show ?case unfolding expand_loop.simps f Suc d ..
qed simp

lemma intern_string_data: "intern_string x s = (off, x') \<Longrightarrow> \<exists>e. string_data x' = string_data x @ e"
  by (auto simp: intern_string_def Let_def split: option.splits)

lemma intern_all_data: "intern_all x src ts = (offs, x') \<Longrightarrow> \<exists>e. string_data x' = string_data x @ e"
proof (induction ts arbitrary: x offs)
  case (Cons t ts)
  then show ?case by (fastforce split: prod.splits dest: intern_string_data)
qed auto

lemma intern_all_strings:
  "interner_inv x \<Longrightarrow> intern_all x src ts = (offs, x') \<Longrightarrow> length (string_data x') < 2 ^ 32 \<Longrightarrow> k < length ts \<Longrightarrow>
   string_at (string_data x') (offs ! k) (extract_token_text (ts ! k) src)"
proof (induction ts arbitrary: x offs k)
  case (Cons t ts)
  obtain off x1 where i: "intern_string x (extract_token_text t src) = (off, x1)" by fastforce
  obtain offs1 where is': "intern_all x1 src ts = (offs1, x')" "offs = off # offs1"
    using Cons.prems(2) i by (auto split: prod.splits)
  obtain e1 e2 where e: "string_data x1 = string_data x @ e1" "string_data x' = string_data x1 @ e2"
    using intern_string_data [OF i] intern_all_data [OF is'(1)] by blast
  from e Cons.prems(3) have "length (string_data x) < 2 ^ 32" by simp
  with interning_fact [OF Cons.prems(1) _ i] have "string_at (string_data x1) off (extract_token_text t src)"
    "interner_inv x1" by auto
  with Cons.IH [OF _ is'(1) Cons.prems(3)] Cons.prems(4) e(2) string_at_append show ?case
    by (cases k) (auto simp: is'(2))
qed simp

text \<open>
  The tree of an expansion. In a reachable arena with room for one node more than the expansion
  has tokens, and with the interned text below 4 GiB, \<open>build_expanded_ast\<close> returns a new root; its
  children are new nodes, one per token of the expansion and in order: each has the kind of its
  token, the root as its parent, the next one as its sibling (the last one none), and as its data
  the offset at which the text of the token is interned. No other node changes.
\<close>

theorem build_expanded_ast_children:
  assumes "arena_reach (x_arena x)" and "ids_small x" and "interner_inv x"
    and "expand_macros fuel x src tokens = Done ts"
    and "node_allocated (x_arena x) + 1 + length ts \<le> node_capacity (x_arena x)"
    and "intern_all x src ts = (offs, xi)" and "length (string_data xi) < 2 ^ 32"
    and "root = node_allocated (x_arena x)"
  shows "\<exists>x'. build_expanded_ast fuel x tokens src = Done (Ret (root, x')) \<and>
    (\<exists>r. arena_get (x_arena x') root = Some r \<and> kind r = 0 \<and>
       first_child r = (if ts = [] then NULL else root + 1)) \<and>
    (\<forall>k < length ts. arena_get (x_arena x') (root + 1 + k) = Some (run_node (root + 1) (length ts) root ts offs k) \<and>
       string_at (string_data x') (offs ! k) (extract_token_text (ts ! k) src)) \<and>
    (\<forall>y. y < root \<longrightarrow> arena_get (x_arena x') y = arena_get (x_arena x) y)"
proof -
  let ?rn = "(cast_node_new 0)\<lparr>flags := IS_VALID\<rparr>"
  have wf: "node_wf ?rn" by (simp add: node_wf_def cast_node_new_def source_unknown_def)
  obtain A where A: "arena_alloc (x_arena x) ?rn = Ret (Some root, A)" "arena_reach A"
    "node_allocated A = root + 1" "node_capacity A = node_capacity (x_arena x)"
    "arena_get A = (arena_get (x_arena x))(root \<mapsto> ?rn)" "root \<noteq> 0"
    using arena_alloc_room [OF assms(1) wf] assms(5,8) by auto
  have r32: "root < 2 ^ 32" using allocated_small [OF assms(1)] assms(8) by simp
  have ia: "intern_all (x\<lparr>x_arena := A\<rparr>) src ts = (offs, xi\<lparr>x_arena := A\<rparr>)"
    by (simp add: intern_all_arena assms(6))
  have xA: "x_arena (x\<lparr>x_arena := A\<rparr>) = A" "ids_small (x\<lparr>x_arena := A\<rparr>)"
    using assms(2) by (simp_all add: ids_small_def)
  have "\<exists>B. attach_tokens (x\<lparr>x_arena := A\<rparr>) src root NULL ts = Ret ((xi\<lparr>x_arena := A\<rparr>)\<lparr>x_arena := B\<rparr>) \<and> arena_reach B \<and>
     (\<forall>y. arena_get B y =
        (if root + 1 \<le> y \<and> y < root + 1 + length ts then Some (run_node (root + 1) (length ts) root ts offs (y - (root + 1)))
         else if ts = [] then arena_get (x_arena (x\<lparr>x_arena := A\<rparr>)) y
         else link_first (arena_get (x_arena (x\<lparr>x_arena := A\<rparr>))) root NULL (root + 1) y))"
    by (rule attach_tokens_spec [OF _ _ wf r32 _ xA(2) _ _ ia])
       (use A assms(5,8) in auto)
  then obtain B where B: "attach_tokens (x\<lparr>x_arena := A\<rparr>) src root NULL ts = Ret ((xi\<lparr>x_arena := A\<rparr>)\<lparr>x_arena := B\<rparr>)"
    "\<forall>y. arena_get B y =
        (if root + 1 \<le> y \<and> y < root + 1 + length ts then Some (run_node (root + 1) (length ts) root ts offs (y - (root + 1)))
         else if ts = [] then arena_get (x_arena (x\<lparr>x_arena := A\<rparr>)) y
         else link_first (arena_get (x_arena (x\<lparr>x_arena := A\<rparr>))) root NULL (root + 1) y)" by blast
  have e: "expand_macros fuel (x\<lparr>x_arena := A\<rparr>) src tokens = Done ts"
    using assms(4) by (simp add: expand_macros_def expand_loop_arena)
  have b: "build_expanded_ast fuel x tokens src = Done (Ret (root, (xi\<lparr>x_arena := A\<rparr>)\<lparr>x_arena := B\<rparr>))"
    by (simp add: build_expanded_ast_def A(1) e B(1))
  have root: "\<exists>r. arena_get B root = Some r \<and> kind r = 0 \<and> first_child r = (if ts = [] then NULL else root + 1)"
    using B(2) A(5) by (auto simp: link_first_def cast_node_new_def)
  have kids: "arena_get B (root + 1 + k) = Some (run_node (root + 1) (length ts) root ts offs k)" if "k < length ts" for k
    using B(2) that by simp
  have old: "arena_get B y = arena_get (x_arena x) y" if "y < root" for y
    using B(2) A(5) that by (auto simp: link_first_def)
  have strs: "string_at (string_data xi) (offs ! k) (extract_token_text (ts ! k) src)" if "k < length ts" for k
    by (rule intern_all_strings [OF assms(3,6,7) that])
  from b root kids old strs show ?thesis
    by (intro exI [of _ "(xi\<lparr>x_arena := A\<rparr>)\<lparr>x_arena := B\<rparr>"]) simp
qed

definition tok_plus :: mtoken where
  "tok_plus = \<lparr>mt_kind = M_Punctuator, mt_offset = 0, mt_length = 1, mt_line = 1, mt_column = 1\<rparr>"

theorem build_expanded_ast_children_witness:
  "\<exists>x'. build_expanded_ast 3 (expander_new arena8) [tok_plus, tok_plus] ''+'' = Done (Ret (1, x')) \<and>
     (\<exists>r. arena_get (x_arena x') 1 = Some r \<and> kind r = 0 \<and> first_child r = 2)"
proof -
  let ?x = "expander_new arena8"
  have e: "expand_macros 3 ?x ''+'' [tok_plus, tok_plus] = Done [tok_plus, tok_plus]"
    using expand_loop_plain [of "[tok_plus, tok_plus]" 0 3 ?x "''+''" "[]"]
    by (simp add: expand_macros_def no_ident_def no_hash_def tok_plus_def)
  obtain offs xi where i: "intern_all ?x ''+'' [tok_plus, tok_plus] = (offs, xi)" by fastforce
  have d: "string_data xi = str_bytes ''+'' @ [0]"
    using i by (auto simp: intern_string_def expander_new_def extract_token_text_def tok_plus_def piece_def
        Let_def)
  have a: "arena_reach (x_arena ?x)" "node_allocated (x_arena ?x) + 1 + length [tok_plus, tok_plus] \<le> node_capacity (x_arena ?x)"
    "1 = node_allocated (x_arena ?x)" "ids_small ?x" "interner_inv ?x"
  proof -
    have xa: "x_arena ?x = arena8" by (simp add: expander_new_def)
    show "arena_reach (x_arena ?x)" unfolding xa by (rule arena8_reach)
    show "node_allocated (x_arena ?x) + 1 + length [tok_plus, tok_plus] \<le> node_capacity (x_arena ?x)"
      "1 = node_allocated (x_arena ?x)" unfolding xa by (simp_all add: arena8_def)
    show "ids_small ?x" "interner_inv ?x" by (simp_all add: expander_new_def ids_small_def interner_inv_def)
  qed
  have l: "length (string_data xi) < 2 ^ 32" by (simp add: d)
  from build_expanded_ast_children [OF a(1,4,5) e a(2) i l a(3)] show ?thesis by auto
qed

section \<open>Dual nodes\<close>

text \<open>A node that keeps its kind, its flags and its data.\<close>

definition same_payload :: "cast_node option \<Rightarrow> cast_node option \<Rightarrow> bool" where
  "same_payload a b \<longleftrightarrow> (\<exists>m n. a = Some m \<and> b = Some n \<and> node_wf n \<and> kind n = kind m \<and> flags n = flags m \<and>
     node_data n = node_data m)"

lemma attach_tokens_payload:
  "arena_reach (x_arena x) \<Longrightarrow> arena_get (x_arena x) par = Some pn \<Longrightarrow> node_wf pn \<Longrightarrow> par < 2 ^ 32 \<Longrightarrow>
   prev = NULL \<or> prev \<noteq> par \<and> (\<exists>qn. arena_get (x_arena x) prev = Some qn \<and> node_wf qn) \<Longrightarrow>
   ids_small x \<Longrightarrow>
   \<exists>x'. attach_tokens x src par prev ts = Ret x' \<and> arena_reach (x_arena x') \<and>
     same_payload (Some pn) (arena_get (x_arena x') par)"
proof (induction ts arbitrary: x pn prev)
  case Nil
  then show ?case by (auto simp: same_payload_def)
next
  case (Cons t ts)
  let ?A = "x_arena x"
  obtain off x1 where i: "intern_string x (extract_token_text t src) = (off, x1)" by fastforce
  have x1: "x_arena x1 = ?A" "off < 2 ^ 32" "ids_small x1"
    using intern_string_fields [OF i] intern_string_small [OF Cons.prems(6) i] by auto
  let ?tn = "token_node t par off"
  have wf: "node_wf ?tn" by (rule token_node_wf [OF Cons.prems(4) x1(2)])
  have small: "ids_small (x1\<lparr>x_arena := B\<rparr>)" for B using x1(3) by (simp add: ids_small_def)
  show ?case
  proof (cases "node_allocated ?A < node_capacity ?A")
    case False
    then have "arena_alloc ?A ?tn = Ret (None, ?A)" by (simp add: arena_alloc_def)
    then have s: "attach_tokens x src par prev (t # ts) = attach_tokens (x1\<lparr>x_arena := ?A\<rparr>) src par prev ts"
      by (simp add: i x1(1))
    show ?thesis unfolding s by (rule Cons.IH) (use Cons.prems small in auto)
  next
    case True
    define a where "a = node_allocated ?A"
    obtain B where B: "arena_alloc ?A ?tn = Ret (Some a, B)" "arena_reach B"
      "arena_get B = (arena_get ?A)(a \<mapsto> ?tn)" "arena_get ?A a = None" "a \<noteq> 0"
      using arena_alloc_room [OF Cons.prems(1) wf True] by (auto simp: a_def)
    have a32: "a < 2 ^ 32" using allocated_small [OF Cons.prems(1)] by (simp add: a_def)
    have pa: "par \<noteq> a" "prev \<noteq> a" using B(4,5) Cons.prems(2,5) by auto
    define C where "C = (if prev = NULL then arena_get_mut B par (\<lambda>n. n\<lparr>first_child := a\<rparr>)
        else arena_get_mut B prev (\<lambda>n. n\<lparr>next_sibling := a\<rparr>))"
    have C: "arena_reach C \<and> arena_get C a = Some ?tn \<and>
      (\<exists>pn'. arena_get C par = Some pn' \<and> node_wf pn' \<and> same_payload (Some pn) (Some pn'))"
    proof (cases "prev = NULL")
      case True
      have g: "arena_get B par = Some pn" using B(3) pa Cons.prems(2) by simp
      have w: "node_wf (pn\<lparr>first_child := a\<rparr>)" using Cons.prems(3) a32 by (simp add: node_wf_def)
      from get_mut_update [where f = "\<lambda>n. n\<lparr>first_child := a\<rparr>", OF B(2) g w] True B(3) pa w
      show ?thesis by (simp add: C_def same_payload_def)
    next
      case False
      with Cons.prems(5) obtain qn where qn: "prev \<noteq> par" "arena_get ?A prev = Some qn" "node_wf qn" by blast
      then have g: "arena_get B prev = Some qn" using B(3) pa by simp
      have w: "node_wf (qn\<lparr>next_sibling := a\<rparr>)" using qn(3) a32 by (simp add: node_wf_def)
      from get_mut_update [where f = "\<lambda>n. n\<lparr>next_sibling := a\<rparr>", OF B(2) g w] False B(3) pa
        Cons.prems(2,3) qn
      show ?thesis by (simp add: C_def same_payload_def)
    qed
    then obtain pn' where pn': "arena_get C par = Some pn'" "node_wf pn'" "same_payload (Some pn) (Some pn')"
      and Ca: "arena_reach C" "arena_get C a = Some ?tn" by blast
    have step: "attach_tokens x src par prev (t # ts) = attach_tokens (x1\<lparr>x_arena := C\<rparr>) src par a ts"
      using B(1,5) by (simp add: i x1(1) C_def Let_def)
    have "\<exists>x'. attach_tokens (x1\<lparr>x_arena := C\<rparr>) src par a ts = Ret x' \<and> arena_reach (x_arena x') \<and>
       same_payload (Some pn') (arena_get (x_arena x') par)"
      by (rule Cons.IH) (use pn' Ca pa wf small Cons.prems(4) in auto)
    with step pn'(3) show ?thesis by (auto simp: same_payload_def)
  qed
qed

text \<open>
  A dual node is not linked back. When \<open>expand_to_dual_node\<close> returns a node for an invocation
  node of the arena, the node has kind 256, its error flag is cleared, and
  \<open>get_invocation_link\<close> on it yields the null offset, not the invocation: the code stores the
  offset of the expansion in the invocation node, but never that of the invocation in the
  expansion.
\<close>

theorem dual_node_link:
  assumes "arena_reach (x_arena x)" and "ids_small x"
    and "arena_get (x_arena x) inv_off = Some inv_node" and "node_wf inv_node"
    and "expand_to_dual_node fuel x inv_off name args src = Done (Ret (off, x'))" and "off \<noteq> NULL"
  shows "get_invocation_link x' off = Some NULL \<and> inv_off \<noteq> NULL \<and>
    (\<exists>n. arena_get (x_arena x') off = Some n \<and> kind n = 256 \<and> flags n = IS_VALID)"
proof -
  let ?en = "(cast_node_new 256)\<lparr>flags := or IS_VALID HAS_ERROR\<rparr>"
  have wf: "node_wf ?en" by (simp add: node_wf_def cast_node_new_def source_unknown_def)
  have room: "node_allocated (x_arena x) < node_capacity (x_arena x)"
    using assms(5,6) by (auto simp: expand_to_dual_node_def arena_alloc_def split: if_splits)
  obtain A where A: "arena_alloc (x_arena x) ?en = Ret (Some (node_allocated (x_arena x)), A)" "arena_reach A"
    "arena_get A = (arena_get (x_arena x))(node_allocated (x_arena x) \<mapsto> ?en)"
    "arena_get (x_arena x) (node_allocated (x_arena x)) = None" "node_allocated (x_arena x) \<noteq> 0"
    using arena_alloc_room [OF assms(1) wf room] by blast
  define e where "e = node_allocated (x_arena x)"
  have e32: "e < 2 ^ 32" using allocated_small [OF assms(1)] by (simp add: e_def)
  have ne: "inv_off \<noteq> e" using A(4) assms(3) by (auto simp: e_def)
  let ?f = "\<lambda>n. n\<lparr>node_data := e, flags := or (flags n) IS_VALID\<rparr>"
  have g: "arena_get A inv_off = Some inv_node" using A(3) assms(3) ne by (simp add: e_def)
  have w: "node_wf (?f inv_node)" using assms(4) e32 by (simp add: node_wf_def)
  define B where "B = arena_get_mut A inv_off ?f"
  have B: "arena_reach B" "arena_get B e = Some ?en"
    using get_mut_update [where f = ?f, OF A(2) g w] ne A(3) by (simp_all add: B_def e_def)
  have "ids_small (x\<lparr>x_arena := B\<rparr>)" using assms(2) by (simp add: ids_small_def)
  from attach_tokens_payload [of "x\<lparr>x_arena := B\<rparr>" e ?en NULL src, OF _ _ wf e32 _ this] B
  have at: "\<exists>x2. attach_tokens (x\<lparr>x_arena := B\<rparr>) src e NULL ts = Ret x2 \<and> arena_reach (x_arena x2) \<and>
      same_payload (Some ?en) (arena_get (x_arena x2) e)" for ts by auto
  from assms(5) obtain ts where "(case attach_tokens (x\<lparr>x_arena := B\<rparr>) src e NULL ts of
                       Ret x2 \<Rightarrow>
                         Ret (e, x2\<lparr>x_arena := arena_get_mut (x_arena x2) e
                                   (\<lambda>n. n\<lparr>flags := and (flags n) (not HAS_ERROR)\<rparr>)\<rparr>)
                     | Panic \<Rightarrow> Panic | Fault \<Rightarrow> Fault) = Ret (off, x')"
    unfolding expand_to_dual_node_def A(1) Let_def B_def e_def by auto
  moreover obtain x2 where 2: "attach_tokens (x\<lparr>x_arena := B\<rparr>) src e NULL ts = Ret x2"
    "arena_reach (x_arena x2)" "same_payload (Some ?en) (arena_get (x_arena x2) e)"
    using at [of ts] by blast
  ultimately have res: "off = e" "x' = x2\<lparr>x_arena := arena_get_mut (x_arena x2) e
                                   (\<lambda>n. n\<lparr>flags := and (flags n) (not HAS_ERROR)\<rparr>)\<rparr>"
    unfolding 2(1) by auto
  from 2(2,3) obtain n where x2: "arena_reach (x_arena x2)" "arena_get (x_arena x2) e = Some n"
    "node_wf n" "kind n = 256" "flags n = or IS_VALID HAS_ERROR" "node_data n = 0"
    by (auto simp: same_payload_def cast_node_new_def)
  have fl: "and (or IS_VALID HAS_ERROR) (not HAS_ERROR) = IS_VALID" by (simp add: IS_VALID_def HAS_ERROR_def)
  have w2: "node_wf (n\<lparr>flags := and (flags n) (not HAS_ERROR)\<rparr>)" using x2(3) by (simp add: node_wf_def)
  have "arena_get (x_arena x') e = Some (n\<lparr>flags := IS_VALID\<rparr>)"
    using get_mut_update(1) [where f = "\<lambda>n. n\<lparr>flags := and (flags n) (not HAS_ERROR)\<rparr>", OF x2(1,2) w2] x2(5) fl
    by (simp add: res)
  moreover have "inv_off \<noteq> NULL" using assms(3) by (cases "inv_off = 0") (simp_all add: arena_get_def)
  ultimately show ?thesis using x2 assms(6) by (simp add: get_invocation_link_def res)
qed

theorem dual_node_link_witness:
  "\<exists>A off x'. arena_reach A \<and>
     expand_to_dual_node 1 (expander_new A) 1 ''M'' None [] = Done (Ret (off, x')) \<and>
     get_invocation_link x' off = Some NULL"
proof -
  have wf: "node_wf (cast_node_new 5)" by (simp add: node_wf_def cast_node_new_def source_unknown_def)
  with arena_holding [of "[cast_node_new 5]"] obtain A where A: "arena_reach A" "node_allocated A = 2"
    "node_capacity A = 8" "\<forall>i. arena_get A i = (if 1 \<le> i \<and> i \<le> 1 then Some ([cast_node_new 5] ! (i - 1)) else None)"
    by (auto simp: numeral_2_eq_2)
  let ?x = "expander_new A"
  have xa: "x_arena ?x = A" by (simp add: expander_new_def)
  have g: "arena_get (x_arena ?x) 1 = Some (cast_node_new 5)" using A(4) by (simp add: xa)
  have wf2: "node_wf ((cast_node_new 256)\<lparr>flags := or IS_VALID HAS_ERROR\<rparr>)"
    by (simp add: node_wf_def cast_node_new_def source_unknown_def)
  obtain B where "arena_alloc A ((cast_node_new 256)\<lparr>flags := or IS_VALID HAS_ERROR\<rparr>) = Ret (Some 2, B)"
    using arena_alloc_room [OF A(1) wf2] A(2,3) by auto
  then have "\<exists>x'. expand_to_dual_node 1 ?x 1 ''M'' None [] = Done (Ret (2, x'))"
    by (simp add: expand_to_dual_node_def xa get_macro_definition_def)
      (simp add: expander_new_def)
  then obtain x' where e: "expand_to_dual_node 1 ?x 1 ''M'' None [] = Done (Ret (2, x'))" by blast
  have r: "arena_reach (x_arena ?x)" "ids_small ?x" "(2 :: nat) \<noteq> NULL"
    using A(1) by (simp_all add: xa) (simp add: ids_small_def expander_new_def)
  from dual_node_link [OF r(1,2) g wf e r(3)] e A(1) show ?thesis by blast
qed

section \<open>Pasting and stringification\<close>

definition in_range :: "mtoken \<Rightarrow> string \<Rightarrow> bool" where
  "in_range t src \<longleftrightarrow> mt_offset t < length src \<and> mt_offset t + mt_length t \<le> length src"

text \<open>
  Pasted tokens lose their text. The token that \<open>##\<close> makes from two tokens of the source keeps
  the offset of the left one and the sum of the lengths; read back from the source it is the
  concatenation of the two texts exactly when the text of the right token already follows the
  left one in the source.
\<close>

theorem pasted_text:
  assumes "in_range l src" and "in_range r src" and "length src < 2 ^ 31"
  shows "extract_token_text (paste_tokens l r src) src = extract_token_text l src @ extract_token_text r src \<longleftrightarrow>
    mt_length r = 0 \<and> mt_length l = 0 \<or>
    piece src (mt_offset l + mt_length l) (mt_offset l + mt_length l + mt_length r) = extract_token_text r src"
proof -
  let ?a = "mt_offset l" and ?b = "mt_offset l + mt_length l"
  let ?c = "mt_offset l + mt_length l + mt_length r"
  have tl: "extract_token_text l src = piece src ?a ?b" "length (extract_token_text l src) = mt_length l"
    using assms(1) by (auto simp: extract_token_text_def in_range_def Let_def)
  have tr: "length (extract_token_text r src) = mt_length r"
    using assms(2) by (auto simp: extract_token_text_def in_range_def Let_def)
  have small: "mt_length l + mt_length r < 2 ^ 32"
    using assms by (simp add: in_range_def)
  have p: "mt_offset (paste_tokens l r src) = ?a" "mt_length (paste_tokens l r src) = mt_length l + mt_length r"
    using small by (simp_all add: paste_tokens_def Let_def tl(2) tr)
  show ?thesis
  proof (cases "?c \<le> length src")
    case True
    have "extract_token_text (paste_tokens l r src) src = piece src ?a ?c"
      using True assms(1) by (simp add: extract_token_text_def p in_range_def add.assoc Let_def)
    also have "\<dots> = piece src ?a ?b @ piece src ?b ?c"
      using True by (intro piece_append [symmetric]) auto
    finally show ?thesis using tl tr by auto
  next
    case False
    then have "extract_token_text (paste_tokens l r src) src = []"
      by (simp add: extract_token_text_def p add.assoc Let_def)
    moreover have "length (piece src ?b ?c) < mt_length r"
      using False assms(1) unfolding piece_def in_range_def by (simp add: min_def) arith
    ultimately show ?thesis using tl(2) tr by auto
  qed
qed

text \<open>In \<open>a b\<close>, pasting the two identifiers yields a token with the text \<open>"a "\<close>.\<close>

theorem pasted_text_witness:
  "extract_token_text (paste_tokens tok_a (tok_a\<lparr>mt_offset := 2\<rparr>) ''a b'') ''a b'' \<noteq>
   extract_token_text tok_a ''a b'' @ extract_token_text (tok_a\<lparr>mt_offset := 2\<rparr>) ''a b''"
  using pasted_text [of tok_a "''a b''" "tok_a\<lparr>mt_offset := 2\<rparr>"]
  by (simp add: in_range_def tok_a_def extract_token_text_def piece_def)

section \<open>The arguments of a call\<close>

text \<open>Tokens with balanced parentheses from depth \<open>d\<close>, and no comma outside them.\<close>

fun arg_ok :: "string \<Rightarrow> nat \<Rightarrow> mtoken list \<Rightarrow> bool" where
  "arg_ok src d [] = (d = 0)"
| "arg_ok src d (t # ts) =
     (let text = extract_token_text t src in
      if text = ''('' then arg_ok src (d + 1) ts
      else if text = '')'' then 0 < d \<and> arg_ok src (d - 1) ts
      else (text = '','' \<longrightarrow> 0 < d) \<and> arg_ok src d ts)"

lemma args_of_call_arg:
  "arg_ok src d as \<Longrightarrow> drop j tokens = as @ rest \<Longrightarrow>
   args_of_call src tokens j d args cur = args_of_call src tokens (j + length as) 0 args (cur @ as)"
proof (induction as arbitrary: d j cur)
  case (Cons t as)
  then have j: "j < length tokens" "tokens ! j = t" "drop (Suc j) tokens = as @ rest"
    using drop_eq_Cons [of j tokens t "as @ rest"] by simp_all
  let ?x = "extract_token_text t src"
  consider "?x = ''(''" "arg_ok src (d + 1) as" | "?x = '')''" "0 < d" "arg_ok src (d - 1) as"
    | "?x \<noteq> ''(''" "?x \<noteq> '')''" "\<not> (?x = '','' \<and> d = 0)" "arg_ok src d as"
    using Cons.prems(1) by (auto simp: Let_def split: if_splits)
  then show ?case
    by cases (auto simp: args_of_call.simps [of src tokens j] j(1,2) Let_def Cons.IH [OF _ j(3)])
qed simp

text \<open>The tokens of an argument list: arguments, commas, and the closing parenthesis.\<close>

fun call_tokens :: "mtoken \<Rightarrow> mtoken \<Rightarrow> mtoken list list \<Rightarrow> mtoken list" where
  "call_tokens comma close [] = [close]"
| "call_tokens comma close [a] = a @ [close]"
| "call_tokens comma close (a # b # as) = a @ comma # call_tokens comma close (b # as)"

lemma args_of_call_list:
  "extract_token_text comma src = '','' \<Longrightarrow> extract_token_text close src = '')'' \<Longrightarrow> as \<noteq> [] \<Longrightarrow> last as \<noteq> [] \<Longrightarrow> \<forall>a \<in> set as. arg_ok src 0 a \<Longrightarrow> drop j tokens = call_tokens comma close as @ rest \<Longrightarrow>
    args_of_call src tokens j 0 args [] = (args @ as, j + length (call_tokens comma close as) - 1)"
proof (induction comma close as arbitrary: j args rule: call_tokens.induct)
  case (2 comma close a)
  then have at: "drop (j + length a) tokens = close # rest"
    using drop_eq_append [of j tokens a "close # rest"] by simp
  note c = drop_eq_Cons [OF at]
  have "args_of_call src tokens j 0 args [] = args_of_call src tokens (j + length a) 0 args a"
    using args_of_call_arg [of src 0 a j tokens "close # rest" args "[]"] "2.prems" by simp
  also have "\<dots> = (args @ [a], j + length a)"
    using c "2.prems" by (subst args_of_call.simps) (simp add: Let_def)
  finally show ?case by simp
next
  case (3 comma close a b as)
  let ?r = "call_tokens comma close (b # as) @ rest"
  have at: "drop (j + length a) tokens = comma # ?r"
    using drop_eq_append [of j tokens a "comma # ?r"] "3.prems"(6) by simp
  note c = drop_eq_Cons [OF at]
  have "args_of_call src tokens j 0 args [] = args_of_call src tokens (j + length a) 0 args a"
    using args_of_call_arg [of src 0 a j tokens "comma # ?r" args "[]"] "3.prems" by simp
  also have "\<dots> = args_of_call src tokens (j + length a + 1) 0 (args @ [a]) []"
    using c "3.prems"(1,2) by (subst args_of_call.simps) (simp add: Let_def)
  also have "\<dots> = (args @ a # b # as, j + length a + 1 + length (call_tokens comma close (b # as)) - 1)"
    using "3.IH" [of "j + length a + 1" "args @ [a]"] "3.prems" c by simp
  finally show ?case by simp
qed simp

text \<open>
  The arguments of a call. After the opening parenthesis of a call whose arguments have
  balanced parentheses and no comma outside them, the last one not empty, the argument loop
  returns exactly these arguments, in order, and the position of the closing parenthesis.
\<close>

theorem call_arguments_parsed:
  assumes "extract_token_text comma src = '',''" and "extract_token_text close src = '')''"
    and "as \<noteq> []" and "last as \<noteq> []" and "\<forall>a \<in> set as. arg_ok src 0 a"
    and "drop j tokens = call_tokens comma close as @ rest"
  shows "\<exists>k. args_of_call src tokens j 0 [] [] = (as, k) \<and> k < length tokens \<and> tokens ! k = close"
proof -
  let ?c = "call_tokens comma close as"
  have ne: "?c \<noteq> [] \<and> last ?c = close" by (induction comma close as rule: call_tokens.induct) auto
  then have at: "drop (j + (length ?c - 1)) tokens = close # rest"
    using drop_eq_append [of j tokens "butlast ?c" "close # rest"] assms(6)
    by (metis append.assoc append_Cons append_Nil append_butlast_last_id length_butlast)
  have "j + length ?c - 1 = j + (length ?c - 1)" using ne by (cases ?c) auto
  with args_of_call_list [OF assms, of "[]"] drop_eq_Cons [OF at] show ?thesis by simp
qed

theorem call_arguments_parsed_witness:
  "\<exists>k. args_of_call ''(,)x'' [tok_a\<lparr>mt_offset := 3\<rparr>, tok_a\<lparr>mt_offset := 1\<rparr>, tok_a\<lparr>mt_offset := 3\<rparr>, tok_a\<lparr>mt_offset := 2\<rparr>]
      0 0 [] [] = ([[tok_a\<lparr>mt_offset := 3\<rparr>], [tok_a\<lparr>mt_offset := 3\<rparr>]], k) \<and> k < 4"
  using call_arguments_parsed [of "tok_a\<lparr>mt_offset := 1\<rparr>" "''(,)x''" "tok_a\<lparr>mt_offset := 2\<rparr>"
      "[[tok_a\<lparr>mt_offset := 3\<rparr>], [tok_a\<lparr>mt_offset := 3\<rparr>]]" 0
      "[tok_a\<lparr>mt_offset := 3\<rparr>, tok_a\<lparr>mt_offset := 1\<rparr>, tok_a\<lparr>mt_offset := 3\<rparr>, tok_a\<lparr>mt_offset := 2\<rparr>]" "[]"]
  by (fastforce simp: extract_token_text_def tok_a_def piece_def)

end
