(* ===== verification/MacroLexer.thy ===== *)
theory MacroLexer
  imports MacroExpander
begin

text \<open>
  The second lexer of \<open>src/src/frontend/macro_expander.rs\<close>, which makes the tokens of the macro
  expander. Each round of \<open>tokenize\<close> is one \<open>mlex_step\<close>.

  As in \<open>MacroExpander\<close> the source is ASCII: \<open>chars().nth(offset)\<close> is then the byte at \<open>offset\<close>.
  The \<open>u32\<close> counters are unbounded; \<open>tokens_tile_source\<close> shows that the offset, which bounds line
  and column too, stays within the source.
\<close>

section \<open>The lexer\<close>

record mlexer =
  ml_source :: string
  ml_offset :: u32
  ml_line :: u32
  ml_column :: u32

definition mlexer_new :: "string \<Rightarrow> mlexer" where
  "mlexer_new src = \<lparr>ml_source = src, ml_offset = 0, ml_line = 1, ml_column = 1\<rparr>"

definition ml_current :: "mlexer \<Rightarrow> char" where
  "ml_current lx = (case byte_at (ml_source lx) (ml_offset lx) of Some c \<Rightarrow> c | None \<Rightarrow> CHR 0x00)"

definition ml_peek :: "mlexer \<Rightarrow> char option" where
  "ml_peek lx = byte_at (ml_source lx) (ml_offset lx + 1)"

definition ml_advance :: "mlexer \<Rightarrow> mlexer" where
  "ml_advance lx = lx\<lparr>ml_offset := ml_offset lx + 1, ml_column := ml_column lx + 1\<rparr>"

definition ml_newline :: "mlexer \<Rightarrow> mlexer" where
  "ml_newline lx = lx\<lparr>ml_offset := ml_offset lx + 1, ml_line := ml_line lx + 1, ml_column := 1\<rparr>"

definition ml_token :: "mt_kind \<Rightarrow> u32 \<Rightarrow> u32 \<Rightarrow> mlexer \<Rightarrow> mtoken" where
  "ml_token k off len lx =
     \<lparr>mt_kind = k, mt_offset = off, mt_length = len, mt_line = ml_line lx, mt_column = ml_column lx\<rparr>"

definition ml_make_token :: "mt_kind \<Rightarrow> mlexer \<Rightarrow> mtoken" where
  "ml_make_token k lx = ml_token k (ml_offset lx) 1 lx"

text \<open>The loop over a string literal after its opening quote.\<close>

function ml_quoted :: "mlexer \<Rightarrow> mlexer" where
  "ml_quoted lx =
     (if ml_offset lx < length (ml_source lx) \<and> ml_current lx \<noteq> CHR 0x22 then
        ml_quoted (ml_advance
          (if ml_current lx = CHR 0x5C \<and> ml_peek lx = Some (CHR 0x22) then ml_advance lx else lx))
      else lx)"
  by pat_completeness auto
termination
  by (relation "measure (\<lambda>lx. length (ml_source lx) - ml_offset lx)") (auto simp: ml_advance_def)

declare ml_quoted.simps [simp del]

text \<open>The loops that advance while the current character satisfies a test.\<close>

function ml_skip :: "(char \<Rightarrow> bool) \<Rightarrow> mlexer \<Rightarrow> mlexer" where
  "ml_skip p lx =
     (if ml_offset lx < length (ml_source lx) \<and> p (ml_current lx) then ml_skip p (ml_advance lx) else lx)"
  by pat_completeness auto
termination
  by (relation "measure (\<lambda>(p, lx). length (ml_source lx) - ml_offset lx)") (auto simp: ml_advance_def)

declare ml_skip.simps [simp del]

definition ml_ident_char :: "char \<Rightarrow> bool" where
  "ml_ident_char c \<longleftrightarrow> is_alpha c \<or> is_digit c \<or> c = CHR ''_''"

definition ml_number_char :: "char \<Rightarrow> bool" where
  "ml_number_char c \<longleftrightarrow> is_digit c \<or> c \<in> set ''.eExX''"

text \<open>\<open>char::is_whitespace\<close> on ASCII.\<close>

definition ml_whitespace :: "char \<Rightarrow> bool" where
  "ml_whitespace c \<longleftrightarrow> 9 \<le> ord c \<and> ord c \<le> 13 \<or> ord c = 32"

definition ml_punctuators :: "string list" where
  "ml_punctuators =
     [''=='', ''!='', ''<='', ''>='', ''&&'', ''||'', ''<<'', ''>>'', ''->'', ''++'', ''--'', ''+='',
      ''-='', ''*='', ''/='', ''++'', ''--'']"

text \<open>One round of the loop of \<open>tokenize\<close>: the tokens it pushes and the state it leaves.\<close>

definition mlex_step :: "mlexer \<Rightarrow> mtoken list \<times> mlexer" where
  "mlex_step lx =
     (let c = ml_current lx; start = ml_offset lx in
      if c \<in> {CHR 0x20, CHR 0x09, CHR 0x0D} then ([ml_make_token M_Whitespace lx], ml_advance lx)
      else if c = CHR 0x0A then ([ml_make_token M_Whitespace lx], ml_newline lx)
      else if c = CHR ''#'' then
        (if ml_peek lx = Some (CHR ''#'')
         then ([ml_token M_HashHash start 2 lx], ml_advance (ml_advance lx))
         else ([ml_make_token M_Hash lx], ml_advance lx))
      else if c = CHR 0x22 then
        let lx1 = ml_quoted (ml_advance lx);
            lx2 = (if ml_current lx1 = CHR 0x22 then ml_advance lx1 else lx1)
        in ([ml_token M_StringLiteral start (ml_offset lx2 - start) lx2], lx2)
      else if is_alpha c \<or> c = CHR ''_'' then
        let lx1 = ml_skip ml_ident_char lx
        in ([ml_token M_Identifier start (ml_offset lx1 - start) lx1], lx1)
      else if is_digit c then
        let lx1 = ml_skip ml_number_char lx
        in ([ml_token M_Number start (ml_offset lx1 - start) lx1], lx1)
      else
        (case find (\<lambda>p. starts_with p (drop start (ml_source lx))) ml_punctuators of
           Some p \<Rightarrow> ([ml_token M_Punctuator start (length p) lx], (ml_advance ^^ length p) lx)
         | None \<Rightarrow>
             let lx1 = ml_advance lx
             in (if \<not> ml_whitespace c
                 then [\<lparr>mt_kind = M_Punctuator, mt_offset = ml_offset lx1 - 1, mt_length = 1,
                        mt_line = ml_line lx1, mt_column = ml_column lx1 - 1\<rparr>]
                 else [], lx1)))"

text \<open>Moving to position \<open>j\<close> within a line.\<close>

definition ml_goto :: "mlexer \<Rightarrow> nat \<Rightarrow> mlexer" where
  "ml_goto lx j = lx\<lparr>ml_offset := j, ml_column := ml_column lx + (j - ml_offset lx)\<rparr>"

lemma ml_goto_simps [simp]:
  "ml_source (ml_goto lx j) = ml_source lx" "ml_offset (ml_goto lx j) = j"
  "ml_line (ml_goto lx j) = ml_line lx" "ml_column (ml_goto lx j) = ml_column lx + (j - ml_offset lx)"
  by (simp_all add: ml_goto_def)

lemma ml_advance_goto: "ml_advance lx = ml_goto lx (ml_offset lx + 1)"
  by (simp add: ml_advance_def ml_goto_def)

lemma ml_goto_goto: "ml_offset lx \<le> i \<Longrightarrow> i \<le> j \<Longrightarrow> ml_goto (ml_goto lx i) j = ml_goto lx j"
  by (simp add: ml_goto_def)

lemma ml_goto_self [simp]: "ml_goto lx (ml_offset lx) = lx"
  by (simp add: ml_goto_def)

lemma ml_advance_funpow: "(ml_advance ^^ n) lx = ml_goto lx (ml_offset lx + n)"
proof (induction n)
  case (Suc n)
  then show ?case by (simp add: ml_advance_goto ml_goto_goto)
qed simp

lemma ml_current_nth: "ml_offset lx < length (ml_source lx) \<Longrightarrow> ml_current lx = ml_source lx ! ml_offset lx"
  by (simp add: ml_current_def byte_at_def)

lemma ml_skip_goto: "ml_skip p lx = ml_goto lx (advance_while p (ml_source lx) (ml_offset lx))"
proof (induction p lx rule: ml_skip.induct)
  case (1 p lx)
  let ?i = "ml_offset lx" and ?s = "ml_source lx"
  show ?case
  proof (cases "?i < length ?s \<and> p (?s ! ?i)")
    case True
    then have c: "ml_current lx = ?s ! ?i" by (simp add: ml_current_nth)
    with True have "ml_skip p lx = ml_skip p (ml_advance lx)" by (simp add: ml_skip.simps [of p lx])
    also have "\<dots> = ml_goto (ml_goto lx (?i + 1)) (advance_while p ?s (?i + 1))"
      using 1 True c by (simp add: ml_advance_goto)
    also have "\<dots> = ml_goto lx (advance_while p ?s (?i + 1))"
      by (rule ml_goto_goto) (use advance_while_ge [of "?i + 1" p ?s] in auto)
    finally show ?thesis using True by (simp add: advance_while.simps [of p ?s ?i] byte_at_def)
  next
    case False
    then have "ml_skip p lx = lx" by (auto simp: ml_skip.simps [of p lx] ml_current_nth)
    moreover from False have "advance_while p ?s ?i = ?i"
      by (auto simp: advance_while.simps [of p ?s ?i] byte_at_def)
    ultimately show ?thesis by simp
  qed
qed

lemma ml_quoted_spec:
  "ml_offset lx \<le> length (ml_source lx) \<Longrightarrow>
   ml_source (ml_quoted lx) = ml_source lx \<and> ml_line (ml_quoted lx) = ml_line lx \<and>
   ml_offset lx \<le> ml_offset (ml_quoted lx) \<and> ml_offset (ml_quoted lx) \<le> length (ml_source lx)"
proof (induction lx rule: ml_quoted.induct)
  case (1 lx)
  show ?case
  proof (cases "ml_offset lx < length (ml_source lx) \<and> ml_current lx \<noteq> CHR 0x22")
    case True
    let ?l = "ml_advance (if ml_current lx = CHR 0x5C \<and> ml_peek lx = Some (CHR 0x22) then ml_advance lx else lx)"
    have l: "ml_source ?l = ml_source lx" "ml_line ?l = ml_line lx" "ml_offset lx < ml_offset ?l"
      "ml_offset ?l \<le> length (ml_source lx)"
      using True by (auto simp: ml_advance_goto ml_peek_def byte_at_def split: if_splits)
    with 1 True have "ml_source (ml_quoted ?l) = ml_source ?l \<and> ml_line (ml_quoted ?l) = ml_line ?l \<and>
      ml_offset ?l \<le> ml_offset (ml_quoted ?l) \<and> ml_offset (ml_quoted ?l) \<le> length (ml_source ?l)"
      by simp
    with l True show ?thesis by (simp add: ml_quoted.simps [of lx])
  qed (use 1 in \<open>auto simp: ml_quoted.simps [of lx]\<close>)
qed

section \<open>One round\<close>

text \<open>What the first character of a round decides.\<close>

definition first_kind :: "char \<Rightarrow> char option \<Rightarrow> mt_kind" where
  "first_kind c d =
     (if c \<in> {CHR 0x20, CHR 0x09, CHR 0x0D, CHR 0x0A} then M_Whitespace
      else if c = CHR ''#'' then (if d = Some (CHR ''#'') then M_HashHash else M_Hash)
      else if c = CHR 0x22 then M_StringLiteral
      else if is_alpha c \<or> c = CHR ''_'' then M_Identifier
      else if is_digit c then M_Number
      else M_Punctuator)"

definition is_feed :: "char \<Rightarrow> bool" where
  "is_feed c \<longleftrightarrow> c = CHR 0x0B \<or> c = CHR 0x0C"

lemma char_eq_ord: "(c :: char) = d \<longleftrightarrow> ord c = (ord d :: nat)"
  by (simp add: of_char_eq_iff)

lemma is_feed_iff:
  "is_feed c \<longleftrightarrow> ml_whitespace c \<and> c \<notin> {CHR 0x20, CHR 0x09, CHR 0x0D, CHR 0x0A}"
  by (auto simp: is_feed_def ml_whitespace_def char_eq_ord)

lemma ml_punctuators_length: "p \<in> set ml_punctuators \<Longrightarrow> length p = 2"
  by (auto simp: ml_punctuators_def)

lemma starts_with_length: "starts_with p (drop i s) \<Longrightarrow> p \<noteq> [] \<Longrightarrow> i + length p \<le> length s"
proof -
  assume "starts_with p (drop i s)" "p \<noteq> []"
  then have "length (take (length p) (drop i s)) = length p" by (simp add: starts_with_def)
  with \<open>p \<noteq> []\<close> show ?thesis by (cases p) (simp_all add: min_def split: if_splits)
qed

text \<open>
  A round that does not start at a quote: how far it goes, without passing a line feed other than
  the first character, and the token it makes.
\<close>

definition plain_round :: "mlexer \<Rightarrow> mtoken list \<Rightarrow> mlexer \<Rightarrow> bool" where
  "plain_round lx ts lx' \<longleftrightarrow>
     (let s = ml_source lx; i = ml_offset lx; j = ml_offset lx'; k = first_kind (s ! i) (ml_peek lx) in
      i < j \<and> j \<le> length s \<and> (\<forall>n. i < n \<and> n < j \<longrightarrow> s ! n \<noteq> CHR 0x0A) \<and>
      lx' = (if s ! i = CHR 0x0A then ml_newline lx else ml_goto lx j) \<and>
      ts = (if is_feed (s ! i) then [] else
        [\<lparr>mt_kind = k, mt_offset = i, mt_length = j - i, mt_line = ml_line lx,
          mt_column = ml_column lx + (if k \<in> {M_Identifier, M_Number} then j - i else 0)\<rparr>]))"

lemma goto_round:
  assumes "i = ml_offset lx" "s = ml_source lx" and "i < j" "j \<le> length s" and "\<And>n. i < n \<Longrightarrow> n < j \<Longrightarrow> s ! n \<noteq> CHR 0x0A"
    and "s ! i \<noteq> CHR 0x0A" and "\<not> is_feed (s ! i)" and "k = first_kind (s ! i) (ml_peek lx)"
    and "t = \<lparr>mt_kind = k, mt_offset = i, mt_length = j - i, mt_line = ml_line lx,
          mt_column = ml_column lx + (if k \<in> {M_Identifier, M_Number} then j - i else 0)\<rparr>"
  shows "plain_round lx [t] (ml_goto lx j)"
  using assms by (simp add: plain_round_def Let_def)

lemma skip_round:
  assumes lt: "ml_offset lx < length (ml_source lx)" and p: "p (ml_source lx ! ml_offset lx)"
    and nl: "\<not> p (CHR 0x0A)" and nf: "\<not> is_feed (ml_source lx ! ml_offset lx)"
    and k: "k = first_kind (ml_source lx ! ml_offset lx) (ml_peek lx)" "k \<in> {M_Identifier, M_Number}"
  shows "plain_round lx [ml_token k (ml_offset lx) (ml_offset (ml_skip p lx) - ml_offset lx) (ml_skip p lx)] (ml_skip p lx)"
  unfolding ml_skip_goto
proof (rule goto_round [OF refl refl _ _ _ _ nf k(1)])
  let ?j = "advance_while p (ml_source lx) (ml_offset lx)"
  show "ml_offset lx < ?j" by (rule advance_while_step [of _ _ p, OF lt p])
  show "?j \<le> length (ml_source lx)" using lt by (intro advance_while_le) simp
  show "ml_source lx ! n \<noteq> CHR 0x0A" if "ml_offset lx < n" "n < ?j" for n
    using advance_while_all [of "ml_offset lx" n p "ml_source lx"] that nl by auto
  show "ml_source lx ! ml_offset lx \<noteq> CHR 0x0A" using p nl by auto
qed (use k(2) in \<open>simp add: ml_token_def\<close>)

lemma other_round:
  assumes lt: "ml_offset lx < length (ml_source lx)" and q: "ml_source lx ! ml_offset lx \<noteq> CHR 0x22"
    and o: "ml_source lx ! ml_offset lx \<notin> {CHR 0x20, CHR 0x09, CHR 0x0D, CHR 0x0A}"
      "ml_source lx ! ml_offset lx \<noteq> CHR ''#''" "ml_source lx ! ml_offset lx \<noteq> CHR ''_''"
      "\<not> is_alpha (ml_source lx ! ml_offset lx)" "\<not> is_digit (ml_source lx ! ml_offset lx)"
  shows "plain_round lx (fst (mlex_step lx)) (snd (mlex_step lx))"
proof -
  let ?s = "ml_source lx" and ?i = "ml_offset lx"
  let ?find = "find (\<lambda>p. starts_with p (drop ?i ?s)) ml_punctuators"
  have c: "ml_current lx = ?s ! ?i" using lt by (rule ml_current_nth)
  have k: "first_kind (?s ! ?i) (ml_peek lx) = M_Punctuator" using q o by (auto simp: first_kind_def)
  show ?thesis
  proof (cases ?find)
    case None
    then have "snd (mlex_step lx) = ml_goto lx (?i + 1)"
      using q o by (simp add: mlex_step_def c Let_def ml_advance_goto)
    then show ?thesis
      using None q o k lt by (auto simp: plain_round_def mlex_step_def c Let_def ml_advance_goto is_feed_iff)
  next
    case (Some p)
    then have p: "p \<in> set ml_punctuators" "starts_with p (drop ?i ?s)" by (auto simp: find_Some_iff)
    then have len: "length p = 2" "?i + 2 \<le> length ?s"
      using ml_punctuators_length [of p] starts_with_length [of p ?i ?s] by (cases p; fastforce)+
    have "mlex_step lx = ([ml_token M_Punctuator ?i 2 lx], ml_goto lx (?i + 2))"
      using Some q o by (simp add: mlex_step_def c Let_def ml_advance_funpow len)
    moreover have "take 2 (drop ?i ?s) = p" using p len by (simp add: starts_with_def)
    then have "p = [?s ! ?i, ?s ! (?i + 1)]"
      using len by (auto simp: list_eq_iff_nth_eq less_2_cases_iff)
    with p(1) have n: "?s ! (?i + 1) \<noteq> CHR 0x0A" and "\<not> is_feed (?s ! ?i)"
      by (auto simp: ml_punctuators_def is_feed_def)
    moreover have "?s ! n \<noteq> CHR 0x0A" if "?i < n" "n < ?i + 2" for n
      using that n by (cases "n = ?i + 1") auto
    ultimately show ?thesis
      using len k o by (auto simp: ml_token_def intro!: goto_round)
  qed
qed

lemma mlex_step_plain:
  assumes lt: "ml_offset lx < length (ml_source lx)" and q: "ml_source lx ! ml_offset lx \<noteq> CHR 0x22"
  shows "plain_round lx (fst (mlex_step lx)) (snd (mlex_step lx))"
proof -
  let ?s = "ml_source lx" and ?i = "ml_offset lx"
  let ?c = "?s ! ?i"
  have c: "ml_current lx = ?c" using lt by (rule ml_current_nth)
  consider (space) "?c \<in> {CHR 0x20, CHR 0x09, CHR 0x0D}" | (nl) "?c = CHR 0x0A"
    | (hash) "?c = CHR ''#''" "ml_peek lx \<noteq> Some (CHR ''#'')"
    | (hashhash) "?c = CHR ''#''" "ml_peek lx = Some (CHR ''#'')"
    | (ident) "is_alpha ?c \<or> ?c = CHR ''_''"
    | (digit) "is_digit ?c" "\<not> is_alpha ?c"
    | (other) "?c \<notin> {CHR 0x20, CHR 0x09, CHR 0x0D, CHR 0x0A}" "?c \<noteq> CHR ''#''" "?c \<noteq> CHR ''_''"
        "\<not> is_alpha ?c" "\<not> is_digit ?c"
    by blast
  then show ?thesis
  proof cases
    case space
    then have "mlex_step lx = ([ml_make_token M_Whitespace lx], ml_goto lx (?i + 1))"
      by (simp add: mlex_step_def c Let_def ml_advance_goto)
    then show ?thesis
      using lt space by (auto simp: ml_make_token_def ml_token_def first_kind_def is_feed_def intro!: goto_round)
  next
    case nl
    then show ?thesis
      using lt by (auto simp: mlex_step_def c Let_def plain_round_def ml_newline_def ml_make_token_def ml_token_def
          first_kind_def is_feed_def)
  next
    case hash
    then have "mlex_step lx = ([ml_make_token M_Hash lx], ml_goto lx (?i + 1))"
      by (simp add: mlex_step_def c Let_def ml_advance_goto)
    then show ?thesis
      using lt hash by (auto simp: ml_make_token_def ml_token_def first_kind_def is_feed_def intro!: goto_round)
  next
    case hashhash
    then have "mlex_step lx = ([ml_token M_HashHash ?i 2 lx], ml_goto lx (?i + 2))"
      by (simp add: mlex_step_def c Let_def ml_advance_goto ml_goto_goto)
    moreover have "?i + 2 \<le> length ?s" and n: "?s ! (?i + 1) = CHR ''#''"
      using hashhash(2) by (auto simp: ml_peek_def byte_at_Some)
    moreover have "?s ! n \<noteq> CHR 0x0A" if "?i < n" "n < ?i + 2" for n
      using that n by (cases "n = ?i + 1") auto
    ultimately show ?thesis
      using hashhash by (auto simp: ml_token_def first_kind_def is_feed_def intro!: goto_round)
  next
    case ident
    then have o: "97 \<le> ord ?c \<and> ord ?c \<le> 122 \<or> 65 \<le> ord ?c \<and> ord ?c \<le> 90 \<or> ord ?c = 95"
      by (auto simp: is_alpha_def)
    then have k: "first_kind ?c (ml_peek lx) = M_Identifier" and nf: "\<not> is_feed ?c"
      using ident by (auto simp: first_kind_def is_feed_def char_eq_ord)
    from o ident have "mlex_step lx = ([ml_token M_Identifier ?i (ml_offset (ml_skip ml_ident_char lx) - ?i)
        (ml_skip ml_ident_char lx)], ml_skip ml_ident_char lx)"
      by (auto simp: mlex_step_def c Let_def char_eq_ord)
    moreover have "ml_ident_char ?c" using ident by (auto simp: ml_ident_char_def)
    ultimately show ?thesis
      using skip_round [of lx ml_ident_char M_Identifier] lt k nf
      by (simp add: ml_ident_char_def is_alpha_def is_digit_def)
  next
    case digit
    then have o: "48 \<le> ord ?c \<and> ord ?c \<le> 57" by (auto simp: is_digit_def)
    then have k: "first_kind ?c (ml_peek lx) = M_Number" and nf: "\<not> is_feed ?c"
      using digit by (auto simp: first_kind_def is_feed_def char_eq_ord)
    from o digit have "mlex_step lx = ([ml_token M_Number ?i (ml_offset (ml_skip ml_number_char lx) - ?i)
        (ml_skip ml_number_char lx)], ml_skip ml_number_char lx)"
      by (auto simp: mlex_step_def c Let_def char_eq_ord)
    moreover have "ml_number_char ?c" using digit by (auto simp: ml_number_char_def)
    ultimately show ?thesis
      using skip_round [of lx ml_number_char M_Number] lt k nf
      by (simp add: ml_number_char_def is_digit_def)
  next
    case other
    then show ?thesis using other_round [OF lt q] by blast
  qed
qed

lemma starts_with_hd: "starts_with p (drop i s) \<Longrightarrow> i < length s \<Longrightarrow> p \<noteq> [] \<Longrightarrow> s ! i = hd p"
  by (cases p) (auto simp: starts_with_def Cons_nth_drop_Suc [symmetric])

lemma ml_punctuators_hd: "p \<in> set ml_punctuators \<Longrightarrow> p \<noteq> [] \<and> \<not> is_feed (hd p)"
  by (auto simp: ml_punctuators_def is_feed_def)

lemma ml_newline_source: "ml_source (ml_newline lx) = ml_source lx"
  by (simp add: ml_newline_def)

lemma feed_not_other:
  assumes "is_feed c"
  shows "c \<notin> {CHR 0x20, CHR 0x09, CHR 0x0D}" "c \<noteq> CHR 0x0A" "c \<noteq> CHR ''#''" "c \<noteq> CHR 0x22" "c \<noteq> CHR ''_''"
    "\<not> is_alpha c" "\<not> is_digit c" "ml_whitespace c"
  using assms by (auto simp: is_feed_def is_alpha_def is_digit_def ml_whitespace_def)

text \<open>What every round does.\<close>

lemma mlex_step_spec:
  assumes lt: "ml_offset lx < length (ml_source lx)" and st: "mlex_step lx = (ts, lx')"
  shows "ml_source lx' = ml_source lx \<and> ml_offset lx < ml_offset lx' \<and> ml_offset lx' \<le> length (ml_source lx) \<and>
    (if is_feed (ml_source lx ! ml_offset lx) then ts = [] \<and> ml_offset lx' = ml_offset lx + 1
     else \<exists>t. ts = [t] \<and> mt_offset t = ml_offset lx \<and> mt_length t = ml_offset lx' - ml_offset lx \<and>
       mt_kind t = first_kind (ml_source lx ! ml_offset lx) (ml_peek lx))"
proof (cases "ml_source lx ! ml_offset lx = CHR 0x22")
  case True
  let ?a = "ml_advance lx"
  let ?q = "ml_quoted ?a"
  let ?e = "if ml_current ?q = CHR 0x22 then ml_advance ?q else ?q"
  have q: "ml_source ?q = ml_source lx" "ml_offset lx < ml_offset ?q" "ml_offset ?q \<le> length (ml_source lx)"
    using ml_quoted_spec [of ?a] lt by (auto simp: ml_advance_goto)
  then have "ml_current ?q = CHR 0x22 \<Longrightarrow> ml_offset ?q < length (ml_source lx)"
    by (auto simp: ml_current_def byte_at_def split: if_splits)
  moreover have "mlex_step lx = ([ml_token M_StringLiteral (ml_offset lx) (ml_offset ?e - ml_offset lx) ?e], ?e)"
    using True lt by (simp add: mlex_step_def ml_current_nth Let_def)
  ultimately show ?thesis
    using q st True by (auto simp: ml_token_def first_kind_def is_feed_def ml_advance_goto)
next
  case False
  from mlex_step_plain [OF lt False] st have p: "plain_round lx ts lx'" by simp
  have s: "ml_source lx' = ml_source lx"
  proof -
    from p have "lx' = (if ml_source lx ! ml_offset lx = CHR 0x0A then ml_newline lx else ml_goto lx (ml_offset lx'))"
      by (simp add: plain_round_def Let_def)
    then show ?thesis by (metis ml_goto_simps(1) ml_newline_source)
  qed
  have "ml_offset lx' = ml_offset lx + 1" if f: "is_feed (ml_source lx ! ml_offset lx)"
  proof -
    from f have "fst (mlex_step lx) = [] \<and> snd (mlex_step lx) = ml_advance lx"
    proof -
      have c: "ml_current lx = ml_source lx ! ml_offset lx" using lt by (rule ml_current_nth)
      have "find (\<lambda>p. starts_with p (drop (ml_offset lx) (ml_source lx))) ml_punctuators = None"
        using f starts_with_hd [OF _ lt] ml_punctuators_hd by (fastforce simp: find_None_iff)
      then show ?thesis
        using feed_not_other [OF f] by (simp add: mlex_step_def c Let_def)
    qed
    with st show ?thesis by (simp add: ml_advance_goto)
  qed
  with p s show ?thesis by (auto simp: plain_round_def Let_def split: if_splits)
qed

section \<open>The whole source\<close>

function mlex_loop :: "mlexer \<Rightarrow> mtoken list" where
  "mlex_loop lx =
     (if ml_offset lx < length (ml_source lx) then
        case mlex_step lx of (ts, lx') \<Rightarrow> ts @ mlex_loop lx'
      else [ml_token M_EndOfFile (ml_offset lx) 0 lx])"
  by pat_completeness auto
termination
  by (relation "measure (\<lambda>lx. length (ml_source lx) - ml_offset lx)")
     (auto dest!: sym [of _ "mlex_step _"] mlex_step_spec)

declare mlex_loop.simps [simp del]

definition tokenize :: "string \<Rightarrow> mtoken list" where
  "tokenize src = mlex_loop (mlexer_new src)"

text \<open>
  \<open>tiles s i ts\<close>: from position \<open>i\<close> on, \<open>s\<close> is made of the tokens, in order and none empty, with
  nothing but vertical tabs and form feeds between them, and an end-of-file token at its end.
\<close>

fun tiles :: "string \<Rightarrow> nat \<Rightarrow> mtoken list \<Rightarrow> bool" where
  "tiles s i [] = False"
| "tiles s i (t # ts) =
     (i \<le> mt_offset t \<and> mt_offset t + mt_length t \<le> length s \<and> (\<forall>c \<in> set (piece s i (mt_offset t)). is_feed c) \<and>
      (if mt_kind t = M_EndOfFile then ts = [] \<and> mt_offset t = length s
       else mt_length t > 0 \<and> tiles s (mt_offset t + mt_length t) ts \<and>
         mt_kind t = first_kind (s ! mt_offset t) (byte_at s (mt_offset t + 1))))"

lemma first_kind_not_eof: "first_kind c d \<noteq> M_EndOfFile"
  by (simp add: first_kind_def)

lemma tiles_skip:
  assumes "tiles s (i + 1) ts" and "i < length s" and "is_feed (s ! i)"
  shows "tiles s i ts"
proof (cases ts)
  case (Cons t r)
  with assms have le: "i + 1 \<le> mt_offset t" "mt_offset t \<le> length s" by auto
  have "piece s i (mt_offset t) = piece s i (i + 1) @ piece s (i + 1) (mt_offset t)"
    by (rule piece_append [symmetric]) (use le in auto)
  moreover have "piece s i (i + 1) = [s ! i]"
    using assms(2) by (simp add: piece_def Cons_nth_drop_Suc [symmetric])
  ultimately show ?thesis using Cons assms by auto
qed (use assms in simp)

lemma mlex_loop_tiles: "ml_offset lx \<le> length (ml_source lx) \<Longrightarrow> tiles (ml_source lx) (ml_offset lx) (mlex_loop lx)"
proof (induction lx rule: mlex_loop.induct)
  case (1 lx)
  let ?s = "ml_source lx" and ?i = "ml_offset lx"
  show ?case
  proof (cases "?i < length ?s")
    case True
    obtain ts lx' where st: "mlex_step lx = (ts, lx')" by fastforce
    note sp = mlex_step_spec [OF True st]
    have IH: "tiles ?s (ml_offset lx') (mlex_loop lx')"
      using "1.IH" [OF True st [symmetric]] sp by simp
    have l: "mlex_loop lx = ts @ mlex_loop lx'" using True st by (simp add: mlex_loop.simps [of lx])
    show ?thesis
    proof (cases "is_feed (?s ! ?i)")
      case True
      with sp IH l \<open>?i < length ?s\<close> show ?thesis by (simp add: tiles_skip)
    next
      case False
      with sp obtain t where t: "ts = [t]" "mt_offset t = ?i" "mt_length t = ml_offset lx' - ?i"
        "mt_kind t = first_kind (?s ! ?i) (ml_peek lx)" by auto
      with sp IH l show ?thesis by (simp add: ml_peek_def first_kind_not_eof piece_def)
    qed
  next
    case False
    with 1 show ?thesis by (simp add: mlex_loop.simps [of lx] ml_token_def piece_def)
  qed
qed

lemma tiles_text:
  "tiles s i ts \<Longrightarrow> i \<le> length s \<Longrightarrow>
   filter (\<lambda>c. \<not> is_feed c) (concat (map (\<lambda>t. extract_token_text t s) ts)) = filter (\<lambda>c. \<not> is_feed c) (drop i s)"
proof (induction s i ts rule: tiles.induct)
  case (2 s i t ts)
  let ?f = "filter (\<lambda>c. \<not> is_feed c)" and ?a = "mt_offset t" and ?b = "mt_offset t + mt_length t"
  have x: "extract_token_text t s = piece s ?a ?b"
    using 2 by (auto simp: extract_token_text_def Let_def piece_def)
  have "piece s i ?a @ piece s ?a ?b = piece s i ?b" using 2 by (intro piece_append) auto
  moreover have "piece s i ?b @ drop ?b s = drop i s"
    using 2 append_take_drop_id [of "?b - i" "drop i s"] by (simp add: piece_def)
  ultimately have split: "drop i s = piece s i ?a @ piece s ?a ?b @ drop ?b s" by (metis append.assoc)
  have sp: "?f (piece s i ?a) = []" using 2 by (simp add: filter_empty_conv)
  show ?case
  proof (cases "mt_kind t = M_EndOfFile")
    case True
    with 2 x have "?f (concat (map (\<lambda>t. extract_token_text t s) (t # ts))) = []" by (simp add: piece_def)
    moreover have "?f (drop i s) = []" using 2 True sp by (subst split) (simp add: piece_def)
    ultimately show ?thesis by simp
  next
    case False
    with 2 sp x show ?thesis by (subst split) auto
  qed
qed simp

section \<open>Positions\<close>

text \<open>The line and the column of a position, counted from the text.\<close>

definition line_of :: "string \<Rightarrow> nat \<Rightarrow> nat" where
  "line_of s i = 1 + length (filter (\<lambda>c. c = CHR 0x0A) (take i s))"

definition column_of :: "string \<Rightarrow> nat \<Rightarrow> nat" where
  "column_of s i = 1 + length (takeWhile (\<lambda>c. c \<noteq> CHR 0x0A) (rev (take i s)))"

definition in_step :: "mlexer \<Rightarrow> bool" where
  "in_step lx \<longleftrightarrow> ml_line lx = line_of (ml_source lx) (ml_offset lx) \<and>
     ml_column lx = column_of (ml_source lx) (ml_offset lx)"

lemma position_step:
  assumes "i < length s"
  shows "line_of s (i + 1) = (if s ! i = CHR 0x0A then line_of s i + 1 else line_of s i)"
    and "column_of s (i + 1) = (if s ! i = CHR 0x0A then 1 else column_of s i + 1)"
  using assms by (simp_all add: line_of_def column_of_def take_Suc_conv_app_nth)

lemma position_run:
  assumes "\<forall>n. i \<le> n \<and> n < i + k \<longrightarrow> s ! n \<noteq> CHR 0x0A" and "i + k \<le> length s"
  shows "line_of s (i + k) = line_of s i \<and> column_of s (i + k) = column_of s i + k"
  using assms
proof (induction k)
  case (Suc k)
  then show ?case using position_step [of "i + k" s] by simp
qed simp

lemma mlex_step_in_step:
  assumes "ml_offset lx < length (ml_source lx)" and "ml_source lx ! ml_offset lx \<noteq> CHR 0x22"
    and "in_step lx" and "mlex_step lx = (ts, lx')"
  shows "in_step lx'"
proof -
  let ?s = "ml_source lx" and ?i = "ml_offset lx" and ?j = "ml_offset lx'"
  from mlex_step_plain [OF assms(1,2)] assms(4) have p: "plain_round lx ts lx'" by simp
  show ?thesis
  proof (cases "?s ! ?i = CHR 0x0A")
    case True
    with p have "lx' = ml_newline lx" by (simp add: plain_round_def Let_def)
    with assms(1,3) True show ?thesis
      using position_step [of ?i ?s] by (simp add: in_step_def ml_newline_def)
  next
    case False
    with p have l: "lx' = ml_goto lx ?j" and j: "?i < ?j" "?j \<le> length ?s"
      and n: "\<forall>n. ?i < n \<and> n < ?j \<longrightarrow> ?s ! n \<noteq> CHR 0x0A"
      by (simp_all add: plain_round_def Let_def)
    from n False j have "line_of ?s (?i + (?j - ?i)) = line_of ?s ?i \<and>
      column_of ?s (?i + (?j - ?i)) = column_of ?s ?i + (?j - ?i)"
      by (intro position_run) (auto simp: le_less)
    with j assms(3) have "in_step (ml_goto lx ?j)" by (simp add: in_step_def)
    with l show ?thesis by simp
  qed
qed

definition position_ok :: "string \<Rightarrow> mtoken \<Rightarrow> bool" where
  "position_ok s t \<longleftrightarrow> mt_line t = line_of s (mt_offset t) \<and>
     mt_column t = column_of s (mt_offset t) + (if mt_kind t \<in> {M_Identifier, M_Number} then mt_length t else 0)"

lemma mlex_loop_positions:
  "CHR 0x22 \<notin> set (ml_source lx) \<Longrightarrow> in_step lx \<Longrightarrow> t \<in> set (mlex_loop lx) \<Longrightarrow> position_ok (ml_source lx) t"
proof (induction lx rule: mlex_loop.induct)
  case (1 lx)
  let ?s = "ml_source lx" and ?i = "ml_offset lx"
  show ?case
  proof (cases "?i < length ?s")
    case True
    then have q: "?s ! ?i \<noteq> CHR 0x22" using "1.prems"(1) by (metis nth_mem)
    obtain ts lx' where st: "mlex_step lx = (ts, lx')" by fastforce
    note sp = mlex_step_spec [OF True st] and ins = mlex_step_in_step [OF True q "1.prems"(2) st]
    from True st "1.prems"(3) have "t \<in> set ts \<or> t \<in> set (mlex_loop lx')" by (simp add: mlex_loop.simps [of lx])
    then show ?thesis
    proof
      assume "t \<in> set ts"
      with mlex_step_plain [OF True q] st "1.prems"(2) show ?thesis
        by (auto simp: plain_round_def Let_def position_ok_def in_step_def split: if_splits)
    next
      assume "t \<in> set (mlex_loop lx')"
      with "1.IH" [OF True st [symmetric]] sp ins "1.prems"(1) show ?thesis by simp
    qed
  next
    case False
    with 1 show ?thesis by (simp add: mlex_loop.simps [of lx] ml_token_def position_ok_def in_step_def)
  qed
qed

section \<open>Properties\<close>

text \<open>
  The tokens tile the source. On every ASCII source \<open>tokenize\<close> returns tokens that follow each
  other without overlap up to the end-of-file token at the end; only vertical tabs and form feeds
  fall between tokens; the first two characters of a token decide its kind; and the texts that the
  macro expander reads back for the tokens make up the source, up to these two characters.
\<close>

theorem tokens_tile_source:
  "tiles s 0 (tokenize s) \<and>
   filter (\<lambda>c. \<not> is_feed c) (concat (map (\<lambda>t. extract_token_text t s) (tokenize s))) = filter (\<lambda>c. \<not> is_feed c) s"
proof -
  have t: "tiles s 0 (tokenize s)"
    using mlex_loop_tiles [of "mlexer_new s"] by (simp add: tokenize_def mlexer_new_def)
  with tiles_text [OF t] show ?thesis by simp
qed

text \<open>
  Recorded positions. In a source without string literals every token carries the line it
  starts on. The column is that of its first character for white space, punctuators and hashes,
  but that of the character after it for identifiers and numbers.
\<close>

theorem token_positions:
  assumes "CHR 0x22 \<notin> set s" and "t \<in> set (tokenize s)"
  shows "mt_line t = line_of s (mt_offset t) \<and>
    mt_column t = column_of s (mt_offset t) + (if mt_kind t \<in> {M_Identifier, M_Number} then mt_length t else 0)"
proof -
  have "in_step (mlexer_new s)" by (simp add: in_step_def mlexer_new_def line_of_def column_of_def)
  with mlex_loop_positions [of "mlexer_new s" t] assms show ?thesis
    by (simp add: tokenize_def mlexer_new_def position_ok_def)
qed

text \<open>In \<open>ab\<close> the only identifier starts in column 1 and is recorded at column 3.\<close>

lemma tokenize_ab:
  "tokenize ''ab'' = [\<lparr>mt_kind = M_Identifier, mt_offset = 0, mt_length = 2, mt_line = 1, mt_column = 3\<rparr>,
    \<lparr>mt_kind = M_EndOfFile, mt_offset = 2, mt_length = 0, mt_line = 1, mt_column = 3\<rparr>]"
  by (simp add: tokenize_def mlexer_new_def mlex_loop.simps mlex_step_def ml_current_def byte_at_def Let_def
      ml_skip_goto advance_while.simps ml_ident_char_def is_alpha_def ml_token_def)

theorem token_positions_witness:
  "mt_column (hd (tokenize ''ab'')) = column_of ''ab'' 0 + 2"
  using token_positions [of "''ab''" "hd (tokenize ''ab'')"] by (simp add: tokenize_ab)

end
