(* ===== verification/GraphSearch.thy ===== *)
theory GraphSearch
  imports Prelude
begin

text \<open>
  Depth-first search with a visited set over a graph given by its successor lists, as the
  reference for the recursive walks of the alias analysis. The interface of such a graph is the
  locale \<open>search_graph\<close>; the walks of the code interpret it.
\<close>

section \<open>The search\<close>

text \<open>
  \<open>edges v\<close> is \<open>None\<close> when \<open>v\<close> is no node: it is marked as visited but not reported. The fuel bounds
  the depth.
\<close>

fun dfs :: "nat \<Rightarrow> (nat \<Rightarrow> nat list option) \<Rightarrow> nat list \<Rightarrow> nat set \<Rightarrow> (nat list \<times> nat set) run" where
  "dfs n edges [] V = Done ([], V)"
| "dfs 0 edges (v # vs) V = NoFuel"
| "dfs (Suc n) edges (v # vs) V =
     (if v \<in> V then dfs (Suc n) edges vs V
      else case edges v of
        None \<Rightarrow> dfs (Suc n) edges vs (insert v V)
      | Some ws \<Rightarrow>
          run_bind (dfs n edges ws (insert v V)) (\<lambda>(r1, V1).
            run_bind (dfs (Suc n) edges vs V1) (\<lambda>(r2, V2). Done (v # r1 @ r2, V2))))"

lemma dfs_cases:
  assumes "dfs (Suc n) edges (v # vs) V = Done (r, V')"
  obtains (seen) "v \<in> V" "dfs (Suc n) edges vs V = Done (r, V')"
  | (none) "v \<notin> V" "edges v = None" "dfs (Suc n) edges vs (insert v V) = Done (r, V')"
  | (node) ws r1 V1 r2 where "v \<notin> V" "edges v = Some ws" "dfs n edges ws (insert v V) = Done (r1, V1)"
      "dfs (Suc n) edges vs V1 = Done (r2, V')" "r = v # r1 @ r2"
  using assms by (auto split: if_splits option.splits)

lemma dfs_mono: "dfs n edges vs V = Done (r, V') \<Longrightarrow> V \<subseteq> V' \<and> set vs \<subseteq> V'"
proof (induction n edges vs V arbitrary: r V' rule: dfs.induct)
  case (3 n edges v vs V)
  from "3.prems" show ?case
  proof (cases rule: dfs_cases)
    case seen
    with "3.IH"(1) show ?thesis by auto
  next
    case none
    with "3.IH"(2) show ?thesis by auto
  next
    case (node ws r1 V1 r2)
    from "3.IH"(3) [OF node(1-3)] "3.IH"(4) [OF node(1,2) node(4)] show ?thesis by auto
  qed
qed auto

lemma dfs_Cons:
  "dfs n edges (v # vs) V =
   run_bind (dfs n edges [v] V) (\<lambda>(r1, V1). run_bind (dfs n edges vs V1) (\<lambda>(r2, V2). Done (r1 @ r2, V2)))"
proof (cases n)
  case (Suc m)
  have ret: "run_bind (dfs n edges ws U) (\<lambda>(r2, V2). Done (r2, V2)) = dfs n edges ws U" for ws U
    by (cases "dfs n edges ws U") auto
  show ?thesis
  proof (cases "v \<in> V \<or> edges v = None")
    case True
    with Suc ret show ?thesis by auto
  next
    case False
    then obtain ws where "v \<notin> V" "edges v = Some ws" by auto
    with Suc show ?thesis by (cases "dfs m edges ws (insert v V)") auto
  qed
qed simp

section \<open>Reachable nodes\<close>

definition edge_rel :: "(nat \<Rightarrow> nat list option) \<Rightarrow> (nat \<times> nat) set" where
  "edge_rel edges = {(v, w). \<exists>ws. edges v = Some ws \<and> w \<in> set ws}"

definition reach_from :: "(nat \<Rightarrow> nat list option) \<Rightarrow> nat \<Rightarrow> nat set" where
  "reach_from edges v = (edge_rel edges)\<^sup>* `` {v}"

lemma dfs_reported:
  "dfs n edges vs V = Done (r, V') \<Longrightarrow>
   set r = {v \<in> V' - V. edges v \<noteq> None} \<and> distinct r \<and> V' - V \<subseteq> (\<Union>v \<in> set vs. reach_from edges v) \<and>
   (\<forall>v \<in> V' - V. \<forall>ws. edges v = Some ws \<longrightarrow> set ws \<subseteq> V')"
proof (induction n edges vs V arbitrary: r V' rule: dfs.induct)
  case (3 n edges v vs V)
  show ?case
  proof (cases "v \<in> V")
    case True
    with "3.IH"(1) "3.prems" show ?thesis by fastforce
  next
    case nv: False
    have self: "v \<in> reach_from edges v" by (simp add: reach_from_def)
    show ?thesis
    proof (cases "edges v")
      case None
      with nv "3.prems" have d: "dfs (Suc n) edges vs (insert v V) = Done (r, V')" by simp
      note IH = "3.IH"(2) [OF nv None d]
      have v: "v \<in> V'" using dfs_mono [OF d] by blast
      have "set ws \<subseteq> V'" if "x \<in> V' - V" "edges x = Some ws" for x ws
      proof -
        from that None have "x \<in> V' - insert v V" by auto
        with IH that(2) show ?thesis by blast
      qed
      moreover have "V' - V \<subseteq> insert v (V' - insert v V)" by blast
      ultimately show ?thesis using IH nv None self v by auto
    next
      case (Some ws)
      with nv "3.prems" obtain r1 V1 r2 where
        a: "dfs n edges ws (insert v V) = Done (r1, V1)" and b: "dfs (Suc n) edges vs V1 = Done (r2, V')"
        and r: "r = v # r1 @ r2" by auto
      note A = "3.IH"(3) [OF nv Some a]
      note B = "3.IH"(4) [OF nv Some b]
      note m1 = dfs_mono [OF a] and m2 = dfs_mono [OF b]
      have sub: "w \<in> set ws \<Longrightarrow> reach_from edges w \<subseteq> reach_from edges v" for w
        using Some by (auto simp: reach_from_def edge_rel_def intro: converse_rtrancl_into_rtrancl)
      have "set r = {v \<in> V' - V. edges v \<noteq> None}"
        using A B m1 m2 r nv Some by auto
      moreover have "distinct r" using A B m1 r nv by auto
      moreover have "V' - V \<subseteq> (\<Union>v \<in> set (v # vs). reach_from edges v)"
      proof
        fix x assume x: "x \<in> V' - V"
        consider "x = v" | "x \<in> V1 - insert v V" | "x \<in> V' - V1" using x by blast
        then show "x \<in> (\<Union>v \<in> set (v # vs). reach_from edges v)"
        proof cases
          case 2
          with A obtain w where "w \<in> set ws" "x \<in> reach_from edges w" by blast
          with sub show ?thesis by auto
        qed (use self B in auto)
      qed
      moreover have "set us \<subseteq> V'" if x: "x \<in> V' - V" "edges x = Some us" for x us
      proof -
        consider "x = v" | "x \<in> V1 - insert v V" | "x \<in> V' - V1" using x by blast
        then show ?thesis
        proof cases
          case 1 with x Some m1 m2 show ?thesis by auto
        next
          case 2 with x A m2 show ?thesis by blast
        next
          case 3 with x B show ?thesis by blast
        qed
      qed
      ultimately show ?thesis by blast
    qed
  qed
qed auto

lemma closed_reach:
  assumes "v \<in> V" and "\<forall>x \<in> V. \<forall>ws. edges x = Some ws \<longrightarrow> set ws \<subseteq> V"
  shows "reach_from edges v \<subseteq> V"
proof
  fix x assume "x \<in> reach_from edges v"
  then have "(v, x) \<in> (edge_rel edges)\<^sup>*" by (simp add: reach_from_def)
  then show "x \<in> V" using assms by (induction rule: rtrancl_induct) (auto simp: edge_rel_def)
qed

section \<open>Finite graphs\<close>

locale search_graph =
  fixes edges :: "nat \<Rightarrow> nat list option"
    and bound :: nat
  assumes nodes_bounded: "edges v \<noteq> None \<Longrightarrow> v < bound"
begin

definition unseen :: "nat set \<Rightarrow> nat" where
  "unseen V = card {v. edges v \<noteq> None \<and> v \<notin> V}"

lemma finite_nodes: "finite {v. edges v \<noteq> None \<and> P v}"
  by (rule finite_subset [of _ "{..<bound}"]) (use nodes_bounded in auto)

lemma unseen_mono: "V \<subseteq> W \<Longrightarrow> unseen W \<le> unseen V"
  unfolding unseen_def by (rule card_mono [OF finite_nodes]) auto

lemma unseen_insert: "edges v \<noteq> None \<Longrightarrow> v \<notin> V \<Longrightarrow> unseen (insert v V) < unseen V"
  unfolding unseen_def by (rule psubset_card_mono [OF finite_nodes]) auto

lemma unseen_le: "unseen V \<le> bound"
proof -
  have "unseen V \<le> card {..<bound}"
    unfolding unseen_def by (rule card_mono) (use nodes_bounded in auto)
  then show ?thesis by simp
qed

lemma dfs_returns: "unseen V < n \<Longrightarrow> \<exists>r V'. dfs n edges vs V = Done (r, V')"
proof (induction n arbitrary: vs V)
  case (Suc n)
  show ?case
    using Suc.prems
  proof (induction vs arbitrary: V)
    case (Cons v vs)
    show ?case
    proof (cases "v \<in> V")
      case True
      with Cons show ?thesis by simp
    next
      case nv: False
      show ?thesis
      proof (cases "edges v")
        case None
        have "unseen (insert v V) < Suc n" using Cons.prems unseen_mono [OF subset_insertI [of V v]] by linarith
        from Cons.IH [OF this] nv None show ?thesis by simp
      next
        case (Some ws)
        with nv Cons.prems have "unseen (insert v V) < n" using unseen_insert [of v V] by simp
        from Suc.IH [OF this] obtain r1 V1 where a: "dfs n edges ws (insert v V) = Done (r1, V1)" by blast
        have "unseen V1 < Suc n"
          using dfs_mono [OF a] unseen_mono [of V V1] Cons.prems by fastforce
        from Cons.IH [OF this] a nv Some show ?thesis by auto
      qed
    qed
  qed simp
qed simp

text \<open>From an empty visited set, the search lists the reachable nodes, each once.\<close>

lemma dfs_reachable:
  assumes "bound < n"
  shows "\<exists>r V'. dfs n edges [v] {} = Done (r, V') \<and> V' = reach_from edges v \<and> distinct r \<and>
    set r = {w \<in> reach_from edges v. edges w \<noteq> None}"
proof -
  from dfs_returns [of "{}" n "[v]"] unseen_le [of "{}"] assms
  obtain r V' where d: "dfs n edges [v] {} = Done (r, V')" by fastforce
  note R = dfs_reported [OF d] and m = dfs_mono [OF d]
  have "reach_from edges v \<subseteq> V'" by (rule closed_reach) (use R m in auto)
  with R have "V' = reach_from edges v" by auto
  with R d show ?thesis by auto
qed

end

end
