(* ===== verification/AliasAnalysis.thy ===== *)
theory AliasAnalysis
  imports Arena GraphSearch
begin

text \<open>
  The alias and use-after-free analysis of \<open>src/src/analysis/alias.rs\<close>: the recursive walks over
  the tree in the arena, and the taint state with its diagnostics.

  The walks recurse over links that may form any graph; their models take a bound on the depth of
  the recursion, and \<open>provenance_reachable\<close> shows that one more than the number of node slots is
  always enough. The \<open>visited\<close> sets are sets, passed and returned.
\<close>

section \<open>Data\<close>

datatype affine_grade = Owned | Shared | Borrowed

record pointer_provenance =
  prov_source :: node_offset
  provenance :: "u32 list"
  prov_noalias :: bool

datatype taint_state = Untainted | Tainted node_offset | Escaped

datatype severity = Note | Warning | Error

record diagnostic =
  diag_severity :: severity
  diag_node :: node_offset
  diag_message :: string
  provenance_trace :: "node_offset list"

record uaf_diagnostic =
  freed_node :: node_offset
  deref_node :: node_offset
  uaf_path :: "node_offset list"

definition AST_PTR :: u16 where "AST_PTR = 7"
definition AST_FUNC_DECL :: u16 where "AST_FUNC_DECL = 22"
definition AST_FUNC_DEF :: u16 where "AST_FUNC_DEF = 23"
definition AST_ASSIGN :: u16 where "AST_ASSIGN = 73"
definition AST_UNOP :: u16 where "AST_UNOP = 65"
definition AST_RETURN :: u16 where "AST_RETURN = 44"
definition OP_ADDR :: u32 where "OP_ADDR = 4"
definition OP_DEREF :: u32 where "OP_DEREF = 5"

lemmas ast_codes = AST_PTR_def AST_FUNC_DECL_def AST_FUNC_DEF_def AST_ASSIGN_def AST_UNOP_def
  AST_RETURN_def OP_ADDR_def OP_DEREF_def

text \<open>
  \<open>provenance_cache\<close> is created empty and never written, so \<open>get_provenance_cache\<close> is always empty
  and the field is left out.
\<close>

record analyzer =
  an_arena :: arena
  taints :: "node_offset \<rightharpoonup> taint_state"
  diagnostics :: "diagnostic list"
  call_sites :: "node_offset set"

definition analyzer_new :: "arena \<Rightarrow> analyzer" where
  "analyzer_new A = \<lparr>an_arena = A, taints = Map.empty, diagnostics = [], call_sites = {}\<rparr>"

section \<open>The walks\<close>

text \<open>Whether \<open>trace_provenance\<close> follows the first child of a node.\<close>

definition follows_child :: "cast_node \<Rightarrow> bool" where
  "follows_child n \<longleftrightarrow>
     (if kind n = AST_ASSIGN then first_child n \<noteq> 0
      else if kind n = AST_PTR then first_child n \<noteq> 0
      else if kind n = AST_UNOP then
        node_data n = OP_ADDR \<and> first_child n \<noteq> 0 \<or> node_data n = OP_DEREF \<and> first_child n \<noteq> 0
      else False)"

fun trace_provenance :: "nat \<Rightarrow> arena \<Rightarrow> node_offset \<Rightarrow> u32 set \<Rightarrow> (pointer_provenance \<times> u32 set) run" where
  "trace_provenance 0 A node visited = NoFuel"
| "trace_provenance (Suc fuel) A node visited =
     (if node \<in> visited then Done (\<lparr>prov_source = node, provenance = [], prov_noalias = True\<rparr>, visited)
      else
        let visited1 = insert node visited in
        case arena_get A node of
          None \<Rightarrow> Done (\<lparr>prov_source = node, provenance = [], prov_noalias = True\<rparr>, visited1)
        | Some ast_node \<Rightarrow>
            run_bind
              (if follows_child ast_node then
                 run_bind (trace_provenance fuel A (first_child ast_node) visited1)
                   (\<lambda>(p, v). Done ([node] @ provenance p, v))
               else Done ([node], visited1))
              (\<lambda>(prov2, visited2).
            run_bind
              (if next_sibling ast_node \<noteq> 0 then
                 run_bind (trace_provenance fuel A (next_sibling ast_node) visited2)
                   (\<lambda>(p, v). Done (prov2 @ provenance p, v))
               else Done (prov2, visited2))
              (\<lambda>(prov3, visited3).
                Done (\<lparr>prov_source = node, provenance = prov3, prov_noalias = (length prov3 \<le> 1)\<rparr>, visited3))))"

definition is_noalias :: "nat \<Rightarrow> arena \<Rightarrow> node_offset \<Rightarrow> node_offset \<Rightarrow> bool run" where
  "is_noalias fuel A a b =
     run_bind (trace_provenance fuel A a {}) (\<lambda>(pa, _).
     run_bind (trace_provenance fuel A b {}) (\<lambda>(pb, _).
       Done (set (provenance pa) \<inter> set (provenance pb) = {} \<and> prov_noalias pa \<and> prov_noalias pb)))"

definition get_affine_grade :: "nat \<Rightarrow> arena \<Rightarrow> node_offset \<Rightarrow> affine_grade run" where
  "get_affine_grade fuel A ptr =
     run_bind (trace_provenance fuel A ptr {}) (\<lambda>(p, _).
       Done (if prov_noalias p then Owned else if length (provenance p) > 1 then Shared else Borrowed))"

definition compute_pointer_relationship :: "nat \<Rightarrow> arena \<Rightarrow> node_offset \<Rightarrow> node_offset \<Rightarrow> affine_grade run" where
  "compute_pointer_relationship fuel A a b =
     run_bind (is_noalias fuel A a b) (\<lambda>noalias.
       if noalias then Done Owned
       else run_bind (get_affine_grade fuel A a) (\<lambda>ga.
            run_bind (get_affine_grade fuel A b) (\<lambda>gb.
              case (ga, gb) of (Owned, Owned) \<Rightarrow> Done Shared | _ \<Rightarrow> Done Shared)))"

definition check_aliasing_conflict :: "nat \<Rightarrow> arena \<Rightarrow> node_offset \<Rightarrow> node_offset \<Rightarrow> bool run" where
  "check_aliasing_conflict fuel A a b =
     run_bind (get_affine_grade fuel A a) (\<lambda>grade.
       case grade of
         Owned \<Rightarrow> run_bind (is_noalias fuel A a b) (\<lambda>x. Done (\<not> x))
       | Shared \<Rightarrow> Done True
       | Borrowed \<Rightarrow> Done False)"

fun dfs_recursive :: "nat \<Rightarrow> arena \<Rightarrow> node_offset \<Rightarrow> u32 set \<Rightarrow> node_offset list \<Rightarrow> (u32 set \<times> node_offset list) run" where
  "dfs_recursive 0 A node visited result = NoFuel"
| "dfs_recursive (Suc fuel) A node visited result =
     (if node \<in> visited \<or> node = 0 then Done (visited, result)
      else
        let visited1 = insert node visited in
        case arena_get A node of
          None \<Rightarrow> Done (visited1, result)
        | Some ast_node \<Rightarrow>
            run_bind
              (if first_child ast_node \<noteq> 0
               then dfs_recursive fuel A (first_child ast_node) visited1 (result @ [node])
               else Done (visited1, result @ [node]))
              (\<lambda>(visited2, result2).
                if next_sibling ast_node \<noteq> 0
                then dfs_recursive fuel A (next_sibling ast_node) visited2 result2
                else Done (visited2, result2)))"

definition dfs_provenance_walk :: "nat \<Rightarrow> arena \<Rightarrow> node_offset \<Rightarrow> node_offset list run" where
  "dfs_provenance_walk fuel A start = run_bind (dfs_recursive fuel A start {} []) (\<lambda>(_, result). Done result)"

section \<open>Taint and diagnostics\<close>

definition check_taint :: "analyzer \<Rightarrow> node_offset \<Rightarrow> taint_state" where
  "check_taint a node = (case taints a node of Some t \<Rightarrow> t | None \<Rightarrow> Untainted)"

definition emit_diagnostic :: "analyzer \<Rightarrow> severity \<Rightarrow> node_offset \<Rightarrow> string \<Rightarrow> analyzer" where
  "emit_diagnostic a sev node msg =
     a\<lparr>diagnostics := diagnostics a @
        [\<lparr>diag_severity = sev, diag_node = node, diag_message = msg, provenance_trace = [node]\<rparr>]\<rparr>"

definition mark_freed :: "analyzer \<Rightarrow> node_offset \<Rightarrow> analyzer" where
  "mark_freed a node =
     emit_diagnostic (a\<lparr>taints := (taints a)(node \<mapsto> Tainted node)\<rparr>) Warning node
       ''Memory marked as freed - potential use-after-free if dereferenced''"

definition mark_escaped :: "analyzer \<Rightarrow> node_offset \<Rightarrow> analyzer" where
  "mark_escaped a node = a\<lparr>taints := (taints a)(node \<mapsto> Escaped)\<rparr>"

definition detect_uaf :: "analyzer \<Rightarrow> node_offset \<Rightarrow> uaf_diagnostic option" where
  "detect_uaf a deref =
     (case check_taint a deref of
        Tainted source \<Rightarrow> Some \<lparr>freed_node = source, deref_node = deref, uaf_path = [deref]\<rparr>
      | _ \<Rightarrow>
          (case arena_get (an_arena a) deref of
             None \<Rightarrow> None
           | Some ast_node \<Rightarrow>
               if kind ast_node = AST_UNOP \<and> node_data ast_node = OP_DEREF \<and> first_child ast_node \<noteq> 0 then
                 (case check_taint a (first_child ast_node) of
                    Tainted source \<Rightarrow>
                      Some \<lparr>freed_node = source, deref_node = deref, uaf_path = [deref, first_child ast_node]\<rparr>
                  | _ \<Rightarrow> None)
               else None))"

definition get_child :: "node_offset \<Rightarrow> node_offset option" where
  "get_child off = (if off = 0 then None else Some off)"

text \<open>The derived \<open>Debug\<close> of \<open>NodeOffset\<close>.\<close>

definition node_offset_debug :: "node_offset \<Rightarrow> string" where
  "node_offset_debug off = ''NodeOffset('' @ digits off @ '')''"

definition analyze_dereference :: "analyzer \<Rightarrow> node_offset \<Rightarrow> analyzer" where
  "analyze_dereference a node =
     (case arena_get (an_arena a) node of
        None \<Rightarrow> a
      | Some ast_node \<Rightarrow>
          if kind ast_node = AST_UNOP \<and> node_data ast_node = OP_DEREF then
            (case get_child (first_child ast_node) of
               None \<Rightarrow> a
             | Some deref_child \<Rightarrow>
                 (case check_taint a deref_child of
                    Tainted source \<Rightarrow>
                      emit_diagnostic a Error node
                        (''Use-After-Free detected: memory freed at node '' @ node_offset_debug source @
                         '' was dereferenced'')
                  | _ \<Rightarrow> a))
          else a)"

definition register_call_site :: "analyzer \<Rightarrow> node_offset \<Rightarrow> analyzer" where
  "register_call_site a node = a\<lparr>call_sites := insert node (call_sites a)\<rparr>"

definition is_call_site :: "analyzer \<Rightarrow> node_offset \<Rightarrow> bool" where
  "is_call_site a node \<longleftrightarrow> node \<in> call_sites a"

definition analyze_return :: "analyzer \<Rightarrow> node_offset \<Rightarrow> analyzer" where
  "analyze_return a node =
     (case arena_get (an_arena a) node of
        None \<Rightarrow> a
      | Some ast_node \<Rightarrow>
          if kind ast_node = AST_RETURN then
            (if first_child ast_node \<noteq> 0 then
               emit_diagnostic (mark_freed a (first_child ast_node)) Note node
                 ''Return statement may release memory''
             else a)
          else a)"

definition analyze_function_exit :: "analyzer \<Rightarrow> node_offset \<Rightarrow> analyzer" where
  "analyze_function_exit a node =
     (case arena_get (an_arena a) node of
        None \<Rightarrow> a
      | Some ast_node \<Rightarrow>
          if kind ast_node = AST_FUNC_DEF \<or> kind ast_node = AST_FUNC_DECL then mark_escaped a node else a)"

text \<open>The order of the pointers is that of a hash map, left open: the result is a set.\<close>

definition get_tainted_pointers :: "analyzer \<Rightarrow> node_offset set" where
  "get_tainted_pointers a = {n \<in> dom (taints a). case taints a n of Some (Tainted _) \<Rightarrow> True | _ \<Rightarrow> False}"

definition clear_diagnostics :: "analyzer \<Rightarrow> analyzer" where
  "clear_diagnostics a = a\<lparr>diagnostics := []\<rparr>"

definition get_error_count :: "analyzer \<Rightarrow> nat" where
  "get_error_count a = length (filter (\<lambda>d. diag_severity d = Error) (diagnostics a))"

definition get_warning_count :: "analyzer \<Rightarrow> nat" where
  "get_warning_count a = length (filter (\<lambda>d. diag_severity d = Warning) (diagnostics a))"

definition has_vulnerabilities :: "analyzer \<Rightarrow> bool" where
  "has_vulnerabilities a \<longleftrightarrow> diagnostics a \<noteq> []"

section \<open>The walks are depth-first searches\<close>

definition trace_edges :: "arena \<Rightarrow> nat \<Rightarrow> nat list option" where
  "trace_edges A v =
     map_option (\<lambda>n. (if follows_child n then [first_child n] else []) @
                     (if next_sibling n \<noteq> 0 then [next_sibling n] else [])) (arena_get A v)"

definition tree_edges :: "arena \<Rightarrow> nat \<Rightarrow> nat list option" where
  "tree_edges A v =
     map_option (\<lambda>n. (if first_child n \<noteq> 0 then [first_child n] else []) @
                     (if next_sibling n \<noteq> 0 then [next_sibling n] else [])) (arena_get A v)"

interpretation trace_graph: search_graph "trace_edges A" "node_allocated A" for A
  by unfold_locales (auto simp: trace_edges_def arena_get_def split: if_splits)

interpretation tree_graph: search_graph "tree_edges A" "node_allocated A" for A
  by unfold_locales (auto simp: tree_edges_def arena_get_def split: if_splits)

lemma trace_is_dfs:
  "trace_provenance n A v V =
   run_bind (dfs n (trace_edges A) [v] V) (\<lambda>(r, V'). Done (\<lparr>prov_source = v, provenance = r, prov_noalias = (length r \<le> 1)\<rparr>, V'))"
proof (induction n arbitrary: v V)
  case (Suc n)
  show ?case
  proof (cases "v \<in> V \<or> arena_get A v = None")
    case True
    then show ?thesis by (auto simp: trace_edges_def Let_def)
  next
    case False
    then obtain nd where nv: "v \<notin> V" and nd: "arena_get A v = Some nd" by auto
    let ?c = "if follows_child nd then [first_child nd] else []"
    let ?s = "if next_sibling nd \<noteq> 0 then [next_sibling nd] else []"
    have e: "trace_edges A v = Some (?c @ ?s)" using nd by (simp add: trace_edges_def)
    show ?thesis
    proof (cases "dfs n (trace_edges A) [first_child nd] (insert v V)")
      case (Done x)
      then show ?thesis
        using nv nd e Suc dfs_Cons [of n "trace_edges A" "first_child nd" ?s "insert v V"]
        by (cases "dfs n (trace_edges A) [next_sibling nd] (snd x)";
            cases "dfs n (trace_edges A) [next_sibling nd] (insert v V)") (auto simp: Let_def split: prod.splits)
    qed (use nv nd e Suc dfs_Cons [of n "trace_edges A" "first_child nd" ?s "insert v V"] in
        \<open>cases "dfs n (trace_edges A) [next_sibling nd] (insert v V)"; auto simp: Let_def\<close>)+
  qed
qed simp

lemma walk_is_dfs:
  "v \<noteq> 0 \<Longrightarrow> dfs_recursive n A v V res =
   run_bind (dfs n (tree_edges A) [v] V) (\<lambda>(r, V'). Done (V', res @ r))"
proof (induction n arbitrary: v V res)
  case (Suc n)
  show ?case
  proof (cases "v \<in> V \<or> arena_get A v = None")
    case True
    with Suc.prems show ?thesis by (auto simp: tree_edges_def Let_def)
  next
    case False
    then obtain nd where nv: "v \<notin> V" and nd: "arena_get A v = Some nd" by auto
    let ?s = "if next_sibling nd \<noteq> 0 then [next_sibling nd] else []"
    have e: "tree_edges A v = Some ((if first_child nd \<noteq> 0 then [first_child nd] else []) @ ?s)"
      using nd by (simp add: tree_edges_def)
    show ?thesis
    proof (cases "dfs n (tree_edges A) [first_child nd] (insert v V)")
      case (Done x)
      then show ?thesis
        using nv nd e Suc dfs_Cons [of n "tree_edges A" "first_child nd" ?s "insert v V"]
        by (cases "dfs n (tree_edges A) [next_sibling nd] (snd x)";
            cases "dfs n (tree_edges A) [next_sibling nd] (insert v V)") (auto simp: Let_def split: prod.splits)
    qed (use nv nd e Suc dfs_Cons [of n "tree_edges A" "first_child nd" ?s "insert v V"] in
        \<open>cases "dfs n (tree_edges A) [next_sibling nd] (insert v V)"; auto simp: Let_def\<close>)+
  qed
qed simp

text \<open>The nodes of the arena that a walk can reach.\<close>

definition provenance_set :: "arena \<Rightarrow> node_offset \<Rightarrow> node_offset set" where
  "provenance_set A v = {w \<in> reach_from (trace_edges A) v. arena_get A w \<noteq> None}"

definition subtree_set :: "arena \<Rightarrow> node_offset \<Rightarrow> node_offset set" where
  "subtree_set A v = {w \<in> reach_from (tree_edges A) v. arena_get A w \<noteq> None}"

definition separate :: "arena \<Rightarrow> node_offset \<Rightarrow> node_offset \<Rightarrow> bool" where
  "separate A a b \<longleftrightarrow> provenance_set A a \<inter> provenance_set A b = {} \<and>
     card (provenance_set A a) \<le> 1 \<and> card (provenance_set A b) \<le> 1"

lemma trace_result:
  assumes "node_allocated A < fuel"
  shows "\<exists>r V'. trace_provenance fuel A v {} = Done (\<lparr>prov_source = v, provenance = r, prov_noalias = (length r \<le> 1)\<rparr>, V') \<and>
    set r = provenance_set A v \<and> distinct r \<and> length r = card (provenance_set A v) \<and> V' = reach_from (trace_edges A) v"
proof -
  from trace_graph.dfs_reachable [OF assms, of v] obtain r V' where
    r: "dfs fuel (trace_edges A) [v] {} = Done (r, V')" "V' = reach_from (trace_edges A) v" "distinct r"
      "set r = {w \<in> reach_from (trace_edges A) v. trace_edges A w \<noteq> None}" by blast
  then have "set r = provenance_set A v" by (simp add: provenance_set_def trace_edges_def)
  with r show ?thesis by (simp add: trace_is_dfs distinct_card [symmetric])
qed

section \<open>Properties of the walks\<close>

text \<open>
  C38: Provenance. On every arena, cyclic links included, \<open>trace_provenance\<close> from a node returns
  within a recursion depth of one more than the number of node slots; it lists the nodes
  reachable over operands and next siblings, each once, and the flag says whether there is at
  most one.
\<close>

theorem provenance_reachable:
  "\<exists>p. trace_provenance (node_allocated A + 1 + k) A v {} = Done (p, reach_from (trace_edges A) v) \<and>
     prov_source p = v \<and> distinct (provenance p) \<and> set (provenance p) = provenance_set A v \<and>
     (prov_noalias p \<longleftrightarrow> card (provenance_set A v) \<le> 1)"
  using trace_result [of A "node_allocated A + 1 + k" v] by auto

text \<open>
  What the alias queries decide. Two pointers are reported not to alias exactly when their
  provenance sets are disjoint and neither has more than one node; a pointer is owned when its
  set has at most one node and shared otherwise, never borrowed; the relationship of two pointers
  is owned when they do not alias and shared otherwise, and there is a conflict exactly when they
  may alias.
\<close>

theorem alias_queries:
  "is_noalias (node_allocated A + 1 + k) A a b = Done (separate A a b) \<and>
   get_affine_grade (node_allocated A + 1 + k) A a =
     Done (if card (provenance_set A a) \<le> 1 then Owned else Shared) \<and>
   compute_pointer_relationship (node_allocated A + 1 + k) A a b =
     Done (if separate A a b then Owned else Shared) \<and>
   check_aliasing_conflict (node_allocated A + 1 + k) A a b = Done (\<not> separate A a b)"
proof -
  define fuel where "fuel = node_allocated A + 1 + k"
  have f: "node_allocated A < fuel" by (simp add: fuel_def)
  obtain ra Va where a: "trace_provenance fuel A a {} = Done (\<lparr>prov_source = a, provenance = ra, prov_noalias = (length ra \<le> 1)\<rparr>, Va)"
    "set ra = provenance_set A a" "length ra = card (provenance_set A a)" using trace_result [OF f, of a] by blast
  obtain rb Vb where b: "trace_provenance fuel A b {} = Done (\<lparr>prov_source = b, provenance = rb, prov_noalias = (length rb \<le> 1)\<rparr>, Vb)"
    "set rb = provenance_set A b" "length rb = card (provenance_set A b)" using trace_result [OF f, of b] by blast
  have n: "is_noalias fuel A a b = Done (separate A a b)" using a b by (simp add: is_noalias_def separate_def)
  have g: "get_affine_grade fuel A a = Done (if card (provenance_set A a) \<le> 1 then Owned else Shared)"
    "get_affine_grade fuel A b = Done (if card (provenance_set A b) \<le> 1 then Owned else Shared)"
    using a b by (simp_all add: get_affine_grade_def)
  show ?thesis
    using n g unfolding fuel_def [symmetric]
    by (auto simp: compute_pointer_relationship_def check_aliasing_conflict_def separate_def)
qed

text \<open>
  The walk lists the subtree. \<open>dfs_provenance_walk\<close> returns on every arena the nodes
  reachable from the start over first children and next siblings, each once.
\<close>

theorem walk_lists_subtree:
  "\<exists>r. dfs_provenance_walk (node_allocated A + 1 + k) A start = Done r \<and> distinct r \<and> set r = subtree_set A start"
proof (cases "start = 0")
  case True
  have g: "arena_get A 0 = None" by (simp add: arena_get_def)
  then have "reach_from (tree_edges A) 0 \<subseteq> {0}" by (intro closed_reach) (auto simp: tree_edges_def)
  with g have "subtree_set A 0 = {}" by (auto simp: subtree_set_def)
  with True show ?thesis by (simp add: dfs_provenance_walk_def)
next
  case False
  have f: "node_allocated A < node_allocated A + 1 + k" by simp
  from tree_graph.dfs_reachable [OF f, of start] obtain r V' where
    r: "dfs (node_allocated A + 1 + k) (tree_edges A) [start] {} = Done (r, V')" "distinct r"
      "set r = {w \<in> reach_from (tree_edges A) start. tree_edges A w \<noteq> None}" by blast
  from walk_is_dfs [OF False, of "node_allocated A + 1 + k" A "{}" "[]"] r(1)
  have "dfs_provenance_walk (node_allocated A + 1 + k) A start = Done r"
    by (simp only: dfs_provenance_walk_def run_bind.simps prod.case append_Nil)
  with r show ?thesis by (auto simp: subtree_set_def tree_edges_def)
qed

section \<open>The taint state over a sequence of calls\<close>

datatype alias_op =
    Free node_offset
  | Escape node_offset
  | Deref node_offset
  | Return node_offset
  | Exit node_offset
  | CallSite node_offset
  | Clear

fun apply_op :: "analyzer \<Rightarrow> alias_op \<Rightarrow> analyzer" where
  "apply_op a (Free n) = mark_freed a n"
| "apply_op a (Escape n) = mark_escaped a n"
| "apply_op a (Deref n) = analyze_dereference a n"
| "apply_op a (Return n) = analyze_return a n"
| "apply_op a (Exit n) = analyze_function_exit a n"
| "apply_op a (CallSite n) = register_call_site a n"
| "apply_op a Clear = clear_diagnostics a"

definition run_ops :: "arena \<Rightarrow> alias_op list \<Rightarrow> analyzer" where
  "run_ops A ops = foldl apply_op (analyzer_new A) ops"

text \<open>The specification: what a call does to the taint of one node.\<close>

fun taint_event :: "arena \<Rightarrow> alias_op \<Rightarrow> (node_offset \<times> taint_state) option" where
  "taint_event A (Free n) = Some (n, Tainted n)"
| "taint_event A (Escape n) = Some (n, Escaped)"
| "taint_event A (Return n) =
     (case arena_get A n of
        Some nd \<Rightarrow> if kind nd = AST_RETURN \<and> first_child nd \<noteq> 0
                   then Some (first_child nd, Tainted (first_child nd)) else None
      | None \<Rightarrow> None)"
| "taint_event A (Exit n) =
     (case arena_get A n of
        Some nd \<Rightarrow> if kind nd \<in> {AST_FUNC_DEF, AST_FUNC_DECL} then Some (n, Escaped) else None
      | None \<Rightarrow> None)"
| "taint_event A _ = None"

definition history :: "arena \<Rightarrow> alias_op list \<Rightarrow> node_offset \<Rightarrow> taint_state" where
  "history A ops n =
     (let es = filter (\<lambda>e. fst e = n) (List.map_filter (taint_event A) ops)
      in if es = [] then Untainted else snd (last es))"

text \<open>The pointer that a dereference node dereferences.\<close>

definition deref_operand :: "arena \<Rightarrow> node_offset \<Rightarrow> node_offset option" where
  "deref_operand A d =
     (case arena_get A d of
        Some nd \<Rightarrow> if kind nd = AST_UNOP \<and> node_data nd = OP_DEREF \<and> first_child nd \<noteq> 0
                   then Some (first_child nd) else None
      | None \<Rightarrow> None)"

lemma history_Nil [simp]: "history A [] n = Untainted"
  by (simp add: history_def List.map_filter_def)

lemma history_snoc:
  "history A (ops @ [op]) n =
     (case taint_event A op of Some (m, t) \<Rightarrow> if m = n then t else history A ops n | None \<Rightarrow> history A ops n)"
  by (auto simp: history_def List.map_filter_def Let_def split: option.split)

lemma run_ops_snoc: "run_ops A (ops @ [op]) = apply_op (run_ops A ops) op"
  by (simp add: run_ops_def)

lemma apply_op_arena [simp]: "an_arena (apply_op a op) = an_arena a"
  by (cases op) (auto simp: mark_freed_def mark_escaped_def emit_diagnostic_def analyze_dereference_def
      analyze_return_def analyze_function_exit_def register_call_site_def clear_diagnostics_def get_child_def
      split: option.split taint_state.split)

lemma run_ops_arena [simp]: "an_arena (run_ops A ops) = A"
  by (induction ops rule: rev_induct) (simp_all add: run_ops_snoc, simp add: run_ops_def analyzer_new_def)

lemma check_taint_apply:
  "check_taint (apply_op a op) n =
     (case taint_event (an_arena a) op of Some (m, t) \<Rightarrow> if m = n then t else check_taint a n | None \<Rightarrow> check_taint a n)"
  by (cases op) (auto simp: check_taint_def mark_freed_def mark_escaped_def emit_diagnostic_def analyze_dereference_def
      analyze_return_def analyze_function_exit_def register_call_site_def clear_diagnostics_def get_child_def
      split: option.split taint_state.split)

lemma check_taint_history: "check_taint (run_ops A ops) n = history A ops n"
proof (induction ops rule: rev_induct)
  case Nil
  show ?case by (simp add: run_ops_def analyzer_new_def check_taint_def)
qed (simp add: run_ops_snoc check_taint_apply history_snoc split: option.split)

lemma taint_event_self: "taint_event A op = Some (m, Tainted s) \<Longrightarrow> s = m"
  by (cases op) (auto split: option.splits if_splits)

lemma history_self: "history A ops n = Tainted s \<Longrightarrow> s = n"
  by (induction ops rule: rev_induct)
    (auto simp: history_snoc dest: taint_event_self split: option.splits if_splits)

text \<open>
  C16: Use after free, refined. After any sequence of calls the taint of a node is what the last
  call that concerns it has set, and \<open>detect_uaf\<close> reports a node exactly when this specification
  says that the node, or else the operand it dereferences, is freed; the report names that node
  as the freed one.
\<close>

theorem taint_refines_history:
  "check_taint (run_ops A ops) n = history A ops n \<and>
   detect_uaf (run_ops A ops) d =
     (if history A ops d = Tainted d then Some \<lparr>freed_node = d, deref_node = d, uaf_path = [d]\<rparr>
      else case deref_operand A d of
        Some c \<Rightarrow> if history A ops c = Tainted c
                  then Some \<lparr>freed_node = c, deref_node = d, uaf_path = [d, c]\<rparr> else None
      | None \<Rightarrow> None)"
  using history_self [of A ops]
  by (auto simp: check_taint_history detect_uaf_def deref_operand_def split: option.split taint_state.split)

text \<open>The dereference in step \<open>i\<close> of a sequence is reported as an error.\<close>

definition uaf_step :: "arena \<Rightarrow> alias_op list \<Rightarrow> nat \<Rightarrow> bool" where
  "uaf_step A ops i \<longleftrightarrow> (\<exists>d c. ops ! i = Deref d \<and> deref_operand A d = Some c \<and> history A (take i ops) c = Tainted c)"

lemma error_count_apply:
  "op \<noteq> Clear \<Longrightarrow> get_error_count (apply_op (run_ops A ops) op) = get_error_count (run_ops A ops) +
    (if \<exists>d c. op = Deref d \<and> deref_operand A d = Some c \<and> history A ops c = Tainted c then 1 else 0)"
proof (cases op)
  case (Deref d)
  show ?thesis
    using check_taint_history [of A ops] history_self [of A ops] unfolding Deref
    by (auto simp: analyze_dereference_def deref_operand_def get_child_def get_error_count_def emit_diagnostic_def
        split: option.split taint_state.split)
qed (auto simp: get_error_count_def mark_freed_def mark_escaped_def emit_diagnostic_def
      analyze_return_def analyze_function_exit_def register_call_site_def split: option.split)

lemma uaf_step_snoc: "i < length ops \<Longrightarrow> uaf_step A (ops @ [op]) i = uaf_step A ops i"
  by (simp add: uaf_step_def nth_append)

text \<open>
  The errors counted. As long as the diagnostics are not cleared, \<open>get_error_count\<close> is the
  number of calls that analysed the dereference of a pointer that was freed at that moment.
\<close>

theorem errors_counted:
  "Clear \<notin> set ops \<Longrightarrow> get_error_count (run_ops A ops) = card {i. i < length ops \<and> uaf_step A ops i}"
proof (induction ops rule: rev_induct)
  case Nil
  show ?case by (simp add: run_ops_def analyzer_new_def get_error_count_def)
next
  case (snoc op ops)
  let ?S = "{i. i < length ops \<and> uaf_step A ops i}"
  have "{i. i < length (ops @ [op]) \<and> uaf_step A (ops @ [op]) i} =
      ?S \<union> (if uaf_step A (ops @ [op]) (length ops) then {length ops} else {})"
    using uaf_step_snoc [of _ ops A op] by (auto simp: less_Suc_eq)
  then have "card {i. i < length (ops @ [op]) \<and> uaf_step A (ops @ [op]) i} =
      card ?S + (if uaf_step A (ops @ [op]) (length ops) then 1 else 0)" by simp
  moreover have "uaf_step A (ops @ [op]) (length ops) =
      (\<exists>d c. op = Deref d \<and> deref_operand A d = Some c \<and> history A ops c = Tainted c)"
    by (simp add: uaf_step_def)
  moreover have "op \<noteq> Clear" and e: "get_error_count (run_ops A ops) = card ?S" using snoc by auto
  ultimately show ?case using error_count_apply [OF \<open>op \<noteq> Clear\<close>, of A ops] by (simp only: run_ops_snoc e)
qed

text \<open>A freed pointer dereferenced twice, with an escape before a third time.\<close>

definition deref_node1 :: cast_node where
  "deref_node1 = (cast_node_new AST_UNOP)\<lparr>node_data := OP_DEREF, first_child := 2\<rparr>"

theorem errors_counted_witness:
  "\<exists>A. get_error_count (run_ops A [Free 2, Deref 1, Deref 1, Escape 2, Deref 1]) = 2"
proof -
  let ?ops = "[Free 2, Deref 1, Deref 1, Escape 2, Deref 1]"
  have "list_all node_wf [deref_node1, cast_node_new 60]"
    by (simp add: node_wf_def deref_node1_def cast_node_new_def source_unknown_def ast_codes)
  from arena_holding [OF this] obtain A where
    A: "\<forall>i. arena_get A i = (if 1 \<le> i \<and> i \<le> length [deref_node1, cast_node_new 60]
                            then Some ([deref_node1, cast_node_new 60] ! (i - 1)) else None)"
    by (auto simp del: One_nat_def)
  then have d: "deref_operand A 1 = Some 2"
    by (simp add: deref_operand_def deref_node1_def cast_node_new_def)
  have u: "uaf_step A ?ops i \<longleftrightarrow> i \<in> {1, 2}" if "i < 5" for i
  proof -
    from that consider "i = 0" | "i = 1" | "i = 2" | "i = 3" | "i = 4" by linarith
    then show ?thesis
      by cases (simp_all add: uaf_step_def d history_def List.map_filter_def eval_nat_numeral d [unfolded numeral_2_eq_2 One_nat_def])
  qed
  have "{i. i < length ?ops \<and> uaf_step A ?ops i} = {1, 2}"
    using u by auto
  then have "get_error_count (run_ops A ?ops) = card {1, 2 :: nat}"
    using errors_counted [of ?ops A] by (simp only:) simp
  then show ?thesis by (intro exI [of _ A]) simp
qed

end
