(* ===== verification/FileDb.thy ===== *)
theory FileDb
  imports Prelude "HOL-Library.AList"
begin

text \<open>
  The database of \<open>src/src/db.rs\<close>: a table from the hashes of files to their paths and a table from
  macro names to definitions.

  The tables live in a \<open>redb\<close> file. A call of \<open>redb\<close> may fail, which is the parameter \<open>failure\<close> of
  an operation: \<open>Some e\<close> when the transaction ends with the error \<open>e\<close> (nothing is committed then),
  \<open>None\<close> when it goes through. An operation returns its result and the tables after it.
\<close>

type_synonym file_hash = "u8 list"

record optic_db =
  file_hashes :: "(file_hash \<times> string) list"
  db_macros :: "(string \<times> string) list"

datatype db_error =
    Redb string
  | DbIo string
  | Transaction string
  | TableError string
  | Storage string
  | Commit string
  | DatabaseError string

fun db_error_display :: "db_error \<Rightarrow> string" where
  "db_error_display (Redb e) = ''redb error: '' @ e"
| "db_error_display (DbIo e) = ''IO error: '' @ e"
| "db_error_display (Transaction e) = ''transaction error: '' @ e"
| "db_error_display (TableError e) = ''table error: '' @ e"
| "db_error_display (Storage e) = ''storage error: '' @ e"
| "db_error_display (Commit e) = ''commit error: '' @ e"
| "db_error_display (DatabaseError e) = ''database error: '' @ e"

section \<open>Operations\<close>

text \<open>The database a successful \<open>new\<close> creates when the file does not exist.\<close>

definition db_new :: optic_db where
  "db_new = \<lparr>file_hashes = [], db_macros = []\<rparr>"

definition db_call :: "db_error option \<Rightarrow> optic_db \<Rightarrow> 'a \<times> optic_db \<Rightarrow> (db_error + 'a) \<times> optic_db" where
  "db_call failure db x = (case failure of Some e \<Rightarrow> (Inl e, db) | None \<Rightarrow> (Inr (fst x), snd x))"

definition insert_file_hash ::
  "db_error option \<Rightarrow> optic_db \<Rightarrow> file_hash \<Rightarrow> string \<Rightarrow> (db_error + unit) \<times> optic_db" where
  "insert_file_hash failure db hash file_path =
     db_call failure db ((), db\<lparr>file_hashes := AList.update hash file_path (file_hashes db)\<rparr>)"

definition get_file_path_by_hash ::
  "db_error option \<Rightarrow> optic_db \<Rightarrow> file_hash \<Rightarrow> (db_error + string option) \<times> optic_db" where
  "get_file_path_by_hash failure db hash = db_call failure db (map_of (file_hashes db) hash, db)"

definition contains_file_hash ::
  "db_error option \<Rightarrow> optic_db \<Rightarrow> file_hash \<Rightarrow> (db_error + bool) \<times> optic_db" where
  "contains_file_hash failure db hash = db_call failure db (map_of (file_hashes db) hash \<noteq> None, db)"

definition insert_macro :: "db_error option \<Rightarrow> optic_db \<Rightarrow> string \<Rightarrow> string \<Rightarrow> (db_error + unit) \<times> optic_db" where
  "insert_macro failure db name definition_text =
     db_call failure db ((), db\<lparr>db_macros := AList.update name definition_text (db_macros db)\<rparr>)"

definition get_macro :: "db_error option \<Rightarrow> optic_db \<Rightarrow> string \<Rightarrow> (db_error + string option) \<times> optic_db" where
  "get_macro failure db name = db_call failure db (map_of (db_macros db) name, db)"

definition remove_file_hash ::
  "db_error option \<Rightarrow> optic_db \<Rightarrow> file_hash \<Rightarrow> (db_error + string option) \<times> optic_db" where
  "remove_file_hash failure db hash =
     db_call failure db (map_of (file_hashes db) hash, db\<lparr>file_hashes := AList.delete hash (file_hashes db)\<rparr>)"

definition remove_macro :: "db_error option \<Rightarrow> optic_db \<Rightarrow> string \<Rightarrow> (db_error + string option) \<times> optic_db" where
  "remove_macro failure db name =
     db_call failure db (map_of (db_macros db) name, db\<lparr>db_macros := AList.delete name (db_macros db)\<rparr>)"

definition file_hash_count :: "db_error option \<Rightarrow> optic_db \<Rightarrow> (db_error + u64) \<times> optic_db" where
  "file_hash_count failure db = db_call failure db (length (file_hashes db), db)"

definition macro_count :: "db_error option \<Rightarrow> optic_db \<Rightarrow> (db_error + u64) \<times> optic_db" where
  "macro_count failure db = db_call failure db (length (db_macros db), db)"

section \<open>The index of files\<close>

text \<open>What a client of the table of hashes relies on.\<close>

locale hash_index =
  fixes member :: "'s \<Rightarrow> 'h \<Rightarrow> bool"
    and insert_hash :: "'s \<Rightarrow> 'h \<Rightarrow> 's"
  assumes member_insert: "member (insert_hash s h) k \<longleftrightarrow> k = h \<or> member s k"
begin

lemma member_inserts: "member (fold (\<lambda>h s. insert_hash s h) hs s) k \<longleftrightarrow> k \<in> set hs \<or> member s k"
  by (induction hs arbitrary: s) (auto simp: member_insert)

text \<open>Each hash passes the test of a first occurrence once.\<close>

fun admitted :: "'s \<Rightarrow> 'h list \<Rightarrow> 'h list" where
  "admitted s [] = []"
| "admitted s (h # hs) = (if member s h then admitted s hs else h # admitted (insert_hash s h) hs)"

lemma admitted_set: "set (admitted s hs) = {h \<in> set hs. \<not> member s h}"
  by (induction hs arbitrary: s) (auto simp: member_insert)

lemma admitted_distinct: "distinct (admitted s hs)"
  by (induction hs arbitrary: s) (auto simp: member_insert admitted_set)

end

text \<open>\<open>contains_file_hash(..).unwrap_or(false)\<close> and \<open>insert_file_hash(..).unwrap_or(())\<close>.\<close>

definition knows_file :: "db_error option \<Rightarrow> optic_db \<Rightarrow> file_hash \<Rightarrow> bool" where
  "knows_file failure db hash = (case fst (contains_file_hash failure db hash) of Inr b \<Rightarrow> b | Inl _ \<Rightarrow> False)"

definition note_file :: "db_error option \<Rightarrow> optic_db \<Rightarrow> file_hash \<Rightarrow> string \<Rightarrow> optic_db" where
  "note_file failure db hash path = snd (insert_file_hash failure db hash path)"

lemma knows_file_None: "knows_file None db h \<longleftrightarrow> h \<in> dom (map_of (file_hashes db))"
  by (auto simp: knows_file_def contains_file_hash_def db_call_def)

interpretation files: hash_index "knows_file None" "\<lambda>db h. note_file None db h path"
  by unfold_locales
    (auto simp: knows_file_None note_file_def insert_file_hash_def db_call_def update_conv' split: if_splits)

text \<open>A history of the table of hashes against a map.\<close>

definition table_map :: "optic_db \<Rightarrow> (file_hash \<rightharpoonup> string) \<times> (string \<rightharpoonup> string)" where
  "table_map db = (map_of (file_hashes db), map_of (db_macros db))"

definition tables_distinct :: "optic_db \<Rightarrow> bool" where
  "tables_distinct db \<longleftrightarrow> distinct (map fst (file_hashes db)) \<and> distinct (map fst (db_macros db))"

datatype db_op =
    InsertHash file_hash string
  | RemoveHash file_hash
  | InsertMacro string string
  | RemoveMacro string

fun db_run :: "optic_db \<Rightarrow> (db_op \<times> db_error option) list \<Rightarrow> optic_db" where
  "db_run db [] = db"
| "db_run db ((op, failure) # ops) =
     db_run
       (case op of
          InsertHash h p \<Rightarrow> snd (insert_file_hash failure db h p)
        | RemoveHash h \<Rightarrow> snd (remove_file_hash failure db h)
        | InsertMacro n d \<Rightarrow> snd (insert_macro failure db n d)
        | RemoveMacro n \<Rightarrow> snd (remove_macro failure db n)) ops"

text \<open>The specification: two maps, and failed calls change nothing.\<close>

fun spec_op :: "db_op \<Rightarrow> (file_hash \<rightharpoonup> string) \<times> (string \<rightharpoonup> string) \<Rightarrow> (file_hash \<rightharpoonup> string) \<times> (string \<rightharpoonup> string)" where
  "spec_op (InsertHash h p) (f, m) = (f(h \<mapsto> p), m)"
| "spec_op (RemoveHash h) (f, m) = (f(h := None), m)"
| "spec_op (InsertMacro n d) (f, m) = (f, m(n \<mapsto> d))"
| "spec_op (RemoveMacro n) (f, m) = (f, m(n := None))"

definition committed :: "(db_op \<times> db_error option) list \<Rightarrow> db_op list" where
  "committed ops = map fst (filter (\<lambda>x. snd x = None) ops)"

lemmas db_ops = insert_file_hash_def remove_file_hash_def insert_macro_def remove_macro_def db_call_def

lemma db_run_table: "table_map (db_run db ops) = fold spec_op (committed ops) (table_map db)"
proof (induction db ops rule: db_run.induct)
  case (2 db op failure ops)
  then show ?case
    by (cases op; cases failure)
      (auto simp: db_ops committed_def table_map_def update_conv' delete_conv')
qed (simp add: committed_def)

lemma db_run_distinct: "tables_distinct db \<Longrightarrow> tables_distinct (db_run db ops)"
proof (induction db ops rule: db_run.induct)
  case (2 db op failure ops)
  then show ?case
    by (cases op; cases failure) (auto simp: db_ops tables_distinct_def distinct_update distinct_delete)
qed simp


end
