(* ===== verification/PpTokens.thy ===== *)
theory PpTokens
  imports Prelude
begin

text \<open>
  The tokens of the preprocessor (\<open>src/src/frontend/preprocessor.rs\<close>), its two tokenizers and the
  conversions between its two kinds of tokens.

  Source text is ASCII. A \<open>Peekable<Chars>\<close> is the list of the characters that are left. Lines and
  columns are \<open>u32\<close> in the code and unbounded here: they do not exceed the length of the source
  plus the base line.
\<close>

section \<open>Tokens\<close>

datatype ctoken_kind =
    T_Identifier
  | T_Keyword
  | T_IntLiteral
  | T_FloatLiteral
  | T_CharLiteral
  | T_StringLiteral
  | T_Punctuator
  | T_Preprocessor
  | T_Whitespace
  | T_Comment
  | T_EndOfFile

fun ctoken_kind_display :: "ctoken_kind \<Rightarrow> string" where
  "ctoken_kind_display T_Identifier = ''identifier''"
| "ctoken_kind_display T_Keyword = ''keyword''"
| "ctoken_kind_display T_IntLiteral = ''int literal''"
| "ctoken_kind_display T_FloatLiteral = ''float literal''"
| "ctoken_kind_display T_CharLiteral = ''char literal''"
| "ctoken_kind_display T_StringLiteral = ''string literal''"
| "ctoken_kind_display T_Punctuator = ''punctuator''"
| "ctoken_kind_display T_Preprocessor = ''preprocessor''"
| "ctoken_kind_display T_Whitespace = ''whitespace''"
| "ctoken_kind_display T_Comment = ''comment''"
| "ctoken_kind_display T_EndOfFile = ''end of file''"

record ctoken =
  ct_kind :: ctoken_kind
  ct_text :: string
  ct_line :: u32
  ct_column :: u32
  ct_file :: string

definition ctoken_new :: "ctoken_kind \<Rightarrow> string \<Rightarrow> u32 \<Rightarrow> u32 \<Rightarrow> string \<Rightarrow> ctoken" where
  "ctoken_new k text line column file =
     \<lparr>ct_kind = k, ct_text = text, ct_line = line, ct_column = column, ct_file = file\<rparr>"

lemma ctoken_new_simps [simp]:
  "ct_kind (ctoken_new k t l c f) = k" "ct_text (ctoken_new k t l c f) = t" "ct_line (ctoken_new k t l c f) = l"
  "ct_column (ctoken_new k t l c f) = c" "ct_file (ctoken_new k t l c f) = f"
  by (simp_all add: ctoken_new_def)

definition ctoken_is_whitespace :: "ctoken \<Rightarrow> bool" where
  "ctoken_is_whitespace t \<longleftrightarrow> ct_kind t = T_Whitespace"

definition ctoken_is_newline :: "ctoken \<Rightarrow> bool" where
  "ctoken_is_newline t \<longleftrightarrow> ct_kind t = T_Whitespace \<and> CHR 0x0A \<in> set (ct_text t)"

text \<open>An \<open>io::Error\<close> is given by its message.\<close>

datatype pp_error =
    FileNotFound string
  | IncludeError string string
  | MacroError string
  | ConditionalError string
  | DbError string
  | IoError string

fun pp_error_display :: "pp_error \<Rightarrow> string" where
  "pp_error_display (FileNotFound path) = ''file not found: '' @ path"
| "pp_error_display (IncludeError file reason) = ''include error in '' @ file @ '': '' @ reason"
| "pp_error_display (MacroError msg) = ''macro error: '' @ msg"
| "pp_error_display (ConditionalError msg) = ''conditional error: '' @ msg"
| "pp_error_display (DbError msg) = ''database error: '' @ msg"
| "pp_error_display (IoError e) = ''I/O error: '' @ e"

text \<open>\<open>MacroDefinition\<close>: object-like macros, and function-like ones with their parameters, whether
  they are variadic, and the name of the variadic parameter.\<close>

datatype pp_macro =
    PObject "ctoken list"
  | PFunction "string list" bool "string option" "ctoken list"

datatype pp_kind =
    P_Identifier
  | P_Number
  | P_StringLit
  | P_CharLit
  | P_Punctuator
  | P_Whitespace
  | P_Newline
  | P_Hash
  | P_HashHash

record pp_token =
  pt_kind :: pp_kind
  pt_text :: string
  pt_line :: u32
  pt_column :: u32

section \<open>Words and punctuators\<close>

definition pp_keywords :: "string list" where
  "pp_keywords =
     [''auto'', ''break'', ''case'', ''char'', ''const'', ''continue'', ''default'', ''do'', ''double'',
      ''else'', ''enum'', ''extern'', ''float'', ''for'', ''goto'', ''if'', ''inline'', ''int'', ''long'',
      ''register'', ''restrict'', ''return'', ''short'', ''signed'', ''sizeof'', ''static'', ''struct'',
      ''switch'', ''typedef'', ''union'', ''unsigned'', ''void'', ''volatile'', ''while'',
      ''_Thread_local'', ''__thread'', ''_Bool'', ''_Complex'', ''_Imaginary'']"

definition pp_is_keyword :: "string \<Rightarrow> bool" where
  "pp_is_keyword text \<longleftrightarrow> text \<in> set pp_keywords"

definition is_two_char_punctuator :: "string \<Rightarrow> bool" where
  "is_two_char_punctuator text \<longleftrightarrow> text \<in> set
     [''=='', ''!='', ''<='', ''>='', ''&&'', ''||'', ''<<'', ''>>'', ''++'', ''--'', ''->'', ''+='',
      ''-='', ''*='', ''/='', ''%='', ''&='', ''|='', ''^='', ''##'']"

definition pp_blank :: "char \<Rightarrow> bool" where
  "pp_blank c \<longleftrightarrow> c = CHR 0x20 \<or> c = CHR 0x09 \<or> c = CHR 0x0D"

definition pp_number_char :: "char \<Rightarrow> bool" where
  "pp_number_char c \<longleftrightarrow> is_alpha c \<or> is_digit c \<or> c = CHR ''.''"

definition pp_ident_char :: "char \<Rightarrow> bool" where
  "pp_ident_char c \<longleftrightarrow> is_alpha c \<or> is_digit c \<or> c = CHR ''_''"

text \<open>A literal after its opening quote: its text with the closing quote, and what is left.\<close>

fun quoted :: "char \<Rightarrow> string \<Rightarrow> string \<times> string" where
  "quoted q [] = ([], [])"
| "quoted q (c # cs) =
     (if c = q then ([c], cs)
      else if c = CHR 0x5C then
        (case cs of
           [] \<Rightarrow> ([c], [])
         | d # ds \<Rightarrow> (case quoted q ds of (t, r) \<Rightarrow> (c # d # t, r)))
      else (case quoted q cs of (t, r) \<Rightarrow> (c # t, r)))"

text \<open>A punctuator of more than one character that starts with \<open>ch\<close>: its text, and what is left
  of the characters after \<open>ch\<close>.\<close>

definition pair_punct :: "char \<Rightarrow> string \<Rightarrow> (string \<times> string) option" where
  "pair_punct ch cs =
     (case cs of
        [] \<Rightarrow> None
      | d # ds \<Rightarrow>
          let two_char = [ch, d] in
          if two_char = ''<<'' \<or> two_char = ''>>'' then
            (case ds of
               e # es \<Rightarrow> if e = CHR ''='' then Some (two_char @ ''='', es) else Some (two_char, ds)
             | [] \<Rightarrow> Some (two_char, ds))
          else if is_two_char_punctuator two_char then Some (two_char, ds)
          else None)"

definition number_kind :: "string \<Rightarrow> ctoken_kind" where
  "number_kind num =
     (if CHR ''.'' \<in> set num \<or> CHR ''e'' \<in> set num \<or> CHR ''E'' \<in> set num
      then T_FloatLiteral else T_IntLiteral)"

lemma quoted_append: "quoted q cs = (t, r) \<Longrightarrow> cs = t @ r"
proof (induction q cs arbitrary: t r rule: quoted.induct)
  case (2 q c cs)
  then show ?case by (auto split: if_splits list.splits prod.splits)
qed simp

lemma pair_punct_append: "pair_punct ch cs = Some (t, r) \<Longrightarrow> ch # cs = t @ r \<and> 2 \<le> length t"
  by (auto simp: pair_punct_def Let_def split: list.splits if_splits)

lemma length_quoted: "quoted q cs = (t, r) \<Longrightarrow> length r \<le> length cs"
  by (drule quoted_append) simp

lemma length_pair_punct: "pair_punct ch cs = Some (t, r) \<Longrightarrow> length r < length cs"
proof -
  assume "pair_punct ch cs = Some (t, r)"
  from pair_punct_append [OF this] have "length (ch # cs) = length t + length r" "2 \<le> length t"
    by (metis length_append, blast)
  then show ?thesis by simp
qed

section \<open>Replacement lists given as text\<close>

definition plain_token :: "ctoken_kind \<Rightarrow> string \<Rightarrow> ctoken" where
  "plain_token k text = ctoken_new k text 0 0 []"

text \<open>One round of the loop of \<open>tokenize_replacement_static\<close>.\<close>

definition replacement_step :: "char \<Rightarrow> string \<Rightarrow> ctoken list \<times> string" where
  "replacement_step ch cs =
     (if pp_blank ch then
        ([plain_token T_Whitespace (takeWhile pp_blank (ch # cs))], dropWhile pp_blank (ch # cs))
      else if ch = CHR 0x0A then ([], cs)
      else if ch = CHR 0x22 then
        (case quoted (CHR 0x22) cs of (t, r) \<Rightarrow> ([plain_token T_StringLiteral (ch # t)], r))
      else if ch = CHR 0x27 then
        (case quoted (CHR 0x27) cs of (t, r) \<Rightarrow> ([plain_token T_CharLiteral (ch # t)], r))
      else if is_digit ch then
        let num = takeWhile pp_number_char (ch # cs)
        in ([plain_token (number_kind num) num], dropWhile pp_number_char (ch # cs))
      else if is_alpha ch \<or> ch = CHR ''_'' then
        let ident = takeWhile pp_ident_char (ch # cs)
        in ([plain_token (if pp_is_keyword ident then T_Keyword else T_Identifier) ident],
            dropWhile pp_ident_char (ch # cs))
      else if ch = CHR ''#'' then
        (case cs of
           d # ds \<Rightarrow> if d = CHR ''#'' then ([plain_token T_Punctuator ''##''], ds)
                     else ([plain_token T_Punctuator ''#''], cs)
         | [] \<Rightarrow> ([plain_token T_Punctuator ''#''], cs))
      else if ch = CHR ''.'' \<and> take 1 cs = ''.'' then
        (if take 2 cs = ''..'' then ([plain_token T_Punctuator ''...''], drop 2 cs)
         else ([plain_token T_Punctuator [ch]], cs))
      else
        (case pair_punct ch cs of
           Some (t, r) \<Rightarrow> ([plain_token T_Punctuator t], r)
         | None \<Rightarrow> ([plain_token T_Punctuator [ch]], cs)))"

lemma pp_char_classes: "is_digit c \<Longrightarrow> pp_number_char c" "is_alpha c \<or> c = CHR ''_'' \<Longrightarrow> pp_ident_char c"
  by (auto simp: pp_number_char_def pp_ident_char_def)

lemma replacement_step_less: "length (snd (replacement_step ch cs)) \<le> length cs"
proof -
  have q: "length (snd (quoted q cs)) \<le> length cs" for q
    using length_quoted [of q cs] by (cases "quoted q cs") simp
  have p: "length (snd (case pair_punct ch cs of Some (t, r) \<Rightarrow> ([plain_token T_Punctuator t], r)
      | None \<Rightarrow> ([plain_token T_Punctuator [ch]], cs))) \<le> length cs"
    by (auto split: option.split dest: length_pair_punct)
  have d: "length (dropWhile P (ch # cs)) \<le> length cs" if "P ch" for P
    using that by (simp add: length_dropWhile_le)
  show ?thesis
    unfolding replacement_step_def Let_def case_prod_beta
    using p [unfolded case_prod_beta]
    by (simp add: q d pp_char_classes del: dropWhile.simps split: list.split)
qed

function tokenize_replacement :: "string \<Rightarrow> ctoken list" where
  "tokenize_replacement [] = []"
| "tokenize_replacement (ch # cs) =
     (case replacement_step ch cs of (ts, rest) \<Rightarrow> ts @ tokenize_replacement rest)"
  by pat_completeness auto
termination
  by (relation "measure length") (use replacement_step_less in \<open>auto simp: less_Suc_eq_le, metis snd_conv\<close>)

section \<open>Source text\<close>

text \<open>A backslash at the end of a line: what is left after it.\<close>

fun line_splice :: "string \<Rightarrow> string option" where
  "line_splice (a # b # cs) =
     (if a \<noteq> CHR 0x5C then None
      else if b = CHR 0x0A then Some cs
      else if b = CHR 0x0D then (case cs of c # r \<Rightarrow> if c = CHR 0x0A then Some r else None | [] \<Rightarrow> None)
      else None)"
| "line_splice _ = None"

text \<open>The rest of a block comment: its text, what is left, and the position after it.\<close>

fun block_rest :: "string \<Rightarrow> u32 \<Rightarrow> u32 \<Rightarrow> string \<times> string \<times> u32 \<times> u32" where
  "block_rest [] line col = ([], [], line, col)"
| "block_rest (c # cs) line col =
     (if c = CHR ''*'' \<and> take 1 cs = ''/'' then (''*/'', drop 1 cs, line, col + 2)
      else
        case (if c = CHR 0x0A then block_rest cs (line + 1) 1 else block_rest cs line (col + 1)) of
          (t, r, l, k) \<Rightarrow> (c # t, r, l, k))"

text \<open>A line comment takes its line feed with it.\<close>

definition line_comment :: "string \<Rightarrow> string \<times> string" where
  "line_comment cs =
     (let body = takeWhile (\<lambda>c. c \<noteq> CHR 0x0A) cs; rest = dropWhile (\<lambda>c. c \<noteq> CHR 0x0A) cs
      in (body @ take 1 rest, drop 1 rest))"

definition pp_tok :: "pp_kind \<Rightarrow> string \<Rightarrow> u32 \<Rightarrow> u32 \<Rightarrow> pp_token" where
  "pp_tok k text line column = \<lparr>pt_kind = k, pt_text = text, pt_line = line, pt_column = column\<rparr>"

lemma pp_tok_simps [simp]:
  "pt_kind (pp_tok k t l c) = k" "pt_text (pp_tok k t l c) = t" "pt_line (pp_tok k t l c) = l"
  "pt_column (pp_tok k t l c) = c"
  by (simp_all add: pp_tok_def)

text \<open>
  One round of the loop of \<open>tokenize_pp_source\<close> at a character that does not start a line splice:
  the token, the characters that are left, and the new position.
\<close>

definition pp_step :: "char \<Rightarrow> string \<Rightarrow> u32 \<Rightarrow> u32 \<Rightarrow> pp_token \<times> string \<times> u32 \<times> u32" where
  "pp_step ch cs line col =
     (if ch = CHR 0x0A then (pp_tok P_Newline [CHR 0x0A] line col, cs, line + 1, 1)
      else if pp_blank ch then
        let ws = takeWhile pp_blank (ch # cs)
        in (pp_tok P_Whitespace ws line (col + length ws), dropWhile pp_blank (ch # cs), line, col + length ws)
      else if ch = CHR 0x22 then
        (case quoted (CHR 0x22) cs of (t, r) \<Rightarrow>
           (pp_tok P_StringLit (ch # t) line col, r, line, col + 1 + length t))
      else if ch = CHR 0x27 then
        (case quoted (CHR 0x27) cs of (t, r) \<Rightarrow>
           (pp_tok P_CharLit (ch # t) line col, r, line, col + 1 + length t))
      else if ch = CHR ''/'' \<and> take 1 cs = ''/'' then
        (case line_comment (ch # cs) of (t, r) \<Rightarrow>
           (pp_tok P_Whitespace t line col, r, line, col + length t))
      else if ch = CHR ''/'' \<and> take 1 cs = ''*'' then
        (case block_rest (drop 1 cs) line (col + 2) of (t, r, l, k) \<Rightarrow>
           (pp_tok P_Whitespace (''/*'' @ t) l col, r, l, k))
      else if is_digit ch then
        let num = takeWhile pp_number_char (ch # cs)
        in (pp_tok P_Number num line col, dropWhile pp_number_char (ch # cs), line, col + length num)
      else if is_alpha ch \<or> ch = CHR ''_'' then
        let ident = takeWhile pp_ident_char (ch # cs)
        in (pp_tok P_Identifier ident line col, dropWhile pp_ident_char (ch # cs), line, col + length ident)
      else if ch = CHR ''#'' then
        (if take 1 cs = ''#'' then (pp_tok P_HashHash ''##'' line col, drop 1 cs, line, col + 2)
         else (pp_tok P_Hash ''#'' line col, cs, line, col + 1))
      else
        let col1 = col + 1;
            (text, cs1, col2) =
              (if ch = CHR ''.'' \<and> take 2 cs = ''..'' then (''...'', drop 2 cs, col1 + 2) else ([ch], cs, col1))
        in case pair_punct ch cs1 of
             Some (t, r) \<Rightarrow> (pp_tok P_Punctuator t line col, r, line, col2 + (length t - 1))
           | None \<Rightarrow> (pp_tok P_Punctuator text line col, cs1, line, col2))"

lemma line_splice_less: "line_splice cs = Some r \<Longrightarrow> length r < length cs"
  by (cases cs rule: line_splice.cases) (auto split: if_splits list.splits)

lemma block_rest_append: "block_rest cs line col = (t, r, l, k) \<Longrightarrow> t @ r = cs"
proof (induction cs line col arbitrary: t r l k rule: block_rest.induct)
  case (2 c cs line col)
  show ?case
  proof (cases "c = CHR ''*'' \<and> take 1 cs = ''/''")
    case True
    with 2(3) show ?thesis by (cases cs) auto
  next
    case False
    with 2 show ?thesis by (auto split: if_splits prod.splits)
  qed
qed simp

lemma line_comment_append: "line_comment cs = (t, r) \<Longrightarrow> t @ r = cs"
  by (auto simp: line_comment_def Let_def append_take_drop_id)

text \<open>A round takes a non-empty piece of the text off the front.\<close>

definition takes :: "string \<Rightarrow> pp_token \<times> string \<times> u32 \<times> u32 \<Rightarrow> bool" where
  "takes chars x \<longleftrightarrow> pt_text (fst x) @ fst (snd x) = chars \<and> pt_text (fst x) \<noteq> []"

lemma takes_if: "(b \<Longrightarrow> takes cs x) \<Longrightarrow> (\<not> b \<Longrightarrow> takes cs y) \<Longrightarrow> takes cs (if b then x else y)"
  by simp

lemma takes_span:
  "P ch \<Longrightarrow> takes (ch # cs) (pp_tok k (takeWhile P (ch # cs)) l c, dropWhile P (ch # cs), p)"
  by (simp add: takes_def)

lemma takes_quoted: "takes (ch # cs) (case quoted q cs of (t, r) \<Rightarrow> (pp_tok k (ch # t) l c, r, f t))"
  by (auto simp: takes_def dest: quoted_append split: prod.split)

lemma takes_one: "ch = d \<Longrightarrow> takes (ch # cs) (pp_tok k [d] l c, cs, p)"
  by (simp add: takes_def)

lemma takes_two: "take 1 cs = [d] \<Longrightarrow> takes (ch # cs) (pp_tok k [ch, d] l c, drop 1 cs, p)"
  by (cases cs) (simp_all add: takes_def)

lemma takes_line_comment: "takes (ch # cs) (case line_comment (ch # cs) of (t, r) \<Rightarrow> (pp_tok k t l c, r, f t))"
proof -
  obtain t r where "line_comment (ch # cs) = (t, r)" by fastforce
  moreover from line_comment_append [OF this] have "t @ r = ch # cs" .
  moreover from calculation have "t \<noteq> []"
    by (cases "ch = CHR 0x0A") (auto simp: line_comment_def Let_def)
  ultimately show ?thesis by (simp add: takes_def)
qed

lemma takes_block_comment:
  "take 1 cs = ''*'' \<Longrightarrow> takes (CHR ''/'' # cs)
    (case block_rest (drop 1 cs) l0 c0 of (t, r, l, k) \<Rightarrow> (pp_tok knd (''/*'' @ t) l c, r, l, k))"
  by (cases cs) (auto simp: takes_def dest: block_rest_append split: prod.split)

lemma takes_punct:
  "takes (ch # cs)
    (let (text, cs1, col2) =
       (if ch = CHR ''.'' \<and> take 2 cs = ''..'' then (''...'', drop 2 cs, c1) else ([ch], cs, c2))
     in case pair_punct ch cs1 of
          Some (t, r) \<Rightarrow> (pp_tok k t l c, r, f t col2)
        | None \<Rightarrow> (pp_tok k text l c, cs1, g col2))"
proof (cases "ch = CHR ''.'' \<and> take 2 cs = ''..''")
  case True
  then have "cs = ''..'' @ drop 2 cs" by (metis append_take_drop_id)
  moreover have "pair_punct (CHR ''.'') ds = None" for ds
    by (auto simp: pair_punct_def is_two_char_punctuator_def split: list.split)
  ultimately show ?thesis using True by (simp add: takes_def)
next
  case False
  then show ?thesis
    by (auto simp: takes_def dest!: pair_punct_append split: option.split)
qed

lemma pp_step_takes: "takes (ch # cs) (pp_step ch cs line col)"
  unfolding pp_step_def Let_def [of "col + 1"] Let_def [of "takeWhile P x" for P x]
  by (intro takes_if takes_span takes_quoted takes_one takes_line_comment takes_punct)
    (auto simp: pp_char_classes intro: takes_two [simplified] takes_block_comment [simplified])

lemma pp_step_append:
  "pp_step ch cs line col = (t, rest, l, k) \<Longrightarrow> pt_text t @ rest = ch # cs \<and> pt_text t \<noteq> []"
  using pp_step_takes [of ch cs line col] by (simp add: takes_def)

lemma pp_step_less:
  assumes "pp_step ch cs line col = (t, rest, l, k)"
  shows "length rest < Suc (length cs)"
proof -
  note a = pp_step_append [OF assms]
  then have "length (pt_text t) + length rest = Suc (length cs)"
    by (metis length_Cons length_append)
  with a show ?thesis by (cases "pt_text t") auto
qed

function tokenize_pp :: "string \<Rightarrow> u32 \<Rightarrow> u32 \<Rightarrow> pp_token list" where
  "tokenize_pp chars line col =
     (case chars of
        [] \<Rightarrow> []
      | ch # cs \<Rightarrow>
          (case line_splice chars of
             Some rest \<Rightarrow> tokenize_pp rest (line + 1) 1
           | None \<Rightarrow>
               (case pp_step ch cs line col of (t, rest, l, k) \<Rightarrow> t # tokenize_pp rest l k)))"
  by pat_completeness auto
termination
  by (relation "measure (\<lambda>(cs, _, _). length cs)")
    (auto dest: line_splice_less dest!: sym [of _ "pp_step _ _ _ _"] pp_step_less)

declare tokenize_pp.simps [simp del]

definition tokenize_pp_source :: "string \<Rightarrow> u32 \<Rightarrow> pp_token list" where
  "tokenize_pp_source source base_line = tokenize_pp source base_line 1"

section \<open>Conversions\<close>

definition pp_to_ctoken :: "string \<Rightarrow> pp_token \<Rightarrow> ctoken" where
  "pp_to_ctoken file t =
     ctoken_new
       (case pt_kind t of
          P_Identifier \<Rightarrow> if pp_is_keyword (pt_text t) then T_Keyword else T_Identifier
        | P_Number \<Rightarrow> number_kind (pt_text t)
        | P_StringLit \<Rightarrow> T_StringLiteral
        | P_CharLit \<Rightarrow> T_CharLiteral
        | P_Punctuator \<Rightarrow> T_Punctuator
        | P_Hash \<Rightarrow> T_Punctuator
        | P_HashHash \<Rightarrow> T_Punctuator
        | P_Whitespace \<Rightarrow> T_Whitespace
        | P_Newline \<Rightarrow> T_Whitespace)
       (pt_text t) (pt_line t) (pt_column t) file"

definition pp_tokens_to_tokens :: "pp_token list \<Rightarrow> string \<Rightarrow> ctoken list" where
  "pp_tokens_to_tokens ts file = map (pp_to_ctoken file) (filter (\<lambda>t. pt_kind t \<noteq> P_Newline) ts)"

definition ctoken_to_pp :: "ctoken \<Rightarrow> pp_token" where
  "ctoken_to_pp t =
     pp_tok
       (case ct_kind t of
          T_Identifier \<Rightarrow> P_Identifier | T_Keyword \<Rightarrow> P_Identifier
        | T_IntLiteral \<Rightarrow> P_Number | T_FloatLiteral \<Rightarrow> P_Number
        | T_StringLiteral \<Rightarrow> P_StringLit
        | T_CharLiteral \<Rightarrow> P_CharLit
        | T_Punctuator \<Rightarrow> P_Punctuator | T_Preprocessor \<Rightarrow> P_Punctuator
        | T_Whitespace \<Rightarrow> P_Whitespace | T_Comment \<Rightarrow> P_Whitespace
        | T_EndOfFile \<Rightarrow> P_Newline)
       (ct_text t) (ct_line t) (ct_column t)"

definition tokens_to_pp_tokens :: "ctoken list \<Rightarrow> pp_token list" where
  "tokens_to_pp_tokens = map ctoken_to_pp"

section \<open>Properties\<close>

text \<open>\<open>splices s out\<close>: \<open>out\<close> is \<open>s\<close> without some of its line splices.\<close>

inductive splices :: "string \<Rightarrow> string \<Rightarrow> bool" where
  splices_Nil: "splices [] []"
| splices_keep: "splices cs out \<Longrightarrow> splices (c # cs) (c # out)"
| splices_cut: "line_splice cs = Some r \<Longrightarrow> splices r out \<Longrightarrow> splices cs out"

lemma splices_append: "splices cs out \<Longrightarrow> splices (t @ cs) (t @ out)"
  by (induction t) (auto intro: splices_keep)

lemma tokenize_pp_splices:
  "splices cs (concat (map pt_text (tokenize_pp cs line col))) \<and> list_all (\<lambda>t. pt_text t \<noteq> []) (tokenize_pp cs line col)"
proof (induction cs line col rule: tokenize_pp.induct)
  case (1 chars line col)
  show ?case
  proof (cases chars)
    case Nil
    then show ?thesis by (simp add: tokenize_pp.simps [of "[]"] splices_Nil)
  next
    case (Cons ch cs)
    show ?thesis
    proof (cases "line_splice chars")
      case None
      obtain t rest l k where s: "pp_step ch cs line col = (t, rest, l, k)" by (metis prod_cases4)
      note a = pp_step_append [OF s]
      have "tokenize_pp chars line col = t # tokenize_pp rest l k"
        using Cons None s by (simp add: tokenize_pp.simps [of "ch # cs"])
      moreover have IH: "splices rest (concat (map pt_text (tokenize_pp rest l k))) \<and>
          list_all (\<lambda>t. pt_text t \<noteq> []) (tokenize_pp rest l k)"
        by (rule "1.IH"(1) [OF Cons None]) (use s in auto)
      then have "splices (pt_text t @ rest) (pt_text t @ concat (map pt_text (tokenize_pp rest l k)))"
        by (intro splices_append) blast
      ultimately show ?thesis using a Cons IH by simp
    next
      case (Some rest)
      have "tokenize_pp chars line col = tokenize_pp rest (line + 1) 1"
        using Cons Some by (simp add: tokenize_pp.simps [of "ch # cs"])
      with "1.IH"(2) [OF Cons Some] Some show ?thesis by (auto intro: splices_cut)
    qed
  qed
qed

text \<open>
  C28: Tokenizing loses nothing but line splices. The texts of the tokens that
  \<open>tokenize_pp_source\<close> makes, put together, are the source with some of its line splices cut out,
  and no token is empty.
\<close>

theorem pp_tokens_lossless:
  "splices source (concat (map pt_text (tokenize_pp_source source base_line))) \<and>
   list_all (\<lambda>t. pt_text t \<noteq> []) (tokenize_pp_source source base_line)"
  using tokenize_pp_splices by (simp add: tokenize_pp_source_def)

text \<open>
  A line comment takes its line feed along. The comment becomes one white-space token that
  ends with the line feed; there is no newline token for the end of the line, and the tokens after
  it keep the line number of the comment.
\<close>

theorem line_comment_hides_newline:
  assumes "CHR 0x0A \<notin> set body"
  shows "tokenize_pp (''//'' @ body @ CHR 0x0A # rest) line col =
    pp_tok P_Whitespace (''//'' @ body @ [CHR 0x0A]) line col # tokenize_pp rest line (col + length body + 3)"
proof -
  have "takeWhile (\<lambda>c. c \<noteq> CHR 0x0A) (body @ CHR 0x0A # rest) = body"
    "dropWhile (\<lambda>c. c \<noteq> CHR 0x0A) (body @ CHR 0x0A # rest) = CHR 0x0A # rest"
    using assms by (auto simp: takeWhile_append dropWhile_append)
  then have "line_comment (''//'' @ body @ CHR 0x0A # rest) = (''//'' @ body @ [CHR 0x0A], rest)"
    by (simp add: line_comment_def Let_def)
  then have "pp_step (CHR ''/'') (CHR ''/'' # body @ CHR 0x0A # rest) line col =
      (pp_tok P_Whitespace (''//'' @ body @ [CHR 0x0A]) line col, rest, line, col + length body + 3)"
    by (simp add: pp_step_def pp_blank_def)
  then show ?thesis
    by (subst tokenize_pp.simps) simp
qed

theorem line_comment_hides_newline_witness:
  "map pt_kind (tokenize_pp_source (''//'' @ [CHR 0x0A] @ ''x'') 1) = [P_Whitespace, P_Identifier] \<and>
   map pt_line (tokenize_pp_source (''//'' @ [CHR 0x0A] @ ''x'') 1) = [1, 1]"
  using line_comment_hides_newline [of "[]" "''x''" 1 1]
  by (simp add: tokenize_pp_source_def tokenize_pp.simps [of "''x''"] tokenize_pp.simps [of "[]"] pp_step_def
      pp_blank_def is_digit_def is_alpha_def pp_ident_char_def)

end
