(* ===== verification/PpMacros.thy ===== *)
theory PpMacros
  imports PpTokens
begin

text \<open>
  Macro definitions and macro expansion of \<open>src/src/frontend/preprocessor.rs\<close>. Loops over an index
  \<open>i\<close> into a token slice are recursions over \<open>tokens[i..]\<close>.

  Expansion may recurse without end (\<open>recursive_function_macro_diverges\<close>); the fuel bounds the
  nesting of expansions. For tables without function-like macros the number of macros plus one is
  enough (\<open>object_macros_expand\<close>).
\<close>

section \<open>Pasting and stringification\<close>

definition pp_paste_tokens :: "ctoken \<Rightarrow> ctoken \<Rightarrow> ctoken" where
  "pp_paste_tokens left right =
     (let pasted = ct_text left @ ct_text right;
          k = (case pasted of
                 c # _ \<Rightarrow>
                   if is_alpha c \<or> c = CHR ''_'' then (if pp_is_keyword pasted then T_Keyword else T_Identifier)
                   else if is_digit c then number_kind pasted
                   else T_Punctuator
               | [] \<Rightarrow> T_Punctuator)
      in ctoken_new k pasted (ct_line left) (ct_column left) (ct_file left))"

definition escape_text :: "string \<Rightarrow> string" where
  "escape_text s = concat (map (\<lambda>ch. if ch = CHR 0x22 \<or> ch = CHR 0x5C then [CHR 0x5C, ch] else [ch]) s)"

fun stringify_loop :: "string \<Rightarrow> bool \<Rightarrow> ctoken list \<Rightarrow> string" where
  "stringify_loop text first [] = text @ [CHR 0x22]"
| "stringify_loop text first (t # ts) =
     (if ctoken_is_whitespace t then stringify_loop (if \<not> first then text @ '' '' else text) first ts
      else
        let text1 = (if \<not> first \<and> last text \<noteq> CHR 0x22 then text @ '' '' else text)
        in stringify_loop (text1 @ escape_text (ct_text t)) False ts)"

definition stringify_arg :: "ctoken list \<Rightarrow> string" where
  "stringify_arg tokens = stringify_loop [CHR 0x22] True tokens"

section \<open>Arguments\<close>

text \<open>The loop of \<open>collect_macro_args\<close> after the opening parenthesis: the arguments and the tokens
  that are left. The depth, an \<open>i32\<close>, is never negative.\<close>

fun macro_args :: "nat \<Rightarrow> bool \<Rightarrow> nat \<Rightarrow> ctoken list list \<Rightarrow> ctoken list \<Rightarrow> ctoken list \<Rightarrow>
    ctoken list list \<times> ctoken list" where
  "macro_args expected variadic depth args cur [] = (args, [])"
| "macro_args expected variadic depth args cur (t # ts) =
     (if ct_text t = ''('' then macro_args expected variadic (depth + 1) args (cur @ [t]) ts
      else if ct_text t = '')'' \<and> depth = 0 then
        (if cur \<noteq> [] \<or> length args < expected \<or> variadic \<and> args = [] then args @ [cur] else args, ts)
      else if ct_text t = '','' \<and> depth = 0 then macro_args expected variadic depth (args @ [cur]) [] ts
      else macro_args expected variadic (if ct_text t = '')'' \<and> depth > 0 then depth - 1 else depth)
             args (cur @ [t]) ts)"

definition collect_macro_args :: "ctoken list \<Rightarrow> nat \<Rightarrow> bool \<Rightarrow> ctoken list list \<times> ctoken list" where
  "collect_macro_args tokens expected variadic =
     (case tokens of
        t # ts \<Rightarrow> if ct_text t = ''('' then macro_args expected variadic 0 [] [] ts
                  else macro_args expected variadic 0 [] [] tokens
      | [] \<Rightarrow> ([], []))"

lemma macro_args_rest: "length (snd (macro_args e v d args cur ts)) \<le> length ts"
  by (induction e v d args cur ts rule: macro_args.induct) (auto simp: le_SucI)

lemma collect_macro_args_rest:
  "collect_macro_args ts e v = (args, rest) \<Longrightarrow> length rest \<le> length ts"
proof -
  assume c: "collect_macro_args ts e v = (args, rest)"
  have m: "macro_args e v 0 [] [] us = (args, rest) \<Longrightarrow> length rest \<le> length us" for us
    using macro_args_rest [of e v 0 "[]" "[]" us] by simp
  from c show ?thesis
  proof (cases ts)
    case (Cons t us)
    with c show ?thesis
      by (cases "ct_text t = ''(''") (auto simp: collect_macro_args_def le_SucI simp del: macro_args.simps dest: m)
  qed (simp add: collect_macro_args_def)
qed

section \<open>Substitution\<close>

fun param_index :: "string \<Rightarrow> string list \<Rightarrow> nat option" where
  "param_index p [] = None"
| "param_index p (q # qs) = (if q = p then Some 0 else map_option Suc (param_index p qs))"

definition is_variadic_param :: "ctoken \<Rightarrow> string option \<Rightarrow> bool" where
  "is_variadic_param t variadic_param \<longleftrightarrow> ct_text t = ''__VA_ARGS__'' \<or> variadic_param = Some (ct_text t)"

fun join_args :: "ctoken \<Rightarrow> bool \<Rightarrow> ctoken list list \<Rightarrow> ctoken list" where
  "join_args t first [] = []"
| "join_args t first (a # as) =
     (if first then [] else [ctoken_new T_Punctuator '','' (ct_line t) (ct_column t) (ct_file t)]) @ a @
     join_args t False as"

definition expand_variadic_args :: "ctoken list list \<Rightarrow> nat \<Rightarrow> ctoken \<Rightarrow> ctoken list" where
  "expand_variadic_args args va_start t = (if va_start < length args then join_args t True (drop va_start args) else [])"

definition get_param_replacement ::
  "ctoken \<Rightarrow> string list \<Rightarrow> bool \<Rightarrow> string option \<Rightarrow> ctoken list list \<Rightarrow> ctoken list" where
  "get_param_replacement t params variadic variadic_param args =
     (if ct_kind t = T_Identifier then
        (case param_index (ct_text t) params of
           Some idx \<Rightarrow>
             if idx < length args then args ! idx
             else if variadic \<and> is_variadic_param t variadic_param
               then expand_variadic_args args (length params) t else [t]
         | None \<Rightarrow>
             if variadic \<and> is_variadic_param t variadic_param
               then expand_variadic_args args (length params) t else [t])
      else [t])"

text \<open>
  The loop of \<open>expand_function_macro_tokens\<close>; \<open>None\<close> is the panic of the unchecked \<open>args[param_idx]\<close>.
\<close>

function fn_subst ::
  "string list \<Rightarrow> bool \<Rightarrow> string option \<Rightarrow> ctoken list list \<Rightarrow> ctoken list \<Rightarrow> ctoken list \<Rightarrow> ctoken list option" where
  "fn_subst params variadic vp args result [] = Some result"
| "fn_subst params variadic vp args result (t # ts) =
     (if ct_text t = ''##'' then
        (case ts of
           nxt # rest \<Rightarrow>
             if result \<noteq> [] then
               fn_subst params variadic vp args
                 (case get_param_replacement nxt params variadic vp args of
                    right # more_tokens \<Rightarrow>
                      butlast result @ [pp_paste_tokens (last result) right] @ more_tokens
                  | [] \<Rightarrow> butlast result) rest
             else fn_subst params variadic vp args result ts
         | [] \<Rightarrow> Some result)
      else
        let str = (if ct_text t = ''#'' then
            (case ts of
               nxt # rest \<Rightarrow>
                 if ct_kind nxt = T_Identifier then
                   (case param_index (ct_text nxt) params of
                      Some idx \<Rightarrow>
                        Some (if idx < length args then Some (stringify_arg (args ! idx)) else None, nxt, rest)
                    | None \<Rightarrow>
                        if variadic \<and> is_variadic_param nxt vp
                        then Some (Some (stringify_arg (expand_variadic_args args (length params) nxt)), nxt, rest)
                        else None)
                 else None
             | [] \<Rightarrow> None)
          else None) in
        case str of
          Some (None, _, _) \<Rightarrow> None
        | Some (Some stringified, nxt, rest) \<Rightarrow>
            fn_subst params variadic vp args
              (result @ [ctoken_new T_StringLiteral stringified (ct_line nxt) (ct_column nxt) (ct_file nxt)]) rest
        | None \<Rightarrow>
            if ct_kind t = T_Identifier \<and> variadic \<and> is_variadic_param t vp then
              fn_subst params variadic vp args (result @ expand_variadic_args args (length params) t) ts
            else
              (case (if ct_kind t = T_Identifier then param_index (ct_text t) params else None) of
                 Some idx \<Rightarrow>
                   if idx < length args then fn_subst params variadic vp args (result @ args ! idx) ts
                   else fn_subst params variadic vp args (result @ [t]) ts
               | None \<Rightarrow> fn_subst params variadic vp args (result @ [t]) ts))"
  by pat_completeness auto
termination
  by (relation "measure (\<lambda>(_, _, _, _, _, ts). length ts)") (auto split: if_splits option.splits list.splits)

definition expand_function_macro_tokens ::
  "ctoken list \<Rightarrow> string list \<Rightarrow> bool \<Rightarrow> string option \<Rightarrow> ctoken list list \<Rightarrow> ctoken list option" where
  "expand_function_macro_tokens replacement params variadic vp args = fn_subst params variadic vp args [] replacement"

section \<open>Expansion\<close>

type_synonym pp_macros = "string \<rightharpoonup> pp_macro"

definition line_token :: "ctoken \<Rightarrow> ctoken" where
  "line_token t = ctoken_new T_IntLiteral (digits (ct_line t)) (ct_line t) (ct_column t) (ct_file t)"

definition file_token :: "ctoken \<Rightarrow> ctoken" where
  "file_token t =
     ctoken_new T_StringLiteral ([CHR 0x22] @ ct_file t @ [CHR 0x22]) (ct_line t) (ct_column t) (ct_file t)"

definition cons_run :: "'a \<Rightarrow> 'a list run \<Rightarrow> 'a list run" where
  "cons_run x m = run_bind m (\<lambda>xs. Done (x # xs))"

text \<open>A token that expansion copies or replaces by one other token.\<close>

definition copied :: "pp_macros \<Rightarrow> string list \<Rightarrow> ctoken \<Rightarrow> ctoken option" where
  "copied M expanding t =
     (if ct_kind t = T_Identifier then
        if ct_text t = ''__LINE__'' then Some (line_token t)
        else if ct_text t = ''__FILE__'' then Some (file_token t)
        else if ct_text t \<in> set expanding then Some t
        else if M (ct_text t) = None then Some t
        else None
      else Some t)"

text \<open>The tokens after a function-like macro name when they start a call: from the parenthesis on.\<close>

definition call_start :: "ctoken list \<Rightarrow> ctoken list option" where
  "call_start ts =
     (case dropWhile ctoken_is_whitespace ts of
        u # us \<Rightarrow> if ct_text u = ''('' then Some (u # us) else None
      | [] \<Rightarrow> None)"

lemma call_start_length: "call_start ts = Some us \<Longrightarrow> length us \<le> length ts"
  by (auto simp: call_start_def length_dropWhile_le split: list.splits if_splits)

function expand_stack :: "nat \<Rightarrow> pp_macros \<Rightarrow> ctoken list \<Rightarrow> string list \<Rightarrow> ctoken list run" where
  "expand_stack n M [] expanding = Done []"
| "expand_stack n M (t # ts) expanding =
     (case copied M expanding t of
        Some u \<Rightarrow> cons_run u (expand_stack n M ts expanding)
      | None \<Rightarrow>
          (case M (ct_text t) of
             Some (PObject replacement) \<Rightarrow>
               (case n of
                  0 \<Rightarrow> NoFuel
                | Suc m \<Rightarrow>
                    run_bind (expand_stack m M replacement (expanding @ [ct_text t])) (\<lambda>expanded.
                    run_bind (expand_stack n M ts expanding) (\<lambda>result. Done (expanded @ result))))
           | Some (PFunction params variadic vp replacement) \<Rightarrow>
               (case call_start ts of
                  Some us \<Rightarrow>
                    (case n of
                       0 \<Rightarrow> NoFuel
                     | Suc m \<Rightarrow>
                         (case collect_macro_args us (length params) variadic of (args, rest) \<Rightarrow>
                            run_bind (run_of (expand_function_macro_tokens replacement params variadic vp args)) (\<lambda>body.
                            run_bind (expand_stack m M body expanding) (\<lambda>expanded.
                            run_bind (expand_stack n M rest expanding) (\<lambda>result. Done (expanded @ result))))))
                | None \<Rightarrow> cons_run t (expand_stack n M ts expanding))
           | None \<Rightarrow> cons_run t (expand_stack n M ts expanding)))"
  by pat_completeness auto
termination
  by (relation "measures [\<lambda>(n, _). n, \<lambda>(_, _, ts, _). length ts]")
    (auto dest!: sym [of _ "collect_macro_args _ _ _"] collect_macro_args_rest call_start_length)

declare expand_stack.simps(2) [simp del]

definition expand_macro_tokens :: "nat \<Rightarrow> pp_macros \<Rightarrow> ctoken list \<Rightarrow> ctoken list run" where
  "expand_macro_tokens fuel M tokens = expand_stack fuel M tokens []"

section \<open>Bodies of definitions\<close>

text \<open>
  \<open>expand_tokens_in_macro\<close>: object-like macros in a body are replaced when the macro is defined,
  without rescanning; \<open>__LINE__\<close> becomes \<open>0\<close>. The parameters are not looked at.
\<close>

fun expand_tokens_in_macro :: "pp_macros \<Rightarrow> ctoken list \<Rightarrow> ctoken list" where
  "expand_tokens_in_macro M [] = []"
| "expand_tokens_in_macro M (t # ts) =
     (if ct_text t = ''##'' then [t]
      else if ct_text t = ''#'' \<and> ts \<noteq> [] then [t]
      else if ct_kind t = T_Identifier then
        if ct_text t = ''__LINE__'' then [ctoken_new T_IntLiteral ''0'' (ct_line t) (ct_column t) (ct_file t)]
        else if ct_text t = ''__FILE__'' then [file_token t]
        else if ct_text t = ''__VA_ARGS__'' then [t]
        else (case M (ct_text t) of
                Some (PObject replacement) \<Rightarrow> replacement
              | Some (PFunction _ _ _ _) \<Rightarrow> [t]
              | None \<Rightarrow> [t])
      else [t]) @ expand_tokens_in_macro M ts"

section \<open>Object-like macros\<close>

definition no_function_macros :: "pp_macros \<Rightarrow> bool" where
  "no_function_macros M \<longleftrightarrow> (\<forall>name ps v vp r. M name \<noteq> Some (PFunction ps v vp r))"

lemma copied_None:
  "copied M S t = None \<longleftrightarrow> ct_kind t = T_Identifier \<and> ct_text t \<notin> {''__LINE__'', ''__FILE__''} \<and>
     ct_text t \<notin> set S \<and> M (ct_text t) \<noteq> None"
  by (auto simp: copied_def)

lemma expand_stack_object:
  assumes "copied M S t = None" and "M (ct_text t) = Some (PObject r)"
  shows "expand_stack (Suc m) M (t # ts) S =
    run_bind (expand_stack m M r (S @ [ct_text t])) (\<lambda>e.
    run_bind (expand_stack (Suc m) M ts S) (\<lambda>x. Done (e @ x)))"
  using assms by (simp add: expand_stack.simps)

lemma expand_stack_copied:
  "copied M S t = Some u \<Longrightarrow> expand_stack n M (t # ts) S = cons_run u (expand_stack n M ts S)"
  by (simp add: expand_stack.simps)

lemma object_expansion_returns:
  assumes fin: "finite (dom M)" and nf: "no_function_macros M"
  shows "card (dom M - set S) < n \<Longrightarrow> \<exists>out. expand_stack n M ts S = Done out"
proof (induction n arbitrary: ts S)
  case (Suc n)
  show ?case
  proof (induction ts)
    case (Cons t ts)
    then obtain out where out: "expand_stack (Suc n) M ts S = Done out" by blast
    show ?case
    proof (cases "copied M S t")
      case (Some u)
      with out show ?thesis by (simp add: expand_stack_copied cons_run_def)
    next
      case None
      then have k: "ct_text t \<notin> set S" "ct_text t \<in> dom M" by (auto simp: copied_None)
      with nf obtain r where r: "M (ct_text t) = Some (PObject r)"
        unfolding no_function_macros_def by (metis domD pp_macro.exhaust)
      have "card (dom M - set (S @ [ct_text t])) < card (dom M - set S)"
        by (rule psubset_card_mono) (use k fin in auto)
      with Suc.prems Suc.IH [of "S @ [ct_text t]" r] obtain e where "expand_stack n M r (S @ [ct_text t]) = Done e"
        by auto
      with out None r show ?thesis by (simp add: expand_stack_object)
    qed
  qed simp
qed simp

text \<open>
  The specification: the algorithm with a set of hidden names on every token, for object-like
  macros. A macro is replaced by its body, whose tokens hide it too, and the result is scanned
  again together with what follows.
\<close>

inductive hideset :: "pp_macros \<Rightarrow> (ctoken \<times> string set) list \<Rightarrow> ctoken list \<Rightarrow> bool" for M where
  hs_Nil: "hideset M [] []"
| hs_line: "ct_kind t = T_Identifier \<Longrightarrow> ct_text t = ''__LINE__'' \<Longrightarrow> hideset M rest out \<Longrightarrow>
    hideset M ((t, hs) # rest) (line_token t # out)"
| hs_file: "ct_kind t = T_Identifier \<Longrightarrow> ct_text t = ''__FILE__'' \<Longrightarrow> hideset M rest out \<Longrightarrow>
    hideset M ((t, hs) # rest) (file_token t # out)"
| hs_keep: "ct_kind t \<noteq> T_Identifier \<or>
      ct_text t \<notin> {''__LINE__'', ''__FILE__''} \<and> (ct_text t \<in> hs \<or> M (ct_text t) = None) \<Longrightarrow>
    hideset M rest out \<Longrightarrow> hideset M ((t, hs) # rest) (t # out)"
| hs_replace: "ct_kind t = T_Identifier \<Longrightarrow> ct_text t \<notin> {''__LINE__'', ''__FILE__''} \<Longrightarrow> ct_text t \<notin> hs \<Longrightarrow>
    M (ct_text t) = Some (PObject r) \<Longrightarrow> hideset M (map (\<lambda>u. (u, insert (ct_text t) hs)) r @ rest) out \<Longrightarrow>
    hideset M ((t, hs) # rest) out"

inductive_cases hideset_NilE: "hideset M [] out"
inductive_cases hideset_ConsE: "hideset M ((t, hs) # rest) out"

lemma hideset_unique: "hideset M ts a \<Longrightarrow> hideset M ts b \<Longrightarrow> a = b"
proof (induction arbitrary: b rule: hideset.induct)
  case hs_Nil
  then show ?case by (blast elim: hideset_NilE)
next
  case (hs_line t rest out hs)
  from hs_line.prems show ?case
    by (rule hideset_ConsE) (insert hs_line.hyps, (simp; fail | drule hs_line.IH, simp)+)
next
  case (hs_file t rest out hs)
  from hs_file.prems show ?case
    by (rule hideset_ConsE) (insert hs_file.hyps, (simp; fail | drule hs_file.IH, simp)+)
next
  case (hs_keep t hs rest out)
  from hs_keep.prems show ?case
    by (rule hideset_ConsE) (insert hs_keep.hyps, (simp; fail | drule hs_keep.IH, simp)+)
next
  case (hs_replace t hs r rest out)
  from hs_replace.prems show ?case
    by (rule hideset_ConsE) (insert hs_replace.hyps, (simp; fail | drule hs_replace.IH, simp)+)
qed

lemma hideset_append: "hideset M xs a \<Longrightarrow> hideset M ys b \<Longrightarrow> hideset M (xs @ ys) (a @ b)"
  by (induction rule: hideset.induct) (auto intro: hideset.intros)

lemma hideset_copied:
  "copied M S t = Some u \<Longrightarrow> hideset M rest out \<Longrightarrow> hideset M ((t, set S) # rest) (u # out)"
  by (auto simp: copied_def intro: hideset.intros split: if_splits)

lemma expand_stack_hideset:
  assumes nf: "no_function_macros M"
  shows "expand_stack n M ts S = Done out \<Longrightarrow> hideset M (map (\<lambda>t. (t, set S)) ts) out"
proof (induction n arbitrary: ts S out)
  case 0
  then show ?case
  proof (induction ts arbitrary: out)
    case (Cons t ts)
    then obtain u where u: "copied M S t = Some u"
      using nf by (auto simp: expand_stack.simps copied_None no_function_macros_def split: option.splits pp_macro.splits)
    with Cons show ?case by (auto simp: expand_stack_copied cons_run_def intro: hideset_copied)
  qed (simp add: hs_Nil)
next
  case (Suc m)
  from Suc.prems show ?case
  proof (induction ts arbitrary: out)
    case (Cons t ts)
    show ?case
    proof (cases "copied M S t")
      case (Some u)
      with Cons show ?thesis by (auto simp: expand_stack_copied cons_run_def intro: hideset_copied)
    next
      case None
      then obtain r where r: "M (ct_text t) = Some (PObject r)"
        using nf unfolding no_function_macros_def copied_None by (metis not_None_eq pp_macro.exhaust)
      from Cons.prems [unfolded expand_stack_object [OF None r]] obtain e x where
        e: "expand_stack m M r (S @ [ct_text t]) = Done e" and x: "expand_stack (Suc m) M ts S = Done x" "out = e @ x"
        by auto
      have "hideset M (map (\<lambda>u. (u, insert (ct_text t) (set S))) r) e" using Suc.IH [OF e] by simp
      with Cons.IH [OF x(1)] None r x(2) show ?thesis
        by (auto simp: copied_None intro!: hs_replace hideset_append)
    qed
  qed (simp add: hs_Nil)
qed

text \<open>
  C15: Object-like macros expand correctly. With finitely many macros, none of them function-like,
  expansion returns within one level more than there are macros, self-reference and mutual
  reference included, and its result is the one that the hide-set algorithm gives.
\<close>

theorem object_macros_expand:
  assumes "finite (dom M)" and "no_function_macros M"
  shows "\<exists>out. expand_macro_tokens (card (dom M) + 1 + k) M tokens = Done out \<and>
    (\<forall>out'. hideset M (map (\<lambda>t. (t, {})) tokens) out' \<longleftrightarrow> out' = out)"
proof -
  from object_expansion_returns [OF assms, of "[]" "card (dom M) + 1 + k" tokens] obtain out where
    out: "expand_macro_tokens (card (dom M) + 1 + k) M tokens = Done out"
    unfolding expand_macro_tokens_def by auto
  with expand_stack_hideset [OF assms(2), of _ tokens "[]" out]
  have "hideset M (map (\<lambda>t. (t, {})) tokens) out" by (simp add: expand_macro_tokens_def)
  with out hideset_unique show ?thesis by blast
qed

definition ident :: "string \<Rightarrow> ctoken" where
  "ident name = plain_token T_Identifier name"

definition punct :: "string \<Rightarrow> ctoken" where
  "punct text = plain_token T_Punctuator text"

lemma ident_punct_simps [simp]:
  "ct_kind (ident s) = T_Identifier" "ct_text (ident s) = s" "ct_kind (punct s) = T_Punctuator" "ct_text (punct s) = s"
  by (simp_all add: ident_def punct_def plain_token_def)

text \<open>Two macros that name each other: \<open>a\<close> expands to \<open>b\<close> and then to \<open>a\<close> again, which stays.\<close>

theorem object_macros_expand_witness:
  "hideset [''a'' \<mapsto> PObject [ident ''b''], ''b'' \<mapsto> PObject [ident ''a'']] [(ident ''a'', {})] [ident ''a'']"
proof -
  let ?M = "[''a'' \<mapsto> PObject [ident ''b''], ''b'' \<mapsto> PObject [ident ''a'']]"
  have c: "card (dom ?M) = 2" by simp
  have "expand_macro_tokens (card (dom ?M) + 1 + 0) ?M [ident ''a''] = Done [ident ''a'']"
    unfolding c by (simp add: expand_macro_tokens_def expand_stack.simps copied_def cons_run_def eval_nat_numeral)
  with object_macros_expand [of ?M 0 "[ident ''a'']"] show ?thesis
    by (auto simp: no_function_macros_def split: if_splits)
qed

section \<open>Function-like macros\<close>

lemma expand_stack_call:
  assumes "copied M S t = None" and "M (ct_text t) = Some (PFunction ps v vp r)"
    and "call_start ts = Some us" and "collect_macro_args us (length ps) v = (args, rest)"
  shows "expand_stack (Suc m) M (t # ts) S =
    run_bind (run_of (expand_function_macro_tokens r ps v vp args)) (\<lambda>body.
    run_bind (expand_stack m M body S) (\<lambda>e.
    run_bind (expand_stack (Suc m) M rest S) (\<lambda>x. Done (e @ x))))"
  using assms by (simp add: expand_stack.simps)

text \<open>Tokens with balanced parentheses from depth \<open>d\<close>, and no comma outside them.\<close>

fun balanced_arg :: "nat \<Rightarrow> ctoken list \<Rightarrow> bool" where
  "balanced_arg d [] = (d = 0)"
| "balanced_arg d (t # ts) =
     (if ct_text t = ''('' then balanced_arg (d + 1) ts
      else if ct_text t = '')'' then 0 < d \<and> balanced_arg (d - 1) ts
      else \<not> (ct_text t = '','' \<and> d = 0) \<and> balanced_arg d ts)"

fun separated :: "ctoken \<Rightarrow> ctoken list list \<Rightarrow> ctoken list" where
  "separated comma [] = []"
| "separated comma [a] = a"
| "separated comma (a # b # as) = a @ comma # separated comma (b # as)"

lemma macro_args_arg:
  "balanced_arg d as \<Longrightarrow> macro_args e v d args cur (as @ rest) = macro_args e v 0 args (cur @ as) rest"
proof (induction as arbitrary: d cur)
  case (Cons t as)
  consider "ct_text t = ''(''" "balanced_arg (d + 1) as" | "ct_text t = '')''" "0 < d" "balanced_arg (d - 1) as"
    | "ct_text t \<noteq> ''(''" "ct_text t \<noteq> '')''" "\<not> (ct_text t = '','' \<and> d = 0)" "balanced_arg d as"
    using Cons.prems by (auto split: if_splits)
  then show ?case by cases (auto simp: Cons.IH)
qed simp

lemma macro_args_separated:
  "ct_text comma = '','' \<Longrightarrow> ct_text close = '')'' \<Longrightarrow> as \<noteq> [] \<Longrightarrow> list_all (balanced_arg 0) as \<Longrightarrow>
   length args + length as = e \<Longrightarrow>
   macro_args e v 0 args [] (separated comma as @ close # rest) = (args @ as, rest)"
proof (induction comma as arbitrary: args rule: separated.induct)
  case (2 comma a)
  then show ?case using macro_args_arg [of 0 a e v args "[]" "close # rest"] by simp
next
  case (3 comma a b as)
  then show ?case
    using macro_args_arg [of 0 a e v args "[]" "comma # separated comma (b # as) @ close # rest"] by simp
qed simp

definition plain_body :: "ctoken list \<Rightarrow> bool" where
  "plain_body body \<longleftrightarrow> list_all (\<lambda>t. ct_text t \<noteq> ''##'' \<and> ct_text t \<noteq> ''#'') body"

text \<open>The specification of substitution: every parameter is replaced by its argument.\<close>

definition subst_token :: "(string \<times> ctoken list) list \<Rightarrow> ctoken \<Rightarrow> ctoken list" where
  "subst_token binding t =
     (case (if ct_kind t = T_Identifier then map_of binding (ct_text t) else None) of Some arg \<Rightarrow> arg | None \<Rightarrow> [t])"

lemma param_index_zip:
  "length ps = length as \<Longrightarrow>
   (case param_index p ps of Some i \<Rightarrow> i < length as \<and> map_of (zip ps as) p = Some (as ! i)
    | None \<Rightarrow> map_of (zip ps as) p = None)"
  by (induction ps as rule: list_induct2) (auto split: option.splits)

lemma fn_subst_plain:
  assumes "length ps = length args"
  shows "plain_body body \<Longrightarrow> fn_subst ps False vp args res body = Some (res @ concat (map (subst_token (zip ps args)) body))"
proof (induction body arbitrary: res)
  case (Cons t ts)
  then have t: "ct_text t \<noteq> ''##''" "ct_text t \<noteq> ''#''" "plain_body ts" by (simp_all add: plain_body_def)
  show ?case
    using param_index_zip [OF assms, of "ct_text t"] t Cons.IH
    by (auto simp: subst_token_def split: option.splits)
qed simp

lemma call_substitutes:
  assumes "ct_kind t = T_Identifier" and "ct_text t \<notin> {''__LINE__'', ''__FILE__''}" and "ct_text t \<notin> set S"
    and "M (ct_text t) = Some (PFunction ps False vp body)" and "plain_body body"
    and "list_all ctoken_is_whitespace blanks" and "ct_text open_tok = ''(''" and "\<not> ctoken_is_whitespace open_tok"
    and "ct_text comma = '',''" and "ct_text close_tok = '')''" and "args \<noteq> []" and "length args = length ps"
    and "list_all (balanced_arg 0) args"
  shows "expand_stack (Suc n) M (t # blanks @ open_tok # separated comma args @ close_tok # rest) S =
    run_bind (expand_stack n M (concat (map (subst_token (zip ps args)) body)) S) (\<lambda>expanded.
    run_bind (expand_stack (Suc n) M rest S) (\<lambda>result. Done (expanded @ result)))"
proof -
  let ?us = "open_tok # separated comma args @ close_tok # rest"
  have "dropWhile ctoken_is_whitespace (blanks @ ?us) = ?us"
    using assms(6,8) by (induction blanks) auto
  then have c: "call_start (blanks @ ?us) = Some ?us" using assms(7) by (simp add: call_start_def)
  have a: "collect_macro_args ?us (length ps) False = (args, rest)"
    using macro_args_separated [OF assms(9,10,11,13), of "[]" "length ps"] assms(7,12)
    by (simp add: collect_macro_args_def)
  have "copied M S t = None" using assms(1-4) by (simp add: copied_None)
  from expand_stack_call [OF this assms(4) c a]
  show ?thesis using fn_subst_plain [OF assms(12) [symmetric] assms(5), of vp "[]"]
    by (simp add: expand_function_macro_tokens_def)
qed

text \<open>
  C27: A call of a function-like macro. When the body holds no \<open>#\<close> and \<open>##\<close> and the call has as many
  arguments as there are parameters, with balanced parentheses, the name and its arguments are
  replaced by the body with every parameter replaced by its argument; the result is expanded on
  its own, with the names being expanded unchanged, and expansion goes on after the closing
  parenthesis.
\<close>

theorem macro_call_substitutes:
  assumes "ct_kind t = T_Identifier" and "ct_text t \<notin> {''__LINE__'', ''__FILE__''}" and "ct_text t \<notin> set S"
    and "M (ct_text t) = Some (PFunction ps False vp body)" and "plain_body body"
    and "list_all ctoken_is_whitespace blanks" and "ct_text open_tok = ''(''" and "\<not> ctoken_is_whitespace open_tok"
    and "ct_text comma = '',''" and "ct_text close_tok = '')''" and "args \<noteq> []" and "length args = length ps"
    and "list_all (balanced_arg 0) args"
  shows "expand_stack (Suc n) M (t # blanks @ open_tok # separated comma args @ close_tok # rest) S =
    run_bind (expand_stack n M (concat (map (subst_token (zip ps args)) body)) S) (\<lambda>expanded.
    run_bind (expand_stack (Suc n) M rest S) (\<lambda>result. Done (expanded @ result)))"
  using assms by (rule call_substitutes)

text \<open>With \<open>#define twice(x) x + x\<close>, the call \<open>twice(7)\<close> becomes \<open>7 + 7\<close>.\<close>

theorem macro_call_substitutes_witness:
  "expand_stack 1 [''twice'' \<mapsto> PFunction [''x''] False None [ident ''x'', punct ''+'', ident ''x'']]
     [ident ''twice'', punct ''('', plain_token T_IntLiteral ''7'', punct '')''] [] =
   Done [plain_token T_IntLiteral ''7'', punct ''+'', plain_token T_IntLiteral ''7'']"
  using macro_call_substitutes [of "ident ''twice''" "[]"
      "[''twice'' \<mapsto> PFunction [''x''] False None [ident ''x'', punct ''+'', ident ''x'']]" "[''x'']" None
      "[ident ''x'', punct ''+'', ident ''x'']" "[]" "punct ''(''" "punct '',''" "punct '')''"
      "[[plain_token T_IntLiteral ''7'']]" 0 "[]"]
  by (simp add: plain_body_def ctoken_is_whitespace_def plain_token_def subst_token_def ident_def punct_def
      expand_stack.simps copied_def cons_run_def)



text \<open>
  Pasting. \<open>a##b\<close> makes one token of both arguments; but with blanks around it, \<open>a ## b\<close> pastes
  the two blanks and leaves the arguments apart, and \<open>a##b\<close> with an empty second argument drops the
  first argument as well.
\<close>

theorem paste_outcomes:
  assumes "p \<noteq> q" and "{p, q} \<inter> {''#'', ''##''} = {}" and "ctoken_is_whitespace w" and "ct_text w = '' ''"
  shows "expand_function_macro_tokens [ident p, punct ''##'', ident q] [p, q] False None [[a], [b]] =
      Some [pp_paste_tokens a b] \<and>
    expand_function_macro_tokens [ident p, w, punct ''##'', w, ident q] [p, q] False None [[a], [b]] =
      Some [a, pp_paste_tokens w w, b] \<and> ct_kind (pp_paste_tokens w w) = T_Punctuator \<and>
    expand_function_macro_tokens [ident p, punct ''##'', ident q] [p, q] False None [[a], []] = Some []"
  using assms
  by (auto simp: expand_function_macro_tokens_def get_param_replacement_def pp_paste_tokens_def
      ctoken_is_whitespace_def is_alpha_def is_digit_def)

theorem paste_outcomes_witness:
  "expand_function_macro_tokens
     [ident ''x'', plain_token T_Whitespace '' '', punct ''##'', plain_token T_Whitespace '' '', ident ''y'']
     [''x'', ''y''] False None [[ident ''foo''], [ident ''bar'']] =
   Some [ident ''foo'', plain_token T_Punctuator ''  '', ident ''bar'']"
  using paste_outcomes [of "''x''" "''y''" "plain_token T_Whitespace '' ''" "ident ''foo''" "ident ''bar''"]
  by (simp add: plain_token_def ctoken_is_whitespace_def pp_paste_tokens_def ctoken_new_def is_alpha_def is_digit_def)

end
