(* ===== verification/PpIf.thy ===== *)
theory PpIf
  imports PpMacros "HOL-Library.Signed_Division"
begin

text \<open>
  The evaluator of \<open>#if\<close> expressions in \<open>src/src/frontend/preprocessor.rs\<close>: a recursive-descent
  parser over the preprocessing tokens that computes an \<open>i64\<close> as it goes, with one function per
  level of precedence.

  An \<open>i64\<close> is an integer between \<open>- 2^63\<close> and \<open>2^63 - 1\<close>; \<open>to_i64\<close> wraps. The result of a function
  is a run (panic, out of fuel) of a \<open>Result\<close>. A primary expression may expand macros and evaluate
  the result, which need not end; the fuel bounds the nesting of calls and the rounds of loops.
\<close>

section \<open>Integers\<close>

definition to_i64 :: "int \<Rightarrow> int" where
  "to_i64 x = (x + 2 ^ 63) mod 2 ^ 64 - 2 ^ 63"

definition in_i64 :: "int \<Rightarrow> bool" where
  "in_i64 x \<longleftrightarrow> - (2 ^ 63) \<le> x \<and> x < 2 ^ 63"

definition int_of_bool :: "bool \<Rightarrow> int" where
  "int_of_bool b = (if b then 1 else 0)"

text \<open>The shift count of \<open>wrapping_shl(right as u32)\<close>.\<close>

definition shift_count :: "int \<Rightarrow> nat" where
  "shift_count right = nat (right mod 64)"

section \<open>Results\<close>

type_synonym 'a pp = "(pp_error + 'a) run"

definition pp_ok :: "'a \<Rightarrow> 'a pp" where
  "pp_ok x = Done (Inr x)"

definition pp_err :: "pp_error \<Rightarrow> 'a pp" where
  "pp_err e = Done (Inl e)"

definition pp_bind :: "'a pp \<Rightarrow> ('a \<Rightarrow> 'b pp) \<Rightarrow> 'b pp" where
  "pp_bind m f = run_bind m (\<lambda>r. case r of Inl e \<Rightarrow> Done (Inl e) | Inr x \<Rightarrow> f x)"

lemma pp_bind_simps [simp]:
  "pp_bind (pp_ok x) f = f x" "pp_bind (pp_err e) f = pp_err e" "pp_bind Crash f = Crash" "pp_bind NoFuel f = NoFuel"
  by (simp_all add: pp_bind_def pp_ok_def pp_err_def)

section \<open>Literals\<close>

text \<open>\<open>i64::from_str_radix\<close>: an optional sign, at least one digit, and no overflow.\<close>

definition digit_value :: "char \<Rightarrow> nat" where
  "digit_value c =
     (if 48 \<le> ord c \<and> ord c \<le> 57 then ord c - 48
      else if 97 \<le> ord c \<and> ord c \<le> 122 then ord c - 87
      else if 65 \<le> ord c \<and> ord c \<le> 90 then ord c - 55
      else 99)"

definition radix_value :: "nat \<Rightarrow> string \<Rightarrow> nat" where
  "radix_value radix s = foldl (\<lambda>acc c. acc * radix + digit_value c) 0 s"

definition from_str_radix :: "nat \<Rightarrow> string \<Rightarrow> int option" where
  "from_str_radix radix s =
     (let (neg, ds) = (case s of c # r \<Rightarrow> if c = CHR ''-'' then (True, r) else if c = CHR ''+'' then (False, r) else (False, s)
                      | [] \<Rightarrow> (False, []));
          v = (if neg then - int (radix_value radix ds) else int (radix_value radix ds))
      in if ds \<noteq> [] \<and> list_all (\<lambda>c. digit_value c < radix) ds \<and> in_i64 v then Some v else None)"

definition unwrap_or_zero :: "int option \<Rightarrow> int" where
  "unwrap_or_zero v = (case v of Some x \<Rightarrow> x | None \<Rightarrow> 0)"

definition parse_int_literal :: "string \<Rightarrow> int" where
  "parse_int_literal text0 =
     (let text = rev (dropWhile (\<lambda>c. c \<in> set ''uUlL'') (rev text0)) in
      if starts_with ''0x'' text \<or> starts_with ''0X'' text then unwrap_or_zero (from_str_radix 16 (drop 2 text))
      else if starts_with ''0'' text \<and> length text > 1 then unwrap_or_zero (from_str_radix 8 text)
      else unwrap_or_zero (from_str_radix 10 text))"

definition parse_char_literal :: "string \<Rightarrow> int" where
  "parse_char_literal text =
     (if length text \<ge> 2 then (case piece text 1 (length text - 1) of c # _ \<Rightarrow> int (ord c) | [] \<Rightarrow> 0) else 0)"

section \<open>Operators\<close>

definition or_op :: "string \<Rightarrow> (int \<Rightarrow> int \<Rightarrow> int pp) option" where
  "or_op s = (if s = ''||'' then Some (\<lambda>l r. pp_ok (if l \<noteq> 0 then 1 else if r \<noteq> 0 then 1 else 0)) else None)"

definition and_op :: "string \<Rightarrow> (int \<Rightarrow> int \<Rightarrow> int pp) option" where
  "and_op s = (if s = ''&&'' then Some (\<lambda>l r. pp_ok (if l \<noteq> 0 \<and> r \<noteq> 0 then 1 else 0)) else None)"

definition bitor_op :: "string \<Rightarrow> (int \<Rightarrow> int \<Rightarrow> int pp) option" where
  "bitor_op s = (if s = ''|'' then Some (\<lambda>l r. pp_ok (or l r)) else None)"

definition bitxor_op :: "string \<Rightarrow> (int \<Rightarrow> int \<Rightarrow> int pp) option" where
  "bitxor_op s = (if s = ''^'' then Some (\<lambda>l r. pp_ok (xor l r)) else None)"

definition bitand_op :: "string \<Rightarrow> (int \<Rightarrow> int \<Rightarrow> int pp) option" where
  "bitand_op s = (if s = ''&'' then Some (\<lambda>l r. pp_ok (and l r)) else None)"

definition shift_op :: "string \<Rightarrow> (int \<Rightarrow> int \<Rightarrow> int pp) option" where
  "shift_op s =
     (if s = ''<<'' then Some (\<lambda>l r. pp_ok (to_i64 (l * 2 ^ shift_count r)))
      else if s = ''>>'' then Some (\<lambda>l r. pp_ok (l div 2 ^ shift_count r))
      else None)"

definition add_op :: "string \<Rightarrow> (int \<Rightarrow> int \<Rightarrow> int pp) option" where
  "add_op s =
     (if s = ''+'' then Some (\<lambda>l r. pp_ok (to_i64 (l + r)))
      else if s = ''-'' then Some (\<lambda>l r. pp_ok (to_i64 (l - r)))
      else None)"

text \<open>\<open>/=\<close> and \<open>%=\<close> panic on the one quotient that does not fit.\<close>

definition mul_op :: "string \<Rightarrow> (int \<Rightarrow> int \<Rightarrow> int pp) option" where
  "mul_op s =
     (if s = ''*'' then Some (\<lambda>l r. pp_ok (to_i64 (l * r)))
      else if s = ''/'' then Some (\<lambda>l r.
        if r = 0 then pp_err (ConditionalError ''division by zero in #if expression'')
        else if l = - (2 ^ 63) \<and> r = -1 then Crash else pp_ok (l sdiv r))
      else if s = ''%'' then Some (\<lambda>l r.
        if r = 0 then pp_err (ConditionalError ''modulo by zero in #if expression'')
        else if l = - (2 ^ 63) \<and> r = -1 then Crash else pp_ok (l smod r))
      else None)"

definition compare_op :: "string \<Rightarrow> (int \<Rightarrow> int \<Rightarrow> bool) option" where
  "compare_op s =
     (if s = ''<'' then Some (\<lambda>l r. l < r)
      else if s = ''>'' then Some (\<lambda>l r. l > r)
      else if s = ''<='' then Some (\<lambda>l r. l \<le> r)
      else if s = ''>='' then Some (\<lambda>l r. l \<ge> r)
      else None)"

section \<open>Levels of precedence\<close>

definition skip_ws :: "pp_token list \<Rightarrow> nat \<Rightarrow> nat" where
  "skip_ws tokens j = advance_while (\<lambda>t. pt_kind t = P_Whitespace) tokens j"

text \<open>\<open>j < tokens.len() && tokens[j].text == s\<close> is \<open>text_at tokens j = Some s\<close>.\<close>

definition text_at :: "pp_token list \<Rightarrow> nat \<Rightarrow> string option" where
  "text_at tokens j = (if j < length tokens then Some (pt_text (tokens ! j)) else None)"

type_synonym parse_at = "nat \<Rightarrow> (int \<times> nat) pp"

text \<open>The loop shared by the left-associative levels.\<close>

fun binop_loop :: "nat \<Rightarrow> parse_at \<Rightarrow> (string \<Rightarrow> (int \<Rightarrow> int \<Rightarrow> int pp) option) \<Rightarrow> pp_token list \<Rightarrow> int \<Rightarrow> parse_at" where
  "binop_loop 0 operand ops tokens left j = NoFuel"
| "binop_loop (Suc n) operand ops tokens left j =
     (let k = skip_ws tokens j in
      case Option.bind (text_at tokens k) ops of
        Some f \<Rightarrow>
          pp_bind (operand (k + 1)) (\<lambda>(right, next_j).
          pp_bind (f left right) (\<lambda>result. binop_loop n operand ops tokens result next_j))
      | None \<Rightarrow> pp_ok (left, k))"

definition left_assoc :: "nat \<Rightarrow> parse_at \<Rightarrow> (string \<Rightarrow> (int \<Rightarrow> int \<Rightarrow> int pp) option) \<Rightarrow> pp_token list \<Rightarrow> parse_at" where
  "left_assoc n operand ops tokens start =
     pp_bind (operand start) (\<lambda>(left, j). binop_loop n operand ops tokens left j)"

definition unexpected_end :: "'a pp" where
  "unexpected_end = pp_err (ConditionalError ''unexpected end of #if expression'')"

fun parse_if_unary :: "nat \<Rightarrow> parse_at \<Rightarrow> pp_token list \<Rightarrow> parse_at" where
  "parse_if_unary 0 primary tokens start = NoFuel"
| "parse_if_unary (Suc n) primary tokens start =
     (let j = skip_ws tokens start in
      if j \<ge> length tokens then unexpected_end
      else if pt_text (tokens ! j) = ''!'' then
        pp_bind (parse_if_unary n primary tokens (j + 1)) (\<lambda>(v, e). pp_ok (if v = 0 then 1 else 0, e))
      else if pt_text (tokens ! j) = ''~'' then
        pp_bind (parse_if_unary n primary tokens (j + 1)) (\<lambda>(v, e). pp_ok (not v, e))
      else if pt_text (tokens ! j) = ''-'' then
        pp_bind (parse_if_unary n primary tokens (j + 1)) (\<lambda>(v, e). if v = - (2 ^ 63) then Crash else pp_ok (- v, e))
      else if pt_text (tokens ! j) = ''+'' then parse_if_unary n primary tokens (j + 1)
      else primary j)"

definition parse_if_multiplicative :: "nat \<Rightarrow> parse_at \<Rightarrow> pp_token list \<Rightarrow> parse_at" where
  "parse_if_multiplicative n primary tokens = left_assoc n (parse_if_unary n primary tokens) mul_op tokens"

definition parse_if_additive :: "nat \<Rightarrow> parse_at \<Rightarrow> pp_token list \<Rightarrow> parse_at" where
  "parse_if_additive n primary tokens = left_assoc n (parse_if_multiplicative n primary tokens) add_op tokens"

definition parse_if_shift :: "nat \<Rightarrow> parse_at \<Rightarrow> pp_token list \<Rightarrow> parse_at" where
  "parse_if_shift n primary tokens = left_assoc n (parse_if_additive n primary tokens) shift_op tokens"

definition parse_if_comparison :: "nat \<Rightarrow> parse_at \<Rightarrow> pp_token list \<Rightarrow> parse_at" where
  "parse_if_comparison n primary tokens start =
     pp_bind (parse_if_shift n primary tokens start) (\<lambda>(left, j0).
       let j = skip_ws tokens j0 in
       case (if j + 1 < length tokens then compare_op (pt_text (tokens ! j)) else None) of
         Some cmp \<Rightarrow>
           pp_bind (parse_if_shift n primary tokens (j + 1)) (\<lambda>(right, next_j).
             pp_ok (int_of_bool (cmp left right), next_j))
       | None \<Rightarrow> pp_ok (left, j))"

fun parse_if_equality :: "nat \<Rightarrow> nat \<Rightarrow> parse_at \<Rightarrow> pp_token list \<Rightarrow> parse_at" where
  "parse_if_equality 0 n primary tokens start = NoFuel"
| "parse_if_equality (Suc m) n primary tokens start =
     pp_bind (parse_if_comparison n primary tokens start) (\<lambda>(left, j0).
       let j = skip_ws tokens j0 in
       if j + 1 < length tokens \<and> (pt_text (tokens ! j) = ''=='' \<or> pt_text (tokens ! j) = ''!='') then
         pp_bind (parse_if_equality m n primary tokens (j + 1)) (\<lambda>(right, next_j).
           pp_ok (int_of_bool (if pt_text (tokens ! j) = ''=='' then left = right else left \<noteq> right), next_j))
       else pp_ok (left, j))"

definition parse_if_bitand :: "nat \<Rightarrow> parse_at \<Rightarrow> pp_token list \<Rightarrow> parse_at" where
  "parse_if_bitand n primary tokens = left_assoc n (parse_if_equality n n primary tokens) bitand_op tokens"

definition parse_if_bitxor :: "nat \<Rightarrow> parse_at \<Rightarrow> pp_token list \<Rightarrow> parse_at" where
  "parse_if_bitxor n primary tokens = left_assoc n (parse_if_bitand n primary tokens) bitxor_op tokens"

definition parse_if_bitor :: "nat \<Rightarrow> parse_at \<Rightarrow> pp_token list \<Rightarrow> parse_at" where
  "parse_if_bitor n primary tokens = left_assoc n (parse_if_bitxor n primary tokens) bitor_op tokens"

definition parse_if_and :: "nat \<Rightarrow> parse_at \<Rightarrow> pp_token list \<Rightarrow> parse_at" where
  "parse_if_and n primary tokens = left_assoc n (parse_if_bitor n primary tokens) and_op tokens"

definition or_level :: "nat \<Rightarrow> parse_at \<Rightarrow> pp_token list \<Rightarrow> parse_at" where
  "or_level n primary tokens = left_assoc n (parse_if_and n primary tokens) or_op tokens"

section \<open>Primary expressions\<close>

record if_env =
  if_macros :: pp_macros
  if_include_exists :: "string \<Rightarrow> string \<Rightarrow> bool"

definition parse_defined :: "if_env \<Rightarrow> pp_token list \<Rightarrow> parse_at" where
  "parse_defined env tokens start =
     (let j0 = skip_ws tokens (start + 1);
          has_paren = (text_at tokens j0 = Some ''('');
          j = (if has_paren then skip_ws tokens (j0 + 1) else j0)
      in if j \<ge> length tokens \<or> pt_kind (tokens ! j) \<noteq> P_Identifier then
           pp_err (ConditionalError ''expected identifier after defined'')
         else
           let name = pt_text (tokens ! j);
               k = (if has_paren then
                      let l = skip_ws tokens (j + 1) in if text_at tokens l = Some '')'' then l + 1 else l
                    else j + 1)
           in pp_ok (int_of_bool (if_macros env name \<noteq> None), k))"

text \<open>\<open>&text[1..text.len() - 1]\<close>\<close>

definition unquote :: "string \<Rightarrow> string" where
  "unquote text = (if length text \<ge> 2 then piece text 1 (length text - 1) else text)"

definition parse_feature_probe_argument :: "pp_token list \<Rightarrow> nat \<Rightarrow> (string \<times> nat) pp" where
  "parse_feature_probe_argument tokens start =
     (let j0 = skip_ws tokens (start + 1) in
      if text_at tokens j0 \<noteq> Some ''('' then pp_err (ConditionalError ''expected ( after feature probe'')
      else
        let j = skip_ws tokens (j0 + 1) in
        if j \<ge> length tokens then pp_err (ConditionalError ''unexpected end of feature probe'')
        else
          pp_bind
            (if pt_kind (tokens ! j) = P_StringLit then pp_ok (unquote (pt_text (tokens ! j)), j + 1)
             else if pt_text (tokens ! j) = ''<'' then
               let e = advance_while (\<lambda>t. pt_text t \<noteq> ''>'') tokens (j + 1) in
               if e \<ge> length tokens then pp_err (ConditionalError ''unterminated angle-bracket include probe'')
               else pp_ok (concat (map pt_text (filter (\<lambda>t. pt_kind t \<noteq> P_Whitespace) (piece tokens (j + 1) e))), e + 1)
             else pp_ok (pt_text (tokens ! j), j + 1))
            (\<lambda>(value, k).
              let l = skip_ws tokens k in
              if text_at tokens l \<noteq> Some '')'' then pp_err (ConditionalError ''expected ) to close feature probe'')
              else pp_ok (value, l + 1)))"

definition parse_feature_probe :: "pp_token list \<Rightarrow> nat \<Rightarrow> (string \<Rightarrow> bool) \<Rightarrow> (int \<times> nat) pp" where
  "parse_feature_probe tokens start predicate =
     pp_bind (parse_feature_probe_argument tokens start) (\<lambda>(value, next_j). pp_ok (int_of_bool (predicate value), next_j))"

definition parse_has_include_probe :: "if_env \<Rightarrow> string \<Rightarrow> pp_token list \<Rightarrow> parse_at" where
  "parse_has_include_probe env file tokens start =
     pp_bind (parse_feature_probe_argument tokens start) (\<lambda>(path, next_j).
       pp_ok (int_of_bool (if_include_exists env path file), next_j))"

text \<open>The names of \<open>AttrKind::from_name\<close> that are not \<open>Other\<close>.\<close>

definition supports_attribute :: "string \<Rightarrow> bool" where
  "supports_attribute name \<longleftrightarrow> name \<in> set
     [''noreturn'', ''noinline'', ''always_inline'', ''unused'', ''used'', ''aligned'', ''packed'', ''weak'',
      ''section'', ''constructor'', ''destructor'', ''format'', ''nonnull'', ''pure'', ''const'', ''hot'',
      ''cold'', ''visibility'']"

definition supports_builtin :: "string \<Rightarrow> bool" where
  "supports_builtin name \<longleftrightarrow>
     starts_with ''__builtin_'' name \<or> starts_with ''__sync_'' name \<or> starts_with ''__atomic_'' name"

definition supports_language_extension :: "string \<Rightarrow> bool" where
  "supports_language_extension name \<longleftrightarrow> name \<in> set
     [''c_atomic'', ''gnu_asm'', ''gnu_attributes'', ''statement_expression'', ''c_static_assert'']"

text \<open>The loop of \<open>collect_pp_macro_args\<close> over \<open>tokens[j..]\<close>.\<close>

fun pp_macro_args :: "string \<Rightarrow> nat \<Rightarrow> bool \<Rightarrow> nat \<Rightarrow> ctoken list list \<Rightarrow> pp_token list \<Rightarrow> pp_token list \<Rightarrow> nat \<Rightarrow>
    ctoken list list \<times> nat" where
  "pp_macro_args file expected variadic depth args cur [] j = (args, j)"
| "pp_macro_args file expected variadic depth args cur (t # ts) j =
     (if pt_text t = ''('' then pp_macro_args file expected variadic (depth + 1) args (cur @ [t]) ts (j + 1)
      else if pt_text t = '')'' \<and> depth = 0 then
        (if cur \<noteq> [] \<or> length args < expected \<or> variadic \<and> args = []
         then args @ [pp_tokens_to_tokens cur file] else args, j + 1)
      else if pt_text t = '','' \<and> depth = 0 then
        pp_macro_args file expected variadic depth (args @ [pp_tokens_to_tokens cur file]) [] ts (j + 1)
      else pp_macro_args file expected variadic (if pt_text t = '')'' \<and> depth > 0 then depth - 1 else depth)
             args (cur @ [t]) ts (j + 1))"

definition collect_pp_macro_args :: "pp_token list \<Rightarrow> nat \<Rightarrow> nat \<Rightarrow> bool \<Rightarrow> string \<Rightarrow> ctoken list list \<times> nat" where
  "collect_pp_macro_args tokens start expected variadic file =
     (let j = (if text_at tokens start = Some ''('' then start + 1 else start)
      in pp_macro_args file expected variadic 0 [] [] (drop j tokens) j)"

text \<open>\<open>or_rec\<close> is \<open>parse_if_or\<close>.\<close>

definition eval_if_macro_tokens :: "(pp_token list \<Rightarrow> parse_at) \<Rightarrow> ctoken list \<Rightarrow> int pp" where
  "eval_if_macro_tokens or_rec tokens =
     (let ts = filter (\<lambda>t. pt_kind t \<noteq> P_Whitespace \<or> CHR 0x0A \<notin> set (pt_text t) \<and> CHR 0x0D \<notin> set (pt_text t))
                 (tokens_to_pp_tokens tokens)
      in if list_all (\<lambda>t. pt_kind t = P_Whitespace) ts then pp_ok 0
         else pp_bind (or_rec (ts @ [pp_tok P_Newline [CHR 0x0A] 0 0]) 0) (\<lambda>(v, _). pp_ok v))"

definition eval_macro_at ::
  "nat \<Rightarrow> if_env \<Rightarrow> string \<Rightarrow> (pp_token list \<Rightarrow> parse_at) \<Rightarrow> pp_macro \<Rightarrow> pp_token list \<Rightarrow> parse_at" where
  "eval_macro_at n env file or_rec m tokens j =
     (case m of
        PObject replacement \<Rightarrow>
          run_bind (expand_macro_tokens n (if_macros env) replacement) (\<lambda>expanded.
          pp_bind (eval_if_macro_tokens or_rec expanded) (\<lambda>v. pp_ok (v, j + 1)))
      | PFunction params variadic vp replacement \<Rightarrow>
          let k = skip_ws tokens (j + 1) in
          if text_at tokens k = Some ''('' then
            (case collect_pp_macro_args tokens k (length params) variadic file of (args, end_idx) \<Rightarrow>
               run_bind (run_of (expand_function_macro_tokens replacement params variadic vp args)) (\<lambda>body.
               run_bind (expand_macro_tokens n (if_macros env) body) (\<lambda>expanded.
               pp_bind (eval_if_macro_tokens or_rec expanded) (\<lambda>v. pp_ok (v, end_idx)))))
          else pp_ok (1, j + 1))"

definition missing_paren :: "pp_token list \<Rightarrow> nat \<Rightarrow> nat \<Rightarrow> 'a pp" where
  "missing_paren tokens k e =
     (let (line, column, found) =
        (if k < length tokens then (pt_line (tokens ! k), pt_column (tokens ! k), pt_text (tokens ! k))
         else if e > 0 then (pt_line (tokens ! (e - 1)), pt_column (tokens ! (e - 1)), ''<eol>'')
         else (0, 0, ''<eof>''))
      in pp_err (ConditionalError (''expected ) in #if expression at '' @ digits line @ '':'' @ digits column @
           '' near '' @ found)))"

text \<open>\<open>cond_rec\<close> is \<open>parse_if_conditional\<close>.\<close>

definition parse_if_primary ::
  "nat \<Rightarrow> if_env \<Rightarrow> string \<Rightarrow> (pp_token list \<Rightarrow> parse_at) \<Rightarrow> (pp_token list \<Rightarrow> parse_at) \<Rightarrow> pp_token list \<Rightarrow> parse_at" where
  "parse_if_primary n env file cond_rec or_rec tokens start =
     (let j = skip_ws tokens start in
      if j \<ge> length tokens then unexpected_end
      else
        let t = tokens ! j; name = pt_text t in
        if name = ''('' then
          pp_bind (cond_rec tokens (j + 1)) (\<lambda>(value, e).
            let k = skip_ws tokens e in
            if text_at tokens k = Some '')'' then pp_ok (value, k + 1) else missing_paren tokens k e)
        else if name = ''defined'' then parse_defined env tokens j
        else if pt_kind t = P_Number then pp_ok (parse_int_literal name, j + 1)
        else if pt_kind t = P_Identifier then
          if name = ''__has_attribute'' then parse_feature_probe tokens j supports_attribute
          else if name = ''__has_builtin'' then parse_feature_probe tokens j supports_builtin
          else if name = ''__has_feature'' \<or> name = ''__has_extension'' then
            parse_feature_probe tokens j supports_language_extension
          else if name = ''__has_include'' \<or> name = ''__has_include_next'' then
            parse_has_include_probe env file tokens j
          else (case if_macros env name of
                  Some m \<Rightarrow> eval_macro_at n env file or_rec m tokens j
                | None \<Rightarrow> pp_ok (0, j + 1))
        else if pt_kind t = P_CharLit then pp_ok (parse_char_literal name, j + 1)
        else pp_err (ConditionalError (''unexpected token in #if expression: '' @ name)))"

fun parse_if_or :: "nat \<Rightarrow> if_env \<Rightarrow> string \<Rightarrow> pp_token list \<Rightarrow> parse_at"
  and parse_if_conditional :: "nat \<Rightarrow> if_env \<Rightarrow> string \<Rightarrow> pp_token list \<Rightarrow> parse_at" where
  "parse_if_or 0 env file tokens start = NoFuel"
| "parse_if_or (Suc n) env file tokens start =
     or_level n
       (parse_if_primary n env file (\<lambda>ts s. parse_if_conditional n env file ts s) (\<lambda>ts s. parse_if_or n env file ts s) tokens)
       tokens start"
| "parse_if_conditional 0 env file tokens start = NoFuel"
| "parse_if_conditional (Suc n) env file tokens start =
     pp_bind (parse_if_or n env file tokens start) (\<lambda>(condition, j0).
       let j = skip_ws tokens j0 in
       if text_at tokens j = Some ''?'' then
         pp_bind (parse_if_conditional n env file tokens (j + 1)) (\<lambda>(then_value, nxt).
           let colon = skip_ws tokens nxt in
           if text_at tokens colon \<noteq> Some '':'' then
             pp_err (ConditionalError ''expected : in #if ternary expression'')
           else
             pp_bind (parse_if_conditional n env file tokens (colon + 1)) (\<lambda>(else_value, e).
               pp_ok (if condition \<noteq> 0 then then_value else else_value, e)))
       else pp_ok (condition, j))"

text \<open>Whatever follows the expression on its line is skipped.\<close>

definition line_end :: "pp_token list \<Rightarrow> nat \<Rightarrow> nat" where
  "line_end tokens j = advance_while (\<lambda>t. pt_kind t \<noteq> P_Newline) tokens j"

definition parse_if_expression :: "nat \<Rightarrow> if_env \<Rightarrow> string \<Rightarrow> pp_token list \<Rightarrow> parse_at" where
  "parse_if_expression fuel env file tokens start =
     pp_bind (parse_if_conditional fuel env file tokens start) (\<lambda>(value, e). pp_ok (value, line_end tokens e + 1))"

end
