(* ===== verification/PpIfGrammar.thy ===== *)
theory PpIfGrammar
  imports PpIf
begin

text \<open>
  The evaluator of \<open>#if\<close> expressions against the grammar and the values of ISO C.

  \<open>derives ms p ts e\<close> is the grammar of conditional expressions at precedence level \<open>p\<close>, from \<open>0\<close>
  (conditional) to \<open>12\<close> (primary), with the macros \<open>ms\<close> in force; \<open>c_value\<close> gives the value, with
  undefined results \<open>None\<close>. The statements about a parser that takes fuel say that it returns a
  result for all sufficiently large fuel (\<open>returns\<close>).
\<close>

section \<open>Expressions and their values\<close>

datatype c_binop =
  Mul | Div | Mod | Add | Sub | Shl | Shr | Less | Greater | LessEq | GreaterEq | Equal | NotEqual
  | BitAnd | BitXor | BitOr | LogAnd | LogOr

datatype c_unop = LogNot | BitNot | Neg | Plus

datatype c_expr =
    Leaf int
  | Unary c_unop c_expr
  | Binary c_binop c_expr c_expr
  | Conditional c_expr c_expr c_expr

fun binop_text :: "c_binop \<Rightarrow> string" where
  "binop_text Mul = ''*''" | "binop_text Div = ''/''" | "binop_text Mod = ''%''"
| "binop_text Add = ''+''" | "binop_text Sub = ''-''" | "binop_text Shl = ''<<''" | "binop_text Shr = ''>>''"
| "binop_text Less = ''<''" | "binop_text Greater = ''>''" | "binop_text LessEq = ''<=''" | "binop_text GreaterEq = ''>=''"
| "binop_text Equal = ''==''" | "binop_text NotEqual = ''!=''" | "binop_text BitAnd = ''&''" | "binop_text BitXor = ''^''"
| "binop_text BitOr = ''|''" | "binop_text LogAnd = ''&&''" | "binop_text LogOr = ''||''"

fun unop_text :: "c_unop \<Rightarrow> string" where
  "unop_text LogNot = ''!''" | "unop_text BitNot = ''~''" | "unop_text Neg = ''-''" | "unop_text Plus = ''+''"

fun binop_level :: "c_binop \<Rightarrow> nat" where
  "binop_level LogOr = 1" | "binop_level LogAnd = 2" | "binop_level BitOr = 3" | "binop_level BitXor = 4"
| "binop_level BitAnd = 5" | "binop_level Equal = 6" | "binop_level NotEqual = 6"
| "binop_level Less = 7" | "binop_level Greater = 7" | "binop_level LessEq = 7" | "binop_level GreaterEq = 7"
| "binop_level Shl = 8" | "binop_level Shr = 8" | "binop_level Add = 9" | "binop_level Sub = 9"
| "binop_level Mul = 10" | "binop_level Div = 10" | "binop_level Mod = 10"

text \<open>
  Values in the sense of the standard: the mathematical result where it fits into an \<open>intmax_t\<close> of
  64 bits, division truncating, shift counts below 64, nothing otherwise.
\<close>

definition fits :: "int \<Rightarrow> int option" where
  "fits x = (if in_i64 x then Some x else None)"

fun binop_value :: "c_binop \<Rightarrow> int \<Rightarrow> int \<Rightarrow> int option" where
  "binop_value Mul a b = fits (a * b)"
| "binop_value Div a b = (if b = 0 then None else fits (a sdiv b))"
| "binop_value Mod a b = (if b = 0 \<or> \<not> in_i64 (a sdiv b) then None else fits (a smod b))"
| "binop_value Add a b = fits (a + b)"
| "binop_value Sub a b = fits (a - b)"
| "binop_value Shl a b = (if 0 \<le> b \<and> b < 64 then fits (a * 2 ^ nat b) else None)"
| "binop_value Shr a b = (if 0 \<le> b \<and> b < 64 then Some (a div 2 ^ nat b) else None)"
| "binop_value Less a b = Some (int_of_bool (a < b))"
| "binop_value Greater a b = Some (int_of_bool (a > b))"
| "binop_value LessEq a b = Some (int_of_bool (a \<le> b))"
| "binop_value GreaterEq a b = Some (int_of_bool (a \<ge> b))"
| "binop_value Equal a b = Some (int_of_bool (a = b))"
| "binop_value NotEqual a b = Some (int_of_bool (a \<noteq> b))"
| "binop_value BitAnd a b = Some (and a b)"
| "binop_value BitXor a b = Some (xor a b)"
| "binop_value BitOr a b = Some (or a b)"
| "binop_value LogAnd a b = Some (int_of_bool (a \<noteq> 0 \<and> b \<noteq> 0))"
| "binop_value LogOr a b = Some (int_of_bool (a \<noteq> 0 \<or> b \<noteq> 0))"

fun unop_value :: "c_unop \<Rightarrow> int \<Rightarrow> int option" where
  "unop_value LogNot a = Some (int_of_bool (a = 0))"
| "unop_value BitNot a = Some (not a)"
| "unop_value Neg a = fits (- a)"
| "unop_value Plus a = Some a"

text \<open>The right operand of \<open>&&\<close> and \<open>||\<close>, and the branch not taken, are not evaluated.\<close>

fun c_value :: "c_expr \<Rightarrow> int option" where
  "c_value (Leaf v) = Some v"
| "c_value (Unary u a) = Option.bind (c_value a) (unop_value u)"
| "c_value (Binary b x y) =
     (case c_value x of
        None \<Rightarrow> None
      | Some v \<Rightarrow>
          if b = LogAnd \<and> v = 0 then Some 0
          else if b = LogOr \<and> v \<noteq> 0 then Some 1
          else Option.bind (c_value y) (binop_value b v))"
| "c_value (Conditional c x y) = Option.bind (c_value c) (\<lambda>v. if v \<noteq> 0 then c_value x else c_value y)"

text \<open>Every operand has a value, also those that C does not evaluate.\<close>

fun all_defined :: "c_expr \<Rightarrow> bool" where
  "all_defined (Leaf v) = True"
| "all_defined (Unary u a) = (all_defined a \<and> c_value (Unary u a) \<noteq> None)"
| "all_defined (Binary b x y) = (all_defined x \<and> all_defined y \<and> c_value (Binary b x y) \<noteq> None)"
| "all_defined (Conditional c x y) = (all_defined c \<and> all_defined x \<and> all_defined y)"

section \<open>The grammar\<close>

definition blank :: "pp_token list \<Rightarrow> bool" where
  "blank ws \<longleftrightarrow> list_all (\<lambda>t. pt_kind t = P_Whitespace) ws"

definition op_token :: "pp_token \<Rightarrow> string \<Rightarrow> bool" where
  "op_token t s \<longleftrightarrow> pt_text t = s \<and> pt_kind t \<noteq> P_Whitespace"

text \<open>Identifiers that are neither an operator of \<open>#if\<close> nor a punctuator.\<close>

definition plain_name :: "string \<Rightarrow> bool" where
  "plain_name s \<longleftrightarrow> s \<notin> set [''('', ''!'', ''~'', ''-'', ''+'', ''defined'', ''__has_attribute'', ''__has_builtin'',
     ''__has_feature'', ''__has_extension'', ''__has_include'', ''__has_include_next'']"

text \<open>
  The grammar of the standard, except that an operand of a comparison or of an equality is not
  itself an unparenthesised comparison or equality.
\<close>

inductive derives :: "pp_macros \<Rightarrow> nat \<Rightarrow> pp_token list \<Rightarrow> c_expr \<Rightarrow> bool" for ms where
  d_num: "blank ws \<Longrightarrow> pt_kind t = P_Number \<Longrightarrow> pt_text t = c # s \<Longrightarrow> is_digit c \<Longrightarrow>
    derives ms 12 (ws @ [t]) (Leaf (parse_int_literal (c # s)))"
| d_unknown: "blank ws \<Longrightarrow> pt_kind t = P_Identifier \<Longrightarrow> plain_name (pt_text t) \<Longrightarrow> ms (pt_text t) = None \<Longrightarrow>
    derives ms 12 (ws @ [t]) (Leaf 0)"
| d_defined: "blank ws \<Longrightarrow> op_token t ''defined'' \<Longrightarrow> blank vs \<Longrightarrow> pt_kind i = P_Identifier \<Longrightarrow>
    plain_name (pt_text i) \<Longrightarrow>
    derives ms 12 (ws @ t # vs @ [i]) (Leaf (int_of_bool (ms (pt_text i) \<noteq> None)))"
| d_paren: "blank ws \<Longrightarrow> op_token l ''('' \<Longrightarrow> derives ms 0 ts e \<Longrightarrow> blank vs \<Longrightarrow> op_token r '')'' \<Longrightarrow>
    derives ms 12 (ws @ l # ts @ vs @ [r]) e"
| d_primary: "derives ms 12 ts e \<Longrightarrow> derives ms 11 ts e"
| d_unary: "blank ws \<Longrightarrow> op_token t (unop_text u) \<Longrightarrow> derives ms 11 ts e \<Longrightarrow> derives ms 11 (ws @ t # ts) (Unary u e)"
| d_up: "derives ms (Suc p) ts e \<Longrightarrow> 1 \<le> p \<Longrightarrow> p \<le> 10 \<Longrightarrow> derives ms p ts e"
| d_left: "derives ms (binop_level b) xs x \<Longrightarrow> blank ws \<Longrightarrow> op_token t (binop_text b) \<Longrightarrow>
    derives ms (Suc (binop_level b)) ys y \<Longrightarrow> binop_level b \<notin> {6, 7} \<Longrightarrow>
    derives ms (binop_level b) (xs @ ws @ t # ys) (Binary b x y)"
| d_single: "derives ms (Suc (binop_level b)) xs x \<Longrightarrow> blank ws \<Longrightarrow> op_token t (binop_text b) \<Longrightarrow>
    derives ms (Suc (binop_level b)) ys y \<Longrightarrow> binop_level b \<in> {6, 7} \<Longrightarrow>
    derives ms (binop_level b) (xs @ ws @ t # ys) (Binary b x y)"
| d_or: "derives ms 1 ts e \<Longrightarrow> derives ms 0 ts e"
| d_cond: "derives ms 1 cs c \<Longrightarrow> blank ws \<Longrightarrow> op_token q ''?'' \<Longrightarrow> derives ms 0 xs x \<Longrightarrow> blank vs \<Longrightarrow>
    op_token k '':'' \<Longrightarrow> derives ms 0 ys y \<Longrightarrow>
    derives ms 0 (cs @ ws @ q # xs @ vs @ k # ys) (Conditional c x y)"

lemma derives_nonempty: "derives ms p ts e \<Longrightarrow> ts \<noteq> []"
  by (induction rule: derives.induct) auto

section \<open>Parsers with enough fuel\<close>

definition returns :: "(nat \<Rightarrow> 'a pp) \<Rightarrow> 'a \<Rightarrow> bool" where
  "returns f x \<longleftrightarrow> (\<exists>N. \<forall>n\<ge>N. f n = pp_ok x)"

lemma returnsI: "(\<And>n. N \<le> n \<Longrightarrow> f n = pp_ok x) \<Longrightarrow> returns f x"
  unfolding returns_def by blast

lemma returns_const: "returns (\<lambda>_. pp_ok x) x"
  by (rule returnsI) simp

lemma returns_bind:
  assumes "returns f x" and "returns (\<lambda>n. g n x) y"
  shows "returns (\<lambda>n. pp_bind (f n) (g n)) y"
proof -
  from assms obtain N1 N2 where "\<forall>n\<ge>N1. f n = pp_ok x" "\<forall>n\<ge>N2. g n x = pp_ok y"
    unfolding returns_def by blast
  then show ?thesis by (intro returnsI [of "max N1 N2"]) simp
qed

lemma returns_Suc: "returns (\<lambda>n. f (Suc n)) x \<Longrightarrow> returns f x"
  unfolding returns_def by (metis Suc_le_D Suc_le_mono)

text \<open>A loop whose operand parser has its own fuel.\<close>

definition loop_returns ::
  "(nat \<Rightarrow> parse_at) \<Rightarrow> (string \<Rightarrow> (int \<Rightarrow> int \<Rightarrow> int pp) option) \<Rightarrow> pp_token list \<Rightarrow> int \<Rightarrow> nat \<Rightarrow> int \<times> nat \<Rightarrow> bool" where
  "loop_returns operand ops tokens left j x \<longleftrightarrow>
     (\<exists>N. \<forall>n\<ge>N. \<forall>m\<ge>N. binop_loop m (operand n) ops tokens left j = pp_ok x)"

lemma loop_stop:
  assumes "Option.bind (text_at tokens (skip_ws tokens j)) ops = None"
  shows "loop_returns operand ops tokens left j (left, skip_ws tokens j)"
proof -
  have "binop_loop m (operand n) ops tokens left j = pp_ok (left, skip_ws tokens j)" if "1 \<le> m" for n m
    using that assms by (cases m) (auto simp: Let_def)
  then show ?thesis unfolding loop_returns_def by blast
qed

lemma loop_step:
  assumes "Option.bind (text_at tokens (skip_ws tokens j)) ops = Some f"
    and "returns (\<lambda>n. operand n (skip_ws tokens j + 1)) (right, k)" and "f left right = pp_ok v"
    and "loop_returns operand ops tokens v k x"
  shows "loop_returns operand ops tokens left j x"
proof -
  from assms(2,4) obtain N1 N2 where N:
    "\<forall>n\<ge>N1. operand n (skip_ws tokens j + 1) = pp_ok (right, k)"
    "\<forall>n\<ge>N2. \<forall>m\<ge>N2. binop_loop m (operand n) ops tokens v k = pp_ok x"
    unfolding returns_def loop_returns_def by blast
  have "binop_loop m (operand n) ops tokens left j = pp_ok x"
    if "max N1 (Suc N2) \<le> n" "max N1 (Suc N2) \<le> m" for n m
    using that N assms(1,3) by (cases m) (auto simp: Let_def)
  then show ?thesis unfolding loop_returns_def by blast
qed

lemma left_assoc_returns:
  assumes "returns (\<lambda>n. operand n start) (left, j)" and "loop_returns operand ops tokens left j x"
  shows "returns (\<lambda>n. left_assoc n (operand n) ops tokens start) x"
proof -
  from assms obtain N1 N2 where "\<forall>n\<ge>N1. operand n start = pp_ok (left, j)"
    "\<forall>n\<ge>N2. \<forall>m\<ge>N2. binop_loop m (operand n) ops tokens left j = pp_ok x"
    unfolding returns_def loop_returns_def by blast
  then show ?thesis by (intro returnsI [of "max N1 N2"]) (simp add: left_assoc_def)
qed

lemma loop_returns_skip:
  assumes "skip_ws tokens j = skip_ws tokens k" and "loop_returns operand ops tokens v j x"
  shows "loop_returns operand ops tokens v k x"
proof -
  have e: "binop_loop (Suc m) f ops tokens v k = binop_loop (Suc m) f ops tokens v j" for m f
    using assms(1) by simp
  from assms(2) obtain N where N: "\<forall>n\<ge>N. \<forall>m\<ge>N. binop_loop m (operand n) ops tokens v j = pp_ok x"
    unfolding loop_returns_def by blast
  have "binop_loop m (operand n) ops tokens v k = pp_ok x" if l: "Suc N \<le> n" "Suc N \<le> m" for n m
  proof -
    from l(2) obtain m' where m: "m = Suc m'" by (cases m) auto
    with N l have "binop_loop (Suc m') (operand n) ops tokens v j = pp_ok x" by (metis Suc_leD)
    then show ?thesis unfolding m by (simp only: e)
  qed
  then show ?thesis unfolding loop_returns_def by blast
qed

section \<open>Positions\<close>

lemma advance_while_prefix:
  "drop j s = a @ b \<Longrightarrow> list_all p a \<Longrightarrow> advance_while p s j = advance_while p s (j + length a)"
proof (induction a arbitrary: j)
  case (Cons x a)
  then have j: "j < length s" "s ! j = x" "drop (Suc j) s = a @ b"
    using drop_eq_Cons [of j s x "a @ b"] by auto
  with Cons show ?case by (simp add: advance_while.simps [of p s j] byte_at_def)
qed simp

lemma skip_ws_blank:
  assumes "drop j tokens = ws @ r" and "blank ws"
  shows "skip_ws tokens j = skip_ws tokens (j + length ws)"
  using advance_while_prefix [OF assms(1)] assms(2) by (simp add: skip_ws_def blank_def)

lemma skip_ws_stop:
  assumes "drop j tokens = t # r" and "pt_kind t \<noteq> P_Whitespace"
  shows "skip_ws tokens j = j" and "j < length tokens" and "tokens ! j = t" and "text_at tokens j = Some (pt_text t)"
  using drop_eq_Cons [OF assms(1)] assms(2)
  by (auto simp: skip_ws_def advance_while.simps [of _ tokens j] byte_at_def text_at_def)

lemma skip_ws_at:
  assumes "drop j tokens = ws @ t # r" and "blank ws" and "pt_kind t \<noteq> P_Whitespace"
  shows "skip_ws tokens j = j + length ws" and "j + length ws < length tokens" and "tokens ! (j + length ws) = t"
    and "text_at tokens (j + length ws) = Some (pt_text t)" and "drop (j + length ws + 1) tokens = r"
proof -
  have d: "drop (j + length ws) tokens = t # r" by (rule drop_eq_append [OF assms(1)])
  note s = skip_ws_stop [OF d assms(3)]
  show "skip_ws tokens j = j + length ws" using skip_ws_blank [OF assms(1,2)] s(1) by simp
  show "j + length ws < length tokens" "tokens ! (j + length ws) = t"
    "text_at tokens (j + length ws) = Some (pt_text t)" using s by auto
  show "drop (j + length ws + 1) tokens = r" using drop_eq_Cons [OF d] by simp
qed

lemma skip_ws_idem: "skip_ws tokens (skip_ws tokens j) = skip_ws tokens j"
proof (cases "skip_ws tokens j < length tokens")
  case True
  then have "pt_kind (tokens ! skip_ws tokens j) \<noteq> P_Whitespace"
    using advance_while_stop [of "\<lambda>t. pt_kind t = P_Whitespace" tokens j] by (simp add: skip_ws_def)
  with True show ?thesis by (simp add: skip_ws_def [of tokens "skip_ws tokens j"] advance_while.simps [of _ tokens "skip_ws tokens j"] byte_at_def)
next
  case False
  then show ?thesis by (simp add: skip_ws_def [of tokens "skip_ws tokens j"] advance_while.simps [of _ tokens "skip_ws tokens j"] byte_at_def)
qed

text \<open>What follows at \<open>j\<close> does not continue an expression of level \<open>p\<close>.\<close>

definition stops :: "nat \<Rightarrow> pp_token list \<Rightarrow> nat \<Rightarrow> bool" where
  "stops p tokens j \<longleftrightarrow>
     (case text_at tokens (skip_ws tokens j) of
        None \<Rightarrow> True
      | Some s \<Rightarrow> (\<forall>b. binop_text b = s \<longrightarrow> binop_level b < p) \<and> (p = 0 \<longrightarrow> s \<noteq> ''?''))"

lemma stops_mono: "stops p tokens j \<Longrightarrow> p \<le> q \<Longrightarrow> stops q tokens j"
  by (force simp: stops_def split: option.splits)

lemma stops_skip: "skip_ws tokens j = skip_ws tokens k \<Longrightarrow> stops p tokens j = stops p tokens k"
  by (simp add: stops_def)

lemma binop_text_inj: "binop_text a = binop_text b \<longleftrightarrow> a = b"
  by (cases a; cases b; simp)

lemma stops_at:
  assumes "drop j tokens = ws @ t # r" and "blank ws" and "pt_kind t \<noteq> P_Whitespace"
  shows "stops p tokens j \<longleftrightarrow> (\<forall>b. binop_text b = pt_text t \<longrightarrow> binop_level b < p) \<and> (p = 0 \<longrightarrow> pt_text t \<noteq> ''?'')"
  using skip_ws_at [OF assms] by (simp add: stops_def)

section \<open>The levels of the parser\<close>

definition primary :: "if_env \<Rightarrow> string \<Rightarrow> pp_token list \<Rightarrow> nat \<Rightarrow> parse_at" where
  "primary env file tokens n =
     parse_if_primary n env file (parse_if_conditional n env file) (parse_if_or n env file) tokens"

definition level_parser :: "nat \<Rightarrow> if_env \<Rightarrow> string \<Rightarrow> pp_token list \<Rightarrow> nat \<Rightarrow> parse_at" where
  "level_parser p env file tokens n =
     (let pr = primary env file tokens n in
      if p = 0 then parse_if_conditional n env file tokens
      else if p = 1 then or_level n pr tokens
      else if p = 2 then parse_if_and n pr tokens
      else if p = 3 then parse_if_bitor n pr tokens
      else if p = 4 then parse_if_bitxor n pr tokens
      else if p = 5 then parse_if_bitand n pr tokens
      else if p = 6 then parse_if_equality n n pr tokens
      else if p = 7 then parse_if_comparison n pr tokens
      else if p = 8 then parse_if_shift n pr tokens
      else if p = 9 then parse_if_additive n pr tokens
      else if p = 10 then parse_if_multiplicative n pr tokens
      else parse_if_unary n pr tokens)"

definition level_ops :: "nat \<Rightarrow> string \<Rightarrow> (int \<Rightarrow> int \<Rightarrow> int pp) option" where
  "level_ops p =
     (if p = 1 then or_op else if p = 2 then and_op else if p = 3 then bitor_op else if p = 4 then bitxor_op
      else if p = 5 then bitand_op else if p = 8 then shift_op else if p = 9 then add_op else mul_op)"

lemma level_left:
  assumes "p \<in> {1, 2, 3, 4, 5, 8, 9, 10}"
  shows "level_parser p env file tokens n =
    left_assoc n (level_parser (Suc p) env file tokens n) (level_ops p) tokens"
  using assms
  by (auto simp: level_parser_def level_ops_def Let_def or_level_def parse_if_and_def parse_if_bitor_def
      parse_if_bitxor_def parse_if_bitand_def parse_if_shift_def parse_if_additive_def parse_if_multiplicative_def)

lemmas op_defs = or_op_def and_op_def bitor_op_def bitxor_op_def bitand_op_def shift_op_def add_op_def mul_op_def

lemma level_ops_None:
  assumes "p \<in> {1, 2, 3, 4, 5, 8, 9, 10}" and "\<forall>b. binop_text b = s \<longrightarrow> binop_level b \<noteq> p"
  shows "level_ops p s = None"
  using assms(1) assms(2) [rule_format, of LogOr] assms(2) [rule_format, of LogAnd] assms(2) [rule_format, of BitOr]
    assms(2) [rule_format, of BitXor] assms(2) [rule_format, of BitAnd] assms(2) [rule_format, of Shl]
    assms(2) [rule_format, of Shr] assms(2) [rule_format, of Add] assms(2) [rule_format, of Sub]
    assms(2) [rule_format, of Mul] assms(2) [rule_format, of Div] assms(2) [rule_format, of Mod]
  by (elim insertE emptyE)
    (auto simp: level_ops_def op_defs)

lemma fits_Some: "fits x = Some v \<longleftrightarrow> in_i64 x \<and> v = x"
  by (auto simp: fits_def)

lemma to_i64_fits: "in_i64 x \<Longrightarrow> to_i64 x = x"
  by (simp add: to_i64_def in_i64_def)

lemma shift_count_small: "0 \<le> b \<Longrightarrow> b < 64 \<Longrightarrow> shift_count b = nat b"
  by (simp add: shift_count_def)

lemma smod_overflow: "in_i64 (x sdiv y) \<Longrightarrow> \<not> (x = - (2 ^ 63) \<and> y = - 1)"
  by (auto simp: in_i64_def signed_divide_int_def)

lemma level_ops_value:
  assumes "binop_level b = p" and "p \<notin> {6, 7}" and "binop_value b x y = Some v"
  shows "\<exists>f. level_ops p (binop_text b) = Some f \<and> f x y = pp_ok v"
proof (cases b)
  case Div
  with assms have "y \<noteq> 0" "in_i64 (x sdiv y)" "v = x sdiv y" by (auto simp: fits_Some split: if_splits)
  with smod_overflow [of x y] assms Div show ?thesis by (auto simp: level_ops_def op_defs)
next
  case Mod
  with assms have "y \<noteq> 0" "in_i64 (x sdiv y)" "v = x smod y" by (auto simp: fits_Some split: if_splits)
  with smod_overflow [of x y] assms Mod show ?thesis by (auto simp: level_ops_def op_defs)
qed (use assms in \<open>auto simp: level_ops_def op_defs fits_Some to_i64_fits shift_count_small int_of_bool_def split: if_splits\<close>)

lemma all_defined_value: "all_defined e \<Longrightarrow> \<exists>v. c_value e = Some v"
  by (induction e) (fastforce split: option.splits)+

lemma binary_defined:
  assumes "all_defined (Binary b x y)"
  obtains v w u where "all_defined x" "all_defined y" "c_value x = Some v" "c_value y = Some w"
    "c_value (Binary b x y) = Some u" "binop_value b v w = Some u"
proof -
  from assms have d: "all_defined x" "all_defined y" "c_value (Binary b x y) \<noteq> None" by simp_all
  then obtain v w u where v: "c_value x = Some v" "c_value y = Some w" "c_value (Binary b x y) = Some u"
    using all_defined_value by fastforce
  then have "binop_value b v w = Some u" by (auto simp: int_of_bool_def split: if_splits)
  with d v that show ?thesis by blast
qed

section \<open>What a derived expression makes each level do\<close>

definition returns2 :: "(nat \<Rightarrow> nat \<Rightarrow> 'a pp) \<Rightarrow> 'a \<Rightarrow> bool" where
  "returns2 f x \<longleftrightarrow> (\<exists>N. \<forall>n\<ge>N. \<forall>m\<ge>N. f n m = pp_ok x)"

lemma returns2_returns: "returns2 f x \<Longrightarrow> returns (\<lambda>n. f n n) x"
  unfolding returns2_def returns_def by blast

definition prefix_op :: "pp_token list \<Rightarrow> nat \<Rightarrow> bool" where
  "prefix_op tokens j \<longleftrightarrow> (\<exists>u. text_at tokens j = Some (unop_text u))"

definition left_level :: "nat \<Rightarrow> bool" where
  "left_level p \<longleftrightarrow> p \<in> {1, 2, 3, 4, 5, 8, 9, 10}"

text \<open>
  \<open>level_reads p j k v\<close>: from \<open>j\<close> the parser of level \<open>p\<close> reads an expression of value \<open>v\<close> that ends at
  \<open>k\<close>. A left-associative level goes on with its loop at \<open>k\<close>; the levels with a lookahead need that
  what follows does not belong to the expression.
\<close>

definition level_reads :: "if_env \<Rightarrow> string \<Rightarrow> pp_token list \<Rightarrow> nat \<Rightarrow> nat \<Rightarrow> nat \<Rightarrow> int \<Rightarrow> bool" where
  "level_reads env file tokens p j k v \<longleftrightarrow>
     (if p = 12 then
        skip_ws tokens j < length tokens \<and> \<not> prefix_op tokens (skip_ws tokens j) \<and>
        returns (\<lambda>n. primary env file tokens n (skip_ws tokens j)) (v, k)
      else if p = 11 then returns2 (\<lambda>n m. parse_if_unary m (primary env file tokens n) tokens j) (v, k)
      else if left_level p then
        (\<forall>x. stops (Suc p) tokens k \<longrightarrow>
          loop_returns (level_parser (Suc p) env file tokens) (level_ops p) tokens v k x \<longrightarrow>
          returns (\<lambda>n. level_parser p env file tokens n j) x)
      else stops p tokens k \<longrightarrow>
        (\<exists>k'. returns (\<lambda>n. level_parser p env file tokens n j) (v, k') \<and> skip_ws tokens k' = skip_ws tokens k))"

lemma level_parser_unary: "level_parser 11 env file tokens n = parse_if_unary n (primary env file tokens n) tokens"
  by (simp add: level_parser_def Let_def)

lemma reads_left:
  assumes "left_level p"
  shows "level_reads env file tokens p j k v \<longleftrightarrow>
    (\<forall>x. stops (Suc p) tokens k \<longrightarrow>
      loop_returns (level_parser (Suc p) env file tokens) (level_ops p) tokens v k x \<longrightarrow>
      returns (\<lambda>n. level_parser p env file tokens n j) x)"
proof -
  from assms have "p \<noteq> 12" "p \<noteq> 11" by (auto simp: left_level_def)
  with assms show ?thesis by (simp add: level_reads_def)
qed

lemma reads_stops:
  assumes "level_reads env file tokens p j k v" and "stops p tokens k" and "p \<le> 11"
  obtains k' where "returns (\<lambda>n. level_parser p env file tokens n j) (v, k')" "skip_ws tokens k' = skip_ws tokens k"
proof (cases "left_level p")
  case True
  have "Option.bind (text_at tokens (skip_ws tokens k)) (level_ops p) = None"
    using assms(2) True level_ops_None [of p] by (fastforce simp: stops_def left_level_def split: option.splits)
  then have "loop_returns (level_parser (Suc p) env file tokens) (level_ops p) tokens v k (v, skip_ws tokens k)"
    by (rule loop_stop)
  with True assms have "returns (\<lambda>n. level_parser p env file tokens n j) (v, skip_ws tokens k)"
    using stops_mono [of p tokens k "Suc p"] by (simp add: reads_left)
  with that [of "skip_ws tokens k"] show ?thesis by (simp add: skip_ws_idem)
next
  case False
  show ?thesis
  proof (cases "p = 11")
    case True
    with assms(1) returns2_returns [of _ "(v, k)"] have "returns (\<lambda>n. level_parser p env file tokens n j) (v, k)"
      by (fastforce simp: level_reads_def level_parser_unary)
    with that show ?thesis by blast
  next
    case neq: False
    with False assms that show ?thesis by (auto simp: level_reads_def)
  qed
qed

lemma comparison_parser: "level_parser 7 env file tokens n = parse_if_comparison n (primary env file tokens n) tokens"
  and equality_parser: "level_parser 6 env file tokens n = parse_if_equality n n (primary env file tokens n) tokens"
  and shift_parser: "level_parser 8 env file tokens n = parse_if_shift n (primary env file tokens n) tokens"
  and conditional_parser: "level_parser 0 env file tokens n = parse_if_conditional n env file tokens"
  and or_parser: "level_parser 1 env file tokens n = parse_if_or (Suc n) env file tokens"
  by (auto simp: level_parser_def Let_def primary_def fun_eq_iff)

lemma compare_op_None: "stops 7 tokens k \<Longrightarrow> text_at tokens (skip_ws tokens k) = Some s \<Longrightarrow> compare_op s = None"
  by (auto simp: stops_def compare_op_def dest: spec [of _ Less] spec [of _ Greater] spec [of _ LessEq] spec [of _ GreaterEq])

lemma equality_op_None:
  "stops 6 tokens k \<Longrightarrow> text_at tokens (skip_ws tokens k) = Some s \<Longrightarrow> s \<noteq> ''=='' \<and> s \<noteq> ''!=''"
  by (auto simp: stops_def dest: spec [of _ Equal] spec [of _ NotEqual])

lemma text_at_Some: "text_at tokens j = Some s \<longleftrightarrow> j < length tokens \<and> pt_text (tokens ! j) = s"
  by (auto simp: text_at_def)

lemma comparison_stop:
  assumes "returns (\<lambda>n. level_parser 8 env file tokens n j) (v, k)" and "stops 7 tokens k"
  shows "returns (\<lambda>n. level_parser 7 env file tokens n j) (v, skip_ws tokens k)"
proof -
  have "(if skip_ws tokens k + 1 < length tokens then compare_op (pt_text (tokens ! skip_ws tokens k)) else None) = None"
    using compare_op_None [OF assms(2)] by (simp add: text_at_Some)
  then have "level_parser 7 env file tokens n j = pp_ok (v, skip_ws tokens k)"
    if "level_parser 8 env file tokens n j = pp_ok (v, k)" for n
    using that by (simp add: comparison_parser shift_parser parse_if_comparison_def Let_def)
  then show ?thesis using assms(1) by (meson returns_def)
qed

lemma comparison_step:
  assumes "returns (\<lambda>n. level_parser 8 env file tokens n j) (v, k)"
    and "text_at tokens (skip_ws tokens k) = Some (binop_text b)" and "binop_level b = 7"
    and "skip_ws tokens k + 1 < length tokens"
    and "returns (\<lambda>n. level_parser 8 env file tokens n (skip_ws tokens k + 1)) (w, l)"
    and "binop_value b v w = Some u"
  shows "returns (\<lambda>n. level_parser 7 env file tokens n j) (u, l)"
proof -
  have "\<exists>cmp. compare_op (binop_text b) = Some cmp \<and> int_of_bool (cmp v w) = u"
    using assms(3,6) by (cases b) (auto simp: compare_op_def)
  then obtain cmp where "compare_op (pt_text (tokens ! skip_ws tokens k)) = Some cmp" "int_of_bool (cmp v w) = u"
    using assms(2) by (auto simp: text_at_Some)
  moreover from assms(1,5) obtain N1 N2 where
    N: "\<forall>n\<ge>N1. level_parser 8 env file tokens n j = pp_ok (v, k)"
      "\<forall>n\<ge>N2. level_parser 8 env file tokens n (skip_ws tokens k + 1) = pp_ok (w, l)"
    unfolding returns_def by blast
  ultimately have "level_parser 7 env file tokens n j = pp_ok (u, l)" if "max N1 N2 \<le> n" for n
    using that assms(4) by (simp add: comparison_parser shift_parser parse_if_comparison_def Let_def)
  then show ?thesis unfolding returns_def by blast
qed

lemma equality_stop:
  assumes "returns (\<lambda>n. level_parser 7 env file tokens n j) (v, k)" and "stops 6 tokens k"
  shows "returns2 (\<lambda>n m. parse_if_equality m n (primary env file tokens n) tokens j) (v, skip_ws tokens k)"
proof -
  from assms(1) obtain N where N: "\<forall>n\<ge>N. parse_if_comparison n (primary env file tokens n) tokens j = pp_ok (v, k)"
    by (auto simp: returns_def comparison_parser)
  have "\<not> (skip_ws tokens k + 1 < length tokens \<and>
      (pt_text (tokens ! skip_ws tokens k) = ''=='' \<or> pt_text (tokens ! skip_ws tokens k) = ''!=''))"
    using equality_op_None [OF assms(2)] by (auto simp: text_at_Some)
  then have "parse_if_equality m n (primary env file tokens n) tokens j = pp_ok (v, skip_ws tokens k)"
    if "Suc N \<le> n" "Suc N \<le> m" for n m
    using that N by (cases m) (auto simp: Let_def)
  then show ?thesis unfolding returns2_def by blast
qed

lemma equality_step:
  assumes "returns (\<lambda>n. level_parser 7 env file tokens n j) (v, k)"
    and "text_at tokens (skip_ws tokens k) = Some (binop_text b)" and "binop_level b = 6"
    and "skip_ws tokens k + 1 < length tokens"
    and "returns2 (\<lambda>n m. parse_if_equality m n (primary env file tokens n) tokens (skip_ws tokens k + 1)) (w, l)"
    and "binop_value b v w = Some u"
  shows "returns (\<lambda>n. level_parser 6 env file tokens n j) (u, l)"
proof -
  from assms(1,5) obtain N M where
    N: "\<forall>n\<ge>N. parse_if_comparison n (primary env file tokens n) tokens j = pp_ok (v, k)" and
    M: "\<forall>n\<ge>M. \<forall>m\<ge>M. parse_if_equality m n (primary env file tokens n) tokens (skip_ws tokens k + 1) = pp_ok (w, l)"
    by (auto simp: returns_def returns2_def comparison_parser)
  have t: "pt_text (tokens ! skip_ws tokens k) = binop_text b" using assms(2) by (simp add: text_at_Some)
  have "parse_if_equality n n (primary env file tokens n) tokens j = pp_ok (u, l)" if "Suc (max N M) \<le> n" for n
  proof -
    from that obtain m where m: "n = Suc m" "M \<le> m" "M \<le> n" "N \<le> n" by (cases n) auto
    then have "parse_if_equality m n (primary env file tokens n) tokens (skip_ws tokens k + 1) = pp_ok (w, l)"
      using M by blast
    moreover have "parse_if_comparison n (primary env file tokens n) tokens j = pp_ok (v, k)" using N m by blast
    ultimately show ?thesis
      using assms(3,4,6) t unfolding m(1) by (cases b) (auto simp: Let_def)
  qed
  then show ?thesis unfolding returns_def equality_parser by blast
qed

lemma conditional_stop:
  assumes "returns (\<lambda>n. level_parser 1 env file tokens n j) (v, k)" and "stops 0 tokens k"
  shows "returns (\<lambda>n. level_parser 0 env file tokens n j) (v, skip_ws tokens k)"
proof (rule returns_Suc, rule returns_Suc)
  have "text_at tokens (skip_ws tokens k) \<noteq> Some ''?''" using assms(2) by (auto simp: stops_def)
  then have "level_parser 0 env file tokens (Suc (Suc n)) j = pp_ok (v, skip_ws tokens k)"
    if "level_parser 1 env file tokens n j = pp_ok (v, k)" for n
    using that unfolding conditional_parser or_parser parse_if_conditional.simps(2) [of "Suc n"]
    by (simp add: Let_def del: parse_if_or.simps parse_if_conditional.simps)
  then show "returns (\<lambda>n. level_parser 0 env file tokens (Suc (Suc n)) j) (v, skip_ws tokens k)"
    using assms(1) by (meson returns_def)
qed

lemma conditional_step:
  assumes "returns (\<lambda>n. level_parser 1 env file tokens n j) (v, k)"
    and "text_at tokens (skip_ws tokens k) = Some ''?''"
    and "returns (\<lambda>n. level_parser 0 env file tokens n (skip_ws tokens k + 1)) (a, l)"
    and "text_at tokens (skip_ws tokens l) = Some '':''"
    and "returns (\<lambda>n. level_parser 0 env file tokens n (skip_ws tokens l + 1)) (b, m)"
  shows "returns (\<lambda>n. level_parser 0 env file tokens n j) (if v \<noteq> 0 then a else b, m)"
proof -
  from assms(1,3,5) obtain N1 N2 N3 where
    N: "\<forall>n\<ge>N1. parse_if_or (Suc n) env file tokens j = pp_ok (v, k)"
    "\<forall>n\<ge>N2. parse_if_conditional n env file tokens (skip_ws tokens k + 1) = pp_ok (a, l)"
    "\<forall>n\<ge>N3. parse_if_conditional n env file tokens (skip_ws tokens l + 1) = pp_ok (b, m)"
    unfolding returns_def conditional_parser or_parser by blast
  have "parse_if_conditional n env file tokens j = pp_ok (if v \<noteq> 0 then a else b, m)"
    if "Suc (Suc (max N1 (max N2 N3))) \<le> n" for n
  proof -
    from that obtain i where n: "n = Suc (Suc i)" "N1 \<le> i" "N2 \<le> Suc i" "N3 \<le> Suc i"
      by (metis Suc_le_D Suc_le_mono le_SucI max.bounded_iff)
    then have "parse_if_or (Suc i) env file tokens j = pp_ok (v, k)"
      "parse_if_conditional (Suc i) env file tokens (skip_ws tokens k + 1) = pp_ok (a, l)"
      "parse_if_conditional (Suc i) env file tokens (skip_ws tokens l + 1) = pp_ok (b, m)" using N by blast+
    then show ?thesis
      unfolding n(1) parse_if_conditional.simps(2) [of "Suc i"] using assms(2,4)
      by (simp add: Let_def del: parse_if_or.simps parse_if_conditional.simps)
  qed
  then show ?thesis unfolding returns_def conditional_parser by blast
qed

section \<open>Derived expressions\<close>

lemma readsI_primary:
  assumes "drop j tokens = ws @ t # r" and "blank ws" and "pt_kind t \<noteq> P_Whitespace"
    and "pt_text t \<notin> set [''!'', ''~'', ''-'', ''+'']"
    and "returns (\<lambda>n. primary env file tokens n (j + length ws)) (v, k)"
  shows "level_reads env file tokens 12 j k v"
proof -
  have "\<not> prefix_op tokens (j + length ws)"
  proof
    assume "prefix_op tokens (j + length ws)"
    then obtain u where "pt_text t = unop_text u"
      using skip_ws_at [OF assms(1-3)] by (auto simp: prefix_op_def)
    with assms(4) show False by (cases u) auto
  qed
  with skip_ws_at [OF assms(1-3)] assms(5) show ?thesis by (simp add: level_reads_def)
qed

lemma primary_start:
  assumes "drop j tokens = t # r" and "pt_kind t \<noteq> P_Whitespace"
  shows "skip_ws tokens j = j" "\<not> length tokens \<le> j" "tokens ! j = t"
  using skip_ws_stop [OF assms] by auto

lemma primary_number:
  assumes "drop j tokens = t # r" and "pt_kind t = P_Number" and "pt_text t = c # s" and "is_digit c"
  shows "primary env file tokens n j = pp_ok (parse_int_literal (c # s), j + 1)"
  using primary_start [OF assms(1)] assms(2-4) by (auto simp: primary_def parse_if_primary_def is_digit_def Let_def)

lemma primary_unknown:
  assumes "drop j tokens = t # r" and "pt_kind t = P_Identifier" and "plain_name (pt_text t)"
    and "if_macros env (pt_text t) = None"
  shows "primary env file tokens n j = pp_ok (0, j + 1)"
  using primary_start [OF assms(1)] assms(2-4) by (simp add: primary_def parse_if_primary_def plain_name_def)

lemma primary_defined:
  assumes "drop j tokens = t # vs @ i # r" and "op_token t ''defined''" and "blank vs"
    and "pt_kind i = P_Identifier" and "plain_name (pt_text i)"
  shows "primary env file tokens n j =
    pp_ok (int_of_bool (if_macros env (pt_text i) \<noteq> None), j + 1 + length vs + 1)"
proof -
  have d: "drop (j + 1) tokens = vs @ i # r" using drop_eq_Cons [OF assms(1)] by simp
  note i = skip_ws_at [OF d assms(3)]
  have n: "pt_text i \<noteq> ''(''" using assms(5) by (auto simp: plain_name_def)
  show ?thesis
    using primary_start [OF assms(1)] i assms(2,4) n
    by (simp add: primary_def parse_if_primary_def parse_defined_def op_token_def Let_def)
qed

lemma primary_paren:
  assumes "drop j tokens = l # r" and "op_token l ''(''"
    and "returns (\<lambda>n. level_parser 0 env file tokens n (j + 1)) (v, k)"
    and "text_at tokens (skip_ws tokens k) = Some '')''"
  shows "returns (\<lambda>n. primary env file tokens n j) (v, skip_ws tokens k + 1)"
proof -
  have "primary env file tokens n j = pp_ok (v, skip_ws tokens k + 1)"
    if "level_parser 0 env file tokens n (j + 1) = pp_ok (v, k)" for n
    using that primary_start [OF assms(1)] assms(2,4) unfolding conditional_parser
    by (simp add: primary_def parse_if_primary_def op_token_def Let_def)
  with assms(3) show ?thesis by (meson returns_def)
qed

lemma unary_primary:
  assumes "level_reads env file tokens 12 j k v"
  shows "level_reads env file tokens 11 j k v"
proof -
  let ?j = "skip_ws tokens j"
  from assms obtain N where N: "?j < length tokens" "\<not> prefix_op tokens ?j"
    "\<forall>n\<ge>N. primary env file tokens n ?j = pp_ok (v, k)"
    by (auto simp: level_reads_def returns_def)
  have t: "pt_text (tokens ! ?j) \<noteq> unop_text u" for u using N(1,2) by (auto simp: prefix_op_def text_at_def)
  have "parse_if_unary m (primary env file tokens n) tokens j = pp_ok (v, k)" if "Suc N \<le> n" "Suc N \<le> m" for n m
    using that N t [of LogNot] t [of BitNot] t [of Neg] t [of Plus] by (cases m) (auto simp: Let_def)
  then show ?thesis by (auto simp: level_reads_def returns2_def)
qed

lemma unary_step:
  assumes "drop j tokens = ws @ t # r" and "blank ws" and "op_token t (unop_text u)"
    and "level_reads env file tokens 11 (j + length ws + 1) k a" and "unop_value u a = Some v"
  shows "level_reads env file tokens 11 j k v"
proof -
  from assms(4) obtain N where
    N: "\<forall>n\<ge>N. \<forall>m\<ge>N. parse_if_unary m (primary env file tokens n) tokens (j + length ws + 1) = pp_ok (a, k)"
    by (auto simp: level_reads_def returns2_def)
  have w: "pt_kind t \<noteq> P_Whitespace" and t: "pt_text t = unop_text u" using assms(3) by (auto simp: op_token_def)
  note s = skip_ws_at [OF assms(1,2) w]
  have "parse_if_unary m (primary env file tokens n) tokens j = pp_ok (v, k)" if l: "Suc N \<le> n" "Suc N \<le> m" for n m
  proof -
    from l obtain m' where m: "m = Suc m'" "N \<le> m'" "N \<le> n" by (cases m) auto
    then have "parse_if_unary m' (primary env file tokens n) tokens (j + length ws + 1) = pp_ok (a, k)" using N by blast
    with s t assms(5) show ?thesis
      unfolding m(1) by (cases u) (auto simp: Let_def int_of_bool_def fits_Some in_i64_def)
  qed
  then show ?thesis by (auto simp: level_reads_def returns2_def)
qed

lemma reads_up:
  assumes "level_reads env file tokens (Suc p) j k v" and "1 \<le> p" and "p \<le> 10"
  shows "level_reads env file tokens p j k v"
proof -
  have next_level: "\<exists>k'. returns (\<lambda>n. level_parser (Suc p) env file tokens n j) (v, k') \<and> skip_ws tokens k' = skip_ws tokens k"
    if "stops (Suc p) tokens k"
    by (rule reads_stops [OF assms(1) that]) (use assms(3) in auto)
  have "left_level p \<or> p = 6 \<or> p = 7"
    using assms(2,3) unfolding left_level_def insert_iff empty_iff by presburger
  then consider "left_level p" | "p = 6" | "p = 7" by blast
  then show ?thesis
  proof cases
    case 1
    have "returns (\<lambda>n. level_parser p env file tokens n j) x"
      if "stops (Suc p) tokens k" "loop_returns (level_parser (Suc p) env file tokens) (level_ops p) tokens v k x" for x
    proof -
      from next_level [OF that(1)] obtain k' where
        k: "returns (\<lambda>n. level_parser (Suc p) env file tokens n j) (v, k')" "skip_ws tokens k' = skip_ws tokens k" by blast
      have "loop_returns (level_parser (Suc p) env file tokens) (level_ops p) tokens v k' x"
        using loop_returns_skip [OF k(2) [symmetric] that(2)] .
      from left_assoc_returns [OF k(1) this] show ?thesis
        using 1 by (simp add: level_left left_level_def)
    qed
    with 1 show ?thesis by (simp add: reads_left)
  next
    case 2
    have "\<exists>k'. returns (\<lambda>n. level_parser 6 env file tokens n j) (v, k') \<and> skip_ws tokens k' = skip_ws tokens k"
      if s: "stops 6 tokens k"
    proof -
      from next_level 2 stops_mono [OF s, of 7] obtain k' where
        k: "returns (\<lambda>n. level_parser 7 env file tokens n j) (v, k')" "skip_ws tokens k' = skip_ws tokens k" by auto
      then have "returns (\<lambda>n. level_parser 6 env file tokens n j) (v, skip_ws tokens k')"
        using returns2_returns [OF equality_stop [OF k(1)]] s stops_skip [OF k(2)] by (simp add: equality_parser)
      with k(2) show ?thesis using skip_ws_idem by metis
    qed
    with 2 show ?thesis by (simp add: level_reads_def left_level_def)
  next
    case 3
    have "\<exists>k'. returns (\<lambda>n. level_parser 7 env file tokens n j) (v, k') \<and> skip_ws tokens k' = skip_ws tokens k"
      if s: "stops 7 tokens k"
    proof -
      from next_level 3 stops_mono [OF s, of 8] obtain k' where
        k: "returns (\<lambda>n. level_parser 8 env file tokens n j) (v, k')" "skip_ws tokens k' = skip_ws tokens k" by auto
      then have "returns (\<lambda>n. level_parser 7 env file tokens n j) (v, skip_ws tokens k')"
        using comparison_stop [OF k(1)] s stops_skip [OF k(2)] by simp
      with k(2) show ?thesis using skip_ws_idem by metis
    qed
    with 3 show ?thesis by (simp add: level_reads_def left_level_def)
  qed
qed

text \<open>An operator between two operands: positions, and what stops the left operand.\<close>

lemma operator_at:
  assumes "drop k tokens = ws @ t # r" and "blank ws" and "op_token t s"
  shows "skip_ws tokens k = k + length ws" and "text_at tokens (skip_ws tokens k) = Some s"
    and "drop (k + length ws + 1) tokens = r"
  using skip_ws_at [OF assms(1,2)] assms(3) by (auto simp: op_token_def)

lemma stops_operator:
  assumes "drop k tokens = ws @ t # r" and "blank ws" and "op_token t (binop_text b)"
  shows "stops (Suc (binop_level b)) tokens k"
  using operator_at [OF assms] by (auto simp: stops_def binop_text_inj)

lemma stops_other:
  assumes "drop k tokens = ws @ t # r" and "blank ws" and "op_token t s" and "\<forall>b. binop_text b \<noteq> s" and "s \<noteq> ''?'' \<or> 0 < p"
  shows "stops p tokens k"
  using operator_at [OF assms(1-3)] assms(4,5) by (auto simp: stops_def)

lemma not_binop: "binop_text b \<noteq> ''?''" "binop_text b \<noteq> '':''" "binop_text b \<noteq> '')''"
  by (cases b; simp)+

lemma left_step:
  assumes op: "drop k tokens = ws @ t # r" "blank ws" "op_token t (binop_text b)" "binop_level b \<notin> {6, 7}"
    and x: "level_reads env file tokens (binop_level b) j k v"
    and y: "level_reads env file tokens (Suc (binop_level b)) (k + length ws + 1) l w"
    and u: "binop_value b v w = Some u"
  shows "level_reads env file tokens (binop_level b) j l u"
proof -
  let ?p = "binop_level b"
  have left: "left_level ?p" using op(4) by (cases b) (auto simp: left_level_def)
  note at = operator_at [OF op(1-3)]
  obtain f where f: "level_ops ?p (binop_text b) = Some f" "f v w = pp_ok u"
    using level_ops_value [OF refl op(4) u] by blast
  have "returns (\<lambda>n. level_parser ?p env file tokens n j) z"
    if s: "stops (Suc ?p) tokens l" and z: "loop_returns (level_parser (Suc ?p) env file tokens) (level_ops ?p) tokens u l z" for z
  proof -
    have p: "Suc ?p \<le> 11" using left by (auto simp: left_level_def)
    from reads_stops [OF y s p] obtain l' where
      l: "returns (\<lambda>n. level_parser (Suc ?p) env file tokens n (k + length ws + 1)) (w, l')"
        "skip_ws tokens l' = skip_ws tokens l" .
    have "loop_returns (level_parser (Suc ?p) env file tokens) (level_ops ?p) tokens u l' z"
      by (rule loop_returns_skip [OF l(2) [symmetric] z])
    then have "loop_returns (level_parser (Suc ?p) env file tokens) (level_ops ?p) tokens v k z"
      using loop_step [of tokens k "level_ops ?p" f, OF _ _ f(2)] at(1,2) f(1) l(1) by simp
    with x stops_operator [OF op(1-3)] left show ?thesis by (simp only: reads_left simp_thms)
  qed
  with left show ?thesis by (simp add: reads_left)
qed

lemma single_step:
  assumes op: "drop k tokens = ws @ t # r" "blank ws" "op_token t (binop_text b)" "binop_level b \<in> {6, 7}" "r \<noteq> []"
    and x: "level_reads env file tokens (Suc (binop_level b)) j k v"
    and y: "level_reads env file tokens (Suc (binop_level b)) (k + length ws + 1) l w"
    and u: "binop_value b v w = Some u"
  shows "level_reads env file tokens (binop_level b) j l u"
proof -
  let ?p = "binop_level b"
  note at = operator_at [OF op(1-3)]
  have room: "skip_ws tokens k + 1 < length tokens" using at(1,3) op(5) by (metis add.assoc drop_eq_Nil not_le_imp_less)
  have "\<exists>l'. returns (\<lambda>n. level_parser ?p env file tokens n j) (u, l') \<and> skip_ws tokens l' = skip_ws tokens l"
    if s: "stops ?p tokens l"
  proof -
    from op(4) have p: "Suc ?p \<le> 11" by auto
    from reads_stops [OF x stops_operator [OF op(1-3)] p] obtain k' where
      k: "returns (\<lambda>n. level_parser (Suc ?p) env file tokens n j) (v, k')" "skip_ws tokens k' = skip_ws tokens k" .
    from reads_stops [OF y stops_mono [OF s] p] obtain l' where
      l: "returns (\<lambda>n. level_parser (Suc ?p) env file tokens n (k + length ws + 1)) (w, l')"
        "skip_ws tokens l' = skip_ws tokens l" by auto
    show ?thesis
    proof (cases "?p = 6")
      case True
      then have l7: "returns (\<lambda>n. level_parser 7 env file tokens n (k + length ws + 1)) (w, l')" using l(1) by simp
      have "stops 6 tokens l'" using s stops_skip [OF l(2)] True by simp
      from equality_stop [OF l7 this] k True at room u have
        "returns (\<lambda>n. level_parser 6 env file tokens n j) (u, skip_ws tokens l')"
        by (intro equality_step [where k = k' and b = b and v = v and w = w]) auto
      with True l(2) skip_ws_idem show ?thesis by metis
    next
      case False
      with op(4) have p7: "?p = 7" by simp
      then have "returns (\<lambda>n. level_parser 7 env file tokens n j) (u, l')"
        using k l(1) at room u by (intro comparison_step [where k = k' and b = b and v = v and w = w]) auto
      with p7 l(2) show ?thesis by auto
    qed
  qed
  moreover have "\<not> left_level ?p" using op(4) by (auto simp: left_level_def)
  ultimately show ?thesis using op(4) by (auto simp: level_reads_def)
qed

lemma or_step:
  assumes "level_reads env file tokens 1 j k v"
  shows "level_reads env file tokens 0 j k v"
proof -
  have "\<exists>k'. returns (\<lambda>n. level_parser 0 env file tokens n j) (v, k') \<and> skip_ws tokens k' = skip_ws tokens k"
    if s: "stops 0 tokens k"
  proof -
    from reads_stops [OF assms stops_mono [OF s]] obtain k' where
      k: "returns (\<lambda>n. level_parser 1 env file tokens n j) (v, k')" "skip_ws tokens k' = skip_ws tokens k" by auto
    have "stops 0 tokens k'" using s stops_skip [OF k(2)] by simp
    from conditional_stop [OF k(1) this] k(2) skip_ws_idem show ?thesis by metis
  qed
  then show ?thesis by (simp add: level_reads_def left_level_def)
qed

lemma cond_step:
  assumes q: "drop k tokens = ws @ t # r" "blank ws" "op_token t ''?''"
    and c: "drop l tokens = vs @ d # z" "blank vs" "op_token d '':''"
    and x: "level_reads env file tokens 1 j k v"
    and a: "level_reads env file tokens 0 (k + length ws + 1) l w"
    and b: "level_reads env file tokens 0 (l + length vs + 1) m u"
  shows "level_reads env file tokens 0 j m (if v \<noteq> 0 then w else u)"
proof -
  note qa = operator_at [OF q] and ca = operator_at [OF c]
  have "\<exists>m'. returns (\<lambda>n. level_parser 0 env file tokens n j) (if v \<noteq> 0 then w else u, m') \<and>
      skip_ws tokens m' = skip_ws tokens m" if s: "stops 0 tokens m"
  proof -
    have "stops 1 tokens k" using stops_other [OF q] not_binop by simp
    from reads_stops [OF x this] obtain k' where
      k: "returns (\<lambda>n. level_parser 1 env file tokens n j) (v, k')" "skip_ws tokens k' = skip_ws tokens k" by auto
    have "stops 0 tokens l" using stops_other [OF c] not_binop by simp
    from reads_stops [OF a this] obtain l' where
      l: "returns (\<lambda>n. level_parser 0 env file tokens n (k + length ws + 1)) (w, l')" "skip_ws tokens l' = skip_ws tokens l" by auto
    from reads_stops [OF b s] obtain m' where
      m: "returns (\<lambda>n. level_parser 0 env file tokens n (l + length vs + 1)) (u, m')" "skip_ws tokens m' = skip_ws tokens m" by auto
    have "returns (\<lambda>n. level_parser 0 env file tokens n j) (if v \<noteq> 0 then w else u, m')"
      using k l m(1) qa ca by (intro conditional_step [where k = k' and l = l']) auto
    with m(2) show ?thesis by blast
  qed
  then show ?thesis by (simp add: level_reads_def left_level_def)
qed

lemma derived_reads:
  assumes "derives (if_macros env) p ts e"
  shows "all_defined e \<Longrightarrow> c_value e = Some v \<Longrightarrow> drop j tokens = ts @ r \<Longrightarrow>
    level_reads env file tokens p j (j + length ts) v"
  using assms
proof (induction arbitrary: v j r rule: derives.induct)
  case (d_num ws t c s)
  have d: "drop j tokens = ws @ t # r" using d_num.prems by simp
  have "returns (\<lambda>n. primary env file tokens n (j + length ws)) (v, j + length (ws @ [t]))"
    using primary_number [OF drop_eq_append [OF d]] d_num by (auto simp: returns_def)
  moreover have "pt_text t \<notin> set [''!'', ''~'', ''-'', ''+'']" using d_num(3,4) by (auto simp: is_digit_def)
  ultimately show ?case using readsI_primary [OF d d_num(1)] d_num(2) by simp
next
  case (d_unknown ws t)
  have d: "drop j tokens = ws @ t # r" using d_unknown.prems by simp
  have "returns (\<lambda>n. primary env file tokens n (j + length ws)) (v, j + length (ws @ [t]))"
    using primary_unknown [OF drop_eq_append [OF d]] d_unknown by (auto simp: returns_def)
  with readsI_primary [OF d] d_unknown show ?case by (auto simp: plain_name_def)
next
  case (d_defined ws t vs i)
  have d: "drop j tokens = ws @ t # vs @ i # r" using d_defined.prems by simp
  have "returns (\<lambda>n. primary env file tokens n (j + length ws)) (v, j + length (ws @ t # vs @ [i]))"
    using primary_defined [OF drop_eq_append [OF d]] d_defined by (auto simp: returns_def add.assoc)
  with readsI_primary [OF d] d_defined show ?case by (auto simp: op_token_def)
next
  case (d_paren ws l ts e vs r')
  have d: "drop j tokens = ws @ l # ts @ vs @ r' # r" using d_paren.prems by simp
  note at = operator_at [OF d d_paren(1,2)]
  have d2: "drop (j + length ws + 1 + length ts) tokens = vs @ r' # r" by (rule drop_eq_append [OF at(3)])
  note at2 = operator_at [OF d2 d_paren(4,5)]
  have e: "level_reads env file tokens 0 (j + length ws + 1) (j + length ws + 1 + length ts) v"
    using d_paren.IH [OF d_paren.prems(1,2) at(3)] .
  have "stops 0 tokens (j + length ws + 1 + length ts)"
    using stops_other [OF d2 d_paren(4,5)] not_binop by simp
  from reads_stops [OF e this] obtain k where k: "returns (\<lambda>n. level_parser 0 env file tokens n (j + length ws + 1)) (v, k)"
    "skip_ws tokens k = skip_ws tokens (j + length ws + 1 + length ts)"
    by auto
  then have "returns (\<lambda>n. primary env file tokens n (j + length ws)) (v, skip_ws tokens k + 1)"
    using at2 by (intro primary_paren [OF drop_eq_append [OF d] d_paren(2)]) auto
  then have "returns (\<lambda>n. primary env file tokens n (j + length ws)) (v, j + length (ws @ l # ts @ vs @ [r']))"
    using k(2) at2(1) by (simp add: ac_simps)
  with readsI_primary [OF d d_paren(1)] d_paren(2) show ?case by (auto simp: op_token_def)
next
  case (d_primary ts e)
  show ?case by (rule unary_primary [OF d_primary.IH [OF d_primary.prems]])
next
  case (d_unary ws t u ts e)
  have d: "drop j tokens = ws @ t # ts @ r" using d_unary.prems by simp
  note at = operator_at [OF d d_unary(1,2)]
  from d_unary.prems obtain a where a: "all_defined e" "c_value e = Some a" "unop_value u a = Some v"
    by (auto simp: bind_eq_Some_conv)
  have "level_reads env file tokens 11 (j + length ws + 1) (j + length ws + 1 + length ts) a"
    by (rule d_unary.IH [OF a(1,2) at(3)])
  from unary_step [OF d d_unary(1,2) this a(3)] show ?case by (simp add: ac_simps)
next
  case (d_up p ts e)
  show ?case by (rule reads_up [OF d_up.IH [OF d_up.prems] d_up(2,3)])
next
  case (d_left b xs x ws t ys y)
  have d: "drop j tokens = xs @ ws @ t # ys @ r" using d_left.prems by simp
  note d1 = drop_eq_append [OF d]
  obtain a c where a: "all_defined x" "c_value x = Some a" "all_defined y" "c_value y = Some c" "binop_value b a c = Some v"
    using d_left.prems by (auto elim!: binary_defined simp del: all_defined.simps c_value.simps)
  have x: "level_reads env file tokens (binop_level b) j (j + length xs) a" by (rule d_left.IH(1) [OF a(1,2) d])
  have y: "level_reads env file tokens (Suc (binop_level b)) (j + length xs + length ws + 1) (j + length xs + length ws + 1 + length ys) c"
    by (rule d_left.IH(2) [OF a(3,4) operator_at(3) [OF d1 d_left(2,3)]])
  from left_step [OF d1 d_left(2,3,5) x y a(5)] show ?case by (simp add: ac_simps)
next
  case (d_single b xs x ws t ys y)
  have d: "drop j tokens = xs @ ws @ t # ys @ r" using d_single.prems by simp
  note d1 = drop_eq_append [OF d]
  obtain a c where a: "all_defined x" "c_value x = Some a" "all_defined y" "c_value y = Some c" "binop_value b a c = Some v"
    using d_single.prems by (auto elim!: binary_defined simp del: all_defined.simps c_value.simps)
  have x: "level_reads env file tokens (Suc (binop_level b)) j (j + length xs) a" by (rule d_single.IH(1) [OF a(1,2) d])
  have y: "level_reads env file tokens (Suc (binop_level b)) (j + length xs + length ws + 1) (j + length xs + length ws + 1 + length ys) c"
    by (rule d_single.IH(2) [OF a(3,4) operator_at(3) [OF d1 d_single(2,3)]])
  have "ys @ r \<noteq> []" using derives_nonempty [OF d_single(4)] by simp
  from single_step [OF d1 d_single(2,3,5) this x y a(5)] show ?case by (simp add: ac_simps)
next
  case (d_or ts e)
  show ?case by (rule or_step [OF d_or.IH [OF d_or.prems]])
next
  case (d_cond cs c ws q xs x vs k ys y)
  have d: "drop j tokens = cs @ ws @ q # xs @ vs @ k # ys @ r" using d_cond.prems by simp
  note d1 = drop_eq_append [OF d]
  note d2 = drop_eq_append [OF operator_at(3) [OF d1 d_cond(2,3)]]
  from d_cond.prems all_defined_value obtain a b w where
    a: "all_defined c" "c_value c = Some a" "all_defined x" "c_value x = Some b" "all_defined y" "c_value y = Some w"
    "v = (if a \<noteq> 0 then b else w)"
    by (fastforce split: if_splits)
  have c: "level_reads env file tokens 1 j (j + length cs) a" by (rule d_cond.IH(1) [OF a(1,2) d])
  have x: "level_reads env file tokens 0 (j + length cs + length ws + 1) (j + length cs + length ws + 1 + length xs) b"
    by (rule d_cond.IH(2) [OF a(3,4) operator_at(3) [OF d1 d_cond(2,3)]])
  have y: "level_reads env file tokens 0 (j + length cs + length ws + 1 + length xs + length vs + 1)
      (j + length cs + length ws + 1 + length xs + length vs + 1 + length ys) w"
    by (rule d_cond.IH(3) [OF a(5,6) operator_at(3) [OF d2 d_cond(5,6)]])
  from cond_step [OF d1 d_cond(2,3) d2 d_cond(5,6) c x y] a(7) show ?case by (simp add: ac_simps)
qed

lemma advance_while_imp:
  "(\<And>x. p x \<Longrightarrow> q x) \<Longrightarrow> advance_while q s (advance_while p s j) = advance_while q s j"
proof (induction p s j rule: advance_while.induct)
  case (1 p s j)
  then show ?case
    by (simp add: advance_while.simps [of p s j] advance_while.simps [of q s j] byte_at_def)
qed

lemma line_end_skip: "line_end tokens (skip_ws tokens j) = line_end tokens j"
  unfolding line_end_def skip_ws_def by (rule advance_while_imp) auto

section \<open>Properties\<close>


definition sample_tokens :: "pp_token list" where
  "sample_tokens =
     [pp_tok P_Identifier ''defined'' 1 5, pp_tok P_Identifier ''X'' 1 13,
      pp_tok P_Punctuator ''+'' 1 14, pp_tok P_Number ''2'' 1 15, pp_tok P_Punctuator ''*'' 1 16, pp_tok P_Number ''3'' 1 17]"

definition sample_env :: if_env where
  "sample_env = \<lparr>if_macros = [''X'' \<mapsto> PObject []], if_include_exists = (\<lambda>_ _. False)\<rparr>"

lemma derives_lower: "p \<le> q \<Longrightarrow> derives m q ts e \<Longrightarrow> 1 \<le> p \<Longrightarrow> q \<le> 11 \<Longrightarrow> derives m p ts e"
proof (induction rule: inc_induct)
  case (step n)
  then show ?case using d_up [of m n ts e] by simp
qed

lemma sample_derives:
  "derives (if_macros sample_env) 0 sample_tokens (Binary Add (Leaf 1) (Binary Mul (Leaf 2) (Leaf 3)))"
proof -
  have num: "derives m 12 [pp_tok P_Number [c] l k] (Leaf (parse_int_literal [c]))" if "is_digit c" for m c l k
    using d_num [of "[]" "pp_tok P_Number [c] l k" c "[]" m] that by (simp add: blank_def pp_tok_def)
  have up: "derives m 12 ts e \<Longrightarrow> p \<in> {1..11} \<Longrightarrow> derives m p ts e" for m ts e p
    using derives_lower [OF _ d_primary] by auto
  have two: "derives m 10 [pp_tok P_Number ''2'' 1 15] (Leaf 2)" for m
    using up [OF num [of "CHR ''2''" m 1 15], of 10] by (simp add: is_digit_def parse_int_literal_def starts_with_def from_str_radix_def digit_value_def radix_value_def in_i64_def unwrap_or_zero_def)
  have three: "derives m 11 [pp_tok P_Number ''3'' 1 17] (Leaf 3)" for m
    using up [OF num [of "CHR ''3''" m 1 17], of 11] by (simp add: is_digit_def parse_int_literal_def starts_with_def from_str_radix_def digit_value_def radix_value_def in_i64_def unwrap_or_zero_def)
  have mul: "derives m 10 [pp_tok P_Number ''2'' 1 15, pp_tok P_Punctuator ''*'' 1 16, pp_tok P_Number ''3'' 1 17] (Binary Mul (Leaf 2) (Leaf 3))" for m
    using d_left [of m Mul _ _ "[]" "pp_tok P_Punctuator ''*'' 1 16", simplified, OF two _ _ three]
    by (simp add: blank_def op_token_def pp_tok_def)
  have defd: "derives (if_macros sample_env) 12 [pp_tok P_Identifier ''defined'' 1 5, pp_tok P_Identifier ''X'' 1 13] (Leaf 1)"
    using d_defined [of "[]" "pp_tok P_Identifier ''defined'' 1 5" "[]" "pp_tok P_Identifier ''X'' 1 13" "if_macros sample_env"]
    by (simp add: blank_def op_token_def pp_tok_def plain_name_def sample_env_def int_of_bool_def)
  have add: "derives (if_macros sample_env) 9 sample_tokens (Binary Add (Leaf 1) (Binary Mul (Leaf 2) (Leaf 3)))"
    using d_left [of "if_macros sample_env" Add _ _ "[]" "pp_tok P_Punctuator ''+'' 1 14", simplified, OF up [OF defd, of 9] _ _ mul]
    by (simp add: blank_def op_token_def pp_tok_def sample_tokens_def)
  have "derives (if_macros sample_env) 1 sample_tokens (Binary Add (Leaf 1) (Binary Mul (Leaf 2) (Leaf 3)))"
    by (rule derives_lower [OF _ add]) auto
  then show ?thesis by (rule d_or)
qed


text \<open>
  The restrictions of the previous property are needed: a second comparison in a row and
  whatever follows it are ignored, so that \<open>3 < 2 < 1\<close> is \<open>0\<close> where C computes \<open>1\<close>; the operand that
  C does not evaluate is evaluated, so that \<open>0 && 1/0\<close> is an error where C computes \<open>0\<close>.\<close>

theorem if_expression_deviations:
  "parse_if_expression 12 sample_env ''a.c''
     [pp_tok P_Number ''3'' 1 5, pp_tok P_Punctuator ''<'' 1 6, pp_tok P_Number ''2'' 1 7,
      pp_tok P_Punctuator ''<'' 1 8, pp_tok P_Number ''1'' 1 9, pp_tok P_Newline [CHR 0x0A] 1 10] 0 = pp_ok (0, 6) \<and>
   c_value (Binary Less (Binary Less (Leaf 3) (Leaf 2)) (Leaf 1)) = Some 1 \<and>
   parse_if_expression 12 sample_env ''a.c''
     [pp_tok P_Number ''0'' 1 5, pp_tok P_Punctuator ''&&'' 1 6, pp_tok P_Number ''1'' 1 8,
      pp_tok P_Punctuator ''/'' 1 9, pp_tok P_Number ''0'' 1 10, pp_tok P_Newline [CHR 0x0A] 1 11] 0 =
     pp_err (ConditionalError ''division by zero in #if expression'') \<and>
   c_value (Binary LogAnd (Leaf 0) (Binary Div (Leaf 1) (Leaf 0))) = Some 0"
proof (intro conjI)
  show "parse_if_expression 12 sample_env ''a.c''
     [pp_tok P_Number ''3'' 1 5, pp_tok P_Punctuator ''<'' 1 6, pp_tok P_Number ''2'' 1 7,
      pp_tok P_Punctuator ''<'' 1 8, pp_tok P_Number ''1'' 1 9, pp_tok P_Newline [CHR 0x0A] 1 10] 0 = pp_ok (0, 6)"
    by code_simp
  show "parse_if_expression 12 sample_env ''a.c''
     [pp_tok P_Number ''0'' 1 5, pp_tok P_Punctuator ''&&'' 1 6, pp_tok P_Number ''1'' 1 8,
      pp_tok P_Punctuator ''/'' 1 9, pp_tok P_Number ''0'' 1 10, pp_tok P_Newline [CHR 0x0A] 1 11] 0 =
     pp_err (ConditionalError ''division by zero in #if expression'')"
    by code_simp
qed (simp_all add: int_of_bool_def)

end
