(* ===== verification/PpDriver.thy ===== *)
theory PpDriver
  imports PpIf FileDb
begin

text \<open>
  The state of the preprocessor, its directives and the inclusion of files
  (\<open>src/src/frontend/preprocessor.rs\<close>).

  The file system and the hash function are the parameter \<open>pp_world\<close>. A directive works on the
  state of one call of \<open>resolve_includes\<close> (\<open>scan\<close>) and gives the state after it with the index where
  the scan goes on, or an error: an error keeps the state, since an error of an included file may be
  turned into a warning. \<open>resolve_include_file\<close> has a fuel for the nesting of includes; the scan of
  the tokens of a file has one round for each token and one more.
\<close>

section \<open>Paths\<close>

text \<open>\<open>Path::join\<close> and \<open>Path::parent\<close> on Unix: an absolute path replaces what it is joined to; slashes
  and \<open>.\<close> components at the end do not count.\<close>

definition path_join :: "string \<Rightarrow> string \<Rightarrow> string" where
  "path_join dir path =
     (if starts_with ''/'' path then path
      else if dir = [] \<or> last dir = CHR ''/'' then dir @ path
      else dir @ ''/'' @ path)"

fun path_trim_rev :: "string \<Rightarrow> string" where
  "path_trim_rev (c # d # cs) =
     (if c = CHR ''/'' then path_trim_rev (d # cs)
      else if c = CHR ''.'' \<and> d = CHR ''/'' then path_trim_rev (d # cs)
      else c # d # cs)"
| "path_trim_rev cs = cs"

definition path_trim :: "string \<Rightarrow> string" where
  "path_trim p = rev (path_trim_rev (rev p))"

definition path_parent :: "string \<Rightarrow> string option" where
  "path_parent p =
     (let t = path_trim p in
      if t = [] \<or> t = ''/'' then None
      else Some (path_trim (rev (dropWhile (\<lambda>c. c \<noteq> CHR ''/'') (rev t)))))"

text \<open>\<open>str::trim\<close> on ASCII.\<close>

definition white_char :: "char \<Rightarrow> bool" where
  "white_char c \<longleftrightarrow> 9 \<le> ord c \<and> ord c \<le> 13 \<or> ord c = 32"

definition trim_text :: "string \<Rightarrow> string" where
  "trim_text s = rev (dropWhile white_char (rev (dropWhile white_char s)))"

section \<open>State\<close>

record pp_world =
  path_exists :: "string \<Rightarrow> bool"
  canonicalize :: "string \<Rightarrow> string option"
  read_file :: "string \<Rightarrow> string + string"
  compute_hash :: "string \<Rightarrow> file_hash"
  db_failure :: "db_error option"

record include_guard =
  ifndef_name :: string
  define_name :: string
  endif_line :: u32

record preprocessor =
  pp_db :: optic_db
  include_paths :: "string list"
  user_include_count :: usize
  pp_table :: pp_macros
  pp_pragmas :: "string list"
  pp_warnings :: "string list"
  pp_errors :: "string list"
  current_file :: string
  include_stack :: "string list"
  include_guards :: "string \<rightharpoonup> bool"
  active_include_guards :: "include_guard list"
  allow_missing_includes :: bool

definition add_include_path :: "preprocessor \<Rightarrow> string \<Rightarrow> preprocessor" where
  "add_include_path P path =
     P\<lparr>include_paths := take (user_include_count P) (include_paths P) @ [path] @
                       drop (user_include_count P) (include_paths P),
       user_include_count := user_include_count P + 1\<rparr>"

definition disable_default_include_paths :: "preprocessor \<Rightarrow> preprocessor" where
  "disable_default_include_paths P = P\<lparr>include_paths := [], user_include_count := 0\<rparr>"

definition pp_define_macro :: "preprocessor \<Rightarrow> string \<Rightarrow> string \<Rightarrow> preprocessor" where
  "pp_define_macro P name value = P\<lparr>pp_table := (pp_table P)(name \<mapsto> PObject (tokenize_replacement value))\<rparr>"

definition set_allow_missing_includes :: "preprocessor \<Rightarrow> bool \<Rightarrow> preprocessor" where
  "set_allow_missing_includes P allow = P\<lparr>allow_missing_includes := allow\<rparr>"

definition search_paths :: "preprocessor \<Rightarrow> string \<Rightarrow> string list" where
  "search_paths P file = (case path_parent file of Some d \<Rightarrow> [d] | None \<Rightarrow> []) @ include_paths P"

definition include_file_exists :: "pp_world \<Rightarrow> preprocessor \<Rightarrow> string \<Rightarrow> string \<Rightarrow> bool" where
  "include_file_exists w P path file = list_ex (\<lambda>d. path_exists w (path_join d path)) (search_paths P file)"

definition env_of :: "pp_world \<Rightarrow> preprocessor \<Rightarrow> if_env" where
  "env_of w P = \<lparr>if_macros = pp_table P, if_include_exists = include_file_exists w P\<rparr>"

definition pp_is_macro_defined :: "preprocessor \<Rightarrow> string \<Rightarrow> bool" where
  "pp_is_macro_defined P name \<longleftrightarrow> pp_table P name \<noteq> None"

definition check_include_guards :: "preprocessor \<Rightarrow> preprocessor" where
  "check_include_guards P =
     P\<lparr>include_guards :=
         foldl (\<lambda>m g. if define_name g \<noteq> [] \<and> ifndef_name g = define_name g then m(ifndef_name g \<mapsto> True) else m)
           (include_guards P) (active_include_guards P),
       active_include_guards := []\<rparr>"

section \<open>Reading directives\<close>

definition is_directive_start :: "pp_token list \<Rightarrow> nat \<Rightarrow> bool" where
  "is_directive_start tokens i \<longleftrightarrow>
     i < length tokens \<and> pt_kind (tokens ! i) = P_Hash \<and>
     (let j = skip_ws tokens (i + 1) in j < length tokens \<and> pt_kind (tokens ! j) = P_Identifier)"

definition parse_directive_name :: "pp_token list \<Rightarrow> nat \<Rightarrow> string \<times> u32 \<times> u32 \<times> nat" where
  "parse_directive_name tokens i =
     (let j = skip_ws tokens (i + 1) in
      if j < length tokens \<and> pt_kind (tokens ! j) = P_Identifier
      then (pt_text (tokens ! j), pt_line (tokens ! j), pt_column (tokens ! j), j + 1)
      else ([], pt_line (tokens ! i), pt_column (tokens ! i), j))"

definition skip_to_directive_end :: "pp_token list \<Rightarrow> nat \<Rightarrow> nat" where
  "skip_to_directive_end tokens i = line_end tokens i + 1"

definition parse_include_path :: "pp_token list \<Rightarrow> nat \<Rightarrow> string \<Rightarrow> pp_error + string \<times> nat" where
  "parse_include_path tokens start file =
     (let j = skip_ws tokens start in
      if j \<ge> length tokens then Inl (IncludeError file ''expected include path'')
      else if pt_text (tokens ! j) = ''<'' then
        let e = advance_while (\<lambda>t. pt_text t \<noteq> ''>'') tokens (j + 1)
        in Inr (concat (map pt_text (piece tokens (j + 1) e)), if e < length tokens then e + 1 else e)
      else if pt_kind (tokens ! j) = P_StringLit then Inr (unquote (pt_text (tokens ! j)), j + 1)
      else Inl (IncludeError file (''expected <file> or \"file\", found '' @ pt_text (tokens ! j))))"

definition parse_simple_directive_arg :: "pp_token list \<Rightarrow> nat \<Rightarrow> pp_error + string \<times> nat" where
  "parse_simple_directive_arg tokens start =
     (let j = skip_ws tokens start in
      if j \<ge> length tokens \<or> pt_kind (tokens ! j) \<noteq> P_Identifier then Inl (ConditionalError ''expected identifier'')
      else Inr (pt_text (tokens ! j), line_end tokens (j + 1) + 1))"

fun join_texts :: "pp_token list \<Rightarrow> string" where
  "join_texts [] = []"
| "join_texts [t] = pt_text t"
| "join_texts (t # u # ts) = pt_text t @ '' '' @ join_texts (u # ts)"

definition parse_pragma_text :: "pp_token list \<Rightarrow> nat \<Rightarrow> string \<times> nat" where
  "parse_pragma_text tokens start =
     (let e = line_end tokens start
      in (trim_text (join_texts (dropWhile (\<lambda>t. pt_kind t = P_Whitespace) (piece tokens start e))), e + 1))"

definition parse_diagnostic_text :: "pp_token list \<Rightarrow> nat \<Rightarrow> string \<times> nat" where
  "parse_diagnostic_text tokens start =
     (let e = line_end tokens start in (trim_text (join_texts (piece tokens start e)), e + 1))"

section \<open>Definitions of macros\<close>

lemma skip_ws_ge: "j \<le> skip_ws tokens j"
  unfolding skip_ws_def by (rule advance_while_ge)

text \<open>\<open>j\<close>, or the index after it when the token at \<open>j\<close> is \<open>s\<close>.\<close>

definition step_over :: "pp_token list \<Rightarrow> string \<Rightarrow> nat \<Rightarrow> nat" where
  "step_over tokens s j = (if text_at tokens j = Some s then j + 1 else j)"

lemma step_over_ge: "j \<le> step_over tokens s j"
  by (simp add: step_over_def)

function macro_params ::
  "pp_token list \<Rightarrow> string \<Rightarrow> string list \<Rightarrow> nat \<Rightarrow> pp_error + string list \<times> bool \<times> string option \<times> nat" where
  "macro_params tokens file params j =
     (let j1 = skip_ws tokens j in
      if j1 \<ge> length tokens then Inr (params, False, None, j1)
      else if pt_text (tokens ! j1) = '')'' then Inr (params, False, None, j1 + 1)
      else if pt_text (tokens ! j1) = ''...'' then
        Inr (params, True, None, step_over tokens '')'' (skip_ws tokens (j1 + 1)))
      else if pt_kind (tokens ! j1) = P_Identifier then
        let name = pt_text (tokens ! j1); j2 = skip_ws tokens (j1 + 1) in
        if text_at tokens j2 = Some ''...'' then
          Inr (params, True, Some name, step_over tokens '')'' (skip_ws tokens (j2 + 1)))
        else macro_params tokens file (params @ [name]) (step_over tokens '','' j2)
      else Inl (MacroError (''expected parameter name in macro definition in '' @ file)))"
  by pat_completeness auto
termination
proof (relation "measure (\<lambda>(tokens, _, _, j). length tokens - j)", goal_cases)
  case (2 tokens f params j j1 name j2)
  then have "j < step_over tokens '','' j2" "j < length tokens"
    using skip_ws_ge [of j tokens] skip_ws_ge [of "j1 + 1" tokens] step_over_ge [of j2 tokens "'',''"]
    by (auto simp: step_over_def)
  then show ?case by simp
qed simp

declare macro_params.simps [simp del]

definition parse_macro_params ::
  "pp_token list \<Rightarrow> nat \<Rightarrow> string \<Rightarrow> pp_error + string list \<times> bool \<times> string option \<times> nat" where
  "parse_macro_params tokens start file = macro_params tokens file [] (start + 1)"

definition replacement_tokens :: "preprocessor \<Rightarrow> string \<Rightarrow> pp_token list \<Rightarrow> nat \<Rightarrow> ctoken list" where
  "replacement_tokens P file tokens j =
     expand_tokens_in_macro (pp_table P) (pp_tokens_to_tokens (piece tokens j (line_end tokens j)) file)"

definition process_define ::
  "preprocessor \<Rightarrow> pp_token list \<Rightarrow> nat \<Rightarrow> string \<Rightarrow> pp_error + preprocessor \<times> nat" where
  "process_define P tokens start file =
     (let j = skip_ws tokens start in
      if j \<ge> length tokens \<or> pt_kind (tokens ! j) \<noteq> P_Identifier
      then Inl (MacroError ''expected macro name after #define'')
      else
        let name = pt_text (tokens ! j) in
        if text_at tokens (j + 1) = Some ''('' then
          (case parse_macro_params tokens (j + 1) file of
             Inl e \<Rightarrow> Inl e
           | Inr (params, variadic, variadic_param, e) \<Rightarrow>
               let r = skip_ws tokens e in
               Inr (P\<lparr>pp_table := (pp_table P)
                        (name \<mapsto> PFunction params variadic variadic_param (replacement_tokens P file tokens r))\<rparr>,
                    line_end tokens r + 1))
        else
          Inr (P\<lparr>pp_table := (pp_table P)(name \<mapsto> PObject (replacement_tokens P file tokens (j + 1)))\<rparr>,
               line_end tokens (j + 1) + 1))"

definition process_undef :: "preprocessor \<Rightarrow> pp_token list \<Rightarrow> nat \<Rightarrow> preprocessor \<times> nat" where
  "process_undef P tokens start =
     (let j = skip_ws tokens start in
      if j < length tokens \<and> pt_kind (tokens ! j) = P_Identifier
      then (P\<lparr>pp_table := (pp_table P)(pt_text (tokens ! j) := None)\<rparr>, line_end tokens (j + 1) + 1)
      else (P, line_end tokens j + 1))"

section \<open>One call of resolve\_includes\<close>

text \<open>The preprocessor and the local variables; \<open>sc_if\<close> is \<open>in_if_stack\<close>, its last element is the
  innermost group.\<close>

record scan =
  sc_pp :: preprocessor
  sc_result :: "ctoken list"
  sc_pending :: "pp_token list"
  sc_if :: "bool list"
  sc_taken :: "bool list"

type_synonym step = "(scan \<times> (pp_error + nat)) run"

definition go :: "scan \<Rightarrow> nat \<Rightarrow> step" where
  "go sc i = Done (sc, Inr i)"

definition stop :: "scan \<Rightarrow> pp_error \<Rightarrow> step" where
  "stop sc e = Done (sc, Inl e)"

definition all_active :: "scan \<Rightarrow> bool" where
  "all_active sc \<longleftrightarrow> list_all (\<lambda>a. a) (sc_if sc)"

definition parent_active :: "scan \<Rightarrow> bool" where
  "parent_active sc \<longleftrightarrow> list_all (\<lambda>a. a) (butlast (sc_if sc))"

definition push_group :: "scan \<Rightarrow> bool \<Rightarrow> scan" where
  "push_group sc active = sc\<lparr>sc_if := sc_if sc @ [active], sc_taken := sc_taken sc @ [active]\<rparr>"

definition set_group :: "scan \<Rightarrow> bool \<Rightarrow> scan" where
  "set_group sc active = sc\<lparr>sc_if := (sc_if sc)[length (sc_if sc) - 1 := active]\<rparr>"

definition mark_taken :: "scan \<Rightarrow> scan" where
  "mark_taken sc = sc\<lparr>sc_taken := (sc_taken sc)[length (sc_if sc) - 1 := True]\<rparr>"

definition flush_pending :: "nat \<Rightarrow> string \<Rightarrow> scan \<Rightarrow> scan run" where
  "flush_pending n file sc =
     (if sc_pending sc = [] then Done sc
      else
        run_bind (expand_macro_tokens n (pp_table (sc_pp sc)) (pp_tokens_to_tokens (sc_pending sc) file)) (\<lambda>expanded.
        Done (sc\<lparr>sc_result := sc_result sc @ expanded, sc_pending := []\<rparr>)))"

definition skip_line :: "scan \<Rightarrow> pp_token list \<Rightarrow> nat \<Rightarrow> step" where
  "skip_line sc tokens i = go sc (skip_to_directive_end tokens i)"

text \<open>An expression of \<open>#if\<close> or \<open>#elif\<close>, and what is done with its value.\<close>

definition with_condition ::
  "nat \<Rightarrow> pp_world \<Rightarrow> string \<Rightarrow> scan \<Rightarrow> pp_token list \<Rightarrow> nat \<Rightarrow> (bool \<Rightarrow> scan) \<Rightarrow> step" where
  "with_condition n w file sc tokens after f =
     run_bind (parse_if_expression n (env_of w (sc_pp sc)) file tokens after) (\<lambda>r.
       case r of Inl e \<Rightarrow> stop sc e | Inr (value, end_idx) \<Rightarrow> go (f (value \<noteq> 0)) end_idx)"

type_synonym include_fun =
  "preprocessor \<Rightarrow> string \<Rightarrow> string \<Rightarrow> (preprocessor \<times> (pp_error + ctoken list option)) run"

definition dir_include :: "include_fun \<Rightarrow> string \<Rightarrow> scan \<Rightarrow> pp_token list \<Rightarrow> nat \<Rightarrow> nat \<Rightarrow> step" where
  "dir_include inc file sc tokens i after =
     (if all_active sc then
        (case parse_include_path tokens after file of
           Inl e \<Rightarrow> stop sc e
         | Inr (path, end_idx) \<Rightarrow>
             run_bind (inc (sc_pp sc) path file) (\<lambda>(P, r).
               let sc1 = sc\<lparr>sc_pp := P\<rparr> in
               case r of
                 Inr (Some tokens') \<Rightarrow> go (sc1\<lparr>sc_result := sc_result sc1 @ tokens'\<rparr>) end_idx
               | Inr None \<Rightarrow> go sc1 end_idx
               | Inl e \<Rightarrow>
                   if allow_missing_includes P then
                     go (sc1\<lparr>sc_pp := P\<lparr>pp_warnings := pp_warnings P @
                           [''include skipped: '' @ path @ '' ('' @ pp_error_display e @ '')'']\<rparr>\<rparr>) end_idx
                   else stop sc1 e))
      else skip_line sc tokens i)"

definition dir_define :: "string \<Rightarrow> scan \<Rightarrow> pp_token list \<Rightarrow> nat \<Rightarrow> nat \<Rightarrow> step" where
  "dir_define file sc tokens i after =
     (if all_active sc then
        (case process_define (sc_pp sc) tokens after file of
           Inl e \<Rightarrow> stop sc e
         | Inr (P, end_idx) \<Rightarrow> go (sc\<lparr>sc_pp := P\<rparr>) end_idx)
      else skip_line sc tokens i)"

definition dir_undef :: "scan \<Rightarrow> pp_token list \<Rightarrow> nat \<Rightarrow> nat \<Rightarrow> step" where
  "dir_undef sc tokens i after =
     (if all_active sc then
        (case process_undef (sc_pp sc) tokens after of (P, end_idx) \<Rightarrow> go (sc\<lparr>sc_pp := P\<rparr>) end_idx)
      else skip_line sc tokens i)"

definition dir_ifdef :: "scan \<Rightarrow> pp_token list \<Rightarrow> nat \<Rightarrow> step" where
  "dir_ifdef sc tokens after =
     (case parse_simple_directive_arg tokens after of
        Inl e \<Rightarrow> stop sc e
      | Inr (name, end_idx) \<Rightarrow> go (push_group sc (all_active sc \<and> pp_is_macro_defined (sc_pp sc) name)) end_idx)"

definition add_guard :: "scan \<Rightarrow> string \<Rightarrow> scan" where
  "add_guard sc name =
     sc\<lparr>sc_pp := (sc_pp sc)\<lparr>active_include_guards := active_include_guards (sc_pp sc) @
          [\<lparr>ifndef_name = name, define_name = [], endif_line = 0\<rparr>]\<rparr>\<rparr>"

definition dir_ifndef :: "scan \<Rightarrow> pp_token list \<Rightarrow> nat \<Rightarrow> step" where
  "dir_ifndef sc tokens after =
     (case parse_simple_directive_arg tokens after of
        Inl e \<Rightarrow> stop sc e
      | Inr (name, end_idx) \<Rightarrow>
          let active = all_active sc \<and> \<not> pp_is_macro_defined (sc_pp sc) name; sc1 = push_group sc active
          in go (if active then add_guard sc1 name else sc1) end_idx)"

definition dir_if :: "nat \<Rightarrow> pp_world \<Rightarrow> string \<Rightarrow> scan \<Rightarrow> pp_token list \<Rightarrow> nat \<Rightarrow> nat \<Rightarrow> step" where
  "dir_if n w file sc tokens i after =
     (if all_active sc then with_condition n w file sc tokens after (push_group sc)
      else skip_line (push_group sc False) tokens i)"

definition dir_elif :: "nat \<Rightarrow> pp_world \<Rightarrow> string \<Rightarrow> scan \<Rightarrow> pp_token list \<Rightarrow> nat \<Rightarrow> nat \<Rightarrow> step" where
  "dir_elif n w file sc tokens i after =
     (if sc_if sc = [] then stop sc (ConditionalError ''#elif without #if'')
      else if length (sc_taken sc) < length (sc_if sc) then Crash
      else if sc_taken sc ! (length (sc_if sc) - 1) then skip_line (set_group sc False) tokens i
      else if parent_active sc then
        with_condition n w file sc tokens after (\<lambda>v. let sc1 = set_group sc v in if v then mark_taken sc1 else sc1)
      else skip_line sc tokens i)"

definition dir_else :: "scan \<Rightarrow> pp_token list \<Rightarrow> nat \<Rightarrow> step" where
  "dir_else sc tokens i =
     (if sc_if sc = [] then stop sc (ConditionalError ''#else without #if'')
      else if parent_active sc \<and> length (sc_taken sc) < length (sc_if sc) then Crash
      else
        skip_line
          (if parent_active sc \<and> \<not> sc_taken sc ! (length (sc_if sc) - 1) then mark_taken (set_group sc True)
           else set_group sc False) tokens i)"

definition set_endif_line :: "preprocessor \<Rightarrow> u32 \<Rightarrow> preprocessor" where
  "set_endif_line P line =
     (if active_include_guards P = [] then P
      else P\<lparr>active_include_guards := butlast (active_include_guards P) @
               [(last (active_include_guards P))\<lparr>endif_line := line\<rparr>]\<rparr>)"

definition dir_endif :: "scan \<Rightarrow> pp_token list \<Rightarrow> nat \<Rightarrow> u32 \<Rightarrow> step" where
  "dir_endif sc tokens i line =
     (if sc_if sc = [] then stop sc (ConditionalError ''#endif without #if'')
      else
        skip_line
          (sc\<lparr>sc_if := butlast (sc_if sc), sc_taken := butlast (sc_taken sc),
              sc_pp := set_endif_line (sc_pp sc) line\<rparr>) tokens i)"

definition note_pragma_once :: "preprocessor \<Rightarrow> preprocessor" where
  "note_pragma_once P =
     (let P1 = (if active_include_guards P = [] then P
                else P\<lparr>active_include_guards := butlast (active_include_guards P) @
                         [(last (active_include_guards P))\<lparr>define_name := ''__PRAGMA_ONCE__''\<rparr>]\<rparr>)
      in P1\<lparr>include_guards := (include_guards P1)(current_file P1 \<mapsto> True)\<rparr>)"

definition dir_pragma :: "scan \<Rightarrow> pp_token list \<Rightarrow> nat \<Rightarrow> nat \<Rightarrow> step" where
  "dir_pragma sc tokens i after =
     (if all_active sc then
        (case parse_pragma_text tokens after of (text, end_idx) \<Rightarrow>
           let P = (if trim_text text = ''once'' then note_pragma_once (sc_pp sc) else sc_pp sc)
           in go (sc\<lparr>sc_pp := P\<lparr>pp_pragmas := pp_pragmas P @ [text]\<rparr>\<rparr>) end_idx)
      else skip_line sc tokens i)"

definition dir_error :: "scan \<Rightarrow> pp_token list \<Rightarrow> nat \<Rightarrow> nat \<Rightarrow> step" where
  "dir_error sc tokens i after =
     (if all_active sc then
        (case parse_diagnostic_text tokens after of (msg, _) \<Rightarrow>
           stop (sc\<lparr>sc_pp := (sc_pp sc)\<lparr>pp_errors := pp_errors (sc_pp sc) @ [msg]\<rparr>\<rparr>)
             (ConditionalError (''#error: '' @ msg)))
      else skip_line sc tokens i)"

definition dir_warning :: "scan \<Rightarrow> pp_token list \<Rightarrow> nat \<Rightarrow> nat \<Rightarrow> step" where
  "dir_warning sc tokens i after =
     (if all_active sc then
        (case parse_diagnostic_text tokens after of (msg, end_idx) \<Rightarrow>
           go (sc\<lparr>sc_pp := (sc_pp sc)\<lparr>pp_warnings := pp_warnings (sc_pp sc) @ [msg]\<rparr>\<rparr>) end_idx)
      else skip_line sc tokens i)"

text \<open>The directive at \<open>i\<close>. \<open>#line\<close> and unknown directives are skipped.\<close>

definition directive :: "include_fun \<Rightarrow> nat \<Rightarrow> pp_world \<Rightarrow> string \<Rightarrow> scan \<Rightarrow> pp_token list \<Rightarrow> nat \<Rightarrow> step" where
  "directive inc n w file sc tokens i =
     (case parse_directive_name tokens i of (name, line, _, after) \<Rightarrow>
        if name = ''include'' then dir_include inc file sc tokens i after
        else if name = ''define'' then dir_define file sc tokens i after
        else if name = ''undef'' then dir_undef sc tokens i after
        else if name = ''ifdef'' then dir_ifdef sc tokens after
        else if name = ''ifndef'' then dir_ifndef sc tokens after
        else if name = ''if'' then dir_if n w file sc tokens i after
        else if name = ''elif'' then dir_elif n w file sc tokens i after
        else if name = ''else'' then dir_else sc tokens i
        else if name = ''endif'' then dir_endif sc tokens i line
        else if name = ''pragma'' then dir_pragma sc tokens i after
        else if name = ''error'' then dir_error sc tokens i after
        else if name = ''warning'' then dir_warning sc tokens i after
        else skip_line sc tokens i)"

definition push_pending :: "scan \<Rightarrow> pp_token \<Rightarrow> scan" where
  "push_pending sc t = (if all_active sc then sc\<lparr>sc_pending := sc_pending sc @ [t]\<rparr> else sc)"

text \<open>One round of the loop at an index within the tokens.\<close>

definition scan_step :: "include_fun \<Rightarrow> nat \<Rightarrow> pp_world \<Rightarrow> string \<Rightarrow> pp_token list \<Rightarrow> scan \<Rightarrow> nat \<Rightarrow> step" where
  "scan_step inc n w file tokens sc i =
     (if is_directive_start tokens i
      then run_bind (flush_pending n file sc) (\<lambda>sc1. directive inc n w file sc1 tokens i)
      else go (push_pending sc (tokens ! i)) (i + 1))"

fun scan_loop :: "nat \<Rightarrow> include_fun \<Rightarrow> nat \<Rightarrow> pp_world \<Rightarrow> string \<Rightarrow> pp_token list \<Rightarrow> scan \<Rightarrow> nat \<Rightarrow>
    (scan \<times> (pp_error + unit)) run" where
  "scan_loop rounds inc n w file tokens sc i =
     (if i \<ge> length tokens then Done (sc, Inr ())
      else
        case rounds of
          0 \<Rightarrow> NoFuel
        | Suc r \<Rightarrow>
            run_bind (scan_step inc n w file tokens sc i) (\<lambda>(sc1, x).
              case x of Inl e \<Rightarrow> Done (sc1, Inl e) | Inr j \<Rightarrow> scan_loop r inc n w file tokens sc1 j))"

declare scan_loop.simps [simp del]

definition start_scan :: "preprocessor \<Rightarrow> scan" where
  "start_scan P = \<lparr>sc_pp = P, sc_result = [], sc_pending = [], sc_if = [], sc_taken = []\<rparr>"

definition finish_scan :: "nat \<Rightarrow> string \<Rightarrow> scan \<Rightarrow> (preprocessor \<times> (pp_error + ctoken list)) run" where
  "finish_scan n file sc =
     run_bind (flush_pending n file sc) (\<lambda>sc1.
       Done (if sc_if sc1 \<noteq> [] then (sc_pp sc1, Inl (ConditionalError ''unterminated conditional directive''))
             else (check_include_guards (sc_pp sc1), Inr (sc_result sc1))))"

definition resolve_includes ::
  "include_fun \<Rightarrow> nat \<Rightarrow> pp_world \<Rightarrow> preprocessor \<Rightarrow> string \<Rightarrow> string \<Rightarrow> u32 \<Rightarrow>
    (preprocessor \<times> (pp_error + ctoken list)) run" where
  "resolve_includes inc n w P source file base_line =
     (let tokens = tokenize_pp_source source base_line in
      run_bind (scan_loop (Suc (length tokens)) inc n w file tokens (start_scan P) 0) (\<lambda>(sc, x).
        case x of Inl e \<Rightarrow> Done (sc_pp sc, Inl e) | Inr _ \<Rightarrow> finish_scan n file sc))"

section \<open>Files\<close>

definition enter_file :: "preprocessor \<Rightarrow> string \<Rightarrow> preprocessor" where
  "enter_file P file = P\<lparr>current_file := file, include_stack := include_stack P @ [file]\<rparr>"

definition leave_file :: "preprocessor \<Rightarrow> preprocessor" where
  "leave_file P = P\<lparr>include_stack := butlast (include_stack P)\<rparr>"

text \<open>A call of \<open>resolve_includes\<close> with the file on the include stack; an error leaves it there.\<close>

definition with_file ::
  "(preprocessor \<Rightarrow> (preprocessor \<times> (pp_error + ctoken list)) run) \<Rightarrow> preprocessor \<Rightarrow> string \<Rightarrow>
    (preprocessor \<times> (pp_error + ctoken list)) run" where
  "with_file run P file =
     run_bind (run (enter_file P file)) (\<lambda>(P1, r).
       Done (case r of Inl e \<Rightarrow> (P1, Inl e) | Inr tokens \<Rightarrow> (leave_file P1, Inr tokens)))"

definition resolved_path :: "pp_world \<Rightarrow> string \<Rightarrow> string" where
  "resolved_path w full_path = (case canonicalize w full_path of Some p \<Rightarrow> p | None \<Rightarrow> full_path)"

fun resolve_include_file :: "nat \<Rightarrow> nat \<Rightarrow> pp_world \<Rightarrow> include_fun" where
  "resolve_include_file 0 n w P path file = NoFuel"
| "resolve_include_file (Suc d) n w P path file =
     (if path \<in> set (include_stack P) then Done (P, Inr None)
      else
        case find (path_exists w) (map (\<lambda>dir. path_join dir path) (search_paths P file)) of
          None \<Rightarrow> Done (P, Inl (IncludeError file (''file not found: '' @ path)))
        | Some full_path \<Rightarrow>
            let resolved = resolved_path w full_path in
            if resolved \<in> set (include_stack P) then Done (P, Inr None)
            else
              (case read_file w full_path of
                 Inl e \<Rightarrow> Done (P, Inl (IncludeError path e))
               | Inr content \<Rightarrow>
                   let hash = compute_hash w content in
                   if knows_file (db_failure w) (pp_db P) hash then Done (P, Inr None)
                   else
                     let P1 = P\<lparr>pp_db := note_file (db_failure w) (pp_db P) hash path\<rparr> in
                     run_bind
                       (with_file
                          (\<lambda>P2. resolve_includes (\<lambda>P p f. resolve_include_file d n w P p f) n w P2 content resolved 1)
                          P1 resolved) (\<lambda>(P3, r).
                     Done (P3, case r of Inl e \<Rightarrow> Inl e | Inr tokens \<Rightarrow> Inr (Some tokens)))))"

definition process_source ::
  "nat \<Rightarrow> nat \<Rightarrow> pp_world \<Rightarrow> preprocessor \<Rightarrow> string \<Rightarrow> string \<Rightarrow> (preprocessor \<times> (pp_error + ctoken list)) run" where
  "process_source d n w P source file_name =
     with_file (\<lambda>P1. resolve_includes (resolve_include_file d n w) n w P1 source file_name 1) P file_name"

definition process_file ::
  "nat \<Rightarrow> nat \<Rightarrow> pp_world \<Rightarrow> preprocessor \<Rightarrow> string \<Rightarrow> (preprocessor \<times> (pp_error + ctoken list)) run" where
  "process_file d n w P file =
     (case read_file w file of
        Inl e \<Rightarrow> Done (P, Inl (FileNotFound (file @ '': '' @ e)))
      | Inr content \<Rightarrow> process_source d n w P content file)"

end
