(* ===== verification/PpBootstrap.thy ===== *)
theory PpBootstrap
  imports PpDriver
begin

text \<open>
  What a new preprocessor starts with (\<open>src/src/frontend/preprocessor.rs\<close>): the default include paths
  and the predefined macros.

  The environment, the compilers that are asked and the directory \<open>/usr/lib/gcc\<close> are the parameter
  \<open>host\<close>. The sizes are those of \<open>x86_64\<close> Linux, whose branches of the \<open>cfg\<close> attributes are modelled.
\<close>

section \<open>Text\<close>

text \<open>\<open>str::lines\<close>: the line feeds and the carriage returns before them are dropped.\<close>

definition strip_cr :: "string \<Rightarrow> string" where
  "strip_cr s = (if s \<noteq> [] \<and> last s = CHR 0x0D then butlast s else s)"

function str_lines :: "string \<Rightarrow> string list" where
  "str_lines s =
     (if s = [] then []
      else if CHR 0x0A \<in> set s
      then strip_cr (takeWhile (\<lambda>c. c \<noteq> CHR 0x0A) s) # str_lines (drop 1 (dropWhile (\<lambda>c. c \<noteq> CHR 0x0A) s))
      else [s])"
  by pat_completeness auto
termination
proof (relation "measure length")
  fix s :: string
  assume "s \<noteq> []"
  moreover have "length (dropWhile (\<lambda>c. c \<noteq> CHR 0x0A) s) \<le> length s" by (rule length_dropWhile_le)
  moreover have "0 < length s" using calculation(1) by simp
  ultimately show "(drop 1 (dropWhile (\<lambda>c. c \<noteq> CHR 0x0A) s), s) \<in> measure length"
    by (simp only: in_measure length_drop)
qed simp

declare str_lines.simps [simp del]

section \<open>Include paths\<close>

record host =
  env_paths :: "string \<Rightarrow> string list option"
  compiler_search_output :: "string \<Rightarrow> string option"
  compiler_macro_output :: "string \<Rightarrow> (bool \<times> string) option"
  gcc_include_dirs :: "string list"
  host_exists :: "string \<Rightarrow> bool"

definition push_unique_existing_path :: "host \<Rightarrow> string list \<Rightarrow> string \<Rightarrow> string list" where
  "push_unique_existing_path h paths path =
     (if host_exists h path \<and> path \<notin> set paths then paths @ [path] else paths)"

definition push_paths :: "host \<Rightarrow> string list \<Rightarrow> string list \<Rightarrow> string list" where
  "push_paths h paths new = foldl (push_unique_existing_path h) paths new"

fun search_list :: "host \<Rightarrow> bool \<Rightarrow> string list \<Rightarrow> string list \<Rightarrow> string list" where
  "search_list h inside paths [] = paths"
| "search_list h inside paths (line # rest) =
     (let trimmed = trim_text line in
      if trimmed = ''#include <...> search starts here:'' then search_list h True paths rest
      else if trimmed = ''End of search list.'' then paths
      else search_list h inside
             (if inside \<and> trimmed \<noteq> [] then push_unique_existing_path h paths trimmed else paths) rest)"

definition detect_compiler_include_paths :: "host \<Rightarrow> string \<Rightarrow> string list" where
  "detect_compiler_include_paths h compiler =
     (case compiler_search_output h compiler of
        None \<Rightarrow> []
      | Some stderr \<Rightarrow> search_list h False [] (str_lines stderr))"

definition fallback_system_include_paths :: "host \<Rightarrow> string list" where
  "fallback_system_include_paths h =
     gcc_include_dirs h @ [''/usr/local/include'', ''/usr/include/x86_64-linux-gnu'', ''/usr/include'']"

fun ask_compilers :: "host \<Rightarrow> string list \<Rightarrow> string list \<Rightarrow> string list" where
  "ask_compilers h paths [] = paths"
| "ask_compilers h paths (c # cs) =
     (let paths1 = push_paths h paths (detect_compiler_include_paths h c)
      in if paths1 \<noteq> [] then paths1 else ask_compilers h paths1 cs)"

definition discover_default_include_paths :: "host \<Rightarrow> string list" where
  "discover_default_include_paths h =
     (let env = foldl (\<lambda>paths key. case env_paths h key of Some new \<Rightarrow> push_paths h paths new | None \<Rightarrow> paths)
                  [] [''C_INCLUDE_PATH'', ''CPATH''];
          asked = ask_compilers h env [''gcc'', ''clang'', ''cc'']
      in if asked = [] then push_paths h asked (fallback_system_include_paths h) else asked)"

section \<open>Predefined macros\<close>

definition predefined_macro_definitions :: "(string \<times> pp_macro) list" where
  "predefined_macro_definitions =
     map (\<lambda>(name, value). (name, PObject [ctoken_new T_IntLiteral value 0 0 []]))
       [(''__STDC__'', ''1''), (''__STDC_VERSION__'', ''201112L''), (''__STDC_HOSTED__'', ''1''),
        (''__GNUC__'', ''4''), (''__GNUC_MINOR__'', ''2''), (''__GNUC_PATCHLEVEL__'', ''1''),
        (''__SIZEOF_SHORT__'', ''2''), (''__SIZEOF_INT__'', ''4''), (''__SIZEOF_LONG__'', ''8''),
        (''__SIZEOF_LONG_LONG__'', ''8''), (''__SIZEOF_POINTER__'', ''8''), (''__SIZEOF_SIZE_T__'', ''8''),
        (''__SIZEOF_PTRDIFF_T__'', ''8'')]"

definition object_macro :: "string \<Rightarrow> string \<Rightarrow> string \<times> pp_macro" where
  "object_macro name value = (name, PObject (tokenize_replacement value))"

definition parse_define_line :: "string \<Rightarrow> (string \<times> pp_macro) option" where
  "parse_define_line line =
     (if starts_with ''#define '' line then
        let rest = drop 8 line;
            name = takeWhile (\<lambda>c. \<not> white_char c) rest;
            value = trim_text (drop 1 (dropWhile (\<lambda>c. \<not> white_char c) rest))
        in if name = [] \<or> CHR ''('' \<in> set name then None
           else Some (object_macro name (if value = [] then ''1'' else value))
      else None)"

definition platform_fallback_macros :: "(string \<times> pp_macro) list" where
  "platform_fallback_macros = map (\<lambda>(n, v). object_macro n v)
     [(''__linux__'', ''1''), (''__linux'', ''1''), (''linux'', ''1''), (''__unix__'', ''1''), (''__unix'', ''1''),
      (''unix'', ''1''), (''__gnu_linux__'', ''1''),
      (''__x86_64__'', ''1''), (''__x86_64'', ''1''), (''__amd64__'', ''1''), (''__amd64'', ''1''),
      (''__LP64__'', ''1''), (''_LP64'', ''1''),
      (''__BYTE_ORDER__'', ''1234''), (''__ORDER_LITTLE_ENDIAN__'', ''1234''), (''__ORDER_BIG_ENDIAN__'', ''4321''),
      (''__CHAR_BIT__'', ''8''), (''__BIGGEST_ALIGNMENT__'', ''16''),
      (''__INT8_TYPE__'', ''signed char''), (''__INT16_TYPE__'', ''short''), (''__INT32_TYPE__'', ''int''),
      (''__INT64_TYPE__'', ''long long''), (''__UINT8_TYPE__'', ''unsigned char''),
      (''__UINT16_TYPE__'', ''unsigned short''), (''__UINT32_TYPE__'', ''unsigned int''),
      (''__UINT64_TYPE__'', ''unsigned long long''), (''__INTPTR_TYPE__'', ''long''),
      (''__UINTPTR_TYPE__'', ''unsigned long''), (''__SIZE_TYPE__'', ''unsigned long''),
      (''__PTRDIFF_TYPE__'', ''long''),
      (''__FINITE_MATH_ONLY__'', ''0''), (''__OPTIMIZE__'', ''0''), (''__PIC__'', ''2''), (''__pic__'', ''2''),
      (''__ELF__'', ''1'')]"

fun compiler_macros :: "host \<Rightarrow> string list \<Rightarrow> (string \<times> pp_macro) list" where
  "compiler_macros h [] = platform_fallback_macros"
| "compiler_macros h (c # cs) =
     (case compiler_macro_output h c of
        Some (True, stdout) \<Rightarrow> List.map_filter parse_define_line (str_lines stdout)
      | _ \<Rightarrow> compiler_macros h cs)"

definition compiler_predefined_macro_definitions :: "host \<Rightarrow> (string \<times> pp_macro) list" where
  "compiler_predefined_macro_definitions h = compiler_macros h [''gcc'', ''clang'', ''cc'']"

definition define_bootstrap_macros :: "pp_macros \<Rightarrow> (string \<times> pp_macro) list \<Rightarrow> pp_macros" where
  "define_bootstrap_macros M defs = foldl (\<lambda>m (name, d). m(name \<mapsto> d)) M defs"

definition preprocessor_new :: "host \<Rightarrow> optic_db \<Rightarrow> preprocessor" where
  "preprocessor_new h db =
     \<lparr>pp_db = db, include_paths = discover_default_include_paths h, user_include_count = 0,
      pp_table = define_bootstrap_macros Map.empty
        (predefined_macro_definitions @ compiler_predefined_macro_definitions h),
      pp_pragmas = [], pp_warnings = [], pp_errors = [], current_file = [], include_stack = [],
      include_guards = Map.empty, active_include_guards = [], allow_missing_includes = False\<rparr>"

section \<open>Properties\<close>

definition good_paths :: "host \<Rightarrow> string list \<Rightarrow> bool" where
  "good_paths h paths \<longleftrightarrow> distinct paths \<and> list_all (host_exists h) paths"

lemma push_good: "good_paths h paths \<Longrightarrow> good_paths h (push_paths h paths new)"
  by (induction new arbitrary: paths)
    (auto simp: push_paths_def good_paths_def push_unique_existing_path_def)

lemma ask_good: "good_paths h paths \<Longrightarrow> good_paths h (ask_compilers h paths cs)"
  by (induction cs arbitrary: paths) (auto simp: Let_def push_good, metis push_good)

text \<open>
  The default include paths are different existing directories.\<close>

theorem default_paths_good:
  "good_paths h (include_paths (preprocessor_new h db))"
proof -
  have e: "good_paths h []" by (simp add: good_paths_def)
  then have "good_paths h (ask_compilers h (foldl (\<lambda>paths key. case env_paths h key of Some new \<Rightarrow> push_paths h paths new
      | None \<Rightarrow> paths) [] [''C_INCLUDE_PATH'', ''CPATH'']) [''gcc'', ''clang'', ''cc''])"
    by (intro ask_good) (simp add: push_good split: option.split)
  then show ?thesis
    by (simp add: preprocessor_new_def discover_default_include_paths_def Let_def push_good e)
qed

lemma add_paths:
  "user_include_count P = length us \<Longrightarrow> include_paths P = us @ ds \<Longrightarrow>
   include_paths (foldl add_include_path P paths) = us @ paths @ ds"
proof (induction paths arbitrary: P us)
  case (Cons p paths)
  then have "include_paths (foldl add_include_path (add_include_path P p) paths) = (us @ [p]) @ paths @ ds"
    by (intro Cons.IH) (simp_all add: add_include_path_def)
  then show ?case by simp
qed simp

text \<open>
  The paths a user adds are searched in the order they were added, before the default paths.\<close>

theorem user_paths_first:
  "include_paths (foldl add_include_path (preprocessor_new h db) paths) = paths @ include_paths (preprocessor_new h db) \<and>
   include_paths (foldl add_include_path (disable_default_include_paths (preprocessor_new h db)) paths) = paths"
  using add_paths [of "preprocessor_new h db" "[]" _ paths]
    add_paths [of "disable_default_include_paths (preprocessor_new h db)" "[]" "[]" paths]
  by (simp add: preprocessor_new_def disable_default_include_paths_def)

end
