(* ===== verification/PpScan.thy ===== *)
theory PpScan
  imports PpDriver "HOL-Library.Sublist"
begin

text \<open>
  The scan of a file: every round moves_on forward, so that the rounds given to a scan are enough; what
  a scan leaves alone in the state of the preprocessor, for any way of including files with the same
  guarantees (\<open>includer\<close>); and the inclusion of files, which interprets it.
\<close>

section \<open>Parsers of conditions move forward\<close>

text \<open>A result at or after \<open>j\<close>, if there is one.\<close>

definition at_least :: "nat \<Rightarrow> ('a \<times> nat) pp \<Rightarrow> bool" where
  "at_least j m \<longleftrightarrow> (\<forall>v e. m = pp_ok (v, e) \<longrightarrow> j \<le> e)"

definition forward :: "parse_at \<Rightarrow> bool" where
  "forward f \<longleftrightarrow> (\<forall>s. at_least s (f s))"

lemma pp_bind_ok: "pp_bind m f = pp_ok y \<longleftrightarrow> (\<exists>x. m = pp_ok x \<and> f x = pp_ok y)"
  by (cases m) (auto simp: pp_bind_def pp_ok_def split: sum.splits)

lemma run_bind_ok: "run_bind m f = pp_ok y \<longleftrightarrow> (\<exists>x. m = Done x \<and> f x = pp_ok y)"
  by (simp add: pp_ok_def)

lemma pp_ok_simps [simp]:
  "pp_ok x = pp_ok y \<longleftrightarrow> x = y" "pp_err e \<noteq> pp_ok x" "Crash \<noteq> pp_ok x" "NoFuel \<noteq> pp_ok x"
  by (auto simp: pp_ok_def pp_err_def)

lemma at_least_ok: "j \<le> e \<Longrightarrow> at_least j (pp_ok (v, e))"
  and at_least_err: "at_least j (pp_err x)" "at_least j Crash" "at_least j NoFuel"
  and at_least_if: "(b \<Longrightarrow> at_least j m) \<Longrightarrow> (\<not> b \<Longrightarrow> at_least j n) \<Longrightarrow> at_least j (if b then m else n)"
  and at_least_bind: "at_least j m \<Longrightarrow> (\<And>v e. j \<le> e \<Longrightarrow> at_least j (f (v, e))) \<Longrightarrow> at_least j (pp_bind m f)"
  and at_least_any: "(\<And>x. at_least j (g x)) \<Longrightarrow> at_least j (pp_bind l g)"
  and at_least_run: "(\<And>x. at_least j (h x)) \<Longrightarrow> at_least j (run_bind r h)"
  by (auto simp: at_least_def pp_bind_ok run_bind_ok)

lemmas at_least_rules = at_least_if at_least_err at_least_ok

lemma at_least_trans: "at_least k m \<Longrightarrow> j \<le> k \<Longrightarrow> at_least j m"
  by (auto simp: at_least_def)

lemma forward_at: "forward f \<Longrightarrow> j \<le> k \<Longrightarrow> at_least j (f k)"
  by (auto simp: forward_def intro: at_least_trans)

lemma skip_ws_trans: "j \<le> k \<Longrightarrow> j \<le> skip_ws tokens k"
  using skip_ws_ge le_trans by blast

lemma binop_loop_forward: "forward operand \<Longrightarrow> j \<le> k \<Longrightarrow> at_least j (binop_loop n operand ops tokens left k)"
proof (induction n arbitrary: left k)
  case (Suc n)
  have step: "at_least j (pp_bind (operand (skip_ws tokens k + 1)) (\<lambda>(right, next_j).
      pp_bind (f left right) (\<lambda>result. binop_loop n operand ops tokens result next_j)))" for f
    by (rule at_least_bind [OF forward_at [OF Suc.prems(1)]])
      (auto simp: skip_ws_trans Suc.prems le_SucI intro!: at_least_any Suc.IH)
  show ?case
    unfolding binop_loop.simps Let_def
    by (auto simp: skip_ws_trans Suc.prems split: option.split intro!: at_least_ok step [simplified])
qed (simp add: at_least_err)

lemma left_assoc_forward:
  assumes "forward operand"
  shows "forward (left_assoc n operand ops tokens)"
  unfolding forward_def [of "left_assoc n operand ops tokens"] left_assoc_def
  by (auto intro!: at_least_bind forward_at [OF assms] binop_loop_forward [OF assms])

lemma unary_forward:
  assumes "forward primary"
  shows "j \<le> k \<Longrightarrow> at_least j (parse_if_unary n primary tokens k)"
proof (induction n arbitrary: k)
  case (Suc n)
  show ?case
    unfolding parse_if_unary.simps Let_def unexpected_end_def
    by (intro at_least_if at_least_err at_least_bind Suc.IH)
      (auto simp: skip_ws_trans Suc.prems le_SucI intro!: at_least_rules Suc.IH forward_at [OF assms])
qed (simp add: at_least_err)

lemma comparison_forward:
  assumes "forward (parse_if_shift n primary tokens)"
  shows "forward (parse_if_comparison n primary tokens)"
  unfolding forward_def parse_if_comparison_def Let_def
  by (auto split: option.split simp: skip_ws_trans intro!: at_least_bind at_least_ok forward_at [OF assms] le_SucI)

lemma equality_forward:
  assumes "forward (parse_if_comparison n primary tokens)"
  shows "j \<le> k \<Longrightarrow> at_least j (parse_if_equality m n primary tokens k)"
proof (induction m arbitrary: k)
  case (Suc m)
  show ?case
    unfolding parse_if_equality.simps Let_def
    by (auto simp: skip_ws_trans Suc.prems intro!: at_least_bind at_least_rules forward_at [OF assms] Suc.IH le_SucI)
qed (simp add: at_least_err)

lemma or_level_forward: "forward primary \<Longrightarrow> forward (or_level n primary tokens)"
proof -
  assume "forward primary"
  then have "forward (parse_if_unary n primary tokens)" by (simp add: forward_def unary_forward)
  then have "forward (parse_if_shift n primary tokens)"
    by (simp add: parse_if_shift_def parse_if_additive_def parse_if_multiplicative_def left_assoc_forward)
  then have "forward (parse_if_equality n n primary tokens)"
    by (simp add: forward_def equality_forward comparison_forward [unfolded forward_def])
  then show "forward (or_level n primary tokens)"
    by (simp add: or_level_def parse_if_and_def parse_if_bitor_def parse_if_bitxor_def parse_if_bitand_def left_assoc_forward)
qed

lemma probe_argument_forward: "at_least s (parse_feature_probe_argument tokens s)"
proof -
  have e: "s \<le> advance_while p tokens (skip_ws tokens (skip_ws tokens (s + 1) + 1) + 1)" for p
    using advance_while_ge skip_ws_trans by (metis le_SucI Suc_eq_plus1 le_trans order_refl)
  show ?thesis
    unfolding parse_feature_probe_argument_def Let_def
    by (intro at_least_if at_least_err at_least_bind; (intro at_least_ok)?)
      (auto simp: skip_ws_trans le_SucI e [simplified] intro!: at_least_rules)
qed

lemma pp_macro_args_forward: "j \<le> snd (pp_macro_args f ex va d args cur ts j)"
  by (induction f ex va d args cur ts j rule: pp_macro_args.induct) auto

lemma collect_args_forward: "j \<le> k \<Longrightarrow> j \<le> snd (collect_pp_macro_args tokens k ex va f)"
  by (auto simp: collect_pp_macro_args_def Let_def intro: le_trans [OF _ pp_macro_args_forward])

lemma parse_defined_forward: "at_least s (parse_defined env tokens s)"
  unfolding parse_defined_def Let_def
  by (auto simp: skip_ws_trans le_SucI intro!: at_least_rules)

lemma eval_macro_forward: "at_least s (eval_macro_at n env f or_rec m tokens s)"
  unfolding eval_macro_at_def Let_def
  by (auto simp: split_def skip_ws_trans le_SucI collect_args_forward split: pp_macro.split
      intro!: at_least_rules at_least_run at_least_any)

lemma missing_paren_err: "at_least j (missing_paren tokens k e)"
  by (auto simp: missing_paren_def split_def Let_def intro: at_least_err)

lemma primary_forward:
  assumes "\<And>ts. forward (cond_rec ts)"
  shows "forward (parse_if_primary n env f cond_rec or_rec tokens)"
proof -
  have "at_least s (parse_if_primary n env f cond_rec or_rec tokens s)" for s
  proof (rule at_least_trans [OF _ skip_ws_ge])
    show "at_least (skip_ws tokens s) (parse_if_primary n env f cond_rec or_rec tokens s)"
      unfolding parse_if_primary_def Let_def unexpected_end_def parse_feature_probe_def parse_has_include_probe_def
      by (intro at_least_if at_least_err at_least_bind parse_defined_forward probe_argument_forward at_least_ok)
        (auto simp: skip_ws_trans le_SucI split: option.split
          intro!: at_least_rules at_least_bind forward_at [OF assms] missing_paren_err eval_macro_forward)
  qed
  then show ?thesis by (simp add: forward_def)
qed

lemma conditional_forward:
  "forward (parse_if_or n env f tokens) \<and> forward (parse_if_conditional n env f tokens)"
proof (induction n arbitrary: tokens)
  case 0
  show ?case by (simp add: forward_def at_least_err)
next
  case (Suc n)
  have or: "forward (parse_if_or (Suc n) env f tokens)"
    using or_level_forward [OF primary_forward [of "\<lambda>ts s. parse_if_conditional n env f ts s"]] Suc
    by (simp add: forward_def)
  have "at_least s (parse_if_conditional (Suc n) env f tokens s)" for s
    unfolding parse_if_conditional.simps Let_def
    by (auto simp: skip_ws_trans le_SucI
        intro!: at_least_rules at_least_bind forward_at [OF conjunct1 [OF Suc]] forward_at [OF conjunct2 [OF Suc]])
  with or show ?case by (simp add: forward_def)
qed

lemma expression_forward: "parse_if_expression n env f tokens s = pp_ok (v, e) \<Longrightarrow> s < e"
proof -
  assume "parse_if_expression n env f tokens s = pp_ok (v, e)"
  then obtain k where "parse_if_conditional n env f tokens s = pp_ok (v, k)" "e = line_end tokens k + 1"
    by (auto simp: parse_if_expression_def pp_bind_ok)
  with conditional_forward [of n env f tokens] advance_while_ge [of k _ tokens] show ?thesis
    by (fastforce simp: forward_def at_least_def line_end_def intro: le_trans le_imp_less_Suc)
qed

section \<open>A round moves_on forward\<close>

definition moves_on :: "nat \<Rightarrow> step \<Rightarrow> bool" where
  "moves_on i m \<longleftrightarrow> (\<forall>sc j. m = Done (sc, Inr j) \<longrightarrow> i < j)"

lemma moves_go: "i < j \<Longrightarrow> moves_on i (go sc j)"
  and moves_stop: "moves_on i (stop sc e)" "moves_on i Crash" "moves_on i NoFuel"
  and moves_if: "(b \<Longrightarrow> moves_on i m) \<Longrightarrow> (\<not> b \<Longrightarrow> moves_on i n) \<Longrightarrow> moves_on i (if b then m else n)"
  and moves_run: "(\<And>x. r = Done x \<Longrightarrow> moves_on i (h x)) \<Longrightarrow> moves_on i (run_bind r h)"
  by (auto simp: moves_on_def go_def stop_def)

lemma line_end_ge: "j \<le> k \<Longrightarrow> j \<le> line_end tokens k"
  unfolding line_end_def using advance_while_ge le_trans by blast

lemma moves_skip_line: "moves_on i (skip_line sc tokens i)"
  by (simp add: skip_line_def skip_to_directive_end_def line_end_ge moves_go le_imp_less_Suc)

lemma moves_condition: "i < after \<Longrightarrow> moves_on i (with_condition n w f sc tokens after h)"
  unfolding with_condition_def
  by (rule moves_run)
    (auto simp: split_def intro!: moves_stop moves_go split: sum.split
      dest!: expression_forward [unfolded pp_ok_def])

lemma include_path_forward: "parse_include_path tokens s f = Inr (p, e) \<Longrightarrow> s \<le> e"
  using advance_while_ge [of "skip_ws tokens s + 1" "\<lambda>t. pt_text t \<noteq> ''>''" tokens] skip_ws_ge [of s tokens]
  by (auto simp: parse_include_path_def Let_def split: if_splits)

lemma simple_arg_forward: "parse_simple_directive_arg tokens s = Inr (name, e) \<Longrightarrow> s < e"
  by (auto simp: parse_simple_directive_arg_def Let_def less_Suc_eq_le skip_ws_trans le_SucI
      intro!: line_end_ge split: if_splits)

lemma macro_params_forward: "macro_params tokens f params j = Inr (ps, v, vp, e) \<Longrightarrow> j \<le> e"
proof (induction tokens f params j rule: macro_params.induct)
  case (1 tokens f params j)
  let ?j = "skip_ws tokens j"
  have s: "?j \<le> step_over tokens t (skip_ws tokens (k + 1))" if "?j \<le> k" for t k
    using step_over_ge [of "skip_ws tokens (k + 1)" tokens t] skip_ws_ge [of "k + 1" tokens] that by linarith
  have "?j \<le> skip_ws tokens (Suc ?j)" using skip_ws_ge [of "Suc ?j" tokens] by simp
  note s2 = s [OF this]
  have "?j \<le> e"
    using "1.prems" s [of ?j] s2 "1.IH" [OF refl _ _ _ _ refl refl]
      step_over_ge [of "skip_ws tokens (Suc ?j)" tokens "'',''"] skip_ws_ge [of "Suc ?j" tokens]
    by (subst (asm) macro_params.simps) (fastforce simp: Let_def split: if_splits)
  with skip_ws_ge [of j tokens] show ?case by simp
qed

lemma process_define_forward: "process_define P tokens s f = Inr (P', e) \<Longrightarrow> s < e"
proof -
  assume d: "process_define P tokens s f = Inr (P', e)"
  let ?j = "skip_ws tokens s"
  show "s < e"
  proof (cases "parse_macro_params tokens (?j + 1) f")
    case (Inr q)
    then obtain ps v vp k where k: "parse_macro_params tokens (?j + 1) f = Inr (ps, v, vp, k)" by (cases q) auto
    then have "?j \<le> k" using macro_params_forward by (fastforce simp: parse_macro_params_def)
    then have "s \<le> line_end tokens (skip_ws tokens k)" "s \<le> line_end tokens (Suc ?j)"
      using skip_ws_ge [of s tokens] by (auto intro!: line_end_ge skip_ws_trans)
    with d k show ?thesis by (auto simp: process_define_def Let_def split: if_splits)
  next
    case (Inl x)
    have "s \<le> line_end tokens (Suc ?j)" using skip_ws_ge [of s tokens] by (auto intro!: line_end_ge)
    with d Inl show ?thesis by (auto simp: process_define_def Let_def split: if_splits)
  qed
qed

lemma process_undef_forward: "s < snd (process_undef P tokens s)"
  by (auto simp: process_undef_def Let_def less_Suc_eq_le skip_ws_trans le_SucI intro!: line_end_ge split: if_splits)

lemma directive_name_forward: "parse_directive_name tokens i = (name, line, col, after) \<Longrightarrow> i < after"
  using skip_ws_ge [of "i + 1" tokens] by (auto simp: parse_directive_name_def Let_def split: if_splits)

lemma pragma_forward: "i < s \<Longrightarrow> i < snd (parse_pragma_text tokens s)" "i < s \<Longrightarrow> i < snd (parse_diagnostic_text tokens s)"
  using line_end_ge [of s s tokens] by (auto simp: parse_pragma_text_def parse_diagnostic_text_def Let_def)

lemmas dir_defs = dir_include_def dir_define_def dir_undef_def dir_ifdef_def dir_ifndef_def dir_if_def dir_elif_def
  dir_else_def dir_endif_def dir_pragma_def dir_error_def dir_warning_def

lemma directive_moves: "moves_on i (directive inc n w f sc tokens i)"
proof -
  obtain name line col after where d: "parse_directive_name tokens i = (name, line, col, after)"
    by (cases "parse_directive_name tokens i") auto
  note after = directive_name_forward [OF d]
  have "moves_on i (dir_include inc f sc tokens i after)"
    unfolding dir_include_def
    by (auto simp: split_def Let_def split: sum.split option.split dest!: include_path_forward
        intro!: moves_if moves_skip_line moves_stop moves_run moves_go less_le_trans [OF after])
  moreover have "moves_on i (dir_define f sc tokens i after)" "moves_on i (dir_undef sc tokens i after)"
    unfolding dir_define_def dir_undef_def
    by (auto simp: split_def split: sum.split dest!: process_define_forward
        intro!: moves_if moves_skip_line moves_stop moves_go less_trans [OF after] process_undef_forward)
  moreover have "moves_on i (dir_ifdef sc tokens after)" "moves_on i (dir_ifndef sc tokens after)"
    unfolding dir_ifdef_def dir_ifndef_def
    by (auto simp: Let_def split: sum.split dest!: simple_arg_forward intro!: moves_stop moves_go less_trans [OF after])
  moreover have "moves_on i (dir_if n w f sc tokens i after)" "moves_on i (dir_elif n w f sc tokens i after)"
    unfolding dir_if_def dir_elif_def
    by (auto intro!: moves_if moves_skip_line moves_stop moves_condition after)
  moreover have "moves_on i (dir_else sc tokens i)" "moves_on i (dir_endif sc tokens i line)"
    unfolding dir_else_def dir_endif_def by (auto intro!: moves_if moves_skip_line moves_stop)
  moreover have "moves_on i (dir_pragma sc tokens i after)" "moves_on i (dir_error sc tokens i after)"
    "moves_on i (dir_warning sc tokens i after)"
    unfolding dir_pragma_def dir_error_def dir_warning_def
    by (auto simp: split_def Let_def intro!: moves_if moves_skip_line moves_stop moves_go pragma_forward after)
  ultimately show ?thesis
    by (simp add: directive_def d moves_skip_line)
qed

lemma scan_step_moves: "moves_on i (scan_step inc n w f tokens sc i)"
  unfolding scan_step_def by (auto intro!: moves_if moves_run directive_moves moves_go)

lemma scan_loop_rounds:
  "length tokens - i < r \<Longrightarrow> scan_loop (Suc r) inc n w f tokens sc i = scan_loop r inc n w f tokens sc i"
proof (induction r arbitrary: sc i)
  case (Suc r)
  show ?case
  proof (cases "i < length tokens")
    case True
    have same: "(case x of Inl e \<Rightarrow> Done (sc1, Inl e) | Inr j \<Rightarrow> scan_loop (Suc r) inc n w f tokens sc1 j) =
        (case x of Inl e \<Rightarrow> Done (sc1, Inl e) | Inr j \<Rightarrow> scan_loop r inc n w f tokens sc1 j)"
      if s: "scan_step inc n w f tokens sc i = Done (sc1, x)" for sc1 x
    proof (cases x)
      case (Inr j)
      with s scan_step_moves have "i < j" by (fastforce simp: moves_on_def)
      with Suc.prems True have "length tokens - j < r" by linarith
      with Inr show ?thesis by (simp add: Suc.IH)
    qed simp
    show ?thesis
      unfolding scan_loop.simps [of "Suc (Suc r)" inc n w f tokens sc i] scan_loop.simps [of "Suc r" inc n w f tokens sc i]
      using True by (cases "scan_step inc n w f tokens sc i") (auto simp: same)
  next
    case False
    then show ?thesis by (simp add: scan_loop.simps)
  qed
qed simp

section \<open>What including a file leaves alone\<close>

text \<open>Between two states of a run: the search paths and the options are kept, files may have come onto
  the include stack and into the database, none has gone.\<close>

definition grows :: "preprocessor \<Rightarrow> preprocessor \<Rightarrow> bool" where
  "grows P P' \<longleftrightarrow>
     include_paths P' = include_paths P \<and> allow_missing_includes P' = allow_missing_includes P \<and>
     prefix (include_stack P) (include_stack P') \<and>
     (\<forall>h. knows_file None (pp_db P) h \<longrightarrow> knows_file None (pp_db P') h)"

lemma grows_refl [simp]: "grows P P"
  by (simp add: grows_def)

lemma grows_trans: "grows P Q \<Longrightarrow> grows Q R \<Longrightarrow> grows P R"
  by (auto simp: grows_def intro: prefix_order.trans)

lemma grows_same:
  "include_paths P' = include_paths P \<Longrightarrow> allow_missing_includes P' = allow_missing_includes P \<Longrightarrow>
   include_stack P' = include_stack P \<Longrightarrow> pp_db P' = pp_db P \<Longrightarrow> grows P P'"
  by (simp add: grows_def)

definition step_grows :: "scan \<Rightarrow> step \<Rightarrow> bool" where
  "step_grows sc m \<longleftrightarrow> (\<forall>sc' x. m = Done (sc', x) \<longrightarrow> grows (sc_pp sc) (sc_pp sc'))"

lemma step_growsD: "step_grows sc m \<Longrightarrow> m = Done (sc', x) \<Longrightarrow> grows (sc_pp sc) (sc_pp sc')"
  by (simp add: step_grows_def)

lemma step_grows_simps [simp]:
  "step_grows sc (go sc' j) \<longleftrightarrow> grows (sc_pp sc) (sc_pp sc')" "step_grows sc (stop sc' e) \<longleftrightarrow> grows (sc_pp sc) (sc_pp sc')"
  "step_grows sc Crash" "step_grows sc (skip_line sc' tokens i) \<longleftrightarrow> grows (sc_pp sc) (sc_pp sc')"
  by (auto simp: step_grows_def go_def stop_def skip_line_def)

lemma step_grows_run: "(\<And>x. r = Done x \<Longrightarrow> step_grows sc (h x)) \<Longrightarrow> step_grows sc (run_bind r h)"
  by (auto simp: step_grows_def)

lemma scan_update_simps [simp]:
  "sc_pp (push_group sc b) = sc_pp sc" "sc_pp (set_group sc b) = sc_pp sc" "sc_pp (mark_taken sc) = sc_pp sc"
  "sc_pp (push_pending sc t) = sc_pp sc"
  by (simp_all add: push_group_def set_group_def mark_taken_def push_pending_def)

lemma condition_grows:
  "(\<And>v. grows (sc_pp sc) (sc_pp (h v))) \<Longrightarrow> step_grows sc (with_condition n w f sc tokens after h)"
  unfolding with_condition_def step_grows_def by (auto simp: go_def stop_def split: sum.split_asm)

lemma flush_same: "flush_pending n f sc = Done sc1 \<Longrightarrow> sc_pp sc1 = sc_pp sc \<and> sc_if sc1 = sc_if sc \<and> sc_taken sc1 = sc_taken sc"
  by (auto simp: flush_pending_def split: if_splits)

lemma guards_grow: "grows P (set_endif_line P l)" "grows P (note_pragma_once P)" "grows P (check_include_guards P)"
  by (auto simp: set_endif_line_def note_pragma_once_def check_include_guards_def Let_def intro!: grows_same)

lemma process_define_grows: "process_define P tokens s f = Inr (P', e) \<Longrightarrow> grows P P'"
  by (auto simp: process_define_def Let_def intro!: grows_same split: if_splits sum.splits)

lemma process_undef_grows: "grows P (fst (process_undef P tokens s))"
  by (auto simp: process_undef_def Let_def intro!: grows_same)

locale includer =
  fixes inc :: include_fun
  assumes inc_grows: "inc P path file = Done (P', r) \<Longrightarrow> grows P P'"
begin

lemma include_grows: "step_grows sc (dir_include inc f sc tokens i after)"
proof -
  have g: "grows P (P'\<lparr>pp_warnings := ws\<rparr>)" if "grows P P'" for P P' ws
    using that by (simp add: grows_def)
  show ?thesis
    unfolding dir_include_def
    by (auto simp: Let_def split: sum.split option.split intro!: step_grows_run g dest!: inc_grows)
qed

lemma directive_grows: "step_grows sc (directive inc n w f sc tokens i)"
proof -
  obtain name line col after where d: "parse_directive_name tokens i = (name, line, col, after)"
    by (cases "parse_directive_name tokens i") auto
  have "step_grows sc (dir_define f sc tokens i after)" "step_grows sc (dir_undef sc tokens i after)"
    using process_undef_grows
    by (auto simp: dir_define_def dir_undef_def split_def split: sum.split dest!: process_define_grows)
  moreover have "step_grows sc (dir_ifdef sc tokens after)" "step_grows sc (dir_ifndef sc tokens after)"
    by (auto simp: dir_ifdef_def dir_ifndef_def add_guard_def Let_def split: sum.split intro!: grows_same)
  moreover have "step_grows sc (dir_if n w f sc tokens i after)" "step_grows sc (dir_elif n w f sc tokens i after)"
    by (auto simp: dir_if_def dir_elif_def Let_def intro!: condition_grows)
  moreover have "step_grows sc (dir_else sc tokens i)" "step_grows sc (dir_endif sc tokens i line)"
    by (auto simp: dir_else_def dir_endif_def guards_grow)
  moreover have "step_grows sc (dir_pragma sc tokens i after)" "step_grows sc (dir_error sc tokens i after)"
    "step_grows sc (dir_warning sc tokens i after)"
    using guards_grow(2) [of "sc_pp sc"]
    by (auto simp: dir_pragma_def dir_error_def dir_warning_def split_def Let_def grows_def)
  ultimately show ?thesis
    by (simp add: directive_def d include_grows)
qed

lemma scan_step_grows: "step_grows sc (scan_step inc n w f tokens sc i)"
proof (cases "is_directive_start tokens i")
  case True
  have "grows (sc_pp sc) (sc_pp sc')"
    if "flush_pending n f sc = Done sc1" "directive inc n w f sc1 tokens i = Done (sc', x)" for sc1 sc' x
    using directive_grows [of sc1 n w f tokens i] that flush_same [OF that(1)] by (auto simp: step_grows_def)
  with True show ?thesis by (auto simp: scan_step_def step_grows_def)
qed (simp add: scan_step_def)

lemma scan_loop_grows: "scan_loop r inc n w f tokens sc i = Done (sc', x) \<Longrightarrow> grows (sc_pp sc) (sc_pp sc')"
proof (induction r arbitrary: sc i)
  case (Suc r)
  show ?case
  proof (cases "i < length tokens")
    case True
    with Suc.prems obtain sc1 y where s: "scan_step inc n w f tokens sc i = Done (sc1, y)"
      and rest: "(case y of Inl e \<Rightarrow> Done (sc1, Inl e) | Inr j \<Rightarrow> scan_loop r inc n w f tokens sc1 j) = Done (sc', x)"
      by (auto simp: scan_loop.simps [of "Suc r"])
    from step_growsD [OF scan_step_grows s] have "grows (sc_pp sc) (sc_pp sc1)" .
    moreover from rest have "grows (sc_pp sc1) (sc_pp sc')" by (auto split: sum.splits dest: Suc.IH)
    ultimately show ?thesis by (rule grows_trans)
  qed (use Suc.prems in \<open>simp add: scan_loop.simps\<close>)
qed (simp add: scan_loop.simps split: if_splits)

lemma resolve_grows:
  assumes "resolve_includes inc n w P source f l = Done (P', r)"
  shows "grows P P'"
proof -
  let ?t = "tokenize_pp_source source l"
  from assms obtain sc x where l: "scan_loop (Suc (length ?t)) inc n w f ?t (start_scan P) 0 = Done (sc, x)"
    and e: "(case x of Inl e \<Rightarrow> Done (sc_pp sc, Inl e) | Inr _ \<Rightarrow> finish_scan n f sc) = Done (P', r)"
    by (auto simp: resolve_includes_def Let_def)
  have "grows P (sc_pp sc)" using scan_loop_grows [OF l] by (simp add: start_scan_def)
  moreover have "grows (sc_pp sc) P'"
    using e by (cases x) (auto simp: finish_scan_def guards_grow(3) dest!: flush_same split: if_splits)
  ultimately show ?thesis by (rule grows_trans)
qed

lemma with_file_grows:
  assumes "with_file (\<lambda>P1. resolve_includes inc n w P1 source f l) P f = Done (P', r)"
  shows "grows P P'"
proof -
  from assms obtain P1 r1 where P1: "resolve_includes inc n w (enter_file P f) source f l = Done (P1, r1)"
    "(P', r) = (case r1 of Inl e \<Rightarrow> (P1, Inl e) | Inr tokens \<Rightarrow> (leave_file P1, Inr tokens))"
    by (auto simp: with_file_def)
  have g: "grows (enter_file P f) P1" by (rule resolve_grows [OF P1(1)])
  then obtain ext where "include_stack P1 = include_stack P @ f # ext"
    by (auto simp: grows_def enter_file_def prefix_def)
  then have "prefix (include_stack P) (butlast (include_stack P1))"
    by (simp add: butlast_append)
  with g P1(2) show ?thesis
    by (auto simp: grows_def enter_file_def leave_file_def prefix_def split: sum.splits)
qed

text \<open>Two ways of including files that agree as long as the files of \<open>S\<close> are on the include stack.\<close>

lemma scan_loop_agree:
  assumes agree: "\<And>P path file. S \<subseteq> set (include_stack P) \<Longrightarrow> inc P path file = inc' P path file"
  shows "S \<subseteq> set (include_stack (sc_pp sc)) \<Longrightarrow>
    scan_loop r inc n w f tokens sc i = scan_loop r inc' n w f tokens sc i"
proof (induction r arbitrary: sc i)
  case (Suc r)
  have "directive inc n w f sc1 tokens i = directive inc' n w f sc1 tokens i" if "sc_pp sc1 = sc_pp sc" for sc1
  proof -
    have "dir_include inc f sc1 tokens i after = dir_include inc' f sc1 tokens i after" for after
      using agree [of "sc_pp sc"] Suc.prems that by (simp add: dir_include_def split: sum.split)
    then show ?thesis by (auto simp: directive_def split: prod.split)
  qed
  then have step: "scan_step inc n w f tokens sc i = scan_step inc' n w f tokens sc i"
    by (cases "flush_pending n f sc") (auto simp: scan_step_def dest: flush_same)
  have rest: "scan_loop r inc n w f tokens sc1 j = scan_loop r inc' n w f tokens sc1 j"
    if "scan_step inc' n w f tokens sc i = Done (sc1, x)" for sc1 x j
  proof -
    from step_growsD [OF scan_step_grows that [folded step]] have "grows (sc_pp sc) (sc_pp sc1)" .
    then have "S \<subseteq> set (include_stack (sc_pp sc1))"
      using Suc.prems by (auto simp: grows_def dest: set_mono_prefix)
    then show ?thesis by (rule Suc.IH)
  qed
  show ?case
    unfolding scan_loop.simps [of "Suc r"] step using rest
    by (cases "scan_step inc' n w f tokens sc i") (auto split: sum.split)
qed (simp add: scan_loop.simps)

lemma with_file_agree:
  assumes "\<And>P path file. S \<subseteq> set (include_stack P) \<Longrightarrow> inc P path file = inc' P path file"
    and "S \<subseteq> insert f (set (include_stack P))"
  shows "with_file (\<lambda>P1. resolve_includes inc n w P1 source f l) P f =
    with_file (\<lambda>P1. resolve_includes inc' n w P1 source f l) P f"
proof -
  have "S \<subseteq> set (include_stack (sc_pp (start_scan (enter_file P f))))"
    using assms(2) by (simp add: start_scan_def enter_file_def)
  from scan_loop_agree [OF assms(1) this] show ?thesis
    by (simp add: with_file_def resolve_includes_def)
qed

end

section \<open>Inclusion\<close>

text \<open>What a call of \<open>resolve_include_file\<close> that scans a file has found.\<close>

definition found_file :: "pp_world \<Rightarrow> preprocessor \<Rightarrow> string \<Rightarrow> string \<Rightarrow> string option" where
  "found_file w P path f = find (path_exists w) (map (\<lambda>dir. path_join dir path) (search_paths P f))"

definition enters :: "pp_world \<Rightarrow> preprocessor \<Rightarrow> string \<Rightarrow> string \<Rightarrow> string \<Rightarrow> string \<Rightarrow> bool" where
  "enters w P path f full content \<longleftrightarrow>
     path \<notin> set (include_stack P) \<and> found_file w P path f = Some full \<and>
     resolved_path w full \<notin> set (include_stack P) \<and> read_file w full = Inr content \<and>
     \<not> knows_file (db_failure w) (pp_db P) (compute_hash w content)"

definition noted :: "pp_world \<Rightarrow> preprocessor \<Rightarrow> string \<Rightarrow> string \<Rightarrow> preprocessor" where
  "noted w P path content =
     P\<lparr>pp_db := note_file (db_failure w) (pp_db P) (compute_hash w content) path\<rparr>"

lemma include_enters:
  assumes "enters w P path f full content"
  shows "resolve_include_file (Suc d) n w P path f =
    run_bind
      (with_file (\<lambda>P2. resolve_includes (resolve_include_file d n w) n w P2 content (resolved_path w full) 1)
        (noted w P path content) (resolved_path w full)) (\<lambda>(P3, r).
    Done (P3, case r of Inl e \<Rightarrow> Inl e | Inr tokens \<Rightarrow> Inr (Some tokens)))"
  using assms by (simp add: enters_def found_file_def noted_def Let_def)

lemma include_stays:
  assumes "\<And>full content. \<not> enters w P path f full content"
  shows "\<exists>r. (\<forall>d. resolve_include_file (Suc d) n w P path f = Done (P, r)) \<and> (\<forall>ts. r \<noteq> Inr (Some ts))"
proof (cases "found_file w P path f")
  case None
  then show ?thesis by (cases "path \<in> set (include_stack P)") (auto simp: found_file_def)
next
  case (Some full)
  with assms [of full] show ?thesis
    by (cases "path \<in> set (include_stack P) \<or> resolved_path w full \<in> set (include_stack P)"; cases "read_file w full")
      (auto simp: enters_def found_file_def Let_def)
qed

declare resolve_include_file.simps(2) [simp del]

lemma noted_grows: "grows P (noted w P path content)"
proof (cases "db_failure w")
  case None
  then show ?thesis by (simp add: grows_def noted_def files.member_insert)
qed (simp add: grows_def noted_def note_file_def insert_file_hash_def db_call_def)

lemma include_file_grows: "resolve_include_file d n w P path f = Done (P', r) \<Longrightarrow> grows P P'"
proof (induction d arbitrary: P path f P' r)
  case (Suc d)
  then have inc: "includer (resolve_include_file d n w)" by unfold_locales
  show ?case
  proof (cases "\<exists>full content. enters w P path f full content")
    case True
    then obtain full content where e: "enters w P path f full content" by blast
    from Suc.prems include_enters [OF e, of d n] obtain r' where
      "with_file (\<lambda>P2. resolve_includes (resolve_include_file d n w) n w P2 content (resolved_path w full) 1)
        (noted w P path content) (resolved_path w full) = Done (P', r')" by auto
    from grows_trans [OF noted_grows includer.with_file_grows [OF inc this]] show ?thesis .
  next
    case False
    with include_stays [of w P path f n] Suc.prems show ?thesis by auto
  qed
qed simp

interpretation pp: includer "resolve_include_file d n w"
  by unfold_locales (rule include_file_grows)

text \<open>Nesting: a file that is entered was not on the stack, so no deeper than there are files.\<close>

lemma include_depth:
  assumes fin: "finite F" and F: "\<And>p. path_exists w p \<Longrightarrow> resolved_path w p \<in> F"
  shows "card (F - set (include_stack P)) < d \<Longrightarrow>
    resolve_include_file (Suc d) n w P path f = resolve_include_file d n w P path f"
proof (induction d arbitrary: P path f)
  case (Suc d)
  show ?case
  proof (cases "\<exists>full content. enters w P path f full content")
    case True
    then obtain full content where e: "enters w P path f full content" by blast
    let ?r = "resolved_path w full"
    have "path_exists w full" using e by (auto simp: enters_def found_file_def find_Some_iff)
    then have r: "?r \<in> F" "?r \<notin> set (include_stack P)" using F e by (auto simp: enters_def)
    have "card (F - insert ?r (set (include_stack P))) < card (F - set (include_stack P))"
      by (rule psubset_card_mono) (use r fin in auto)
    with Suc.prems have less: "card (F - insert ?r (set (include_stack P))) < d" by simp
    have agree: "resolve_include_file (Suc d) n w Q q g = resolve_include_file d n w Q q g"
      if "insert ?r (set (include_stack P)) \<subseteq> set (include_stack Q)" for Q q g
    proof (rule Suc.IH)
      have "card (F - set (include_stack Q)) \<le> card (F - insert ?r (set (include_stack P)))"
        by (rule card_mono) (use that fin in auto)
      with less show "card (F - set (include_stack Q)) < d" by simp
    qed
    have "insert ?r (set (include_stack P)) \<subseteq> insert ?r (set (include_stack (noted w P path content)))"
      by (simp add: noted_def)
    from pp.with_file_agree [OF agree this] show ?thesis
      by (simp only: include_enters [OF e])
  next
    case False
    with include_stays [of w P path f n] show ?thesis by metis
  qed
qed simp

section \<open>Properties\<close>

text \<open>
  The scan of a file ends after at most as many rounds as it has tokens: more rounds than the
  model gives it change nothing.\<close>

theorem scan_rounds_suffice:
  "scan_loop (Suc (length tokens) + k) inc n w f tokens sc 0 =
   scan_loop (Suc (length tokens)) inc n w f tokens sc 0"
  by (induction k) (simp_all add: scan_loop_rounds)


text \<open>
  C29: A header that has been included is not included again: the same directive in the same file
  gives nothing the second time, with or without include guards.\<close>

theorem include_once:
  assumes "resolve_include_file d n w P path f = Done (P', Inr (Some tokens))" and "db_failure w = None"
  shows "resolve_include_file (Suc d') n' w P' path f = Done (P', Inr None)"
proof -
  obtain d0 where d: "d = Suc d0" using assms(1) by (cases d) auto
  obtain full content where e: "enters w P path f full content"
    using include_stays [of w P path f n] assms(1) d by fastforce
  let ?h = "compute_hash w content"
  from assms(1) include_enters [OF e, of d0 n] d obtain r' where
    "with_file (\<lambda>P2. resolve_includes (resolve_include_file d0 n w) n w P2 content (resolved_path w full) 1)
      (noted w P path content) (resolved_path w full) = Done (P', r')" by auto
  note g = pp.with_file_grows [OF this]
  have "knows_file None (pp_db (noted w P path content)) ?h"
    using assms(2) by (simp add: noted_def files.member_insert)
  with g have k: "knows_file None (pp_db P') ?h" by (simp add: grows_def)
  have "include_paths P' = include_paths P" using grows_trans [OF noted_grows g] by (simp add: grows_def)
  then have "found_file w P' path f = Some full" "read_file w full = Inr content"
    using e by (simp_all add: enters_def found_file_def search_paths_def)
  with k assms(2) show ?thesis by (auto simp: found_file_def Let_def resolve_include_file.simps(2))
qed

section \<open>Samples\<close>

text \<open>A file system with the one file \<open>/a.h\<close>.\<close>

definition sample_world :: pp_world where
  "sample_world =
     \<lparr>path_exists = (\<lambda>p. p = ''/a.h''), canonicalize = Some,
      read_file = (\<lambda>p. if p = ''/a.h'' then Inr ''x'' else Inl ''no such file''),
      compute_hash = (\<lambda>s. map (\<lambda>c. of_char c) s), db_failure = None\<rparr>"

definition sample_pp :: preprocessor where
  "sample_pp =
     \<lparr>pp_db = db_new, include_paths = [], user_include_count = 0, pp_table = Map.empty, pp_pragmas = [],
      pp_warnings = [], pp_errors = [], current_file = [], include_stack = [], include_guards = Map.empty,
      active_include_guards = [], allow_missing_includes = False\<rparr>"


lemma included_run:
  assumes "case x of Done (P', Inr (Some tokens)) \<Rightarrow> True | _ \<Rightarrow> False"
  shows "\<exists>P' tokens. x = Done (P', Inr (Some tokens))"
proof (cases x)
  case (Done y)
  obtain P r where y: "y = (P, r)" by (cases y)
  show ?thesis
  proof (cases r)
    case (Inr ts)
    with assms Done y show ?thesis by (cases ts) auto
  qed (use assms Done y in simp)
qed (use assms in simp_all)

theorem include_once_witness:
  "\<exists>P' tokens. resolve_include_file 1 5 sample_world sample_pp ''/a.h'' ''b.c'' = Done (P', Inr (Some tokens)) \<and>
     resolve_include_file (Suc 0) 5 sample_world P' ''/a.h'' ''b.c'' = Done (P', Inr None)"
proof -
  have "case resolve_include_file 1 5 sample_world sample_pp ''/a.h'' ''b.c'' of
      Done (P', Inr (Some tokens)) \<Rightarrow> True | _ \<Rightarrow> False"
    by code_simp
  then obtain P' tokens where
    r: "resolve_include_file 1 5 sample_world sample_pp ''/a.h'' ''b.c'' = Done (P', Inr (Some tokens))"
    using included_run by blast
  have "db_failure sample_world = None" by (simp add: sample_world_def)
  from include_once [OF r this, of 0 5] r show ?thesis by blast
qed

section \<open>Deviations\<close>

text \<open>
  A line comment at the end of a directive takes the next line into the directive: the text
  after the definition is lost.\<close>

theorem directive_comment_swallows_line:
  "case process_source 1 9 sample_world sample_pp (''#define A 1 // c'' @ [CHR 0x0A] @ ''x'') ''b.c'' of
     Done (P, Inr tokens) \<Rightarrow> tokens = [] | _ \<Rightarrow> False"
  by code_simp

text \<open>
  An error of an included file that is turned into a warning leaves the file on the include
  stack, with the outer file.\<close>

definition error_world :: pp_world where
  "error_world = sample_world\<lparr>read_file := (\<lambda>p. Inr ''#error e'')\<rparr>"

theorem swallowed_error_keeps_stack:
  "case process_source 2 9 error_world (set_allow_missing_includes sample_pp True)
      (''#include '' @ [CHR 0x22] @ ''/a.h'' @ [CHR 0x22]) ''b.c'' of
     Done (P, Inr tokens) \<Rightarrow> include_stack sample_pp = [] \<and> include_stack P = [''b.c''] \<and> length (pp_warnings P) = 1
   | _ \<Rightarrow> False"
  by code_simp

end
