(* ===== verification/PpGroups.thy ===== *)
theory PpGroups
  imports PpScan
begin

text \<open>
  Conditional groups: the stacks \<open>in_if_stack\<close> and \<open>branch_taken\<close> of \<open>resolve_includes\<close> against the
  groups of the C grammar.

  The specification has no stacks. It is a big-step semantics over the positions of a token list:
  \<open>processes\<close> handles the parts of an active piece of the file, \<open>skips\<close> goes over an inactive piece,
  whose groups are matched but not looked into, and \<open>branches v\<close> processes a group whose conditions
  were false so far except for the last, which has the value \<open>v\<close>: the branch of the first true
  condition is taken, the \<open>#else\<close> branch if there is none, and everything else is skipped. The fields
  \<open>sc_if\<close> and \<open>sc_taken\<close> of a scan mean nothing there.
\<close>

section \<open>Specification\<close>

definition dname :: "pp_token list \<Rightarrow> nat \<Rightarrow> string" where
  "dname tokens i = fst (parse_directive_name tokens i)"

definition dline :: "pp_token list \<Rightarrow> nat \<Rightarrow> u32" where
  "dline tokens i = fst (snd (parse_directive_name tokens i))"

definition dafter :: "pp_token list \<Rightarrow> nat \<Rightarrow> nat" where
  "dafter tokens i = snd (snd (snd (parse_directive_name tokens i)))"

definition at_directive :: "pp_token list \<Rightarrow> nat \<Rightarrow> string list \<Rightarrow> bool" where
  "at_directive tokens i names \<longleftrightarrow> is_directive_start tokens i \<and> dname tokens i \<in> set names"

definition conditional_names :: "string list" where
  "conditional_names = [''ifdef'', ''ifndef'', ''if'', ''elif'', ''else'', ''endif'']"

definition with_stacks :: "scan \<Rightarrow> bool list \<Rightarrow> bool list \<Rightarrow> scan" where
  "with_stacks sc s t = sc\<lparr>sc_if := s, sc_taken := t\<rparr>"

text \<open>The value of the condition of \<open>#if\<close> or \<open>#elif\<close> at \<open>i\<close>, and where its line ends.\<close>

definition cond_at :: "nat \<Rightarrow> pp_world \<Rightarrow> string \<Rightarrow> pp_token list \<Rightarrow> scan \<Rightarrow> nat \<Rightarrow> (bool \<times> nat) option" where
  "cond_at n w f tokens sc i =
     (case parse_if_expression n (env_of w (sc_pp sc)) f tokens (dafter tokens i) of
        Done (Inr (v, k)) \<Rightarrow> Some (v \<noteq> 0, k)
      | _ \<Rightarrow> None)"

definition open_at ::
  "nat \<Rightarrow> pp_world \<Rightarrow> string \<Rightarrow> pp_token list \<Rightarrow> scan \<Rightarrow> nat \<Rightarrow> (bool \<times> scan \<times> nat) option" where
  "open_at n w f tokens sc i =
     (if dname tokens i = ''if'' then map_option (\<lambda>(v, k). (v, sc, k)) (cond_at n w f tokens sc i)
      else
        case parse_simple_directive_arg tokens (dafter tokens i) of
          Inl e \<Rightarrow> None
        | Inr (name, k) \<Rightarrow>
            let d = pp_is_macro_defined (sc_pp sc) name in
            if dname tokens i = ''ifdef'' then Some (d, sc, k)
            else Some (\<not> d, if d then sc else add_guard sc name, k))"

definition skip_open_at :: "pp_token list \<Rightarrow> nat \<Rightarrow> nat option" where
  "skip_open_at tokens i =
     (if dname tokens i = ''if'' then Some (skip_to_directive_end tokens i)
      else case parse_simple_directive_arg tokens (dafter tokens i) of Inl e \<Rightarrow> None | Inr (name, k) \<Rightarrow> Some k)"

text \<open>An \<open>#endif\<close> notes its line in the last include guard.\<close>

definition closes :: "pp_token list \<Rightarrow> scan \<Rightarrow> nat \<Rightarrow> scan" where
  "closes tokens sc i = sc\<lparr>sc_pp := set_endif_line (sc_pp sc) (dline tokens i)\<rparr>"

inductive skips :: "pp_token list \<Rightarrow> scan \<Rightarrow> nat \<Rightarrow> scan \<Rightarrow> nat \<Rightarrow> bool"
  and skips_group :: "pp_token list \<Rightarrow> scan \<Rightarrow> nat \<Rightarrow> scan \<Rightarrow> nat \<Rightarrow> bool" for tokens where
  sk_end: "skips tokens sc i sc i"
| sk_text: "i < length tokens \<Longrightarrow> \<not> is_directive_start tokens i \<Longrightarrow> skips tokens sc (i + 1) sc' j \<Longrightarrow>
    skips tokens sc i sc' j"
| sk_line: "is_directive_start tokens i \<Longrightarrow> \<not> at_directive tokens i conditional_names \<Longrightarrow>
    skips tokens sc (skip_to_directive_end tokens i) sc' j \<Longrightarrow> skips tokens sc i sc' j"
| sk_group: "at_directive tokens i [''ifdef'', ''ifndef'', ''if''] \<Longrightarrow> skip_open_at tokens i = Some k \<Longrightarrow>
    skips_group tokens sc k sc1 m \<Longrightarrow> skips tokens sc1 m sc' j \<Longrightarrow> skips tokens sc i sc' j"
| sg_end: "skips tokens sc i sc1 m \<Longrightarrow> at_directive tokens m [''endif''] \<Longrightarrow>
    skips_group tokens sc i (closes tokens sc1 m) (skip_to_directive_end tokens m)"
| sg_more: "skips tokens sc i sc1 m \<Longrightarrow> at_directive tokens m [''elif'', ''else''] \<Longrightarrow>
    skips_group tokens sc1 (skip_to_directive_end tokens m) sc' j \<Longrightarrow> skips_group tokens sc i sc' j"

inductive processes ::
    "include_fun \<Rightarrow> nat \<Rightarrow> pp_world \<Rightarrow> string \<Rightarrow> pp_token list \<Rightarrow> scan \<Rightarrow> nat \<Rightarrow> scan \<Rightarrow> nat \<Rightarrow> bool"
  and branches ::
    "include_fun \<Rightarrow> nat \<Rightarrow> pp_world \<Rightarrow> string \<Rightarrow> pp_token list \<Rightarrow> bool \<Rightarrow> scan \<Rightarrow> nat \<Rightarrow> scan \<Rightarrow> nat \<Rightarrow> bool"
  for inc n w f tokens where
  tk_end: "processes inc n w f tokens sc i sc i"
| tk_text: "i < length tokens \<Longrightarrow> \<not> is_directive_start tokens i \<Longrightarrow>
    processes inc n w f tokens (sc\<lparr>sc_pending := sc_pending sc @ [tokens ! i]\<rparr>) (i + 1) sc' j \<Longrightarrow>
    processes inc n w f tokens sc i sc' j"
| tk_line: "is_directive_start tokens i \<Longrightarrow> \<not> at_directive tokens i conditional_names \<Longrightarrow>
    scan_step inc n w f tokens (with_stacks sc [] []) i = Done (sc1, Inr k) \<Longrightarrow>
    processes inc n w f tokens sc1 k sc' j \<Longrightarrow> processes inc n w f tokens sc i sc' j"
| tk_group: "at_directive tokens i [''ifdef'', ''ifndef'', ''if''] \<Longrightarrow> flush_pending n f sc = Done sc0 \<Longrightarrow>
    open_at n w f tokens sc0 i = Some (v, sc1, k) \<Longrightarrow> branches inc n w f tokens v sc1 k sc2 m \<Longrightarrow>
    processes inc n w f tokens sc2 m sc' j \<Longrightarrow> processes inc n w f tokens sc i sc' j"
| br_true_end: "processes inc n w f tokens sc i sc1 m \<Longrightarrow> at_directive tokens m [''endif''] \<Longrightarrow>
    flush_pending n f sc1 = Done sc2 \<Longrightarrow>
    branches inc n w f tokens True sc i (closes tokens sc2 m) (skip_to_directive_end tokens m)"
| br_true_more: "processes inc n w f tokens sc i sc1 m \<Longrightarrow> at_directive tokens m [''elif'', ''else''] \<Longrightarrow>
    flush_pending n f sc1 = Done sc2 \<Longrightarrow> skips_group tokens sc2 (skip_to_directive_end tokens m) sc' j \<Longrightarrow>
    branches inc n w f tokens True sc i sc' j"
| br_false_end: "skips tokens sc i sc1 m \<Longrightarrow> at_directive tokens m [''endif''] \<Longrightarrow>
    branches inc n w f tokens False sc i (closes tokens sc1 m) (skip_to_directive_end tokens m)"
| br_false_elif: "skips tokens sc i sc1 m \<Longrightarrow> at_directive tokens m [''elif''] \<Longrightarrow>
    cond_at n w f tokens sc1 m = Some (v, k) \<Longrightarrow> branches inc n w f tokens v sc1 k sc' j \<Longrightarrow>
    branches inc n w f tokens False sc i sc' j"
| br_false_else: "skips tokens sc i sc1 m \<Longrightarrow> at_directive tokens m [''else''] \<Longrightarrow>
    processes inc n w f tokens sc1 (skip_to_directive_end tokens m) sc2 p \<Longrightarrow> at_directive tokens p [''endif''] \<Longrightarrow>
    flush_pending n f sc2 = Done sc3 \<Longrightarrow>
    branches inc n w f tokens False sc i (closes tokens sc3 p) (skip_to_directive_end tokens p)"

section \<open>Rounds of the machine\<close>

definition round_of ::
  "include_fun \<Rightarrow> nat \<Rightarrow> pp_world \<Rightarrow> string \<Rightarrow> pp_token list \<Rightarrow> scan \<times> nat \<Rightarrow> scan \<times> nat \<Rightarrow> bool" where
  "round_of inc n w f tokens a b \<longleftrightarrow>
     snd a < length tokens \<and> scan_step inc n w f tokens (fst a) (snd a) = Done (fst b, Inr (snd b))"

lemma with_stacks_simps [simp]:
  "sc_pp (with_stacks sc s t) = sc_pp sc" "sc_result (with_stacks sc s t) = sc_result sc"
  "sc_pending (with_stacks sc s t) = sc_pending sc" "sc_if (with_stacks sc s t) = s"
  "sc_taken (with_stacks sc s t) = t" "with_stacks (with_stacks sc s t) s' t' = with_stacks sc s' t'"
  "all_active (with_stacks sc s t) = list_all (\<lambda>a. a) s"
  "(with_stacks sc s t)\<lparr>sc_pending := x\<rparr> = with_stacks (sc\<lparr>sc_pending := x\<rparr>) s t"
  "(with_stacks sc s t)\<lparr>sc_pp := P\<rparr> = with_stacks (sc\<lparr>sc_pp := P\<rparr>) s t"
  "(with_stacks sc s t)\<lparr>sc_result := r\<rparr> = with_stacks (sc\<lparr>sc_result := r\<rparr>) s t"
  "(with_stacks sc s t)\<lparr>sc_if := s'\<rparr> = with_stacks sc s' t" "(with_stacks sc s t)\<lparr>sc_taken := t'\<rparr> = with_stacks sc s t'"
  by (simp_all add: with_stacks_def all_active_def)

lemma stack_op_simps [simp]:
  "push_group (with_stacks sc s t) b = with_stacks sc (s @ [b]) (t @ [b])"
  "set_group (with_stacks sc (s @ [a]) t) b = with_stacks sc (s @ [b]) t"
  "length t = length s \<Longrightarrow> mark_taken (with_stacks sc (s @ [a]) (t @ [c])) = with_stacks sc (s @ [a]) (t @ [True])"
  "parent_active (with_stacks sc (s @ [a]) t) \<longleftrightarrow> list_all (\<lambda>a. a) s"
  "add_guard (with_stacks sc s t) x = with_stacks (add_guard sc x) s t"
  by (simp_all add: push_group_def set_group_def mark_taken_def parent_active_def add_guard_def list_update_append)

lemma closes_pending [simp]: "sc_pending (closes tokens sc m) = sc_pending sc"
  by (simp add: closes_def)

lemma flush_empty: "sc_pending sc = [] \<Longrightarrow> flush_pending n f sc = Done sc"
  by (simp add: flush_pending_def)

lemma flush_stacks: "flush_pending n f sc = Done sc1 \<Longrightarrow>
    flush_pending n f (with_stacks sc s t) = Done (with_stacks sc1 s t) \<and> sc_pending sc1 = []"
  by (auto simp: flush_pending_def split: if_splits)

lemma flush_fails:
  "flush_pending n f sc = Crash \<Longrightarrow> flush_pending n f (with_stacks sc s t) = Crash"
  "flush_pending n f sc = NoFuel \<Longrightarrow> flush_pending n f (with_stacks sc s t) = NoFuel"
  by (cases "expand_macro_tokens n (pp_table (sc_pp sc)) (pp_tokens_to_tokens (sc_pending sc) f)";
      simp add: flush_pending_def split: if_splits)+

lemma directive_start_bound: "is_directive_start tokens i \<Longrightarrow> i < length tokens"
  by (simp add: is_directive_start_def)

lemma directive_parts:
  "directive inc n w f sc tokens i =
     (let name = dname tokens i; after = dafter tokens i in
        if name = ''include'' then dir_include inc f sc tokens i after
        else if name = ''define'' then dir_define f sc tokens i after
        else if name = ''undef'' then dir_undef sc tokens i after
        else if name = ''ifdef'' then dir_ifdef sc tokens after
        else if name = ''ifndef'' then dir_ifndef sc tokens after
        else if name = ''if'' then dir_if n w f sc tokens i after
        else if name = ''elif'' then dir_elif n w f sc tokens i after
        else if name = ''else'' then dir_else sc tokens i
        else if name = ''endif'' then dir_endif sc tokens i (dline tokens i)
        else if name = ''pragma'' then dir_pragma sc tokens i after
        else if name = ''error'' then dir_error sc tokens i after
        else if name = ''warning'' then dir_warning sc tokens i after
        else skip_line sc tokens i)"
  by (simp add: directive_def dname_def dline_def dafter_def split_def Let_def)

lemma round_directive:
  assumes "is_directive_start tokens i" and "flush_pending n f sc = Done sc0"
    and "directive inc n w f (with_stacks sc0 s t) tokens i = go sc1 k"
  shows "round_of inc n w f tokens (with_stacks sc s t, i) (sc1, k)"
  using assms flush_stacks [OF assms(2)] directive_start_bound [OF assms(1)]
  by (simp add: round_of_def scan_step_def go_def)

lemma round_text:
  assumes "i < length tokens" and "\<not> is_directive_start tokens i"
  shows "round_of inc n w f tokens (sc, i) (push_pending sc (tokens ! i), i + 1)"
  using assms by (simp add: round_of_def scan_step_def go_def)

section \<open>Skipping\<close>

text \<open>With an inactive group on the stack, or, at the level of a group, one whose branch was taken or
  whose parent is inactive.\<close>

lemma skip_directive:
  assumes "\<not> at_directive tokens i conditional_names" and "is_directive_start tokens i" and "\<not> list_all (\<lambda>a. a) s"
  shows "directive inc n w f (with_stacks sc s t) tokens i = go (with_stacks sc s t) (skip_to_directive_end tokens i)"
  using assms
  by (simp add: directive_parts at_directive_def conditional_names_def Let_def dir_include_def dir_define_def
      dir_undef_def dir_pragma_def dir_error_def dir_warning_def skip_line_def)

lemma skip_open:
  assumes "at_directive tokens i [''ifdef'', ''ifndef'', ''if'']" and "skip_open_at tokens i = Some k"
    and "\<not> list_all (\<lambda>a. a) s"
  shows "directive inc n w f (with_stacks sc s t) tokens i = go (with_stacks sc (s @ [False]) (t @ [False])) k"
  using assms
  by (auto simp: directive_parts at_directive_def Let_def skip_open_at_def dir_ifdef_def dir_ifndef_def dir_if_def
      skip_line_def split: sum.split_asm if_split_asm)

lemma group_next:
  assumes "at_directive tokens i [''elif'', ''else'']" and "length t = length s" and "\<not> list_all (\<lambda>a. a) s \<or> b"
    and "x \<longrightarrow> b"
  shows "directive inc n w f (with_stacks sc (s @ [x]) (t @ [b])) tokens i =
    go (with_stacks sc (s @ [False]) (t @ [b])) (skip_to_directive_end tokens i)"
  using assms
  by (auto simp: directive_parts at_directive_def Let_def dir_elif_def dir_else_def skip_line_def nth_append)

lemma group_end:
  assumes "at_directive tokens i [''endif'']"
  shows "directive inc n w f (with_stacks sc (s @ [x]) (t @ [b])) tokens i =
    go (with_stacks (closes tokens sc i) s t) (skip_to_directive_end tokens i)"
  using assms
  by (cases sc) (simp add: directive_parts at_directive_def Let_def dir_endif_def skip_line_def closes_def with_stacks_def)

abbreviation rounds where
  "rounds inc n w f tokens \<equiv> (round_of inc n w f tokens)\<^sup>*\<^sup>*"

lemma skipping:
  "skips tokens sc i sc' j \<Longrightarrow> sc_pending sc = [] \<Longrightarrow> sc_pending sc' = [] \<and>
     (\<forall>s t. \<not> list_all (\<lambda>a. a) s \<longrightarrow> length t = length s \<longrightarrow>
        rounds inc n w f tokens (with_stacks sc s t, i) (with_stacks sc' s t, j))"
  "skips_group tokens sc i sc' j \<Longrightarrow> sc_pending sc = [] \<Longrightarrow> sc_pending sc' = [] \<and>
     (\<forall>s t b. \<not> list_all (\<lambda>a. a) s \<or> b \<longrightarrow> length t = length s \<longrightarrow>
        rounds inc n w f tokens (with_stacks sc (s @ [False]) (t @ [b]), i) (with_stacks sc' s t, j))"
proof (induction rule: skips_skips_group.inducts)
  case (sk_text i sc sc' j)
  have "round_of inc n w f tokens (with_stacks sc s t, i) (with_stacks sc s t, i + 1)" if "\<not> list_all (\<lambda>a. a) s" for s t
    using round_text [OF sk_text(1,2), of inc n w f "with_stacks sc s t"] that by (simp add: push_pending_def)
  with sk_text show ?case by (meson converse_rtranclp_into_rtranclp)
next
  case (sk_line i sc sc' j)
  have "round_of inc n w f tokens (with_stacks sc s t, i) (with_stacks sc s t, skip_to_directive_end tokens i)"
    if "\<not> list_all (\<lambda>a. a) s" for s t
    using round_directive [OF sk_line(1) flush_empty [OF sk_line(5)]] skip_directive [OF sk_line(2,1) that] by blast
  with sk_line show ?case by (meson converse_rtranclp_into_rtranclp)
next
  case (sk_group i k sc sc1 m sc' j)
  have d: "is_directive_start tokens i" using sk_group(1) by (simp add: at_directive_def)
  have "rounds inc n w f tokens (with_stacks sc s t, i) (with_stacks sc' s t, j)"
    if s: "\<not> list_all (\<lambda>a. a) s" "length t = length s" for s t
  proof -
    have "round_of inc n w f tokens (with_stacks sc s t, i) (with_stacks sc (s @ [False]) (t @ [False]), k)"
      using round_directive [OF d flush_empty [OF sk_group(7)]] skip_open [OF sk_group(1,2) s(1)] by blast
    also have "rounds inc n w f tokens \<dots> (with_stacks sc1 s t, m)" using sk_group s by blast
    also have "rounds inc n w f tokens \<dots> (with_stacks sc' s t, j)" using sk_group s by blast
    finally show ?thesis by simp
  qed
  with sk_group show ?case by blast
next
  case (sg_end sc i sc1 m)
  then have p: "sc_pending sc1 = []" and d: "is_directive_start tokens m" by (simp_all add: at_directive_def)
  have "rounds inc n w f tokens (with_stacks sc (s @ [False]) (t @ [b]), i)
      (with_stacks (closes tokens sc1 m) s t, skip_to_directive_end tokens m)" if s: "length t = length s" for s t b
  proof -
    have "rounds inc n w f tokens (with_stacks sc (s @ [False]) (t @ [b]), i) (with_stacks sc1 (s @ [False]) (t @ [b]), m)"
      using sg_end s by simp
    also have "round_of inc n w f tokens \<dots> (with_stacks (closes tokens sc1 m) s t, skip_to_directive_end tokens m)"
      by (rule round_directive [OF d flush_empty [OF p] group_end [OF sg_end(3)]])
    finally show ?thesis .
  qed
  with p show ?case by simp
next
  case (sg_more sc i sc1 m sc' j)
  then have p: "sc_pending sc1 = []" and d: "is_directive_start tokens m" by (simp_all add: at_directive_def)
  have "rounds inc n w f tokens (with_stacks sc (s @ [False]) (t @ [b]), i) (with_stacks sc' s t, j)"
    if s: "\<not> list_all (\<lambda>a. a) s \<or> b" "length t = length s" for s t b
  proof -
    have "rounds inc n w f tokens (with_stacks sc (s @ [False]) (t @ [b]), i) (with_stacks sc1 (s @ [False]) (t @ [b]), m)"
      using sg_more s by simp
    also have "round_of inc n w f tokens \<dots> (with_stacks sc1 (s @ [False]) (t @ [b]), skip_to_directive_end tokens m)"
      by (rule round_directive [OF d flush_empty [OF p] group_next [OF sg_more(3) s(2,1)]]) simp
    also have "rounds inc n w f tokens \<dots> (with_stacks sc' s t, j)" using sg_more p s by blast
    finally show ?thesis .
  qed
  with sg_more p show ?case by blast
qed auto

section \<open>Taking\<close>

definition lift_stacks :: "bool list \<Rightarrow> bool list \<Rightarrow> step \<Rightarrow> step" where
  "lift_stacks s t m = run_bind m (\<lambda>(sc, x). Done (with_stacks sc s t, x))"

lemma lift_stacks_simps [simp]:
  "lift_stacks s t (go sc k) = go (with_stacks sc s t) k" "lift_stacks s t (stop sc e) = stop (with_stacks sc s t) e"
  by (simp_all add: lift_stacks_def go_def stop_def)

lemma lift_stacks_run: "lift_stacks s t (run_bind r h) = run_bind r (\<lambda>x. lift_stacks s t (h x))"
  by (cases r) (simp_all add: lift_stacks_def)

lemma active_line:
  assumes "\<not> at_directive tokens i conditional_names" and "is_directive_start tokens i" and "list_all (\<lambda>a. a) s"
  shows "directive inc n w f (with_stacks sc s t) tokens i = lift_stacks s t (directive inc n w f (with_stacks sc [] []) tokens i)"
proof -
  let ?after = "dafter tokens i"
  have "dir_include inc f (with_stacks sc s t) tokens i ?after = lift_stacks s t (dir_include inc f (with_stacks sc [] []) tokens i ?after)"
    using assms(3)
    by (cases "parse_include_path tokens ?after f")
      (auto simp: dir_include_def lift_stacks_run Let_def fun_eq_iff split: sum.split option.split intro!: arg_cong2 [of _ _ _ _ run_bind])
  moreover have "dir_define f (with_stacks sc s t) tokens i ?after = lift_stacks s t (dir_define f (with_stacks sc [] []) tokens i ?after)"
    using assms(3) by (auto simp: dir_define_def split: sum.split)
  moreover have "dir_undef (with_stacks sc s t) tokens i ?after = lift_stacks s t (dir_undef (with_stacks sc [] []) tokens i ?after)"
    using assms(3) by (simp add: dir_undef_def split: prod.split)
  moreover have "dir_pragma (with_stacks sc s t) tokens i ?after = lift_stacks s t (dir_pragma (with_stacks sc [] []) tokens i ?after)"
    "dir_error (with_stacks sc s t) tokens i ?after = lift_stacks s t (dir_error (with_stacks sc [] []) tokens i ?after)"
    "dir_warning (with_stacks sc s t) tokens i ?after = lift_stacks s t (dir_warning (with_stacks sc [] []) tokens i ?after)"
    using assms(3) by (simp_all add: dir_pragma_def dir_error_def dir_warning_def Let_def split: prod.split)
  ultimately show ?thesis
    using assms by (simp add: directive_parts at_directive_def conditional_names_def Let_def skip_line_def)
qed

lemma take_line:
  assumes "is_directive_start tokens i" and "\<not> at_directive tokens i conditional_names"
    and "scan_step inc n w f tokens (with_stacks sc [] []) i = Done (sc1, Inr k)" and "list_all (\<lambda>a. a) s"
  shows "round_of inc n w f tokens (with_stacks sc s t, i) (with_stacks sc1 s t, k)"
proof -
  obtain sc0 where fl: "flush_pending n f sc = Done sc0"
    using assms(1,3) by (auto simp: scan_step_def flush_pending_def split: if_splits)
  then have "directive inc n w f (with_stacks sc0 [] []) tokens i = Done (sc1, Inr k)"
    using assms(1,3) flush_stacks [OF fl, of "[]" "[]"] by (simp add: scan_step_def)
  then have "directive inc n w f (with_stacks sc0 s t) tokens i = go (with_stacks sc1 s t) k"
    using active_line [OF assms(2,1,4), of inc n w f sc0 t] by (simp add: lift_stacks_def go_def)
  with round_directive [OF assms(1) fl] show ?thesis by blast
qed

lemma open_active:
  assumes "at_directive tokens i [''ifdef'', ''ifndef'', ''if'']" and "open_at n w f tokens sc i = Some (v, sc1, k)"
    and "list_all (\<lambda>a. a) s"
  shows "directive inc n w f (with_stacks sc s t) tokens i = go (with_stacks sc1 (s @ [v]) (t @ [v])) k \<and>
    sc_pending sc1 = sc_pending sc"
proof (cases "dname tokens i = ''if''")
  case True
  with assms show ?thesis
    by (auto simp: directive_parts open_at_def cond_at_def dir_if_def with_condition_def go_def
        split: run.split_asm sum.split_asm)
next
  case False
  with assms show ?thesis
    by (auto simp: directive_parts at_directive_def open_at_def dir_ifdef_def dir_ifndef_def Let_def add_guard_def
        split: sum.split_asm if_split_asm)
qed

lemma elif_active:
  assumes "at_directive tokens i [''elif'']" and "cond_at n w f tokens sc i = Some (v, k)"
    and "list_all (\<lambda>a. a) s" and "length t = length s"
  shows "directive inc n w f (with_stacks sc (s @ [False]) (t @ [False])) tokens i =
    go (with_stacks sc (s @ [v]) (t @ [v])) k"
  using assms
  by (auto simp: directive_parts at_directive_def cond_at_def dir_elif_def with_condition_def go_def Let_def nth_append
      split: run.split_asm sum.split_asm)

lemma else_active:
  assumes "at_directive tokens i [''else'']" and "list_all (\<lambda>a. a) s" and "length t = length s"
  shows "directive inc n w f (with_stacks sc (s @ [False]) (t @ [False])) tokens i =
    go (with_stacks sc (s @ [True]) (t @ [True])) (skip_to_directive_end tokens i)"
  using assms
  by (auto simp: directive_parts at_directive_def dir_else_def skip_line_def Let_def nth_append)

lemma taking:
  "processes inc n w f tokens sc i sc' j \<Longrightarrow>
     \<forall>s t. list_all (\<lambda>a. a) s \<longrightarrow> length t = length s \<longrightarrow>
        rounds inc n w f tokens (with_stacks sc s t, i) (with_stacks sc' s t, j)"
  "branches inc n w f tokens v sc i sc' j \<Longrightarrow> sc_pending sc = [] \<Longrightarrow>
     \<forall>s t. list_all (\<lambda>a. a) s \<longrightarrow> length t = length s \<longrightarrow>
        rounds inc n w f tokens (with_stacks sc (s @ [v]) (t @ [v]), i) (with_stacks sc' s t, j)"
proof (induction rule: processes_branches.inducts)
  case (tk_text i sc sc' j)
  have "round_of inc n w f tokens (with_stacks sc s t, i)
      (with_stacks (sc\<lparr>sc_pending := sc_pending sc @ [tokens ! i]\<rparr>) s t, i + 1)" if "list_all (\<lambda>a. a) s" for s t
    using round_text [OF tk_text(1,2), of inc n w f "with_stacks sc s t"] that by (simp add: push_pending_def)
  with tk_text show ?case by (meson converse_rtranclp_into_rtranclp)
next
  case (tk_line i sc sc1 k sc' j)
  with take_line [OF tk_line(1-3)] show ?case by (meson converse_rtranclp_into_rtranclp)
next
  case (tk_group i sc sc0 v sc1 k sc2 m sc' j)
  have d: "is_directive_start tokens i" using tk_group(1) by (simp add: at_directive_def)
  have "sc_pending sc1 = []"
    using open_active [OF tk_group(1,3), of "[]" inc "[]"] flush_stacks [OF tk_group(2)] by simp
  then have br: "rounds inc n w f tokens (with_stacks sc1 (s @ [v]) (t @ [v]), k) (with_stacks sc2 s t, m)"
    if "list_all (\<lambda>a. a) s" "length t = length s" for s t
    using tk_group that by blast
  have "rounds inc n w f tokens (with_stacks sc s t, i) (with_stacks sc' s t, j)"
    if s: "list_all (\<lambda>a. a) s" "length t = length s" for s t
  proof -
    have "round_of inc n w f tokens (with_stacks sc s t, i) (with_stacks sc1 (s @ [v]) (t @ [v]), k)"
      using round_directive [OF d tk_group(2)] open_active [OF tk_group(1,3) s(1)] by blast
    also note br [OF s]
    also have "rounds inc n w f tokens (with_stacks sc2 s t, m) (with_stacks sc' s t, j)" using tk_group s by blast
    finally show ?thesis by simp
  qed
  then show ?case by blast
next
  case (br_true_end sc i sc1 m sc2)
  have d: "is_directive_start tokens m" using br_true_end(3) by (simp add: at_directive_def)
  have "rounds inc n w f tokens (with_stacks sc (s @ [True]) (t @ [True]), i)
      (with_stacks (closes tokens sc2 m) s t, skip_to_directive_end tokens m)"
    if s: "list_all (\<lambda>a. a) s" "length t = length s" for s t
  proof -
    have "rounds inc n w f tokens (with_stacks sc (s @ [True]) (t @ [True]), i) (with_stacks sc1 (s @ [True]) (t @ [True]), m)"
      using br_true_end(2) s by simp
    also have "round_of inc n w f tokens \<dots> (with_stacks (closes tokens sc2 m) s t, skip_to_directive_end tokens m)"
      by (rule round_directive [OF d br_true_end(4) group_end [OF br_true_end(3)]])
    finally show ?thesis .
  qed
  then show ?case by blast
next
  case (br_true_more sc i sc1 m sc2 sc' j)
  have d: "is_directive_start tokens m" using br_true_more(3) by (auto simp: at_directive_def)
  have p: "sc_pending sc2 = []" using flush_stacks [OF br_true_more(4)] by simp
  have "rounds inc n w f tokens (with_stacks sc (s @ [True]) (t @ [True]), i) (with_stacks sc' s t, j)"
    if s: "list_all (\<lambda>a. a) s" "length t = length s" for s t
  proof -
    have "rounds inc n w f tokens (with_stacks sc (s @ [True]) (t @ [True]), i) (with_stacks sc1 (s @ [True]) (t @ [True]), m)"
      using br_true_more(2) s by simp
    also have "round_of inc n w f tokens \<dots> (with_stacks sc2 (s @ [False]) (t @ [True]), skip_to_directive_end tokens m)"
      by (rule round_directive [OF d br_true_more(4) group_next [OF br_true_more(3) s(2)]]) simp_all
    also have "rounds inc n w f tokens \<dots> (with_stacks sc' s t, j)" using skipping(2) [OF br_true_more(5) p] s by simp
    finally show ?thesis .
  qed
  then show ?case by blast
next
  case (br_false_end sc i sc1 m)
  have d: "is_directive_start tokens m" using br_false_end(2) by (simp add: at_directive_def)
  note sk = skipping(1) [OF br_false_end(1,3)]
  have "rounds inc n w f tokens (with_stacks sc (s @ [False]) (t @ [False]), i)
      (with_stacks (closes tokens sc1 m) s t, skip_to_directive_end tokens m)"
    if s: "list_all (\<lambda>a. a) s" "length t = length s" for s t
  proof -
    have "rounds inc n w f tokens (with_stacks sc (s @ [False]) (t @ [False]), i) (with_stacks sc1 (s @ [False]) (t @ [False]), m)"
      using sk s by simp
    also have "round_of inc n w f tokens \<dots> (with_stacks (closes tokens sc1 m) s t, skip_to_directive_end tokens m)"
      by (rule round_directive [OF d flush_empty group_end [OF br_false_end(2)]]) (simp add: sk)
    finally show ?thesis .
  qed
  then show ?case by blast
next
  case (br_false_elif sc i sc1 m v k sc' j)
  have d: "is_directive_start tokens m" using br_false_elif(2) by (simp add: at_directive_def)
  note sk = skipping(1) [OF br_false_elif(1,6)]
  have "rounds inc n w f tokens (with_stacks sc (s @ [False]) (t @ [False]), i) (with_stacks sc' s t, j)"
    if s: "list_all (\<lambda>a. a) s" "length t = length s" for s t
  proof -
    have "rounds inc n w f tokens (with_stacks sc (s @ [False]) (t @ [False]), i) (with_stacks sc1 (s @ [False]) (t @ [False]), m)"
      using sk s by simp
    also have "round_of inc n w f tokens \<dots> (with_stacks sc1 (s @ [v]) (t @ [v]), k)"
      by (rule round_directive [OF d flush_empty elif_active [OF br_false_elif(2,3) s]]) (simp add: sk)
    also have "rounds inc n w f tokens \<dots> (with_stacks sc' s t, j)" using br_false_elif(5) sk s by blast
    finally show ?thesis .
  qed
  then show ?case by blast
next
  case (br_false_else sc i sc1 m sc2 p sc3)
  have d: "is_directive_start tokens m" "is_directive_start tokens p"
    using br_false_else(2,5) by (simp_all add: at_directive_def)
  note sk = skipping(1) [OF br_false_else(1,7)]
  have "rounds inc n w f tokens (with_stacks sc (s @ [False]) (t @ [False]), i)
      (with_stacks (closes tokens sc3 p) s t, skip_to_directive_end tokens p)"
    if s: "list_all (\<lambda>a. a) s" "length t = length s" for s t
  proof -
    have "rounds inc n w f tokens (with_stacks sc (s @ [False]) (t @ [False]), i) (with_stacks sc1 (s @ [False]) (t @ [False]), m)"
      using sk s by simp
    also have "round_of inc n w f tokens \<dots> (with_stacks sc1 (s @ [True]) (t @ [True]), skip_to_directive_end tokens m)"
      by (rule round_directive [OF d(1) flush_empty else_active [OF br_false_else(2) s]]) (simp add: sk)
    also have "rounds inc n w f tokens \<dots> (with_stacks sc2 (s @ [True]) (t @ [True]), p)"
      using br_false_else(4) s by simp
    also have "round_of inc n w f tokens \<dots> (with_stacks (closes tokens sc3 p) s t, skip_to_directive_end tokens p)"
      by (rule round_directive [OF d(2) br_false_else(6) group_end [OF br_false_else(5)]])
    finally show ?thesis .
  qed
  then show ?case by blast
qed simp

section \<open>The scan of a file\<close>

lemma rounds_scan_loop:
  "rounds inc n w f tokens a b \<Longrightarrow> length tokens \<le> snd b \<Longrightarrow>
    \<exists>r. scan_loop r inc n w f tokens (fst a) (snd a) = Done (fst b, Inr ())"
proof (induction rule: converse_rtranclp_induct)
  case base
  then show ?case by (auto simp: scan_loop.simps)
next
  case (step a c)
  then obtain r where r: "scan_loop r inc n w f tokens (fst c) (snd c) = Done (fst b, Inr ())" by blast
  with step(1) have "scan_loop (Suc r) inc n w f tokens (fst a) (snd a) = Done (fst b, Inr ())"
    by (simp add: round_of_def scan_loop.simps [of "Suc r"])
  then show ?case by blast
qed

lemma scan_loop_more: "scan_loop r inc n w f tokens sc i = Done x \<Longrightarrow> scan_loop (Suc r) inc n w f tokens sc i = Done x"
proof (induction r arbitrary: sc i)
  case 0
  then show ?case by (simp add: scan_loop.simps split: if_splits)
next
  case (Suc r)
  show ?case
  proof (cases "i < length tokens")
    case True
    with Suc.prems obtain sc1 y where s: "scan_step inc n w f tokens sc i = Done (sc1, y)"
      and rest: "(case y of Inl e \<Rightarrow> Done (sc1, Inl e) | Inr j \<Rightarrow> scan_loop r inc n w f tokens sc1 j) = Done x"
      by (auto simp: scan_loop.simps [of "Suc r"])
    from rest have "(case y of Inl e \<Rightarrow> Done (sc1, Inl e) | Inr j \<Rightarrow> scan_loop (Suc r) inc n w f tokens sc1 j) = Done x"
      by (cases y) (simp_all add: Suc.IH)
    with s True show ?thesis by (simp add: scan_loop.simps [of "Suc (Suc r)"])
  qed (use Suc.prems in \<open>simp add: scan_loop.simps\<close>)
qed

lemma scan_loop_enough:
  assumes "scan_loop r inc n w f tokens sc 0 = Done x"
  shows "scan_loop (Suc (length tokens)) inc n w f tokens sc 0 = Done x"
proof -
  have more: "scan_loop (r + k) inc n w f tokens sc 0 = Done x" for k
    by (induction k) (simp_all add: assms scan_loop_more)
  have same: "scan_loop (Suc (length tokens) + k) inc n w f tokens sc 0 = scan_loop (Suc (length tokens)) inc n w f tokens sc 0" for k
    by (induction k) (simp_all add: scan_loop_rounds)
  from more [of "Suc (length tokens)"] same [of r] show ?thesis by (metis add.commute)
qed

text \<open>
  C4: The stacks of the scan implement the groups of the grammar: a file made of balanced groups is
  processed as the specification says, the first true branch of each active group and nothing
  else, and no error of an unbalanced conditional is reported.\<close>

theorem conditional_groups:
  assumes "processes inc n w f (tokenize_pp_source source l) (start_scan P) 0 sc j"
    and "length (tokenize_pp_source source l) \<le> j"
  shows "resolve_includes inc n w P source f l =
    run_bind (flush_pending n f sc) (\<lambda>sc1. Done (check_include_guards (sc_pp sc1), Inr (sc_result sc1)))"
proof -
  let ?t = "tokenize_pp_source source l"
  have "rounds inc n w f ?t (with_stacks (start_scan P) [] [], 0) (with_stacks sc [] [], j)"
    using taking(1) [OF assms(1)] by simp
  moreover have "with_stacks (start_scan P) [] [] = start_scan P" by (simp add: start_scan_def with_stacks_def)
  ultimately obtain r where "scan_loop r inc n w f ?t (start_scan P) 0 = Done (with_stacks sc [] [], Inr ())"
    using rounds_scan_loop [of inc n w f ?t] assms(2) by fastforce
  then have "scan_loop (Suc (length ?t)) inc n w f ?t (start_scan P) 0 = Done (with_stacks sc [] [], Inr ())"
    by (rule scan_loop_enough)
  then have "resolve_includes inc n w P source f l = finish_scan n f (with_stacks sc [] [])"
    by (simp add: resolve_includes_def Let_def)
  also have "\<dots> = run_bind (flush_pending n f sc) (\<lambda>sc1. Done (check_include_guards (sc_pp sc1), Inr (sc_result sc1)))"
  proof (cases "flush_pending n f sc")
    case (Done sc1)
    then show ?thesis using flush_stacks [OF Done, of "[]" "[]"] by (simp add: finish_scan_def)
  qed (simp_all add: finish_scan_def flush_fails)
  finally show ?thesis .
qed

text \<open>A file with one group: \<open>A\<close> is not defined, so the \<open>#else\<close> branch is taken.\<close>

definition sample_group :: string where
  "sample_group = ''#ifdef A'' @ [CHR 0x0A] @ ''x'' @ [CHR 0x0A] @ ''#else'' @ [CHR 0x0A] @ ''y'' @ [CHR 0x0A] @ ''#endif''"

definition sample_T :: "pp_token list" where
  "sample_T =
     [pp_tok P_Hash ''#'' 1 1, pp_tok P_Identifier ''ifdef'' 1 2, pp_tok P_Whitespace '' '' 1 8,
      pp_tok P_Identifier ''A'' 1 8, pp_tok P_Newline [CHR 0x0A] 1 9,
      pp_tok P_Identifier ''x'' 2 1, pp_tok P_Newline [CHR 0x0A] 2 2,
      pp_tok P_Hash ''#'' 3 1, pp_tok P_Identifier ''else'' 3 2, pp_tok P_Newline [CHR 0x0A] 3 6,
      pp_tok P_Identifier ''y'' 4 1, pp_tok P_Newline [CHR 0x0A] 4 2,
      pp_tok P_Hash ''#'' 5 1, pp_tok P_Identifier ''endif'' 5 2]"

lemma sample_T_eq: "tokenize_pp_source sample_group 1 = sample_T"
  by code_simp

lemma sample_group_facts:
  "at_directive sample_T 0 [''ifdef'', ''ifndef'', ''if'']"
  "at_directive sample_T 7 [''else'']"
  "at_directive sample_T 12 [''endif'']"
  "dname sample_T 0 = ''ifdef''"
  "parse_simple_directive_arg sample_T (dafter sample_T 0) = Inr (''A'', 5)"
  "skip_to_directive_end sample_T 7 = 10"
  "skip_to_directive_end sample_T 12 = 15"
  "\<not> is_directive_start sample_T 5" "\<not> is_directive_start sample_T 6"
  "\<not> is_directive_start sample_T 10" "\<not> is_directive_start sample_T 11"
  "length sample_T = 14"
  "sample_T ! 10 = pp_tok P_Identifier ''y'' 4 1"
  "sample_T ! 11 = pp_tok P_Newline [CHR 0x0A] 4 2"
  by code_simp+

definition sample_y :: ctoken where
  "sample_y = ctoken_new T_Identifier ''y'' 4 1 ''b.c''"

lemma sample_flush:
  "flush_pending 5 ''b.c'' ((start_scan sample_pp)\<lparr>sc_pending := [pp_tok P_Identifier ''y'' 4 1, pp_tok P_Newline [CHR 0x0A] 4 2]\<rparr>) =
   Done ((start_scan sample_pp)\<lparr>sc_result := [sample_y]\<rparr>)"
  by (simp add: flush_pending_def start_scan_def sample_pp_def pp_tokens_to_tokens_def pp_to_ctoken_def
      pp_is_keyword_def pp_keywords_def expand_macro_tokens_def expand_stack.simps copied_def cons_run_def sample_y_def)

lemma sample_group_takes:
  "processes (\<lambda>P p f. NoFuel) 5 sample_world ''b.c'' sample_T (start_scan sample_pp) 0
    ((start_scan sample_pp)\<lparr>sc_result := [sample_y]\<rparr>) 15"
proof -
  let ?processes = "processes (\<lambda>P p f. NoFuel) 5 sample_world ''b.c'' sample_T"
  let ?s = "start_scan sample_pp"
  let ?y = "?s\<lparr>sc_pending := [pp_tok P_Identifier ''y'' 4 1, pp_tok P_Newline [CHR 0x0A] 4 2]\<rparr>"
  note facts = sample_group_facts
  have empty: "sc_pending ?s = []" by (simp add: start_scan_def)
  have skip: "skips sample_T ?s 5 ?s 7"
    by (rule sk_text, simp add: facts, rule facts, simp, rule sk_text, simp add: facts, rule facts, simp, rule sk_end)
  have take: "?processes ?s 10 ?y 12"
    by (rule tk_text, simp add: facts, rule facts, simp, rule tk_text, simp add: facts, rule facts)
      (simp add: facts empty tk_end)
  have close: "closes sample_T (?s\<lparr>sc_result := [sample_y]\<rparr>) 12 = ?s\<lparr>sc_result := [sample_y]\<rparr>"
    by (simp add: closes_def start_scan_def set_endif_line_def sample_pp_def)
  have "branches (\<lambda>P p f. NoFuel) 5 sample_world ''b.c'' sample_T False ?s 5 (closes sample_T (?s\<lparr>sc_result := [sample_y]\<rparr>) 12)
      (skip_to_directive_end sample_T 12)"
    by (rule br_false_else [OF skip facts(2) _ facts(3) sample_flush]) (simp only: facts take)
  then have br: "branches (\<lambda>P p f. NoFuel) 5 sample_world ''b.c'' sample_T False ?s 5 (?s\<lparr>sc_result := [sample_y]\<rparr>) 15"
    by (simp only: close facts)
  have "open_at 5 sample_world ''b.c'' sample_T ?s 0 = Some (False, ?s, 5)"
    by (simp add: open_at_def facts pp_is_macro_defined_def start_scan_def sample_pp_def)
  from tk_group [OF facts(1) flush_empty [OF empty] this br tk_end] show ?thesis .
qed

theorem conditional_groups_witness:
  "resolve_includes (\<lambda>P p f. NoFuel) 5 sample_world sample_pp sample_group ''b.c'' 1 =
    run_bind (flush_pending 5 ''b.c'' ((start_scan sample_pp)\<lparr>sc_result := [sample_y]\<rparr>)) (\<lambda>sc1.
      Done (check_include_guards (sc_pp sc1), Inr (sc_result sc1)))"
  by (rule conditional_groups [OF sample_group_takes [folded sample_T_eq]])
    (simp add: sample_T_eq [simplified] sample_group_facts)

end
