(* ===== verification/ParserState.thy ===== *)
theory ParserState
  imports Arena PpIf
begin

text \<open>
  The state of the parser (\<open>src/src/frontend/parser.rs\<close>) and the operations all of its functions
  are made of: looking at the current token, advancing, allocating and linking nodes, and the
  walks over the nodes it has built.

  A function of the parser that returns \<open>Result<T, ParseError>\<close> is a function from a parser to a
  \<open>presult\<close>: a value or an error, each with the parser it leaves (tokens consumed and nodes
  allocated before an error stay so), or \<open>Stuck\<close>, when the code panics, accesses memory outside
  the mapping, or has not returned within the bound given to a loop.
\<close>

section \<open>Tokens\<close>

datatype ptoken_kind =
    K_Keyword
  | K_Identifier
  | K_IntConstant
  | K_FloatConstant
  | K_CharConstant
  | K_StringLiteral
  | K_Punctuator
  | K_EOF

record ptoken =
  pk_kind :: ptoken_kind
  pk_text :: string
  pk_line :: u32
  pk_column :: u32
  pk_file :: string

definition ptok :: "ptoken_kind \<Rightarrow> string \<Rightarrow> u32 \<Rightarrow> u32 \<Rightarrow> ptoken" where
  "ptok k text line column =
     \<lparr>pk_kind = k, pk_text = text, pk_line = line, pk_column = column, pk_file = []\<rparr>"

lemma ptok_simps [simp]:
  "pk_kind (ptok k t l c) = k" "pk_text (ptok k t l c) = t" "pk_line (ptok k t l c) = l"
  "pk_column (ptok k t l c) = c" "pk_file (ptok k t l c) = []"
  by (simp_all add: ptok_def)

fun kind_from_pp :: "ctoken_kind \<Rightarrow> ptoken_kind" where
  "kind_from_pp T_Identifier = K_Identifier"
| "kind_from_pp T_Keyword = K_Keyword"
| "kind_from_pp T_IntLiteral = K_IntConstant"
| "kind_from_pp T_FloatLiteral = K_FloatConstant"
| "kind_from_pp T_CharLiteral = K_CharConstant"
| "kind_from_pp T_StringLiteral = K_StringLiteral"
| "kind_from_pp T_Punctuator = K_Punctuator"
| "kind_from_pp T_Preprocessor = K_Punctuator"
| "kind_from_pp T_Whitespace = K_Punctuator"
| "kind_from_pp T_Comment = K_Punctuator"
| "kind_from_pp T_EndOfFile = K_EOF"

definition token_from_pp :: "ctoken \<Rightarrow> ptoken" where
  "token_from_pp t =
     \<lparr>pk_kind = kind_from_pp (ct_kind t), pk_text = ct_text t, pk_line = ct_line t,
      pk_column = ct_column t, pk_file = ct_file t\<rparr>"

record parse_error =
  pe_message :: string
  pe_line :: u32
  pe_column :: u32

section \<open>The parser and its results\<close>

record parser =
  p_arena :: arena
  p_tokens :: "ptoken list"
  p_current :: nat
  typedef_names :: "string set"
  typedef_kinds :: "string \<rightharpoonup> u16 \<times> u32"
  constant_ints :: "string \<rightharpoonup> int"

definition parser_new :: "arena \<Rightarrow> parser" where
  "parser_new A =
     \<lparr>p_arena = A, p_tokens = [], p_current = 0, typedef_names = {}, typedef_kinds = Map.empty,
      constant_ints = Map.empty\<rparr>"

datatype stuck = Panicked | Faulted | OutOfFuel

datatype 'a presult =
    Parsed 'a parser
  | Failed parse_error parser
  | Stuck stuck

type_synonym 'a pm = "parser \<Rightarrow> 'a presult"

definition pret :: "'a \<Rightarrow> 'a pm" where
  "pret x = (\<lambda>p. Parsed x p)"

definition pfail :: "parse_error \<Rightarrow> 'a pm" where
  "pfail e = (\<lambda>p. Failed e p)"

definition pstuck :: "stuck \<Rightarrow> 'a pm" where
  "pstuck s = (\<lambda>p. Stuck s)"

definition pbind :: "'a pm \<Rightarrow> ('a \<Rightarrow> 'b pm) \<Rightarrow> 'b pm" where
  "pbind m k = (\<lambda>p. case m p of Parsed x q \<Rightarrow> k x q | Failed e q \<Rightarrow> Failed e q | Stuck s \<Rightarrow> Stuck s)"

text \<open>A call whose \<open>Result\<close> is inspected instead of being passed on with \<open>?\<close>.\<close>

definition pcatch :: "'a pm \<Rightarrow> (parse_error + 'a) pm" where
  "pcatch m = (\<lambda>p. case m p of Parsed x q \<Rightarrow> Parsed (Inr x) q | Failed e q \<Rightarrow> Parsed (Inl e) q | Stuck s \<Rightarrow> Stuck s)"

definition pmodify :: "(parser \<Rightarrow> parser) \<Rightarrow> unit pm" where
  "pmodify f = (\<lambda>p. Parsed () (f p))"

definition pget :: "(parser \<Rightarrow> 'a) \<Rightarrow> 'a pm" where
  "pget f = (\<lambda>p. Parsed (f p) p)"

text \<open>Reading the current token panics when there are no tokens at all (\<open>tokens.last().unwrap()\<close>).\<close>

definition current_token :: "parser \<Rightarrow> ptoken" where
  "current_token p =
     (if p_current p < length (p_tokens p) then p_tokens p ! p_current p else last (p_tokens p))"

definition look :: "(parser \<Rightarrow> 'a) \<Rightarrow> 'a pm" where
  "look f = (\<lambda>p. if p_tokens p = [] then Stuck Panicked else Parsed (f p) p)"

definition pif :: "(parser \<Rightarrow> bool) \<Rightarrow> 'a pm \<Rightarrow> 'a pm \<Rightarrow> 'a pm" where
  "pif c a b = pbind (look c) (\<lambda>x. if x then a else b)"

text \<open>
  A loop: \<open>body\<close> returns \<open>Inl\<close> the next state of the loop or \<open>Inr\<close> the value the loop ends with.
  \<open>prepeat\<close> gives it one round more than there are tokens left.
\<close>

primrec ploop :: "nat \<Rightarrow> ('s \<Rightarrow> ('s + 'a) pm) \<Rightarrow> 's \<Rightarrow> 'a pm" where
  "ploop 0 body s = pstuck OutOfFuel"
| "ploop (Suc n) body s = pbind (body s) (\<lambda>r. case r of Inl t \<Rightarrow> ploop n body t | Inr x \<Rightarrow> pret x)"

definition tokens_left :: "parser \<Rightarrow> nat" where
  "tokens_left p = length (p_tokens p) - p_current p"

definition prepeat :: "('s \<Rightarrow> ('s + 'a) pm) \<Rightarrow> 's \<Rightarrow> 'a pm" where
  "prepeat body s = (\<lambda>p. ploop (Suc (tokens_left p)) body s p)"

abbreviation again :: "'s \<Rightarrow> ('s + 'a) pm" where
  "again s \<equiv> pret (Inl s)"

abbreviation break :: "'a \<Rightarrow> ('s + 'a) pm" where
  "break x \<equiv> pret (Inr x)"

section \<open>Looking at tokens\<close>

definition is_at_end :: "parser \<Rightarrow> bool" where
  "is_at_end p \<longleftrightarrow> pk_kind (current_token p) = K_EOF"

definition peek_token :: "nat \<Rightarrow> parser \<Rightarrow> ptoken option" where
  "peek_token k p = (if p_current p + k < length (p_tokens p) then Some (p_tokens p ! (p_current p + k)) else None)"

definition p_advance :: "unit pm" where
  "p_advance = pmodify (\<lambda>p. if p_current p < length (p_tokens p) then p\<lparr>p_current := p_current p + 1\<rparr> else p)"

definition at_text :: "string \<Rightarrow> parser \<Rightarrow> bool" where
  "at_text s p \<longleftrightarrow> pk_text (current_token p) = s"

definition at_kind :: "ptoken_kind \<Rightarrow> parser \<Rightarrow> bool" where
  "at_kind k p \<longleftrightarrow> pk_kind (current_token p) = k"

definition at_punct :: "string \<Rightarrow> parser \<Rightarrow> bool" where
  "at_punct s p \<longleftrightarrow> at_kind K_Punctuator p \<and> at_text s p"

definition at_word :: "parser \<Rightarrow> bool" where
  "at_word p \<longleftrightarrow> at_kind K_Keyword p \<or> at_kind K_Identifier p"

definition at_attribute :: "parser \<Rightarrow> bool" where
  "at_attribute p \<longleftrightarrow> at_word p \<and> at_text ''__attribute__'' p"

definition error_at :: "string \<Rightarrow> parser \<Rightarrow> parse_error" where
  "error_at msg p =
     \<lparr>pe_message = msg, pe_line = pk_line (current_token p), pe_column = pk_column (current_token p)\<rparr>"

definition fail_here :: "string \<Rightarrow> 'a pm" where
  "fail_here msg = pbind (look (error_at msg)) pfail"

definition squote :: string where
  "squote = [CHR 0x27]"

definition expect :: "string \<Rightarrow> unit pm" where
  "expect text =
     pif (at_text text) p_advance
       (pbind (look current_token) (\<lambda>token.
        fail_here (''Expected '' @ squote @ text @ squote @ '' but found '' @ squote @ pk_text token @ squote)))"

definition skip_punctuator :: "string \<Rightarrow> bool pm" where
  "skip_punctuator text = pif (at_punct text) (pbind p_advance (\<lambda>_. pret True)) (pret False)"

definition type_specifier_words :: "string list" where
  "type_specifier_words =
     [''void'', ''char'', ''int'', ''float'', ''double'', ''short'', ''long'', ''signed'', ''unsigned'',
      ''struct'', ''union'', ''enum'', ''_Bool'', ''_Complex'', ''_Imaginary'', ''typeof'', ''__typeof__'',
      ''__signed__'', ''__signed'', ''__builtin_va_list'', ''__gnuc_va_list'', ''va_list'', ''__int128'',
      ''__int128_t'', ''__uint128_t'']"

definition is_type_specifier :: "parser \<Rightarrow> bool" where
  "is_type_specifier p \<longleftrightarrow> at_word p \<and>
     (pk_text (current_token p) \<in> set type_specifier_words \<or>
      at_kind K_Identifier p \<and> pk_text (current_token p) \<in> typedef_names p)"

definition is_gnu_signed_keyword :: "parser \<Rightarrow> bool" where
  "is_gnu_signed_keyword p \<longleftrightarrow> at_word p \<and> (at_text ''__signed__'' p \<or> at_text ''__signed'' p)"

definition is_function_specifier :: "parser \<Rightarrow> bool" where
  "is_function_specifier p \<longleftrightarrow> at_word p \<and> pk_text (current_token p) \<in> set
     [''inline'', ''__inline'', ''__inline__'', ''_Noreturn'', ''noreturn'', ''__noreturn__'']"

definition is_storage_class_specifier :: "parser \<Rightarrow> bool" where
  "is_storage_class_specifier p \<longleftrightarrow> at_word p \<and> pk_text (current_token p) \<in> set
     [''typedef'', ''extern'', ''static'', ''auto'', ''register'', ''_Thread_local'', ''__thread'']"

definition type_qualifier_words :: "string list" where
  "type_qualifier_words =
     [''const'', ''restrict'', ''volatile'', ''__const'', ''__const__'', ''__restrict'', ''__restrict__'',
      ''__volatile'', ''__volatile__'', ''_Atomic'']"

definition is_type_qualifier :: "parser \<Rightarrow> bool" where
  "is_type_qualifier p \<longleftrightarrow> at_word p \<and> pk_text (current_token p) \<in> set type_qualifier_words"

definition is_declarator_start :: "parser \<Rightarrow> bool" where
  "is_declarator_start p \<longleftrightarrow> at_kind K_Identifier p \<or> at_punct ''('' p \<or> at_punct ''*'' p"

definition get_binary_operator :: "parser \<Rightarrow> nat \<times> u32" where
  "get_binary_operator p =
     (if \<not> at_kind K_Punctuator p then (0, 0)
      else case map_of
        [(''||'', (1, 13)), (''&&'', (2, 12)), (''|'', (3, 15)), (''^'', (4, 16)), (''&'', (5, 14)),
         (''=='', (6, 6)), (''!='', (6, 7)), (''<'', (7, 8)), (''>'', (7, 9)), (''<='', (7, 10)),
         (''>='', (7, 11)), (''<<'', (8, 17)), (''>>'', (8, 18)), (''+'', (9, 1)), (''-'', (9, 2)),
         (''*'', (10, 3)), (''/'', (10, 4)), (''%'', (10, 5))] (pk_text (current_token p))
      of Some r \<Rightarrow> r | None \<Rightarrow> (0, 0))"

definition assignment_operator :: "parser \<Rightarrow> u32 option" where
  "assignment_operator p =
     (if at_kind K_Punctuator p then map_of
        [(''='', 19), (''+='', 1), (''-='', 2), (''*='', 3), (''/='', 4), (''%='', 5), (''&='', 14),
         (''^='', 16), (''|='', 15), (''>>='', 18), (''<<='', 17)] (pk_text (current_token p))
      else None)"

section \<open>Nodes\<close>

definition of_outcome :: "('a option \<times> arena) outcome \<Rightarrow> 'a option pm" where
  "of_outcome r = (\<lambda>p. case r of
     Ret (x, A) \<Rightarrow> Parsed x (p\<lparr>p_arena := A\<rparr>) | Panic \<Rightarrow> Stuck Panicked | Fault \<Rightarrow> Stuck Faulted)"

text \<open>\<open>unwrap_or(NodeOffset::NULL)\<close>.\<close>

definition or_null :: "node_offset option \<Rightarrow> node_offset" where
  "or_null r = (case r of Some off \<Rightarrow> off | None \<Rightarrow> NULL)"

definition fresh_node :: "u16 \<Rightarrow> u32 \<Rightarrow> node_offset \<Rightarrow> node_offset \<Rightarrow> node_offset \<Rightarrow> cast_node" where
  "fresh_node k d par child next =
     \<lparr>kind = k, flags = IS_VALID, parent = par, first_child = child, last_child = NULL,
      next_sibling = next, prev_sibling = NULL, child_count = 0, node_data = d,
      node_source = source_unknown, payload_offset = NULL, payload_len = 0\<rparr>"

definition alloc_node :: "u16 \<Rightarrow> u32 \<Rightarrow> node_offset \<Rightarrow> node_offset \<Rightarrow> node_offset \<Rightarrow> node_offset pm" where
  "alloc_node k d par child next = (\<lambda>p.
     pbind (of_outcome (arena_alloc (p_arena p) (fresh_node k d par child next))) (\<lambda>r. pret (or_null r)) p)"

definition store_text :: "string \<Rightarrow> node_offset pm" where
  "store_text s = (\<lambda>p. pbind (of_outcome (store_string (p_arena p) s)) (\<lambda>r. pret (or_null r)) p)"

definition text_at_offset :: "node_offset \<Rightarrow> string option pm" where
  "text_at_offset off = (\<lambda>p. case get_string (p_arena p) off of
     Ret s \<Rightarrow> Parsed s p | Panic \<Rightarrow> Stuck Panicked | Fault \<Rightarrow> Stuck Faulted)"

text \<open>\<open>if let Some(n) = self.arena.get_mut(off) { n.next_sibling = v; }\<close>, and the same for the child.\<close>

definition set_next :: "node_offset \<Rightarrow> node_offset \<Rightarrow> unit pm" where
  "set_next off v = pmodify (\<lambda>p. p\<lparr>p_arena := arena_get_mut (p_arena p) off (\<lambda>n. n\<lparr>next_sibling := v\<rparr>)\<rparr>)"

definition set_first_child :: "node_offset \<Rightarrow> node_offset \<Rightarrow> unit pm" where
  "set_first_child off v = pmodify (\<lambda>p. p\<lparr>p_arena := arena_get_mut (p_arena p) off (\<lambda>n. n\<lparr>first_child := v\<rparr>)\<rparr>)"

definition link_siblings :: "node_offset \<times> node_offset \<Rightarrow> node_offset \<Rightarrow> (node_offset \<times> node_offset) pm" where
  "link_siblings chain node =
     (if node = NULL then pret chain
      else if fst chain = NULL then pret (node, node)
      else pbind (set_next (snd chain) node) (\<lambda>_. pret (fst chain, node)))"

text \<open>A node is parsed and linked to the end of a chain.\<close>

definition link_next :: "node_offset \<times> node_offset \<Rightarrow> node_offset pm \<Rightarrow> (node_offset \<times> node_offset) pm" where
  "link_next chain item = pbind item (link_siblings chain)"

text \<open>The walk to the end of a chain of siblings. It gets one round more than there are nodes.\<close>

primrec chain_end :: "nat \<Rightarrow> arena \<Rightarrow> node_offset \<Rightarrow> node_offset run" where
  "chain_end 0 A tail = NoFuel"
| "chain_end (Suc n) A tail =
     (case arena_get A tail of
        None \<Rightarrow> Done tail
      | Some node \<Rightarrow> if next_sibling node = NULL then Done tail else chain_end n A (next_sibling node))"

definition of_run :: "'a run \<Rightarrow> 'a pm" where
  "of_run r = (\<lambda>p. case r of Done x \<Rightarrow> Parsed x p | Crash \<Rightarrow> Stuck Panicked | NoFuel \<Rightarrow> Stuck OutOfFuel)"

definition node_rounds :: "parser \<Rightarrow> nat" where
  "node_rounds p = Suc (node_allocated (p_arena p))"

definition last_sibling :: "node_offset \<Rightarrow> node_offset pm" where
  "last_sibling tail = (\<lambda>p. of_run (chain_end (node_rounds p) (p_arena p) tail) p)"

definition append_sibling :: "node_offset \<Rightarrow> node_offset \<Rightarrow> unit pm" where
  "append_sibling chain node = pbind (last_sibling chain) (\<lambda>tail. set_next tail node)"

section \<open>Constant expressions\<close>

text \<open>\<open>as i64\<close> of a comparison is 0 or 1; the wrapping operations wrap, division truncates.\<close>

definition eval_binary_i64 :: "u32 \<Rightarrow> int \<Rightarrow> int \<Rightarrow> int option run" where
  "eval_binary_i64 op lhs rhs =
     (if op = 1 then Done (Some (to_i64 (lhs + rhs)))
      else if op = 2 then Done (Some (to_i64 (lhs - rhs)))
      else if op = 3 then Done (Some (to_i64 (lhs * rhs)))
      else if op = 4 then
        (if rhs = 0 then Done (Some 0)
         else if lhs = - (2 ^ 63) \<and> rhs = -1 then Crash else Done (Some (lhs sdiv rhs)))
      else if op = 5 then
        (if rhs = 0 then Done (Some 0)
         else if lhs = - (2 ^ 63) \<and> rhs = -1 then Crash else Done (Some (lhs smod rhs)))
      else if op = 6 then Done (Some (int_of_bool (lhs = rhs)))
      else if op = 7 then Done (Some (int_of_bool (lhs \<noteq> rhs)))
      else if op = 8 then Done (Some (int_of_bool (lhs < rhs)))
      else if op = 9 then Done (Some (int_of_bool (lhs > rhs)))
      else if op = 10 then Done (Some (int_of_bool (lhs \<le> rhs)))
      else if op = 11 then Done (Some (int_of_bool (lhs \<ge> rhs)))
      else if op = 12 then Done (Some (int_of_bool (lhs \<noteq> 0 \<and> rhs \<noteq> 0)))
      else if op = 13 then Done (Some (int_of_bool (lhs \<noteq> 0 \<or> rhs \<noteq> 0)))
      else if op = 14 then Done (Some (and lhs rhs))
      else if op = 15 then Done (Some (or lhs rhs))
      else if op = 16 then Done (Some (xor lhs rhs))
      else if op = 17 then Done (Some (to_i64 (lhs * 2 ^ shift_count (max rhs 0))))
      else if op = 18 then Done (Some (lhs div 2 ^ shift_count (max rhs 0)))
      else Done None)"

text \<open>Where the operands of a binary operator are: in the wrapper the parser makes, or as siblings.\<close>

definition binary_operands :: "arena \<Rightarrow> cast_node \<Rightarrow> node_offset \<times> node_offset" where
  "binary_operands A node =
     (case arena_get A (first_child node) of
        Some wrapper \<Rightarrow>
          if kind wrapper = 0 \<and> first_child wrapper \<noteq> NULL \<and> next_sibling wrapper \<noteq> NULL
          then (first_child wrapper, next_sibling wrapper)
          else (first_child node,
                if next_sibling node \<noteq> NULL then next_sibling node else next_sibling wrapper)
      | None \<Rightarrow> (first_child node, NULL))"

definition skipped_in_cast :: "u16 \<Rightarrow> bool" where
  "skipped_in_cast k \<longleftrightarrow> 1 \<le> k \<and> k \<le> 16 \<or> k = 83 \<or> k = 84 \<or> 101 \<le> k \<and> k \<le> 106 \<or> k = 200"

text \<open>The loop of a cast: the first sibling that is not a specifier, if there is one.\<close>

primrec cast_operand :: "nat \<Rightarrow> arena \<Rightarrow> node_offset \<Rightarrow> node_offset option run" where
  "cast_operand 0 A tail = NoFuel"
| "cast_operand (Suc n) A tail =
     (case arena_get A tail of
        None \<Rightarrow> Done None
      | Some child \<Rightarrow>
          if next_sibling child = NULL then Done None
          else case arena_get A (next_sibling child) of
            None \<Rightarrow> Done None
          | Some next_node \<Rightarrow>
              if skipped_in_cast (kind next_node) then cast_operand n A (next_sibling child)
              else Done (Some (next_sibling child)))"

text \<open>\<open>x?\<close> on an \<open>Option\<close> in a function that returns one.\<close>

definition when_some :: "'a option pm \<Rightarrow> ('a \<Rightarrow> 'b option pm) \<Rightarrow> 'b option pm" where
  "when_some m k = pbind m (\<lambda>r. case r of None \<Rightarrow> pret None | Some x \<Rightarrow> k x)"

definition arena_node :: "node_offset \<Rightarrow> cast_node option pm" where
  "arena_node off = pget (\<lambda>p. arena_get (p_arena p) off)"

definition eval_unary_i64 :: "u32 \<Rightarrow> int \<Rightarrow> int" where
  "eval_unary_i64 op v =
     (if op = 1 then v else if op = 2 then (if v = 0 then 1 else 0) else if op = 3 then - v - 1 else v)"

text \<open>One node of \<open>eval_constant_i64\<close>, given the evaluation of the nodes below.\<close>

definition eval_node :: "(node_offset \<Rightarrow> int option pm) \<Rightarrow> cast_node \<Rightarrow> int option pm" where
  "eval_node ev node =
     (if kind node = 60 then
        when_some (text_at_offset (node_data node)) (\<lambda>name. pget (\<lambda>p. constant_ints p name))
      else if kind node = 61 \<or> kind node = 80 then pret (Some (int (node_data node)))
      else if kind node = 65 then
        when_some (ev (first_child node)) (\<lambda>v. pret (Some (eval_unary_i64 (node_data node) v)))
      else if kind node = 64 then
        pbind (pget (\<lambda>p. binary_operands (p_arena p) node)) (\<lambda>(lhs_off, rhs_off).
        when_some (ev lhs_off) (\<lambda>lhs.
        when_some (ev rhs_off) (\<lambda>rhs.
        of_run (eval_binary_i64 (node_data node) lhs rhs))))
      else if kind node = 66 then
        when_some (ev (first_child node)) (\<lambda>c.
        when_some (arena_node (next_sibling node)) (\<lambda>wrapper.
        if c \<noteq> 0 then ev (first_child wrapper) else ev (next_sibling wrapper)))
      else if kind node = 70 then
        pbind (\<lambda>p. of_run (cast_operand (node_rounds p) (p_arena p) (first_child node)) p) (\<lambda>operand.
        case operand of Some next \<Rightarrow> ev next | None \<Rightarrow> ev (first_child node))
      else if kind node = 72 then ev (next_sibling node)
      else pret None)"

primrec eval_constant_at :: "nat \<Rightarrow> node_offset \<Rightarrow> int option pm" where
  "eval_constant_at 0 = (\<lambda>off. pstuck OutOfFuel)"
| "eval_constant_at (Suc n) = (\<lambda>off. when_some (arena_node off) (eval_node (eval_constant_at n)))"

definition eval_constant_i64 :: "node_offset \<Rightarrow> int option pm" where
  "eval_constant_i64 off = (\<lambda>p. eval_constant_at (node_rounds p) off p)"

definition eval_constant_u32 :: "node_offset \<Rightarrow> u32 option pm" where
  "eval_constant_u32 off =
     when_some (eval_constant_i64 off) (\<lambda>v. pret (if 0 \<le> v \<and> v < 2 ^ 32 then Some (nat v) else None))"

section \<open>Specifier chains and declarators\<close>

record spec_scan =
  has_unsigned :: bool
  has_signed :: bool
  base_kind :: u16
  long_count :: nat
  struct_data :: u32
  is_struct_or_union :: bool
  is_pointer_decl :: bool

definition spec_scan_start :: spec_scan where
  "spec_scan_start =
     \<lparr>has_unsigned = False, has_signed = False, base_kind = 2, long_count = 0, struct_data = 0,
      is_struct_or_union = False, is_pointer_decl = False\<rparr>"

definition scan_spec :: "cast_node \<Rightarrow> spec_scan \<Rightarrow> spec_scan pm" where
  "scan_spec node s =
     (let k = kind node in
      if k = 13 then pret (s\<lparr>has_unsigned := True\<rparr>)
      else if k = 12 then pret (s\<lparr>has_signed := True\<rparr>)
      else if k \<in> {3, 10, 83, 84, 1, 14, 16} then pret (s\<lparr>base_kind := k\<rparr>)
      else if k = 2 then pret (if base_kind s \<noteq> 11 then s\<lparr>base_kind := 2\<rparr> else s)
      else if k = 11 then pret (s\<lparr>long_count := long_count s + 1, base_kind := 11\<rparr>)
      else if k = 4 \<or> k = 5 then pret (s\<lparr>base_kind := k, struct_data := node_data node, is_struct_or_union := True\<rparr>)
      else if k = 7 then pret (s\<lparr>is_pointer_decl := True\<rparr>)
      else if 101 \<le> k \<and> k \<le> 106 \<or> k = 200 \<or> k = 6 then pret s
      else if node_data node = 0 then pret s
      else pbind (text_at_offset (node_data node)) (\<lambda>name.
        pget (\<lambda>p. case Option.bind name (typedef_kinds p) of
          Some (kd, tag) \<Rightarrow>
            (if kd = 4 \<or> kd = 5 then s\<lparr>struct_data := tag, is_struct_or_union := True\<rparr> else s)\<lparr>base_kind := kd\<rparr>
        | None \<Rightarrow> s)))"

primrec scan_specs :: "nat \<Rightarrow> node_offset \<Rightarrow> spec_scan \<Rightarrow> spec_scan pm" where
  "scan_specs 0 off s = pstuck OutOfFuel"
| "scan_specs (Suc n) off s =
     (if off = NULL then pret s
      else pbind (arena_node off) (\<lambda>r. case r of
        None \<Rightarrow> pret s
      | Some node \<Rightarrow> pbind (scan_spec node s) (\<lambda>t. scan_specs n (next_sibling node) t)))"

definition resolved_kind :: "spec_scan \<Rightarrow> u16" where
  "resolved_kind s =
     (if long_count s \<ge> 2 then 11
      else if has_unsigned s then (if base_kind s \<in> {3, 10, 11} then base_kind s else 13)
      else if has_signed s then (if base_kind s \<in> {3, 10, 11} then base_kind s else 2)
      else base_kind s)"

definition resolve_specifier_chain_kind :: "node_offset \<Rightarrow> (u16 \<times> u32) pm" where
  "resolve_specifier_chain_kind first_spec =
     pbind (\<lambda>p. scan_specs (node_rounds p) first_spec spec_scan_start p) (\<lambda>s.
     pret (if is_pointer_decl s then (7, 0)
           else if is_struct_or_union s then (base_kind s, struct_data s)
           else (resolved_kind s, 0)))"

primrec find_name_at :: "nat \<Rightarrow> node_offset \<Rightarrow> string option pm" where
  "find_name_at 0 off = pstuck OutOfFuel"
| "find_name_at (Suc n) off =
     when_some (arena_node off) (\<lambda>node.
       if kind node = 60 then text_at_offset (node_data node)
       else
         pbind (if first_child node \<noteq> NULL then find_name_at n (first_child node) else pret None) (\<lambda>name.
         case name of Some nm \<Rightarrow> pret (Some nm)
         | None \<Rightarrow> if next_sibling node \<noteq> NULL then find_name_at n (next_sibling node) else pret None))"

definition find_declarator_name :: "node_offset \<Rightarrow> string option pm" where
  "find_declarator_name off = (\<lambda>p. find_name_at (node_rounds p) off p)"

primrec has_pointer_at :: "nat \<Rightarrow> node_offset \<Rightarrow> bool pm" where
  "has_pointer_at 0 off = pstuck OutOfFuel"
| "has_pointer_at (Suc n) off =
     pbind (arena_node off) (\<lambda>r. case r of
       None \<Rightarrow> pret False
     | Some node \<Rightarrow>
         if kind node = 7 then pret True
         else
           pbind (if first_child node \<noteq> NULL then has_pointer_at n (first_child node) else pret False) (\<lambda>b.
           if b then pret True
           else if next_sibling node \<noteq> NULL then has_pointer_at n (next_sibling node) else pret False))"

definition declarator_contains_pointer :: "node_offset \<Rightarrow> bool pm" where
  "declarator_contains_pointer off = (\<lambda>p. has_pointer_at (node_rounds p) off p)"

text \<open>Recording the name a typedef declares, with the kind its specifiers and declarator give.\<close>

definition register_typedef_name :: "node_offset \<Rightarrow> node_offset \<Rightarrow> unit pm" where
  "register_typedef_name specifiers declarator =
     pbind (find_declarator_name declarator) (\<lambda>r. case r of
       None \<Rightarrow> pret ()
     | Some name \<Rightarrow>
         pbind (pmodify (\<lambda>p. p\<lparr>typedef_names := insert name (typedef_names p)\<rparr>)) (\<lambda>_.
         pbind (resolve_specifier_chain_kind specifiers) (\<lambda>(knd, tag_off).
         pbind (declarator_contains_pointer declarator) (\<lambda>ptr.
         pmodify (\<lambda>p. p\<lparr>typedef_kinds := (typedef_kinds p)(name \<mapsto> (if ptr then 7 else knd, tag_off))\<rparr>)))))"

end
