(* ===== verification/ParserExpr.thy ===== *)
theory ParserExpr
  imports ParserState
begin

text \<open>
  Expressions, attributes and the GNU extensions in expressions (\<open>src/src/frontend/parser.rs\<close>,
  \<open>src/src/frontend/gnu_extensions.rs\<close>).

  The functions of the parser call each other in a circle. The circle is opened at eleven of them,
  the constructors of \<open>nonterm\<close>: a definition below takes as \<open>P\<close> the parser of each of these and
  calls every other function directly. \<open>ParserStmt\<close> closes the circle.
\<close>

datatype nonterm =
    N_Expression
  | N_Assignment
  | N_Conditional
  | N_BinaryOp nat
  | N_Unary
  | N_Cast
  | N_Initializer
  | N_Specifiers
  | N_Declarator
  | N_Declaration
  | N_Statement

type_synonym nonterms = "nonterm \<Rightarrow> node_offset pm"

abbreviation leaf :: "u16 \<Rightarrow> u32 \<Rightarrow> node_offset pm" where
  "leaf k d \<equiv> alloc_node k d NULL NULL NULL"

definition current_text :: "string pm" where
  "current_text = look (\<lambda>p. pk_text (current_token p))"

section \<open>Attributes\<close>

datatype attr_kind =
    A_Noreturn | A_Noinline | A_AlwaysInline | A_Unused | A_Used
  | A_Aligned u64
  | A_Packed | A_Weak
  | A_Section string
  | A_Constructor | A_Destructor
  | A_Format string u32 u32
  | A_Nonnull | A_Pure | A_Const | A_Hot | A_Cold
  | A_Visibility string
  | A_Other string

definition attr_from_name :: "string \<Rightarrow> attr_kind" where
  "attr_from_name name =
     (case map_of
        [(''noreturn'', A_Noreturn), (''noinline'', A_Noinline), (''always_inline'', A_AlwaysInline),
         (''unused'', A_Unused), (''used'', A_Used), (''aligned'', A_Aligned 0), (''packed'', A_Packed),
         (''weak'', A_Weak), (''section'', A_Section []), (''constructor'', A_Constructor),
         (''destructor'', A_Destructor), (''format'', A_Format [] 0 0), (''nonnull'', A_Nonnull),
         (''pure'', A_Pure), (''const'', A_Const), (''hot'', A_Hot), (''cold'', A_Cold),
         (''visibility'', A_Visibility [])] name
      of Some k \<Rightarrow> k | None \<Rightarrow> A_Other name)"

fun attr_data :: "attr_kind \<Rightarrow> u32" where
  "attr_data (A_Aligned n) = n mod 2 ^ 32"
| "attr_data _ = 0"

text \<open>\<open>str::parse::<u32>\<close> and \<open>u32::from_str_radix\<close>: an optional plus sign, digits, no overflow.\<close>

definition u32_from_str :: "nat \<Rightarrow> string \<Rightarrow> u32 option" where
  "u32_from_str radix s =
     (let ds = (if take 1 s = ''+'' then drop 1 s else s) in
      if ds \<noteq> [] \<and> list_all (\<lambda>c. digit_value c < radix) ds \<and> radix_value radix ds < 2 ^ 32
      then Some (radix_value radix ds) else None)"

definition or_zero :: "u32 option \<Rightarrow> u32" where
  "or_zero r = (case r of Some v \<Rightarrow> v | None \<Rightarrow> 0)"

definition attribute_argument :: "nonterms \<Rightarrow> node_offset pm" where
  "attribute_argument P =
     pif (at_kind K_StringLiteral)
       (pbind current_text (\<lambda>s. pbind p_advance (\<lambda>_. pbind (store_text s) (\<lambda>off. leaf 63 off))))
     (pif (at_kind K_IntConstant)
       (pbind current_text (\<lambda>s. pbind p_advance (\<lambda>_. leaf 61 (or_zero (u32_from_str 10 s)))))
     (P N_Expression))"

definition attribute_arguments :: "nonterms \<Rightarrow> node_offset pm" where
  "attribute_arguments P =
     pbind (prepeat (\<lambda>chain.
       pif (at_punct '')'') (break chain)
         (pbind (link_next chain (attribute_argument P)) (\<lambda>chain.
          pif (at_punct '','') (pbind p_advance (\<lambda>_. again chain)) (break chain)))) (NULL, NULL)) (\<lambda>chain.
     pbind (expect '')'') (\<lambda>_. pret (fst chain)))"

definition parse_single_attribute :: "nonterms \<Rightarrow> node_offset pm" where
  "parse_single_attribute P =
     pif (\<lambda>p. \<not> at_word p) (fail_here ''Expected attribute name'')
       (pbind current_text (\<lambda>name.
        pbind p_advance (\<lambda>_.
        pbind (store_text name) (\<lambda>name_offset.
        pbind (skip_punctuator ''('') (\<lambda>b.
        pbind (if b then attribute_arguments P else pret NULL) (\<lambda>first_arg.
        alloc_node 200 (attr_data (attr_from_name name)) name_offset first_arg NULL))))))"

definition parse_attribute_list :: "nonterms \<Rightarrow> node_offset pm" where
  "parse_attribute_list P =
     pbind (expect ''('') (\<lambda>_.
     pbind (expect ''('') (\<lambda>_.
     pbind (prepeat (\<lambda>chain.
       pif (at_punct '')'') (break chain)
         (pbind (link_next chain (parse_single_attribute P)) (\<lambda>chain.
          pif (at_punct '','') (pbind p_advance (\<lambda>_. again chain)) (break chain)))) (NULL, NULL)) (\<lambda>chain.
     pbind (expect '')'') (\<lambda>_.
     pbind (expect '')'') (\<lambda>_.
     alloc_node 200 0 NULL (fst chain) NULL)))))"

section \<open>GNU expressions\<close>

definition parse_typeof_expr :: "nonterms \<Rightarrow> node_offset pm" where
  "parse_typeof_expr P =
     pbind (expect ''('') (\<lambda>_.
     pbind (pif is_type_specifier (P N_Specifiers) (P N_Expression)) (\<lambda>inner.
     pbind (expect '')'') (\<lambda>_.
     alloc_node 201 0 NULL inner NULL)))"

text \<open>
  The common end of the rounds of the two loops over the items of a block: the item is linked, or
  after an error a token is skipped; a token is skipped also when nothing has been consumed.
\<close>

definition link_item :: "node_offset \<times> node_offset \<Rightarrow> node_offset pm \<Rightarrow> (node_offset \<times> node_offset) pm" where
  "link_item chain item =
     pbind (pcatch item) (\<lambda>r. case r of
       Inr off \<Rightarrow> link_siblings chain off
     | Inl e \<Rightarrow> pbind p_advance (\<lambda>_. pret chain))"

definition advance_if_stuck :: "nat \<Rightarrow> unit pm" where
  "advance_if_stuck start = pif (\<lambda>p. p_current p = start) p_advance (pret ())"

definition statement_expr_round :: "nonterms \<Rightarrow> nat \<times> node_offset \<times> node_offset \<Rightarrow>
    ((nat \<times> node_offset \<times> node_offset) + (node_offset \<times> node_offset)) pm" where
  "statement_expr_round P s = (let safety = fst s + 1; chain = snd s in
     pif (\<lambda>p. safety > 10000 \<or> is_at_end p) (break chain)
     (pif (at_punct ''}'') (break chain)
     (pbind (skip_punctuator '';'') (\<lambda>b.
      if b then pbind (link_next chain (leaf 48 0)) (\<lambda>chain. again (safety, chain))
      else
        pbind (pget p_current) (\<lambda>start.
        pbind (pif (\<lambda>p. is_type_specifier p \<or> is_storage_class_specifier p)
                 (link_item chain (P N_Declaration)) (link_item chain (P N_Expression))) (\<lambda>chain.
        pbind (advance_if_stuck start) (\<lambda>_.
        pbind (skip_punctuator '';'') (\<lambda>_. again (safety, chain)))))))))"

definition parse_statement_expr :: "nonterms \<Rightarrow> node_offset pm" where
  "parse_statement_expr P =
     pbind (expect ''('') (\<lambda>_.
     pbind (expect ''{'') (\<lambda>_.
     pbind (prepeat (statement_expr_round P) (0, NULL, NULL)) (\<lambda>chain.
     pbind (expect ''}'') (\<lambda>_.
     pbind (expect '')'') (\<lambda>_.
     alloc_node 202 0 NULL (fst chain) NULL)))))"

definition parse_label_addr :: "node_offset pm" where
  "parse_label_addr =
     pbind p_advance (\<lambda>_.
     pif (at_kind K_Identifier)
       (pbind current_text (\<lambda>label. pbind p_advance (\<lambda>_. pbind (store_text label) (\<lambda>off. leaf 203 off))))
       (fail_here ''Expected label name after &&''))"

definition parse_extension_wrapper :: "nonterms \<Rightarrow> node_offset pm" where
  "parse_extension_wrapper P =
     pbind p_advance (\<lambda>_.
     pbind (pif (\<lambda>p. is_type_specifier p \<or> is_storage_class_specifier p)
              (pbind (P N_Specifiers) (\<lambda>spec.
               pif is_declarator_start
                 (pbind (P N_Declarator) (\<lambda>decl. alloc_node 20 0 NULL spec decl))
                 (pret spec)))
              (P N_Expression)) (\<lambda>inner.
     alloc_node 206 0 NULL inner NULL))"

datatype builtin_kind =
    B_Expect | B_ConstantP | B_TypesCompatibleP | B_ChooseExpr | B_OffsetOf | B_VaArg
  | B_Memcpy | B_Memset | B_Strlen
  | B_Other string

definition builtin_from_name :: "string \<Rightarrow> builtin_kind" where
  "builtin_from_name name =
     (case map_of
        [(''__builtin_expect'', B_Expect), (''__builtin_constant_p'', B_ConstantP),
         (''__builtin_types_compatible_p'', B_TypesCompatibleP),
         (''__builtin_choose_expr'', B_ChooseExpr), (''__builtin_offsetof'', B_OffsetOf),
         (''__builtin_va_arg'', B_VaArg), (''__builtin_memcpy'', B_Memcpy),
         (''__builtin_memset'', B_Memset), (''__builtin_strlen'', B_Strlen)] name
      of Some k \<Rightarrow> k | None \<Rightarrow> B_Other name)"

definition is_builtin :: "string \<Rightarrow> bool" where
  "is_builtin name = starts_with ''__builtin_'' name"

definition text_in :: "string list \<Rightarrow> parser \<Rightarrow> bool" where
  "text_in ws p \<longleftrightarrow> pk_text (current_token p) \<in> set ws"

definition skip_words :: "string list \<Rightarrow> unit pm" where
  "skip_words ws = prepeat (\<lambda>_. pif (text_in ws) (pbind p_advance (\<lambda>_. again ())) (break ())) ()"

text \<open>The counters of stars are \<open>u32\<close>.\<close>

definition count_star :: "u32 \<Rightarrow> u32 pm" where
  "count_star depth = (if depth + 1 < 2 ^ 32 then pret (depth + 1) else pstuck Panicked)"

text \<open>The stars of an abstract pointer declarator, each with the qualifiers after it.\<close>

definition abstract_pointer_depth :: "u32 pm" where
  "abstract_pointer_depth =
     prepeat (\<lambda>depth.
       pif (at_punct ''*'')
         (pbind p_advance (\<lambda>_. pbind (count_star depth) (\<lambda>depth.
          pbind (skip_words type_qualifier_words) (\<lambda>_. again depth))))
         (break depth)) 0"

definition builtin_takes_type :: "builtin_kind \<Rightarrow> nat \<Rightarrow> bool" where
  "builtin_takes_type k i \<longleftrightarrow>
     k = B_TypesCompatibleP \<and> i < 2 \<or> k = B_OffsetOf \<and> i = 0 \<or> k = B_VaArg \<and> i = 1"

definition builtin_argument :: "nonterms \<Rightarrow> builtin_kind \<Rightarrow> nat \<Rightarrow> node_offset pm" where
  "builtin_argument P k arg_index =
     (if builtin_takes_type k arg_index then
        pif (\<lambda>p. is_type_specifier p \<or> text_in type_qualifier_words p)
          (pbind (P N_Specifiers) (\<lambda>spec.
           pbind abstract_pointer_depth (\<lambda>depth.
           if depth > 0 then alloc_node 7 depth NULL spec NULL else pret spec)))
          (P N_Assignment)
      else P N_Assignment)"

definition parse_builtin_call :: "nonterms \<Rightarrow> string \<Rightarrow> node_offset pm" where
  "parse_builtin_call P name =
     pbind (store_text name) (\<lambda>name_offset.
     pbind (expect ''('') (\<lambda>_.
     pbind (pif (\<lambda>p. \<not> at_punct '')'' p)
       (prepeat (\<lambda>(arg_index, chain).
          pbind (link_next chain (builtin_argument P (builtin_from_name name) arg_index)) (\<lambda>chain.
          pif (at_punct '','') (pbind p_advance (\<lambda>_. again (arg_index + 1, chain))) (break chain))) (0, NULL, NULL))
       (pret (NULL, NULL))) (\<lambda>chain.
     pbind (expect '')'') (\<lambda>_.
     alloc_node 204 name_offset NULL (fst chain) NULL))))"

section \<open>Literals\<close>

definition int_constant_value :: "string \<Rightarrow> u32" where
  "int_constant_value text0 =
     (let text = rev (dropWhile (\<lambda>c. c \<in> set ''uUlL'') (rev text0)) in
      if starts_with ''0x'' text \<or> starts_with ''0X'' text then or_zero (u32_from_str 16 (drop 2 text))
      else if starts_with ''0'' text \<and> length text > 1 then or_zero (u32_from_str 8 (drop 1 text))
      else or_zero (u32_from_str 10 text))"

definition quoted_by :: "char \<Rightarrow> string \<Rightarrow> bool" where
  "quoted_by q text \<longleftrightarrow> take 1 text = [q] \<and> take 1 (rev text) = [q]"

definition strip_ends :: "string \<Rightarrow> string" where
  "strip_ends text = piece text 1 (length text - 1)"

text \<open>The escapes with one letter. \<open>simple_escape\<close> has those of both loops over a string literal.\<close>

definition simple_escape :: "char \<Rightarrow> nat option" where
  "simple_escape c = map_of
     [(CHR ''n'', 10), (CHR ''t'', 9), (CHR ''r'', 13), (CHR ''0'', 0), (CHR 0x5C, 92), (CHR 0x27, 39),
      (CHR 0x22, 34)] c"

definition control_escape :: "char \<Rightarrow> nat option" where
  "control_escape c = map_of [(CHR ''a'', 7), (CHR ''b'', 8), (CHR ''f'', 12), (CHR ''v'', 11)] c"

definition either_escape :: "char \<Rightarrow> nat option" where
  "either_escape c = (case simple_escape c of Some v \<Rightarrow> Some v | None \<Rightarrow> control_escape c)"

definition char_constant_value :: "string \<Rightarrow> u32" where
  "char_constant_value text =
     (if length text \<ge> 3 \<and> quoted_by (CHR 0x27) text then
        let inner = strip_ends text in
        if take 1 inner = [CHR 0x5C] \<and> length inner \<ge> 2 then
          let c = inner ! 1 in
          (case either_escape c of
             Some v \<Rightarrow> v
           | None \<Rightarrow> if c = CHR ''x'' then or_zero (u32_from_str 16 (drop 2 inner)) else ord c)
        else if inner \<noteq> [] then ord (inner ! 0)
        else 0
      else 0)"

text \<open>The loop over the characters of a string literal, for a set of escapes.\<close>

fun unescape :: "(char \<Rightarrow> nat option) \<Rightarrow> string \<Rightarrow> string" where
  "unescape esc [] = []"
| "unescape esc (c # cs) =
     (if c = CHR 0x5C then
        (case cs of
           [] \<Rightarrow> [CHR 0x5C]
         | d # ds \<Rightarrow>
             (case esc d of Some v \<Rightarrow> char_of v # unescape esc ds | None \<Rightarrow> CHR 0x5C # d # unescape esc ds))
      else c # unescape esc cs)"

definition quoted_string :: "string \<Rightarrow> bool" where
  "quoted_string text \<longleftrightarrow> length text \<ge> 2 \<and> quoted_by (CHR 0x22) text"

definition first_string_value :: "string \<Rightarrow> string" where
  "first_string_value text = (if quoted_string text then unescape either_escape (strip_ends text) else text)"

definition next_string_value :: "string \<Rightarrow> string" where
  "next_string_value text = unescape simple_escape (if quoted_string text then strip_ends text else text)"

definition adjacent_strings :: "string \<Rightarrow> string pm" where
  "adjacent_strings inner =
     prepeat (\<lambda>full_string.
       pbind (pget (\<lambda>p. p_current p < length (p_tokens p) \<and> at_kind K_StringLiteral p)) (\<lambda>b.
       if b then pbind current_text (\<lambda>next_text. pbind p_advance (\<lambda>_. again (full_string @ next_string_value next_text)))
       else break full_string)) inner"

section \<open>Primary and postfix expressions\<close>

definition peek_punct :: "string \<Rightarrow> parser \<Rightarrow> bool" where
  "peek_punct s p \<longleftrightarrow>
     (case peek_token 1 p of Some t \<Rightarrow> pk_kind t = K_Punctuator \<and> pk_text t = s | None \<Rightarrow> False)"

definition name_node :: "node_offset pm" where
  "name_node = pbind current_text (\<lambda>name. pbind p_advance (\<lambda>_. pbind (store_text name) (\<lambda>off. leaf 60 off)))"

definition parse_atom :: "nonterms \<Rightarrow> node_offset pm" where
  "parse_atom P =
     pbind (look current_token) (\<lambda>token. case pk_kind token of
       K_Identifier \<Rightarrow>
         if is_builtin (pk_text token) then pbind p_advance (\<lambda>_. parse_builtin_call P (pk_text token)) else name_node
     | K_IntConstant \<Rightarrow> pbind p_advance (\<lambda>_. leaf 61 (int_constant_value (pk_text token)))
     | K_CharConstant \<Rightarrow> pbind p_advance (\<lambda>_. leaf 62 (char_constant_value (pk_text token)))
     | K_StringLiteral \<Rightarrow>
         pbind p_advance (\<lambda>_.
         pbind (adjacent_strings (first_string_value (pk_text token))) (\<lambda>s.
         pbind (store_text s) (\<lambda>off. leaf 63 off)))
     | K_Punctuator \<Rightarrow>
         if pk_text token = ''('' then
           pbind p_advance (\<lambda>_. pbind (P N_Expression) (\<lambda>expr. pbind (expect '')'') (\<lambda>_. pret expr)))
         else pret NULL
     | _ \<Rightarrow> pret NULL)"

definition parse_primary_expression :: "nonterms \<Rightarrow> node_offset pm" where
  "parse_primary_expression P =
     pif (\<lambda>p. at_punct ''('' p \<and> peek_punct ''{'' p) (parse_statement_expr P)
     (pif (\<lambda>p. at_word p \<and> (at_text ''typeof'' p \<or> at_text ''__typeof__'' p)) (parse_typeof_expr P)
     (pif (\<lambda>p. at_word p \<and> at_text ''__extension__'' p) (parse_extension_wrapper P)
     (pif (\<lambda>p. at_word p \<and> is_builtin (pk_text (current_token p)))
        (pbind current_text (\<lambda>name. pbind p_advance (\<lambda>_. parse_builtin_call P name)))
     (pif (\<lambda>p. at_punct ''&'' p \<and> peek_punct ''&'' p) parse_label_addr
     (parse_atom P)))))"

definition call_argument :: "nonterms \<Rightarrow> node_offset pm" where
  "call_argument P = pbind (P N_Assignment) (\<lambda>arg. alloc_node 74 0 NULL arg NULL)"

definition parse_argument_expression_list :: "nonterms \<Rightarrow> node_offset pm" where
  "parse_argument_expression_list P =
     pif (\<lambda>p. \<not> at_text '')'' p)
       (pbind (prepeat (\<lambda>chain.
          pbind (link_next chain (call_argument P)) (\<lambda>chain.
          pif (at_text '')'') (break chain)
            (pbind (skip_punctuator '','') (\<lambda>b. if b then again chain else break chain)))) (NULL, NULL)) (\<lambda>chain.
        pret (fst chain)))
       (pret NULL)"

text \<open>A member access after its \<open>.\<close> or \<open>->\<close>; without a name the operator is dropped.\<close>

definition member_access :: "u32 \<Rightarrow> node_offset \<Rightarrow> node_offset pm" where
  "member_access arrow expr =
     pif (at_kind K_Identifier)
       (pbind current_text (\<lambda>member.
        pbind p_advance (\<lambda>_.
        pbind (store_text member) (\<lambda>off. alloc_node 69 (or off arrow) NULL expr NULL))))
       (pret expr)"

definition call_node :: "nonterms \<Rightarrow> node_offset \<Rightarrow> node_offset pm" where
  "call_node P expr =
     pbind (parse_argument_expression_list P) (\<lambda>args.
     pbind (expect '')'') (\<lambda>_.
     pbind (if args \<noteq> NULL then set_next expr args else pret ()) (\<lambda>_.
     alloc_node 67 0 NULL expr NULL)))"

definition index_node :: "nonterms \<Rightarrow> node_offset \<Rightarrow> node_offset pm" where
  "index_node P expr =
     pbind (P N_Expression) (\<lambda>index.
     pbind (expect '']'') (\<lambda>_.
     alloc_node 68 0 NULL expr index))"

definition postfix_round :: "nonterms \<Rightarrow> node_offset \<Rightarrow> (node_offset + node_offset) pm" where
  "postfix_round P expr =
     pbind (skip_punctuator ''['') (\<lambda>b. if b then pbind (index_node P expr) again else
     pbind (skip_punctuator ''('') (\<lambda>b. if b then pbind (call_node P expr) again else
     pbind (skip_punctuator ''.'') (\<lambda>b. if b then pbind (member_access 0 expr) again else
     pbind (skip_punctuator ''->'') (\<lambda>b. if b then pbind (member_access (2 ^ 31) expr) again else
     pbind (skip_punctuator ''++'') (\<lambda>b. if b then pbind (alloc_node 65 6 NULL expr NULL) again else
     pbind (skip_punctuator ''--'') (\<lambda>b. if b then pbind (alloc_node 65 7 NULL expr NULL) again else
     break expr))))))"

definition parse_postfix_expression :: "nonterms \<Rightarrow> node_offset pm" where
  "parse_postfix_expression P =
     pbind (parse_primary_expression P) (\<lambda>expr. prepeat (postfix_round P) expr)"

section \<open>Unary expressions and casts\<close>

definition parse_sizeof_expression :: "nonterms \<Rightarrow> node_offset pm" where
  "parse_sizeof_expression P =
     pbind p_advance (\<lambda>_.
     pbind (skip_punctuator ''('') (\<lambda>b.
     if b then
       pif is_type_specifier
         (pbind (P N_Specifiers) (\<lambda>specifiers.
          pbind (expect '')'') (\<lambda>_. alloc_node 71 0 NULL specifiers NULL)))
         (pbind (P N_Expression) (\<lambda>expr.
          pbind (expect '')'') (\<lambda>_. alloc_node 71 1 NULL expr NULL)))
     else pbind (P N_Unary) (\<lambda>operand. alloc_node 71 1 NULL operand NULL)))"

text \<open>The prefix operators: the code of the operator, and the function that parses its operand.\<close>

definition prefix_operator :: "parser \<Rightarrow> (u32 \<times> nonterm) option" where
  "prefix_operator p =
     (if at_kind K_Punctuator p then map_of
        [(''++'', (6, N_Unary)), (''--'', (7, N_Unary)), (''+'', (0, N_Unary)), (''-'', (1, N_Unary)),
         (''!'', (2, N_Cast)), (''~'', (3, N_Cast)), (''&'', (4, N_Cast)), (''*'', (5, N_Cast))]
        (pk_text (current_token p))
      else None)"

definition parse_unary_expression :: "nonterms \<Rightarrow> node_offset pm" where
  "parse_unary_expression P =
     pif (\<lambda>p. at_kind K_Keyword p \<and> at_text ''sizeof'' p) (parse_sizeof_expression P)
       (pbind (look prefix_operator) (\<lambda>r. case r of
          Some (code, nt) \<Rightarrow>
            pbind p_advance (\<lambda>_. pbind (P nt) (\<lambda>operand. alloc_node 65 code NULL operand NULL))
        | None \<Rightarrow> parse_postfix_expression P))"

text \<open>A cast after its parenthesised type: a compound literal, or the operand linked to the type.\<close>

definition cast_rest :: "nonterms \<Rightarrow> node_offset \<Rightarrow> node_offset pm" where
  "cast_rest P cast_type =
     pif (at_punct ''{'')
       (pbind (P N_Initializer) (\<lambda>init_list. alloc_node 212 init_list NULL cast_type NULL))
       (pbind (P N_Cast) (\<lambda>expr.
        pbind (append_sibling cast_type expr) (\<lambda>_. alloc_node 70 0 NULL cast_type NULL)))"

definition cast_type_name :: "nonterms \<Rightarrow> node_offset pm" where
  "cast_type_name P =
     pbind (P N_Specifiers) (\<lambda>type_spec.
     pif (at_text ''*'')
       (pbind (P N_Declarator) (\<lambda>ptr_decl.
        pbind (if ptr_decl \<noteq> NULL then append_sibling type_spec ptr_decl else pret ()) (\<lambda>_. pret type_spec)))
       (pret type_spec))"

definition parenthesised :: "nonterms \<Rightarrow> node_offset pm" where
  "parenthesised P = pbind (P N_Expression) (\<lambda>expr. pbind (expect '')'') (\<lambda>_. pret expr))"

definition parse_cast_expression :: "nonterms \<Rightarrow> node_offset pm" where
  "parse_cast_expression P =
     pbind (skip_punctuator ''('') (\<lambda>b.
     if b then
       pif (\<lambda>p. is_type_specifier p \<or> is_type_qualifier p)
         (pbind (cast_type_name P) (\<lambda>cast_type.
          pbind (skip_punctuator '')'') (\<lambda>b.
          if b then cast_rest P cast_type else parenthesised P)))
         (parenthesised P)
     else parse_unary_expression P)"

section \<open>Binary, conditional, assignment and comma expressions\<close>

definition binary_round :: "nonterms \<Rightarrow> nat \<Rightarrow> node_offset \<Rightarrow> (node_offset + node_offset) pm" where
  "binary_round P precedence left =
     pbind (look get_binary_operator) (\<lambda>(op_prec, op_code).
     if op_prec = 0 \<or> op_prec \<le> precedence then break left
     else
       pbind p_advance (\<lambda>_.
       pbind (P (N_BinaryOp (op_prec - 1))) (\<lambda>right.
       pbind (alloc_node 0 0 NULL left right) (\<lambda>operands.
       pbind (alloc_node 64 op_code NULL operands NULL) again))))"

definition parse_binary_op :: "nonterms \<Rightarrow> nat \<Rightarrow> node_offset pm" where
  "parse_binary_op P precedence =
     pbind (parse_cast_expression P) (\<lambda>left. prepeat (binary_round P precedence) left)"

definition parse_binary_expression :: "nonterms \<Rightarrow> node_offset pm" where
  "parse_binary_expression P = parse_binary_op P 0"

definition parse_conditional_expression :: "nonterms \<Rightarrow> node_offset pm" where
  "parse_conditional_expression P =
     pbind (parse_binary_expression P) (\<lambda>condition.
     pbind (skip_punctuator ''?'') (\<lambda>b.
     if b then
       pbind (P N_Expression) (\<lambda>then_expr.
       pbind (expect '':'') (\<lambda>_.
       pbind (P N_Conditional) (\<lambda>else_expr.
       pbind (alloc_node 0 0 NULL then_expr else_expr) (\<lambda>else_node.
       alloc_node 66 0 NULL condition else_node))))
     else pret condition))"

definition parse_assignment_expression :: "nonterms \<Rightarrow> node_offset pm" where
  "parse_assignment_expression P =
     pbind (parse_conditional_expression P) (\<lambda>left.
     pbind (look assignment_operator) (\<lambda>r. case r of
       Some op_code \<Rightarrow>
         pbind p_advance (\<lambda>_. pbind (P N_Assignment) (\<lambda>right. alloc_node 73 op_code NULL left right))
     | None \<Rightarrow> pret left))"

definition parse_comma_expression :: "nonterms \<Rightarrow> node_offset pm" where
  "parse_comma_expression P =
     pbind (parse_assignment_expression P) (\<lambda>left.
     pbind (skip_punctuator '','') (\<lambda>b.
     if b then pbind (P N_Expression) (\<lambda>right. alloc_node 72 0 NULL left right)
     else pret left))"

definition parse_expression :: "nonterms \<Rightarrow> node_offset pm" where
  "parse_expression P = parse_comma_expression P"

definition parse_constant_expression :: "nonterms \<Rightarrow> node_offset pm" where
  "parse_constant_expression P = parse_conditional_expression P"

section \<open>Initializers\<close>

text \<open>A designated initializer: \<open>None\<close> when there is none after all.\<close>

definition designated :: "nonterms \<Rightarrow> node_offset option pm" where
  "designated P =
     pbind (skip_punctuator ''.'') (\<lambda>b.
     if b then
       pif (at_kind K_Identifier)
         (pbind current_text (\<lambda>field.
          pbind p_advance (\<lambda>_.
          pbind (store_text field) (\<lambda>field_offset.
          pbind (expect ''='') (\<lambda>_.
          pbind (P N_Initializer) (\<lambda>value.
          pbind (alloc_node 205 field_offset NULL value NULL) (\<lambda>off. pret (Some off))))))))
         (pret None)
     else
       pbind (skip_punctuator ''['') (\<lambda>b.
       if b then
         pbind (parse_constant_expression P) (\<lambda>index.
         pbind (expect '']'') (\<lambda>_.
         pbind (expect ''='') (\<lambda>_.
         pbind (P N_Initializer) (\<lambda>value.
         pbind (alloc_node 205 1 NULL index value) (\<lambda>off. pret (Some off))))))
       else pret None))"

definition parse_designated_init :: "nonterms \<Rightarrow> node_offset pm" where
  "parse_designated_init P =
     pbind (designated P) (\<lambda>r. case r of Some off \<Rightarrow> pret off | None \<Rightarrow> P N_Initializer)"

definition parse_designated_initializer :: "nonterms \<Rightarrow> node_offset pm" where
  "parse_designated_initializer P =
     pbind (designated P) (\<lambda>r. case r of Some off \<Rightarrow> pret off | None \<Rightarrow> fail_here ''Expected designated initializer'')"

definition at_designator :: "parser \<Rightarrow> bool" where
  "at_designator p \<longleftrightarrow> at_kind K_Punctuator p \<and> (at_text ''.'' p \<or> at_text ''['' p)"

definition initializer_element :: "nonterms \<Rightarrow> node_offset pm" where
  "initializer_element P = pif at_designator (parse_designated_init P) (P N_Initializer)"

definition initializer_round :: "nonterms \<Rightarrow> node_offset \<times> node_offset \<Rightarrow>
    ((node_offset \<times> node_offset) + node_offset) pm" where
  "initializer_round P chain =
     pbind (link_next chain (initializer_element P)) (\<lambda>chain.
     pbind (last_sibling (snd chain)) (\<lambda>last_elem.
     pbind (skip_punctuator ''}'') (\<lambda>b.
     if b then break (fst chain)
     else pbind (skip_punctuator '','') (\<lambda>b.
       if b then again (fst chain, last_elem) else break (fst chain)))))"

definition parse_initializer :: "nonterms \<Rightarrow> node_offset pm" where
  "parse_initializer P =
     pbind (skip_punctuator ''{'') (\<lambda>b.
     if b then prepeat (initializer_round P) (NULL, NULL)
     else parse_assignment_expression P)"

section \<open>The entry points of the GNU extensions that the parser does not call\<close>

definition is_typeof_keyword :: "parser \<Rightarrow> bool" where
  "is_typeof_keyword p \<longleftrightarrow>
     at_kind K_Keyword p \<or> at_kind K_Identifier p \<and> (at_text ''typeof'' p \<or> at_text ''__typeof__'' p)"

definition is_gnu_keyword :: "parser \<Rightarrow> bool" where
  "is_gnu_keyword p \<longleftrightarrow> at_word p \<and>
     (text_in [''typeof'', ''__typeof__'', ''__attribute__'', ''__extension__'', ''__label__''] p \<or>
      is_builtin (pk_text (current_token p)))"

definition parse_gnu_type_specifier :: "nonterms \<Rightarrow> node_offset pm" where
  "parse_gnu_type_specifier P =
     pbind current_text (\<lambda>keyword_text.
     pbind p_advance (\<lambda>_.
     pbind (expect ''('') (\<lambda>_.
     pbind (pif (\<lambda>p. is_type_specifier p \<or> is_typeof_keyword p) (P N_Specifiers) (P N_Expression)) (\<lambda>expr.
     pbind (expect '')'') (\<lambda>_.
     pbind (store_text keyword_text) (\<lambda>keyword_offset.
     alloc_node 201 keyword_offset NULL expr NULL))))))"

definition parse_gnu_primary_expression :: "nonterms \<Rightarrow> node_offset pm" where
  "parse_gnu_primary_expression P =
     pif (\<lambda>p. at_punct ''('' p \<and> peek_punct ''{'' p) (parse_statement_expr P)
     (pif is_typeof_keyword (parse_gnu_type_specifier P)
     (pif (\<lambda>p. at_punct ''&'' p \<and> peek_punct ''&'' p) parse_label_addr
     (pif (\<lambda>p. at_kind K_Identifier p \<and> is_builtin (pk_text (current_token p)))
        (pbind current_text (\<lambda>name. pbind p_advance (\<lambda>_. parse_builtin_call P name)))
     (pif (\<lambda>p. at_word p \<and> at_text ''__extension__'' p) (parse_extension_wrapper P)
     (pbind (look (\<lambda>p. pk_text (current_token p))) (\<lambda>text.
      fail_here (''Unexpected token in GNU expression: '' @ [CHR 0x22] @ text @ [CHR 0x22])))))))"

end
