(* ===== verification/ParserDecl.thy ===== *)
theory ParserDecl
  imports ParserExpr
begin

text \<open>
  Declarations (\<open>src/src/frontend/parser.rs\<close>): specifiers with the records and enumerations inside
  them, declarators with their parameters, declarations with their initializers.
\<close>

section \<open>Specifiers that are one word\<close>

definition storage_class_kind :: "string \<Rightarrow> u16" where
  "storage_class_kind text =
     (case map_of
        [(''typedef'', 101), (''extern'', 102), (''static'', 103), (''auto'', 104), (''register'', 105),
         (''_Thread_local'', 106), (''__thread'', 106)] text
      of Some k \<Rightarrow> k | None \<Rightarrow> 101)"

definition parse_storage_class_specifier :: "node_offset pm" where
  "parse_storage_class_specifier =
     pbind current_text (\<lambda>text. pbind p_advance (\<lambda>_. leaf (storage_class_kind text) 0))"

definition type_qualifier_kind :: "string \<Rightarrow> u16" where
  "type_qualifier_kind text =
     (if text = ''const'' then 90 else if text = ''restrict'' then 91 else if text = ''volatile'' then 92 else 90)"

definition parse_type_qualifier :: "node_offset pm" where
  "parse_type_qualifier =
     pbind current_text (\<lambda>text. pbind p_advance (\<lambda>_. leaf (type_qualifier_kind text) 0))"

definition function_specifier_kind :: "string \<Rightarrow> u16" where
  "function_specifier_kind text =
     (if text = ''inline'' \<or> text = ''__inline'' \<or> text = ''__inline__'' then 93
      else if text = ''_Noreturn'' \<or> text = ''noreturn'' \<or> text = ''__noreturn__'' then 94
      else 93)"

definition parse_function_specifier :: "node_offset pm" where
  "parse_function_specifier =
     pbind current_text (\<lambda>text. pbind p_advance (\<lambda>_. leaf (function_specifier_kind text) 0))"

section \<open>Structures and unions\<close>

text \<open>The attributes at this point, each linked into the chain.\<close>

definition parse_attributes :: "nonterms \<Rightarrow> node_offset \<times> node_offset \<Rightarrow> (node_offset \<times> node_offset) pm" where
  "parse_attributes P chain =
     prepeat (\<lambda>chain.
       pif at_attribute
         (pbind p_advance (\<lambda>_. pbind (link_next chain (parse_attribute_list P)) again))
         (break chain)) chain"

text \<open>An attribute whose result is dropped, \<open>let _ = self.parse_attribute_list()\<close>.\<close>

definition drop_attribute :: "nonterms \<Rightarrow> unit pm" where
  "drop_attribute P = pbind p_advance (\<lambda>_. pbind (pcatch (parse_attribute_list P)) (\<lambda>_. pret ()))"

definition bitfield_width :: "nonterms \<Rightarrow> u32 pm" where
  "bitfield_width P =
     pbind p_advance (\<lambda>_.
     pbind (parse_constant_expression P) (\<lambda>width.
     pbind (eval_constant_u32 width) (\<lambda>v. pret (or_zero v))))"

definition anonymous_bitfield :: "nonterms \<Rightarrow> node_offset pm" where
  "anonymous_bitfield P = pbind (bitfield_width P) (\<lambda>width_val. leaf 27 width_val)"

text \<open>A member: its declarator, wrapped with its width when it is a bit-field.\<close>

definition member_declarator :: "nonterms \<Rightarrow> node_offset pm" where
  "member_declarator P =
     pbind (P N_Declarator) (\<lambda>declarator.
     pif (at_punct '':'')
       (pbind (bitfield_width P) (\<lambda>width_val. alloc_node 27 width_val NULL declarator NULL))
       (pret declarator))"

definition struct_declarator :: "nonterms \<Rightarrow> node_offset \<times> node_offset \<Rightarrow> (node_offset \<times> node_offset) pm" where
  "struct_declarator P chain =
     pbind (pget p_current) (\<lambda>start.
     pbind (link_next chain (member_declarator P)) (\<lambda>chain.
     pbind (pif (at_text ''__attribute__'') (drop_attribute P) (pret ())) (\<lambda>_.
     pbind (advance_if_stuck start) (\<lambda>_. pret chain))))"

definition struct_declaration_round :: "nonterms \<Rightarrow> nat \<times> node_offset \<times> node_offset \<Rightarrow>
    ((nat \<times> node_offset \<times> node_offset) + (node_offset \<times> node_offset)) pm" where
  "struct_declaration_round P s = (let safety = fst s + 1; chain = snd s in
     pbind (skip_punctuator '';'') (\<lambda>b.
     if b then break chain
     else
       pif (\<lambda>p. is_at_end p \<or> safety > 500) (break chain)
       (pif (at_punct '','') (pbind p_advance (\<lambda>_. again (safety, chain)))
       (pif (at_punct '':'')
          (pbind (link_next chain (anonymous_bitfield P)) (\<lambda>chain. again (safety, chain)))
       (pif (at_text ''__attribute__'') (pbind (drop_attribute P) (\<lambda>_. again (safety, chain)))
       (pbind (struct_declarator P chain) (\<lambda>chain. again (safety, chain))))))))"

definition parse_struct_declaration :: "nonterms \<Rightarrow> node_offset pm" where
  "parse_struct_declaration P =
     pbind (pif (at_text ''__extension__'') p_advance (pret ())) (\<lambda>_.
     pbind (P N_Specifiers) (\<lambda>specifiers.
     pbind (prepeat (struct_declaration_round P) (0, NULL, NULL)) (\<lambda>chain.
     pbind (if fst chain \<noteq> NULL then append_sibling specifiers (fst chain) else pret ()) (\<lambda>_.
     alloc_node 25 0 NULL specifiers NULL))))"

text \<open>
  \<open>parse_struct_specifier\<close> (kind 4) and \<open>parse_union_specifier\<close> (kind 5), which differ in the kind
  only. The attributes before the members are the first nodes of the chain of members.
\<close>

definition record_tag :: "u32 pm" where
  "record_tag =
     pif (at_kind K_Identifier)
       (pbind current_text (\<lambda>name. pbind p_advance (\<lambda>_. store_text name)))
       (pret 0)"

definition record_round :: "nonterms \<Rightarrow> node_offset \<times> node_offset \<Rightarrow>
    ((node_offset \<times> node_offset) + (node_offset \<times> node_offset)) pm" where
  "record_round P chain =
     pbind (skip_punctuator ''}'') (\<lambda>b.
     if b then break chain
     else
       pif is_at_end (break chain)
         (pbind (link_next chain (parse_struct_declaration P)) again))"

definition parse_record_specifier :: "u16 \<Rightarrow> nonterms \<Rightarrow> node_offset pm" where
  "parse_record_specifier k P =
     pbind (parse_attributes P (NULL, NULL)) (\<lambda>chain.
     pbind record_tag (\<lambda>tag_data.
     pbind (parse_attributes P chain) (\<lambda>chain.
     pbind (skip_punctuator ''{'') (\<lambda>b.
     if \<not> b then alloc_node k tag_data NULL (fst chain) NULL
     else
       pbind (prepeat (record_round P) chain) (\<lambda>chain.
       alloc_node k tag_data NULL (fst chain) NULL)))))"

definition parse_struct_specifier :: "nonterms \<Rightarrow> node_offset pm" where
  "parse_struct_specifier = parse_record_specifier 4"

definition parse_union_specifier :: "nonterms \<Rightarrow> node_offset pm" where
  "parse_union_specifier = parse_record_specifier 5"

section \<open>Enumerations\<close>

definition enum_value :: "nonterms \<Rightarrow> int \<Rightarrow> int pm" where
  "enum_value P next_enum_value =
     pbind (skip_punctuator ''='') (\<lambda>b.
     if b then
       pbind (parse_constant_expression P) (\<lambda>const_expr.
       pbind (eval_constant_i64 const_expr) (\<lambda>v. pret (case v of Some x \<Rightarrow> x | None \<Rightarrow> 0)))
     else pret next_enum_value)"

text \<open>The node of a constant, with the node of its name as its child.\<close>

definition named_constant :: "u32 \<Rightarrow> node_offset \<Rightarrow> node_offset pm" where
  "named_constant name_offset const_node =
     pbind (alloc_node 60 name_offset const_node NULL NULL) (\<lambda>ident_node.
     pbind (set_first_child const_node ident_node) (\<lambda>_. pret const_node))"

definition enum_constant :: "string \<Rightarrow> int \<Rightarrow> node_offset pm" where
  "enum_constant name value_i64 =
     pbind (pmodify (\<lambda>p. p\<lparr>constant_ints := (constant_ints p)(name \<mapsto> value_i64)\<rparr>)) (\<lambda>_.
     pbind (store_text name) (\<lambda>name_offset.
     pbind (leaf 26 (nat (value_i64 mod 2 ^ 32))) (named_constant name_offset)))"

definition enum_round :: "nonterms \<Rightarrow> int \<times> node_offset \<times> node_offset \<Rightarrow>
    ((int \<times> node_offset \<times> node_offset) + (node_offset \<times> node_offset)) pm" where
  "enum_round P s = (let next_enum_value = fst s; chain = snd s in
     pbind (skip_punctuator ''}'') (\<lambda>b.
     if b then break chain
     else
       pif (\<lambda>p. \<not> at_kind K_Identifier p) (break chain)
         (pbind current_text (\<lambda>name.
          pbind p_advance (\<lambda>_.
          pbind (enum_value P next_enum_value) (\<lambda>value_i64.
          pbind (link_next chain (enum_constant name value_i64)) (\<lambda>chain.
          pbind (skip_punctuator ''}'') (\<lambda>b.
          if b then break chain
          else pbind (skip_punctuator '','') (\<lambda>_. again (to_i64 (value_i64 + 1), chain))))))))))"

definition parse_enum_specifier :: "nonterms \<Rightarrow> node_offset pm" where
  "parse_enum_specifier P =
     pbind (pif (at_kind K_Identifier) p_advance (pret ())) (\<lambda>_.
     pbind (skip_punctuator ''{'') (\<lambda>b.
     pbind (if b then prepeat (enum_round P) (0, NULL, NULL) else pret (NULL, NULL)) (\<lambda>chain.
     alloc_node 6 0 NULL (fst chain) NULL)))"

section \<open>Type specifiers and specifier lists\<close>

definition type_specifier_kind :: "string \<Rightarrow> u16 option" where
  "type_specifier_kind = map_of
     [(''void'', 1), (''int'', 2), (''char'', 3), (''float'', 83), (''double'', 84), (''short'', 10),
      (''long'', 11), (''signed'', 12), (''__signed__'', 12), (''__signed'', 12), (''unsigned'', 13),
      (''_Bool'', 14), (''_Complex'', 15), (''__builtin_va_list'', 16), (''__gnuc_va_list'', 16),
      (''va_list'', 16), (''__int128'', 2), (''__int128_t'', 2), (''__uint128_t'', 2)]"

text \<open>The name of a typedef stands for the kind recorded for it, with the tag of a structure or union.\<close>

definition typedef_specifier :: "string \<Rightarrow> node_offset pm" where
  "typedef_specifier text =
     pbind (pget (\<lambda>p. typedef_kinds p text)) (\<lambda>r. case r of
       Some (k, struct_tag_off) \<Rightarrow> leaf k (if k = 4 \<or> k = 5 then struct_tag_off else 0)
     | None \<Rightarrow> leaf 2 0)"

definition parse_type_specifier :: "nonterms \<Rightarrow> node_offset pm" where
  "parse_type_specifier P =
     pbind current_text (\<lambda>text.
     pbind p_advance (\<lambda>_.
     if text = ''struct'' then parse_struct_specifier P
     else if text = ''union'' then parse_union_specifier P
     else if text = ''enum'' then parse_enum_specifier P
     else if text = ''typeof'' \<or> text = ''__typeof__'' then parse_typeof_expr P
     else case type_specifier_kind text of
       Some k \<Rightarrow> leaf k 0
     | None \<Rightarrow> typedef_specifier text))"

definition gnu_specifier_words :: "string list" where
  "gnu_specifier_words =
     [''__restrict'', ''__restrict__'', ''__volatile'', ''__volatile__'', ''__const'', ''__const__'',
      ''__inline'', ''__inline__'', ''__signed__'', ''__signed'', ''_Atomic'']"

definition may_be_specifier :: "parser \<Rightarrow> bool" where
  "may_be_specifier p \<longleftrightarrow>
     at_kind K_Keyword p \<or>
     at_kind K_Identifier p \<and>
       (is_type_specifier p \<or> is_type_qualifier p \<or> is_storage_class_specifier p \<or>
        is_function_specifier p \<or> text_in gnu_specifier_words p)"

definition specifier_round :: "nonterms \<Rightarrow> bool \<times> node_offset \<times> node_offset \<Rightarrow>
    ((bool \<times> node_offset \<times> node_offset) + (bool \<times> node_offset)) pm" where
  "specifier_round P s = (let has_type_specifier = fst s; chain = snd s in
     pif at_attribute
       (pbind p_advance (\<lambda>_.
        pbind (link_next chain (parse_attribute_list P)) (\<lambda>chain. again (has_type_specifier, chain))))
     (pif (at_text ''__extension__'') (pbind p_advance (\<lambda>_. again s))
     (pif (\<lambda>p. \<not> may_be_specifier p) (break (has_type_specifier, fst chain))
     (pif is_storage_class_specifier
       (pbind (link_next chain parse_storage_class_specifier) (\<lambda>chain. again (has_type_specifier, chain)))
     (pif (\<lambda>p. is_type_specifier p \<or> is_gnu_signed_keyword p)
       (pbind (link_next chain (parse_type_specifier P)) (\<lambda>chain. again (True, chain)))
     (pif is_type_qualifier
       (pbind (link_next chain parse_type_qualifier) (\<lambda>chain. again (has_type_specifier, chain)))
     (pif is_function_specifier
       (pbind (link_next chain parse_function_specifier) (\<lambda>chain. again (has_type_specifier, chain)))
     (break (has_type_specifier, fst chain)))))))))"

definition parse_declaration_specifiers :: "nonterms \<Rightarrow> node_offset pm" where
  "parse_declaration_specifiers P =
     pbind (prepeat (specifier_round P) (False, NULL, NULL)) (\<lambda>(has_type_specifier, first_spec).
     if first_spec = NULL \<and> \<not> has_type_specifier then fail_here ''Expected type specifier''
     else pret first_spec)"

section \<open>Declarators\<close>

definition parse_parameter_declaration :: "nonterms \<Rightarrow> node_offset pm" where
  "parse_parameter_declaration P =
     pif (\<lambda>p. is_type_specifier p \<or> is_type_qualifier p \<or> is_storage_class_specifier p)
       (pbind (parse_declaration_specifiers P) (\<lambda>specifiers.
        pbind (pif is_declarator_start (P N_Declarator) (pret NULL)) (\<lambda>declarator.
        pbind (if declarator \<noteq> NULL \<and> specifiers \<noteq> NULL then append_sibling specifiers declarator
               else pret ()) (\<lambda>_.
        alloc_node 24 0 NULL specifiers NULL))))
       (leaf 24 0)"

definition parameter_round :: "nonterms \<Rightarrow> node_offset \<times> node_offset \<Rightarrow>
    ((node_offset \<times> node_offset) + (node_offset \<times> bool)) pm" where
  "parameter_round P chain =
     pif (\<lambda>p. at_text '')'' p \<or> at_text ''{'' p) (break (fst chain, False))
       (pbind (link_next chain (parse_parameter_declaration P)) (\<lambda>chain.
        pif (at_text '')'') (break (fst chain, False))
          (pbind (skip_punctuator '','') (\<lambda>b.
           if \<not> b then break (fst chain, False)
           else pif (at_text ''...'') (pbind p_advance (\<lambda>_. break (fst chain, True))) (again chain)))))"

definition parse_parameter_list :: "nonterms \<Rightarrow> (node_offset \<times> bool) pm" where
  "parse_parameter_list P =
     pif (at_text '')'') (pret (NULL, False))
     (pif (\<lambda>p. at_text ''void'' p \<and> (case peek_token 1 p of Some t \<Rightarrow> pk_text t = '')'' | None \<Rightarrow> False))
       (pbind p_advance (\<lambda>_. pret (NULL, False)))
       (prepeat (parameter_round P) (NULL, NULL)))"

definition array_size :: "nonterms \<Rightarrow> u32 pm" where
  "array_size P =
     pif (\<lambda>p. \<not> at_text '']'' p)
       (pbind (parse_constant_expression P) (\<lambda>size_expr.
        pbind (eval_constant_u32 size_expr) (\<lambda>v. pret (or_zero v))))
       (pret 0)"

definition function_declarator :: "nonterms \<Rightarrow> node_offset \<Rightarrow> node_offset pm" where
  "function_declarator P declarator =
     pif (at_text '')'') (pbind p_advance (\<lambda>_. alloc_node 9 0 NULL declarator NULL))
       (pbind (parse_parameter_list P) (\<lambda>(params, is_variadic).
        pbind (expect '')'') (\<lambda>_.
        pbind (if params \<noteq> NULL \<and> declarator \<noteq> NULL then set_next declarator params else pret ()) (\<lambda>_.
        alloc_node 9 (if is_variadic then 1 else 0) NULL declarator NULL))))"

definition declarator_round :: "nonterms \<Rightarrow> node_offset \<Rightarrow> (node_offset + node_offset) pm" where
  "declarator_round P declarator =
     pbind (skip_punctuator ''['') (\<lambda>b.
     if b then
       pbind (array_size P) (\<lambda>size.
       pbind (expect '']'') (\<lambda>_.
       pbind (alloc_node 8 size NULL declarator NULL) again))
     else pbind (skip_punctuator ''('') (\<lambda>b.
       if b then pbind (function_declarator P declarator) again else break declarator))"

definition parse_direct_declarator :: "nonterms \<Rightarrow> node_offset pm" where
  "parse_direct_declarator P =
     pbind (pif (at_kind K_Identifier) name_node
       (pbind (skip_punctuator ''('') (\<lambda>b.
        if b then pbind (P N_Declarator) (\<lambda>inner. pbind (expect '')'') (\<lambda>_. pret inner))
        else pret NULL))) (\<lambda>declarator.
     prepeat (declarator_round P) declarator)"

definition skip_qualifiers :: "unit pm" where
  "skip_qualifiers =
     prepeat (\<lambda>_. pif is_type_qualifier (pbind parse_type_qualifier (\<lambda>_. again ())) (break ())) ()"

definition parse_declarator :: "nonterms \<Rightarrow> node_offset pm" where
  "parse_declarator P =
     pbind (prepeat (\<lambda>depth.
       pbind (skip_punctuator ''*'') (\<lambda>b.
       if b then pbind (count_star depth) (\<lambda>depth. pbind skip_qualifiers (\<lambda>_. again depth)) else break depth)) 0) (\<lambda>pointer_depth.
     pbind (parse_direct_declarator P) (\<lambda>direct_decl.
     if pointer_depth > 0 then alloc_node 7 pointer_depth NULL direct_decl NULL else pret direct_decl))"

section \<open>Declarations\<close>

text \<open>The label of a redirected symbol: the tokens in parentheses, at most 200 of them.\<close>

definition asm_label_round :: "nat \<times> nat \<Rightarrow> ((nat \<times> nat) + unit) pm" where
  "asm_label_round s = (let depth = fst s; safety = snd s + 1 in
     pif (\<lambda>p. depth = 0 \<or> is_at_end p) (break ())
     (if safety > 200 then break ()
      else
        pif (at_text ''('') (pbind p_advance (\<lambda>_. again (depth + 1, safety)))
        (pif (at_text '')'')
           (pbind p_advance (\<lambda>_. if depth = 1 then break () else again (depth - 1, safety)))
        (pbind p_advance (\<lambda>_. again (depth, safety))))))"

definition is_asm_keyword :: "parser \<Rightarrow> bool" where
  "is_asm_keyword p \<longleftrightarrow> text_in [''asm'', ''__asm__'', ''__asm''] p"

definition skip_asm_label :: "unit pm" where
  "skip_asm_label =
     pif (\<lambda>p. at_word p \<and> is_asm_keyword p)
       (pbind p_advance (\<lambda>_.
        pbind (skip_punctuator ''('') (\<lambda>b.
        if b then prepeat asm_label_round (1, 0) else pret ())))
       (pret ())"

definition attach_initializer :: "node_offset \<Rightarrow> node_offset \<Rightarrow> node_offset pm" where
  "attach_initializer declarator init_expr =
     pbind (if declarator \<noteq> NULL then set_next declarator init_expr else pret ()) (\<lambda>_.
     alloc_node 73 19 NULL declarator NULL)"

definition init_declarator :: "nonterms \<Rightarrow> bool \<Rightarrow> node_offset \<Rightarrow> node_offset \<times> node_offset \<Rightarrow>
    (node_offset \<times> node_offset) pm" where
  "init_declarator P is_typedef specifiers chain =
     pbind (parse_declarator P) (\<lambda>declarator.
     pbind (if is_typedef \<and> declarator \<noteq> NULL then register_typedef_name specifiers declarator
            else pret ()) (\<lambda>_.
     pbind skip_asm_label (\<lambda>_.
     pbind (parse_attributes P chain) (\<lambda>chain.
     pbind skip_asm_label (\<lambda>_.
     pbind (skip_punctuator ''='') (\<lambda>b.
     pbind (if b then
              pbind (pif at_designator (parse_designated_init P) (parse_initializer P)) (\<lambda>init_expr.
              attach_initializer declarator init_expr)
            else pret declarator) (\<lambda>init.
     link_siblings chain init)))))))"

definition declaration_round :: "nonterms \<Rightarrow> bool \<Rightarrow> node_offset \<Rightarrow> node_offset \<times> node_offset \<Rightarrow>
    ((node_offset \<times> node_offset) + node_offset) pm" where
  "declaration_round P is_typedef specifiers chain =
     pbind (init_declarator P is_typedef specifiers chain) (\<lambda>chain.
     pbind (skip_punctuator '';'') (\<lambda>b.
     if b then break (fst chain)
     else pbind (skip_punctuator '','') (\<lambda>b.
       if \<not> b then pbind (skip_punctuator '';'') (\<lambda>_. break (fst chain)) else again chain)))"

definition parse_declaration :: "nonterms \<Rightarrow> node_offset pm" where
  "parse_declaration P =
     pbind (look (at_text ''typedef'')) (\<lambda>is_typedef.
     pbind (parse_declaration_specifiers P) (\<lambda>specifiers.
     pbind (skip_punctuator '';'') (\<lambda>b.
     pbind (if b then pret NULL
            else prepeat (declaration_round P is_typedef specifiers) (NULL, NULL)) (\<lambda>first_init.
     pbind (if first_init \<noteq> NULL then append_sibling specifiers first_init else pret ()) (\<lambda>_.
     alloc_node 21 0 NULL specifiers NULL)))))"

end
