(* ===== verification/ParserStmt.thy ===== *)
theory ParserStmt
  imports ParserDecl
begin

text \<open>
  Statements, inline assembly and translation units (\<open>src/src/frontend/parser.rs\<close>,
  \<open>src/src/frontend/inline_asm.rs\<close>), and the functions of the parser tied together.
\<close>

section \<open>Inline assembly\<close>

record asm_operand =
  ao_constraint :: string
  ao_expr :: node_offset
  ao_is_output :: bool
  ao_is_readwrite :: bool

definition asm_constraint :: "bool \<Rightarrow> string \<Rightarrow> string" where
  "asm_constraint is_output constr =
     (if is_output \<and> \<not> starts_with ''+'' constr then (if starts_with ''='' constr then drop 1 constr else constr)
      else if starts_with ''+'' constr then drop 1 constr
      else constr)"

definition parse_single_asm_operand :: "nonterms \<Rightarrow> bool \<Rightarrow> asm_operand pm" where
  "parse_single_asm_operand P is_output =
     pif (\<lambda>p. \<not> at_kind K_StringLiteral p) (fail_here ''Expected constraint string in asm operand'')
       (pbind current_text (\<lambda>constr.
        pbind p_advance (\<lambda>_.
        pbind (expect ''('') (\<lambda>_.
        pbind (parse_assignment_expression P) (\<lambda>expr.
        pbind (expect '')'') (\<lambda>_.
        pret \<lparr>ao_constraint = asm_constraint is_output constr, ao_expr = expr, ao_is_output = is_output,
              ao_is_readwrite = starts_with ''+'' constr\<rparr>))))))"

record asm_parts =
  as_section :: nat
  as_outputs :: "asm_operand list"
  as_inputs :: "asm_operand list"
  as_clobbers :: "string list"
  as_labels :: "string list"

definition asm_parts_start :: asm_parts where
  "asm_parts_start = \<lparr>as_section = 0, as_outputs = [], as_inputs = [], as_clobbers = [], as_labels = []\<rparr>"

text \<open>What is read in a section: the parts with one more entry, or the end of the operands.\<close>

definition asm_label :: "asm_parts \<Rightarrow> asm_parts pm" where
  "asm_label s =
     pbind (pif (at_text ''&&'') p_advance (pret ())) (\<lambda>_.
     pif (at_kind K_Identifier)
       (pbind current_text (\<lambda>label. pbind p_advance (\<lambda>_. pret (s\<lparr>as_labels := as_labels s @ [label]\<rparr>))))
       (pret s))"

definition asm_section :: "nonterms \<Rightarrow> asm_parts \<Rightarrow> asm_parts option pm" where
  "asm_section P s =
     (let found = (\<lambda>m. pbind m (\<lambda>t. pret (Some t))); string = at_kind K_StringLiteral in
      if as_section s = 0 then pret (Some s)
      else if as_section s = 1 then
        pif string (found (pbind (parse_single_asm_operand P True) (\<lambda>operand.
            pret (s\<lparr>as_outputs := as_outputs s @ [operand]\<rparr>)))) (pret None)
      else if as_section s = 2 then
        pif string (found (pbind (parse_single_asm_operand P False) (\<lambda>operand.
            pret (s\<lparr>as_inputs := as_inputs s @ [operand]\<rparr>)))) (pret None)
      else if as_section s = 3 then
        pif string (found (pbind current_text (\<lambda>clobber. pbind p_advance (\<lambda>_.
            pret (s\<lparr>as_clobbers := as_clobbers s @ [clobber]\<rparr>))))) (pret None)
      else if as_section s = 4 then
        pif (\<lambda>p. at_kind K_Identifier p \<or> at_punct ''&&'' p) (found (asm_label s)) (pret None)
      else pret None)"

definition asm_entry :: "nonterms \<Rightarrow> asm_parts \<Rightarrow> (asm_parts + asm_parts) pm" where
  "asm_entry P s =
     pbind (asm_section P s) (\<lambda>r. case r of
       None \<Rightarrow> break s
     | Some t \<Rightarrow> pbind (skip_punctuator '','') (\<lambda>_. again t))"

text \<open>The counter of sections is a \<open>u8\<close>.\<close>

definition asm_round :: "nonterms \<Rightarrow> asm_parts \<Rightarrow> (asm_parts + asm_parts) pm" where
  "asm_round P s =
     pif (at_punct '')'') (break s)
     (pif (at_punct '':'')
       (pbind p_advance (\<lambda>_.
        if as_section s = 255 then pstuck Panicked
        else
          let t = s\<lparr>as_section := as_section s + 1\<rparr> in
          pif (\<lambda>p. at_punct '':'' p \<or> at_punct '')'' p) (again t) (asm_entry P t)))
     (asm_entry P s))"

definition parse_asm_operands :: "nonterms \<Rightarrow> asm_parts pm" where
  "parse_asm_operands P = prepeat (asm_round P) asm_parts_start"

primrec link_operands :: "u16 \<Rightarrow> asm_operand list \<Rightarrow> node_offset \<times> node_offset \<Rightarrow>
    (node_offset \<times> node_offset) pm" where
  "link_operands k [] chain = pret chain"
| "link_operands k (operand # operands) chain =
     pbind (store_text (ao_constraint operand)) (\<lambda>constraint_offset.
     pbind (alloc_node k constraint_offset NULL (ao_expr operand) NULL) (\<lambda>operand_node.
     pbind (link_siblings chain operand_node) (link_operands k operands)))"

primrec link_names :: "u16 \<Rightarrow> string list \<Rightarrow> node_offset \<times> node_offset \<Rightarrow> (node_offset \<times> node_offset) pm" where
  "link_names k [] chain = pret chain"
| "link_names k (name # names) chain =
     pbind (store_text name) (\<lambda>off.
     pbind (leaf k off) (\<lambda>node.
     pbind (link_siblings chain node) (link_names k names)))"

definition parse_asm_stmt :: "nonterms \<Rightarrow> node_offset pm" where
  "parse_asm_stmt P =
     pbind p_advance (\<lambda>_.
     pbind (pif (\<lambda>p. at_text ''volatile'' p \<or> at_text ''__volatile__'' p)
              (pbind p_advance (\<lambda>_. pret True)) (pret False)) (\<lambda>is_volatile.
     pbind (expect ''('') (\<lambda>_.
     pbind (pif (at_kind K_StringLiteral) (pbind current_text (\<lambda>t. pbind p_advance (\<lambda>_. pret t)))
              (fail_here ''Expected asm template string'')) (\<lambda>template.
     pbind (parse_asm_operands P) (\<lambda>parts.
     pbind (expect '')'') (\<lambda>_.
     pbind (skip_punctuator '';'') (\<lambda>_.
     pbind (store_text template) (\<lambda>template_offset.
     pbind (link_operands 208 (as_outputs parts) (NULL, NULL)) (\<lambda>chain.
     pbind (link_operands 209 (as_inputs parts) chain) (\<lambda>chain.
     pbind (link_names 210 (as_clobbers parts) chain) (\<lambda>chain.
     pbind (link_names 211 (as_labels parts) chain) (\<lambda>chain.
     alloc_node 207 ((if is_volatile then 1 else 0) + (if as_labels parts \<noteq> [] then 2 else 0)) NULL
       template_offset (fst chain)))))))))))))"

fun join_with :: "string \<Rightarrow> string list \<Rightarrow> string" where
  "join_with sep [] = []"
| "join_with sep [s] = s"
| "join_with sep (s # t # ts) = s @ sep @ join_with sep (t # ts)"

definition build_constraints_string :: "asm_operand list \<Rightarrow> asm_operand list \<Rightarrow> string list \<Rightarrow> string" where
  "build_constraints_string outputs inputs clobbers =
     join_with '',''
       (map (\<lambda>output. (if ao_is_readwrite output then ''+'' else ''='') @ ao_constraint output) outputs @
        map ao_constraint inputs @
        map (\<lambda>clobber. CHR 0x7E # ''{'' @ clobber @ ''}'') clobbers)"

section \<open>Blocks\<close>

definition compound_round :: "nonterms \<Rightarrow> nat \<times> node_offset \<times> node_offset \<Rightarrow>
    ((nat \<times> node_offset \<times> node_offset) + (node_offset \<times> node_offset)) pm" where
  "compound_round P s = (let safety = fst s + 1; chain = snd s in
     pbind (skip_punctuator ''}'') (\<lambda>b.
     if b then break chain
     else
       pif (\<lambda>p. is_at_end p \<or> safety > 10000) (break chain)
       (pbind (skip_punctuator '';'') (\<lambda>b.
        if b then pbind (link_next chain (leaf 48 0)) (\<lambda>chain. again (safety, chain))
        else
          pbind (pget p_current) (\<lambda>start.
          pbind (pif (\<lambda>p. is_type_specifier p \<or> is_storage_class_specifier p)
                   (link_item chain (parse_declaration P)) (link_item chain (P N_Statement))) (\<lambda>chain.
          pbind (advance_if_stuck start) (\<lambda>_. again (safety, chain))))))))"

definition parse_compound_statement :: "nonterms \<Rightarrow> node_offset pm" where
  "parse_compound_statement P =
     pbind (prepeat (compound_round P) (0, NULL, NULL)) (\<lambda>chain. alloc_node 40 0 NULL (fst chain) NULL)"

section \<open>Statements\<close>

definition parse_case_label :: "nonterms \<Rightarrow> node_offset pm" where
  "parse_case_label P =
     pbind (expect ''case'') (\<lambda>_.
     pbind (parse_constant_expression P) (\<lambda>expr.
     pif (at_punct ''...'')
       (pbind p_advance (\<lambda>_.
        pbind (parse_constant_expression P) (\<lambda>high_expr.
        pbind (expect '':'') (\<lambda>_. alloc_node 54 high_expr NULL expr NULL))))
       (pbind (expect '':'') (\<lambda>_. alloc_node 52 0 NULL expr NULL))))"

definition parse_default_label :: "node_offset pm" where
  "parse_default_label = pbind (expect ''default'') (\<lambda>_. pbind (expect '':'') (\<lambda>_. leaf 53 0))"

text \<open>\<open>keyword ( condition )\<close>, the head of \<open>if\<close>, \<open>while\<close> and \<open>switch\<close>.\<close>

definition parse_head :: "nonterms \<Rightarrow> string \<Rightarrow> node_offset pm" where
  "parse_head P keyword =
     pbind (expect keyword) (\<lambda>_.
     pbind (expect ''('') (\<lambda>_.
     pbind (parse_expression P) (\<lambda>condition.
     pbind (expect '')'') (\<lambda>_. pret condition))))"

definition parse_if_statement :: "nonterms \<Rightarrow> node_offset pm" where
  "parse_if_statement P =
     pbind (parse_head P ''if'') (\<lambda>condition.
     pbind (P N_Statement) (\<lambda>then_stmt.
     pbind (pif (\<lambda>p. at_word p \<and> at_text ''else'' p) (pbind p_advance (\<lambda>_. P N_Statement)) (pret NULL)) (\<lambda>else_stmt.
     pbind (alloc_node 0 0 NULL then_stmt else_stmt) (\<lambda>body_wrap.
     pbind (alloc_node 0 0 NULL condition body_wrap) (\<lambda>cond_wrap.
     alloc_node 41 0 NULL cond_wrap NULL)))))"

definition parse_while_statement :: "nonterms \<Rightarrow> node_offset pm" where
  "parse_while_statement P =
     pbind (parse_head P ''while'') (\<lambda>condition.
     pbind (P N_Statement) (\<lambda>body.
     pbind (alloc_node 0 0 NULL condition body) (\<lambda>cond_wrap.
     alloc_node 42 0 NULL cond_wrap NULL)))"

definition parse_switch_statement :: "nonterms \<Rightarrow> node_offset pm" where
  "parse_switch_statement P =
     pbind (parse_head P ''switch'') (\<lambda>condition.
     pbind (P N_Statement) (\<lambda>body.
     pbind (alloc_node 0 0 NULL condition body) (\<lambda>cond_wrap.
     alloc_node 50 0 NULL cond_wrap NULL)))"

text \<open>An expression up to a closing token, which may be missing, or what stands for an absent one.\<close>

definition optional_expression :: "nonterms \<Rightarrow> string \<Rightarrow> node_offset pm \<Rightarrow> node_offset pm" where
  "optional_expression P close absent =
     pbind (skip_punctuator close) (\<lambda>b.
     if \<not> b then
       pbind (parse_expression P) (\<lambda>expr. pbind (skip_punctuator close) (\<lambda>_. pret expr))
     else absent)"

definition parse_for_statement :: "nonterms \<Rightarrow> node_offset pm" where
  "parse_for_statement P =
     pbind (expect ''for'') (\<lambda>_.
     pbind (expect ''('') (\<lambda>_.
     pbind (pif is_type_specifier (parse_declaration P) (optional_expression P '';'' (leaf 48 0))) (\<lambda>init.
     pbind (optional_expression P '';'' (leaf 61 1)) (\<lambda>condition.
     pbind (optional_expression P '')'' (pret NULL)) (\<lambda>increment.
     pbind (P N_Statement) (\<lambda>body.
     pbind (alloc_node 0 0 NULL increment body) (\<lambda>incr_wrap.
     pbind (alloc_node 0 0 NULL condition incr_wrap) (\<lambda>cond_wrap.
     pbind (alloc_node 0 0 NULL init cond_wrap) (\<lambda>init_wrap.
     alloc_node 43 0 NULL init_wrap NULL)))))))))"

definition parse_do_statement :: "nonterms \<Rightarrow> node_offset pm" where
  "parse_do_statement P =
     pbind (expect ''do'') (\<lambda>_.
     pbind (P N_Statement) (\<lambda>body.
     pbind (parse_head P ''while'') (\<lambda>condition.
     pbind (skip_punctuator '';'') (\<lambda>_.
     pbind (set_next body condition) (\<lambda>_.
     alloc_node 42 1 NULL body NULL)))))"

definition parse_goto_statement :: "nonterms \<Rightarrow> node_offset pm" where
  "parse_goto_statement P =
     pbind (expect ''goto'') (\<lambda>_.
     pif (at_text ''*'')
       (pbind p_advance (\<lambda>_.
        pbind (parse_expression P) (\<lambda>expr.
        pbind (skip_punctuator '';'') (\<lambda>_. alloc_node 49 0 NULL expr NULL))))
     (pif (at_kind K_Identifier)
       (pbind current_text (\<lambda>label.
        pbind p_advance (\<lambda>_.
        pbind (skip_punctuator '';'') (\<lambda>_.
        pbind (store_text label) (\<lambda>off. leaf 49 off)))))
     (pbind (skip_punctuator '';'') (\<lambda>_. leaf 49 0))))"

definition parse_return_statement :: "nonterms \<Rightarrow> node_offset pm" where
  "parse_return_statement P =
     pbind (expect ''return'') (\<lambda>_.
     pbind (optional_expression P '';'' (pret NULL)) (\<lambda>expr. alloc_node 44 0 NULL expr NULL))"

definition parse_expression_statement :: "nonterms \<Rightarrow> node_offset pm" where
  "parse_expression_statement P =
     pbind (optional_expression P '';'' (pret NULL)) (\<lambda>expr. alloc_node 45 0 NULL expr NULL)"

definition jump_statement :: "u16 \<Rightarrow> node_offset pm" where
  "jump_statement k = pbind p_advance (\<lambda>_. pbind (skip_punctuator '';'') (\<lambda>_. leaf k 0))"

definition attribute_statement :: "nonterms \<Rightarrow> node_offset pm" where
  "attribute_statement P = pbind (drop_attribute P) (\<lambda>_. pbind (skip_punctuator '';'') (\<lambda>_. leaf 48 0))"

definition local_label_statement :: "node_offset pm" where
  "local_label_statement =
     pbind p_advance (\<lambda>_.
     pbind (prepeat (\<lambda>_.
       pbind (skip_punctuator '';'') (\<lambda>b.
       if b then break () else pif is_at_end (break ()) (pbind p_advance (\<lambda>_. again ())))) ()) (\<lambda>_.
     leaf 48 0))"

text \<open>The statements that start with a word of their own.\<close>

definition keyword_statement :: "nonterms \<Rightarrow> string \<Rightarrow> node_offset pm option" where
  "keyword_statement P text = map_of
     [(''if'', parse_if_statement P), (''while'', parse_while_statement P), (''for'', parse_for_statement P),
      (''return'', parse_return_statement P), (''break'', jump_statement 46), (''continue'', jump_statement 47),
      (''switch'', parse_switch_statement P), (''goto'', parse_goto_statement P), (''do'', parse_do_statement P),
      (''case'', parse_case_label P), (''default'', parse_default_label),
      (''__extension__'', pbind p_advance (\<lambda>_. P N_Statement)), (''__label__'', local_label_statement),
      (''asm'', parse_asm_stmt P), (''__asm__'', parse_asm_stmt P), (''__asm'', parse_asm_stmt P)] text"

definition labeled_statement :: "nonterms \<Rightarrow> node_offset pm" where
  "labeled_statement P =
     pbind current_text (\<lambda>label_name.
     pbind p_advance (\<lambda>_.
     pbind p_advance (\<lambda>_.
     pbind (store_text label_name) (\<lambda>label_str_offset.
     pbind (P N_Statement) (\<lambda>stmt. alloc_node 51 label_str_offset NULL stmt NULL)))))"

definition parse_statement :: "nonterms \<Rightarrow> node_offset pm" where
  "parse_statement P =
     pif (at_punct ''{'') (pbind p_advance (\<lambda>_. parse_compound_statement P))
     (pif at_attribute (attribute_statement P)
     (pbind (look (\<lambda>p. if at_word p then keyword_statement P (pk_text (current_token p)) else None)) (\<lambda>r.
      case r of
        Some stmt \<Rightarrow> stmt
      | None \<Rightarrow>
          pif (\<lambda>p. at_kind K_Identifier p \<and> peek_punct '':'' p) (labeled_statement P)
            (parse_expression_statement P))))"

section \<open>The circle closed\<close>

fun nonterm_parser :: "nonterms \<Rightarrow> nonterms" where
  "nonterm_parser P N_Expression = parse_expression P"
| "nonterm_parser P N_Assignment = parse_assignment_expression P"
| "nonterm_parser P N_Conditional = parse_conditional_expression P"
| "nonterm_parser P (N_BinaryOp precedence) = parse_binary_op P precedence"
| "nonterm_parser P N_Unary = parse_unary_expression P"
| "nonterm_parser P N_Cast = parse_cast_expression P"
| "nonterm_parser P N_Initializer = parse_initializer P"
| "nonterm_parser P N_Specifiers = parse_declaration_specifiers P"
| "nonterm_parser P N_Declarator = parse_declarator P"
| "nonterm_parser P N_Declaration = parse_declaration P"
| "nonterm_parser P N_Statement = parse_statement P"

text \<open>The depth of the recursion through the circle is bounded by \<open>n\<close>.\<close>

primrec parse_nt :: "nat \<Rightarrow> nonterms" where
  "parse_nt 0 = (\<lambda>nt. pstuck OutOfFuel)"
| "parse_nt (Suc n) = nonterm_parser (parse_nt n)"

section \<open>Translation units\<close>

definition external_initializer :: "nonterms \<Rightarrow> node_offset \<Rightarrow> node_offset \<Rightarrow> (node_offset \<times> node_offset) pm" where
  "external_initializer P specifiers declarator =
     pbind (parse_initializer P) (\<lambda>init.
     pbind (alloc_node 73 0 NULL declarator NULL) (\<lambda>init_decl.
     pbind (set_next declarator init) (\<lambda>_.
     pbind (alloc_node 21 0 NULL specifiers NULL) (\<lambda>var_decl.
     pbind (if specifiers \<noteq> NULL then append_sibling specifiers init_decl else pret ()) (\<lambda>_.
     pret (var_decl, var_decl))))))"

definition external_declarator :: "nonterms \<Rightarrow> bool \<Rightarrow> node_offset \<Rightarrow> node_offset \<times> node_offset \<Rightarrow>
    (node_offset \<times> node_offset) pm" where
  "external_declarator P is_typedef specifiers chain =
     pbind (parse_declarator P) (\<lambda>declarator.
     pbind (if is_typedef \<and> declarator \<noteq> NULL then register_typedef_name specifiers declarator
            else pret ()) (\<lambda>_.
     pbind skip_asm_label (\<lambda>_.
     pbind (parse_attributes P chain) (\<lambda>chain.
     pbind skip_asm_label (\<lambda>_.
     pbind (skip_punctuator ''='') (\<lambda>b.
     if b then external_initializer P specifiers declarator else link_siblings chain declarator))))))"

definition more_declarators_round :: "nonterms \<Rightarrow> node_offset \<times> node_offset \<Rightarrow>
    ((node_offset \<times> node_offset) + (node_offset \<times> node_offset)) pm" where
  "more_declarators_round P chain =
     pif (at_punct '','')
       (pbind p_advance (\<lambda>_.
        pbind (link_next chain (parse_declarator P)) (\<lambda>chain.
        pbind skip_asm_label (\<lambda>_.
        pbind (parse_attributes P chain) (\<lambda>chain.
        pbind skip_asm_label (\<lambda>_. again chain))))))
       (break chain)"

definition declaration_end :: "nonterms \<Rightarrow> node_offset \<times> node_offset \<Rightarrow> node_offset pm" where
  "declaration_end P chain =
     pbind (skip_punctuator '';'') (\<lambda>b.
     if b then alloc_node 20 0 NULL (fst chain) NULL
     else
       pif (at_punct ''{'')
         (pbind p_advance (\<lambda>_.
          pbind (link_next chain (parse_compound_statement P)) (\<lambda>chain.
          alloc_node 23 0 NULL (fst chain) NULL)))
         (alloc_node 20 0 NULL (fst chain) NULL))"

definition parse_external_declaration :: "nonterms \<Rightarrow> node_offset pm" where
  "parse_external_declaration P =
     pif (\<lambda>p. at_kind K_Keyword p \<and> at_text ''__extension__'' p) (parse_extension_wrapper P)
       (pbind (pif (\<lambda>p. at_kind K_Identifier p \<and> at_text ''__extension__'' p) p_advance (pret ())) (\<lambda>_.
        pbind (look (at_text ''typedef'')) (\<lambda>is_typedef.
        pbind (parse_declaration_specifiers P) (\<lambda>specifiers.
        pbind (last_sibling specifiers) (\<lambda>last_child.
        pbind (pif is_declarator_start
                 (external_declarator P is_typedef specifiers (specifiers, last_child))
                 (pret (specifiers, last_child))) (\<lambda>chain.
        pbind (prepeat (more_declarators_round P) chain) (\<lambda>chain.
        declaration_end P chain)))))))"

definition translation_unit_round :: "nonterms \<Rightarrow> node_offset \<times> node_offset \<Rightarrow>
    ((node_offset \<times> node_offset) + node_offset) pm" where
  "translation_unit_round P chain =
     pif is_at_end (break (fst chain))
       (pbind (pcatch (parse_external_declaration P)) (\<lambda>r. case r of
          Inr decl \<Rightarrow>
            if fst chain = NULL then again (decl, decl)
            else pbind (set_next (snd chain) decl) (\<lambda>_. again (fst chain, decl))
        | Inl e \<Rightarrow> pbind p_advance (\<lambda>_. again chain)))"

definition parse_translation_unit :: "nonterms \<Rightarrow> node_offset pm" where
  "parse_translation_unit P = prepeat (translation_unit_round P) (NULL, NULL)"

text \<open>The depth given to a run: one more than there are tokens.\<close>

definition run_parser :: "node_offset pm" where
  "run_parser = (\<lambda>p. parse_translation_unit (parse_nt (Suc (tokens_left p))) p)"

definition eof_token :: ptoken where
  "eof_token = ptok K_EOF [] 0 0"

definition parser_tokens :: "ctoken list \<Rightarrow> ptoken list" where
  "parser_tokens ts =
     map token_from_pp (filter (\<lambda>t. ct_kind t \<noteq> T_Whitespace \<and> ct_kind t \<noteq> T_Comment) ts) @ [eof_token]"

definition parse_tokens :: "ctoken list \<Rightarrow> node_offset pm" where
  "parse_tokens ts =
     pbind (pmodify (\<lambda>p. p\<lparr>p_tokens := parser_tokens ts, p_current := 0, constant_ints := Map.empty\<rparr>)) (\<lambda>_.
     run_parser)"

end
