(* ===== verification/ParserLex.thy ===== *)
theory ParserLex
  imports ParserStmt
begin

text \<open>
  The lexer of the parser, \<open>Parser::lex\<close> in \<open>src/src/frontend/parser.rs\<close>, which \<open>Parser::parse\<close>
  runs on source text that has not been preprocessed.

  Source text is ASCII. A \<open>Peekable<Chars>\<close> is the list of the characters that are left. Lines and
  columns are \<open>u32\<close> in the code and unbounded here.
\<close>

section \<open>Words and punctuators\<close>

definition parser_keywords :: "string list" where
  "parser_keywords =
     [''auto'', ''break'', ''case'', ''char'', ''const'', ''continue'', ''default'', ''do'', ''double'',
      ''else'', ''enum'', ''extern'', ''float'', ''for'', ''goto'', ''if'', ''inline'', ''int'', ''long'',
      ''register'', ''restrict'', ''return'', ''short'', ''signed'', ''sizeof'', ''static'', ''struct'',
      ''switch'', ''typedef'', ''union'', ''unsigned'', ''void'', ''volatile'', ''while'', ''_Bool'',
      ''_Complex'', ''_Imaginary'', ''_Atomic'', ''_Noreturn'', ''typeof'', ''__typeof__'',
      ''__attribute__'', ''__extension__'', ''__label__'', ''__asm__'', ''__asm'', ''asm'', ''__inline'',
      ''__inline__'', ''__volatile__'', ''__volatile'', ''__restrict'', ''__restrict__'', ''__const'',
      ''__const__'', ''__signed__'', ''__signed'', ''__noreturn__'']"

definition parser_is_keyword :: "string \<Rightarrow> bool" where
  "parser_is_keyword text \<longleftrightarrow> text \<in> set parser_keywords \<or> starts_with ''__builtin_'' text"

definition parser_punctuators :: "string list" where
  "parser_punctuators =
     [''...'', ''>>='', ''<<='', ''+='', ''-='', ''*='', ''/='', ''%='', ''&='', ''^='', ''|='', ''>>'',
      ''<<'', ''++'', ''--'', ''->'', ''&&'', ''||'', ''<='', ''>='', ''=='', ''!='', '';'', ''{'', ''}'',
      '','', '':'', ''='', ''('', '')'', ''['', '']'', ''.'', ''&'', ''*'', ''+'', ''-'',
      [CHR 0x7E], ''!'', ''/'', ''%'', ''<'', ''>'', ''^'', ''|'', ''?'', ''#'']"

definition parser_is_punctuator :: "string \<Rightarrow> bool" where
  "parser_is_punctuator text \<longleftrightarrow> text \<in> set parser_punctuators"

section \<open>Literals\<close>

definition lex_number_char :: "char \<Rightarrow> bool" where
  "lex_number_char c \<longleftrightarrow> is_alpha c \<or> is_digit c \<or> c = CHR ''.''"

text \<open>A character constant after its opening quote: its text, what is left, and its width.\<close>

definition char_body :: "string \<Rightarrow> string \<times> string" where
  "char_body cs =
     (case cs of
        [] \<Rightarrow> ([], [])
      | c # r \<Rightarrow>
          if c = CHR 0x5C then (case r of [] \<Rightarrow> ([c], []) | d # ds \<Rightarrow> ([c, d], ds))
          else ([c], r))"

definition lex_char :: "string \<Rightarrow> string \<times> string \<times> nat" where
  "lex_char cs =
     (case char_body cs of (text, r) \<Rightarrow>
        if take 1 r = [CHR 0x27] then (text, drop 1 r, length text + 2) else (text, r, length text + 1))"

text \<open>The rest of a string literal: its text without the closing quote, what is left, its width.\<close>

fun lex_string :: "string \<Rightarrow> string \<times> string \<times> nat" where
  "lex_string [] = ([], [], 0)"
| "lex_string (c # cs) =
     (if c = CHR 0x22 then ([], cs, 1)
      else if c = CHR 0x5C then
        (case cs of
           [] \<Rightarrow> ([c], [], 1)
         | d # ds \<Rightarrow> (case lex_string ds of (t, r, w) \<Rightarrow> (c # d # t, r, w + 2)))
      else (case lex_string cs of (t, r, w) \<Rightarrow> (c # t, r, w + 1)))"

text \<open>What is left after the \<open>*/\<close> of a block comment.\<close>

fun skip_block_comment :: "string \<Rightarrow> string" where
  "skip_block_comment [] = []"
| "skip_block_comment (c # cs) =
     (if c = CHR ''*'' \<and> take 1 cs = ''/'' then drop 1 cs else skip_block_comment cs)"

text \<open>The number of characters of the punctuator at a character.\<close>

definition punct_length :: "char \<Rightarrow> string \<Rightarrow> nat" where
  "punct_length c cs =
     (if length cs \<ge> 2 \<and> parser_is_punctuator (c # take 2 cs) then 3
      else if length cs \<ge> 1 \<and> parser_is_punctuator (c # take 1 cs) then 2
      else 1)"

text \<open>\<open>char::is_whitespace\<close> on ASCII.\<close>

definition char_is_whitespace :: "char \<Rightarrow> bool" where
  "char_is_whitespace c \<longleftrightarrow> 9 \<le> ord c \<and> ord c \<le> 13 \<or> ord c = 32"

section \<open>The loop\<close>

text \<open>One round at a character: the token, if there is one, what is left, and the new position.\<close>

definition lex_step :: "char \<Rightarrow> string \<Rightarrow> u32 \<Rightarrow> u32 \<Rightarrow> ptoken list \<times> string \<times> u32 \<times> u32" where
  "lex_step ch cs line column =
     (if ch = CHR 0x20 \<or> ch = CHR 0x09 \<or> ch = CHR 0x0D then ([], cs, line, column + 1)
      else if ch = CHR 0x0A then ([], cs, line + 1, 1)
      else if ch = CHR ''/'' \<and> take 1 cs = ''/'' then
        ([], dropWhile (\<lambda>c. c \<noteq> CHR 0x0A) cs, line, column)
      else if ch = CHR ''/'' \<and> take 1 cs = ''*'' then
        ([], skip_block_comment (drop 1 cs), line, column)
      else if is_alpha ch \<or> ch = CHR ''_'' then
        let text = takeWhile pp_ident_char (ch # cs)
        in ([ptok (if parser_is_keyword text then K_Keyword else K_Identifier) text line column],
            dropWhile pp_ident_char (ch # cs), line, column + length text)
      else if is_digit ch then
        let text = takeWhile lex_number_char (ch # cs)
        in ([ptok K_IntConstant text line column], dropWhile lex_number_char (ch # cs), line,
            column + length text)
      else if ch = CHR 0x27 then
        (case lex_char cs of (text, r, w) \<Rightarrow> ([ptok K_CharConstant text line column], r, line, column + w))
      else if ch = CHR 0x22 then
        (case lex_string cs of (text, r, w) \<Rightarrow>
           ([ptok K_StringLiteral text line column], r, line, column + 1 + w))
      else
        let n = punct_length ch cs; text = take n (ch # cs); r = drop n (ch # cs) in
        (if \<not> parser_is_punctuator text \<and> list_all char_is_whitespace text then ([], r, line, column + n)
         else ([ptok K_Punctuator text line column], r, line, column + n)))"

lemma length_lex_char: "lex_char cs = (t, r, w) \<Longrightarrow> length r \<le> length cs"
  by (auto simp: lex_char_def char_body_def split: list.splits if_splits)

lemma length_lex_string: "lex_string cs = (t, r, w) \<Longrightarrow> length r \<le> length cs"
proof (induction cs arbitrary: t r w rule: lex_string.induct)
  case (2 c cs)
  then show ?case by (fastforce split: if_splits list.splits prod.splits)
qed simp

lemma length_skip_block_comment: "length (skip_block_comment cs) \<le> length cs"
  by (induction cs) auto

lemma lex_step_less: "lex_step ch cs line column = (ts, r, l, k) \<Longrightarrow> length r \<le> length cs"
proof -
  assume a: "lex_step ch cs line column = (ts, r, l, k)"
  have d: "length (dropWhile P (ch # cs)) \<le> length cs" if "P ch" for P
    using that by (simp add: length_dropWhile_le)
  have c: "is_alpha ch \<or> ch = CHR ''_'' \<Longrightarrow> pp_ident_char ch" "is_digit ch \<Longrightarrow> lex_number_char ch"
    by (auto simp: pp_ident_char_def lex_number_char_def)
  have b: "length (skip_block_comment (drop 1 cs)) \<le> length cs"
    using length_skip_block_comment [of "drop 1 cs"] by simp
  have n: "1 \<le> punct_length ch cs" by (simp add: punct_length_def)
  show ?thesis
    using a d [of pp_ident_char] d [of lex_number_char] b c n length_dropWhile_le [of "\<lambda>c. c \<noteq> CHR 0x0A" cs]
    unfolding lex_step_def Let_def
    by (auto simp del: dropWhile.simps split: if_splits prod.splits dest!: length_lex_char length_lex_string)
qed

function lex_loop :: "string \<Rightarrow> u32 \<Rightarrow> u32 \<Rightarrow> ptoken list" where
  "lex_loop [] line column = [ptok K_EOF [] line column]"
| "lex_loop (ch # cs) line column =
     (case lex_step ch cs line column of (ts, r, l, k) \<Rightarrow> ts @ lex_loop r l k)"
  by pat_completeness auto
termination
  by (relation "measure (\<lambda>(cs, l, k). length cs)") (auto dest!: lex_step_less [OF sym])

definition lex :: "string \<Rightarrow> ptoken list" where
  "lex source = lex_loop source 1 1"

definition parse :: "string \<Rightarrow> node_offset pm" where
  "parse source =
     pbind (pmodify (\<lambda>p. p\<lparr>p_tokens := lex source, p_current := 0, constant_ints := Map.empty\<rparr>)) (\<lambda>_.
     run_parser)"

end
