(* ===== verification/ParserForest.thy ===== *)
theory ParserForest
  imports ParserStmt
begin

text \<open>
  The graph of an arena: every node points to its first child and its next sibling. A \<open>forest\<close> is
  an arena without cycles whose links lead to nodes or to nothing. Allocating a node over nodes
  that exist and linking a node to one that does not lead back to it keep forests; on a forest the
  walks of the parser end within the rounds they are given.
\<close>

section \<open>Edges and heights\<close>

definition links :: "cast_node \<Rightarrow> node_offset set" where
  "links n = {first_child n, next_sibling n}"

definition edges :: "arena \<Rightarrow> (node_offset \<times> node_offset) set" where
  "edges A = {(x, y). \<exists>n. arena_get A x = Some n \<and> y \<in> links n \<and> arena_get A y \<noteq> None}"

definition forest :: "arena \<Rightarrow> bool" where
  "forest A \<longleftrightarrow> acyclic (edges A) \<and>
     (\<forall>x n y. arena_get A x = Some n \<longrightarrow> y \<in> links n \<longrightarrow> y < node_allocated A)"

definition height :: "arena \<Rightarrow> node_offset \<Rightarrow> nat" where
  "height A x = (if arena_get A x = None then 0 else Suc (card ((edges A)\<^sup>+ `` {x})))"

lemma edgesI: "arena_get A x = Some n \<Longrightarrow> y \<in> links n \<Longrightarrow> arena_get A y = Some m \<Longrightarrow> (x, y) \<in> edges A"
  by (auto simp: edges_def)

lemma arena_get_bound: "arena_get A x = Some n \<Longrightarrow> 0 < x \<and> x < node_allocated A"
  by (auto simp: arena_get_def split: if_splits)

lemma edges_bound: "edges A \<subseteq> {0 <..< node_allocated A} \<times> {0 <..< node_allocated A}"
  by (auto simp: edges_def dest: arena_get_bound)

lemma finite_edges: "finite (edges A)"
  using edges_bound by (rule finite_subset) simp

lemma reachable_bound: "(edges A)\<^sup>+ `` {x} \<subseteq> {0 <..< node_allocated A}"
  using trancl_subset_Sigma [OF edges_bound [of A]] by blast

lemma finite_reachable: "finite ((edges A)\<^sup>+ `` {x})"
  using reachable_bound by (rule finite_subset) simp

lemma height_child:
  assumes "forest A" and "arena_get A x = Some n" and "y \<in> links n"
  shows "height A y < height A x"
proof (cases "arena_get A y")
  case None
  with assms(2) show ?thesis by (simp add: height_def)
next
  case (Some m)
  let ?E = "edges A"
  have e: "(x, y) \<in> ?E" using assms Some by (auto intro: edgesI)
  have "?E\<^sup>+ `` {y} \<subseteq> ?E\<^sup>+ `` {x}" using e by (auto intro: trancl_into_trancl2)
  moreover have "y \<in> ?E\<^sup>+ `` {x}" using e by auto
  moreover have "y \<notin> ?E\<^sup>+ `` {y}" using assms(1) by (auto simp: forest_def acyclic_def)
  ultimately have "card (?E\<^sup>+ `` {y}) < card (?E\<^sup>+ `` {x})"
    by (intro psubset_card_mono finite_reachable) blast
  with assms(2) Some show ?thesis by (simp add: height_def)
qed

lemma height_first: "forest A \<Longrightarrow> arena_get A x = Some n \<Longrightarrow> height A (first_child n) < height A x"
  and height_next: "forest A \<Longrightarrow> arena_get A x = Some n \<Longrightarrow> height A (next_sibling n) < height A x"
  by (auto intro: height_child simp: links_def)

lemma height_le: "1 \<le> node_allocated A \<Longrightarrow> height A x \<le> node_allocated A"
  using card_mono [OF _ reachable_bound [of A x]] by (cases "arena_get A x = None") (simp_all add: height_def)

text \<open>A set of nodes that no link leaves.\<close>

definition closed_set :: "arena \<Rightarrow> node_offset set \<Rightarrow> bool" where
  "closed_set A S \<longleftrightarrow>
     (\<forall>x \<in> S. \<forall>n. arena_get A x = Some n \<longrightarrow> (\<forall>y \<in> links n. y = 0 \<or> y \<in> S))"

lemma closed_set_reach:
  assumes "(x, y) \<in> (edges A)\<^sup>*" and "closed_set A S" and "x \<in> S"
  shows "y \<in> S"
  using assms(1)
proof (induction rule: rtrancl_induct)
  case (step y z)
  then obtain n m where "arena_get A y = Some n" "z \<in> links n" "arena_get A z = Some m"
    by (auto simp: edges_def)
  with step.IH assms(2) arena_get_bound [of A z m] show ?case by (fastforce simp: closed_set_def)
qed (use assms in simp)

section \<open>Changes that keep forests\<close>

lemma acyclic_new_source:
  assumes "acyclic r" and "\<And>z. (z, x) \<notin> r" and "x \<notin> Y"
  shows "acyclic (r \<union> {x} \<times> Y)"
proof -
  have no: "(z, x) \<notin> r \<union> {x} \<times> Y" for z using assms(2,3) by auto
  have "(a, b) \<in> (r \<union> {x} \<times> Y)\<^sup>+ \<Longrightarrow> (a, b) \<in> r\<^sup>+ \<or> a = x \<and> b \<noteq> x" for a b
  proof (induction rule: trancl_induct)
    case (base y)
    with no show ?case by auto
  next
    case (step y z)
    from step.hyps(2) no have "z \<noteq> x" by auto
    from step.IH show ?case
    proof
      assume "(a, y) \<in> r\<^sup>+"
      then have "y \<noteq> x" using assms(2) by (auto elim: tranclE)
      with step.hyps(2) \<open>(a, y) \<in> r\<^sup>+\<close> show ?case by (auto intro: trancl_into_trancl)
    qed (use \<open>z \<noteq> x\<close> in simp)
  qed
  with assms(1) show ?thesis unfolding acyclic_def by blast
qed

lemma forest_alloc:
  assumes "arena_inv A" and "forest A" and "node_wf n" and "arena_alloc A n = Ret (Some off, B)"
    and "\<And>y. y \<in> links n \<Longrightarrow> y < node_allocated A"
  shows "forest B"
proof -
  note D = arena_alloc_SomeD [OF assms(4)]
  have get: "arena_get B = (arena_get A)(off \<mapsto> n)" by (rule arena_get_alloc [OF assms(1,3,4)])
  have B: "node_allocated B = Suc (node_allocated A)" "node_capacity B = node_capacity A" using D by auto
  have off: "off = node_allocated A" "off < node_capacity A" using D by auto
  have none: "off \<notin> links m" if "arena_get A x = Some m" for x m
    using assms(2) that off unfolding forest_def by (metis less_irrefl)
  have fresh: "off \<notin> links n" using assms(5) [of off] off by auto
  have "edges B \<subseteq> edges A \<union> {off} \<times> links n"
    using none fresh by (auto simp: edges_def get split: if_splits)
  moreover have "acyclic (edges A \<union> {off} \<times> links n)"
  proof (rule acyclic_new_source)
    show "acyclic (edges A)" using assms(2) by (simp add: forest_def)
    show "(z, off) \<notin> edges A" for z using none by (auto simp: edges_def)
  qed (fact fresh)
  ultimately have "acyclic (edges B)" by (rule acyclic_subset [rotated])
  moreover have "y < node_allocated B"
    if "arena_get B x = Some m" "y \<in> links m" for x m y
  proof (cases "x = off")
    case True
    with that assms(5) [of y] show ?thesis by (auto simp: B get)
  next
    case False
    with that have "arena_get A x = Some m" by (simp add: get)
    with that(2) assms(2) show ?thesis unfolding forest_def B by (metis less_SucI)
  qed
  ultimately show ?thesis by (simp add: forest_def)
qed

lemma forest_link:
  assumes "forest A" and get: "arena_get B = (arena_get A)(x \<mapsto> m)"
    and B: "node_allocated B = node_allocated A"
    and "arena_get A x = Some n" and "links m \<subseteq> insert y (links n)"
    and "y < node_allocated A"
    and "arena_get A y \<noteq> None \<Longrightarrow> (y, x) \<notin> (edges A)\<^sup>*"
  shows "forest B"
proof -
  have dom: "arena_get B z \<noteq> None \<longleftrightarrow> arena_get A z \<noteq> None" for z
    using assms(4) by (auto simp: get)
  have sub: "edges B \<subseteq> (if arena_get A y = None then edges A else insert (x, y) (edges A))"
  proof (rule subrelI)
    fix a b assume "(a, b) \<in> edges B"
    then obtain k where k: "arena_get B a = Some k" "b \<in> links k" "arena_get A b \<noteq> None"
      unfolding edges_def using dom by auto
    show "(a, b) \<in> (if arena_get A y = None then edges A else insert (x, y) (edges A))"
    proof (cases "a = x")
      case True
      then have "b = y \<or> b \<in> links n" using k assms(5) by (auto simp: get)
      with True k assms(4) show ?thesis by (auto simp: edges_def)
    next
      case False
      with k show ?thesis by (auto simp: edges_def get)
    qed
  qed
  have "acyclic (if arena_get A y = None then edges A else insert (x, y) (edges A))"
    using assms(1,7) by (auto simp: forest_def acyclic_insert)
  then have "acyclic (edges B)" by (rule acyclic_subset) (fact sub)
  moreover have "z < node_allocated B"
    if "arena_get B a = Some k" "z \<in> links k" for a k z
  proof (cases "a = x")
    case True
    with that have "z \<in> insert y (links n)" using assms(5) by (auto simp: get)
    with assms(1,4,6) show ?thesis by (auto simp: forest_def B)
  next
    case False
    with that assms(1) show ?thesis by (auto simp: forest_def B get)
  qed
  ultimately show ?thesis by (simp add: forest_def)
qed

section \<open>The walks on a forest\<close>

lemma chain_end_ends:
  "forest A \<Longrightarrow> height A x < n \<Longrightarrow> \<exists>y. chain_end n A x = Done y"
proof (induction n arbitrary: x)
  case (Suc n)
  show ?case
  proof (cases "arena_get A x")
    case (Some node)
    with height_next [OF Suc.prems(1) Some] Suc.prems(2) have "height A (next_sibling node) < n" by simp
    with Suc.IH [OF Suc.prems(1) this] Some show ?thesis by auto
  qed simp
qed simp

lemma chain_end_own: "closed_set A S \<Longrightarrow> x \<in> insert 0 S \<Longrightarrow> chain_end n A x = Done y \<Longrightarrow> y \<in> insert 0 S"
proof (induction n arbitrary: x)
  case (Suc n)
  show ?case
  proof (cases "arena_get A x")
    case None
    with Suc.prems(2,3) show ?thesis by simp
  next
    case (Some node)
    then have "x \<in> S" using Suc.prems(2) by (auto simp: arena_get_def)
    then have "next_sibling node \<in> insert 0 S"
      using Suc.prems(1) Some by (auto simp: closed_set_def links_def)
    from Suc.IH [OF Suc.prems(1) this] Suc.prems(2,3) Some show ?thesis by (auto split: if_splits)
  qed
qed simp

lemma cast_operand_ends:
  "forest A \<Longrightarrow> height A x < n \<Longrightarrow>
     \<exists>r. cast_operand n A x = Done r \<and> (\<forall>y. r = Some y \<longrightarrow> height A y < height A x)"
proof (induction n arbitrary: x)
  case (Suc n)
  show ?case
  proof (cases "arena_get A x")
    case (Some child)
    let ?y = "next_sibling child"
    have less: "height A ?y < height A x" by (rule height_next [OF Suc.prems(1) Some])
    with Suc.prems(2) have "height A ?y < n" by simp
    from Suc.IH [OF Suc.prems(1) this] obtain r where
      r: "cast_operand n A ?y = Done r" "\<And>z. r = Some z \<Longrightarrow> height A z < height A ?y" by blast
    show ?thesis
    proof (cases "arena_get A ?y")
      case (Some next_node)
      with \<open>arena_get A x = Some child\<close> r less show ?thesis
        by (cases "skipped_in_cast (kind next_node)") (auto intro: less_trans)
    qed (use Some in simp)
  qed simp
qed simp

text \<open>A computation that only looks at the parser, and ends.\<close>

definition observes :: "'a pm \<Rightarrow> parser \<Rightarrow> bool" where
  "observes m p \<longleftrightarrow> (\<exists>x. m p = Parsed x p) \<or> (\<exists>s. m p = Stuck s \<and> s \<noteq> OutOfFuel)"

lemma observes_simps [simp]:
  "observes (pret x) p" "observes (pget f) p" "observes (arena_node off) p" "observes (text_at_offset off) p"
  "observes (\<lambda>q. of_run r q) p \<longleftrightarrow> r \<noteq> NoFuel"
  by (auto simp: observes_def pret_def pget_def arena_node_def text_at_offset_def of_run_def
      split: outcome.splits run.splits)

lemma observes_bind:
  "observes m p \<Longrightarrow> (\<And>x. m p = Parsed x p \<Longrightarrow> observes (k x) p) \<Longrightarrow> observes (pbind m k) p"
  by (auto simp: observes_def pbind_def split: presult.splits)

lemma observes_when_some:
  "observes m p \<Longrightarrow> (\<And>x. m p = Parsed (Some x) p \<Longrightarrow> observes (k x) p) \<Longrightarrow> observes (when_some m k) p"
  unfolding when_some_def by (rule observes_bind) (auto split: option.split)

lemma observes_of_run: "r \<noteq> NoFuel \<Longrightarrow> observes (of_run r) p"
  by (auto simp: observes_def of_run_def split: run.splits)

lemma arena_node_Parsed [simp]: "arena_node off p = Parsed r q \<longleftrightarrow> r = arena_get (p_arena p) off \<and> q = p"
  by (auto simp: arena_node_def pget_def)

lemma eval_binary_observes: "eval_binary_i64 op l r \<noteq> NoFuel"
  by (simp add: eval_binary_i64_def)

lemma binary_operands_below:
  assumes "forest A" and "arena_get A off = Some node" and "binary_operands A node = (l, r)"
  shows "height A l < height A off \<and> (height A r < height A off)"
proof (cases "arena_get A (first_child node)")
  case None
  then have "l = first_child node" "r = 0" using assms(3) by (auto simp: binary_operands_def)
  moreover have "height A 0 = 0" by (simp add: height_def arena_get_def)
  ultimately show ?thesis
    using height_first [OF assms(1,2)] by simp
next
  case (Some w)
  note h = height_first [OF assms(1,2)] height_next [OF assms(1,2)] height_first [OF assms(1) Some]
    height_next [OF assms(1) Some]
  from assms(3) Some have "l \<in> {first_child w, first_child node}"
    "r \<in> {next_sibling w, next_sibling node}" by (auto simp: binary_operands_def split: if_splits)
  with h show ?thesis by auto
qed

lemma eval_node_observes:
  assumes "forest (p_arena p)" and "arena_get (p_arena p) off = Some node"
    and "height (p_arena p) off \<le> node_allocated (p_arena p)"
    and ev: "\<And>y. height (p_arena p) y < height (p_arena p) off \<Longrightarrow> observes (ev y) p"
  shows "observes (eval_node ev node) p"
proof -
  let ?A = "p_arena p"
  note h = height_first [OF assms(1,2)] height_next [OF assms(1,2)]
  have b: "observes (ev (first_child w)) p \<and> observes (ev (next_sibling w)) p"
    if "arena_get ?A (next_sibling node) = Some w" for w
    using height_first [OF assms(1) that] height_next [OF assms(1) that] h(2) by (auto intro: ev)
  have "height ?A (first_child node) < node_rounds p" using h(1) assms(3) by (simp add: node_rounds_def)
  then obtain r where r: "cast_operand (node_rounds p) ?A (first_child node) = Done r"
    "\<And>y. r = Some y \<Longrightarrow> height ?A y < height ?A (first_child node)"
    using cast_operand_ends [OF assms(1)] by blast
  have cast: "observes (\<lambda>p. of_run (cast_operand (node_rounds p) (p_arena p) (first_child node)) p) p"
    using r(1) by (simp add: observes_def of_run_def)
  have op: "observes (case operand of Some next \<Rightarrow> ev next | None \<Rightarrow> ev (first_child node)) p"
    if "(\<lambda>p. of_run (cast_operand (node_rounds p) (p_arena p) (first_child node)) p) p = Parsed operand p" for operand
    using that r ev h(1) less_trans [OF r(2) h(1)] by (auto simp: of_run_def split: option.split)
  have bin: "observes (case lr of (l, r) \<Rightarrow> when_some (ev l) (\<lambda>lhs. when_some (ev r) (\<lambda>rhs.
      of_run (eval_binary_i64 (node_data node) lhs rhs)))) p"
    if "pget (\<lambda>p. binary_operands (p_arena p) node) p = Parsed lr p" for lr
    using that binary_operands_below [OF assms(1,2)]
    by (auto simp: pget_def split: prod.split intro!: observes_when_some observes_of_run eval_binary_observes ev)
  consider (binary) "kind node = 64" | (conversion) "kind node = 70" | (other) "kind node \<notin> {64, 70}" by blast
  then show ?thesis
  proof cases
    case binary
    then show ?thesis unfolding eval_node_def by simp (rule observes_bind, simp, rule bin)
  next
    case conversion
    then show ?thesis unfolding eval_node_def using observes_bind [OF cast op] by simp
  next
    case other
    then show ?thesis unfolding eval_node_def
      using h b by (auto intro!: observes_when_some ev)
  qed
qed

lemma eval_constant_at_observes:
  "forest (p_arena p) \<Longrightarrow> 1 \<le> node_allocated (p_arena p) \<Longrightarrow> height (p_arena p) off < n \<Longrightarrow>
     observes (eval_constant_at n off) p"
proof (induction n arbitrary: off)
  case (Suc n)
  show ?case
  proof (cases "arena_get (p_arena p) off")
    case None
    then show ?thesis by (simp add: when_some_def pbind_def arena_node_def pget_def observes_def pret_def)
  next
    case (Some node)
    have "observes (eval_node (eval_constant_at n) node) p"
      using Suc.prems Suc.IH by (intro eval_node_observes [OF Suc.prems(1) Some] height_le) auto
    with Some show ?thesis by (auto intro!: observes_when_some)
  qed
qed simp

end
