(* ===== verification/ParserRun.thy ===== *)
theory ParserRun
  imports ParserForest
begin

text \<open>
  Contracts of the functions of the parser. \<open>ext p q\<close> says what a call that leads from \<open>p\<close> to \<open>q\<close>
  keeps: the tokens, the nodes that existed before, the invariant; tokens are consumed, never put
  back, and the new nodes point to new nodes only. \<open>own p q r\<close> says that a result is a new node or
  null. \<open>meets l m R\<close> is the contract of a function that is run with at most \<open>l\<close> tokens left: it does
  not run out of fuel, and it keeps what \<open>ext\<close> says, also when it fails. The rules below take a
  contract apart along the definition of the function.
\<close>

section \<open>Well-formed parsers\<close>

definition asm_words :: "string list" where
  "asm_words = [''asm'', ''__asm__'', ''__asm'']"

definition tokens_ok :: "ptoken list \<Rightarrow> bool" where
  "tokens_ok ts \<longleftrightarrow> ts \<noteq> [] \<and> pk_kind (last ts) = K_EOF \<and> pk_text (last ts) = [] \<and>
     (\<forall>t \<in> set ts. pk_text t \<notin> set asm_words)"

definition nodes_wf :: "arena \<Rightarrow> bool" where
  "nodes_wf A \<longleftrightarrow> (\<forall>x n. arena_get A x = Some n \<longrightarrow> node_wf n)"

definition parser_inv :: "parser \<Rightarrow> bool" where
  "parser_inv p \<longleftrightarrow>
     arena_inv (p_arena p) \<and> forest (p_arena p) \<and> nodes_wf (p_arena p) \<and> tokens_ok (p_tokens p) \<and>
     p_current p \<le> length (p_tokens p) \<and>
     (\<forall>name k t. typedef_kinds p name = Some (k, t) \<longrightarrow> k < 2 ^ 16 \<and> t < 2 ^ 32)"

definition mark :: "parser \<Rightarrow> nat" where
  "mark p = node_allocated (p_arena p)"

definition ext :: "parser \<Rightarrow> parser \<Rightarrow> bool" where
  "ext p q \<longleftrightarrow>
     parser_inv q \<and> p_tokens q = p_tokens p \<and> p_current p \<le> p_current q \<and> mark p \<le> mark q \<and>
     node_capacity (p_arena q) = node_capacity (p_arena p) \<and>
     (\<forall>x < mark p. arena_get (p_arena q) x = arena_get (p_arena p) x) \<and>
     closed_set (p_arena q) {mark p ..< mark q}"

definition own :: "parser \<Rightarrow> parser \<Rightarrow> node_offset \<Rightarrow> bool" where
  "own p q r \<longleftrightarrow> r = 0 \<or> mark p \<le> r \<and> r < mark q"

definition owns :: "parser \<Rightarrow> parser \<Rightarrow> node_offset \<times> node_offset \<Rightarrow> bool" where
  "owns p q c \<longleftrightarrow> own p q (fst c) \<and> own p q (snd c)"

definition live :: "parser \<Rightarrow> bool" where
  "live p \<longleftrightarrow> p_current p < length (p_tokens p)"

lemma ext_refl: "parser_inv p \<Longrightarrow> ext p p"
  by (simp add: ext_def closed_set_def)

lemma closed_setD: "closed_set A S \<Longrightarrow> x \<in> S \<Longrightarrow> arena_get A x = Some n \<Longrightarrow> y \<in> links n \<Longrightarrow> y = 0 \<or> y \<in> S"
  by (auto simp: closed_set_def)

lemma ext_trans:
  assumes "ext p q" and "ext q r"
  shows "ext p r"
proof -
  have "closed_set (p_arena r) {mark p ..< mark r}"
    unfolding closed_set_def
  proof (intro ballI allI impI)
    fix x n y
    assume x: "x \<in> {mark p ..< mark r}" and g: "arena_get (p_arena r) x = Some n" and y: "y \<in> links n"
    show "y = 0 \<or> y \<in> {mark p ..< mark r}"
    proof (cases "x < mark q")
      case True
      then have "arena_get (p_arena q) x = Some n" using assms(2) g by (simp add: ext_def)
      from closed_setD [of _ "{mark p ..< mark q}", OF _ _ this y] True x assms
      show ?thesis by (auto simp: ext_def)
    next
      case False
      with closed_setD [of _ "{mark q ..< mark r}", OF _ _ g y] x assms show ?thesis by (auto simp: ext_def)
    qed
  qed
  with assms show ?thesis by (auto simp: ext_def)
qed

lemma extD:
  assumes "ext p q"
  shows "parser_inv q" "p_tokens q = p_tokens p" "p_current p \<le> p_current q" "mark p \<le> mark q"
    "tokens_left q \<le> tokens_left p"
  using assms by (auto simp: ext_def tokens_left_def)

lemma own_null [simp]: "own p q 0"
  by (simp add: own_def)

lemma own_up: "own p q r \<Longrightarrow> mark q \<le> mark q' \<Longrightarrow> own p q' r"
  by (auto simp: own_def)

lemma own_up_eq: "own p q r \<Longrightarrow> mark q = mark q' \<Longrightarrow> own p q' r"
  by (simp add: own_def)

lemma own_down: "own q q' r \<Longrightarrow> ext p q \<Longrightarrow> own p q' r"
  by (auto simp: own_def ext_def)

lemma owns_null [simp]: "owns p q (0, 0)"
  by (simp add: owns_def)

lemma owns_up: "owns p q r \<Longrightarrow> mark q \<le> mark q' \<Longrightarrow> owns p q' r"
  by (auto simp: owns_def own_up)

lemma owns_fst: "owns p q c \<Longrightarrow> own p q (fst c)" and owns_snd: "owns p q c \<Longrightarrow> own p q (snd c)"
  by (auto simp: owns_def)

lemma own_small: "parser_inv q \<Longrightarrow> own p q r \<Longrightarrow> r < 2 ^ 32"
  by (auto simp: own_def parser_inv_def arena_inv_def mark_def)

lemma own_word: "ext p0 q \<Longrightarrow> own p0 q r \<Longrightarrow> r < 4294967296"
  using own_small [OF extD(1)] by simp

lemma mark_capacity: "parser_inv p \<Longrightarrow> mark p \<le> node_capacity (p_arena p) \<and> 1 \<le> mark p"
  by (auto simp: parser_inv_def arena_inv_def mark_def)

lemma tokens_left_less: "ext p0 p \<Longrightarrow> p_current p0 < p_current p \<Longrightarrow> tokens_left p < tokens_left p0"
  by (auto simp: ext_def parser_inv_def tokens_left_def)

section \<open>Tokens that are not the last one\<close>

definition wakes :: "(parser \<Rightarrow> bool) \<Rightarrow> bool" where
  "wakes c \<longleftrightarrow> (\<forall>p. tokens_ok (p_tokens p) \<longrightarrow> c p \<longrightarrow> live p)"

lemma wakesD: "wakes c \<Longrightarrow> parser_inv p \<Longrightarrow> c p \<Longrightarrow> live p"
  by (simp add: wakes_def parser_inv_def)

lemma not_live: "tokens_ok (p_tokens p) \<Longrightarrow> \<not> live p \<Longrightarrow>
    pk_kind (current_token p) = K_EOF \<and> pk_text (current_token p) = []"
  by (simp add: live_def current_token_def tokens_ok_def)

lemma wakes_or [simp]: "wakes (\<lambda>p. c p \<or> d p) \<longleftrightarrow> wakes c \<and> wakes d"
  by (auto simp: wakes_def)

lemma wakes_and: "wakes c \<Longrightarrow> wakes (\<lambda>p. c p \<and> d p)" "wakes d \<Longrightarrow> wakes (\<lambda>p. c p \<and> d p)"
  by (auto simp: wakes_def)

lemma wakes_if_text: "(\<And>p. c p \<Longrightarrow> pk_text (current_token p) \<noteq> []) \<Longrightarrow> wakes c"
  unfolding wakes_def using not_live by blast

lemma wakes_if_kind: "(\<And>p. c p \<Longrightarrow> pk_kind (current_token p) \<noteq> K_EOF) \<Longrightarrow> wakes c"
  unfolding wakes_def using not_live by blast

lemma wakes_simps [simp]:
  "wakes at_word" "wakes at_attribute" "wakes (\<lambda>p. \<not> is_at_end p)" "wakes is_type_specifier" "wakes is_type_qualifier"
  "wakes is_storage_class_specifier" "wakes is_function_specifier" "wakes is_declarator_start"
  "wakes is_gnu_signed_keyword" "wakes at_designator" "wakes is_typeof_keyword"
  "wakes (at_punct s)" "k \<noteq> K_EOF \<Longrightarrow> wakes (at_kind k)" "s \<noteq> [] \<Longrightarrow> wakes (at_text s)"
  "[] \<notin> set ws \<Longrightarrow> wakes (text_in ws)"
  by (rule wakes_if_kind wakes_if_text;
      auto simp: at_word_def at_kind_def at_attribute_def is_at_end_def is_type_specifier_def is_type_qualifier_def
        is_storage_class_specifier_def is_function_specifier_def is_declarator_start_def is_gnu_signed_keyword_def
        at_designator_def is_typeof_keyword_def at_punct_def at_text_def text_in_def)+

text \<open>Conditions of the parser that are conjunctions; \<open>woken\<close> is what a condition that holds tells.\<close>

lemma wakes_and_simps [simp]:
  "wakes (\<lambda>p. at_word p \<and> c p)" "wakes (\<lambda>p. at_punct s p \<and> c p)" "k \<noteq> K_EOF \<Longrightarrow> wakes (\<lambda>p. at_kind k p \<and> c p)"
  "s \<noteq> [] \<Longrightarrow> wakes (\<lambda>p. at_text s p \<and> c p)" "wakes (\<lambda>p. c p \<and> \<not> is_at_end p)" "wakes (\<lambda>p. \<not> is_at_end p \<and> c p)"
  by (rule wakes_and; simp)+

definition woken :: "(parser \<Rightarrow> bool) \<Rightarrow> parser \<Rightarrow> bool" where
  "woken c p \<longleftrightarrow> (wakes c \<longrightarrow> live p)"

lemma woken_live [simp]: "wakes c \<Longrightarrow> woken c p \<longleftrightarrow> live p"
  by (simp add: woken_def)

section \<open>Running a function\<close>

definition runs :: "parser \<Rightarrow> 'a pm \<Rightarrow> parser \<Rightarrow> ('a \<Rightarrow> parser \<Rightarrow> bool) \<Rightarrow> bool" where
  "runs p0 m p Q \<longleftrightarrow>
     (case m p of Parsed x q \<Rightarrow> Q x q | Failed e q \<Rightarrow> ext p0 q | Stuck s \<Rightarrow> s \<noteq> OutOfFuel)"

definition meets :: "nat \<Rightarrow> 'a pm \<Rightarrow> (parser \<Rightarrow> parser \<Rightarrow> 'a \<Rightarrow> bool) \<Rightarrow> bool" where
  "meets l m R \<longleftrightarrow> (\<forall>p. parser_inv p \<longrightarrow> tokens_left p \<le> l \<longrightarrow> runs p m p (\<lambda>r q. ext p q \<and> R p q r))"

text \<open>The same with less than \<open>l\<close> tokens left, and with a current token that is not the last.\<close>

definition below :: "nat \<Rightarrow> 'a pm \<Rightarrow> (parser \<Rightarrow> parser \<Rightarrow> 'a \<Rightarrow> bool) \<Rightarrow> bool" where
  "below l m R \<longleftrightarrow> (\<forall>p. parser_inv p \<longrightarrow> tokens_left p < l \<longrightarrow> runs p m p (\<lambda>r q. ext p q \<and> R p q r))"

definition meets_live :: "nat \<Rightarrow> 'a pm \<Rightarrow> (parser \<Rightarrow> parser \<Rightarrow> 'a \<Rightarrow> bool) \<Rightarrow> bool" where
  "meets_live l m R \<longleftrightarrow>
     (\<forall>p. parser_inv p \<longrightarrow> tokens_left p \<le> l \<longrightarrow> live p \<longrightarrow> runs p m p (\<lambda>r q. ext p q \<and> R p q r))"

named_theorems runs_intros \<open>rules that take a contract apart along a definition\<close>

lemma meetsI: "(\<And>p. parser_inv p \<Longrightarrow> ext p p \<Longrightarrow> tokens_left p \<le> l \<Longrightarrow>
    runs p m p (\<lambda>r q. ext p q \<and> R p q r)) \<Longrightarrow> meets l m R"
  by (simp add: meets_def ext_refl)

lemma belowI: "(\<And>p. parser_inv p \<Longrightarrow> ext p p \<Longrightarrow> tokens_left p < l \<Longrightarrow> tokens_left p \<le> l \<Longrightarrow>
    runs p m p (\<lambda>r q. ext p q \<and> R p q r)) \<Longrightarrow> below l m R"
  by (simp add: below_def ext_refl)

lemma meets_liveI: "(\<And>p. parser_inv p \<Longrightarrow> ext p p \<Longrightarrow> tokens_left p \<le> l \<Longrightarrow> live p \<Longrightarrow>
    runs p m p (\<lambda>r q. ext p q \<and> R p q r)) \<Longrightarrow> meets_live l m R"
  by (simp add: meets_live_def ext_refl)

lemma runs_weaken: "runs p0 m p Q \<Longrightarrow> (\<And>x q. Q x q \<Longrightarrow> Q' x q) \<Longrightarrow> runs p0 m p Q'"
  by (auto simp: runs_def split: presult.splits)

lemma runs_base: "runs p m p Q \<Longrightarrow> ext p0 p \<Longrightarrow> (\<And>x q. Q x q \<Longrightarrow> Q' x q) \<Longrightarrow> runs p0 m p Q'"
  by (auto simp: runs_def split: presult.splits intro: ext_trans)

lemma runs_bind [runs_intros]:
  "runs p0 m p (\<lambda>x q. runs p0 (k x) q Q) \<Longrightarrow> runs p0 (pbind m k) p Q"
  by (auto simp: runs_def pbind_def split: presult.splits)

lemma runs_pret [runs_intros]: "Q x p \<Longrightarrow> runs p0 (pret x) p Q"
  by (simp add: runs_def pret_def)

lemma runs_pstuck [runs_intros]: "s \<noteq> OutOfFuel \<Longrightarrow> runs p0 (pstuck s) p Q"
  by (simp add: runs_def pstuck_def)

lemma runs_pget [runs_intros]: "Q (f p) p \<Longrightarrow> runs p0 (pget f) p Q"
  by (simp add: runs_def pget_def)

lemma runs_look [runs_intros]: "Q (f p) p \<Longrightarrow> runs p0 (look f) p Q"
  by (simp add: runs_def look_def)

lemma runs_current_text [runs_intros]: "Q (pk_text (current_token p)) p \<Longrightarrow> runs p0 current_text p Q"
  by (simp add: current_text_def runs_look)

lemma runs_let [runs_intros]: "runs p0 (f x) p Q \<Longrightarrow> runs p0 (let y = x in f y) p Q"
  by simp

lemma runs_if [runs_intros]:
  "(b \<Longrightarrow> runs p0 m p Q) \<Longrightarrow> (\<not> b \<Longrightarrow> runs p0 n p Q) \<Longrightarrow> runs p0 (if b then m else n) p Q"
  by simp

lemma runs_case_option [runs_intros]:
  "(r = None \<Longrightarrow> runs p0 m p Q) \<Longrightarrow> (\<And>x. r = Some x \<Longrightarrow> runs p0 (k x) p Q) \<Longrightarrow>
     runs p0 (case r of None \<Rightarrow> m | Some x \<Rightarrow> k x) p Q"
  by (auto split: option.split)

lemma runs_case_prod [runs_intros]:
  "(\<And>a b. r = (a, b) \<Longrightarrow> runs p0 (k a b) p Q) \<Longrightarrow> runs p0 (case r of (a, b) \<Rightarrow> k a b) p Q"
  by (auto split: prod.split)

lemma runs_pif [runs_intros]:
  assumes "ext p0 p" and "c p \<Longrightarrow> woken c p \<Longrightarrow> runs p0 a p Q"
    and "\<not> c p \<Longrightarrow> woken (\<lambda>p. \<not> c p) p \<Longrightarrow> runs p0 b p Q"
  shows "runs p0 (pif c a b) p Q"
  unfolding pif_def
  using assms(2,3) wakesD [of c p] wakesD [of "\<lambda>p. \<not> c p" p] extD(1) [OF assms(1)]
  by (cases "c p") (auto intro!: runs_bind runs_look simp: woken_def)

lemma runs_fail_here [runs_intros]: "ext p0 p \<Longrightarrow> runs p0 (fail_here msg) p Q"
  unfolding fail_here_def by (rule runs_bind, rule runs_look) (simp add: runs_def pfail_def)

lemma ext_current:
  "ext p0 p \<Longrightarrow> live p \<Longrightarrow> ext p0 (p\<lparr>p_current := p_current p + 1\<rparr>)"
  by (auto simp: ext_def parser_inv_def live_def mark_def)

lemma runs_advance [runs_intros]:
  assumes "ext p0 p"
    and "\<And>q. ext p0 q \<Longrightarrow> ext p q \<Longrightarrow> mark p = mark q \<Longrightarrow> p_current p \<le> p_current q \<Longrightarrow>
      (live p \<longrightarrow> p_current p < p_current q) \<Longrightarrow> Q () q"
  shows "runs p0 p_advance p Q"
proof (cases "live p")
  case True
  let ?q = "p\<lparr>p_current := p_current p + 1\<rparr>"
  have "p_advance p = Parsed () ?q" using True by (simp add: p_advance_def pmodify_def live_def)
  moreover have "Q () ?q"
    using ext_current [OF assms(1) True] ext_current [OF ext_refl [OF extD(1) [OF assms(1)]] True]
    by (intro assms(2)) (simp_all add: mark_def)
  ultimately show ?thesis by (simp add: runs_def)
next
  case False
  then have "p_advance p = Parsed () p" by (simp add: p_advance_def pmodify_def live_def)
  moreover have "Q () p" using assms False by (auto intro: ext_refl extD)
  ultimately show ?thesis by (simp add: runs_def)
qed

lemma runs_skip [runs_intros]:
  assumes "ext p0 p"
    and "\<And>q. ext p0 q \<Longrightarrow> ext p q \<Longrightarrow> mark p = mark q \<Longrightarrow> p_current p < p_current q \<Longrightarrow> live p \<Longrightarrow> at_punct s p \<Longrightarrow> Q True q"
    and "\<not> at_punct s p \<Longrightarrow> Q False p"
  shows "runs p0 (skip_punctuator s) p Q"
  unfolding skip_punctuator_def using assms by (auto intro!: runs_intros)

lemma runs_expect [runs_intros]:
  assumes "ext p0 p" and "s \<noteq> []"
    and "\<And>q. ext p0 q \<Longrightarrow> ext p q \<Longrightarrow> mark p = mark q \<Longrightarrow> p_current p < p_current q \<Longrightarrow> live p \<Longrightarrow> Q () q"
  shows "runs p0 (expect s) p Q"
  unfolding expect_def using assms by (auto intro!: runs_intros)

section \<open>Calls\<close>

lemma runs_step:
  assumes "runs p m p (\<lambda>r q. ext p q \<and> R p q r)" and "ext p0 p"
    and "\<And>r q. ext p0 q \<Longrightarrow> ext p q \<Longrightarrow> mark p \<le> mark q \<Longrightarrow> p_current p \<le> p_current q \<Longrightarrow> R p q r \<Longrightarrow> Q r q"
  shows "runs p0 m p Q"
  using assms(1,2) by (rule runs_base) (use assms(2,3) in \<open>blast intro: ext_trans extD\<close>)

lemma runs_call:
  assumes "meets l m R" and "tokens_left p0 \<le> l" and "ext p0 p"
    and "\<And>r q. ext p0 q \<Longrightarrow> ext p q \<Longrightarrow> mark p \<le> mark q \<Longrightarrow> p_current p \<le> p_current q \<Longrightarrow> R p q r \<Longrightarrow> Q r q"
  shows "runs p0 m p Q"
  by (rule runs_step [OF _ assms(3,4)]) (use assms(1,2) extD [OF assms(3)] in \<open>simp_all add: meets_def\<close>)

lemma left_below:
  assumes "tokens_left p0 < l \<or> p_current p0 < p_current p" and "tokens_left p0 \<le> l" and "ext p0 p"
  shows "tokens_left p < l"
  using assms tokens_left_less [OF assms(3)] extD(5) [OF assms(3)] by auto

text \<open>
  A call that returns a node; of a function that may call nonterminals at once, when a token has
  been consumed; of a function that needs a current token.
\<close>

lemma runs_node:
  assumes "meets l m own" and "tokens_left p0 \<le> l" and "ext p0 p"
    and "\<And>r q. ext p0 q \<Longrightarrow> ext p q \<Longrightarrow> mark p \<le> mark q \<Longrightarrow> p_current p \<le> p_current q \<Longrightarrow>
      own p q r \<Longrightarrow> own p0 q r \<Longrightarrow> Q r q"
  shows "runs p0 m p Q"
  using assms(1-3) by (rule runs_call) (use assms(3,4) own_down in blast)

lemma runs_node_below:
  assumes "below l m own" and "tokens_left p0 \<le> l" and "ext p0 p"
    and "tokens_left p0 < l \<or> p_current p0 < p_current p"
    and "\<And>r q. ext p0 q \<Longrightarrow> ext p q \<Longrightarrow> mark p \<le> mark q \<Longrightarrow> p_current p \<le> p_current q \<Longrightarrow>
      own p q r \<Longrightarrow> own p0 q r \<Longrightarrow> Q r q"
  shows "runs p0 m p Q"
proof (rule runs_step [OF _ assms(3)])
  show "runs p m p (\<lambda>r q. ext p q \<and> own p q r)"
    using assms(1) left_below [OF assms(4,2,3)] extD [OF assms(3)] by (simp add: below_def)
qed (use assms(3,5) own_down in blast)

lemma runs_node_live:
  assumes "meets_live l m own" and "tokens_left p0 \<le> l" and "ext p0 p" and "live p"
    and "\<And>r q. ext p0 q \<Longrightarrow> ext p q \<Longrightarrow> mark p \<le> mark q \<Longrightarrow> p_current p \<le> p_current q \<Longrightarrow>
      own p q r \<Longrightarrow> own p0 q r \<Longrightarrow> Q r q"
  shows "runs p0 m p Q"
proof (rule runs_step [OF _ assms(3)])
  show "runs p m p (\<lambda>r q. ext p q \<and> own p q r)"
    using assms(1,2,4) extD [OF assms(3)] by (simp add: meets_live_def)
qed (use assms(3,5) own_down in blast)

section \<open>Nodes\<close>

lemma arena_get_store_string:
  assumes "arena_inv A" and "store_string A s = Ret (r, B)"
  shows "arena_get B = arena_get A" "node_allocated B = node_allocated A" "node_capacity B = node_capacity A"
proof -
  show n: "node_allocated B = node_allocated A" "node_capacity B = node_capacity A"
    using assms(2) by (auto simp: store_string_def Let_def split: if_splits option.splits)
  show "arena_get B = arena_get A"
  proof (cases "B = A")
    case False
    let ?b = "string_start A * slot_size + string_allocated A * slot_size"
    from False assms(2) have m: "mmap B = write_block (mmap A) ?b (str_bytes s)"
      by (auto simp: store_string_def Let_def split: if_splits option.splits)
    have d: "x * slot_size + slot_size \<le> ?b" if "x < node_allocated A" for x
    proof -
      have "x + 1 \<le> string_start A" using that assms(1) by (simp add: arena_inv_def)
      from mult_le_mono1 [OF this, of slot_size] show ?thesis by simp
    qed
    have "decode_node (mmap B) (x * slot_size) = decode_node (mmap A) (x * slot_size)" if "x < node_allocated A" for x
      using d [OF that] by (simp add: m write_block_def decode_node_disjoint)
    then show ?thesis by (auto simp: arena_get_def n)
  qed simp
qed

lemma store_string_small:
  assumes "arena_inv A" and "store_string A s = Ret (Some r, B)"
  shows "r < 2 ^ 32"
proof -
  have "r = 0 \<or> r = string_start A + string_allocated A"
    using assms(2) by (auto simp: store_string_def Let_def split: if_splits option.splits)
  with assms(1) show ?thesis by (auto simp: arena_inv_def)
qed

lemma closed_set_same: "closed_set A S \<Longrightarrow> arena_get B = arena_get A \<Longrightarrow> closed_set B S"
  by (simp add: closed_set_def)

lemma forest_same_get:
  "forest A \<Longrightarrow> arena_get B = arena_get A \<Longrightarrow> node_allocated B = node_allocated A \<Longrightarrow> forest B"
  by (simp add: forest_def edges_def)

lemma ext_store:
  assumes "ext p0 p" and "store_string (p_arena p) s = Ret (r, B)"
  shows "ext p0 (p\<lparr>p_arena := B\<rparr>)"
proof -
  from extD(1) [OF assms(1)] have inv: "arena_inv (p_arena p)" by (simp add: parser_inv_def)
  note g = arena_get_store_string [OF inv assms(2)]
  have "parser_inv (p\<lparr>p_arena := B\<rparr>)"
    using extD(1) [OF assms(1)] store_string_inv [OF inv assms(2)] forest_same_get [OF _ g(1,2)] g(1)
    by (simp add: parser_inv_def nodes_wf_def)
  moreover have "closed_set B {mark p0 ..< mark p}"
    using assms(1) by (intro closed_set_same [OF _ g(1)]) (simp add: ext_def)
  ultimately show ?thesis using assms(1) g by (simp add: ext_def mark_def)
qed

lemma runs_store [runs_intros]:
  assumes "ext p0 p"
    and "\<And>r q. ext p0 q \<Longrightarrow> ext p q \<Longrightarrow> mark p = mark q \<Longrightarrow> p_current p = p_current q \<Longrightarrow> r < 4294967296 \<Longrightarrow> Q r q"
  shows "runs p0 (store_text s) p Q"
proof -
  from extD(1) [OF assms(1)] have inv: "arena_inv (p_arena p)" by (simp add: parser_inv_def)
  show ?thesis
  proof (cases "store_string (p_arena p) s")
    case (Ret rB)
    then obtain r B where s: "store_string (p_arena p) s = Ret (r, B)" by (cases rB) auto
    have "or_null r < 4294967296"
      using store_string_small [OF inv] s by (auto simp: or_null_def split: option.split)
    moreover have "ext p (p\<lparr>p_arena := B\<rparr>)"
      by (rule ext_store [OF ext_refl s]) (rule extD(1) [OF assms(1)])
    ultimately have "Q (or_null r) (p\<lparr>p_arena := B\<rparr>)"
      using ext_store [OF assms(1) s] arena_get_store_string(2) [OF inv s] by (intro assms(2)) (simp_all add: mark_def)
    then show ?thesis by (simp add: runs_def store_text_def of_outcome_def pbind_def pret_def s)
  qed (simp_all add: runs_def store_text_def of_outcome_def pbind_def)
qed

lemma fresh_node_wf: "k < 65536 \<Longrightarrow> d < 4294967296 \<Longrightarrow> par < 4294967296 \<Longrightarrow> child < 4294967296 \<Longrightarrow> next < 4294967296 \<Longrightarrow>
    node_wf (fresh_node k d par child next)"
  by (simp add: node_wf_def fresh_node_def source_unknown_def)

lemma ext_alloc:
  assumes "ext p0 p" and "own p0 p child" and "own p0 p next" and "k < 65536" and "d < 4294967296" and "par < 4294967296"
    and "arena_alloc (p_arena p) (fresh_node k d par child next) = Ret (Some off, B)"
  shows "ext p0 (p\<lparr>p_arena := B\<rparr>)" "off = mark p" "node_allocated B = Suc (mark p)"
proof -
  let ?A = "p_arena p" and ?n = "fresh_node k d par child next"
  have inv: "parser_inv p" by (rule extD(1) [OF assms(1)])
  then have A: "arena_inv ?A" "forest ?A" by (simp_all add: parser_inv_def)
  note D = arena_alloc_SomeD [OF assms(7)]
  show off: "off = mark p" and mark: "node_allocated B = Suc (mark p)" using D by (auto simp: mark_def)
  have cap: "node_capacity B = node_capacity ?A" using D by auto
  have wf: "node_wf ?n" using own_small [OF inv] assms(2-6) by (intro fresh_node_wf) auto
  note get = arena_get_alloc [OF A(1) wf assms(7)]
  have l: "links ?n = {child, next}" by (simp add: links_def fresh_node_def)
  have "y < node_allocated ?A" if "y \<in> links ?n" for y
  proof -
    have "1 \<le> node_allocated ?A" using A(1) by (simp add: arena_inv_def)
    with that assms(2,3) show ?thesis unfolding l own_def mark_def by auto
  qed
  then have f: "forest B" by (rule forest_alloc [OF A wf assms(7)])
  have "closed_set B {mark p0 ..< Suc (mark p)}"
    unfolding closed_set_def
  proof (intro ballI allI impI)
    fix x n y assume x: "x \<in> {mark p0 ..< Suc (mark p)}" "arena_get B x = Some n" "y \<in> links n"
    show "y = 0 \<or> y \<in> {mark p0 ..< Suc (mark p)}"
    proof (cases "x = off")
      case True
      with x(2) get have "n = ?n" by simp
      with x(3) l have "y = child \<or> y = next" by simp
      with assms(2,3) show ?thesis by (auto simp: own_def)
    next
      case False
      with x get off have "arena_get ?A x = Some n" "x \<in> {mark p0 ..< mark p}" by auto
      with closed_setD [of ?A "{mark p0 ..< mark p}" x n y] x(3) assms(1) show ?thesis
        by (auto simp: ext_def cap)
    qed
  qed
  moreover have "parser_inv (p\<lparr>p_arena := B\<rparr>)"
    using inv f arena_alloc_inv [OF A(1) assms(7)] wf get by (auto simp: parser_inv_def nodes_wf_def)
  ultimately show "ext p0 (p\<lparr>p_arena := B\<rparr>)"
    using assms(1) get off mark cap by (auto simp: ext_def mark_def)
qed

text \<open>A node without links is added to any run.\<close>

definition ext_if :: "bool \<Rightarrow> parser \<Rightarrow> parser \<Rightarrow> bool" where
  "ext_if b p q \<longleftrightarrow> (b \<longrightarrow> ext p q)"

lemma ext_if_True [simp]: "ext_if True p q \<longleftrightarrow> ext p q"
  by (simp add: ext_if_def)

lemma runs_alloc [runs_intros]:
  assumes "ext p0 p" and "own p0 p child" and "own p0 p next" and "k < 65536" and "d < 4294967296" and "par < 4294967296"
    and "\<And>r q. ext p0 q \<Longrightarrow> ext_if (child = 0 \<and> next = 0) p q \<Longrightarrow> own p0 q r \<Longrightarrow> own p q r \<Longrightarrow>
      mark p \<le> mark q \<Longrightarrow> p_current p = p_current q \<Longrightarrow> Q r q"
  shows "runs p0 (alloc_node k d par child next) p Q"
proof -
  have inv: "parser_inv p" by (rule extD(1) [OF assms(1)])
  then obtain r B where a: "arena_alloc (p_arena p) (fresh_node k d par child next) = Ret (r, B)"
    using arena_alloc_total [of "p_arena p"] by (fastforce simp: parser_inv_def)
  have "Q (or_null r) (p\<lparr>p_arena := B\<rparr>)"
  proof (cases r)
    case None
    with a have "B = p_arena p" by (auto dest: arena_alloc_NoneD)
    with assms None show ?thesis by (simp add: or_null_def ext_refl inv ext_if_def)
  next
    case (Some off)
    note e = ext_alloc [OF assms(1-6) a [unfolded Some]]
    have "ext_if (child = 0 \<and> next = 0) p (p\<lparr>p_arena := B\<rparr>)"
      unfolding ext_if_def using ext_alloc(1) [OF ext_refl [OF inv] _ _ assms(4-6) a [unfolded Some]] by auto
    with e extD(4) [OF assms(1)] show ?thesis
      by (intro assms(7)) (auto simp: Some or_null_def own_def mark_def)
  qed
  then show ?thesis by (simp add: runs_def alloc_node_def of_outcome_def pbind_def pret_def a)
qed

section \<open>Links\<close>

lemma ext_link:
  assumes "ext p0 p" and "own p0 p x" and "own p0 p y" and "closed_set (p_arena p) S" and "y = 0 \<or> y \<in> S" and "x \<notin> S"
    and f: "\<And>n. node_wf n \<Longrightarrow> node_wf (f n) \<and> links (f n) \<subseteq> insert y (links n)"
  shows "ext p0 (p\<lparr>p_arena := arena_get_mut (p_arena p) x f\<rparr>) \<and>
    node_allocated (arena_get_mut (p_arena p) x f) = mark p"
proof -
  let ?A = "p_arena p" and ?B = "arena_get_mut (p_arena p) x f"
  have inv: "parser_inv p" by (rule extD(1) [OF assms(1)])
  then have A: "arena_inv ?A" "forest ?A" "nodes_wf ?A" by (simp_all add: parser_inv_def)
  show ?thesis
  proof (cases "arena_get ?A x")
    case None
    then have "?B = ?A" by (auto simp: arena_get_def arena_get_mut_def split: if_splits)
    with assms(1) show ?thesis by (simp add: mark_def)
  next
    case (Some n)
    have wf: "node_wf n" using A(3) Some by (simp add: nodes_wf_def)
    have get: "arena_get ?B = (arena_get ?A)(x \<mapsto> f n)"
      using arena_get_get_mut [of ?A x f] Some wf f by simp
    have al: "node_allocated ?B = node_allocated ?A" "node_capacity ?B = node_capacity ?A"
      by (simp_all add: arena_get_mut_def)
    have y: "y < node_allocated ?A" using assms(3) A(1) by (auto simp: own_def mark_def arena_inv_def)
    have "forest ?B"
    proof (rule forest_link [OF A(2) get al(1) Some _ y])
      show "links (f n) \<subseteq> insert y (links n)" using f wf by blast
      show "(y, x) \<notin> (edges ?A)\<^sup>*" if "arena_get ?A y \<noteq> None"
      proof
        assume "(y, x) \<in> (edges ?A)\<^sup>*"
        moreover have "y \<in> S" using assms(5) that by (auto simp: arena_get_def)
        ultimately show False using closed_set_reach [OF _ assms(4)] assms(6) by blast
      qed
    qed
    moreover have "nodes_wf ?B" using A(3) wf f by (simp add: nodes_wf_def get)
    ultimately have pinv: "parser_inv (p\<lparr>p_arena := ?B\<rparr>)"
      using inv arena_get_mut_inv [OF A(1)] by (simp add: parser_inv_def)
    have x: "mark p0 \<le> x" using assms(2) Some by (auto simp: own_def arena_get_def)
    have "closed_set ?B {mark p0 ..< mark p}"
      unfolding closed_set_def
    proof (intro ballI allI impI)
      fix a k z assume a: "a \<in> {mark p0 ..< mark p}" "arena_get ?B a = Some k" "z \<in> links k"
      have c: "closed_set ?A {mark p0 ..< mark p}" using assms(1) by (simp add: ext_def)
      show "z = 0 \<or> z \<in> {mark p0 ..< mark p}"
      proof (cases "a = x")
        case True
        then have "z \<in> insert y (links n)" using a get f wf by auto
        with closed_setD [OF c _ Some, of z] a(1) True assms(3) show ?thesis by (auto simp: own_def)
      next
        case False
        with a get have "arena_get ?A a = Some k" by simp
        from closed_setD [OF c a(1) this a(3)] show ?thesis .
      qed
    qed
    with pinv assms(1) x get al show ?thesis by (auto simp: ext_def mark_def)
  qed
qed

lemma set_next_update: "node_wf n \<Longrightarrow> y < 4294967296 \<Longrightarrow>
    node_wf (n\<lparr>next_sibling := y\<rparr>) \<and> links (n\<lparr>next_sibling := y\<rparr>) \<subseteq> insert y (links n)"
  and set_first_update: "node_wf n \<Longrightarrow> y < 4294967296 \<Longrightarrow>
    node_wf (n\<lparr>first_child := y\<rparr>) \<and> links (n\<lparr>first_child := y\<rparr>) \<subseteq> insert y (links n)"
  by (auto simp: node_wf_def links_def)

lemma runs_set_next_apart:
  assumes "ext p0 p" and "own p0 p x" and "own p0 p y" and "closed_set (p_arena p) S" and "y = 0 \<or> y \<in> S" and "x \<notin> S"
    and "\<And>q. ext p0 q \<Longrightarrow> mark p = mark q \<Longrightarrow> p_current p = p_current q \<Longrightarrow> Q () q"
  shows "runs p0 (set_next x y) p Q"
proof -
  have "y < 4294967296" using own_small [OF extD(1) [OF assms(1)] assms(3)] by simp
  from ext_link [OF assms(1-6) set_next_update [OF _ this]] assms(7)
  show ?thesis by (simp add: runs_def set_next_def pmodify_def mark_def)
qed

text \<open>A node that was there at \<open>p1\<close> is linked to one that was made since.\<close>

lemma newer_apart:
  assumes "ext p1 p" and "own p1 p y" and "x < mark p1"
  shows "closed_set (p_arena p) {mark p1 ..< mark p}" "y = 0 \<or> y \<in> {mark p1 ..< mark p}" "x \<notin> {mark p1 ..< mark p}"
  using assms by (auto simp: ext_def own_def)

lemma own_less: "own p0 p x \<Longrightarrow> parser_inv p \<Longrightarrow> x < mark p"
  using mark_capacity [of p] by (auto simp: own_def)

lemma runs_set_next:
  assumes "ext p0 p1" and "own p0 p1 x" and "ext p1 p" and "own p1 p y"
    and "\<And>q. ext p0 q \<Longrightarrow> mark p = mark q \<Longrightarrow> p_current p = p_current q \<Longrightarrow> Q () q"
  shows "runs p0 (set_next x y) p Q"
proof (rule runs_set_next_apart)
  show "ext p0 p" using assms(1,3) by (rule ext_trans)
  show "own p0 p x" using assms(2) extD(4) [OF assms(3)] by (rule own_up)
  show "own p0 p y" using assms(4,1) by (rule own_down)
  note a = newer_apart [OF assms(3,4) own_less [OF assms(2) extD(1) [OF assms(1)]]]
  show "closed_set (p_arena p) {mark p1 ..< mark p}" "y = 0 \<or> y \<in> {mark p1 ..< mark p}" "x \<notin> {mark p1 ..< mark p}"
    by (fact a)+
qed (fact assms(5))

lemma runs_link_siblings:
  assumes "ext p0 p1" and "owns p0 p1 chain" and "ext p1 p" and "own p1 p node"
    and "\<And>ch q. ext p0 q \<Longrightarrow> owns p0 q ch \<Longrightarrow> mark p = mark q \<Longrightarrow> p_current p = p_current q \<Longrightarrow> Q ch q"
  shows "runs p0 (link_siblings chain node) p Q"
proof -
  have e: "ext p0 p" using assms(1,3) by (rule ext_trans)
  have o: "owns p0 p chain" "own p0 p node"
    using assms(2,4) extD(4) [OF assms(3)] own_down [OF assms(4,1)] by (auto intro: owns_up)
  have "runs p0 (set_next (snd chain) node) p (\<lambda>_ q. Q (fst chain, node) q)"
    using assms(1) owns_snd [OF assms(2)] assms(3,4)
    by (rule runs_set_next) (use o in \<open>auto intro!: assms(5) simp: owns_def own_up\<close>)
  then have "runs p0 (pbind (set_next (snd chain) node) (\<lambda>_. pret (fst chain, node))) p Q"
    by (intro runs_bind) (auto elim!: runs_weaken intro: runs_pret)
  moreover have "runs p0 (pret chain) p Q" "runs p0 (pret (node, node)) p Q"
    using e o by (auto intro!: runs_pret assms(5) simp: owns_def)
  ultimately show ?thesis by (simp add: link_siblings_def)
qed

lemma runs_item:
  assumes "ext p0 p" and "owns p0 p chain" and "runs p m p (\<lambda>r q. ext p q \<and> own p q r \<and> R q)"
    and "\<And>ch q q'. ext p0 q \<Longrightarrow> owns p0 q ch \<Longrightarrow> mark p \<le> mark q \<Longrightarrow> p_current p \<le> p_current q \<Longrightarrow>
      p_current q' = p_current q \<Longrightarrow> R q' \<Longrightarrow> Q ch q"
  shows "runs p0 (link_next chain m) p Q"
  unfolding link_next_def
proof (rule runs_bind, rule runs_base [OF assms(3,1)])
  fix r q assume q: "ext p q \<and> own p q r \<and> R q"
  then show "runs p0 (link_siblings chain r) q Q"
    by (intro runs_link_siblings [OF assms(1,2)]) (use q in \<open>auto intro!: assms(4) dest: extD\<close>)
qed

lemma runs_link_next:
  assumes "meets l m own" and "ext p0 p" and "owns p0 p chain" and "tokens_left p0 \<le> l"
    and "\<And>ch q. ext p0 q \<Longrightarrow> owns p0 q ch \<Longrightarrow> mark p \<le> mark q \<Longrightarrow> p_current p \<le> p_current q \<Longrightarrow> Q ch q"
  shows "runs p0 (link_next chain m) p Q"
  using assms(2,3)
proof (rule runs_item)
  show "runs p m p (\<lambda>r q. ext p q \<and> own p q r \<and> True)"
    using assms(1,4) extD [OF assms(2)] by (simp add: meets_def)
qed (use assms(5) in simp)

text \<open>A node, with a token consumed.\<close>

definition own1 :: "parser \<Rightarrow> parser \<Rightarrow> node_offset \<Rightarrow> bool" where
  "own1 p q r \<longleftrightarrow> own p q r \<and> p_current p < p_current q"

lemma runs_link_next1:
  assumes "meets l m own1" and "ext p0 p" and "owns p0 p chain" and "tokens_left p0 \<le> l"
    and "\<And>ch q. ext p0 q \<Longrightarrow> owns p0 q ch \<Longrightarrow> mark p \<le> mark q \<Longrightarrow> p_current p < p_current q \<Longrightarrow> Q ch q"
  shows "runs p0 (link_next chain m) p Q"
  using assms(2,3)
proof (rule runs_item)
  show "runs p m p (\<lambda>r q. ext p q \<and> own p q r \<and> p_current p < p_current q)"
    using assms(1,4) extD [OF assms(2)] by (simp add: meets_def own1_def)
qed (use assms(5) in simp)

lemma own1_own: "meets l m own1 \<Longrightarrow> meets l m own"
  by (auto simp: meets_def own1_def elim!: runs_weaken)

lemma own1_own_live: "meets_live l m own1 \<Longrightarrow> meets_live l m own"
  by (auto simp: meets_live_def own1_def elim!: runs_weaken)

lemma runs_link_next_below:
  assumes "below l m own" and "ext p0 p" and "owns p0 p chain" and "tokens_left p0 \<le> l"
    and "tokens_left p0 < l \<or> p_current p0 < p_current p"
    and "\<And>ch q. ext p0 q \<Longrightarrow> owns p0 q ch \<Longrightarrow> mark p \<le> mark q \<Longrightarrow> p_current p \<le> p_current q \<Longrightarrow> Q ch q"
  shows "runs p0 (link_next chain m) p Q"
  using assms(2,3)
proof (rule runs_item)
  show "runs p m p (\<lambda>r q. ext p q \<and> own p q r \<and> True)"
    using assms(1) left_below [OF assms(5,4,2)] extD [OF assms(2)] by (simp add: below_def)
qed (use assms(6) in simp)

lemma runs_link_item:
  assumes "ext p0 p" and "owns p0 p chain" and m: "runs p m p (\<lambda>r q. ext p q \<and> own p q r)"
    and "\<And>ch q. ext p0 q \<Longrightarrow> owns p0 q ch \<Longrightarrow> mark p \<le> mark q \<Longrightarrow> p_current p \<le> p_current q \<Longrightarrow> Q ch q"
  shows "runs p0 (link_item chain m) p Q"
proof (cases "m p")
  case (Parsed r q)
  with m have q: "ext p q" "own p q r" by (simp_all add: runs_def)
  have "runs p0 (link_siblings chain r) q Q"
    using q extD(3,4) [OF q(1)] by (intro runs_link_siblings [OF assms(1,2)]) (auto intro!: assms(4))
  with Parsed show ?thesis by (simp add: link_item_def pbind_def pcatch_def runs_def)
next
  case (Failed e q)
  with m have q: "ext p q" by (simp add: runs_def)
  note d = extD(3,4) [OF q]
  have "runs p0 (pbind p_advance (\<lambda>_. pret chain)) q Q"
    using ext_trans [OF assms(1) q] d owns_up [OF assms(2)] by (auto intro!: runs_intros assms(4))
  with Failed show ?thesis by (simp add: link_item_def pbind_def pcatch_def runs_def)
next
  case (Stuck s)
  with m show ?thesis by (simp add: link_item_def pbind_def pcatch_def runs_def)
qed

text \<open>A call whose error is dropped.\<close>

lemma runs_pcatch:
  assumes "ext p0 p" and m: "runs p m p (\<lambda>r q. ext p q \<and> R p q r)"
    and "\<And>r q. ext p0 q \<Longrightarrow> ext p q \<Longrightarrow> mark p \<le> mark q \<Longrightarrow> p_current p \<le> p_current q \<Longrightarrow>
      (\<And>x. r = Inr x \<Longrightarrow> R p q x) \<Longrightarrow> Q r q"
  shows "runs p0 (pcatch m) p Q"
proof (cases "m p")
  case (Parsed r q)
  with m have "ext p q" "R p q r" by (simp_all add: runs_def)
  with assms(1) have "Q (Inr r) q" by (intro assms(3)) (auto intro: ext_trans dest: extD)
  with Parsed show ?thesis by (simp add: pcatch_def runs_def)
next
  case (Failed e q)
  with m have "ext p q" by (simp add: runs_def)
  with assms(1) have "Q (Inl e) q" by (intro assms(3)) (auto intro: ext_trans dest: extD)
  with Failed show ?thesis by (simp add: pcatch_def runs_def)
qed (use m in \<open>simp add: pcatch_def runs_def\<close>)

section \<open>Walks over the nodes\<close>

lemma runs_last_sibling [runs_intros]:
  assumes "ext p0 p" and "own p0 p c" and "\<And>r. own p0 p r \<Longrightarrow> Q r p"
  shows "runs p0 (last_sibling c) p Q"
proof -
  have inv: "parser_inv p" by (rule extD(1) [OF assms(1)])
  then have f: "forest (p_arena p)" "1 \<le> node_allocated (p_arena p)" by (auto simp: parser_inv_def arena_inv_def)
  have "height (p_arena p) c < node_rounds p" using height_le [OF f(2), of c] by (simp add: node_rounds_def)
  from chain_end_ends [OF f(1) this] obtain y where y: "chain_end (node_rounds p) (p_arena p) c = Done y" by blast
  have "closed_set (p_arena p) {mark p0 ..< mark p}" using assms(1) by (simp add: ext_def)
  from chain_end_own [OF this _ y] assms(2) have "own p0 p y" by (auto simp: own_def)
  with y assms(3) show ?thesis by (simp add: runs_def last_sibling_def of_run_def)
qed

lemma runs_append:
  assumes "ext p0 p1" and "own p0 p1 chain" and "ext p1 p" and "own p1 p node"
    and "\<And>q. ext p0 q \<Longrightarrow> mark p = mark q \<Longrightarrow> p_current p = p_current q \<Longrightarrow> Q () q"
  shows "runs p0 (append_sibling chain node) p Q"
proof -
  have e: "ext p0 p" using assms(1,3) by (rule ext_trans)
  have inv: "parser_inv p" "parser_inv p1" by (rule extD(1) [OF e], rule extD(1) [OF assms(1)])
  have same: "arena_get (p_arena p) x = arena_get (p_arena p1) x" if "x < mark p1" for x
    using assms(3) that by (simp add: ext_def)
  have c: "closed_set (p_arena p) {mark p0 ..< mark p1}"
    using assms(1) same unfolding ext_def closed_set_def by auto
  have f: "forest (p_arena p)" "1 \<le> node_allocated (p_arena p)"
    using inv by (auto simp: parser_inv_def arena_inv_def)
  have "height (p_arena p) chain < node_rounds p" using height_le [OF f(2)] by (simp add: node_rounds_def less_Suc_eq_le)
  from chain_end_ends [OF f(1) this] obtain y where y: "chain_end (node_rounds p) (p_arena p) chain = Done y" by blast
  from chain_end_own [OF c _ y] assms(2) have "own p0 p1 y" by (auto simp: own_def)
  have "runs p0 (set_next y node) p Q"
    using assms(1) \<open>own p0 p1 y\<close> assms(3,4) by (rule runs_set_next) (fact assms(5))
  with y show ?thesis by (simp add: append_sibling_def pbind_def last_sibling_def of_run_def runs_def)
qed

lemma runs_append_if:
  assumes "ext p0 p1" and "own p0 p1 chain" and "ext p1 p" and "own p1 p node"
    and "\<And>q. ext p0 q \<Longrightarrow> mark p = mark q \<Longrightarrow> p_current p = p_current q \<Longrightarrow> Q () q"
  shows "runs p0 (if b then append_sibling chain node else pret ()) p Q"
proof (cases b)
  case True
  have "runs p0 (append_sibling chain node) p Q"
    using assms(1-4) by (rule runs_append) (fact assms(5))
  with True show ?thesis by simp
qed (use assms(5) [OF ext_trans [OF assms(1,3)]] in \<open>simp add: runs_pret\<close>)

lemma runs_observes: "observes m p \<Longrightarrow> (\<And>x. m p = Parsed x p \<Longrightarrow> Q x p) \<Longrightarrow> runs p0 m p Q"
  by (auto simp: observes_def runs_def)

lemma eval_constant_observes: "parser_inv p \<Longrightarrow> observes (eval_constant_i64 off) p"
proof -
  assume "parser_inv p"
  then have f: "forest (p_arena p)" "1 \<le> node_allocated (p_arena p)" by (auto simp: parser_inv_def arena_inv_def)
  have "height (p_arena p) off < node_rounds p" using height_le [OF f(2), of off] by (simp add: node_rounds_def)
  from eval_constant_at_observes [OF f this] show ?thesis by (simp add: observes_def eval_constant_i64_def)
qed

lemma runs_eval_i64 [runs_intros]: "ext p0 p \<Longrightarrow> (\<And>v. Q v p) \<Longrightarrow> runs p0 (eval_constant_i64 off) p Q"
  by (rule runs_observes) (auto intro: eval_constant_observes extD)

lemma runs_eval_u32 [runs_intros]:
  "ext p0 p \<Longrightarrow> (\<And>v. or_zero v < 4294967296 \<Longrightarrow> Q v p) \<Longrightarrow> runs p0 (eval_constant_u32 off) p Q"
  unfolding eval_constant_u32_def when_some_def
  by (auto intro!: runs_intros simp: or_zero_def split: option.splits)

section \<open>Loops\<close>

text \<open>
  What a round of a loop has to show: \<open>J\<close> again with a token consumed, or \<open>B\<close> when the loop ends.
\<close>

definition round_ok :: "parser \<Rightarrow> ('s \<Rightarrow> parser \<Rightarrow> bool) \<Rightarrow> ('a \<Rightarrow> parser \<Rightarrow> bool) \<Rightarrow> parser \<Rightarrow> 's + 'a \<Rightarrow> parser \<Rightarrow> bool" where
  "round_ok p0 J B p r q \<longleftrightarrow> ext p0 q \<and> mark p \<le> mark q \<and>
     (case r of Inl t \<Rightarrow> J t q \<and> p_current p < p_current q | Inr x \<Rightarrow> B x q \<and> p_current p \<le> p_current q)"

lemma round_ok_simps [simp]:
  "round_ok p0 J B p (Inl t) q \<longleftrightarrow> ext p0 q \<and> mark p \<le> mark q \<and> J t q \<and> p_current p < p_current q"
  "round_ok p0 J B p (Inr x) q \<longleftrightarrow> ext p0 q \<and> mark p \<le> mark q \<and> B x q \<and> p_current p \<le> p_current q"
  by (simp_all add: round_ok_def)

lemma runs_ploop:
  assumes "\<And>s p. ext p0 p \<Longrightarrow> J s p \<Longrightarrow> p_current p1 \<le> p_current p \<Longrightarrow> runs p0 (body s) p (round_ok p0 J B p)"
    and "ext p0 p" and "J s p" and "tokens_left p < n" and "p_current p1 \<le> p_current p"
  shows "runs p0 (ploop n body s) p (\<lambda>x q. ext p0 q \<and> B x q \<and> mark p \<le> mark q \<and> p_current p \<le> p_current q)"
  using assms(2-5)
proof (induction n arbitrary: s p)
  case (Suc n)
  show ?case
    unfolding ploop.simps
  proof (rule runs_bind, rule runs_weaken [OF assms(1) [OF Suc.prems(1,2,4)]])
    fix r q assume r: "round_ok p0 J B p r q"
    show "runs p0 (case r of Inl t \<Rightarrow> ploop n body t | Inr x \<Rightarrow> pret x) q
        (\<lambda>x q. ext p0 q \<and> B x q \<and> mark p \<le> mark q \<and> p_current p \<le> p_current q)"
    proof (cases r)
      case (Inl t)
      with r have q: "ext p0 q" "J t q" "mark p \<le> mark q" "p_current p < p_current q" by auto
      have "tokens_left q < tokens_left p"
        using q(1,4) Suc.prems(1) by (auto simp: ext_def parser_inv_def tokens_left_def)
      with Suc.prems(3,4) q(4) have "tokens_left q < n" "p_current p1 \<le> p_current q" by auto
      from runs_weaken [OF Suc.IH [OF q(1,2) this]] q(3,4) Inl show ?thesis by fastforce
    next
      case (Inr x)
      with r show ?thesis by (auto intro!: runs_pret)
    qed
  qed
qed simp

lemma runs_prepeat:
  assumes "ext p0 p" and "J s p"
    and "\<And>s q. ext p0 q \<Longrightarrow> J s q \<Longrightarrow> p_current p \<le> p_current q \<Longrightarrow> runs p0 (body s) q (round_ok p0 J B q)"
    and "\<And>x q. ext p0 q \<Longrightarrow> B x q \<Longrightarrow> mark p \<le> mark q \<Longrightarrow> p_current p \<le> p_current q \<Longrightarrow> Q x q"
  shows "runs p0 (prepeat body s) p Q"
proof -
  have "runs p0 (ploop (Suc (tokens_left p)) body s) p
      (\<lambda>x q. ext p0 q \<and> B x q \<and> mark p \<le> mark q \<and> p_current p \<le> p_current q)"
    by (rule runs_ploop [OF assms(3,1,2)]) auto
  then show ?thesis unfolding prepeat_def runs_def using assms(4) by (auto split: presult.splits)
qed

text \<open>Loops whose state holds a chain of nodes, and whose value does.\<close>

lemma runs_owning_loop:
  assumes "ext p0 p" and "owns p0 p (f s)"
    and "\<And>s q. ext p0 q \<Longrightarrow> owns p0 q (f s) \<Longrightarrow> p_current p \<le> p_current q \<Longrightarrow>
      runs p0 (body s) q (round_ok p0 (\<lambda>s q. owns p0 q (f s)) (\<lambda>x q. owns p0 q (g x)) q)"
    and "\<And>x q. ext p0 q \<Longrightarrow> owns p0 q (g x) \<Longrightarrow> mark p \<le> mark q \<Longrightarrow> p_current p \<le> p_current q \<Longrightarrow> Q x q"
  shows "runs p0 (prepeat body s) p Q"
  using assms by (rule runs_prepeat)

lemmas runs_chain_loop [runs_intros] = runs_owning_loop [where f = "\<lambda>ch. ch" and g = "\<lambda>ch. ch"]
lemmas runs_counted_loop [runs_intros] = runs_owning_loop [where f = snd and g = "\<lambda>ch. ch"]
lemmas runs_chain_node_loop [runs_intros] = runs_owning_loop [where f = "\<lambda>ch. ch" and g = "\<lambda>r. (r, NULL)"]
lemmas runs_node_loop = runs_owning_loop [where f = "\<lambda>r. (r, NULL)" and g = "\<lambda>r. (r, NULL)"]
lemmas runs_idle_loop = runs_owning_loop [where f = "\<lambda>_. (NULL, NULL)" and g = "\<lambda>_. (NULL, NULL)"]

section \<open>More steps\<close>

lemma owns_pair [simp]: "owns p q (a, b) \<longleftrightarrow> own p q a \<and> own p q b"
  by (simp add: owns_def)

lemma runs_leaf_item [runs_intros]:
  assumes "ext p0 p" and "owns p0 p chain" and "k < 65536" and "d < 4294967296"
    and "\<And>ch q. ext p0 q \<Longrightarrow> owns p0 q ch \<Longrightarrow> mark p \<le> mark q \<Longrightarrow> p_current p \<le> p_current q \<Longrightarrow> Q ch q"
  shows "runs p0 (link_next chain (leaf k d)) p Q"
proof -
  have "meets (tokens_left p0) (leaf k d) own"
    by (rule meetsI) (use assms(3,4) in \<open>auto intro!: runs_intros\<close>)
  then show ?thesis using assms(1,2) by (rule runs_link_next) (auto intro: assms(5))
qed

lemma runs_link_item_below:
  assumes "below l m own" and "ext p0 p" and "owns p0 p chain" and "tokens_left p0 \<le> l"
    and "tokens_left p0 < l \<or> p_current p0 < p_current p"
    and "\<And>ch q. ext p0 q \<Longrightarrow> owns p0 q ch \<Longrightarrow> mark p \<le> mark q \<Longrightarrow> p_current p \<le> p_current q \<Longrightarrow> Q ch q"
  shows "runs p0 (link_item chain m) p Q"
  using assms(2,3)
proof (rule runs_link_item)
  show "runs p m p (\<lambda>r q. ext p q \<and> own p q r)"
    using assms(1) left_below [OF assms(5,4,2)] extD [OF assms(2)] by (simp add: below_def)
qed (use assms(6) in simp)

lemma runs_link_item_meets:
  assumes "meets l m own" and "ext p0 p" and "owns p0 p chain" and "tokens_left p0 \<le> l"
    and "\<And>ch q. ext p0 q \<Longrightarrow> owns p0 q ch \<Longrightarrow> mark p \<le> mark q \<Longrightarrow> p_current p \<le> p_current q \<Longrightarrow> Q ch q"
  shows "runs p0 (link_item chain m) p Q"
  using assms(2,3)
proof (rule runs_link_item)
  show "runs p m p (\<lambda>r q. ext p q \<and> own p q r)"
    using assms(1,4) extD [OF assms(2)] by (simp add: meets_def)
qed (use assms(5) in simp)

lemma runs_advance_if_stuck [runs_intros]:
  assumes "ext p0 p" and "ext p0 p1" and "live p1" and "p_current p1 \<le> p_current p"
    and "\<And>q. ext p0 q \<Longrightarrow> ext p q \<Longrightarrow> mark p = mark q \<Longrightarrow> p_current p \<le> p_current q \<Longrightarrow> p_current p1 < p_current q \<Longrightarrow> Q () q"
  shows "runs p0 (advance_if_stuck (p_current p1)) p Q"
proof -
  have "live p" if "p_current p = p_current p1"
    using assms(1-3) that by (simp add: live_def ext_def)
  then show ?thesis
    unfolding advance_if_stuck_def using assms(1,4) ext_refl [OF extD(1) [OF assms(1)]]
    by (auto intro!: runs_intros assms(5))
qed

text \<open>Calls that need a current token.\<close>

lemma runs_link_next_live1:
  assumes "meets_live l m own1" and "ext p0 p" and "owns p0 p chain" and "live p" and "tokens_left p0 \<le> l"
    and "\<And>ch q. ext p0 q \<Longrightarrow> owns p0 q ch \<Longrightarrow> mark p \<le> mark q \<Longrightarrow> p_current p < p_current q \<Longrightarrow> Q ch q"
  shows "runs p0 (link_next chain m) p Q"
  using assms(2,3)
proof (rule runs_item)
  show "runs p m p (\<lambda>r q. ext p q \<and> own p q r \<and> p_current p < p_current q)"
    using assms(1,4,5) extD [OF assms(2)] by (simp add: meets_live_def own1_def)
qed (use assms(6) in simp)

lemma runs_live:
  assumes "meets_live l m R" and "tokens_left p0 \<le> l" and "ext p0 p" and "live p"
    and "\<And>r q. ext p0 q \<Longrightarrow> ext p q \<Longrightarrow> mark p \<le> mark q \<Longrightarrow> p_current p \<le> p_current q \<Longrightarrow> R p q r \<Longrightarrow> Q r q"
  shows "runs p0 m p Q"
  by (rule runs_step [OF _ assms(3,5)]) (use assms(1,2,4) extD [OF assms(3)] in \<open>simp_all add: meets_live_def\<close>)

lemma runs_below:
  assumes "below l m R" and "tokens_left p0 \<le> l" and "ext p0 p" and "tokens_left p0 < l \<or> p_current p0 < p_current p"
    and "\<And>r q. ext p0 q \<Longrightarrow> ext p q \<Longrightarrow> mark p \<le> mark q \<Longrightarrow> p_current p \<le> p_current q \<Longrightarrow> R p q r \<Longrightarrow> Q r q"
  shows "runs p0 m p Q"
proof (rule runs_step [OF _ assms(3,5)])
  show "runs p m p (\<lambda>r q. ext p q \<and> R p q r)"
    using assms(1) left_below [OF assms(4,2,3)] extD [OF assms(3)] by (simp add: below_def)
qed

lemma runs_link_next_below1:
  assumes "below l m own1" and "ext p0 p" and "owns p0 p chain" and "tokens_left p0 \<le> l"
    and "tokens_left p0 < l \<or> p_current p0 < p_current p"
    and "\<And>ch q. ext p0 q \<Longrightarrow> owns p0 q ch \<Longrightarrow> mark p \<le> mark q \<Longrightarrow> p_current p < p_current q \<Longrightarrow> Q ch q"
  shows "runs p0 (link_next chain m) p Q"
  using assms(2,3)
proof (rule runs_item)
  show "runs p m p (\<lambda>r q. ext p q \<and> own p q r \<and> p_current p < p_current q)"
    using assms(1) left_below [OF assms(5,4,2)] extD [OF assms(2)] by (simp add: below_def own1_def)
qed (use assms(6) in simp)

text \<open>A node that was there at \<open>p1\<close> gets a child that was made since.\<close>

lemma runs_set_first:
  assumes "ext p0 p1" and "own p0 p1 x" and "ext p1 p" and "own p1 p y"
    and "\<And>q. ext p0 q \<Longrightarrow> mark p = mark q \<Longrightarrow> p_current p = p_current q \<Longrightarrow> Q () q"
  shows "runs p0 (set_first_child x y) p Q"
proof -
  have e: "ext p0 p" using assms(1,3) by (rule ext_trans)
  have o: "own p0 p x" "own p0 p y"
    using assms(1-4) extD(4) [OF assms(3)] by (auto intro: own_up own_down)
  have "y < 4294967296" using own_small [OF extD(1) [OF e] o(2)] by simp
  note a = newer_apart [OF assms(3,4) own_less [OF assms(2) extD(1) [OF assms(1)]]]
  from ext_link [OF e o a set_first_update [OF _ \<open>y < 4294967296\<close>]] assms(5)
  show ?thesis by (simp add: runs_def set_first_child_def pmodify_def mark_def)
qed

text \<open>What relates the parsers of a run: offsets that were new stay so, and \<open>ext\<close> is transitive.\<close>

lemma owns_up_eq: "owns p q r \<Longrightarrow> mark q = mark q' \<Longrightarrow> owns p q' r"
  by (auto simp: owns_def own_up_eq)

lemmas keeps = own_up own_up_eq own_down owns_up owns_up_eq ext_trans

end
