(* ===== verification/ParserSeal.thy ===== *)
theory ParserSeal
  imports ParserRun
begin

text \<open>
  Sets of nodes whose links stay inside. A declaration links its attributes after its declarator has
  been parsed, so there the order of allocation does not say which nodes may point to which; the
  sealed sets do.
\<close>

definition sealed :: "parser \<Rightarrow> nat set \<Rightarrow> bool" where
  "sealed p T \<longleftrightarrow> closed_set (p_arena p) T \<and> T \<subseteq> {..< mark p}"

lemma sealed_empty [simp]: "sealed p {}"
  by (simp add: sealed_def closed_set_def)

lemma sealed_Un: "sealed p S \<Longrightarrow> sealed p T \<Longrightarrow> sealed p (S \<union> T)"
  unfolding sealed_def closed_set_def by blast

lemma sealed_run: "ext p0 p \<Longrightarrow> sealed p {mark p0 ..< mark p}"
  by (auto simp: ext_def sealed_def)

lemma sealed_ext:
  assumes "ext p q" and "sealed p T"
  shows "sealed q T"
proof -
  have "arena_get (p_arena q) x = arena_get (p_arena p) x" if "x \<in> T" for x
    using assms that by (auto simp: ext_def sealed_def)
  then have "closed_set (p_arena q) T"
    using assms(2) unfolding sealed_def closed_set_def by simp
  then show ?thesis using assms extD(4) [OF assms(1)] by (fastforce simp: sealed_def)
qed

lemma sealed_new: "ext p q \<Longrightarrow> sealed p T \<Longrightarrow> sealed q (T \<union> {mark p ..< mark q})"
  by (rule sealed_Un) (auto intro: sealed_ext sealed_run)

text \<open>What a link from \<open>x\<close> to \<open>y\<close> keeps.\<close>

definition linked :: "parser \<Rightarrow> parser \<Rightarrow> nat \<Rightarrow> nat \<Rightarrow> bool" where
  "linked p q x y \<longleftrightarrow> mark q = mark p \<and> p_current q = p_current p \<and>
     (\<forall>T. sealed p T \<longrightarrow> x \<notin> T \<or> y = 0 \<or> y \<in> T \<longrightarrow> sealed q T)"

lemma linkedD:
  assumes "linked p q x y"
  shows "mark q = mark p" "p_current q = p_current p" "sealed p T \<Longrightarrow> x \<notin> T \<Longrightarrow> sealed q T"
    "sealed p T \<Longrightarrow> y = 0 \<or> y \<in> T \<Longrightarrow> sealed q T"
  using assms by (auto simp: linked_def)

lemma set_next_linked:
  assumes "nodes_wf (p_arena p)" and "y < 4294967296"
  shows "linked p (p\<lparr>p_arena := arena_get_mut (p_arena p) x (\<lambda>n. n\<lparr>next_sibling := y\<rparr>)\<rparr>) x y"
proof -
  let ?A = "p_arena p" and ?f = "\<lambda>n. n\<lparr>next_sibling := y\<rparr>"
  let ?B = "arena_get_mut ?A x ?f"
  have al: "node_allocated ?B = node_allocated ?A" by (simp add: arena_get_mut_def)
  have "closed_set ?B T" if T: "closed_set ?A T" "x \<notin> T \<or> y = 0 \<or> y \<in> T" for T
  proof (cases "arena_get ?A x")
    case None
    then have "?B = ?A" by (auto simp: arena_get_def arena_get_mut_def split: if_splits)
    with T show ?thesis by simp
  next
    case (Some n)
    have u: "node_wf (?f n)" "links (?f n) \<subseteq> insert y (links n)"
      using set_next_update [OF _ assms(2)] assms(1) Some by (auto simp: nodes_wf_def)
    have get: "arena_get ?B = (arena_get ?A)(x \<mapsto> ?f n)"
      using arena_get_get_mut [of ?A x ?f] Some u(1) by simp
    show ?thesis
      unfolding closed_set_def
    proof (intro ballI allI impI)
      fix a k z assume a: "a \<in> T" "arena_get ?B a = Some k" "z \<in> links k"
      show "z = 0 \<or> z \<in> T"
      proof (cases "a = x")
        case True
        with a get u(2) have "z = y \<or> z \<in> links n" by auto
        with T True a(1) closed_setD [OF T(1) _ Some] show ?thesis by auto
      qed (use a get closed_setD [OF T(1) a(1)] in auto)
    qed
  qed
  then show ?thesis by (simp add: linked_def sealed_def mark_def al)
qed

lemma runs_set_next_sealed:
  assumes "ext p0 p" and "own p0 p x" and "own p0 p y" and "sealed p S" and "y = 0 \<or> y \<in> S" and "x \<notin> S"
    and "\<And>q. ext p0 q \<Longrightarrow> linked p q x y \<Longrightarrow> Q () q"
  shows "runs p0 (set_next x y) p Q"
proof -
  have inv: "parser_inv p" by (rule extD(1) [OF assms(1)])
  have y: "y < 4294967296" using own_small [OF inv assms(3)] by simp
  have c: "closed_set (p_arena p) S" using assms(4) by (simp add: sealed_def)
  have w: "nodes_wf (p_arena p)" using inv by (simp add: parser_inv_def)
  from ext_link [OF assms(1-3) c assms(5,6) set_next_update [OF _ y]] set_next_linked [OF w y] assms(7)
  show ?thesis by (simp add: runs_def set_next_def pmodify_def)
qed

lemma linked_refl: "linked p p x y"
  by (simp add: linked_def)

text \<open>A node is linked to the end of a chain.\<close>

lemma runs_link_siblings_sealed:
  assumes "ext p0 p" and "owns p0 p chain" and "own p0 p y" and "sealed p S" and "y = 0 \<or> y \<in> S" and "snd chain \<notin> S"
    and "\<And>ch q. ext p0 q \<Longrightarrow> linked p q (snd chain) y \<Longrightarrow> owns p0 q ch \<Longrightarrow>
      (if y = 0 then ch = chain else snd ch = y) \<Longrightarrow> Q ch q"
  shows "runs p0 (link_siblings chain y) p Q"
proof -
  have "runs p0 (set_next (snd chain) y) p (\<lambda>_ q. y \<noteq> 0 \<longrightarrow> Q (fst chain, y) q)"
    using assms(1) owns_snd [OF assms(2)] assms(3-6)
    by (rule runs_set_next_sealed)
      (use assms(2,3) in \<open>auto intro!: assms(7) simp: owns_def linked_def own_up_eq\<close>)
  then show ?thesis
    unfolding link_siblings_def
    using assms(7) [OF assms(1) linked_refl, of chain] assms(7) [OF assms(1) linked_refl, of "(y, y)"] assms(2,3)
    by (auto simp: runs_def pbind_def pret_def split: presult.splits)
qed

text \<open>A new node.\<close>

lemma runs_alloc_sealed:
  assumes "ext p0 p" and "own p0 p child" and "own p0 p next" and "k < 65536" and "d < 4294967296" and "par < 4294967296"
    and "\<And>r q. ext p0 q \<Longrightarrow> own p0 q r \<Longrightarrow> own p q r \<Longrightarrow> mark p \<le> mark q \<Longrightarrow> p_current p = p_current q \<Longrightarrow>
      (\<And>T. sealed p T \<Longrightarrow> sealed q T) \<Longrightarrow>
      (\<And>T. sealed p T \<Longrightarrow> child = 0 \<or> child \<in> T \<Longrightarrow> next = 0 \<or> next \<in> T \<Longrightarrow> sealed q (T \<union> {mark p ..< mark q})) \<Longrightarrow> Q r q"
  shows "runs p0 (alloc_node k d par child next) p Q"
proof -
  have inv: "parser_inv p" by (rule extD(1) [OF assms(1)])
  then obtain r B where a: "arena_alloc (p_arena p) (fresh_node k d par child next) = Ret (r, B)"
    using arena_alloc_total [of "p_arena p"] by (fastforce simp: parser_inv_def)
  have "Q (or_null r) (p\<lparr>p_arena := B\<rparr>)"
  proof (cases r)
    case None
    with a have "B = p_arena p" by (auto dest: arena_alloc_NoneD)
    with assms None show ?thesis by (simp add: or_null_def)
  next
    case (Some off)
    let ?n = "fresh_node k d par child next"
    note e = ext_alloc [OF assms(1-6) a [unfolded Some]]
    have A: "arena_inv (p_arena p)" using inv by (simp add: parser_inv_def)
    have wf: "node_wf ?n" using own_small [OF inv] assms(2-6) by (intro fresh_node_wf) auto
    note get = arena_get_alloc [OF A wf a [unfolded Some]]
    have old: "closed_set B T" if "sealed p T" for T
      using that get e(2) unfolding sealed_def closed_set_def by (auto simp: mark_def)
    have new: "closed_set B (T \<union> {mark p ..< Suc (mark p)})"
      if "sealed p T" "child = 0 \<or> child \<in> T" "next = 0 \<or> next \<in> T" for T
      using old [OF that(1)] that(2,3) get e(2) unfolding closed_set_def
      by (auto simp: less_Suc_eq links_def fresh_node_def)
    show ?thesis
      using e old new extD(4) [OF assms(1)]
      by (intro assms(7)) (fastforce simp: Some or_null_def own_def mark_def sealed_def)+
  qed
  then show ?thesis by (simp add: runs_def alloc_node_def of_outcome_def pbind_def pret_def a)
qed

text \<open>The end of a chain stays in every sealed set that holds its first node.\<close>

lemma runs_last_sibling_sealed:
  assumes "ext p0 p" and "own p0 p c" and "sealed p T" and "c = 0 \<or> c \<in> T"
    and "\<And>r. own p0 p r \<Longrightarrow> r = 0 \<or> r \<in> T \<Longrightarrow> Q r p"
  shows "runs p0 (last_sibling c) p Q"
proof -
  have "runs p0 (last_sibling c) p (\<lambda>r q. q = p \<and> own p0 p r \<and> last_sibling c p = Parsed r p)"
    using runs_last_sibling [OF assms(1,2), of "\<lambda>r q. q = p \<and> own p0 p r"]
    by (auto simp: runs_def last_sibling_def of_run_def split: presult.splits run.splits)
  then show ?thesis
  proof (rule runs_weaken)
    fix r q assume r: "q = p \<and> own p0 p r \<and> last_sibling c p = Parsed r p"
    then have e: "chain_end (node_rounds p) (p_arena p) c = Done r"
      by (auto simp: last_sibling_def of_run_def split: run.splits)
    have "closed_set (p_arena p) T" using assms(3) by (simp add: sealed_def)
    from chain_end_own [OF this _ e] assms(4) r assms(5) show "Q r q" by blast
  qed
qed

end
