(* ===== verification/ParserTypedef.thy ===== *)
theory ParserTypedef
  imports ParserSeal
begin

text \<open>
  Recording a typedef: the walks over its declarator and its specifiers end, change nothing, and
  the kind they find fits its field.
\<close>

section \<open>Walks\<close>

lemma runs_text [runs_intros]: "(\<And>t. Q t p) \<Longrightarrow> runs p0 (text_at_offset off) p Q"
  by (simp add: runs_def text_at_offset_def split: outcome.split)

lemma runs_arena_node [runs_intros]: "Q (arena_get (p_arena p) off) p \<Longrightarrow> runs p0 (arena_node off) p Q"
  by (simp add: runs_def arena_node_def pget_def)

lemma runs_when_some [runs_intros]:
  "runs p0 m p (\<lambda>r q. case r of None \<Rightarrow> Q None q | Some x \<Rightarrow> runs p0 (k x) q Q) \<Longrightarrow> runs p0 (when_some m k) p Q"
  unfolding when_some_def by (rule runs_bind) (auto elim!: runs_weaken intro!: runs_pret split: option.splits)

lemma find_name_runs:
  "forest (p_arena p) \<Longrightarrow> height (p_arena p) off < n \<Longrightarrow> runs p0 (find_name_at n off) p (\<lambda>_ q. q = p)"
proof (induction n arbitrary: off)
  case (Suc n)
  have "height (p_arena p) (first_child node) < n" "height (p_arena p) (next_sibling node) < n"
    if "arena_get (p_arena p) off = Some node" for node
    using height_first [OF Suc.prems(1) that] height_next [OF Suc.prems(1) that] Suc.prems(2) by auto
  then show ?case
    by (auto intro!: runs_intros Suc.IH [OF Suc.prems(1), THEN runs_weaken] split: option.split)
qed simp

lemma has_pointer_runs:
  "forest (p_arena p) \<Longrightarrow> height (p_arena p) off < n \<Longrightarrow> runs p0 (has_pointer_at n off) p (\<lambda>_ q. q = p)"
proof (induction n arbitrary: off)
  case (Suc n)
  have "height (p_arena p) (first_child node) < n" "height (p_arena p) (next_sibling node) < n"
    if "arena_get (p_arena p) off = Some node" for node
    using height_first [OF Suc.prems(1) that] height_next [OF Suc.prems(1) that] Suc.prems(2) by auto
  then show ?case
    by (auto intro!: runs_intros Suc.IH [OF Suc.prems(1), THEN runs_weaken])
qed simp

section \<open>Kinds\<close>

definition spec_ok :: "spec_scan \<Rightarrow> bool" where
  "spec_ok s \<longleftrightarrow> base_kind s < 65536 \<and> struct_data s < 4294967296"

lemma spec_ok_simps [simp]:
  "spec_ok spec_scan_start" "spec_ok (s\<lparr>has_unsigned := b\<rparr>) \<longleftrightarrow> spec_ok s" "spec_ok (s\<lparr>has_signed := b\<rparr>) \<longleftrightarrow> spec_ok s"
  "spec_ok (s\<lparr>long_count := n\<rparr>) \<longleftrightarrow> spec_ok s" "spec_ok (s\<lparr>is_struct_or_union := b\<rparr>) \<longleftrightarrow> spec_ok s"
  "spec_ok (s\<lparr>is_pointer_decl := b\<rparr>) \<longleftrightarrow> spec_ok s"
  by (simp_all add: spec_ok_def spec_scan_start_def)

lemma spec_ok_kind: "spec_ok s \<Longrightarrow> k < 65536 \<Longrightarrow> spec_ok (s\<lparr>base_kind := k\<rparr>)"
  and spec_ok_data: "spec_ok s \<Longrightarrow> d < 4294967296 \<Longrightarrow> spec_ok (s\<lparr>struct_data := d\<rparr>)"
  by (simp_all add: spec_ok_def)

lemma typedef_bounds:
  "parser_inv p \<Longrightarrow> typedef_kinds p name = Some (k, t) \<Longrightarrow> k < 65536 \<and> t < 4294967296"
  by (simp add: parser_inv_def)

lemma scan_spec_runs:
  assumes "parser_inv p" and "node_wf node" and "spec_ok s"
  shows "runs p0 (scan_spec node s) p (\<lambda>t q. q = p \<and> spec_ok t)"
proof -
  have "kind node < 65536" "node_data node < 4294967296" using assms(2) by (auto simp: node_wf_def)
  moreover have "spec_ok (case Option.bind name (typedef_kinds p) of
      Some (kd, tag) \<Rightarrow> (if kd = 4 \<or> kd = 5 then s\<lparr>struct_data := tag, is_struct_or_union := True\<rparr> else s)\<lparr>base_kind := kd\<rparr>
    | None \<Rightarrow> s)" for name
    using assms(1,3) by (cases name) (auto simp: spec_ok_def split: option.split dest: typedef_bounds)
  ultimately show ?thesis
    unfolding scan_spec_def Let_def using assms(3)
    by (auto intro!: runs_intros spec_ok_kind spec_ok_data)
qed

lemma scan_specs_runs:
  "parser_inv p \<Longrightarrow> height (p_arena p) off < n \<Longrightarrow> spec_ok s \<Longrightarrow>
     runs p0 (scan_specs n off s) p (\<lambda>t q. q = p \<and> spec_ok t)"
proof (induction n arbitrary: off s)
  case (Suc n)
  have f: "forest (p_arena p)" "nodes_wf (p_arena p)" using Suc.prems(1) by (simp_all add: parser_inv_def)
  have "runs p0 (pbind (scan_spec node s) (\<lambda>t. scan_specs n (next_sibling node) t)) p (\<lambda>t q. q = p \<and> spec_ok t)"
    if "arena_get (p_arena p) off = Some node" for node
  proof (rule runs_bind, rule scan_spec_runs [THEN runs_weaken])
    show "node_wf node" using f(2) that by (simp add: nodes_wf_def)
    fix t q assume "q = p \<and> spec_ok t"
    moreover have "height (p_arena p) (next_sibling node) < n"
      using height_next [OF f(1) that] Suc.prems(2) by simp
    ultimately show "runs p0 (scan_specs n (next_sibling node) t) q (\<lambda>t q. q = p \<and> spec_ok t)"
      using Suc.IH Suc.prems(1) by blast
  qed (use Suc.prems in auto)
  with Suc.prems(3) show ?case
    by (auto intro!: runs_if runs_pret runs_case_option runs_bind [OF runs_arena_node])
qed simp

lemma resolved_kind_small: "spec_ok s \<Longrightarrow> resolved_kind s < 65536"
  by (auto simp: resolved_kind_def spec_ok_def)

lemma walk_rounds: "parser_inv p \<Longrightarrow> height (p_arena p) off < node_rounds p"
proof -
  assume "parser_inv p"
  then have "1 \<le> node_allocated (p_arena p)" by (simp add: parser_inv_def arena_inv_def)
  from height_le [OF this, of off] show ?thesis by (simp add: node_rounds_def)
qed

lemma typedef_walks_runs [runs_intros]:
  assumes "ext p0 p"
  shows "(\<And>r. Q r p) \<Longrightarrow> runs p0 (find_declarator_name off) p Q"
    and "(\<And>b. Q' b p) \<Longrightarrow> runs p0 (declarator_contains_pointer off) p Q'"
    and "(\<And>k t. k < 65536 \<Longrightarrow> t < 4294967296 \<Longrightarrow> Q'' (k, t) p) \<Longrightarrow> runs p0 (resolve_specifier_chain_kind off) p Q''"
proof -
  have p: "parser_inv p" "forest (p_arena p)" using extD(1) [OF assms] by (simp_all add: parser_inv_def)
  note w = walk_rounds [OF p(1), of off]
  show "runs p0 (find_declarator_name off) p Q" if "\<And>r. Q r p"
    using find_name_runs [OF p(2) w, of p0] that by (simp add: find_declarator_name_def runs_def split: presult.splits)
  show "runs p0 (declarator_contains_pointer off) p Q'" if "\<And>b. Q' b p"
    using has_pointer_runs [OF p(2) w, of p0] that by (simp add: declarator_contains_pointer_def runs_def split: presult.splits)
  show "runs p0 (resolve_specifier_chain_kind off) p Q''" if "\<And>k t. k < 65536 \<Longrightarrow> t < 4294967296 \<Longrightarrow> Q'' (k, t) p"
    unfolding resolve_specifier_chain_kind_def
  proof (rule runs_bind)
    show "runs p0 (\<lambda>p. scan_specs (node_rounds p) off spec_scan_start p) p (\<lambda>s q. runs p0
        (pret (if is_pointer_decl s then (7, 0)
           else if is_struct_or_union s then (base_kind s, struct_data s) else (resolved_kind s, 0))) q Q'')"
      using scan_specs_runs [OF p(1) w spec_ok_simps(1), of p0] that resolved_kind_small
      by (auto simp: runs_def pret_def spec_ok_def split: presult.splits)
  qed
qed

section \<open>Changes of the tables\<close>

lemma runs_tables:
  assumes "ext p0 p" and "parser_inv p \<Longrightarrow> parser_inv (f p)"
    and "p_arena (f p) = p_arena p" and "p_tokens (f p) = p_tokens p" and "p_current (f p) = p_current p"
    and "\<And>q. ext p0 q \<Longrightarrow> ext p q \<Longrightarrow> mark p = mark q \<Longrightarrow> p_current p = p_current q \<Longrightarrow> Q () q"
  shows "runs p0 (pmodify f) p Q"
proof -
  have "ext p0 (f p)" "ext p (f p)"
    using assms(1-5) extD(1) [OF assms(1)] by (auto simp: ext_def mark_def closed_set_def)
  with assms(3,5,6) show ?thesis by (simp add: runs_def pmodify_def mark_def)
qed

lemma runs_note_constant [runs_intros]:
  assumes "ext p0 p"
    and "\<And>q. ext p0 q \<Longrightarrow> ext p q \<Longrightarrow> mark p = mark q \<Longrightarrow> p_current p = p_current q \<Longrightarrow> Q () q"
  shows "runs p0 (pmodify (\<lambda>p. p\<lparr>constant_ints := c p\<rparr>)) p Q"
  using assms(1) by (rule runs_tables) (use assms(2) in \<open>auto simp: parser_inv_def\<close>)

lemma runs_note_typedef [runs_intros]:
  assumes "ext p0 p" and "k < 65536" and "t < 4294967296"
    and "\<And>q. ext p0 q \<Longrightarrow> ext p q \<Longrightarrow> mark p = mark q \<Longrightarrow> p_current p = p_current q \<Longrightarrow> Q () q"
  shows "runs p0 (pmodify (\<lambda>p. p\<lparr>typedef_kinds := (typedef_kinds p)(name \<mapsto> (k, t))\<rparr>)) p Q"
  using assms(1) by (rule runs_tables) (use assms(2-4) in \<open>auto simp: parser_inv_def\<close>)

lemma runs_note_name [runs_intros]:
  assumes "ext p0 p"
    and "\<And>q. ext p0 q \<Longrightarrow> ext p q \<Longrightarrow> mark p = mark q \<Longrightarrow> p_current p = p_current q \<Longrightarrow> Q () q"
  shows "runs p0 (pmodify (\<lambda>p. p\<lparr>typedef_names := c p\<rparr>)) p Q"
  using assms(1) by (rule runs_tables) (use assms(2) in \<open>auto simp: parser_inv_def\<close>)

lemma runs_register [runs_intros]:
  assumes "ext p0 p"
    and "\<And>q. ext p0 q \<Longrightarrow> ext p q \<Longrightarrow> mark p = mark q \<Longrightarrow> p_current p = p_current q \<Longrightarrow> Q () q"
  shows "runs p0 (register_typedef_name specifiers declarator) p Q"
  unfolding register_typedef_name_def using assms(1) ext_refl [OF extD(1) [OF assms(1)]]
  by (auto intro!: runs_intros assms(2) intro: keeps)

end
