(* ===== verification/ParserDescent.thy ===== *)
theory ParserDescent
  imports ParserSeal
begin

text \<open>
  The contracts of the functions of the parser, in the order of their definitions. The functions
  that another function calls through the table of nonterminals are the interface of the locale
  \<open>descent\<close>: with fewer than \<open>l\<close> tokens left they return new nodes. Inside it every function is shown
  to meet its contract with up to \<open>l\<close> tokens; the table \<open>parse_nt\<close> then satisfies the interface at
  every depth.
\<close>

section \<open>Codes that fit their fields\<close>

lemma u32_from_str_small [simp]: "or_zero (u32_from_str radix s) < 4294967296"
  by (auto simp: u32_from_str_def or_zero_def Let_def)

lemma attr_data_small [simp]: "attr_data k < 4294967296"
  by (cases k) auto

lemma int_constant_small [simp]: "int_constant_value s < 4294967296"
  by (simp add: int_constant_value_def Let_def)

lemma escape_small: "either_escape c = Some v \<Longrightarrow> v < 4294967296"
  by (auto simp: either_escape_def simple_escape_def control_escape_def split: if_splits option.splits)

lemma ord_small [simp]: "of_char (c :: char) < (4294967296 :: nat)"
  by (rule less_trans [OF nat_of_char_less_256]) simp

lemma char_constant_small [simp]: "char_constant_value s < 4294967296"
  using escape_small by (auto simp: char_constant_value_def Let_def split: option.splits)

lemma map_of_pred: "map_of xs k = Some v \<Longrightarrow> list_all (\<lambda>x. Q (snd x)) xs \<Longrightarrow> Q v"
  by (auto simp: list_all_iff dest!: map_of_SomeD)

lemma prefix_operator_small: "prefix_operator p = Some (code, nt) \<Longrightarrow> code < 4294967296"
  by (auto simp: prefix_operator_def split: if_splits)

lemma assignment_operator_small: "assignment_operator p = Some code \<Longrightarrow> code < 4294967296"
  by (auto simp: assignment_operator_def split: if_splits)

lemma binary_operator_small: "get_binary_operator p = (prec, code) \<Longrightarrow> code < 4294967296"
  by (auto simp: get_binary_operator_def split: if_splits)

lemma wakes_operators: "parser_inv p \<Longrightarrow> prefix_operator p = Some r \<Longrightarrow> live p"
    "parser_inv p \<Longrightarrow> assignment_operator p = Some r' \<Longrightarrow> live p"
    "parser_inv p \<Longrightarrow> get_binary_operator p = (prec, code) \<Longrightarrow> prec \<noteq> 0 \<Longrightarrow> live p"
  by (auto simp: prefix_operator_def assignment_operator_def get_binary_operator_def parser_inv_def at_kind_def
      split: if_splits dest!: not_live)

section \<open>Attributes and GNU expressions\<close>

locale descent =
  fixes P :: nonterms and l :: nat
  assumes nonterm_ok: "below l (P nt) own"
    and specifiers_ok: "below l (P N_Specifiers) own1"
begin

lemmas nonterm_runs [runs_intros] =
  runs_node_below [OF nonterm_ok] runs_link_next_below [OF nonterm_ok] runs_link_item_below [OF nonterm_ok]

lemma attribute_argument_ok: "below l (attribute_argument P) own"
  unfolding attribute_argument_def
  by (rule belowI) (auto intro!: runs_intros)

lemmas attribute_argument_item [runs_intros] = runs_link_next_below [OF attribute_argument_ok]

lemma attribute_arguments_ok: "below l (attribute_arguments P) own"
  unfolding attribute_arguments_def
  by (rule belowI) (auto intro!: runs_intros intro: keeps)

lemmas attribute_arguments_runs [runs_intros] = runs_node_below [OF attribute_arguments_ok]

lemma parse_single_attribute_ok: "meets l (parse_single_attribute P) own"
  unfolding parse_single_attribute_def
  by (rule meetsI) (auto intro!: runs_intros)

lemmas parse_single_attribute_item [runs_intros] = runs_link_next [OF parse_single_attribute_ok]

lemma parse_attribute_list_ok: "meets l (parse_attribute_list P) own"
  unfolding parse_attribute_list_def
  by (rule meetsI) (auto intro!: runs_intros intro: keeps)

lemmas parse_attribute_list_runs [runs_intros] =
  runs_node [OF parse_attribute_list_ok] runs_link_next [OF parse_attribute_list_ok]

lemma parse_typeof_expr_ok: "meets l (parse_typeof_expr P) own"
  unfolding parse_typeof_expr_def
  by (rule meetsI) (auto intro!: runs_intros intro: keeps)

lemma parse_statement_expr_ok: "meets l (parse_statement_expr P) own"
  unfolding parse_statement_expr_def statement_expr_round_def
  by (rule meetsI) (auto intro!: runs_intros intro: keeps)

lemmas parse_typeof_expr_runs [runs_intros] = runs_node [OF parse_typeof_expr_ok]

lemmas parse_statement_expr_runs [runs_intros] = runs_node [OF parse_statement_expr_ok]

lemma parse_label_addr_ok: "meets l parse_label_addr own"
  unfolding parse_label_addr_def
  by (rule meetsI) (auto intro!: runs_intros)

lemma parse_extension_wrapper_ok: "meets_live l (parse_extension_wrapper P) own1"
  unfolding parse_extension_wrapper_def own1_def
  by (rule meets_liveI) (auto intro!: runs_intros intro: keeps)

lemma skip_words_ok: "[] \<notin> set ws \<Longrightarrow> meets l (skip_words ws) (\<lambda>p q _. True)"
  unfolding skip_words_def
  by (rule meetsI) (auto intro!: runs_intros runs_idle_loop)

lemmas skip_words_runs [runs_intros] = runs_call [OF skip_words_ok]

lemma abstract_pointer_depth_ok: "meets l abstract_pointer_depth (\<lambda>p q d. d < 4294967296)"
  unfolding abstract_pointer_depth_def count_star_def
  by (rule meetsI, rule runs_prepeat [where J = "\<lambda>d q. d < 4294967296" and B = "\<lambda>d q. d < 4294967296"])
    (auto intro!: runs_intros simp: type_qualifier_words_def)

lemmas abstract_pointer_depth_runs [runs_intros] = runs_call [OF abstract_pointer_depth_ok]

lemma builtin_argument_ok: "below l (builtin_argument P k i) own"
  unfolding builtin_argument_def
  by (rule belowI) (auto intro!: runs_intros intro: keeps)

lemmas builtin_argument_item [runs_intros] = runs_link_next_below [OF builtin_argument_ok]

lemma parse_builtin_call_ok: "meets l (parse_builtin_call P name) own"
  unfolding parse_builtin_call_def
  by (rule meetsI) (auto intro!: runs_intros intro: keeps)

section \<open>Expressions\<close>

lemma name_node_ok: "meets l name_node own"
  unfolding name_node_def
  by (rule meetsI) (auto intro!: runs_intros)

lemma adjacent_strings_ok: "meets l (adjacent_strings s) (\<lambda>p q _. True)"
  unfolding adjacent_strings_def
  by (rule meetsI, rule runs_owning_loop [where f = "\<lambda>_. (NULL, NULL)" and g = "\<lambda>_. (NULL, NULL)"])
    (auto intro!: runs_intros simp: live_def)

lemmas atom_parts_runs [runs_intros] =
  runs_node [OF name_node_ok] runs_node [OF parse_builtin_call_ok] runs_node [OF parse_label_addr_ok]
  runs_node_live [OF own1_own_live [OF parse_extension_wrapper_ok]] runs_call [OF adjacent_strings_ok]

lemma parse_atom_ok: "meets l (parse_atom P) own"
proof (rule meetsI)
  fix p assume p: "parser_inv p" "ext p p" "tokens_left p \<le> l"
  have "live p" if "pk_kind (current_token p) \<noteq> K_EOF"
    using that p(1) not_live by (auto simp: parser_inv_def)
  with p show "runs p (parse_atom P) p (\<lambda>r q. ext p q \<and> own p q r)"
    unfolding parse_atom_def
    by (cases "pk_kind (current_token p)") (auto intro!: runs_intros intro: keeps)
qed

lemmas parse_atom_runs [runs_intros] = runs_node [OF parse_atom_ok]

lemma parse_primary_expression_ok: "meets l (parse_primary_expression P) own"
  unfolding parse_primary_expression_def
  by (rule meetsI) (auto intro!: runs_intros)

lemmas parse_primary_expression_runs [runs_intros] = runs_node [OF parse_primary_expression_ok]

lemma call_argument_ok: "below l (call_argument P) own"
  unfolding call_argument_def
  by (rule belowI) (auto intro!: runs_intros)

lemmas call_argument_item [runs_intros] = runs_link_next_below [OF call_argument_ok]

lemma parse_argument_expression_list_ok: "below l (parse_argument_expression_list P) own"
  unfolding parse_argument_expression_list_def
  by (rule belowI) (auto intro!: runs_intros intro: keeps)

lemmas parse_argument_expression_list_runs [runs_intros] = runs_node_below [OF parse_argument_expression_list_ok]

lemma member_access_runs [runs_intros]:
  assumes "ext p0 p" and "own p0 p expr" and "arrow < 4294967296"
    and "\<And>r q. ext p0 q \<Longrightarrow> own p0 q r \<Longrightarrow> mark p \<le> mark q \<Longrightarrow> p_current p \<le> p_current q \<Longrightarrow> Q r q"
  shows "runs p0 (member_access arrow expr) p Q"
proof -
  have "or off arrow < 4294967296" if "off < 4294967296" for off
  proof -
    have "int (or off arrow) < 4294967296"
      using that assms(3) OR_upper [of "int off" 32 "int arrow"] by (simp add: of_nat_or_eq)
    then show ?thesis by linarith
  qed
  then show ?thesis
    unfolding member_access_def using assms
    by (auto intro!: runs_intros intro: keeps)
qed

lemma call_node_runs [runs_intros]:
  assumes "ext p0 p" and "own p0 p expr" and "tokens_left p0 \<le> l" and "p_current p0 < p_current p"
    and "\<And>r q. ext p0 q \<Longrightarrow> own p0 q r \<Longrightarrow> mark p \<le> mark q \<Longrightarrow> p_current p \<le> p_current q \<Longrightarrow> Q r q"
  shows "runs p0 (call_node P expr) p Q"
  unfolding call_node_def using assms
  by (auto intro!: runs_intros runs_set_next [where ?p1.0 = p] intro: keeps)

lemma index_node_runs [runs_intros]:
  assumes "ext p0 p" and "own p0 p expr" and "tokens_left p0 \<le> l" and "p_current p0 < p_current p"
    and "\<And>r q. ext p0 q \<Longrightarrow> own p0 q r \<Longrightarrow> mark p \<le> mark q \<Longrightarrow> p_current p \<le> p_current q \<Longrightarrow> Q r q"
  shows "runs p0 (index_node P expr) p Q"
  unfolding index_node_def using assms
  by (auto intro!: runs_intros intro: keeps)

lemma parse_postfix_expression_ok: "meets l (parse_postfix_expression P) own"
  unfolding parse_postfix_expression_def postfix_round_def
  by (rule meetsI) (auto intro!: runs_intros runs_node_loop intro: keeps)

lemmas parse_postfix_expression_runs [runs_intros] = runs_node [OF parse_postfix_expression_ok]

lemma parse_sizeof_expression_ok: "meets_live l (parse_sizeof_expression P) own"
  unfolding parse_sizeof_expression_def
  by (rule meets_liveI) (auto intro!: runs_intros intro: keeps)

lemmas parse_sizeof_expression_runs [runs_intros] = runs_node_live [OF parse_sizeof_expression_ok]

lemma parse_unary_expression_ok: "meets l (parse_unary_expression P) own"
  unfolding parse_unary_expression_def
  by (rule meetsI) (auto intro!: runs_intros simp: wakes_operators intro: keeps prefix_operator_small)

lemmas parse_unary_expression_runs [runs_intros] = runs_node [OF parse_unary_expression_ok]

lemma cast_rest_runs [runs_intros]:
  assumes "ext p0 p" and "own p0 p cast_type" and "tokens_left p0 \<le> l" and "p_current p0 < p_current p"
    and "\<And>r q. ext p0 q \<Longrightarrow> own p0 q r \<Longrightarrow> mark p \<le> mark q \<Longrightarrow> p_current p \<le> p_current q \<Longrightarrow> Q r q"
  shows "runs p0 (cast_rest P cast_type) p Q"
  unfolding cast_rest_def using assms own_small [OF extD(1)]
  by (auto intro!: runs_intros runs_append [where ?p1.0 = p] intro: keeps)

lemma cast_type_name_runs [runs_intros]:
  assumes "ext p0 p" and "tokens_left p0 \<le> l" and "p_current p0 < p_current p"
    and "\<And>r q. ext p0 q \<Longrightarrow> own p0 q r \<Longrightarrow> mark p \<le> mark q \<Longrightarrow> p_current p \<le> p_current q \<Longrightarrow> Q r q"
  shows "runs p0 (cast_type_name P) p Q"
  unfolding cast_type_name_def
proof (rule runs_bind, rule runs_node_below [OF nonterm_ok assms(2,1)])
  fix r q assume q: "ext p0 q" "ext p q" "mark p \<le> mark q" "p_current p \<le> p_current q" "own p q r" "own p0 q r"
  show "runs p0 (pif (at_text ''*'') (pbind (P N_Declarator) (\<lambda>ptr_decl.
      pbind (if ptr_decl \<noteq> NULL then append_sibling r ptr_decl else pret ()) (\<lambda>_. pret r))) (pret r)) q Q"
    using q assms(1-3) by (auto intro!: runs_intros runs_append [where ?p1.0 = q] assms(4) intro: keeps)
qed (use assms(3) in simp)

lemma parse_cast_expression_ok: "meets l (parse_cast_expression P) own"
  unfolding parse_cast_expression_def parenthesised_def
  by (rule meetsI) (auto intro!: runs_intros intro: keeps)

lemmas parse_cast_expression_runs [runs_intros] = runs_node [OF parse_cast_expression_ok]

lemma binary_round_runs [runs_intros]:
  assumes "ext p0 p" and "own p0 p left" and "tokens_left p0 \<le> l"
    and "\<And>r q. round_ok p0 (\<lambda>r q. own p0 q r) (\<lambda>r q. own p0 q r) p r q \<Longrightarrow> Q r q"
  shows "runs p0 (binary_round P n left) p Q"
proof -
  obtain prec code where r: "get_binary_operator p = (prec, code)" by fastforce
  have "live p" if "\<not> prec \<le> n"
    using wakes_operators(3) [OF extD(1) [OF assms(1)] r] that by simp
  then show ?thesis
    unfolding binary_round_def using assms(1-3) r binary_operator_small [OF r]
    by (auto intro!: runs_intros assms(4) intro: keeps dest: extD)
qed

lemma parse_binary_op_ok: "meets l (parse_binary_op P n) own"
  unfolding parse_binary_op_def
  by (rule meetsI) (auto intro!: runs_intros runs_node_loop intro: keeps)

lemmas parse_binary_op_runs [runs_intros] = runs_node [OF parse_binary_op_ok]

lemma parse_conditional_expression_ok: "meets l (parse_conditional_expression P) own"
  unfolding parse_conditional_expression_def parse_binary_expression_def
  by (rule meetsI) (auto intro!: runs_intros intro: keeps)

lemmas parse_conditional_expression_runs [runs_intros] = runs_node [OF parse_conditional_expression_ok]

lemma parse_assignment_expression_ok: "meets l (parse_assignment_expression P) own"
  unfolding parse_assignment_expression_def
proof (rule meetsI, rule runs_bind, rule runs_node [OF parse_conditional_expression_ok])
  fix p left q
  assume p: "parser_inv p" "ext p p" "tokens_left p \<le> l" "ext p q" "own p q left" "p_current p \<le> p_current q"
  show "runs p (pbind (look assignment_operator) (\<lambda>r. case r of
       Some op_code \<Rightarrow>
         pbind p_advance (\<lambda>_. pbind (P N_Assignment) (\<lambda>right. alloc_node 73 op_code NULL left right))
     | None \<Rightarrow> pret left)) q (\<lambda>r q. ext p q \<and> own p q r)"
    using p wakes_operators(2) [OF extD(1) [OF p(4)]] assignment_operator_small
    by (auto intro!: runs_intros intro: keeps)
qed

lemmas parse_assignment_expression_runs [runs_intros] = runs_node [OF parse_assignment_expression_ok]

lemma parse_expression_ok: "meets l (parse_expression P) own"
  unfolding parse_expression_def parse_comma_expression_def
  by (rule meetsI) (auto intro!: runs_intros intro: keeps)

lemma parse_constant_expression_ok: "meets l (parse_constant_expression P) own"
  unfolding parse_constant_expression_def by (rule parse_conditional_expression_ok)

lemmas parse_expression_runs [runs_intros] =
  runs_node [OF parse_expression_ok] runs_node [OF parse_constant_expression_ok]

section \<open>Initializers\<close>

definition own_some :: "parser \<Rightarrow> parser \<Rightarrow> node_offset option \<Rightarrow> bool" where
  "own_some p q r \<longleftrightarrow> (case r of Some off \<Rightarrow> own p q off | None \<Rightarrow> True)"

lemma own_some_simps [simp]: "own_some p q None" "own_some p q (Some off) \<longleftrightarrow> own p q off"
  by (simp_all add: own_some_def)

lemma at_designator_punct: "at_designator p \<longleftrightarrow> at_punct ''.'' p \<or> at_punct ''['' p"
  by (auto simp: at_designator_def at_punct_def)

lemma designated_runs:
  assumes "ext p0 p" and "at_designator p" and "tokens_left p0 \<le> l"
    and "\<And>r q. ext p0 q \<Longrightarrow> own_some p0 q r \<Longrightarrow> p_current p < p_current q \<Longrightarrow> Q r q"
  shows "runs p0 (designated P) p Q"
  unfolding designated_def using assms(1-3) extD(3) [OF assms(1)]
  by (auto intro!: runs_intros assms(4) intro: keeps simp: at_designator_punct)

lemma parse_designated_init_runs [runs_intros]:
  assumes "ext p0 p" and "at_designator p" and "tokens_left p0 \<le> l"
    and "\<And>r q. ext p0 q \<Longrightarrow> own p0 q r \<Longrightarrow> Q r q"
  shows "runs p0 (parse_designated_init P) p Q"
  unfolding parse_designated_init_def using assms(1-3) extD(3) [OF assms(1)]
  by (auto intro!: runs_intros designated_runs assms(4) intro: keeps)

lemma initializer_element_ok: "below l (initializer_element P) own"
  unfolding initializer_element_def
  by (rule belowI) (auto intro!: runs_intros intro: keeps)

lemmas initializer_element_item [runs_intros] = runs_link_next_below [OF initializer_element_ok]

lemma parse_initializer_ok: "meets l (parse_initializer P) own"
  unfolding parse_initializer_def initializer_round_def
  by (rule meetsI) (auto intro!: runs_intros intro: keeps)

end

end
