(* ===== verification/ParserDescentDecl.thy ===== *)
theory ParserDescentDecl
  imports ParserDescent ParserTypedef
begin

text \<open>The contracts of the functions for specifiers, declarators and declarations.\<close>

section \<open>Codes and typedefs\<close>

lemma specifier_kinds_small [simp]: "storage_class_kind s < 65536" "type_qualifier_kind s < 65536"
    "function_specifier_kind s < 65536"
  by (auto simp: storage_class_kind_def type_qualifier_kind_def function_specifier_kind_def split: option.splits if_splits)

lemma type_specifier_kind_small: "type_specifier_kind s = Some k \<Longrightarrow> k < 65536"
  by (auto simp: type_specifier_kind_def split: if_splits)

lemma mod_u32_small [simp]: "nat (v mod 4294967296) < 4294967296"
  by simp

section \<open>Specifiers\<close>

context descent
begin

lemma word_specifiers_ok: "meets_live l parse_storage_class_specifier own1"
    "meets_live l parse_type_qualifier own1" "meets_live l parse_function_specifier own1"
  unfolding parse_storage_class_specifier_def parse_type_qualifier_def parse_function_specifier_def own1_def
  by (rule meets_liveI; auto intro!: runs_intros intro: keeps)+

lemma parse_attributes_runs [runs_intros]:
  assumes "ext p0 p" and "owns p0 p chain" and "tokens_left p0 \<le> l"
    and "\<And>ch q. ext p0 q \<Longrightarrow> owns p0 q ch \<Longrightarrow> mark p \<le> mark q \<Longrightarrow> p_current p \<le> p_current q \<Longrightarrow> Q ch q"
  shows "runs p0 (parse_attributes P chain) p Q"
  unfolding parse_attributes_def using assms(1-3)
  by (auto intro!: runs_intros assms(4) intro: keeps)

lemma drop_attribute_runs [runs_intros]:
  assumes "ext p0 p" and "live p" and "tokens_left p0 \<le> l"
    and "\<And>q. ext p0 q \<Longrightarrow> ext p q \<Longrightarrow> mark p \<le> mark q \<Longrightarrow> p_current p < p_current q \<Longrightarrow> Q () q"
  shows "runs p0 (drop_attribute P) p Q"
proof (rule runs_step [OF _ assms(1)])
  have p: "ext p p" "tokens_left p \<le> l" using assms(1,3) extD [OF assms(1)] by (auto intro: ext_refl)
  have m: "runs q (parse_attribute_list P) q (\<lambda>r q'. ext q q' \<and> own q q' r)" if "ext p q" for q
    using parse_attribute_list_ok p(2) extD [OF that] by (simp add: meets_def)
  show "runs p (drop_attribute P) p (\<lambda>r q. ext p q \<and> p_current p < p_current q)"
    unfolding drop_attribute_def
  proof (rule runs_bind, rule runs_advance [OF p(1)])
    fix q assume q: "ext p q" "ext p q" "mark p = mark q" "p_current p \<le> p_current q"
      "live p \<longrightarrow> p_current p < p_current q"
    show "runs p (pbind (pcatch (parse_attribute_list P)) (\<lambda>_. pret ())) q (\<lambda>r q. ext p q \<and> p_current p < p_current q)"
      by (rule runs_bind, rule runs_pcatch [where R = own, OF q(1) m [OF q(1)]]) (use q assms(2) in \<open>auto intro!: runs_intros\<close>)
  qed
qed (use assms(4) in auto)

lemma bitfield_width_ok: "meets_live l (bitfield_width P) (\<lambda>p q v. v < 4294967296 \<and> p_current p < p_current q)"
  unfolding bitfield_width_def
  by (rule meets_liveI) (auto intro!: runs_intros intro: keeps)

lemmas specifier_items [runs_intros] =
  word_specifiers_ok [THEN runs_link_next_live1] runs_live [OF word_specifiers_ok(2)]
  runs_live [OF bitfield_width_ok]

lemma anonymous_bitfield_ok: "meets_live l (anonymous_bitfield P) own1"
  unfolding anonymous_bitfield_def own1_def
  by (rule meets_liveI) (auto intro!: runs_intros intro: keeps)

lemmas anonymous_bitfield_item [runs_intros] = runs_link_next_live1 [OF anonymous_bitfield_ok]

lemma member_declarator_ok: "below l (member_declarator P) own"
  unfolding member_declarator_def
  by (rule belowI) (auto intro!: runs_intros intro: keeps)

lemmas member_declarator_item [runs_intros] = runs_link_next_below [OF member_declarator_ok]

lemma struct_declarator_runs [runs_intros]:
  assumes "ext p0 p" and "owns p0 p chain" and "live p" and "tokens_left p0 \<le> l"
    and "tokens_left p0 < l \<or> p_current p0 < p_current p"
    and "\<And>ch q. ext p0 q \<Longrightarrow> owns p0 q ch \<Longrightarrow> mark p \<le> mark q \<Longrightarrow> p_current p < p_current q \<Longrightarrow> Q ch q"
  shows "runs p0 (struct_declarator P chain) p Q"
  unfolding struct_declarator_def using assms(1-5)
  by (auto intro!: runs_intros assms(6) intro: keeps)

lemma struct_declaration_round_runs:
  assumes "ext p0 p" and "owns p0 p (snd s)" and "tokens_left p0 \<le> l"
    and "tokens_left p0 < l \<or> p_current p0 < p_current p"
    and "\<And>r q. round_ok p0 (\<lambda>s q. owns p0 q (snd s)) (\<lambda>ch q. owns p0 q ch) p r q \<Longrightarrow> Q r q"
  shows "runs p0 (struct_declaration_round P s) p Q"
  unfolding struct_declaration_round_def using assms(1-4)
  by (auto intro!: runs_intros assms(5) intro: keeps)

lemma members_ok: "below l (prepeat (struct_declaration_round P) (0, NULL, NULL)) owns"
  by (rule belowI) (auto intro!: runs_intros struct_declaration_round_runs intro: keeps)

text \<open>Specifiers consume a token: without one there are no specifiers, which is an error.\<close>

lemma parse_struct_declaration_ok: "below l (parse_struct_declaration P) own1"
proof (rule belowI)
  fix p assume p: "parser_inv p" "ext p p" "tokens_left p < l" "tokens_left p \<le> l"
  let ?Q = "\<lambda>r q. ext p q \<and> own1 p q r"
  let ?finish = "\<lambda>specifiers chain. pbind (if fst chain \<noteq> NULL then append_sibling specifiers (fst chain) else pret ())
      (\<lambda>_. alloc_node 25 0 NULL specifiers NULL)"
  let ?rest = "pbind (P N_Specifiers) (\<lambda>specifiers.
      pbind (prepeat (struct_declaration_round P) (0, NULL, NULL)) (?finish specifiers))"
  have rest: "runs p ?rest q ?Q" if q: "ext p q" for q
  proof (rule runs_bind, rule runs_below [OF specifiers_ok p(4) q])
    fix r q1 assume q1: "ext p q1" "ext q q1" "own1 q q1 r"
    show "runs p (pbind (prepeat (struct_declaration_round P) (0, NULL, NULL)) (?finish r)) q1 ?Q"
    proof (rule runs_bind, rule runs_below [OF members_ok p(4) q1(1)])
      fix ch q2 assume q2: "ext p q2" "ext q1 q2" "owns q1 q2 ch" "p_current q1 \<le> p_current q2"
      have r: "own p q1 r" "own p q2 r" "own q1 q2 (fst ch)" "p_current p < p_current q2"
        using q1 q2 own_down [OF _ q, of q1 r] extD(3) [OF q] extD(4) [OF q2(2)]
        by (auto simp: own1_def owns_def intro: own_up)
      show "runs p (?finish r ch) q2 ?Q"
        by (rule runs_bind, rule runs_append_if [OF q1(1) r(1) q2(2) r(3)])
          (use r in \<open>auto intro!: runs_intros intro: own_up_eq simp: own1_def\<close>)
    qed (use p in simp)
  qed (use p in simp)
  show "runs p (parse_struct_declaration P) p ?Q"
    unfolding parse_struct_declaration_def
    by (rule runs_bind, rule runs_pif [OF p(2)], rule runs_advance [OF p(2)], erule rest,
        rule runs_pret, rule rest, rule p(2))
qed

lemmas parse_struct_declaration_item [runs_intros] = runs_link_next_below1 [OF parse_struct_declaration_ok]

lemma record_tag_ok: "meets l record_tag (\<lambda>p q tag. tag < 4294967296)"
  unfolding record_tag_def
  by (rule meetsI) (auto intro!: runs_intros)

lemmas record_tag_runs [runs_intros] = runs_call [OF record_tag_ok]

lemma parse_record_specifier_ok: "k < 65536 \<Longrightarrow> meets l (parse_record_specifier k P) own"
  unfolding parse_record_specifier_def record_round_def
  by (rule meetsI) (auto intro!: runs_intros intro: keeps)

section \<open>Enumerations\<close>

lemma enum_value_ok: "meets l (enum_value P n) (\<lambda>p q v. True)"
  unfolding enum_value_def
  by (rule meetsI) (auto intro!: runs_intros)

lemmas enum_value_runs [runs_intros] = runs_call [OF enum_value_ok]

lemma named_constant_runs [runs_intros]:
  assumes "ext p0 p" and "own p0 p c" and "off < 4294967296"
    and "\<And>q. ext p0 q \<Longrightarrow> own p0 q c \<Longrightarrow> mark p \<le> mark q \<Longrightarrow> p_current p = p_current q \<Longrightarrow> Q c q"
  shows "runs p0 (named_constant off c) p Q"
  unfolding named_constant_def
proof (rule runs_bind, rule runs_alloc [OF assms(1)])
  fix i q assume "ext p0 q" "ext_if (NULL = 0 \<and> NULL = 0) p q" "own p0 q i" "own p q i" "mark p \<le> mark q"
    "p_current p = p_current q"
  then show "runs p0 (pbind (set_first_child c i) (\<lambda>_. pret c)) q Q"
    using assms(1,2) by (auto intro!: runs_intros runs_set_first [where ?p1.0 = p] assms(4) intro: keeps)
qed (use assms(3) own_small [OF extD(1) [OF assms(1)] assms(2)] in auto)

lemma enum_constant_ok: "meets l (enum_constant name v) own"
  unfolding enum_constant_def
  by (rule meetsI) (auto intro!: runs_intros intro: keeps)

lemmas enum_constant_item [runs_intros] = runs_link_next [OF enum_constant_ok]

lemma parse_enum_specifier_ok: "meets l (parse_enum_specifier P) own"
  unfolding parse_enum_specifier_def enum_round_def
  by (rule meetsI) (auto intro!: runs_intros intro: keeps)

section \<open>Lists of specifiers\<close>

lemma typedef_specifier_ok: "meets l (typedef_specifier name) own"
  unfolding typedef_specifier_def
  by (rule meetsI) (auto intro!: runs_intros dest: typedef_bounds)

lemmas specifier_parts_runs [runs_intros] =
  runs_node [OF parse_record_specifier_ok] runs_node [OF parse_enum_specifier_ok] runs_node [OF typedef_specifier_ok]

lemma parse_type_specifier_ok: "meets_live l (parse_type_specifier P) own1"
  unfolding parse_type_specifier_def parse_struct_specifier_def parse_union_specifier_def own1_def
  by (rule meets_liveI) (auto intro!: runs_intros intro: keeps type_specifier_kind_small)

lemmas parse_type_specifier_item [runs_intros] = runs_link_next_live1 [OF parse_type_specifier_ok]

lemma specifier_round_runs:
  assumes "ext p0 p" and "owns p0 p (snd s)" and "tokens_left p0 \<le> l"
  shows "runs p0 (specifier_round P s) p (round_ok p0 (\<lambda>s q. owns p0 q (snd s))
    (\<lambda>x q. x = (fst s, fst (snd s)) \<and> own p0 q (snd x)) p)"
  unfolding specifier_round_def Let_def using assms owns_fst [OF assms(2)]
  by (auto intro!: runs_intros intro: keeps)

lemma parse_declaration_specifiers_ok: "meets l (parse_declaration_specifiers P) own1"
proof (rule meetsI)
  fix p assume p: "parser_inv p" "ext p p" "tokens_left p \<le> l"
  let ?J = "\<lambda>s q. owns p q (snd s) \<and> (s = (False, 0, 0) \<or> p_current p < p_current q)"
  let ?B = "\<lambda>x q. own p q (snd x) \<and> (x = (False, 0) \<or> p_current p < p_current q)"
  have "runs p (specifier_round P s) q (round_ok p ?J ?B q)"
    if "ext p q" "?J s q" "p_current p \<le> p_current q" for s q
    using specifier_round_runs [OF that(1) conjunct1 [OF that(2)] p(3)]
    by (rule runs_weaken) (use that in \<open>auto simp: round_ok_def split: sum.splits\<close>)
  then have "runs p (prepeat (specifier_round P) (False, NULL, NULL)) p (\<lambda>x q. ext p q \<and> ?B x q)"
    using p(2) by (intro runs_prepeat [where J = ?J and B = ?B]) auto
  then show "runs p (parse_declaration_specifiers P) p (\<lambda>r q. ext p q \<and> own1 p q r)"
    unfolding parse_declaration_specifiers_def own1_def
    by (intro runs_bind) (auto elim!: runs_weaken intro!: runs_intros split: prod.split)
qed

lemmas parse_declaration_specifiers_runs [runs_intros] =
  runs_node [OF own1_own [OF parse_declaration_specifiers_ok]]

section \<open>Declarators\<close>

lemma parse_parameter_declaration_ok: "meets l (parse_parameter_declaration P) own"
proof (rule meetsI)
  fix p assume p: "parser_inv p" "ext p p" "tokens_left p \<le> l"
  let ?Q = "\<lambda>r q. ext p q \<and> own p q r"
  let ?finish = "\<lambda>specifiers. pbind (pif is_declarator_start (P N_Declarator) (pret NULL)) (\<lambda>declarator.
      pbind (if declarator \<noteq> NULL \<and> specifiers \<noteq> NULL then append_sibling specifiers declarator else pret ()) (\<lambda>_.
      alloc_node 24 0 NULL specifiers NULL))"
  have rest: "runs p (?finish r) q ?Q" if q: "ext p q" "own p q r" "p_current p < p_current q" for q r
  proof (rule runs_bind)
    have "runs q (pif is_declarator_start (P N_Declarator) (pret NULL)) q (\<lambda>d q1. ext q q1 \<and> own q q1 d)"
      using p q ext_refl [OF extD(1) [OF q(1)]] tokens_left_less [OF q(1,3)] extD [OF q(1)]
      by (auto intro!: runs_intros)
    then show "runs p (pif is_declarator_start (P N_Declarator) (pret NULL)) q (\<lambda>d q1. runs p
       (pbind (if d \<noteq> NULL \<and> r \<noteq> NULL then append_sibling r d else pret ()) (\<lambda>_. alloc_node 24 0 NULL r NULL)) q1 ?Q)"
    proof (rule runs_step [OF _ q(1)])
      fix d q1 assume q1: "ext p q1" "ext q q1" "own q q1 d" "mark q \<le> mark q1"
      show "runs p (pbind (if d \<noteq> NULL \<and> r \<noteq> NULL then append_sibling r d else pret ())
          (\<lambda>_. alloc_node 24 0 NULL r NULL)) q1 ?Q"
        by (rule runs_bind, rule runs_append_if [OF q(1,2) q1(2,3)])
          (use own_up [OF q(2) q1(4)] in \<open>auto intro!: runs_intros intro: own_up_eq\<close>)
    qed
  qed
  show "runs p (parse_parameter_declaration P) p ?Q"
    unfolding parse_parameter_declaration_def
  proof (rule runs_pif [OF p(2)], rule runs_bind, rule runs_call [OF parse_declaration_specifiers_ok p(3,2)])
    fix r q assume "ext p q" "own1 p q r"
    then show "runs p (?finish r) q ?Q" by (intro rest) (auto simp: own1_def)
  qed (use p in \<open>auto intro!: runs_intros\<close>)
qed

lemmas parse_parameter_declaration_item [runs_intros] = runs_link_next [OF parse_parameter_declaration_ok]

lemma parse_parameter_list_ok: "meets l (parse_parameter_list P) (\<lambda>p q r. own p q (fst r))"
  unfolding parse_parameter_list_def parameter_round_def
  by (rule meetsI)
    (auto intro!: runs_intros runs_owning_loop [where f = "\<lambda>ch. ch" and g = "\<lambda>x. (fst x, NULL)"] intro: keeps)

lemma array_size_ok: "meets l (array_size P) (\<lambda>p q v. v < 4294967296)"
  unfolding array_size_def
  by (rule meetsI) (auto intro!: runs_intros)

lemmas declarator_parts_runs [runs_intros] =
  runs_call [OF parse_parameter_list_ok] runs_call [OF array_size_ok]

lemma function_declarator_runs [runs_intros]:
  assumes "ext p0 p" and "own p0 p declarator" and "tokens_left p0 \<le> l"
    and "\<And>r q. ext p0 q \<Longrightarrow> own p0 q r \<Longrightarrow> mark p \<le> mark q \<Longrightarrow> p_current p \<le> p_current q \<Longrightarrow> Q r q"
  shows "runs p0 (function_declarator P declarator) p Q"
  unfolding function_declarator_def using assms
  by (auto intro!: runs_intros runs_set_next [where ?p1.0 = p] intro: keeps)

lemma parse_direct_declarator_ok: "meets l (parse_direct_declarator P) own"
  unfolding parse_direct_declarator_def declarator_round_def
  by (rule meetsI) (auto intro!: runs_intros runs_node_loop intro: keeps)

lemmas parse_direct_declarator_runs [runs_intros] = runs_node [OF parse_direct_declarator_ok]

lemma skip_qualifiers_ok: "meets l skip_qualifiers (\<lambda>p q _. True)"
  unfolding skip_qualifiers_def
  by (rule meetsI) (auto intro!: runs_intros runs_idle_loop simp: own1_def)

lemmas skip_qualifiers_runs [runs_intros] = runs_call [OF skip_qualifiers_ok]

lemma parse_declarator_ok: "meets l (parse_declarator P) own"
proof (rule meetsI)
  fix p assume p: "parser_inv p" "ext p p" "tokens_left p \<le> l"
  have "runs p (prepeat (\<lambda>depth. pbind (skip_punctuator ''*'') (\<lambda>b.
       if b then pbind (count_star depth) (\<lambda>depth. pbind skip_qualifiers (\<lambda>_. again depth)) else break depth)) 0) p
     (\<lambda>d q. ext p q \<and> d < 4294967296)"
    using p by (intro runs_prepeat [where J = "\<lambda>d q. d < 4294967296" and B = "\<lambda>d q. d < 4294967296"])
      (auto intro!: runs_intros simp: count_star_def)
  then show "runs p (parse_declarator P) p (\<lambda>r q. ext p q \<and> own p q r)"
    unfolding parse_declarator_def
    by (intro runs_bind) (erule runs_weaken, use p in \<open>auto intro!: runs_intros intro: keeps\<close>)
qed

lemmas parse_declarator_runs [runs_intros] = runs_node [OF parse_declarator_ok] runs_link_next [OF parse_declarator_ok]

end

end
