(* ===== verification/ParserDescentStmt.thy ===== *)
theory ParserDescentStmt
  imports ParserDescentDecl
begin

text \<open>The contracts of the functions for declarations, statements and translation units.\<close>

section \<open>Declarations\<close>

lemma attach_initializer_sealed:
  assumes "ext p0 p" and "own p0 p d" and "own p0 p e" and "sealed p S" and "d = 0 \<or> d \<in> S"
    and "sealed p N" and "e = 0 \<or> e \<in> N" and "d \<notin> N"
    and "\<And>r q. ext p0 q \<Longrightarrow> own p0 q r \<Longrightarrow> mark p \<le> mark q \<Longrightarrow> p_current p = p_current q \<Longrightarrow>
      sealed q (S \<union> N \<union> {mark p ..< mark q}) \<Longrightarrow> r = 0 \<or> r \<in> {mark p ..< mark q} \<Longrightarrow> Q r q"
  shows "runs p0 (attach_initializer d e) p Q"
  unfolding attach_initializer_def
proof (rule runs_bind)
  have alloc: "runs p0 (alloc_node 73 19 NULL d NULL) q Q"
    if q: "ext p0 q" "mark q = mark p" "p_current q = p_current p" "sealed q (S \<union> N)" for q
  proof (rule runs_alloc_sealed [OF q(1)])
    show "own p0 q d" using assms(2) q(2) by (simp add: own_def)
    fix r q' assume "ext p0 q'" "own p0 q' r" "own q q' r" "mark q \<le> mark q'" "p_current q = p_current q'"
      and "\<And>T. sealed q T \<Longrightarrow> d = 0 \<or> d \<in> T \<Longrightarrow> NULL = 0 \<or> NULL \<in> T \<Longrightarrow> sealed q' (T \<union> {mark q ..< mark q'})"
    with q assms(5) show "Q r q'" by (intro assms(9)) (auto simp: own_def)
  qed simp_all
  have seal: "sealed p (S \<union> N)" using assms(4,6) by (rule sealed_Un)
  show "runs p0 (if d \<noteq> NULL then set_next d e else pret ()) p (\<lambda>_ q. runs p0 (alloc_node 73 19 NULL d NULL) q Q)"
  proof (rule runs_if, rule runs_set_next_sealed [OF assms(1-3,6-8)])
    fix q assume q: "ext p0 q" "linked p q d e"
    have "sealed q (S \<union> N)" using assms(7) by (intro linkedD(4) [OF q(2) seal]) auto
    with q(1) linkedD(1,2) [OF q(2)] show "runs p0 (alloc_node 73 19 NULL d NULL) q Q" by (intro alloc)
  qed (use alloc [OF assms(1) refl refl seal] in \<open>simp add: runs_pret\<close>)
qed

lemma runs_register_if:
  assumes "ext p0 p"
    and "\<And>q. ext p0 q \<Longrightarrow> ext p q \<Longrightarrow> mark p = mark q \<Longrightarrow> p_current p = p_current q \<Longrightarrow> Q () q"
  shows "runs p0 (if b then register_typedef_name specifiers declarator else pret ()) p Q"
  by (rule runs_if; rule runs_register runs_pret) (use assms ext_refl [OF extD(1) [OF assms(1)]] in auto)

context descent
begin

lemma attribute_round_sealed:
  assumes "ext p0 q" and "owns p0 q ch" and "tokens_left p0 \<le> l" and "mark p \<le> mark q"
    and "sealed q S" and "S \<subseteq> {..< mark p}" and "sealed q (T \<union> {mark p ..< mark q})" and "snd ch \<notin> S"
    and "\<And>ch' q'. ext p0 q' \<Longrightarrow> owns p0 q' ch' \<Longrightarrow> mark q \<le> mark q' \<Longrightarrow> p_current q \<le> p_current q' \<Longrightarrow> sealed q' S \<Longrightarrow>
      sealed q' (T \<union> {mark p ..< mark q'}) \<Longrightarrow> snd ch' = snd ch \<or> mark p \<le> snd ch' \<Longrightarrow> Q ch' q'"
  shows "runs p0 (link_next ch (parse_attribute_list P)) q Q"
  unfolding link_next_def
proof (rule runs_bind, rule runs_node [OF parse_attribute_list_ok assms(3,1)])
  fix a q2 assume q2: "ext p0 q2" "ext q q2" "mark q \<le> mark q2" "p_current q \<le> p_current q2" "own q q2 a" "own p0 q2 a"
  have ch: "snd ch < mark q"
    using own_less [OF owns_snd [OF assms(2)] extD(1) [OF assms(1)]] .
  have new: "sealed q2 (T \<union> {mark p ..< mark q2})"
  proof -
    have "T \<union> {mark p ..< mark q} \<union> {mark q ..< mark q2} = T \<union> {mark p ..< mark q2}"
      using assms(4) q2(3) by auto
    with sealed_new [OF q2(2) assms(7)] show ?thesis by simp
  qed
  show "runs p0 (link_siblings ch a) q2 Q"
  proof (rule runs_link_siblings_sealed [OF q2(1) owns_up [OF assms(2) q2(3)] q2(6) sealed_run [OF q2(2)]])
    show "a = 0 \<or> a \<in> {mark q ..< mark q2}" using q2(5) by (simp add: own_def)
    show "snd ch \<notin> {mark q ..< mark q2}" using ch by simp
    fix ch' q3
    assume q3: "ext p0 q3" "linked q2 q3 (snd ch) a" "owns p0 q3 ch'" "if a = 0 then ch' = ch else snd ch' = a"
    note d = linkedD [OF q3(2)]
    have "sealed q3 S" by (rule d(3) [OF sealed_ext [OF q2(2) assms(5)] assms(8)])
    moreover have "sealed q3 (T \<union> {mark p ..< mark q3})"
      unfolding d(1) using q2(5) assms(4) by (intro d(4) [OF new]) (auto simp: own_def)
    moreover have "snd ch' = snd ch \<or> mark p \<le> snd ch'"
      using q3(4) q2(5) assms(4) by (auto simp: own_def split: if_splits)
    ultimately show "Q ch' q3"
      using q3(1,3) assms(4) q2(3,4) d(1,2) by (intro assms(9)) auto
  qed
qed

text \<open>
  Attributes that are linked to a chain, past the nodes of a set \<open>S\<close>: no link into \<open>S\<close> or out of it is
  made, and the new nodes hang together with the set \<open>T\<close> of the chain.
\<close>

lemma parse_attributes_sealed:
  assumes "ext p0 p" and "owns p0 p chain" and "tokens_left p0 \<le> l"
    and "sealed p S" and "sealed p T" and "snd chain \<notin> S"
    and "\<And>ch q. ext p0 q \<Longrightarrow> owns p0 q ch \<Longrightarrow> mark p \<le> mark q \<Longrightarrow> p_current p \<le> p_current q \<Longrightarrow> sealed q S \<Longrightarrow>
      sealed q (T \<union> {mark p ..< mark q}) \<Longrightarrow> snd ch = snd chain \<or> mark p \<le> snd ch \<Longrightarrow> Q ch q"
  shows "runs p0 (parse_attributes P chain) p Q"
proof -
  let ?J = "\<lambda>ch q. owns p0 q ch \<and> mark p \<le> mark q \<and> sealed q S \<and> sealed q (T \<union> {mark p ..< mark q}) \<and>
    (snd ch = snd chain \<or> mark p \<le> snd ch)"
  have S: "S \<subseteq> {..< mark p}" using assms(4) by (simp add: sealed_def)
  have round: "runs p0 (pif at_attribute (pbind p_advance (\<lambda>_. pbind (link_next ch (parse_attribute_list P)) again))
      (break ch)) q (round_ok p0 ?J ?J q)" if q: "ext p0 q" "?J ch q" for ch q
  proof (rule runs_pif [OF q(1)], rule runs_bind, rule runs_advance [OF q(1)], rule runs_bind)
    fix q1 assume q1: "ext p0 q1" "ext q q1" "mark q = mark q1" "p_current q \<le> p_current q1"
      "live q \<longrightarrow> p_current q < p_current q1" and "at_attribute q" "woken at_attribute q"
    then have l: "live q" by simp
    have "snd ch \<notin> S" using q(2) assms(6) S by auto
    moreover have "sealed q1 S" "sealed q1 (T \<union> {mark p ..< mark q1})"
      using q(2) sealed_ext [OF q1(2)] q1(3) by auto
    ultimately show "runs p0 (link_next ch (parse_attribute_list P)) q1
        (\<lambda>x q'. runs p0 (again x) q' (round_ok p0 ?J ?J q))"
      using q(2) q1 l assms(3) S
      by (intro attribute_round_sealed [OF q1(1), of ch p S T]) (auto intro!: runs_pret intro: owns_up_eq)
  qed (use q in \<open>auto intro!: runs_pret\<close>)
  show ?thesis
    unfolding parse_attributes_def
    by (rule runs_prepeat [where J = ?J and B = ?J, OF assms(1)])
      (use round assms(2,4,5) in \<open>auto intro!: assms(7)\<close>)
qed

lemma skip_asm_label_ok: "meets l skip_asm_label (\<lambda>p q _. True)"
  unfolding skip_asm_label_def asm_label_round_def
  by (rule meetsI) (auto intro!: runs_intros runs_idle_loop)

lemmas skip_asm_label_runs [runs_intros] = runs_call [OF skip_asm_label_ok]

lemmas parse_initializer_runs [runs_intros] = runs_node [OF parse_initializer_ok]

lemma init_value_runs:
  assumes "ext p0 p" and "own p0 p d" and "sealed p S" and "d = 0 \<or> d \<in> S" and "tokens_left p0 \<le> l"
    and "\<And>r q S1. ext p0 q \<Longrightarrow> own p0 q r \<Longrightarrow> mark p \<le> mark q \<Longrightarrow> p_current p \<le> p_current q \<Longrightarrow>
      sealed q S1 \<Longrightarrow> r = 0 \<or> r \<in> S1 \<Longrightarrow> S1 \<subseteq> S \<union> {mark p ..} \<Longrightarrow> Q r q"
  shows "runs p0 (if b then pbind (pif at_designator (parse_designated_init P) (parse_initializer P)) (attach_initializer d)
    else pret d) p Q"
proof (rule runs_if, rule runs_bind)
  have p: "ext p p" "tokens_left p \<le> l" using assms(1,5) extD [OF assms(1)] by (auto intro: ext_refl)
  have "runs p (pif at_designator (parse_designated_init P) (parse_initializer P)) p (\<lambda>e q. ext p q \<and> own p q e)"
    using p by (auto intro!: runs_intros)
  then show "runs p0 (pif at_designator (parse_designated_init P) (parse_initializer P)) p
      (\<lambda>e q. runs p0 (attach_initializer d e) q Q)"
  proof (rule runs_step [OF _ assms(1)])
    fix e q assume q: "ext p0 q" "ext p q" "mark p \<le> mark q" "p_current p \<le> p_current q" "own p q e"
    show "runs p0 (attach_initializer d e) q Q"
    proof (rule attach_initializer_sealed [OF q(1) own_up [OF assms(2) q(3)] own_down [OF q(5) assms(1)]
          sealed_ext [OF q(2) assms(3)] assms(4) sealed_run [OF q(2)]])
      show "e = 0 \<or> e \<in> {mark p ..< mark q}" using q(5) by (simp add: own_def)
      show "d \<notin> {mark p ..< mark q}" using own_less [OF assms(2) extD(1) [OF assms(1)]] by simp
      fix r q' assume "ext p0 q'" "own p0 q' r" "mark q \<le> mark q'" "p_current q = p_current q'"
        "sealed q' (S \<union> {mark p ..< mark q} \<union> {mark q ..< mark q'})" "r = 0 \<or> r \<in> {mark q ..< mark q'}"
      with q(3,4) show "Q r q'"
        by (intro assms(6) [of q' r "S \<union> {mark p ..< mark q} \<union> {mark q ..< mark q'}"]) auto
    qed
  qed
  show "runs p0 (pret d) p Q"
    by (rule runs_pret, rule assms(6) [OF assms(1,2) _ _ assms(3,4)]) simp_all
qed

text \<open>
  The declarator is parsed before its attributes, which are linked first; it may still be linked
  behind them, since they do not point to it.
\<close>

lemma init_declarator_runs:
  assumes "ext p0 p" and "owns p0 p chain" and "tokens_left p0 \<le> l"
    and "\<And>ch q. ext p0 q \<Longrightarrow> owns p0 q ch \<Longrightarrow> mark p \<le> mark q \<Longrightarrow> p_current p \<le> p_current q \<Longrightarrow> Q ch q"
  shows "runs p0 (init_declarator P is_typedef specifiers chain) p Q"
  unfolding init_declarator_def
proof (rule runs_bind, rule runs_node [OF parse_declarator_ok assms(3,1)])
  fix d p1
  assume p1: "ext p0 p1" "ext p p1" "mark p \<le> mark p1" "p_current p \<le> p_current p1" "own p p1 d" "own p0 p1 d"
  let ?S = "{mark p ..< mark p1}"
  let ?link = "\<lambda>ch. pbind skip_asm_label (\<lambda>_. pbind (skip_punctuator ''='') (\<lambda>b.
     pbind (if b then pbind (pif at_designator (parse_designated_init P) (parse_initializer P)) (attach_initializer d)
            else pret d) (link_siblings ch)))"
  have d: "d = 0 \<or> d \<in> ?S" using p1(5) by (simp add: own_def)
  have chain: "snd chain < mark p" by (rule own_less [OF owns_snd [OF assms(2)] extD(1) [OF assms(1)]])
  have link: "runs p0 (?link ch) p3 Q"
    if p3: "ext p0 p3" "owns p0 p3 ch" "mark p1 \<le> mark p3" "p_current p1 \<le> p_current p3" "sealed p3 ?S"
      "snd ch = snd chain \<or> mark p1 \<le> snd ch" for ch p3
  proof -
    have c: "snd ch < mark p3" "snd ch \<notin> ?S"
      using own_less [OF owns_snd [OF p3(2)] extD(1) [OF p3(1)]] p3(6) chain by auto
    have item: "runs p0 (pbind (if b then pbind (pif at_designator (parse_designated_init P) (parse_initializer P))
        (attach_initializer d) else pret d) (link_siblings ch)) p4 Q"
      if p4: "ext p0 p4" "ext p3 p4" "mark p3 \<le> mark p4" "p_current p3 \<le> p_current p4" for p4 b
    proof (rule runs_bind, rule init_value_runs [OF p4(1) _ sealed_ext [OF p4(2) p3(5)] d assms(3)])
      show "own p0 p4 d" using p1(6) p3(3) p4(3) by (auto intro: own_up)
      fix r q S1
      assume q: "ext p0 q" "own p0 q r" "mark p4 \<le> mark q" "p_current p4 \<le> p_current q" "sealed q S1"
        "r = 0 \<or> r \<in> S1" "S1 \<subseteq> ?S \<union> {mark p4 ..}"
      show "runs p0 (link_siblings ch r) q Q"
      proof (rule runs_link_siblings_sealed [OF q(1) _ q(2,5,6)])
        show "owns p0 q ch" using p3(2) p4(3) q(3) by (auto intro: owns_up)
        show "snd ch \<notin> S1" using q(7) c p4(3) by auto
      qed (use p1 p3 p4 q in \<open>auto intro!: assms(4) dest: linkedD(1,2)\<close>)
    qed
    show ?thesis
    proof (rule runs_bind, rule runs_call [OF skip_asm_label_ok assms(3) p3(1)], rule runs_bind)
      fix q4 assume q4: "ext p0 q4" "ext p3 q4" "mark p3 \<le> mark q4" "p_current p3 \<le> p_current q4"
      show "runs p0 (skip_punctuator ''='') q4 (\<lambda>b q. runs p0 (pbind (if b then pbind
          (pif at_designator (parse_designated_init P) (parse_initializer P)) (attach_initializer d) else pret d)
          (link_siblings ch)) q Q)"
      proof (rule runs_skip [OF q4(1)])
        fix q5 assume q5: "ext p0 q5" "ext q4 q5" "mark q4 = mark q5" "p_current q4 < p_current q5"
        show "runs p0 (pbind (if True then pbind
          (pif at_designator (parse_designated_init P) (parse_initializer P)) (attach_initializer d) else pret d)
          (link_siblings ch)) q5 Q"
          by (rule item [OF q5(1) ext_trans [OF q4(2) q5(2)]]) (use q4 q5 in simp_all)
      qed (rule item [OF q4])
    qed
  qed
  show "runs p0 (pbind (if is_typedef \<and> d \<noteq> NULL then register_typedef_name specifiers d else pret ()) (\<lambda>_.
     pbind skip_asm_label (\<lambda>_. pbind (parse_attributes P chain) ?link))) p1 Q"
  proof (rule runs_bind, rule runs_register_if [OF p1(1)], rule runs_bind, rule runs_call [OF skip_asm_label_ok assms(3)],
      assumption, rule runs_bind)
    fix p1' p2
    assume a: "ext p0 p1'" "ext p1 p1'" "mark p1 = mark p1'" "p_current p1 = p_current p1'"
      "ext p0 p2" "ext p1' p2" "mark p1' \<le> mark p2" "p_current p1' \<le> p_current p2"
    have s: "sealed p2 ?S" using sealed_run [OF p1(2)] a(2,6) by (blast intro: sealed_ext)
    show "runs p0 (parse_attributes P chain) p2 (\<lambda>ch q. runs p0 (?link ch) q Q)"
    proof (rule parse_attributes_sealed [OF a(5) _ assms(3) s sealed_empty])
      show "owns p0 p2 chain" using assms(2) p1(3) a(3,7) by (auto intro: owns_up)
      show "snd chain \<notin> ?S" using chain by simp
    qed (use a in \<open>auto intro!: link\<close>)
  qed
qed

lemmas init_declarator_intro [runs_intros] = init_declarator_runs

lemma declaration_items_ok: "below l (prepeat (declaration_round P is_typedef specifiers) (NULL, NULL)) own"
  unfolding declaration_round_def
  by (rule belowI) (auto intro!: runs_intros intro: keeps)

lemma parse_declaration_ok: "meets l (parse_declaration P) own"
proof (rule meetsI)
  fix p assume p: "parser_inv p" "ext p p" "tokens_left p \<le> l"
  let ?Q = "\<lambda>r q. ext p q \<and> own p q r"
  let ?items = "\<lambda>t s b. if b then pret NULL else prepeat (declaration_round P t s) (NULL, NULL)"
  let ?finish = "\<lambda>s first. pbind (if first \<noteq> NULL then append_sibling s first else pret ()) (\<lambda>_. alloc_node 21 0 NULL s NULL)"
  have last: "runs p (?finish s f) q ?Q" if "ext p q1" "own p q1 s" "ext q1 q" "own q1 q f" for s f q1 q
    by (rule runs_bind, rule runs_append_if [OF that])
      (use own_up [OF that(2) extD(4) [OF that(3)]] in \<open>auto intro!: runs_intros intro: own_up_eq\<close>)
  have items: "runs p (pbind (?items t s b) (?finish s)) q ?Q"
    if q: "ext p q" "own p q s" "p_current p < p_current q" for t s b q
  proof (rule runs_bind)
    have "runs q (?items t s b) q (\<lambda>f q'. ext q q' \<and> own q q' f)"
      using declaration_items_ok [of t s] tokens_left_less [OF q(1,3)] p(3) extD(1) [OF q(1)]
      by (auto simp: below_def intro!: runs_pret ext_refl)
    then show "runs p (?items t s b) q (\<lambda>f q'. runs p (?finish s f) q' ?Q)"
      by (rule runs_step [OF _ q(1)]) (use last q in blast)
  qed
  show "runs p (parse_declaration P) p ?Q"
    unfolding parse_declaration_def
  proof (rule runs_bind, rule runs_look, rule runs_bind, rule runs_call [OF parse_declaration_specifiers_ok p(3,2)], rule runs_bind)
    fix s q assume q: "ext p q" "own1 p q s"
    let ?t = "at_text ''typedef'' p"
    show "runs p (skip_punctuator '';'') q (\<lambda>b q. runs p (pbind (?items ?t s b) (?finish s)) q ?Q)"
    proof (rule runs_skip [OF q(1)])
      fix q1 assume "ext p q1" "mark q = mark q1" "p_current q < p_current q1"
      with q show "runs p (pbind (?items ?t s True) (?finish s)) q1 ?Q"
        by (intro items) (auto simp: own1_def own_up_eq)
    next
      show "runs p (pbind (?items ?t s False) (?finish s)) q ?Q"
        using q by (intro items) (auto simp: own1_def)
    qed
  qed
qed

lemmas parse_declaration_runs [runs_intros] =
  runs_node [OF parse_declaration_ok] runs_link_item_meets [OF parse_declaration_ok]

section \<open>Statements\<close>

lemma parse_compound_statement_ok: "below l (parse_compound_statement P) own"
  unfolding parse_compound_statement_def compound_round_def
  by (rule belowI) (auto intro!: runs_intros intro: keeps)

lemmas parse_compound_statement_runs [runs_intros] =
  runs_node_below [OF parse_compound_statement_ok] runs_link_next_below [OF parse_compound_statement_ok]

lemma label_statements_ok: "meets l (parse_case_label P) own" "meets l parse_default_label own"
  unfolding parse_case_label_def parse_default_label_def
  by (rule meetsI; auto intro!: runs_intros intro: keeps own_word)+

lemma parse_head_ok: "k \<noteq> [] \<Longrightarrow> meets l (parse_head P k) own1"
  unfolding parse_head_def own1_def
  by (rule meetsI) (auto intro!: runs_intros intro: keeps)

lemmas parse_head_runs [runs_intros] = runs_call [OF parse_head_ok]

lemma condition_statements_ok: "meets l (parse_if_statement P) own" "meets l (parse_while_statement P) own"
    "meets l (parse_switch_statement P) own"
  unfolding parse_if_statement_def parse_while_statement_def parse_switch_statement_def
  by (rule meetsI; auto intro!: runs_intros intro: keeps simp: own1_def)+

lemma optional_expression_runs [runs_intros]:
  assumes "ext p0 p" and "tokens_left p0 \<le> l"
    and absent: "\<And>q. parser_inv q \<Longrightarrow> runs q absent q (\<lambda>r q'. ext q q' \<and> own q q' r)"
    and "\<And>r q. ext p0 q \<Longrightarrow> own p0 q r \<Longrightarrow> mark p \<le> mark q \<Longrightarrow> p_current p \<le> p_current q \<Longrightarrow> Q r q"
  shows "runs p0 (optional_expression P close absent) p Q"
  unfolding optional_expression_def
proof (rule runs_bind, rule runs_skip [OF assms(1)])
  fix q assume q: "ext p0 q" "ext p q" "mark p = mark q" "p_current p < p_current q"
  have "runs p0 absent q Q"
    by (rule runs_step [where R = own, OF absent [OF extD(1) [OF q(1)]] q(1)]) (use q in \<open>auto intro!: assms(4) intro: keeps\<close>)
  then show "runs p0 (if \<not> True then pbind (parse_expression P) (\<lambda>expr. pbind (skip_punctuator close) (\<lambda>_. pret expr))
      else absent) q Q" by simp
next
  show "runs p0 (if \<not> False then pbind (parse_expression P) (\<lambda>expr. pbind (skip_punctuator close) (\<lambda>_. pret expr))
      else absent) p Q"
    using assms(1,2) by (auto intro!: runs_intros assms(4) intro: keeps)
qed

lemma runs_leaf_here: "parser_inv q \<Longrightarrow> k < 65536 \<Longrightarrow> d < 4294967296 \<Longrightarrow>
    runs q (leaf k d) q (\<lambda>r q'. ext q q' \<and> own q q' r)"
  by (auto intro!: runs_intros ext_refl)

lemma runs_null_here: "parser_inv q \<Longrightarrow> runs q (pret 0) q (\<lambda>r q'. ext q q' \<and> own q q' r)"
  by (auto intro!: runs_pret ext_refl)

lemma simple_statements_ok: "meets l (parse_for_statement P) own" "meets l (parse_goto_statement P) own"
    "meets l (parse_return_statement P) own" "meets l (parse_expression_statement P) own"
    "k < 65536 \<Longrightarrow> meets l (jump_statement k) own" "meets l local_label_statement own"
  unfolding parse_for_statement_def parse_goto_statement_def parse_return_statement_def
    parse_expression_statement_def jump_statement_def local_label_statement_def
  by (rule meetsI; auto intro!: runs_intros runs_idle_loop runs_leaf_here runs_null_here intro: keeps)+

lemma parse_do_statement_ok: "meets l (parse_do_statement P) own"
proof (rule meetsI)
  fix p assume p: "parser_inv p" "ext p p" "tokens_left p \<le> l"
  let ?Q = "\<lambda>r q. ext p q \<and> own p q r"
  have rest: "runs p (pbind (parse_head P ''while'') (\<lambda>condition. pbind (skip_punctuator '';'') (\<lambda>_.
      pbind (set_next body condition) (\<lambda>_. alloc_node 42 1 NULL body NULL)))) q ?Q"
    if "ext p q" "own p q body" for q body
    using that p(3) by (auto intro!: runs_intros runs_set_next [where ?p1.0 = q] intro: keeps simp: own1_def)
  show "runs p (parse_do_statement P) p ?Q"
    unfolding parse_do_statement_def
  proof (rule runs_bind, rule runs_expect [OF p(2)], simp, rule runs_bind)
    fix q assume q: "ext p q" "p_current p < p_current q"
    show "runs p (P N_Statement) q (\<lambda>body q. runs p (pbind (parse_head P ''while'') (\<lambda>condition.
        pbind (skip_punctuator '';'') (\<lambda>_. pbind (set_next body condition) (\<lambda>_. alloc_node 42 1 NULL body NULL)))) q ?Q)"
      by (rule runs_node_below [OF nonterm_ok p(3) q(1)]) (use q rest in auto)
  qed
qed

lemma attribute_statement_ok: "meets_live l (attribute_statement P) own"
  unfolding attribute_statement_def
  by (rule meets_liveI) (auto intro!: runs_intros intro: keeps)

lemma labeled_statement_ok: "meets_live l (labeled_statement P) own"
  unfolding labeled_statement_def
  by (rule meets_liveI) (auto intro!: runs_intros intro: keeps)

lemma extension_statement_ok: "meets_live l (pbind p_advance (\<lambda>_. P N_Statement)) own"
  by (rule meets_liveI) (auto intro!: runs_intros intro: keeps)

lemma meets_meets_live: "meets l m R \<Longrightarrow> meets_live l m R"
  by (simp add: meets_def meets_live_def)

lemma keyword_statement_ok:
  assumes "keyword_statement P text = Some stmt" and "text \<notin> set asm_words"
  shows "meets_live l stmt own"
  using assms simple_statements_ok label_statements_ok condition_statements_ok parse_do_statement_ok extension_statement_ok
  by (auto simp: keyword_statement_def asm_words_def split: if_splits intro: meets_meets_live)

lemma current_text_ok: "parser_inv p \<Longrightarrow> pk_text (current_token p) \<notin> set asm_words"
proof -
  assume "parser_inv p"
  then have "tokens_ok (p_tokens p)" by (simp add: parser_inv_def)
  moreover from this have "current_token p \<in> set (p_tokens p)"
    by (auto simp: current_token_def tokens_ok_def)
  ultimately show ?thesis by (simp add: tokens_ok_def)
qed

lemma parse_statement_ok: "meets l (parse_statement P) own"
proof (rule meetsI)
  fix p assume p: "parser_inv p" "ext p p" "tokens_left p \<le> l"
  let ?Q = "\<lambda>r q. ext p q \<and> own p q r"
  let ?word = "if at_word p then keyword_statement P (pk_text (current_token p)) else None"
  have word: "runs p stmt p ?Q" if "?word = Some stmt" for stmt
  proof -
    have "live p" using that wakesD [of at_word p] p(1) by (auto split: if_splits)
    moreover have "meets_live l stmt own"
      using that keyword_statement_ok current_text_ok [OF p(1)] by (auto split: if_splits)
    ultimately show ?thesis using p by (simp add: meets_live_def)
  qed
  have plain: "runs p (pif (\<lambda>p. at_kind K_Identifier p \<and> peek_punct '':'' p) (labeled_statement P)
      (parse_expression_statement P)) p ?Q"
    using p labeled_statement_ok simple_statements_ok(4)
    by (auto intro!: runs_pif simp: meets_live_def meets_def)
  have "runs p (case ?word of Some stmt \<Rightarrow> stmt | None \<Rightarrow>
      pif (\<lambda>p. at_kind K_Identifier p \<and> peek_punct '':'' p) (labeled_statement P) (parse_expression_statement P)) p ?Q"
    using word plain by (auto split: option.split)
  then have "runs p (pbind (look (\<lambda>p. if at_word p then keyword_statement P (pk_text (current_token p)) else None)) (\<lambda>r.
      case r of Some stmt \<Rightarrow> stmt
      | None \<Rightarrow> pif (\<lambda>p. at_kind K_Identifier p \<and> peek_punct '':'' p) (labeled_statement P)
            (parse_expression_statement P))) p ?Q"
    by (intro runs_bind runs_look)
  then show "runs p (parse_statement P) p ?Q"
    unfolding parse_statement_def using p attribute_statement_ok
    by (intro runs_pif) (auto intro!: runs_bind runs_advance parse_compound_statement_runs(1) simp: meets_live_def)
qed

section \<open>Nonterminals\<close>

lemma nonterm_parser_ok: "meets l (nonterm_parser P nt) own"
  by (cases nt) (simp_all add: parse_expression_ok parse_assignment_expression_ok parse_conditional_expression_ok
    parse_binary_op_ok parse_unary_expression_ok parse_cast_expression_ok parse_initializer_ok
    own1_own [OF parse_declaration_specifiers_ok] parse_declarator_ok parse_declaration_ok parse_statement_ok)

end

text \<open>The table satisfies its interface at every depth.\<close>

lemma parse_nt_descent: "descent (parse_nt n) n"
proof (induction n)
  case 0
  show ?case by unfold_locales (simp_all add: below_def)
next
  case (Suc n)
  have m: "below (Suc n) m R" if "meets n m R" for m :: "node_offset pm" and R
    using that by (simp add: meets_def below_def less_Suc_eq_le)
  show ?case
    using descent.nonterm_parser_ok [OF Suc] descent.parse_declaration_specifiers_ok [OF Suc]
    by unfold_locales (auto intro!: m)
qed

interpretation nt: descent "parse_nt n" n for n
  by (rule parse_nt_descent)

end
