(* ===== verification/ParserTotal.thy ===== *)
theory ParserTotal
  imports ParserDescentStmt
begin

text \<open>
  Translation units: the contracts of external declarations and of the loop over them, and what
  they give for whole runs of the parser.
\<close>

section \<open>External declarations\<close>

context descent
begin

lemma append_sealed:
  assumes "ext p0 p" and "own p0 p s" and "own p0 p y" and "sealed p T" and "s = 0 \<or> s \<in> T"
    and "sealed p S" and "y = 0 \<or> y \<in> S" and "S \<inter> T = {}" and "0 \<notin> S"
    and "\<And>q. ext p0 q \<Longrightarrow> mark q = mark p \<Longrightarrow> p_current q = p_current p \<Longrightarrow> Q () q"
  shows "runs p0 (append_sibling s y) p Q"
  unfolding append_sibling_def
proof (rule runs_bind, rule runs_last_sibling_sealed [OF assms(1,2,4,5)])
  fix r assume r: "own p0 p r" "r = 0 \<or> r \<in> T"
  show "runs p0 (set_next r y) p Q"
    by (rule runs_set_next_sealed [OF assms(1) r(1) assms(3,6,7)])
      (use r(2) assms(8,9) in \<open>auto intro!: assms(10) dest: linkedD(1,2)\<close>)
qed

lemma external_initializer_runs:
  assumes "ext p0 p" and "own p0 p s" and "own p0 p d" and "tokens_left p0 \<le> l"
    and "sealed p S" and "d = 0 \<or> d \<in> S" and "sealed p T" and "s = 0 \<or> s \<in> T" and "S \<inter> T = {}" and "0 \<notin> S" "0 \<notin> T"
    and "\<And>ch q. ext p0 q \<Longrightarrow> owns p0 q ch \<Longrightarrow> mark p \<le> mark q \<Longrightarrow> p_current p \<le> p_current q \<Longrightarrow> Q ch q"
  shows "runs p0 (external_initializer P s d) p Q"
  unfolding external_initializer_def
proof (rule runs_bind, rule runs_node [OF parse_initializer_ok assms(4,1)], rule runs_bind)
  fix e q
  assume q: "ext p0 q" "ext p q" "mark p \<le> mark q" "p_current p \<le> p_current q" "own p q e" "own p0 q e"
  let ?N = "{mark p ..< mark q}"
  have m: "1 \<le> mark p" "d < mark p" using mark_capacity [of p] own_less [OF assms(3)] extD(1) [OF assms(1)] by auto
  have d: "own p0 q d" "own p0 q s" using assms(2,3) q(3) by (auto intro: own_up)
  show "runs p0 (alloc_node 73 0 NULL d NULL) q (\<lambda>i q. runs p0 (pbind (set_next d e) (\<lambda>_.
     pbind (alloc_node 21 0 NULL s NULL) (\<lambda>v.
     pbind (if s \<noteq> NULL then append_sibling s i else pret ()) (\<lambda>_. pret (v, v))))) q Q)"
  proof (rule runs_alloc_sealed [OF q(1) d(1)])
    fix i q1
    assume q1: "ext p0 q1" "own p0 q1 i" "own q q1 i" "mark q \<le> mark q1" "p_current q = p_current q1"
      and old: "\<And>X. sealed q X \<Longrightarrow> sealed q1 X"
      and new: "\<And>X. sealed q X \<Longrightarrow> d = 0 \<or> d \<in> X \<Longrightarrow> NULL = 0 \<or> NULL \<in> X \<Longrightarrow> sealed q1 (X \<union> {mark q ..< mark q1})"
    let ?S = "S \<union> {mark q ..< mark q1} \<union> ?N"
    have s1: "sealed q1 ?N" "sealed q1 T" "sealed q1 ?S"
      using old [OF sealed_run [OF q(2)]] old [OF sealed_ext [OF q(2) assms(7)]]
        sealed_Un [OF new [OF sealed_ext [OF q(2) assms(5)] assms(6)] old [OF sealed_run [OF q(2)]]] by simp_all
    have apart: "?S \<inter> T = {}" "0 \<notin> ?S"
      using assms(7,9,10) m q(3) q1(4) by (auto simp: sealed_def)
    show "runs p0 (pbind (set_next d e) (\<lambda>_. pbind (alloc_node 21 0 NULL s NULL) (\<lambda>v.
       pbind (if s \<noteq> NULL then append_sibling s i else pret ()) (\<lambda>_. pret (v, v))))) q1 Q"
    proof (rule runs_bind, rule runs_set_next_sealed [OF q1(1) _ _ s1(1)])
      show "own p0 q1 d" "own p0 q1 e" using d(1) q(6) q1(4) by (auto intro: own_up)
      show "e = 0 \<or> e \<in> ?N" using q(5) by (simp add: own_def)
      show "d \<notin> ?N" using m(2) by simp
      fix q2 assume q2: "ext p0 q2" "linked q1 q2 d e"
      note k = linkedD [OF q2(2)]
      have s2: "sealed q2 ?S" "sealed q2 T"
        using q(5) assms(6,9,11) by (auto intro!: k(4) [OF s1(3)] k(3) [OF s1(2)] simp: own_def)
      show "runs p0 (pbind (alloc_node 21 0 NULL s NULL) (\<lambda>v.
         pbind (if s \<noteq> NULL then append_sibling s i else pret ()) (\<lambda>_. pret (v, v)))) q2 Q"
      proof (rule runs_bind, rule runs_alloc_sealed [OF q2(1)])
        show "own p0 q2 s" using d(2) q1(4) k(1) by (auto simp: own_def)
        fix v q3
        assume q3: "ext p0 q3" "own p0 q3 v" "mark q2 \<le> mark q3" "p_current q2 = p_current q3"
          and keep: "\<And>X. sealed q2 X \<Longrightarrow> sealed q3 X"
        have o: "own p0 q3 s" "own p0 q3 i"
          using d(2) q1(2,4) k(1) q3(3) by (auto simp: own_def)
        have i: "i = 0 \<or> i \<in> ?S" using q1(3) by (auto simp: own_def)
        have fin: "Q (v, v) q4" if "ext p0 q4" "mark q4 = mark q3" "p_current q4 = p_current q3" for q4
          using that q3 q q1 k(1,2) by (intro assms(12)) (auto simp: own_def)
        have "runs p0 (append_sibling s i) q3 (\<lambda>_ q4. runs p0 (pret (v, v)) q4 Q)"
          by (rule append_sealed [OF q3(1) o keep [OF s2(2)] assms(8) keep [OF s2(1)] i apart])
            (use fin in \<open>simp add: runs_pret\<close>)
        then show "runs p0 (pbind (if s \<noteq> NULL then append_sibling s i else pret ()) (\<lambda>_. pret (v, v))) q3 Q"
          using fin [OF q3(1)] by (auto intro!: runs_bind runs_pret)
      qed simp_all
    qed
  qed simp_all
qed

lemma external_declarator_runs:
  assumes "ext p0 p" and "own p0 p s" and "own p0 p lst" and "tokens_left p0 \<le> l"
    and "\<And>ch q. ext p0 q \<Longrightarrow> owns p0 q ch \<Longrightarrow> mark p \<le> mark q \<Longrightarrow> p_current p \<le> p_current q \<Longrightarrow> Q ch q"
    and "parser_inv p0"
  shows "runs p0 (external_declarator P is_typedef s (s, lst)) p Q"
  unfolding external_declarator_def
proof (rule runs_bind, rule runs_node [OF parse_declarator_ok assms(4,1)])
  fix d p1
  assume p1: "ext p0 p1" "ext p p1" "mark p \<le> mark p1" "p_current p \<le> p_current p1" "own p p1 d" "own p0 p1 d"
  let ?S = "{mark p ..< mark p1}" and ?T = "{mark p0 ..< mark p}"
  let ?item = "\<lambda>ch b. if b then external_initializer P s d else link_siblings ch d"
  let ?link = "\<lambda>ch. pbind skip_asm_label (\<lambda>_. pbind (skip_punctuator ''='') (?item ch))"
  have d: "d = 0 \<or> d \<in> ?S" using p1(5) by (simp add: own_def)
  have pos: "1 \<le> mark p0" "mark p0 \<le> mark p" using assms(6) extD(4) [OF assms(1)] mark_capacity by auto
  have lst: "lst < mark p" by (rule own_less [OF assms(3) extD(1) [OF assms(1)]])
  have link: "runs p0 (?link ch) p3 Q"
    if p3: "ext p0 p3" "owns p0 p3 ch" "mark p1 \<le> mark p3" "p_current p1 \<le> p_current p3" "sealed p3 ?S"
      "sealed p3 (?T \<union> {mark p2 ..< mark p3})" "snd ch = lst \<or> mark p1 \<le> snd ch" "mark p1 \<le> mark p2" for ch p3 p2
  proof -
    have item: "runs p0 (?item ch b) p4 Q"
      if p4: "ext p0 p4" "ext p3 p4" "mark p3 \<le> mark p4" "p_current p3 \<le> p_current p4" for p4 b
    proof (rule runs_if)
      have o: "own p0 p4 s" "own p0 p4 d" "owns p0 p4 ch"
        using assms(2) p1 p3 p4 by (auto intro: own_up owns_up)
      note s = sealed_ext [OF p4(2) p3(5)] sealed_ext [OF p4(2) p3(6)]
      have leave: "Q ch' q" if "ext p0 q" "owns p0 q ch'" "mark p4 \<le> mark q" "p_current p4 \<le> p_current q" for ch' q
        using that p1(3,4) p3(3,4) p4(3,4) by (intro assms(5)) auto
      show "runs p0 (external_initializer P s d) p4 Q"
        by (rule external_initializer_runs [OF p4(1) o(1,2) assms(4) s(1) d s(2)])
          (use assms(2) pos p1(3) p3(8) leave in \<open>auto simp: own_def\<close>)
      show "runs p0 (link_siblings ch d) p4 Q"
        by (rule runs_link_siblings_sealed [OF p4(1) o(3,2) s(1) d])
          (use p3(7) lst in \<open>auto intro!: leave dest: linkedD(1,2)\<close>)
    qed
    show ?thesis
    proof (rule runs_bind, rule runs_call [OF skip_asm_label_ok assms(4) p3(1)], rule runs_bind)
      fix q4 assume q4: "ext p0 q4" "ext p3 q4" "mark p3 \<le> mark q4" "p_current p3 \<le> p_current q4"
      show "runs p0 (skip_punctuator ''='') q4 (\<lambda>b q. runs p0 (?item ch b) q Q)"
      proof (rule runs_skip [OF q4(1)])
        fix q5 assume q5: "ext p0 q5" "ext q4 q5" "mark q4 = mark q5" "p_current q4 < p_current q5"
        show "runs p0 (?item ch True) q5 Q"
          by (rule item [OF q5(1) ext_trans [OF q4(2) q5(2)]]) (use q4 q5 in simp_all)
      qed (rule item [OF q4])
    qed
  qed
  show "runs p0 (pbind (if is_typedef \<and> d \<noteq> NULL then register_typedef_name s d else pret ()) (\<lambda>_.
     pbind skip_asm_label (\<lambda>_. pbind (parse_attributes P (s, lst)) ?link))) p1 Q"
  proof (rule runs_bind, rule runs_register_if [OF p1(1)], rule runs_bind, rule runs_call [OF skip_asm_label_ok assms(4)],
      assumption, rule runs_bind)
    fix p1' p2
    assume a: "ext p0 p1'" "ext p1 p1'" "mark p1 = mark p1'" "p_current p1 = p_current p1'"
      "ext p0 p2" "ext p1' p2" "mark p1' \<le> mark p2" "p_current p1' \<le> p_current p2"
    have s: "sealed p2 ?S" "sealed p2 ?T"
      using sealed_run [OF p1(2)] sealed_run [OF assms(1)] p1(2) a(2,6) by (blast intro: sealed_ext)+
    show "runs p0 (parse_attributes P (s, lst)) p2 (\<lambda>ch q. runs p0 (?link ch) q Q)"
    proof (rule parse_attributes_sealed [OF a(5) _ assms(4) s])
      show "owns p0 p2 (s, lst)" using assms(2,3) p1(3) a(3,7) by (auto intro: own_up)
      show "snd (s, lst) \<notin> ?S" using lst by simp
    qed (rule link [where ?p2.0 = p2]; use a in auto)
  qed
qed

lemmas more_declarators_parts [runs_intros] = parse_attributes_runs

lemma more_declarators_round_runs [runs_intros]:
  assumes "ext p0 p" and "owns p0 p ch" and "tokens_left p0 \<le> l"
    and "\<And>r q. round_ok p0 (\<lambda>ch q. owns p0 q ch) (\<lambda>ch q. owns p0 q ch) p r q \<Longrightarrow> Q r q"
  shows "runs p0 (more_declarators_round P ch) p Q"
  unfolding more_declarators_round_def using assms(1-3)
  by (auto intro!: runs_intros assms(4) intro: keeps)

lemma declaration_end_runs [runs_intros]:
  assumes "ext p0 p" and "owns p0 p ch" and "tokens_left p0 \<le> l" and "p_current p0 < p_current p"
    and "\<And>r q. ext p0 q \<Longrightarrow> own p0 q r \<Longrightarrow> mark p \<le> mark q \<Longrightarrow> p_current p \<le> p_current q \<Longrightarrow> Q r q"
  shows "runs p0 (declaration_end P ch) p Q"
  unfolding declaration_end_def using assms(1-4) owns_fst [OF assms(2)]
  by (auto intro!: runs_intros assms(5) intro: keeps)

lemma parse_external_declaration_ok: "meets l (parse_external_declaration P) own1"
proof (rule meetsI)
  fix p assume p: "parser_inv p" "ext p p" "tokens_left p \<le> l"
  let ?Q = "\<lambda>r q. ext p q \<and> own1 p q r"
  let ?rest = "\<lambda>t s. pbind (last_sibling s) (\<lambda>lst.
        pbind (pif is_declarator_start (external_declarator P t s (s, lst)) (pret (s, lst))) (\<lambda>chain.
        pbind (prepeat (more_declarators_round P) chain) (declaration_end P)))"
  have rest: "runs p (?rest t s) q ?Q" if q: "ext p q" "own p q s" "p_current p < p_current q" for t s q
    using q p(1,3) by (auto intro!: runs_intros external_declarator_runs intro: keeps simp: own1_def)
  have main: "runs p (pbind (look (at_text ''typedef'')) (\<lambda>t. pbind (parse_declaration_specifiers P) (?rest t))) q ?Q"
    if q: "ext p q" for q
  proof (rule runs_bind, rule runs_look, rule runs_bind, rule runs_call [OF parse_declaration_specifiers_ok p(3) q])
    fix s q1 assume "ext p q1" "ext q q1" "own1 q q1 s"
    with q show "runs p (?rest (at_text ''typedef'' q) s) q1 ?Q"
      using own_down [OF _ q, of q1 s] extD(3) [OF q] by (intro rest) (auto simp: own1_def)
  qed
  show "runs p (parse_external_declaration P) p ?Q"
    unfolding parse_external_declaration_def
  proof (rule runs_pif [OF p(2)])
    assume "at_kind K_Keyword p \<and> at_text ''__extension__'' p"
      "woken (\<lambda>p. at_kind K_Keyword p \<and> at_text ''__extension__'' p) p"
    then show "runs p (parse_extension_wrapper P) p ?Q"
      using parse_extension_wrapper_ok p by (simp add: meets_live_def)
  next
    show "runs p (pbind (pif (\<lambda>p. at_kind K_Identifier p \<and> at_text ''__extension__'' p) p_advance (pret ())) (\<lambda>_.
        pbind (look (at_text ''typedef'')) (\<lambda>t. pbind (parse_declaration_specifiers P) (?rest t)))) p ?Q"
      by (rule runs_bind, rule runs_pif [OF p(2)], rule runs_advance [OF p(2)], erule main, rule runs_pret, rule main, rule p(2))
  qed
qed

section \<open>Translation units\<close>

lemma translation_unit_round_runs:
  assumes "ext p0 p" and "owns p0 p chain" and "tokens_left p0 \<le> l"
  shows "runs p0 (translation_unit_round P chain) p
    (round_ok p0 (\<lambda>ch q. owns p0 q ch) (\<lambda>r q. own p0 q r) p)"
proof -
  let ?R = "round_ok p0 (\<lambda>ch q. owns p0 q ch) (\<lambda>r q. own p0 q r) p"
  have m: "runs p (parse_external_declaration P) p (\<lambda>r q. ext p q \<and> own1 p q r)"
    using parse_external_declaration_ok extD [OF assms(1)] assms(3) by (simp add: meets_def)
  show ?thesis
    unfolding translation_unit_round_def
  proof (rule runs_pif [OF assms(1)], rule runs_pret, simp add: assms owns_fst, rule runs_bind,
      rule runs_pcatch [where R = own1, OF assms(1) m])
    fix r q
    assume q: "ext p0 q" "ext p q" "mark p \<le> mark q" "p_current p \<le> p_current q" "\<And>x. r = Inr x \<Longrightarrow> own1 p q x"
      and l: "\<not> is_at_end p" "woken (\<lambda>p. \<not> is_at_end p) p"
    show "runs p0 (case r of
          Inr decl \<Rightarrow> if fst chain = NULL then again (decl, decl)
            else pbind (set_next (snd chain) decl) (\<lambda>_. again (fst chain, decl))
        | Inl e \<Rightarrow> pbind p_advance (\<lambda>_. again chain)) q ?R"
    proof (cases r)
      case (Inl e)
      have "live p" using l by simp
      then have "p_current p < p_current q \<or> live q"
        using q(4) extD(2) [OF q(2)] by (auto simp: live_def)
      then show ?thesis
        using Inl q assms by (auto intro!: runs_intros intro: keeps)
    next
      case (Inr decl)
      then have d: "own p q decl" "p_current p < p_current q" using q(5) by (auto simp: own1_def)
      have o: "own p0 q decl" "owns p0 q chain"
        using own_down [OF d(1) assms(1)] assms(2) q(3) by (auto intro: owns_up)
      have "runs p0 (pbind (set_next (snd chain) decl) (\<lambda>_. again (fst chain, decl))) q ?R"
        by (rule runs_bind, rule runs_set_next [OF assms(1) owns_snd [OF assms(2)] q(2) d(1)])
          (use o d q(3) in \<open>auto intro!: runs_pret intro: own_up_eq simp: owns_def\<close>)
      then show ?thesis using Inr o d q(1,3) by (auto intro!: runs_pret)
    qed
  qed
qed

lemma parse_translation_unit_ok: "meets l (parse_translation_unit P) own"
  unfolding parse_translation_unit_def
  by (rule meetsI, rule runs_chain_node_loop) (auto intro!: translation_unit_round_runs)

end

section \<open>Whole runs\<close>

lemma run_parser_ok:
  assumes "parser_inv p"
  shows "runs p run_parser p (\<lambda>r q. ext p q \<and> own p q r)"
  using descent.parse_translation_unit_ok [OF parse_nt_descent, of "Suc (tokens_left p)"] assms
  by (simp add: run_parser_def meets_def runs_def)

end
