(* ===== verification/ParserExec.thy ===== *)
theory ParserExec
  imports ParserLex ParserRun
begin

text \<open>
  Exact runs of the parser on given tokens: the tokens ahead, the arena a run leaves when there is
  room for the nodes and names it makes, and loops round by round.
\<close>

section \<open>The tokens ahead\<close>

type_synonym word = "ptoken_kind \<times> string"

definition words :: "parser \<Rightarrow> word list" where
  "words p = map (\<lambda>t. (pk_kind t, pk_text t)) (drop (p_current p) (p_tokens p))"

abbreviation pw :: "string \<Rightarrow> word" where
  "pw s \<equiv> (K_Punctuator, s)"

lemma words_current:
  "words p = (k, s) # ws \<Longrightarrow> pk_kind (current_token p) = k \<and> pk_text (current_token p) = s \<and> p_tokens p \<noteq> [] \<and>
     p_current p < length (p_tokens p)"
  by (cases "p_current p < length (p_tokens p)") (auto simp: words_def current_token_def Cons_nth_drop_Suc [symmetric])

lemma words_tokens_left: "tokens_left p = length (words p)"
  by (simp add: words_def tokens_left_def)

lemma words_peek: "words p = w # (k, s) # ws \<Longrightarrow> \<exists>t. peek_token 1 p = Some t \<and> pk_kind t = k \<and> pk_text t = s"
proof -
  assume w: "words p = w # (k, s) # ws"
  then have l: "p_current p + 1 < length (p_tokens p)"
    using words_tokens_left [of p] by (simp add: tokens_left_def)
  moreover have "words p ! 1 = (k, s)" using w by simp
  ultimately show ?thesis using l by (auto simp: words_def peek_token_def)
qed

lemma at_words:
  assumes "words p = (k, s) # ws"
  shows "at_text t p \<longleftrightarrow> s = t" "at_kind kd p \<longleftrightarrow> k = kd" "at_punct t p \<longleftrightarrow> k = K_Punctuator \<and> s = t"
    "at_word p \<longleftrightarrow> k = K_Keyword \<or> k = K_Identifier"
  using words_current [OF assms] by (auto simp: at_text_def at_kind_def at_punct_def at_word_def)

lemma look_words: "words p = w # ws \<Longrightarrow> look f p = Parsed (f p) p"
  using words_current [of p "fst w" "snd w" ws] by (simp add: look_def)

lemma pbind_Parsed: "m p = Parsed x q \<Longrightarrow> pbind m k p = k x q"
  by (simp add: pbind_def)

lemma pif_words: "words p = w # ws \<Longrightarrow> pif c a b p = (if c p then a p else b p)"
  by (simp add: pif_def pbind_def look_words)

definition ahead :: "parser \<Rightarrow> nat \<Rightarrow> parser" where
  "ahead p n = p\<lparr>p_current := p_current p + n\<rparr>"

lemma ahead_simps [simp]: "p_arena (ahead p n) = p_arena p" "words (ahead p n) = drop n (words p)"
    "typedef_names (ahead p n) = typedef_names p" "ahead p 0 = p"
  by (simp_all add: ahead_def words_def drop_map add.commute)

lemma p_advance_words: "words p = w # ws \<Longrightarrow> p_advance p = Parsed () (ahead p 1)"
  using words_current [of p "fst w" "snd w" ws] by (simp add: p_advance_def pmodify_def ahead_def)

lemma expect_words: "words p = (k, s) # ws \<Longrightarrow> expect s p = Parsed () (ahead p 1)"
  by (simp add: expect_def pif_words p_advance_words at_words)

lemma skip_words_punct:
  "words p = (k, s) # ws \<Longrightarrow> skip_punctuator t p =
     (if k = K_Punctuator \<and> s = t then Parsed True (ahead p 1) else Parsed False p)"
  by (simp add: skip_punctuator_def pif_words at_words p_advance_words pbind_def pret_def)

lemma current_text_words: "words p = (k, s) # ws \<Longrightarrow> current_text p = Parsed s p"
  using words_current [of p k s ws] by (simp add: current_text_def look_words)

section \<open>The arena grows\<close>

definition stored :: "arena \<Rightarrow> node_offset \<Rightarrow> string \<Rightarrow> bool" where
  "stored A off s \<longleftrightarrow> holds_bytes A off (str_bytes s) \<and> utf8_ok (str_bytes s)"

lemma stored_get_string: "arena_inv A \<Longrightarrow> stored A off s \<Longrightarrow> get_string A off = Ret (Some s)"
  using get_string_holds [of A off "str_bytes s"] by (simp add: stored_def)

text \<open>\<open>B\<close> has \<open>k\<close> nodes and \<open>s\<close> slots of the pool more than \<open>A\<close>; old nodes outside \<open>X\<close> are unchanged.\<close>

definition grew :: "nat set \<Rightarrow> arena \<Rightarrow> nat \<Rightarrow> nat \<Rightarrow> arena \<Rightarrow> bool" where
  "grew X A k s B \<longleftrightarrow>
     arena_inv B \<and> node_allocated B = node_allocated A + k \<and> string_allocated B = string_allocated A + s \<and>
     node_capacity B = node_capacity A \<and>
     (\<forall>x < node_allocated A. x \<notin> X \<longrightarrow> arena_get B x = arena_get A x) \<and>
     (\<forall>off t. stored A off t \<longrightarrow> stored B off t)"

definition room :: "arena \<Rightarrow> nat \<Rightarrow> nat \<Rightarrow> bool" where
  "room A k s \<longleftrightarrow> arena_inv A \<and> node_allocated A + k \<le> node_capacity A \<and>
     (s = 0 \<or> string_allocated A + s < node_capacity A div 4)"

lemma grew_refl: "arena_inv A \<Longrightarrow> grew X A 0 0 A"
  by (simp add: grew_def)

lemma grew_trans: "grew X A k s B \<Longrightarrow> grew X B l t C \<Longrightarrow> grew X A (k + l) (s + t) C"
  by (auto simp: grew_def)

lemma grew_mono: "grew X A k s B \<Longrightarrow> X \<inter> {..< node_allocated A} \<subseteq> Y \<Longrightarrow> grew Y A k s B"
  by (auto simp: grew_def)

lemma room_grew: "room A (k + l) (s + t) \<Longrightarrow> grew X A k s B \<Longrightarrow> room B l t"
  by (auto simp: room_def grew_def)

lemma room_less: "room A k s \<Longrightarrow> l \<le> k \<Longrightarrow> t \<le> s \<Longrightarrow> room A l t"
  by (auto simp: room_def)

lemma grew_get: "grew X A k s B \<Longrightarrow> x < node_allocated A \<Longrightarrow> x \<notin> X \<Longrightarrow> arena_get B x = arena_get A x"
  by (simp add: grew_def)

lemma grew_stored: "grew X A k s B \<Longrightarrow> stored A off t \<Longrightarrow> stored B off t"
  by (simp add: grew_def)

lemma grew_mark: "grew X A k s B \<Longrightarrow> node_allocated B = node_allocated A + k"
  by (simp add: grew_def)

lemma room_offset: "room A k s \<Longrightarrow> x \<le> node_allocated A + k \<Longrightarrow> x < 2 ^ 32"
  by (auto simp: room_def arena_inv_def)

lemma arena_alloc_roomy:
  assumes "room A (Suc k) s" and "node_wf n"
  shows "\<exists>B. arena_alloc A n = Ret (Some (node_allocated A), B) \<and> grew {} A 1 0 B \<and>
    arena_get B (node_allocated A) = Some n"
proof -
  have inv: "arena_inv A" and r: "node_allocated A < node_capacity A" using assms(1) by (auto simp: room_def)
  obtain x B where a: "arena_alloc A n = Ret (x, B)" using arena_alloc_total [OF inv] by fastforce
  with r have x: "x = Some (node_allocated A)"
    by (cases x) (auto dest: arena_alloc_SomeD arena_alloc_NoneD)
  note D = arena_alloc_SomeD [OF a [unfolded x]]
  have "stored B off t" if "stored A off t" for off t
    using that holds_bytes_alloc [OF inv _ a] by (auto simp: stored_def)
  with arena_get_alloc [OF inv assms(2) a [unfolded x]] arena_alloc_inv [OF inv a] D
  have "grew {} A 1 0 B" "arena_get B (node_allocated A) = Some n" by (auto simp: grew_def)
  with a x show ?thesis by blast
qed

lemma store_string_room:
  assumes "room A k (pool_slots (length s) + t)" and "s \<noteq> []" and "utf8_ok (str_bytes s)" and "length s < 2 ^ 31"
  shows "\<exists>B off. store_string A s = Ret (Some off, B) \<and> grew {} A 0 (pool_slots (length s)) B \<and>
    stored B off s \<and> off < 2 ^ 32"
proof -
  have inv: "arena_inv A" using assms(1) by (simp add: room_def)
  let ?n = "string_allocated A + pool_slots (length s)"
  let ?off = "string_start A + string_allocated A"
  have pos: "0 < pool_slots (length s)" using pool_slots_ge [of "length s"] by (cases "pool_slots (length s)") auto
  then have n: "?n < string_capacity A" using assms(1) inv by (auto simp: room_def arena_inv_def)
  have cap: "string_capacity A < 2 ^ 30" using inv by (auto simp: arena_inv_def)
  have fit: "\<not> string_start A * slot_size + string_allocated A * slot_size + 4 + length s > mmap_len A"
    using pool_fits_mapping [OF inv, of "length s"] n by simp
  define B where "B = A\<lparr>string_allocated := ?n, mmap := write_block (mmap A)
      (string_start A * slot_size + string_allocated A * slot_size) (str_bytes s)\<rparr>"
  have st: "store_string A s = Ret (Some ?off, B)"
    using assms(2,4) n cap fit
    by (simp add: store_string_def pool_slots_def chk_add_def Let_def slot_size_def B_def)
  have old: "stored B off t" if "stored A off t" for off t
    using that holds_bytes_store_string [OF _ st] assms(4) by (simp add: stored_def)
  have "off < 2 ^ 32" if "off = ?off" for off
    using that n inv by (auto simp: arena_inv_def)
  moreover have "grew {} A 0 (pool_slots (length s)) B"
    using arena_get_store_string [OF inv st] store_string_inv [OF inv st] old by (simp add: grew_def B_def)
  moreover have "stored B ?off s"
    using holds_bytes_stored_string [OF st assms(2)] assms(3,4) by (simp add: stored_def)
  ultimately show ?thesis using st by blast
qed

section \<open>Moves of the parser\<close>

text \<open>From \<open>p\<close> to \<open>q\<close> exactly \<open>n\<close> tokens are consumed, and the arena grows.\<close>

definition moved :: "nat set \<Rightarrow> parser \<Rightarrow> nat \<Rightarrow> nat \<Rightarrow> nat \<Rightarrow> parser \<Rightarrow> bool" where
  "moved X p n k s q \<longleftrightarrow>
     q = p\<lparr>p_arena := p_arena q, p_current := p_current p + n\<rparr> \<and> grew X (p_arena p) k s (p_arena q)"

abbreviation roomy :: "parser \<Rightarrow> nat \<Rightarrow> nat \<Rightarrow> bool" where
  "roomy p k s \<equiv> room (p_arena p) k s"

lemma moved_same: "moved X p n k s q \<Longrightarrow> p_current q = p_current p + n \<and> p_tokens q = p_tokens p \<and>
    typedef_names q = typedef_names p \<and> typedef_kinds q = typedef_kinds p \<and> constant_ints q = constant_ints p"
  by (cases p) (cases q, auto simp: moved_def)

lemma moved_words: "moved X p n k s q \<Longrightarrow> words q = drop n (words p)"
  by (drule moved_same) (simp add: words_def drop_map add.commute)

lemma moved_typedefs: "moved X p n k s q \<Longrightarrow> typedef_names q = typedef_names p"
  by (drule moved_same) simp

lemma moved_mark: "moved X p n k s q \<Longrightarrow> mark q = mark p + k"
  by (simp add: moved_def grew_def mark_def)

lemma moved_room: "moved X p n k s q \<Longrightarrow> roomy p (k + l) (s + t) \<Longrightarrow> roomy q l t"
  by (auto simp: moved_def dest: room_grew)

lemma moved_grew: "moved X p n k s q \<Longrightarrow> grew X (p_arena p) k s (p_arena q)"
  by (simp add: moved_def)

lemma moved_trans: "moved X p n k s q \<Longrightarrow> moved X q m l t r \<Longrightarrow> moved X p (n + m) (k + l) (s + t) r"
  by (cases p) (cases q, cases r, auto simp: moved_def intro: grew_trans)

lemma moved_mono: "moved X p n k s q \<Longrightarrow> X \<inter> {..< mark p} \<subseteq> Y \<Longrightarrow> moved Y p n k s q"
  by (auto simp: moved_def mark_def intro: grew_mono)

lemma moved_ahead: "arena_inv (p_arena p) \<Longrightarrow> moved X p n 0 0 (ahead p n)"
  by (simp add: moved_def ahead_def grew_refl)

lemma moved_get: "moved X p n k s q \<Longrightarrow> x < mark p \<Longrightarrow> x \<notin> X \<Longrightarrow> arena_get (p_arena q) x = arena_get (p_arena p) x"
  by (auto simp: moved_def mark_def dest: grew_get)

lemma moved_stored: "moved X p n k s q \<Longrightarrow> stored (p_arena p) off t \<Longrightarrow> stored (p_arena q) off t"
  by (auto simp: moved_def dest: grew_stored)

lemma moved_inv: "moved X p n k s q \<Longrightarrow> arena_inv (p_arena q)"
  by (simp add: moved_def grew_def)

lemma moved_left: "moved X p n k s q \<Longrightarrow> tokens_left q = tokens_left p - n"
  by (simp add: words_tokens_left moved_words)

lemma roomy_inv: "roomy p k s \<Longrightarrow> arena_inv (p_arena p)"
  by (simp add: room_def)

lemma roomy_small: "roomy p k s \<Longrightarrow> x \<le> mark p + k \<Longrightarrow> x < 4294967296"
  using room_offset [of "p_arena p" k s x] by (simp add: mark_def)

lemma alloc_node_moved:
  assumes "roomy p (Suc k) s" and "kd < 65536" and "d < 4294967296" and "child < 4294967296" and "next < 4294967296"
  shows "\<exists>q. alloc_node kd d NULL child next p = Parsed (mark p) q \<and> moved {} p 0 1 0 q \<and>
    arena_get (p_arena q) (mark p) = Some (fresh_node kd d NULL child next)"
proof -
  have "node_wf (fresh_node kd d NULL child next)" using assms by (intro fresh_node_wf) simp_all
  from arena_alloc_roomy [OF assms(1) this] obtain B where
    "arena_alloc (p_arena p) (fresh_node kd d NULL child next) = Ret (Some (mark p), B)" "grew {} (p_arena p) 1 0 B"
    "arena_get B (mark p) = Some (fresh_node kd d NULL child next)" by (auto simp: mark_def)
  then show ?thesis
    by (simp add: alloc_node_def of_outcome_def pbind_def pret_def or_null_def moved_def)
qed

lemma store_text_moved:
  assumes "roomy p k (pool_slots (length s) + t)" and "s \<noteq> []" and "utf8_ok (str_bytes s)" and "length s < 2 ^ 31"
  shows "\<exists>off q. store_text s p = Parsed off q \<and> moved {} p 0 0 (pool_slots (length s)) q \<and>
    stored (p_arena q) off s \<and> off < 2 ^ 32"
proof -
  from store_string_room [OF assms] obtain B off where
    "store_string (p_arena p) s = Ret (Some off, B)" "grew {} (p_arena p) 0 (pool_slots (length s)) B"
    "stored B off s" "off < 2 ^ 32" by auto
  then show ?thesis
    by (auto simp: store_text_def of_outcome_def pbind_def pret_def or_null_def moved_def)
qed

lemma set_next_moved:
  assumes "arena_inv (p_arena p)" and "arena_get (p_arena p) x = Some n" and "node_wf n" and "y < 4294967296"
  shows "\<exists>q. set_next x y p = Parsed () q \<and> moved {x} p 0 0 0 q \<and>
    arena_get (p_arena q) x = Some (n\<lparr>next_sibling := y\<rparr>)"
proof -
  let ?A = "p_arena p"
  let ?B = "arena_get_mut ?A x (\<lambda>n. n\<lparr>next_sibling := y\<rparr>)"
  have "node_wf (m\<lparr>next_sibling := y\<rparr>)" if "arena_get ?A x = Some m" for m
    using that assms(2,3,4) by (simp add: set_next_update)
  from arena_get_get_mut [of ?A x "\<lambda>n. n\<lparr>next_sibling := y\<rparr>", OF this]
  have g: "arena_get ?B = (arena_get ?A)(x \<mapsto> n\<lparr>next_sibling := y\<rparr>)" using assms(2) by simp
  have "stored ?B off t" if "stored ?A off t" for off t
    using that holds_bytes_get_mut [OF assms(1)] by (auto simp: stored_def)
  moreover have "arena_inv ?B" using arena_get_mut_inv [OF assms(1)] .
  ultimately have "grew {x} ?A 0 0 ?B"
    by (auto simp: grew_def g) (auto simp: arena_get_mut_def)
  with g show ?thesis by (simp add: set_next_def pmodify_def moved_def)
qed

section \<open>Loops\<close>

text \<open>A loop that starts with \<open>s\<close> at \<open>p\<close> gets to the head of a round with \<open>t\<close> at \<open>q\<close>.\<close>

definition spins :: "('s \<Rightarrow> ('s + 'a) pm) \<Rightarrow> 's \<Rightarrow> parser \<Rightarrow> 's \<Rightarrow> parser \<Rightarrow> bool" where
  "spins body s p t q \<longleftrightarrow>
     (\<exists>N. N + tokens_left q \<le> tokens_left p \<and> (\<forall>j. ploop (N + j) body s p = ploop j body t q))"

lemma spins_refl: "spins body s p s p"
  by (auto simp: spins_def intro!: exI [of _ 0])

lemma spins_step:
  assumes "spins body s p t q" and "body t q = Parsed (Inl u) r" and "tokens_left r < tokens_left q"
  shows "spins body s p u r"
proof -
  obtain N where N: "N + tokens_left q \<le> tokens_left p" "\<And>j. ploop (N + j) body s p = ploop j body t q"
    using assms(1) by (auto simp: spins_def)
  have "ploop (Suc N + j) body s p = ploop j body u r" for j
    using N(2) [of "Suc j"] assms(2) by (simp add: pbind_Parsed)
  moreover have "Suc N + tokens_left r \<le> tokens_left p" using N(1) assms(3) by simp
  ultimately show ?thesis unfolding spins_def by blast
qed

lemma spins_break:
  assumes "spins body s p t q" and "body t q = Parsed (Inr x) r"
  shows "prepeat body s p = Parsed x r"
proof -
  obtain N where N: "N + tokens_left q \<le> tokens_left p" "\<And>j. ploop (N + j) body s p = ploop j body t q"
    using assms(1) by (auto simp: spins_def)
  then have "Suc (tokens_left p) = N + Suc (tokens_left p - N)" by simp
  then show ?thesis using assms(2) N(2) [of "Suc (tokens_left p - N)"]
    by (simp add: prepeat_def pbind_Parsed pret_def)
qed

lemma spins_one: "body s p = Parsed (Inl u) r \<Longrightarrow> tokens_left r < tokens_left p \<Longrightarrow> spins body s p u r"
  by (rule spins_step [OF spins_refl])

lemma prepeat_stop: "body s p = Parsed (Inr x) r \<Longrightarrow> prepeat body s p = Parsed x r"
  by (rule spins_break [OF spins_refl])

end
