(* ===== verification/ExprSyntax.thy ===== *)
theory ExprSyntax
  imports ParserExec ParserDescent
begin

text \<open>
  Expressions of C as trees, the words that spell them, and the nodes the parser makes for them.
  This is the reference that the expression parser is compared with.
\<close>

section \<open>Trees\<close>

datatype cexpr =
    E_Name string
  | E_Num string
  | E_Char string
  | E_Index cexpr cexpr
  | E_Call cexpr "cexpr list"
  | E_Member bool cexpr string
  | E_Postfix string cexpr
  | E_Prefix string cexpr
  | E_Binary string cexpr cexpr
  | E_Cond cexpr cexpr cexpr
  | E_Assign string cexpr cexpr
  | E_Comma cexpr cexpr

text \<open>The operators with the codes the nodes carry, and for binary ones with their precedences.\<close>

definition binary_ops :: "(string \<times> nat \<times> u32) list" where
  "binary_ops =
     [(''||'', (1, 13)), (''&&'', (2, 12)), (''|'', (3, 15)), (''^'', (4, 16)), (''&'', (5, 14)),
      (''=='', (6, 6)), (''!='', (6, 7)), (''<'', (7, 8)), (''>'', (7, 9)), (''<='', (7, 10)),
      (''>='', (7, 11)), (''<<'', (8, 17)), (''>>'', (8, 18)), (''+'', (9, 1)), (''-'', (9, 2)),
      (''*'', (10, 3)), (''/'', (10, 4)), (''%'', (10, 5))]"

definition assign_ops :: "(string \<times> u32) list" where
  "assign_ops =
     [(''='', 19), (''+='', 1), (''-='', 2), (''*='', 3), (''/='', 4), (''%='', 5), (''&='', 14),
      (''^='', 16), (''|='', 15), (''>>='', 18), (''<<='', 17)]"

definition prefix_ops :: "(string \<times> u32) list" where
  "prefix_ops =
     [(''++'', 6), (''--'', 7), (''+'', 0), (''-'', 1), (''!'', 2), (''~'', 3), (''&'', 4), (''*'', 5)]"

definition postfix_ops :: "(string \<times> u32) list" where
  "postfix_ops = [(''++'', 6), (''--'', 7)]"

definition op_code :: "(string \<times> u32) list \<Rightarrow> string \<Rightarrow> u32" where
  "op_code table op = (case map_of table op of Some c \<Rightarrow> c | None \<Rightarrow> 0)"

definition binary_rank :: "string \<Rightarrow> nat" where
  "binary_rank op = (case map_of binary_ops op of Some (r, c) \<Rightarrow> r | None \<Rightarrow> 0)"

definition binary_code :: "string \<Rightarrow> u32" where
  "binary_code op = (case map_of binary_ops op of Some (r, c) \<Rightarrow> c | None \<Rightarrow> 0)"

text \<open>How tightly an expression binds: comma 0, assignment 1, conditional 2, binary operators 3 to 12.\<close>

fun rank :: "cexpr \<Rightarrow> nat" where
  "rank (E_Comma a b) = 0"
| "rank (E_Assign op a b) = 1"
| "rank (E_Cond c a b) = 2"
| "rank (E_Binary op a b) = 2 + binary_rank op"
| "rank (E_Prefix op a) = 13"
| "rank _ = 14"

section \<open>Spelling\<close>

definition wrap :: "bool \<Rightarrow> word list \<Rightarrow> word list" where
  "wrap b ws = (if b then pw ''('' # ws @ [pw '')''] else ws)"

fun commas :: "word list list \<Rightarrow> word list" where
  "commas [] = []"
| "commas [ws] = ws"
| "commas (ws # wss) = ws @ pw '','' # commas wss"

text \<open>
  The words of a tree with parentheses only where they are needed for the grammar of the code:
  every binary operator groups to the right.
\<close>

fun body :: "cexpr \<Rightarrow> word list" where
  "body (E_Name s) = [(K_Identifier, s)]"
| "body (E_Num s) = [(K_IntConstant, s)]"
| "body (E_Char s) = [(K_CharConstant, s)]"
| "body (E_Index a b) = body a @ pw ''['' # body b @ [pw '']'']"
| "body (E_Call a bs) = body a @ pw ''('' # commas (map (\<lambda>b. wrap (rank b < 1) (body b)) bs) @ [pw '')'']"
| "body (E_Member arrow a s) = body a @ [pw (if arrow then ''->'' else ''.''), (K_Identifier, s)]"
| "body (E_Postfix op a) = body a @ [pw op]"
| "body (E_Prefix op a) = pw op # wrap (rank a < 13) (body a)"
| "body (E_Binary op a b) =
     wrap (rank a < 3 + binary_rank op) (body a) @ pw op # wrap (rank b < 2 + binary_rank op) (body b)"
| "body (E_Cond c a b) = wrap (rank c < 3) (body c) @ pw ''?'' # body a @ pw '':'' # wrap (rank b < 2) (body b)"
| "body (E_Assign op a b) = wrap (rank a < 2) (body a) @ pw op # wrap (rank b < 1) (body b)"
| "body (E_Comma a b) = wrap (rank a < 1) (body a) @ pw '','' # body b"

definition spell :: "nat \<Rightarrow> cexpr \<Rightarrow> word list" where
  "spell k e = wrap (rank e < k) (body e)"

section \<open>Which trees can be spelled\<close>

definition plain_text :: "string \<Rightarrow> bool" where
  "plain_text s \<longleftrightarrow> s \<noteq> [] \<and> utf8_ok (str_bytes s) \<and> length s < 2 ^ 31"

definition plain_name :: "string set \<Rightarrow> string \<Rightarrow> bool" where
  "plain_name T s \<longleftrightarrow>
     plain_text s \<and> s \<notin> T \<and> s \<notin> set type_specifier_words \<and> s \<notin> set type_qualifier_words \<and>
     s \<noteq> ''__extension__'' \<and> s \<noteq> '')'' \<and> \<not> is_builtin s"

text \<open>The node of an index expression holds the index in its link to the next sibling.\<close>

fun indexed :: "cexpr \<Rightarrow> bool" where
  "indexed (E_Index a b) = True"
| "indexed _ = False"

text \<open>
  \<open>plain T e\<close>: names are no types (\<open>T\<close> has the declared ones) and no words of the language,
  and what a postfix operator is applied to is a postfix expression itself.
\<close>

fun plain :: "string set \<Rightarrow> cexpr \<Rightarrow> bool" where
  "plain T (E_Name s) = plain_name T s"
| "plain T (E_Num s) = (s \<noteq> '')'')"
| "plain T (E_Char s) = (s \<noteq> '')'')"
| "plain T (E_Index a b) = (plain T a \<and> rank a = 14 \<and> plain T b)"
| "plain T (E_Call a bs) = (plain T a \<and> rank a = 14 \<and> \<not> indexed a \<and> (\<forall>b \<in> set bs. plain T b))"
| "plain T (E_Member arrow a s) = (plain T a \<and> rank a = 14 \<and> plain_text s)"
| "plain T (E_Postfix op a) = (plain T a \<and> rank a = 14 \<and> op \<in> fst ` set postfix_ops)"
| "plain T (E_Prefix op a) = (plain T a \<and> op \<in> fst ` set prefix_ops)"
| "plain T (E_Binary op a b) = (plain T a \<and> plain T b \<and> op \<in> fst ` set binary_ops)"
| "plain T (E_Cond c a b) = (plain T c \<and> plain T a \<and> plain T b)"
| "plain T (E_Assign op a b) = (plain T a \<and> plain T b \<and> op \<in> fst ` set assign_ops)"
| "plain T (E_Comma a b) = (plain T a \<and> plain T b)"

section \<open>Nodes\<close>

text \<open>The number of nodes of a tree, and of slots in the pool for its names.\<close>

fun nodes :: "cexpr \<Rightarrow> nat" where
  "nodes (E_Index a b) = Suc (nodes a + nodes b)"
| "nodes (E_Call a bs) = Suc (nodes a + sum_list (map (\<lambda>b. Suc (nodes b)) bs))"
| "nodes (E_Member arrow a s) = Suc (nodes a)"
| "nodes (E_Postfix op a) = Suc (nodes a)"
| "nodes (E_Prefix op a) = Suc (nodes a)"
| "nodes (E_Binary op a b) = Suc (Suc (nodes a + nodes b))"
| "nodes (E_Cond c a b) = Suc (Suc (nodes c + nodes a + nodes b))"
| "nodes (E_Assign op a b) = Suc (nodes a + nodes b)"
| "nodes (E_Comma a b) = Suc (nodes a + nodes b)"
| "nodes _ = 1"

fun slots :: "cexpr \<Rightarrow> nat" where
  "slots (E_Name s) = pool_slots (length s)"
| "slots (E_Index a b) = slots a + slots b"
| "slots (E_Call a bs) = slots a + sum_list (map slots bs)"
| "slots (E_Member arrow a s) = slots a + pool_slots (length s)"
| "slots (E_Postfix op a) = slots a"
| "slots (E_Prefix op a) = slots a"
| "slots (E_Binary op a b) = slots a + slots b"
| "slots (E_Cond c a b) = slots c + slots a + slots b"
| "slots (E_Assign op a b) = slots a + slots b"
| "slots (E_Comma a b) = slots a + slots b"
| "slots _ = 0"

text \<open>
  \<open>built A lo x nx e\<close>: the node \<open>x\<close> is the root of the tree \<open>e\<close>, made of the nodes from \<open>lo\<close> to
  \<open>x\<close>, and its next sibling is \<open>nx\<close> unless the tree itself uses that link.
\<close>

abbreviation node_is :: "arena \<Rightarrow> node_offset \<Rightarrow> u16 \<Rightarrow> u32 \<Rightarrow> node_offset \<Rightarrow> node_offset \<Rightarrow> bool" where
  "node_is A x k d child next \<equiv> arena_get A x = Some (fresh_node k d NULL child next)"

fun built :: "arena \<Rightarrow> nat \<Rightarrow> node_offset \<Rightarrow> node_offset \<Rightarrow> cexpr \<Rightarrow> bool"
  and built_args :: "arena \<Rightarrow> nat \<Rightarrow> nat \<Rightarrow> node_offset \<Rightarrow> cexpr list \<Rightarrow> bool" where
  "built A lo x nx (E_Name s) = (lo \<le> x \<and> (\<exists>off. node_is A x 60 off NULL nx \<and> stored A off s))"
| "built A lo x nx (E_Num s) = (lo \<le> x \<and> node_is A x 61 (int_constant_value s) NULL nx)"
| "built A lo x nx (E_Char s) = (lo \<le> x \<and> node_is A x 62 (char_constant_value s) NULL nx)"
| "built A lo x nx (E_Index a b) =
     (\<exists>y z. built A lo y NULL a \<and> built A (Suc y) z NULL b \<and> z < x \<and> node_is A x 68 0 y z)"
| "built A lo x nx (E_Call a bs) =
     (\<exists>y w. built A lo y w a \<and> built_args A (Suc y) x w bs \<and> y < x \<and> node_is A x 67 0 y nx)"
| "built A lo x nx (E_Member arrow a s) =
     (\<exists>y off. built A lo y NULL a \<and> y < x \<and> stored A off s \<and>
        node_is A x 69 (or off (if arrow then 2 ^ 31 else 0)) y nx)"
| "built A lo x nx (E_Postfix op a) =
     (\<exists>y. built A lo y NULL a \<and> y < x \<and> node_is A x 65 (op_code postfix_ops op) y nx)"
| "built A lo x nx (E_Prefix op a) =
     (\<exists>y. built A lo y NULL a \<and> y < x \<and> node_is A x 65 (op_code prefix_ops op) y nx)"
| "built A lo x nx (E_Binary op a b) =
     (\<exists>y z w. built A lo y NULL a \<and> built A (Suc y) z NULL b \<and> z < w \<and> w < x \<and>
        node_is A w 0 0 y z \<and> node_is A x 64 (binary_code op) w nx)"
| "built A lo x nx (E_Cond c a b) =
     (\<exists>y z v w. built A lo y NULL c \<and> built A (Suc y) z NULL a \<and> built A (Suc z) v NULL b \<and> v < w \<and> w < x \<and>
        node_is A w 0 0 z v \<and> node_is A x 66 0 y w)"
| "built A lo x nx (E_Assign op a b) =
     (\<exists>y z. built A lo y NULL a \<and> built A (Suc y) z NULL b \<and> z < x \<and> node_is A x 73 (op_code assign_ops op) y z)"
| "built A lo x nx (E_Comma a b) =
     (\<exists>y z. built A lo y NULL a \<and> built A (Suc y) z NULL b \<and> z < x \<and> node_is A x 72 0 y z)"
| "built_args A lo hi w [] = (w = NULL)"
| "built_args A lo hi w (b # bs) =
     (\<exists>y v. built A lo y NULL b \<and> y < w \<and> w < hi \<and> node_is A w 74 0 y v \<and> built_args A (Suc w) hi v bs)"

lemma binary_rank_le: "binary_rank op \<le> 10" "binary_rank op \<noteq> 12"
proof -
  have "\<forall>(s, r, c) \<in> set binary_ops. r \<le> 10" by (simp add: binary_ops_def)
  then show "binary_rank op \<le> 10" by (auto simp: binary_rank_def split: option.split dest: map_of_SomeD)
  then show "binary_rank op \<noteq> 12" by simp
qed

lemma built_least: "built A lo x nx e \<Longrightarrow> lo \<le> x"
  by (induction e arbitrary: lo x nx) fastforce+

lemma built_frame:
  "built A lo x nx e \<Longrightarrow> \<forall>i. lo \<le> i \<and> i \<le> x \<longrightarrow> arena_get B i = arena_get A i \<Longrightarrow>
     \<forall>off s. stored A off s \<longrightarrow> stored B off s \<Longrightarrow> built B lo x nx e"
  "built_args A lo hi w bs \<Longrightarrow> \<forall>i. lo \<le> i \<and> i < hi \<longrightarrow> arena_get B i = arena_get A i \<Longrightarrow>
     \<forall>off s. stored A off s \<longrightarrow> stored B off s \<Longrightarrow> built_args B lo hi w bs"
proof (induction A lo x nx e and A lo hi w bs rule: built_built_args.induct)
  case (4 A lo x nx a b)
  then obtain y z where "built A lo y NULL a" "built A (Suc y) z NULL b" "z < x" "node_is A x 68 0 y z" by auto
  with built_least [OF this(1)] built_least [OF this(2)] 4 have "built B lo y NULL a" "built B (Suc y) z NULL b" "node_is B x 68 0 y z" by auto
  with \<open>z < x\<close> show ?case by auto
next
  case (5 A lo x nx a bs)
  then obtain y w where o: "built A lo y w a" "built_args A (Suc y) x w bs" "y < x" "node_is A x 67 0 y nx" by auto
  with built_least [OF o(1)] 5 have "built B lo y w a" "built_args B (Suc y) x w bs" "node_is B x 67 0 y nx" by auto
  with \<open>y < x\<close> show ?case by auto
next
  case (9 A lo x nx op a b)
  then obtain y z w where o: "built A lo y NULL a" "built A (Suc y) z NULL b" "z < w" "w < x" "node_is A w 0 0 y z"
    "node_is A x 64 (binary_code op) w nx" by auto
  with built_least [OF o(1)] built_least [OF o(2)] 9
  have "built B lo y NULL a" "built B (Suc y) z NULL b" "node_is B w 0 0 y z" "node_is B x 64 (binary_code op) w nx" by auto
  with o(3,4) show ?case by auto
next
  case (10 A lo x nx c a b)
  then obtain y z v w where o: "built A lo y NULL c" "built A (Suc y) z NULL a" "built A (Suc z) v NULL b" "v < w" "w < x"
    "node_is A w 0 0 z v" "node_is A x 66 0 y w" by auto
  with built_least [OF o(1)] built_least [OF o(2)] built_least [OF o(3)] 10
  have "built B lo y NULL c" "built B (Suc y) z NULL a" "built B (Suc z) v NULL b" "node_is B w 0 0 z v" "node_is B x 66 0 y w"
    by auto
  with o(4,5) show ?case by auto
next
  case (11 A lo x nx op a b)
  then obtain y z where "built A lo y NULL a" "built A (Suc y) z NULL b" "z < x" "node_is A x 73 (op_code assign_ops op) y z" by auto
  with built_least [OF this(1)] built_least [OF this(2)] 11
  have "built B lo y NULL a" "built B (Suc y) z NULL b" "node_is B x 73 (op_code assign_ops op) y z" by auto
  with \<open>z < x\<close> show ?case by auto
next
  case (12 A lo x nx a b)
  then obtain y z where "built A lo y NULL a" "built A (Suc y) z NULL b" "z < x" "node_is A x 72 0 y z" by auto
  with built_least [OF this(1)] built_least [OF this(2)] 12
  have "built B lo y NULL a" "built B (Suc y) z NULL b" "node_is B x 72 0 y z" by auto
  with \<open>z < x\<close> show ?case by auto
next
  case (14 A lo hi w b bs)
  then obtain y v where o: "built A lo y NULL b" "y < w" "w < hi" "node_is A w 74 0 y v" "built_args A (Suc w) hi v bs" by auto
  with built_least [OF o(1)] 14 have "built B lo y NULL b" "node_is B w 74 0 y v" "built_args B (Suc w) hi v bs" by auto
  with o(2,3) show ?case by auto
next
  case (6 A lo x nx arrow a s)
  then obtain y off where o: "built A lo y NULL a" "y < x" "stored A off s"
    "node_is A x 69 (or off (if arrow then 2 ^ 31 else 0)) y nx" by auto
  with built_least [OF o(1)] 6 have "built B lo y NULL a" "stored B off s"
    "node_is B x 69 (or off (if arrow then 2 ^ 31 else 0)) y nx" by auto
  with o(2) show ?case unfolding built.simps by blast
next
  case (7 A lo x nx op a)
  then obtain y where o: "built A lo y NULL a" "y < x" "node_is A x 65 (op_code postfix_ops op) y nx" by auto
  with built_least [OF o(1)] 7 have "built B lo y NULL a" "node_is B x 65 (op_code postfix_ops op) y nx" by auto
  with o(2) show ?case by auto
next
  case (8 A lo x nx op a)
  then obtain y where o: "built A lo y NULL a" "y < x" "node_is A x 65 (op_code prefix_ops op) y nx" by auto
  with built_least [OF o(1)] 8 have "built B lo y NULL a" "node_is B x 65 (op_code prefix_ops op) y nx" by auto
  with o(2) show ?case by auto
qed auto

text \<open>The link to the next sibling of a tree that does not use it.\<close>

lemma built_relink:
  assumes "built A lo x nx e" and "rank e = 14" and "\<not> indexed e" and "\<forall>i. lo \<le> i \<and> i < x \<longrightarrow> arena_get B i = arena_get A i"
    and "\<forall>off s. stored A off s \<longrightarrow> stored B off s"
    and "\<And>n. arena_get A x = Some n \<Longrightarrow> arena_get B x = Some (n\<lparr>next_sibling := v\<rparr>)"
  shows "built B lo x v e"
proof -
  have sub: "built B lo y NULL a" if "built A lo y NULL a" "y < x" for y a
    using built_frame(1) [OF that(1), of B] that(2) assms(4,5) by auto
  have f: "node_is B x k d c v" if "node_is A x k d c nx" for k d c
    using assms(6) [OF that] by (simp add: fresh_node_def)
  show ?thesis
  proof (cases e)
    case (E_Call a bs)
    with assms(1) obtain y w where o: "built A lo y w a" "built_args A (Suc y) x w bs" "y < x" "node_is A x 67 0 y nx" by auto
    from built_least [OF o(1)] assms(4,5) o have "built B lo y w a" "built_args B (Suc y) x w bs"
      by (auto intro: built_frame(1) [OF o(1)] built_frame(2) [OF o(2)])
    with o f E_Call show ?thesis by auto
  next
    case (E_Member arrow a s)
    with assms(1) obtain y off where o: "built A lo y NULL a" "y < x" "stored A off s"
      "node_is A x 69 (or off (if arrow then 2 ^ 31 else 0)) y nx" by auto
    with sub assms(5) have "built B lo y NULL a" "stored B off s" by blast+
    with o(2) f [OF o(4)] show ?thesis unfolding E_Member built.simps by blast
  next
    case (E_Postfix op a)
    with assms(1) obtain y where o: "built A lo y NULL a" "y < x" "node_is A x 65 (op_code postfix_ops op) y nx" by auto
    with sub f [OF o(3)] show ?thesis unfolding E_Postfix built.simps by blast
  qed (use assms f binary_rank_le in auto)
qed

end
