(* ===== verification/ExprParse.thy ===== *)
theory ExprParse
  imports ExprSyntax
begin

text \<open>
  The expression parser reads the words of every tree back: it consumes them all, stops before the
  next word, and builds the nodes of the tree. Each function of the parser is compared with the
  spelling at its level; the loops are taken round by round.
\<close>

section \<open>Reading a tree\<close>

definition made :: "parser \<Rightarrow> nat \<Rightarrow> cexpr \<Rightarrow> node_offset \<Rightarrow> parser \<Rightarrow> bool" where
  "made p n e r q \<longleftrightarrow>
     moved {} p n (nodes e) (slots e) q \<and> Suc r = mark q \<and> built (p_arena q) (mark p) r NULL e"

definition reads :: "node_offset pm \<Rightarrow> parser \<Rightarrow> nat \<Rightarrow> cexpr \<Rightarrow> bool" where
  "reads m p n e \<longleftrightarrow> (\<exists>r q. m p = Parsed r q \<and> made p n e r q)"

text \<open>The rank at which a word continues an expression, and the words an expression of a level ends at.\<close>

definition continues :: "word \<Rightarrow> nat option" where
  "continues w =
     (if fst w \<noteq> K_Punctuator then None
      else if snd w \<in> {''['', ''('', ''.'', ''->'', ''++'', ''--''} then Some 14
      else if 0 < binary_rank (snd w) then Some (2 + binary_rank (snd w))
      else if snd w = ''?'' then Some 2
      else if map_of assign_ops (snd w) \<noteq> None then Some 1
      else if snd w = '','' then Some 0
      else None)"

definition stops :: "nat \<Rightarrow> word list \<Rightarrow> bool" where
  "stops k ws \<longleftrightarrow> ws \<noteq> [] \<and> (case continues (hd ws) of None \<Rightarrow> True | Some c \<Rightarrow> c < k)"

lemma stops_at_mono: "stops k ws \<Longrightarrow> k \<le> l \<Longrightarrow> stops l ws"
  by (auto simp: stops_def split: option.splits)

lemma stops_cons: "stops k ws \<Longrightarrow> \<exists>kd s r. ws = (kd, s) # r"
  by (cases ws) (auto simp: stops_def)

lemma binary_rank_pos: "op \<in> fst ` set binary_ops \<longleftrightarrow> 0 < binary_rank op"
proof
  assume "op \<in> fst ` set binary_ops"
  then show "0 < binary_rank op" by (auto simp: binary_ops_def binary_rank_def)
next
  assume "0 < binary_rank op"
  then have "map_of binary_ops op \<noteq> None" by (auto simp: binary_rank_def split: option.splits)
  then show "op \<in> fst ` set binary_ops" by (simp add: map_of_eq_None_iff)
qed

lemma get_binary_operator_words:
  "words p = (k, s) # ws \<Longrightarrow> get_binary_operator p = (if k = K_Punctuator then (binary_rank s, binary_code s) else (0, 0))"
  using words_current [of p k s ws]
  by (auto simp: get_binary_operator_def at_kind_def binary_rank_def binary_code_def binary_ops_def split: option.split)

lemma assignment_operator_words:
  "words p = (k, s) # ws \<Longrightarrow> assignment_operator p = (if k = K_Punctuator then map_of assign_ops s else None)"
  using words_current [of p k s ws] by (simp add: assignment_operator_def at_kind_def assign_ops_def)

lemma binary_rank_other: "s \<in> {''['', ''('', ''.'', ''->'', ''++'', ''--'', ''?'', '',''} \<Longrightarrow> binary_rank s = 0"
proof -
  have "list_all (\<lambda>s. binary_rank s = 0) [''['', ''('', ''.'', ''->'', ''++'', ''--'', ''?'', '','']" by code_simp
  then show "s \<in> {''['', ''('', ''.'', ''->'', ''++'', ''--'', ''?'', '',''} \<Longrightarrow> binary_rank s = 0"
    unfolding list.pred_inject by (elim insertE emptyE) (simp_all only:)
qed

lemma assign_op_other:
  assumes "map_of assign_ops s = Some c"
  shows "binary_rank s = 0" "s \<notin> {''['', ''('', ''.'', ''->'', ''++'', ''--'', ''?'', '',''}"
proof -
  have "list_all (\<lambda>(op, c). binary_rank op = 0 \<and> op \<notin> {''['', ''('', ''.'', ''->'', ''++'', ''--'', ''?'', '',''}) assign_ops"
    by code_simp
  with map_of_SomeD [OF assms] show "binary_rank s = 0" "s \<notin> {''['', ''('', ''.'', ''->'', ''++'', ''--'', ''?'', '',''}"
    unfolding list_all_iff by auto
qed

lemma stops_words:
  assumes "stops k ((K_Punctuator, s) # r)"
  shows "k \<le> 14 \<Longrightarrow> s \<notin> {''['', ''('', ''.'', ''->'', ''++'', ''--''}" "3 \<le> k \<Longrightarrow> k \<le> 13 \<Longrightarrow> binary_rank s \<le> k - 3"
    "k \<le> 2 \<Longrightarrow> s \<noteq> ''?''" "k \<le> 1 \<Longrightarrow> map_of assign_ops s = None" "k = 0 \<Longrightarrow> s \<noteq> '',''"
proof -
  have c: "case continues (K_Punctuator, s) of None \<Rightarrow> True | Some c \<Rightarrow> c < k"
    using assms by (simp add: stops_def)
  then show p: "k \<le> 14 \<Longrightarrow> s \<notin> {''['', ''('', ''.'', ''->'', ''++'', ''--''}"
    by (simp add: continues_def split: if_splits)
  show "3 \<le> k \<Longrightarrow> k \<le> 13 \<Longrightarrow> binary_rank s \<le> k - 3"
    using c p binary_rank_other [of s] by (simp add: continues_def split: if_splits)
  show "k \<le> 2 \<Longrightarrow> s \<noteq> ''?''"
    using c binary_rank_other [of s] by (auto simp: continues_def)
  show "k = 0 \<Longrightarrow> s \<noteq> '',''"
    using c binary_rank_other [of s] by (auto simp: continues_def assign_ops_def)
  show "k \<le> 1 \<Longrightarrow> map_of assign_ops s = None"
  proof (rule ccontr)
    assume k: "k \<le> 1" and "map_of assign_ops s \<noteq> None"
    then obtain v where v: "map_of assign_ops s = Some v" by auto
    from assign_op_other [OF v] have "continues (K_Punctuator, s) = Some 1" by (simp add: continues_def v)
    with c k show False by simp
  qed
qed

section \<open>Loops and levels that end at once\<close>

lemma postfix_stop: "words p = ws \<Longrightarrow> stops 13 ws \<Longrightarrow> postfix_round P x p = Parsed (Inr x) p"
proof -
  assume w: "words p = ws" and st: "stops 13 ws"
  then obtain k s r where c: "words p = (k, s) # r" using stops_cons by blast
  with stops_words(1) [of 13 s r] st w
  have "\<not> (k = K_Punctuator \<and> s = t)" if "t \<in> {''['', ''('', ''.'', ''->'', ''++'', ''--''}" for t
    using that by (auto simp: stops_at_mono)
  then have f: "skip_punctuator t p = Parsed False p" if "t \<in> {''['', ''('', ''.'', ''->'', ''++'', ''--''}" for t
    using that skip_words_punct [OF c] by simp
  show ?thesis by (simp add: postfix_round_def pbind_def f pret_def)
qed

lemma binary_stop:
  assumes "words p = ws" and "stops k ws" and "3 \<le> k" and "k \<le> 13"
  shows "binary_round P (k - 3) x p = Parsed (Inr x) p"
proof -
  obtain kd s r where c: "words p = (kd, s) # r" using stops_cons assms(1,2) by blast
  have "kd = K_Punctuator \<Longrightarrow> binary_rank s \<le> k - 3" using stops_words(2) [of k s r] c assms by simp
  then show ?thesis
    by (simp add: binary_round_def pbind_def look_words [OF c]
        get_binary_operator_words [OF c] pret_def)
qed

lemma conditional_level:
  assumes "parse_binary_op P 0 p = Parsed r q" and "words q = ws" and "stops 2 ws"
  shows "parse_conditional_expression P p = Parsed r q"
proof -
  obtain kd s u where c: "words q = (kd, s) # u" using stops_cons assms(2,3) by blast
  have "\<not> (kd = K_Punctuator \<and> s = ''?'')" using stops_words(3) [of 2 s u] c assms by auto
  then show ?thesis
    by (auto simp: parse_conditional_expression_def parse_binary_expression_def pbind_def assms(1)
        skip_words_punct [OF c] pret_def)
qed

lemma assignment_level:
  assumes "parse_conditional_expression P p = Parsed r q" and "words q = ws" and "stops 1 ws"
  shows "parse_assignment_expression P p = Parsed r q"
proof -
  obtain kd s u where c: "words q = (kd, s) # u" using stops_cons assms(2,3) by blast
  have "kd = K_Punctuator \<Longrightarrow> map_of assign_ops s = None" using stops_words(4) [of 1 s u] c assms by auto
  then show ?thesis
    by (simp add: parse_assignment_expression_def pbind_def assms(1)
        look_words [OF c] assignment_operator_words [OF c] pret_def)
qed

lemma expression_level:
  assumes "parse_assignment_expression P p = Parsed r q" and "words q = ws" and "stops 0 ws"
  shows "parse_expression P p = Parsed r q"
proof -
  obtain kd s u where c: "words q = (kd, s) # u" using stops_cons assms(2,3) by blast
  have "\<not> (kd = K_Punctuator \<and> s = '','')" using stops_words(5) [of 0 s u] c assms by auto
  then show ?thesis
    by (auto simp: parse_expression_def parse_comma_expression_def pbind_def assms(1)
        skip_words_punct [OF c] pret_def)
qed

text \<open>The function of the parser for each level of the spelling.\<close>

definition level_parser :: "nonterms \<Rightarrow> nat \<Rightarrow> node_offset pm" where
  "level_parser P k =
     (if k = 0 then parse_expression P else if k = 1 then parse_assignment_expression P
      else if k = 2 then parse_conditional_expression P else if k \<le> 12 then parse_binary_op P (k - 3)
      else parse_cast_expression P)"

text \<open>From a level down to a lower one, when nothing follows there.\<close>

lemma level_step:
  assumes "level_parser P (Suc i) p = Parsed r q" and "stops i (words q)" and "i \<le> 2"
  shows "level_parser P i p = Parsed r q"
proof -
  from assms(3) consider "i = 0" | "i = 1" | "i = 2" by linarith
  then show ?thesis
  proof cases
    case 1
    with assms expression_level [OF _ refl] show ?thesis by (simp add: level_parser_def)
  next
    case 2
    with assms(1) have "parse_conditional_expression P p = Parsed r q" by (simp add: level_parser_def numeral_2_eq_2)
    with 2 assms(2) assignment_level [OF _ refl] show ?thesis by (simp add: level_parser_def)
  next
    case 3
    with assms conditional_level [OF _ refl] show ?thesis by (simp add: level_parser_def)
  qed
qed

lemma level_down:
  assumes "level_parser P k p = Parsed r q" and "stops j (words q)" and "j \<le> k" and "k \<le> 3"
  shows "level_parser P j p = Parsed r q"
proof -
  have "k - d \<ge> j \<Longrightarrow> level_parser P (k - d) p = Parsed r q" for d
  proof (induction d)
    case (Suc d)
    show ?case
    proof (cases "k \<le> d")
      case False
      then have e: "k - d = Suc (k - Suc d)" by simp
      show ?thesis
      proof (rule level_step)
        show "level_parser P (Suc (k - Suc d)) p = Parsed r q" using Suc e by simp
        show "stops (k - Suc d) (words q)" using assms(2) Suc.prems stops_at_mono by blast
        show "k - Suc d \<le> 2" using assms(4) by simp
      qed
    qed (use Suc in simp)
  qed (use assms(1) in simp)
  from this [of "k - j"] assms(3) show ?thesis by simp
qed

lemma loop_level:
  assumes "parse_cast_expression P p = Parsed x q0" and "spins (binary_round P (max 3 k - 3)) x q0 r q"
    and "words q = ws" and "stops k ws" and "k \<le> 12"
  shows "level_parser P k p = Parsed r q"
proof -
  have "stops (max 3 k) ws" using stops_at_mono [OF assms(4)] by simp
  from binary_stop [OF assms(3) this] assms(5) have "binary_round P (max 3 k - 3) r q = Parsed (Inr r) q" by simp
  with assms(1,2) have "parse_binary_op P (max 3 k - 3) p = Parsed r q"
    by (simp add: parse_binary_op_def pbind_Parsed spins_break)
  then have "level_parser P (max 3 k) p = Parsed r q" using assms(5) by (cases "k \<le> 3") (auto simp: level_parser_def max_def)
  then show ?thesis
    using level_down [of P "max 3 k" p r q k] assms(3,4) by (cases "k \<le> 3") (simp_all add: max_def)
qed

lemma cast_level:
  assumes "parse_cast_expression P p = Parsed r q" and "words q = ws" and "stops k ws" and "k \<le> 13"
  shows "level_parser P k p = Parsed r q"
proof (cases "k = 13")
  case False
  then show ?thesis using loop_level [OF assms(1) spins_refl assms(2,3)] assms(4) by simp
qed (simp add: level_parser_def assms(1))

section \<open>First words\<close>

definition starts :: "string set \<Rightarrow> word \<Rightarrow> bool" where
  "starts T w \<longleftrightarrow>
     (case w of (k, s) \<Rightarrow>
        k = K_Identifier \<and> plain_name T s \<or> (k = K_IntConstant \<or> k = K_CharConstant) \<and> s \<noteq> '')'' \<or>
        k = K_Punctuator \<and> (s = ''('' \<or> s \<in> fst ` set prefix_ops))"

lemma prefix_op_facts: "op \<in> fst ` set prefix_ops \<Longrightarrow> op \<notin> {'')'', ''{'', ''(''}"
proof -
  have l: "list_all (\<lambda>op. op \<notin> {'')'', ''{'', ''(''}) (map fst prefix_ops)" by code_simp
  assume "op \<in> fst ` set prefix_ops"
  then have "op \<in> set (map fst prefix_ops)" by (simp only: set_map)
  from bspec [OF l [unfolded list_all_iff] this] show "op \<notin> {'')'', ''{'', ''(''}" .
qed

lemma wrap_starts: "ws = w # us \<Longrightarrow> starts T w \<Longrightarrow> \<exists>v vs. wrap b ws @ x = v # vs \<and> starts T v"
  by (cases b) (auto simp: wrap_def starts_def)

lemma body_starts: "plain T e \<Longrightarrow> \<exists>w ws. body e = w # ws \<and> starts T w \<and> (13 \<le> rank e \<longrightarrow> w \<noteq> pw ''('')"
proof (induction e)
  case (E_Prefix op a)
  then have "op \<in> fst ` set prefix_ops" by simp
  with prefix_op_facts [OF this] show ?case by (simp add: starts_def)
next
  case (E_Binary op a b)
  then obtain w ws where "body a = w # ws" "starts T w" by auto
  from wrap_starts [OF this] show ?case using binary_rank_le(1) [of op] by simp
next
  case (E_Cond c a b)
  then obtain w ws where "body c = w # ws" "starts T w" by auto
  from wrap_starts [OF this] show ?case by simp
next
  case (E_Assign op a b)
  then obtain w ws where "body a = w # ws" "starts T w" by auto
  from wrap_starts [OF this] show ?case by simp
next
  case (E_Comma a b)
  then obtain w ws where "body a = w # ws" "starts T w" by auto
  from wrap_starts [OF this] show ?case by simp
qed (fastforce simp: starts_def)+

lemma spell_starts: "plain T e \<Longrightarrow> \<exists>w ws. spell k e = w # ws \<and> starts T w"
  using body_starts [of T e] wrap_starts [of "body e" _ _ T "rank e < k" "[]"] by (auto simp: spell_def)

lemma starts_no_type:
  assumes "words p = w # ws" and "starts (typedef_names p) w"
  shows "\<not> is_type_specifier p" "\<not> is_type_qualifier p" "\<not> at_text '')'' p" "w \<noteq> pw ''{''"
proof -
  obtain k s where w: "w = (k, s)" by (cases w)
  note c = assms(1) [unfolded w]
  from assms(2) prefix_op_facts [of s]
  show "\<not> is_type_specifier p" "\<not> is_type_qualifier p" "\<not> at_text '')'' p" "w \<noteq> pw ''{''"
    using words_current [OF c]
    by (auto simp: w is_type_specifier_def is_type_qualifier_def at_words [OF c] starts_def plain_name_def)
qed

section \<open>Names, constants and parentheses\<close>

lemma made_ahead: "arena_inv (p_arena p) \<Longrightarrow> made (ahead p i) n e r q \<Longrightarrow> made p (i + n) e r q"
  using moved_trans [OF moved_ahead [of p "{}" i], of n "nodes e" "slots e" q] by (simp add: made_def mark_def)

lemma ahead_made: "made p n e r q \<Longrightarrow> made p (n + j) e r (ahead q j)"
  using moved_trans [OF _ moved_ahead [OF moved_inv, of "{}" p n "nodes e" "slots e" q "{}" j]]
  by (simp add: made_def mark_def)

lemma made_words: "made p n e r q \<Longrightarrow> words q = drop n (words p)"
  using moved_words [of "{}" p n "nodes e" "slots e" q] by (simp add: made_def)

lemma primary_atom:
  assumes "words p = (k, s) # ws" and "k \<in> {K_IntConstant, K_CharConstant} \<or> k = K_Identifier \<and> plain_name T s"
  shows "parse_primary_expression P p = parse_atom P p"
proof -
  have t: "''typeof'' \<in> set type_specifier_words" "''__typeof__'' \<in> set type_specifier_words"
    by (simp_all add: type_specifier_words_def)
  have "k = K_IntConstant \<or> k = K_CharConstant \<or>
      k = K_Identifier \<and> \<not> is_builtin s \<and> s \<noteq> ''typeof'' \<and> s \<noteq> ''__typeof__'' \<and> s \<noteq> ''__extension__''"
    using assms(2) t unfolding plain_name_def by blast
  then show ?thesis
    using words_current [OF assms(1)]
    by (elim disjE) (simp_all add: parse_primary_expression_def pif_words [OF assms(1)] at_words [OF assms(1)])
qed

lemma leaf_reads:
  assumes "roomy p 1 0" and "kd < 65536" and "d < 4294967296"
  shows "\<exists>q. leaf kd d p = Parsed (mark p) q \<and> moved {} p 0 1 0 q \<and> node_is (p_arena q) (mark p) kd d NULL NULL"
  using alloc_node_moved [of p 0 0 kd d NULL NULL] assms by simp

lemma constant_reads:
  assumes "words p = (k, s) # ws" and "k = K_IntConstant \<and> e = E_Num s \<or> k = K_CharConstant \<and> e = E_Char s" and "roomy p 1 0"
  shows "reads (parse_primary_expression P) p 1 e"
proof -
  define kd :: nat where "kd = (if k = K_IntConstant then 61 else 62)"
  define d where "d = (if k = K_IntConstant then int_constant_value s else char_constant_value s)"
  have "roomy (ahead p 1) 1 0" "kd < 65536" "d < 4294967296" using assms(3) by (simp_all add: kd_def d_def)
  from leaf_reads [OF this] obtain q where
    q: "leaf kd d (ahead p 1) = Parsed (mark p) q" "moved {} (ahead p 1) 0 1 0 q" "node_is (p_arena q) (mark p) kd d NULL NULL"
    unfolding mark_def ahead_simps by blast
  have "parse_primary_expression P p = Parsed (mark p) q"
    using primary_atom [OF assms(1)] assms(2) q(1) words_current [OF assms(1)]
    by (auto simp: parse_atom_def pbind_def look_words [OF assms(1)] p_advance_words [OF assms(1)] kd_def d_def)
  moreover have "made (ahead p 1) 0 e (mark p) q"
    using q(2,3) moved_mark [OF q(2)] assms(2) by (auto simp: made_def mark_def kd_def d_def)
  ultimately show ?thesis using made_ahead [OF roomy_inv [OF assms(3)]] unfolding reads_def by fastforce
qed

lemma name_reads:
  assumes "words p = (K_Identifier, s) # ws" and "plain_name T s" and "roomy p 1 (pool_slots (length s))"
  shows "reads (parse_primary_expression P) p 1 (E_Name s)"
proof -
  have t: "s \<noteq> []" "utf8_ok (str_bytes s)" "length s < 2 ^ 31" "\<not> is_builtin s"
    using assms(2) by (simp_all add: plain_name_def plain_text_def)
  from store_text_moved [of "ahead p 1" 1 s 0] assms(3) t obtain off p1 where
    p1: "store_text s (ahead p 1) = Parsed off p1" "moved {} (ahead p 1) 0 0 (pool_slots (length s)) p1"
    "stored (p_arena p1) off s" "off < 2 ^ 32" by auto
  have "roomy p1 1 0" using moved_room [OF p1(2), of 1 0] assms(3) by simp
  from leaf_reads [OF this, of 60 off] p1(4) obtain q where
    q: "leaf 60 off p1 = Parsed (mark p1) q" "moved {} p1 0 1 0 q" "node_is (p_arena q) (mark p1) 60 off NULL NULL" by auto
  have m: "mark p1 = mark p" using moved_mark [OF p1(2)] by (simp add: mark_def)
  have "parse_primary_expression P p = Parsed (mark p) q"
    using primary_atom [OF assms(1)] assms(2) q(1) p1(1) words_current [OF assms(1)] t(4)
    by (simp add: parse_atom_def name_node_def pbind_def look_words [OF assms(1)] p_advance_words [OF assms(1)]
        current_text_words [OF assms(1)] m)
  moreover have "made (ahead p 1) 0 (E_Name s) (mark p) q"
    using q(3) moved_trans [OF p1(2) q(2)] moved_mark [OF q(2)] moved_stored [OF q(2) p1(3)] m
    by (auto simp: made_def mark_def)
  ultimately show ?thesis using made_ahead [OF roomy_inv [OF assms(3)]] unfolding reads_def by fastforce
qed

lemma closing:
  assumes "reads (P N_Expression) (ahead p 1) m e" and "drop (Suc m) (words p) = pw s # rest" and "arena_inv (p_arena p)"
  shows "\<exists>r q. P N_Expression (ahead p 1) = Parsed r q \<and> words q = pw s # rest \<and> expect s q = Parsed () (ahead q 1) \<and>
    made p (m + 2) e r (ahead q 1)"
proof -
  obtain r q where q: "P N_Expression (ahead p 1) = Parsed r q" "made (ahead p 1) m e r q"
    using assms(1) by (auto simp: reads_def)
  have w: "words q = pw s # rest" using made_words [OF q(2)] assms(2) by simp
  have "made p (m + 2) e r (ahead q 1)" using ahead_made [OF made_ahead [OF assms(3) q(2)], of 1] by simp
  with q(1) w expect_words [OF w] show ?thesis by blast
qed

lemma cast_parens:
  assumes "reads (P N_Expression) (ahead p 1) m e" and "words p = pw ''('' # w # ws" and "starts (typedef_names p) w"
    and "drop (Suc m) (words p) = pw '')'' # rest" and "arena_inv (p_arena p)"
  shows "reads (parse_cast_expression P) p (m + 2) e"
proof -
  from closing [where P = P and p = p, OF assms(1,4,5)] obtain r q where
    q: "P N_Expression (ahead p 1) = Parsed r q" "expect '')'' q = Parsed () (ahead q 1)" "made p (m + 2) e r (ahead q 1)" by blast
  have w: "words (ahead p 1) = w # ws" using assms(2) by simp
  have "parse_cast_expression P p = Parsed r (ahead q 1)"
    using starts_no_type [OF w] assms(3) q(1,2)
    by (simp del: One_nat_def add: parse_cast_expression_def skip_words_punct [OF assms(2)] pbind_def pif_words [OF w] parenthesised_def pret_def)
  with q(3) show ?thesis by (auto simp: reads_def)
qed

lemma primary_parens:
  assumes "reads (P N_Expression) (ahead p 1) m e" and "words p = pw ''('' # w # ws" and "starts (typedef_names p) w"
    and "drop (Suc m) (words p) = pw '')'' # rest" and "arena_inv (p_arena p)"
  shows "reads (parse_primary_expression P) p (m + 2) e"
proof -
  from closing [where P = P and p = p, OF assms(1,4,5)] obtain r q where
    q: "P N_Expression (ahead p 1) = Parsed r q" "expect '')'' q = Parsed () (ahead q 1)" "made p (m + 2) e r (ahead q 1)" by blast
  have w: "words (ahead p 1) = w # ws" using assms(2) by simp
  obtain k s where ks: "w = (k, s)" by (cases w)
  have "\<not> peek_punct ''{'' p"
    using words_peek [of p "pw ''(''" k s ws] assms(2) starts_no_type(4) [OF w] assms(3) ks by (auto simp: peek_punct_def)
  then have "parse_primary_expression P p = Parsed r (ahead q 1)"
    using q(1,2) words_current [OF assms(2)]
    by (simp del: One_nat_def add: parse_primary_expression_def pif_words [OF assms(2)] at_words [OF assms(2)] parse_atom_def pbind_def
        look_words [OF assms(2)] p_advance_words [OF assms(2)] pret_def)
  with q(3) show ?thesis by (auto simp: reads_def)
qed

section \<open>Putting nodes together\<close>

lemma made_facts:
  assumes "made p m a r q"
  shows "Suc r = mark q" "mark q = mark p + nodes a" "words q = drop m (words p)" "typedef_names q = typedef_names p"
    "arena_inv (p_arena q)" "tokens_left q = tokens_left p - m" "mark p \<le> r"
  using assms moved_mark [of "{}" p m "nodes a" "slots a" q] moved_words [of "{}" p m "nodes a" "slots a" q]
    moved_typedefs [of "{}" p m "nodes a" "slots a" q] moved_inv [of "{}" p m "nodes a" "slots a" q]
    moved_left [of "{}" p m "nodes a" "slots a" q] built_least [of "p_arena q" "mark p" r NULL a]
  by (simp_all add: made_def)

lemma made_room: "made p m a r q \<Longrightarrow> roomy p (nodes a + k) (slots a + s) \<Longrightarrow> roomy q k s"
  by (auto simp: made_def dest: moved_room)

lemma made_kept: "made p m a r q \<Longrightarrow> moved {} q j k s q' \<Longrightarrow> built (p_arena q') (mark p) r NULL a"
  unfolding made_def by (elim conjE, erule built_frame(1)) (auto simp: moved_get moved_stored)

lemma made_then:
  "made p m a r q \<Longrightarrow> moved {} q j k s q' \<Longrightarrow> nodes e = nodes a + k \<Longrightarrow> slots e = slots a + s \<Longrightarrow>
     Suc x = mark q' \<Longrightarrow> built (p_arena q') (mark p) x NULL e \<Longrightarrow> made p (m + j) e x q'"
  unfolding made_def using moved_trans by fastforce

lemma made_moved: "made p m a r q \<Longrightarrow> moved {} p m (nodes a) (slots a) q"
  by (simp add: made_def)

text \<open>The new root over one tree.\<close>

lemma made_over:
  assumes "made p m a r q" and "roomy q 1 0" and "kd < 65536" and "d < 4294967296"
    and "nodes e = Suc (nodes a)" and "slots e = slots a"
    and "\<And>A x. node_is A x kd d r NULL \<Longrightarrow> built A (mark p) r NULL a \<Longrightarrow> r < x \<Longrightarrow> built A (mark p) x NULL e"
  shows "\<exists>x q'. alloc_node kd d NULL r NULL q = Parsed x q' \<and> made p m e x q'"
proof -
  note f = made_facts [OF assms(1)]
  have "r < 4294967296" using roomy_small [OF assms(2), of r] f(1) by simp
  then obtain q' where q': "alloc_node kd d NULL r NULL q = Parsed (mark q) q'" "moved {} q 0 1 0 q'"
      "node_is (p_arena q') (mark q) kd d r NULL"
    using alloc_node_moved [of q 0 0 kd d r NULL] assms(2,3,4) by auto
  have "built (p_arena q') (mark p) (mark q) NULL e"
    using assms(7) [OF q'(3) made_kept [OF assms(1) q'(2)]] f(1) by simp
  then have "made p (m + 0) e (mark q) q'"
    using made_then [OF assms(1) q'(2)] assms(5,6) moved_mark [OF q'(2)] by simp
  with q'(1) show ?thesis by auto
qed

text \<open>A second tree after the first, and the new root over both.\<close>

lemma made_both:
  assumes "made p m a y q" and "made q j b z q1" and "roomy q1 1 0" and "kd < 65536" and "d < 4294967296"
    and "nodes e = Suc (nodes a + nodes b)" and "slots e = slots a + slots b"
    and "\<And>A x. node_is A x kd d y z \<Longrightarrow> built A (mark p) y NULL a \<Longrightarrow> built A (Suc y) z NULL b \<Longrightarrow> z < x \<Longrightarrow>
      built A (mark p) x NULL e"
  shows "\<exists>x q'. alloc_node kd d NULL y z q1 = Parsed x q' \<and> made p (m + j) e x q'"
proof -
  note f = made_facts [OF assms(1)] and g = made_facts [OF assms(2)]
  have "y < 4294967296" "z < 4294967296" using roomy_small [OF assms(3), of y] roomy_small [OF assms(3), of z] f(1) g(1,2) by simp_all
  then obtain q' where q': "alloc_node kd d NULL y z q1 = Parsed (mark q1) q'" "moved {} q1 0 1 0 q'"
      "node_is (p_arena q') (mark q1) kd d y z"
    using alloc_node_moved [of q1 0 0 kd d y z] assms(3,4,5) by auto
  note t = moved_trans [OF made_moved [OF assms(2)] q'(2)]
  have "built (p_arena q') (mark p) (mark q1) NULL e"
    using assms(8) [OF q'(3) made_kept [OF assms(1) t]] made_kept [OF assms(2) q'(2)] f(1) g(1) by simp
  then have "made p (m + (j + 0)) e (mark q1) q'"
    using made_then [OF assms(1) t] assms(6,7) moved_mark [OF q'(2)] by simp
  with q'(1) show ?thesis by auto
qed

section \<open>Readable trees\<close>

definition readable :: "cexpr \<Rightarrow> bool" where
  "readable e \<longleftrightarrow>
     (\<forall>n p k rest. k \<le> 13 \<longrightarrow> length (spell k e) \<le> n \<longrightarrow> words p = spell k e @ rest \<longrightarrow> stops k rest \<longrightarrow>
        plain (typedef_names p) e \<longrightarrow> roomy p (nodes e) (slots e) \<longrightarrow>
        reads (level_parser (parse_nt n) k) p (length (spell k e)) e)"

text \<open>Without parentheses, at the levels where none are needed.\<close>

definition readable_body :: "cexpr \<Rightarrow> bool" where
  "readable_body e \<longleftrightarrow>
     (\<forall>n p k rest. k \<le> 13 \<longrightarrow> k \<le> rank e \<longrightarrow> length (body e) \<le> n \<longrightarrow> words p = body e @ rest \<longrightarrow> stops k rest \<longrightarrow>
        plain (typedef_names p) e \<longrightarrow> roomy p (nodes e) (slots e) \<longrightarrow>
        reads (level_parser (parse_nt n) k) p (length (body e)) e)"

definition level_nt :: "nat \<Rightarrow> nonterm" where
  "level_nt k =
     (if k = 0 then N_Expression else if k = 1 then N_Assignment else if k = 2 then N_Conditional
      else if k \<le> 12 then N_BinaryOp (k - 3) else N_Cast)"

lemma parse_nt_level: "parse_nt (Suc n) (level_nt k) = level_parser (parse_nt n) k"
  by (simp add: level_nt_def level_parser_def)

lemma reads_nt:
  assumes "readable e" and "k \<le> 13" and "length (spell k e) < n" and "words p = spell k e @ rest" and "stops k rest"
    and "plain (typedef_names p) e" and "roomy p K S" and "nodes e \<le> K" and "slots e \<le> S"
  shows "reads (parse_nt n (level_nt k)) p (length (spell k e)) e"
proof -
  obtain m where "n = Suc m" using assms(3) by (cases n) auto
  with assms room_less [OF assms(7-9)] show ?thesis unfolding readable_def by (simp add: parse_nt_level del: parse_nt.simps)
qed

lemma spell_parens: "rank e < k \<Longrightarrow> spell k e = pw ''('' # body e @ [pw '')'']"
  by (simp add: spell_def wrap_def)

lemma spell_body: "k \<le> rank e \<Longrightarrow> spell k e = body e"
  by (simp add: spell_def wrap_def)

lemma stops_close: "s \<in> {'')'', '']'', '':''} \<Longrightarrow> stops k (pw s # r)"
proof -
  have "list_all (\<lambda>s. continues (pw s) = None) ['')'', '']'', '':'']" by code_simp
  then show "s \<in> {'')'', '']'', '':''} \<Longrightarrow> stops k (pw s # r)" by (auto simp: stops_def)
qed

lemma inside_parens:
  assumes "readable_body e" and "length (body e) + 2 \<le> n" and "words p = pw ''('' # body e @ pw '')'' # rest"
    and "plain (typedef_names p) e" and "roomy p (nodes e) (slots e)"
  shows "reads (parse_nt n N_Expression) (ahead p 1) (length (body e)) e"
proof -
  obtain m where m: "n = Suc m" using assms(2) by (cases n) auto
  have "reads (level_parser (parse_nt m) 0) (ahead p 1) (length (body e)) e"
    using assms m stops_close [of "'')''" 0 rest] unfolding readable_body_def by simp
  then show ?thesis using parse_nt_level [of m 0] m by (simp add: level_nt_def del: parse_nt.simps)
qed

lemma parens_read:
  assumes "readable_body e" and "length (body e) + 2 \<le> n" and "words p = pw ''('' # body e @ pw '')'' # rest"
    and "plain (typedef_names p) e" and "roomy p (nodes e) (slots e)"
  shows "reads (parse_cast_expression (parse_nt n)) p (length (body e) + 2) e"
    "reads (parse_primary_expression (parse_nt n)) p (length (body e) + 2) e"
proof -
  obtain w ws where w: "body e = w # ws" "starts (typedef_names p) w" using body_starts [OF assms(4)] by blast
  have a: "words p = pw ''('' # w # ws @ pw '')'' # rest" using assms(3) w(1) by simp
  have d: "drop (Suc (length (body e))) (words p) = pw '')'' # rest" using assms(3) by simp
  show "reads (parse_cast_expression (parse_nt n)) p (length (body e) + 2) e"
    by (rule cast_parens [where P = "parse_nt n" and p = p, OF inside_parens [OF assms] a w(2) d roomy_inv [OF assms(5)]])
  show "reads (parse_primary_expression (parse_nt n)) p (length (body e) + 2) e"
    by (rule primary_parens [where P = "parse_nt n" and p = p, OF inside_parens [OF assms] a w(2) d roomy_inv [OF assms(5)]])
qed

lemma reads_down:
  assumes "reads (parse_cast_expression P) p m e" and "drop m (words p) = rest" and "stops k rest" and "k \<le> 13"
  shows "reads (level_parser P k) p m e"
proof -
  obtain r q where q: "parse_cast_expression P p = Parsed r q" "made p m e r q" using assms(1) by (auto simp: reads_def)
  have "words q = rest" using made_facts(3) [OF q(2)] assms(2) by simp
  from cast_level [OF q(1) this assms(3,4)] q(2) show ?thesis by (auto simp: reads_def)
qed

lemma readable_if_body: "readable_body e \<Longrightarrow> readable e"
  unfolding readable_def
proof (intro allI impI)
  fix n p k rest
  assume a: "readable_body e" "k \<le> 13" "length (spell k e) \<le> n" "words p = spell k e @ rest" "stops k rest"
    "plain (typedef_names p) e" "roomy p (nodes e) (slots e)"
  show "reads (level_parser (parse_nt n) k) p (length (spell k e)) e"
  proof (cases "k \<le> rank e")
    case True
    with a show ?thesis unfolding readable_body_def by (simp add: spell_body)
  next
    case False
    then have s: "spell k e = pw ''('' # body e @ [pw '')'']" by (simp add: spell_parens)
    have "reads (parse_cast_expression (parse_nt n)) p (length (body e) + 2) e"
      using parens_read(1) [OF a(1) _ _ a(6,7), of n rest] a(3,4) s by simp
    from reads_down [OF this _ a(5,2)] a(4) s show ?thesis by simp
  qed
qed

section \<open>Postfix expressions\<close>

text \<open>A postfix expression is read by the primary expression it starts with and rounds of the loop.\<close>

definition postfix_run :: "nonterms \<Rightarrow> parser \<Rightarrow> nat \<Rightarrow> cexpr \<Rightarrow> bool" where
  "postfix_run P p m e \<longleftrightarrow>
     (\<exists>x q0 r q. parse_primary_expression P p = Parsed x q0 \<and> spins (postfix_round P) x q0 r q \<and> made p m e r q)"

lemma postfix_start: "reads (parse_primary_expression P) p m e \<Longrightarrow> postfix_run P p m e"
  unfolding reads_def postfix_run_def by (elim exE conjE) (intro exI conjI, assumption, rule spins_refl, assumption)

lemma postfix_more:
  assumes "postfix_run P p m a" and "0 < j" and "m + j \<le> length (words p)"
    and "\<And>r q. made p m a r q \<Longrightarrow> \<exists>x q'. postfix_round P r q = Parsed (Inl x) q' \<and> made p (m + j) e x q'"
  shows "postfix_run P p (m + j) e"
proof -
  obtain x q0 r q where a: "parse_primary_expression P p = Parsed x q0" "spins (postfix_round P) x q0 r q" "made p m a r q"
    using assms(1) by (auto simp: postfix_run_def)
  obtain y q' where y: "postfix_round P r q = Parsed (Inl y) q'" "made p (m + j) e y q'" using assms(4) [OF a(3)] by blast
  have "tokens_left q' < tokens_left q"
    using made_facts(6) [OF a(3)] made_facts(6) [OF y(2)] assms(2,3) by (simp add: words_tokens_left)
  from spins_step [OF a(2) y(1) this] a(1) y(2) show ?thesis by (auto simp: postfix_run_def)
qed

lemma postfix_reads:
  assumes "postfix_run P p m e" and "drop m (words p) = rest" and "stops 13 rest"
  shows "reads (parse_postfix_expression P) p m e"
proof -
  obtain x q0 r q where a: "parse_primary_expression P p = Parsed x q0" "spins (postfix_round P) x q0 r q" "made p m e r q"
    using assms(1) by (auto simp: postfix_run_def)
  have "postfix_round P r q = Parsed (Inr r) q"
    using postfix_stop [of q rest] made_facts(3) [OF a(3)] assms(2,3) by simp
  with a show ?thesis by (auto simp: reads_def parse_postfix_expression_def pbind_def spins_break)
qed

definition prefix_nt :: "u32 \<Rightarrow> nonterm" where
  "prefix_nt c = (if c = 6 \<or> c = 7 \<or> c = 0 \<or> c = 1 then N_Unary else N_Cast)"

lemma prefix_operator_words:
  assumes "words p = (k, s) # ws"
  shows "prefix_operator p = (if k = K_Punctuator then map_option (\<lambda>c. (c, prefix_nt c)) (map_of prefix_ops s) else None)"
proof -
  have t: "map (\<lambda>(op, c). (op, (c, prefix_nt c))) prefix_ops =
      [(''++'', (6, N_Unary)), (''--'', (7, N_Unary)), (''+'', (0, N_Unary)), (''-'', (1, N_Unary)),
       (''!'', (2, N_Cast)), (''~'', (3, N_Cast)), (''&'', (4, N_Cast)), (''*'', (5, N_Cast))]"
    by (simp add: prefix_ops_def prefix_nt_def)
  have "map_of (map (\<lambda>(op, c). (op, (c, prefix_nt c))) prefix_ops) s =
      map_option (\<lambda>c. (c, prefix_nt c)) (map_of prefix_ops s)"
    by (simp add: map_of_map)
  then show ?thesis
    using words_current [OF assms] unfolding prefix_operator_def at_kind_def t by simp
qed

lemma unary_postfix:
  assumes "words p = (k, s) # ws" and "k \<noteq> K_Keyword" and "\<not> (k = K_Punctuator \<and> s \<in> fst ` set prefix_ops)"
  shows "parse_unary_expression P p = parse_postfix_expression P p"
proof -
  have "k = K_Punctuator \<Longrightarrow> map_of prefix_ops s = None" using assms(3) by (simp add: map_of_eq_None_iff)
  then have "prefix_operator p = None" by (simp add: prefix_operator_words [OF assms(1)])
  with assms(2) show ?thesis
    by (simp add: parse_unary_expression_def pif_words [OF assms(1)] at_words [OF assms(1)] pbind_def look_words [OF assms(1)])
qed

lemma cast_unary:
  assumes "words p = w # ws" and "w \<noteq> pw ''(''"
  shows "parse_cast_expression P p = parse_unary_expression P p"
proof -
  obtain k s where w: "w = (k, s)" by (cases w)
  with assms skip_words_punct [of p k s ws "''(''"] show ?thesis
    by (auto simp: parse_cast_expression_def pbind_def)
qed

text \<open>One round for each postfix operator.\<close>

lemma round_incdec:
  assumes "made p m a r q" and "words q = pw op # rest" and "op \<in> fst ` set postfix_ops" and "roomy q 1 0"
  shows "\<exists>x q'. postfix_round P r q = Parsed (Inl x) q' \<and> made p (m + 1) (E_Postfix op a) x q'"
proof -
  have o: "op = ''++'' \<and> op_code postfix_ops op = 6 \<or> op = ''--'' \<and> op_code postfix_ops op = 7"
    using assms(3) by (auto simp: postfix_ops_def op_code_def)
  then have c: "op_code postfix_ops op < 4294967296" by auto
  have "roomy (ahead q 1) 1 0" using assms(4) by simp
  from made_over [OF ahead_made [OF assms(1)] this, of 65 "op_code postfix_ops op" "E_Postfix op a"] c
  obtain x q' where q': "alloc_node 65 (op_code postfix_ops op) NULL r NULL (ahead q 1) = Parsed x q'"
    "made p (m + 1) (E_Postfix op a) x q'" by auto
  have "postfix_round P r q = Parsed (Inl x) q'"
    using o q'(1) by (auto simp: postfix_round_def pbind_def skip_words_punct [OF assms(2)] pret_def)
  with q'(2) show ?thesis by blast
qed

lemma round_member:
  assumes "made p m a r q" and "words q = pw (if arrow then ''->'' else ''.'') # (K_Identifier, s) # rest" and "plain_text s"
    and "roomy q 1 (pool_slots (length s))"
  shows "\<exists>x q'. postfix_round P r q = Parsed (Inl x) q' \<and> made p (m + 2) (E_Member arrow a s) x q'"
proof -
  let ?b = "if arrow then 2 ^ 31 else 0 :: nat"
  from store_text_moved [of "ahead q 2" 1 s 0] assms(3,4) obtain off q1 where
    q1: "store_text s (ahead q 2) = Parsed off q1" "moved {} (ahead q 2) 0 0 (pool_slots (length s)) q1"
    "stored (p_arena q1) off s" "off < 2 ^ 32" by (auto simp: plain_text_def)
  note f = made_facts [OF ahead_made [OF assms(1), of 2]]
  have room: "roomy q1 1 0" using moved_room [OF q1(2), of 1 0] assms(4) by simp
  have m: "mark q1 = mark q" using moved_mark [OF q1(2)] by (simp add: mark_def)
  have "take_bit 32 (or off ?b) = or off ?b"
    using q1(4) by (simp add: take_bit_or take_bit_nat_eq_self)
  then have d: "or off ?b < 4294967296" using take_bit_nat_less_exp [of 32 "or off ?b"] by simp
  have r: "r < 4294967296" using roomy_small [OF room, of r] f(1) m by (simp add: mark_def)
  obtain q' where q': "alloc_node 69 (or off ?b) NULL r NULL q1 = Parsed (mark q1) q'" "moved {} q1 0 1 0 q'"
      "node_is (p_arena q') (mark q1) 69 (or off ?b) r NULL"
    using alloc_node_moved [of q1 0 0 69 "or off ?b" r NULL] room d r by auto
  note t = moved_trans [OF q1(2) q'(2)]
  have "built (p_arena q') (mark p) r NULL a" "stored (p_arena q') off s"
    using made_kept [OF ahead_made [OF assms(1), of 2] t] moved_stored [OF q'(2) q1(3)] by simp_all
  moreover have "r < mark q1" using f(1) m by (simp add: mark_def)
  ultimately have "built (p_arena q') (mark p) (mark q1) NULL (E_Member arrow a s)"
    using q'(3) unfolding built.simps by blast
  then have "made p (m + 2 + (0 + 0)) (E_Member arrow a s) (mark q1) q'"
    using made_then [OF ahead_made [OF assms(1), of 2] t] moved_mark [OF q'(2)] by simp
  moreover have "postfix_round P r q = Parsed (Inl (mark q1)) q'"
  proof -
    have w: "words (ahead q 1) = (K_Identifier, s) # rest" using assms(2) by simp
    have a2: "ahead (ahead q 1) 1 = ahead q 2" by (simp add: ahead_def)
    have "member_access ?b r (ahead q 1) = Parsed (mark q1) q'"
      using q1(1) q'(1)
      by (simp del: One_nat_def add: member_access_def pif_words [OF w] at_words [OF w] pbind_def current_text_words [OF w]
          p_advance_words [OF w] a2)
    then show ?thesis
      using skip_words_punct [OF assms(2)] by (cases arrow) (simp_all add: postfix_round_def pbind_def pret_def)
  qed
  ultimately show ?thesis by auto
qed

lemma round_index:
  assumes "made p m a r q" and "readable b" and "words q = pw ''['' # body b @ pw '']'' # rest" and "length (body b) < n"
    and "plain (typedef_names q) b" and "roomy q (Suc (nodes b)) (slots b)"
  shows "\<exists>x q'. postfix_round (parse_nt n) r q = Parsed (Inl x) q' \<and> made p (m + (length (body b) + 2)) (E_Index a b) x q'"
proof -
  have sp: "spell 0 b = body b" by (simp add: spell_body)
  have "reads (parse_nt n (level_nt 0)) (ahead q 1) (length (spell 0 b)) b"
    using assms(3-6) sp stops_close [of "'']''" 0 rest] 
    by (intro reads_nt [OF assms(2), where rest = "pw '']'' # rest" and K = "Suc (nodes b)" and S = "slots b"]) simp_all
  then have b: "reads (parse_nt n N_Expression) (ahead q 1) (length (body b)) b" by (simp add: level_nt_def sp)
  from closing [where P = "parse_nt n" and p = q, OF b] assms(3) made_facts(5) [OF assms(1)] obtain z q1 where
    q1: "parse_nt n N_Expression (ahead q 1) = Parsed z q1" "expect '']'' q1 = Parsed () (ahead q1 1)"
    "made q (length (body b) + 2) b z (ahead q1 1)" by auto
  have "roomy (ahead q1 1) 1 0" using made_room [OF q1(3), of 1 0] assms(6) by simp
  from made_both [OF assms(1) q1(3) this, of 68 0 "E_Index a b"] obtain x q' where
    q': "alloc_node 68 0 NULL r z (ahead q1 1) = Parsed x q'" "made p (m + (length (body b) + 2)) (E_Index a b) x q'" by auto
  have "postfix_round (parse_nt n) r q = Parsed (Inl x) q'"
    using skip_words_punct [OF assms(3)] q1(1,2) q'(1) by (simp add: postfix_round_def pbind_def pret_def index_node_def)
  with q'(2) show ?thesis by blast
qed

section \<open>Calls\<close>

text \<open>One argument is parsed, wrapped and linked to the wrapper of the argument before.\<close>

lemma argument_step:
  assumes "readable b" and "words p = spell 1 b @ rest" and "length (spell 1 b) < n" and "stops 1 rest"
    and "plain (typedef_names p) b" and "roomy p (Suc (nodes b) + k) (slots b + s)"
    and "fst chain \<noteq> NULL \<Longrightarrow> snd chain < mark p \<and> node_is (p_arena p) (snd chain) 74 0 y NULL \<and> y < 4294967296"
  shows "\<exists>q w z. link_next chain (call_argument (parse_nt n)) p = Parsed (if fst chain = NULL then (w, w) else (fst chain, w)) q \<and>
    moved (if fst chain = NULL then {} else {snd chain}) p (length (spell 1 b)) (Suc (nodes b)) (slots b) q \<and>
    Suc w = mark q \<and> z < w \<and> node_is (p_arena q) w 74 0 z NULL \<and> built (p_arena q) (mark p) z NULL b \<and>
    (fst chain \<noteq> NULL \<longrightarrow> node_is (p_arena q) (snd chain) 74 0 y w)"
proof -
  have "reads (parse_nt n (level_nt 1)) p (length (spell 1 b)) b"
    using assms by (intro reads_nt [where rest = rest and K = "Suc (nodes b) + k" and S = "slots b + s"]) simp_all
  then obtain z q0 where z: "parse_nt n N_Assignment p = Parsed z q0" "made p (length (spell 1 b)) b z q0"
    by (auto simp: reads_def level_nt_def)
  note f = made_facts [OF z(2)]
  have room: "roomy q0 (Suc k) s" using made_room [OF z(2), of "Suc k" s] assms(6) by simp
  have "z < 4294967296" using roomy_small [OF room, of z] f(1) by simp
  then obtain q1 where q1: "alloc_node 74 0 NULL z NULL q0 = Parsed (mark q0) q1" "moved {} q0 0 1 0 q1"
      "node_is (p_arena q1) (mark q0) 74 0 z NULL"
    using alloc_node_moved [of q0 k s 74 0 z NULL] room by auto
  define w where "w = mark q0"
  have arg: "call_argument (parse_nt n) p = Parsed w q1" using z(1) q1(1) by (simp add: call_argument_def pbind_def w_def)
  have t: "moved {} p (length (spell 1 b)) (Suc (nodes b)) (slots b) q1"
    using moved_trans [OF made_moved [OF z(2)] q1(2)] by simp
  have bb: "built (p_arena q1) (mark p) z NULL b" by (rule made_kept [OF z(2) q1(2)])
  have w: "Suc w = mark q1" "z < w" "mark p < w" "0 < w" using f(1,7) moved_mark [OF q1(2)] by (simp_all add: w_def)
  show ?thesis
  proof (cases "fst chain = NULL")
    case True
    with arg t bb w q1(3) show ?thesis
      by (intro exI [of _ q1] exI [of _ w] exI [of _ z]) (simp add: link_next_def pbind_def link_siblings_def pret_def w_def)
  next
    case False
    note l = assms(7) [OF False]
    have g: "node_is (p_arena q1) (snd chain) 74 0 y NULL" using l moved_get [OF t, of "snd chain"] by simp
    have inv: "arena_inv (p_arena q1)" using moved_inv [OF q1(2)] .
    have "w < 4294967296" using roomy_small [OF room, of w] by (simp add: w_def)
    moreover have "node_wf (fresh_node 74 0 NULL y NULL)" using l by (intro fresh_node_wf) simp_all
    ultimately obtain q where q: "set_next (snd chain) w q1 = Parsed () q" "moved {snd chain} q1 0 0 0 q"
        "node_is (p_arena q) (snd chain) 74 0 y w"
      using set_next_moved [OF inv g, of w] by (auto simp: fresh_node_def)
    have ne: "snd chain \<noteq> w" "mark q = mark q1" using l w moved_mark [OF q(2)] by auto
    have "moved {snd chain} p (length (spell 1 b)) (Suc (nodes b)) (slots b) q"
      using moved_trans [OF moved_mono [OF t, of "{snd chain}"] q(2)] by simp
    moreover have "node_is (p_arena q) w 74 0 z NULL"
      using moved_get [OF q(2), of w] q1(3) w(1) ne by (simp add: w_def)
    moreover have "built (p_arena q) (mark p) z NULL b"
      using bb
    proof (rule built_frame(1))
      show "\<forall>i. mark p \<le> i \<and> i \<le> z \<longrightarrow> arena_get (p_arena q) i = arena_get (p_arena q1) i"
        using moved_get [OF q(2)] l w by auto
    qed (use moved_stored [OF q(2)] in blast)
    moreover have "link_next chain (call_argument (parse_nt n)) p = Parsed (fst chain, w) q"
      using arg False w(4) q(1) by (simp add: link_next_def pbind_def link_siblings_def pret_def)
    ultimately show ?thesis
      using False w(1,2) ne(2) q(3) by (intro exI [of _ q] exI [of _ w] exI [of _ z]) simp
  qed
qed

definition argument_round :: "nonterms \<Rightarrow> node_offset \<times> node_offset \<Rightarrow> ((node_offset \<times> node_offset) + (node_offset \<times> node_offset)) pm" where
  "argument_round P chain =
     pbind (link_next chain (call_argument P)) (\<lambda>chain.
     pif (at_text '')'') (break chain)
       (pbind (skip_punctuator '','') (\<lambda>b. if b then again chain else break chain)))"

abbreviation args_nodes :: "cexpr list \<Rightarrow> nat" where
  "args_nodes bs \<equiv> sum_list (map (\<lambda>b. Suc (nodes b)) bs)"

abbreviation args_slots :: "cexpr list \<Rightarrow> nat" where
  "args_slots bs \<equiv> sum_list (map slots bs)"

abbreviation args_words :: "cexpr list \<Rightarrow> word list" where
  "args_words bs \<equiv> commas (map (spell 1) bs)"

lemma stops_comma: "stops 1 (pw '','' # r)"
proof -
  have "continues (pw '','') = Some 0" by code_simp
  then show ?thesis by (simp add: stops_def)
qed

lemma arguments_loop:
  assumes "bs \<noteq> []" and "\<forall>b \<in> set bs. readable b" and "words p = args_words bs @ pw '')'' # rest" and "length (args_words bs) < n"
    and "\<forall>b \<in> set bs. plain (typedef_names p) b" and "roomy p (args_nodes bs) (args_slots bs)"
    and "fst chain \<noteq> NULL \<Longrightarrow> snd chain < mark p \<and> node_is (p_arena p) (snd chain) 74 0 y NULL \<and> y < 4294967296"
  shows "\<exists>q v l. (\<forall>j. length bs \<le> j \<longrightarrow> ploop j (argument_round (parse_nt n)) chain p =
        Parsed (if fst chain = NULL then (v, l) else (fst chain, l)) q) \<and>
    moved (if fst chain = NULL then {} else {snd chain}) p (length (args_words bs)) (args_nodes bs) (args_slots bs) q \<and>
    built_args (p_arena q) (mark p) (mark q) v bs \<and> mark p \<le> v \<and> v < mark q \<and>
    (fst chain \<noteq> NULL \<longrightarrow> node_is (p_arena q) (snd chain) 74 0 y v)"
  using assms
proof (induction bs arbitrary: p chain y)
  case (Cons b bs)
  let ?X = "if fst chain = NULL then {} else {snd chain}"
  show ?case
  proof (cases bs)
    case Nil
    have ws: "words p = spell 1 b @ pw '')'' # rest" "length (spell 1 b) < n" using Cons.prems(3,4) Nil by simp_all
    obtain q w z where q: "link_next chain (call_argument (parse_nt n)) p = Parsed (if fst chain = NULL then (w, w) else (fst chain, w)) q"
        "moved ?X p (length (spell 1 b)) (Suc (nodes b)) (slots b) q" "Suc w = mark q" "z < w" "node_is (p_arena q) w 74 0 z NULL"
        "built (p_arena q) (mark p) z NULL b" "fst chain \<noteq> NULL \<longrightarrow> node_is (p_arena q) (snd chain) 74 0 y w"
      using argument_step [of b p "pw '')'' # rest" n 0 0 chain y] Cons.prems Nil ws stops_close [of "'')''" 1 rest] by auto
    have w: "words q = pw '')'' # rest" using moved_words [OF q(2)] ws by simp
    have r: "argument_round (parse_nt n) chain p = Parsed (Inr (if fst chain = NULL then (w, w) else (fst chain, w))) q"
      by (simp add: argument_round_def pbind_def q(1) pif_words [OF w] at_words [OF w] pret_def)
    have "ploop j (argument_round (parse_nt n)) chain p = Parsed (if fst chain = NULL then (w, w) else (fst chain, w)) q"
      if "length (b # bs) \<le> j" for j
      using that r by (cases j) (simp_all add: pbind_def pret_def)
    with q built_least [OF q(6)] Nil show ?thesis by (intro exI [of _ q] exI [of _ w]) auto
  next
    case (Cons c cs)
    have aw: "args_words (b # bs) = spell 1 b @ pw '','' # args_words bs" using Cons by simp
    have ws: "words p = spell 1 b @ pw '','' # args_words bs @ pw '')'' # rest" "length (spell 1 b) < n" "length (args_words bs) < n"
      using Cons.prems(3,4) aw by simp_all
    obtain q w z where q: "link_next chain (call_argument (parse_nt n)) p = Parsed (if fst chain = NULL then (w, w) else (fst chain, w)) q"
        "moved ?X p (length (spell 1 b)) (Suc (nodes b)) (slots b) q" "Suc w = mark q" "z < w" "node_is (p_arena q) w 74 0 z NULL"
        "built (p_arena q) (mark p) z NULL b" "fst chain \<noteq> NULL \<longrightarrow> node_is (p_arena q) (snd chain) 74 0 y w"
      using argument_step [of b p "pw '','' # args_words bs @ pw '')'' # rest" n "args_nodes bs" "args_slots bs" chain y]
        Cons.prems ws stops_comma by auto
    define chain' where "chain' = (if fst chain = NULL then (w, w) else (fst chain, w))"
    have w: "words q = pw '','' # args_words bs @ pw '')'' # rest" using moved_words [OF q(2)] ws by simp
    have r: "argument_round (parse_nt n) chain p = Parsed (Inl chain') (ahead q 1)"
      by (simp add: argument_round_def pbind_def q(1) pif_words [OF w] at_words [OF w] skip_words_punct [OF w] pret_def chain'_def)
    have c': "fst chain' \<noteq> NULL" "snd chain' = w" using q(4) by (auto simp: chain'_def)
    have m: "mark q = mark p + Suc (nodes b)" using moved_mark [OF q(2)] .
    have room: "roomy (ahead q 1) (args_nodes bs) (args_slots bs)"
      using moved_room [OF q(2), of "args_nodes bs" "args_slots bs"] Cons.prems(6) by simp
    have "z < 4294967296" using roomy_small [OF room, of z] q(3,4) by (simp add: mark_def)
    then have pre: "fst chain' \<noteq> NULL \<Longrightarrow> snd chain' < mark (ahead q 1) \<and>
        node_is (p_arena (ahead q 1)) (snd chain') 74 0 z NULL \<and> z < 4294967296"
      using q(3,5) c' by (simp add: mark_def)
    have mk: "mark (ahead q 1) = Suc w" using q(3) by (simp add: mark_def)
    have "\<exists>q2 v l. (\<forall>j. length bs \<le> j \<longrightarrow> ploop j (argument_round (parse_nt n)) chain' (ahead q 1) =
        Parsed (if fst chain' = NULL then (v, l) else (fst chain', l)) q2) \<and>
      moved (if fst chain' = NULL then {} else {snd chain'}) (ahead q 1) (length (args_words bs)) (args_nodes bs) (args_slots bs) q2 \<and>
      built_args (p_arena q2) (mark (ahead q 1)) (mark q2) v bs \<and> mark (ahead q 1) \<le> v \<and> v < mark q2 \<and>
      (fst chain' \<noteq> NULL \<longrightarrow> node_is (p_arena q2) (snd chain') 74 0 z v)"
      by (rule Cons.IH [OF _ _ _ _ _ room pre])
        (use Cons Cons.prems(2,5) w ws(3) moved_typedefs [OF q(2)] in simp_all)
    then obtain q2 v l where q2: "\<forall>j. length bs \<le> j \<longrightarrow> ploop j (argument_round (parse_nt n)) chain' (ahead q 1) = Parsed (fst chain', l) q2"
        "moved {w} (ahead q 1) (length (args_words bs)) (args_nodes bs) (args_slots bs) q2"
        "built_args (p_arena q2) (Suc w) (mark q2) v bs" "Suc w \<le> v" "v < mark q2" "node_is (p_arena q2) w 74 0 z v"
      unfolding if_not_P [OF c'(1)] c'(2) mk using c'(1) by blast
    have "ploop j (argument_round (parse_nt n)) chain p = Parsed (if fst chain = NULL then (w, l) else (fst chain, l)) q2"
      if "length (b # bs) \<le> j" for j
      using that r q2(1) by (cases j) (auto simp: pbind_def chain'_def)
    moreover have "moved ?X p (length (args_words (b # bs))) (args_nodes (b # bs)) (args_slots (b # bs)) q2"
    proof -
      have "moved {} q 1 0 0 (ahead q 1)" by (rule moved_ahead [OF moved_inv [OF q(2)]])
      then have "moved (insert w ?X) q 1 0 0 (ahead q 1)" by (rule moved_mono) simp
      from moved_trans [OF moved_trans [OF moved_mono [OF q(2)] this] moved_mono [OF q2(2)], of]
      have "moved (insert w ?X) p (length (spell 1 b) + 1 + length (args_words bs)) (Suc (nodes b) + 0 + args_nodes bs)
          (slots b + 0 + args_slots bs) q2" by blast
      then have "moved ?X p (length (spell 1 b) + 1 + length (args_words bs)) (Suc (nodes b) + 0 + args_nodes bs)
          (slots b + 0 + args_slots bs) q2" by (rule moved_mono) (use q(3) m in auto)
      then show ?thesis unfolding aw by (simp add: add.assoc)
    qed
    moreover have "built (p_arena q2) (mark p) z NULL b"
      using q(6)
    proof (rule built_frame(1))
      show "\<forall>i. mark p \<le> i \<and> i \<le> z \<longrightarrow> arena_get (p_arena q2) i = arena_get (p_arena q) i"
        using moved_get [OF q2(2)] q(4) mk by auto
    qed (use moved_stored [OF q2(2)] in auto)
    moreover have "fst chain \<noteq> NULL \<longrightarrow> node_is (p_arena q2) (snd chain) 74 0 y w"
      using q(7) moved_get [OF q2(2), of "snd chain"] Cons.prems(7) q(3) m mk by auto
    ultimately show ?thesis
      using q2(3-6) q(3,4) m mk moved_mark [OF q2(2)] by (intro exI [of _ q2] exI [of _ w] exI [of _ l]) auto
  qed
qed simp

lemma length_commas: "length wss \<le> Suc (length (commas wss))" if "\<forall>ws \<in> set wss. ws \<noteq> []"
  using that by (induction wss rule: commas.induct) auto

lemma spell_nonempty: "plain T b \<Longrightarrow> spell k b \<noteq> []"
  using spell_starts [of T b k] by auto

lemma arguments_read:
  assumes "\<forall>b \<in> set bs. readable b" and "words p = args_words bs @ pw '')'' # rest" and "length (args_words bs) < n"
    and "\<forall>b \<in> set bs. plain (typedef_names p) b" and "roomy p (args_nodes bs) (args_slots bs)"
  shows "\<exists>v q. parse_argument_expression_list (parse_nt n) p = Parsed v q \<and>
    moved {} p (length (args_words bs)) (args_nodes bs) (args_slots bs) q \<and>
    built_args (p_arena q) (mark p) (mark q) v bs \<and> (bs = [] \<longrightarrow> v = NULL) \<and> (bs \<noteq> [] \<longrightarrow> mark p \<le> v \<and> v < mark q)"
proof (cases bs)
  case Nil
  then have w: "words p = pw '')'' # rest" using assms(2) by simp
  have "moved {} p 0 0 0 p" using moved_ahead [OF roomy_inv [OF assms(5)], of "{}" 0] by simp
  with Nil show ?thesis
    by (intro exI [of _ NULL] exI [of _ p]) (simp add: parse_argument_expression_list_def pif_words [OF w] at_words [OF w] pret_def)
next
  case (Cons b cs)
  then have ne: "bs \<noteq> []" by simp
  obtain q v l where q: "\<forall>j. length bs \<le> j \<longrightarrow> ploop j (argument_round (parse_nt n)) (NULL, NULL) p = Parsed (v, l) q"
      "moved {} p (length (args_words bs)) (args_nodes bs) (args_slots bs) q"
      "built_args (p_arena q) (mark p) (mark q) v bs" "mark p \<le> v" "v < mark q"
    using arguments_loop [OF ne assms(1-5), of "(NULL, NULL)" 0] by auto
  have "\<exists>w ws. words p = w # ws \<and> starts (typedef_names p) w"
  proof -
    have "plain (typedef_names p) b" using assms(4) Cons by simp
    from spell_starts [OF this, of 1] show ?thesis using assms(2) Cons by (cases cs) auto
  qed
  then obtain w ws where w: "words p = w # ws" "starts (typedef_names p) w" by blast
  have "length bs \<le> Suc (length (args_words bs))"
    using length_commas [of "map (spell 1) bs"] assms(4) spell_nonempty by auto
  then have "length bs \<le> Suc (tokens_left p)" using assms(2) by (simp add: words_tokens_left)
  with q(1) have "prepeat (argument_round (parse_nt n)) (NULL, NULL) p = Parsed (v, l) q" by (simp add: prepeat_def del: ploop.simps)
  moreover have "(\<lambda>chain. pbind (link_next chain (call_argument (parse_nt n))) (\<lambda>chain.
          pif (at_text '')'') (break chain)
            (pbind (skip_punctuator '','') (\<lambda>b. if b then again chain else break chain)))) = argument_round (parse_nt n)"
    by (simp add: argument_round_def fun_eq_iff)
  ultimately have "parse_argument_expression_list (parse_nt n) p = Parsed v q"
    using starts_no_type(3) [OF w] by (simp add: parse_argument_expression_list_def pif_words [OF w(1)] pbind_def pret_def)
  with q ne show ?thesis by blast
qed

lemma op_code_postfix: "op_code postfix_ops op < 4294967296"
  by (simp add: op_code_def postfix_ops_def)

lemma built_root:
  assumes "built A lo x nx e" and "rank e = 14" and "\<not> indexed e" and "arena_inv A" and "x < 4294967296" and "nx < 4294967296"
  shows "\<exists>n. arena_get A x = Some n \<and> node_wf n"
proof -
  have wf: "node_wf (fresh_node k d NULL y nx)" if "k < 65536" "d < 4294967296" "y < x" for k d y
    using that assms(5,6) by (intro fresh_node_wf) simp_all
  have leaf: "node_wf (fresh_node k d NULL NULL nx)" if "k < 65536" "d < 4294967296" for k d
    using that assms(6) by (intro fresh_node_wf) simp_all
  have off: "off < 4294967296" if "stored A off s" for off s
    using that assms(4) by (auto simp: stored_def holds_bytes_def arena_inv_def)
  have arrow: "or off (if b then 2 ^ 31 else 0) < 4294967296" if "off < 4294967296" for off :: nat and b
  proof -
    have "take_bit 32 (or off (if b then 2 ^ 31 else 0)) = or off (if b then 2 ^ 31 else 0)"
      using that by (simp add: take_bit_or take_bit_nat_eq_self)
    then show ?thesis using take_bit_nat_less_exp [of 32 "or off (if b then 2 ^ 31 else 0)"] by simp
  qed
  show ?thesis
  proof (cases e)
    case (E_Name s)
    with assms(1) leaf [of 60] off show ?thesis by auto
  next
    case (E_Member b a s)
    with assms(1) obtain y off where o: "y < x" "stored A off s" "node_is A x 69 (or off (if b then 2 ^ 31 else 0)) y nx" by auto
    from wf [of 69, OF _ arrow [OF off [OF o(2)]] o(1)] o(3) show ?thesis by (intro exI conjI) simp_all
  qed (use assms(1-3) wf leaf op_code_postfix binary_rank_le in auto)
qed

lemma round_call:
  assumes "made p m a r q" and "rank a = 14" and "\<not> indexed a" and "\<forall>b \<in> set bs. readable b"
    and "words q = pw ''('' # args_words bs @ pw '')'' # rest" and "length (args_words bs) < n"
    and "\<forall>b \<in> set bs. plain (typedef_names q) b" and "roomy q (Suc (args_nodes bs)) (args_slots bs)"
  shows "\<exists>x q'. postfix_round (parse_nt n) r q = Parsed (Inl x) q' \<and> made p (m + (length (args_words bs) + 2)) (E_Call a bs) x q'"
proof -
  note f = made_facts [OF assms(1)]
  have ra: "roomy (ahead q 1) (args_nodes bs + 1) (args_slots bs + 0)" using assms(8) by simp
  have wa: "words (ahead q 1) = args_words bs @ pw '')'' # rest" using assms(5) by simp
  obtain v q1 where v: "parse_argument_expression_list (parse_nt n) (ahead q 1) = Parsed v q1"
      "moved {} (ahead q 1) (length (args_words bs)) (args_nodes bs) (args_slots bs) q1"
      "built_args (p_arena q1) (mark q) (mark q1) v bs" "bs = [] \<longrightarrow> v = NULL" "bs \<noteq> [] \<longrightarrow> mark q \<le> v \<and> v < mark q1"
    using arguments_read [OF assms(4) wa assms(6)] assms(7) room_less [OF ra] by (auto simp: mark_def)
  have w1: "words q1 = pw '')'' # rest" unfolding moved_words [OF v(2)] wa by simp
  have t1: "moved {} q (1 + length (args_words bs) + 1) (args_nodes bs) (args_slots bs) (ahead q1 1)"
    using moved_trans [OF moved_trans [OF moved_ahead [OF f(5)] v(2)] moved_ahead [OF moved_inv [OF v(2)], where n = 1]] by simp
  have r1: "roomy (ahead q1 1) 1 0" using moved_room [OF v(2) ra] by simp
  have m1: "mark q1 = mark q + args_nodes bs" using moved_mark [OF v(2)] by (simp add: mark_def)
  have vs: "v < 4294967296" using roomy_small [OF r1, of v] v(4,5) by (cases "bs = []") (auto simp: mark_def)
  have b1: "built (p_arena q1) (mark p) r NULL a" using made_kept [OF assms(1) t1] by simp
  have "\<exists>q2. (if v \<noteq> NULL then set_next r v else pret ()) (ahead q1 1) = Parsed () q2 \<and> moved {r} (ahead q1 1) 0 0 0 q2 \<and>
      built (p_arena q2) (mark p) r v a"
  proof (cases "v = NULL")
    case True
    have "moved {r} (ahead q1 1) 0 0 0 (ahead q1 1)" using moved_ahead [of "ahead q1 1" "{r}" 0] moved_inv [OF v(2)] by simp
    with True b1 show ?thesis by (intro exI [of _ "ahead q1 1"]) (simp add: pret_def)
  next
    case False
    have "r < 4294967296" using roomy_small [OF r1, of r] f(1) m1 by (simp add: mark_def)
    with built_root [OF b1 assms(2,3) moved_inv [OF v(2)]] obtain nd where
      g: "arena_get (p_arena (ahead q1 1)) r = Some nd" and wf: "node_wf nd" by auto
    obtain q2 where q2: "set_next r v (ahead q1 1) = Parsed () q2" "moved {r} (ahead q1 1) 0 0 0 q2"
        "arena_get (p_arena q2) r = Some (nd\<lparr>next_sibling := v\<rparr>)"
      using set_next_moved [OF _ g wf vs] moved_inv [OF v(2)] by auto
    have "built (p_arena q2) (mark p) r v a"
      by (rule built_relink [OF b1 assms(2,3)]) (use moved_get [OF q2(2)] moved_stored [OF q2(2)] g q2(3) f(1) m1 in \<open>auto simp: mark_def\<close>)
    with False q2 show ?thesis by auto
  qed
  then obtain q2 where q2: "(if v \<noteq> NULL then set_next r v else pret ()) (ahead q1 1) = Parsed () q2" "moved {r} (ahead q1 1) 0 0 0 q2"
      "built (p_arena q2) (mark p) r v a" by blast
  have m2: "mark q2 = mark q1" using moved_mark [OF q2(2)] by (simp add: mark_def)
  have r2: "roomy q2 (Suc 0) 0" using moved_room [OF q2(2), of 1 0] r1 by simp
  have "r < 4294967296" using roomy_small [OF r2, of r] f(1) m1 m2 by simp
  then obtain q' where q': "alloc_node 67 0 NULL r NULL q2 = Parsed (mark q2) q'" "moved {} q2 0 1 0 q'"
      "node_is (p_arena q') (mark q2) 67 0 r NULL"
    using alloc_node_moved [of q2 0 0 67 0 r NULL] r2 by auto
  have keep: "arena_get (p_arena q') i = arena_get (p_arena q1) i" if "i < mark q1" "i \<noteq> r" for i
    using moved_get [OF q'(2), of i] moved_get [OF q2(2), of i] that m2 by (simp add: mark_def)
  have st: "stored (p_arena q') off t" if "stored (p_arena q1) off t" for off t
    using moved_stored [OF q'(2)] moved_stored [OF q2(2)] that by simp
  have "built (p_arena q') (mark p) r v a"
    using q2(3) by (rule built_frame(1)) (use moved_get [OF q'(2)] moved_stored [OF q'(2)] f(1) m1 m2 in auto)
  moreover have "built_args (p_arena q') (Suc r) (mark q2) v bs"
    using v(3) unfolding f(1) m2 by (rule built_frame(2)) (use keep st f(1) in auto)
  moreover have "r < mark q2" using f(1) m1 m2 by simp
  ultimately have "built (p_arena q') (mark p) (mark q2) NULL (E_Call a bs)" using q'(3) by auto
  moreover have "moved {} p (m + (length (args_words bs) + 2)) (nodes (E_Call a bs)) (slots (E_Call a bs)) q'"
  proof -
    have "moved {r} q (length (args_words bs) + 2) (args_nodes bs + 1) (args_slots bs) q'"
      using moved_trans [OF moved_trans [OF moved_mono [OF t1] q2(2)] moved_mono [OF q'(2)]] by simp
    from moved_trans [OF moved_mono [OF made_moved [OF assms(1)]] this]
    have "moved {r} p (m + (length (args_words bs) + 2)) (nodes a + (args_nodes bs + 1)) (slots a + args_slots bs) q'" by simp
    then have "moved {} p (m + (length (args_words bs) + 2)) (nodes a + (args_nodes bs + 1)) (slots a + args_slots bs) q'"
      by (rule moved_mono) (use f(7) in auto)
    then show ?thesis by simp
  qed
  ultimately have "made p (m + (length (args_words bs) + 2)) (E_Call a bs) (mark q2) q'"
    using moved_mark [OF q'(2)] by (simp add: made_def)
  moreover have "postfix_round (parse_nt n) r q = Parsed (Inl (mark q2)) q'"
    using skip_words_punct [OF assms(5)] v(1) expect_words [OF w1] q2(1) q'(1)
    by (simp add: postfix_round_def pbind_def pret_def call_node_def)
  ultimately show ?thesis by blast
qed

section \<open>Postfix expressions are readable\<close>

definition postfix_readable :: "cexpr \<Rightarrow> bool" where
  "postfix_readable e \<longleftrightarrow>
     (\<forall>n p rest. length (body e) \<le> n \<longrightarrow> words p = body e @ rest \<longrightarrow> plain (typedef_names p) e \<longrightarrow>
        roomy p (nodes e) (slots e) \<longrightarrow> postfix_run (parse_nt n) p (length (body e)) e)"

lemma postfix_readableD:
  assumes "postfix_readable e" and "length (body e) \<le> n" and "words p = body e @ rest" and "plain (typedef_names p) e"
    and "roomy p K S" and "nodes e \<le> K" and "slots e \<le> S"
  shows "postfix_run (parse_nt n) p (length (body e)) e"
  using assms room_less [OF assms(5-7)] unfolding postfix_readable_def by blast

lemma postfix_readable_atoms: "postfix_readable (E_Name s)" "postfix_readable (E_Num s)" "postfix_readable (E_Char s)"
proof -
  show "postfix_readable (E_Name s)"
    unfolding postfix_readable_def using postfix_start [OF name_reads] by auto
  show "postfix_readable (E_Num s)" "postfix_readable (E_Char s)"
    unfolding postfix_readable_def using postfix_start [OF constant_reads] by auto
qed

lemma postfix_readable_more:
  assumes "postfix_readable a" and "body e = body a @ us" and "us \<noteq> []" and "nodes e = nodes a + k" and "slots e = slots a + t"
    and "\<And>T. plain T e \<Longrightarrow> plain T a"
    and "\<And>n p r q rest. made p (length (body a)) a r q \<Longrightarrow> words q = us @ rest \<Longrightarrow> length us \<le> n \<Longrightarrow>
      plain (typedef_names q) e \<Longrightarrow> roomy q k t \<Longrightarrow>
      \<exists>x q'. postfix_round (parse_nt n) r q = Parsed (Inl x) q' \<and> made p (length (body a) + length us) e x q'"
  shows "postfix_readable e"
  unfolding postfix_readable_def
proof (intro allI impI)
  fix n p rest
  assume a: "length (body e) \<le> n" "words p = body e @ rest" "plain (typedef_names p) e" "roomy p (nodes e) (slots e)"
  have "postfix_run (parse_nt n) p (length (body a)) a"
    using a assms(2,4,5,6) by (intro postfix_readableD [where rest = "us @ rest", OF assms(1) _ _ _ a(4)]) simp_all
  then have "postfix_run (parse_nt n) p (length (body a) + length us) e"
  proof (rule postfix_more)
    fix r q assume m: "made p (length (body a)) a r q"
    show "\<exists>x q'. postfix_round (parse_nt n) r q = Parsed (Inl x) q' \<and> made p (length (body a) + length us) e x q'"
      using assms(7) [OF m] made_facts(3,4) [OF m] made_room [OF m, of k t] a assms(2,4,5) by simp
  qed (use a(2) assms(2,3) in simp_all)
  then show "postfix_run (parse_nt n) p (length (body e)) e" using assms(2) by simp
qed

lemma postfix_readable_incdec:
  assumes "postfix_readable a"
  shows "postfix_readable (E_Postfix op a)"
proof (rule postfix_readable_more [OF assms(1), where us = "[pw op]" and k = "1" and t = "0"])
  fix n p r q rest
  assume "made p (length (body a)) a r q" "words q = ([pw op]) @ rest" "length ([pw op]) \<le> n"
    "plain (typedef_names q) (E_Postfix op a)" "roomy q (1) (0)"
  with round_incdec [of p "length (body a)" a r q op rest] show "\<exists>x q'. postfix_round (parse_nt n) r q = Parsed (Inl x) q' \<and>
      made p (length (body a) + length ([pw op])) (E_Postfix op a) x q'" by simp
qed simp_all

lemma postfix_readable_member:
  assumes "postfix_readable a"
  shows "postfix_readable (E_Member arrow a s)"
proof (rule postfix_readable_more [OF assms(1), where us = "[pw (if arrow then ''->'' else ''.''), (K_Identifier, s)]" and k = "1" and t = "pool_slots (length s)"])
  fix n p r q rest
  assume "made p (length (body a)) a r q" "words q = ([pw (if arrow then ''->'' else ''.''), (K_Identifier, s)]) @ rest" "length ([pw (if arrow then ''->'' else ''.''), (K_Identifier, s)]) \<le> n"
    "plain (typedef_names q) (E_Member arrow a s)" "roomy q (1) (pool_slots (length s))"
  with round_member [of p "length (body a)" a r q arrow s rest] show "\<exists>x q'. postfix_round (parse_nt n) r q = Parsed (Inl x) q' \<and>
      made p (length (body a) + length ([pw (if arrow then ''->'' else ''.''), (K_Identifier, s)])) (E_Member arrow a s) x q'" by simp
qed simp_all

lemma postfix_readable_index:
  assumes "postfix_readable a" and "readable b"
  shows "postfix_readable (E_Index a b)"
proof (rule postfix_readable_more [OF assms(1), where us = "pw ''['' # body b @ [pw '']'']" and k = "Suc (nodes b)" and t = "slots b"])
  fix n p r q rest
  assume "made p (length (body a)) a r q" "words q = (pw ''['' # body b @ [pw '']'']) @ rest" "length (pw ''['' # body b @ [pw '']'']) \<le> n"
    "plain (typedef_names q) (E_Index a b)" "roomy q (Suc (nodes b)) (slots b)"
  with round_index [of p "length (body a)" a r q b rest n] assms(2) show "\<exists>x q'. postfix_round (parse_nt n) r q = Parsed (Inl x) q' \<and>
      made p (length (body a) + length (pw ''['' # body b @ [pw '']''])) (E_Index a b) x q'" by simp
qed simp_all

lemma body_call: "body (E_Call a bs) = body a @ pw ''('' # args_words bs @ [pw '')'']"
  by (simp add: spell_def fun_eq_iff cong: map_cong)

lemma postfix_readable_call:
  assumes "postfix_readable a" and "\<forall>b \<in> set bs. readable b"
  shows "postfix_readable (E_Call a bs)"
proof (rule postfix_readable_more [OF assms(1) body_call, where k = "Suc (args_nodes bs)" and t = "args_slots bs"])
  fix n p r q rest
  assume "made p (length (body a)) a r q" "words q = (pw ''('' # args_words bs @ [pw '')'']) @ rest" "length (pw ''('' # args_words bs @ [pw '')'']) \<le> n"
    "plain (typedef_names q) (E_Call a bs)" "roomy q (Suc (args_nodes bs)) (args_slots bs)"
  with round_call [of p "length (body a)" a r q bs rest n] assms(2) show "\<exists>x q'. postfix_round (parse_nt n) r q = Parsed (Inl x) q' \<and>
      made p (length (body a) + length (pw ''('' # args_words bs @ [pw '')''])) (E_Call a bs) x q'" by simp
qed simp_all

lemma postfix_starts:
  "plain T e \<Longrightarrow> rank e = 14 \<Longrightarrow> \<exists>k s ws. body e = (k, s) # ws \<and> (k = K_Identifier \<or> k = K_IntConstant \<or> k = K_CharConstant)"
proof (induction e)
  case (E_Binary op a b)
  then show ?case using binary_rank_le(2) [of op] by simp
qed auto

lemma readable_body_postfix:
  assumes "postfix_readable e" and "rank e = 14"
  shows "readable_body e"
  unfolding readable_body_def
proof (intro allI impI)
  fix n p k rest
  assume a: "k \<le> 13" "length (body e) \<le> n" "words p = body e @ rest" "stops k rest" "plain (typedef_names p) e" "roomy p (nodes e) (slots e)"
  obtain kd s ws where w: "body e = (kd, s) # ws" "kd = K_Identifier \<or> kd = K_IntConstant \<or> kd = K_CharConstant"
    using postfix_starts [OF a(5) assms(2)] by blast
  have c: "words p = (kd, s) # ws @ rest" using a(3) w(1) by simp
  have "stops 13 rest" using stops_at_mono [OF a(4,1)] .
  with postfix_reads [OF postfix_readableD [OF assms(1) a(2,3,5,6)]] a(3)
  have "reads (parse_postfix_expression (parse_nt n)) p (length (body e)) e" by simp
  then have "reads (parse_cast_expression (parse_nt n)) p (length (body e)) e"
    using cast_unary [OF c] unary_postfix [OF c] w(2) by (auto simp: reads_def)
  from reads_down [OF this _ a(4,1)] a(3) show "reads (level_parser (parse_nt n) k) p (length (body e)) e" by simp
qed

section \<open>Prefix and binary expressions\<close>

lemma unary_reads:
  assumes "readable_body a" and "length (spell 13 a) \<le> n" and "words p = spell 13 a @ rest" and "stops 13 rest"
    and "plain (typedef_names p) a" and "roomy p (nodes a) (slots a)"
  shows "reads (parse_unary_expression (parse_nt n)) p (length (spell 13 a)) a"
proof (cases "13 \<le> rank a")
  case True
  obtain w ws where w: "body a = w # ws" "w \<noteq> pw ''(''" using body_starts [OF assms(5)] True by blast
  with assms(3) True have c: "words p = w # ws @ rest" by (simp add: spell_body)
  have "reads (level_parser (parse_nt n) 13) p (length (body a)) a"
    using assms True unfolding readable_body_def by (simp add: spell_body)
  then show ?thesis using cast_unary [OF c w(2)] True by (simp add: level_parser_def spell_body reads_def)
next
  case False
  then have s: "spell 13 a = pw ''('' # body a @ [pw '')'']" by (simp add: spell_parens)
  have c: "words p = pw ''('' # body a @ pw '')'' # rest" using assms(3) s by simp
  have "reads (parse_primary_expression (parse_nt n)) p (length (body a) + 2) a"
    using parens_read(2) [OF assms(1) _ c assms(5,6), of n] assms(2) s by simp
  from postfix_reads [OF postfix_start [OF this] _ assms(4)] c
  have "reads (parse_postfix_expression (parse_nt n)) p (length (body a) + 2) a" by simp
  moreover have "parse_unary_expression (parse_nt n) p = parse_postfix_expression (parse_nt n) p"
    using unary_postfix [OF c] prefix_op_facts [of "''(''"] by auto
  ultimately show ?thesis using s by (simp add: reads_def)
qed

lemma op_code_prefix: "op_code prefix_ops op < 4294967296"
  by (simp add: op_code_def prefix_ops_def)

lemma readable_body_prefix:
  assumes "readable_body a"
  shows "readable_body (E_Prefix op a)"
  unfolding readable_body_def
proof (intro allI impI)
  fix n p k rest
  let ?e = "E_Prefix op a"
  assume a: "k \<le> 13" "length (body ?e) \<le> n" "words p = body ?e @ rest" "stops k rest" "plain (typedef_names p) ?e"
    "roomy p (nodes ?e) (slots ?e)"
  have be: "body ?e = pw op # spell 13 a" by (simp add: spell_def)
  have c: "words p = pw op # spell 13 a @ rest" using a(3) unfolding be by simp
  have op: "op \<in> fst ` set prefix_ops" using a(5) by simp
  then obtain code where code: "map_of prefix_ops op = Some code" "code = op_code prefix_ops op"
    using map_of_eq_None_iff [of prefix_ops op] by (auto simp: op_code_def)
  have st: "stops 13 rest" using stops_at_mono [OF a(4,1)] .
  have len: "length (spell 13 a) < n" using a(2) unfolding be by simp
  have w1: "words (ahead p 1) = spell 13 a @ rest" using c by simp
  have "reads (parse_nt n (prefix_nt code)) (ahead p 1) (length (spell 13 a)) a"
  proof (cases "prefix_nt code = N_Unary")
    case True
    obtain m where m: "n = Suc m" using len by (cases n) auto
    with unary_reads [OF assms _ w1 st] len a(5,6) room_less [OF a(6), of "nodes a" "slots a"] True show ?thesis by simp
  next
    case False
    then have "prefix_nt code = level_nt 13" by (simp add: prefix_nt_def level_nt_def split: if_splits)
    with reads_nt [OF readable_if_body [OF assms] _ len w1 st, of "nodes ?e" "slots ?e"] a(5,6) show ?thesis by simp
  qed
  then obtain r q where q: "parse_nt n (prefix_nt code) (ahead p 1) = Parsed r q" "made (ahead p 1) (length (spell 13 a)) a r q"
    by (auto simp: reads_def)
  note m = made_ahead [OF roomy_inv [OF a(6)] q(2)]
  have "roomy q 1 0" using made_room [OF m, of 1 0] a(6) by simp
  from made_over [OF m this, of 65 code ?e] op_code_prefix code(2) obtain x q' where
    q': "alloc_node 65 code NULL r NULL q = Parsed x q'" "made p (1 + length (spell 13 a)) ?e x q'" by auto
  have "parse_unary_expression (parse_nt n) p = Parsed x q'"
    using q(1) q'(1) code(1)
    by (simp add: parse_unary_expression_def pif_words [OF c] at_words [OF c] pbind_def look_words [OF c]
        prefix_operator_words [OF c] p_advance_words [OF c])
  then have "reads (parse_cast_expression (parse_nt n)) p (length (body ?e)) ?e"
    using cast_unary [OF c] prefix_op_facts [OF op] q'(2) unfolding reads_def be by auto
  from reads_down [OF this _ a(4,1)] a(3) show "reads (level_parser (parse_nt n) k) p (length (body ?e)) ?e" by simp
qed

text \<open>The loop over binary operators gets to the root of a tree printed for a level of the loop or above.\<close>

definition binary_run :: "nonterms \<Rightarrow> nat \<Rightarrow> parser \<Rightarrow> nat \<Rightarrow> cexpr \<Rightarrow> bool" where
  "binary_run P k p m e \<longleftrightarrow>
     (\<exists>x q0 r q. parse_cast_expression P p = Parsed x q0 \<and> spins (binary_round P (k - 3)) x q0 r q \<and> made p m e r q)"

definition spinning :: "cexpr \<Rightarrow> bool" where
  "spinning e \<longleftrightarrow>
     (\<forall>n p k l rest. 3 \<le> k \<longrightarrow> k \<le> l \<longrightarrow> l \<le> 13 \<longrightarrow> length (spell l e) \<le> n \<longrightarrow> words p = spell l e @ rest \<longrightarrow> stops l rest \<longrightarrow>
        plain (typedef_names p) e \<longrightarrow> roomy p (nodes e) (slots e) \<longrightarrow> binary_run (parse_nt n) k p (length (spell l e)) e)"

lemma cast_run: "reads (parse_cast_expression P) p m e \<Longrightarrow> binary_run P k p m e"
  unfolding reads_def binary_run_def by (elim exE conjE) (intro exI conjI, assumption, rule spins_refl, assumption)

lemma spinning_simple:
  assumes "readable e" and "3 \<le> k" and "k \<le> l" and "l \<le> 13" and "13 \<le> rank e \<or> rank e < l" and "length (spell l e) \<le> n"
    and "words p = spell l e @ rest" and "stops l rest" and "plain (typedef_names p) e" and "roomy p (nodes e) (slots e)"
  shows "binary_run (parse_nt n) k p (length (spell l e)) e"
proof -
  have s: "spell l e = spell 13 e" using assms(4,5) by (auto simp: spell_def wrap_def)
  have "reads (level_parser (parse_nt n) 13) p (length (spell 13 e)) e"
    using assms stops_at_mono [OF assms(8,4)] unfolding readable_def s by blast
  then show ?thesis unfolding s by (intro cast_run) (simp add: level_parser_def)
qed

lemma spinning_other: "readable e \<Longrightarrow> 13 \<le> rank e \<or> rank e < 3 \<Longrightarrow> spinning e"
  unfolding spinning_def using spinning_simple by fastforce

lemma op_codes_small: "binary_code op < 4294967296" "op_code assign_ops op < 4294967296"
  by (simp_all add: binary_code_def binary_ops_def op_code_def assign_ops_def)

lemma readableD:
  assumes "readable e" and "k \<le> 13" and "length (spell k e) \<le> n" and "words p = spell k e @ rest" and "stops k rest"
    and "plain (typedef_names p) e" and "roomy p K S" and "nodes e \<le> K" and "slots e \<le> S"
  shows "\<exists>r q. level_parser (parse_nt n) k p = Parsed r q \<and> made p (length (spell k e)) e r q"
  using assms room_less [OF assms(7-9)] unfolding readable_def reads_def by blast

lemma reads_ntD:
  assumes "readable e" and "k \<le> 13" and "length (spell k e) < n" and "words p = spell k e @ rest" and "stops k rest"
    and "plain (typedef_names p) e" and "roomy p K S" and "nodes e \<le> K" and "slots e \<le> S"
  shows "\<exists>r q. parse_nt n (level_nt k) p = Parsed r q \<and> made p (length (spell k e)) e r q"
  using reads_nt [OF assms] by (simp add: reads_def)

lemma continues_binary: "0 < binary_rank op \<Longrightarrow> continues (pw op) = Some (2 + binary_rank op)"
  using binary_rank_other [of op] by (auto simp: continues_def)

text \<open>The wrapper of the two operands and the node of the operator.\<close>

lemma made_binary:
  assumes "made p m a r q" and "made q j b z q1" and "roomy q1 2 0"
  shows "\<exists>w q2 x q3. alloc_node 0 0 NULL r z q1 = Parsed w q2 \<and> alloc_node 64 (binary_code op) NULL w NULL q2 = Parsed x q3 \<and>
    made p (m + j) (E_Binary op a b) x q3"
proof -
  note f = made_facts [OF assms(1)] and g = made_facts [OF assms(2)]
  have r1: "roomy q1 (Suc 1) 0" using assms(3) by (simp add: numeral_2_eq_2)
  have "r < 4294967296" "z < 4294967296" using roomy_small [OF r1, of r] roomy_small [OF r1, of z] f(1) g(1,2) by simp_all
  then obtain q2 where q2: "alloc_node 0 0 NULL r z q1 = Parsed (mark q1) q2" "moved {} q1 0 1 0 q2"
      "node_is (p_arena q2) (mark q1) 0 0 r z"
    using alloc_node_moved [OF r1, of 0 0 r z] by auto
  have r2: "roomy q2 (Suc 0) 0" using moved_room [OF q2(2), of 1 0] r1 by simp
  have m2: "mark q2 = Suc (mark q1)" using moved_mark [OF q2(2)] by simp
  have "mark q1 < 4294967296" using roomy_small [OF r1] by simp
  then obtain q3 where q3: "alloc_node 64 (binary_code op) NULL (mark q1) NULL q2 = Parsed (mark q2) q3" "moved {} q2 0 1 0 q3"
      "node_is (p_arena q3) (mark q2) 64 (binary_code op) (mark q1) NULL"
    using alloc_node_moved [OF r2, of 64 "binary_code op" "mark q1" NULL] op_codes_small by auto
  note t2 = moved_trans [OF q2(2) q3(2)] note t1 = moved_trans [OF made_moved [OF assms(2)] t2]
  have "node_is (p_arena q3) (mark q1) 0 0 r z" using moved_get [OF q3(2), of "mark q1"] q2(3) m2 by simp
  moreover have "built (p_arena q3) (mark p) r NULL a" by (rule made_kept [OF assms(1) t1])
  moreover have "built (p_arena q3) (Suc r) z NULL b" using made_kept [OF assms(2) t2] f(1) by simp
  moreover have "z < mark q1" "mark q1 < mark q2" using g(1) m2 by simp_all
  ultimately have "built (p_arena q3) (mark p) (mark q2) NULL (E_Binary op a b)" using q3(3) unfolding built.simps by blast
  then have "made p (m + j) (E_Binary op a b) (mark q2) q3"
    using made_then [OF assms(1) t1] moved_mark [OF q3(2)] by simp
  with q2(1) q3(1) show ?thesis by blast
qed

lemma round_binary:
  assumes "made p m a r q" and "readable b" and "0 < binary_rank op" and "k' < binary_rank op"
    and "words q = pw op # spell (2 + binary_rank op) b @ rest" and "stops (2 + binary_rank op) rest"
    and "length (spell (2 + binary_rank op) b) < n" and "plain (typedef_names q) b" and "roomy q (nodes b + 2) (slots b)"
  shows "\<exists>x q'. binary_round (parse_nt n) k' r q = Parsed (Inl x) q' \<and>
    made p (m + (1 + length (spell (2 + binary_rank op) b))) (E_Binary op a b) x q'"
proof -
  let ?R = "2 + binary_rank op"
  have R: "?R \<le> 12" using binary_rank_le(1) [of op] by simp
  have room: "roomy (ahead q 1) (nodes b + 2) (slots b + 0)" using assms(9) by simp
  obtain z q1 where z: "parse_nt n (level_nt ?R) (ahead q 1) = Parsed z q1" "made (ahead q 1) (length (spell ?R b)) b z q1"
    using reads_ntD [OF assms(2), of ?R n "ahead q 1" rest "nodes b + 2" "slots b + 0"] room assms(5-8) R by auto
  have nt: "level_nt ?R = N_BinaryOp (binary_rank op - 1)" using R assms(3) by (simp add: level_nt_def numeral_3_eq_3)
  have mz: "made q (1 + length (spell ?R b)) b z q1" by (rule made_ahead [OF made_facts(5) [OF assms(1)] z(2)])
  from made_binary [OF assms(1) mz made_room [OF z(2) room], of op] obtain w q2 x q3 where
    q3: "alloc_node 0 0 NULL r z q1 = Parsed w q2" "alloc_node 64 (binary_code op) NULL w NULL q2 = Parsed x q3"
    "made p (m + (1 + length (spell ?R b))) (E_Binary op a b) x q3" by blast
  have "binary_round (parse_nt n) k' r q = Parsed (Inl x) q3"
    using z(1) [unfolded nt] q3(1,2) assms(4)
    by (simp add: binary_round_def pbind_def look_words [OF assms(5)] get_binary_operator_words [OF assms(5)]
        p_advance_words [OF assms(5)] pret_def)
  with q3(3) show ?thesis by blast
qed

text \<open>A binary operator without parentheses: first for the levels of the loop that reach it.\<close>

lemma binary_run_body:
  assumes "spinning a" and "readable b" and "3 \<le> k" and "k \<le> l" and "l \<le> 2 + binary_rank op"
    and "length (body (E_Binary op a b)) \<le> n" and "words p = body (E_Binary op a b) @ rest" and "stops l rest"
    and "plain (typedef_names p) (E_Binary op a b)" and "roomy p (nodes (E_Binary op a b)) (slots (E_Binary op a b))"
  shows "binary_run (parse_nt n) k p (length (body (E_Binary op a b))) (E_Binary op a b)"
proof -
  let ?e = "E_Binary op a b" and ?R = "2 + binary_rank op"
  have R: "0 < binary_rank op" "?R \<le> 12" using assms(9) binary_rank_pos [of op] binary_rank_le(1) [of op] by simp_all
  have se: "body ?e = spell (Suc ?R) a @ pw op # spell ?R b" by (simp add: spell_def wrap_def)
  note hb = assms(6,7) [unfolded se]
  have "stops (Suc ?R) (pw op # spell ?R b @ rest)" using continues_binary [OF R(1)] by (simp add: stops_def)
  moreover have "roomy p (nodes a) (slots a)" using room_less [OF assms(10), of "nodes a" "slots a"] by simp
  ultimately have "binary_run (parse_nt n) k p (length (spell (Suc ?R) a)) a"
    using assms(1) [unfolded spinning_def, rule_format, of k "Suc ?R" n p "pw op # spell ?R b @ rest"] assms(3-5,9) hb R by simp
  then obtain x q0 r q where ra: "parse_cast_expression (parse_nt n) p = Parsed x q0"
      "spins (binary_round (parse_nt n) (k - 3)) x q0 r q" "made p (length (spell (Suc ?R) a)) a r q"
    by (auto simp: binary_run_def)
  note f = made_facts [OF ra(3)]
  have w: "words q = pw op # spell ?R b @ rest" using f(3) hb(2) by simp
  have "roomy q (nodes b + 2) (slots b)" using made_room [OF ra(3), of "nodes b + 2" "slots b"] assms(10) by simp
  moreover have "stops ?R rest" using stops_at_mono [OF assms(8,5)] .
  moreover have "length (spell ?R b) < n" "plain (typedef_names q) b" "k - 3 < binary_rank op"
    using assms(3-5,9) hb(1) f(4) by simp_all
  ultimately obtain y q3 where y: "binary_round (parse_nt n) (k - 3) r q = Parsed (Inl y) q3"
      "made p (length (spell (Suc ?R) a) + (1 + length (spell ?R b))) ?e y q3"
    using round_binary [OF ra(3) assms(2) R(1) _ w, of "k - 3" n] by blast
  have "tokens_left q3 < tokens_left q" using made_facts(6) [OF y(2)] f(6) by (simp add: words_tokens_left hb(2))
  with spins_step [OF ra(2) y(1)] have "spins (binary_round (parse_nt n) (k - 3)) x q0 y q3" .
  moreover have "length (body ?e) = length (spell (Suc ?R) a) + (1 + length (spell ?R b))" unfolding se by simp
  ultimately show ?thesis using ra(1) y(2) unfolding binary_run_def by metis
qed

lemma readable_body_binary:
  assumes "spinning a" and "readable b"
  shows "readable_body (E_Binary op a b)"
  unfolding readable_body_def
proof (intro allI impI)
  fix n p k rest
  let ?e = "E_Binary op a b"
  assume h: "k \<le> 13" "k \<le> rank ?e" "length (body ?e) \<le> n" "words p = body ?e @ rest" "stops k rest" "plain (typedef_names p) ?e"
    "roomy p (nodes ?e) (slots ?e)"
  have R: "max 3 k \<le> 2 + binary_rank op" "k \<le> 12" using h(2,6) binary_rank_pos [of op] binary_rank_le(1) [of op] by simp_all
  have "binary_run (parse_nt n) (max 3 k) p (length (body ?e)) ?e"
    using binary_run_body [OF assms _ _ R(1) h(3,4) stops_at_mono [OF h(5)] h(6,7), of "max 3 k"] by simp
  then obtain x q0 r q where ra: "parse_cast_expression (parse_nt n) p = Parsed x q0"
      "spins (binary_round (parse_nt n) (max 3 k - 3)) x q0 r q" "made p (length (body ?e)) ?e r q"
    by (auto simp: binary_run_def)
  have "words q = rest" using made_facts(3) [OF ra(3)] h(4) by simp
  from loop_level [OF ra(1,2) this h(5) R(2)] ra(3) show "reads (level_parser (parse_nt n) k) p (length (body ?e)) ?e"
    by (auto simp: reads_def)
qed

lemma spinning_binary: "spinning a \<Longrightarrow> readable b \<Longrightarrow> spinning (E_Binary op a b)"
  unfolding spinning_def [of "E_Binary op a b"]
proof (intro allI impI)
  fix n p k l rest
  let ?e = "E_Binary op a b"
  assume s: "spinning a" "readable b" and a: "3 \<le> k" "k \<le> l" "l \<le> 13" "length (spell l ?e) \<le> n" "words p = spell l ?e @ rest" "stops l rest"
    "plain (typedef_names p) ?e" "roomy p (nodes ?e) (slots ?e)"
  show "binary_run (parse_nt n) k p (length (spell l ?e)) ?e"
  proof (cases "l \<le> 2 + binary_rank op")
    case True
    then have "spell l ?e = body ?e" by (simp add: spell_body)
    with binary_run_body [OF s a(1,2) True _ _ a(6-8), of n] a(4,5) show ?thesis by simp
  next
    case False
    with spinning_simple [OF readable_if_body [OF readable_body_binary [OF s]] a(1-3) _ a(4-8)] show ?thesis by simp
  qed
qed

section \<open>Conditional, assignment and comma expressions\<close>

lemma reads_lower:
  assumes "reads (level_parser P l) p m e" and "drop m (words p) = rest" and "stops k rest" and "k \<le> l" and "l \<le> 3"
  shows "reads (level_parser P k) p m e"
proof -
  obtain r q where q: "level_parser P l p = Parsed r q" "made p m e r q" using assms(1) by (auto simp: reads_def)
  have "words q = rest" using made_facts(3) [OF q(2)] assms(2) by simp
  with level_down [OF q(1) _ assms(4,5)] assms(3) q(2) show ?thesis by (auto simp: reads_def)
qed

lemma continues_assign: "map_of assign_ops op = Some c \<Longrightarrow> continues (pw op) = Some 1"
  using assign_op_other [of op c] by (simp add: continues_def)

lemma readable_body_assign:
  assumes "readable a" and "readable b"
  shows "readable_body (E_Assign op a b)"
  unfolding readable_body_def
proof (intro allI impI)
  fix n p k rest
  let ?e = "E_Assign op a b"
  assume h: "k \<le> 13" "k \<le> rank ?e" "length (body ?e) \<le> n" "words p = body ?e @ rest" "stops k rest" "plain (typedef_names p) ?e"
    "roomy p (nodes ?e) (slots ?e)"
  have be: "body ?e = spell 2 a @ pw op # spell 1 b" by (simp add: spell_def)
  note hb = h(3,4) [unfolded be]
  have pl: "plain (typedef_names p) a" "plain (typedef_names p) b" using h(6) by simp_all
  obtain code where code: "map_of assign_ops op = Some code" "code = op_code assign_ops op"
    using h(6) map_of_eq_None_iff [of assign_ops op] by (auto simp: op_code_def)
  have "stops 2 (pw op # spell 1 b @ rest)" using continues_assign [OF code(1)] by (simp add: stops_def)
  then obtain r q where q: "level_parser (parse_nt n) 2 p = Parsed r q" "made p (length (spell 2 a)) a r q"
    using readableD [OF assms(1), of 2 n p "pw op # spell 1 b @ rest" "nodes ?e" "slots ?e"] hb pl h(7) by auto
  note f = made_facts [OF q(2)]
  have w: "words q = pw op # spell 1 b @ rest" using f(3) hb(2) by simp
  have room: "roomy (ahead q 1) (nodes b + 1) (slots b + 0)" using made_room [OF q(2), of "nodes b + 1" "slots b"] h(7) by simp
  have "stops 1 rest" using stops_at_mono [OF h(5)] h(2) by simp
  then obtain z q1 where z: "parse_nt n N_Assignment (ahead q 1) = Parsed z q1" "made (ahead q 1) (length (spell 1 b)) b z q1"
    using reads_ntD [OF assms(2), of 1 n "ahead q 1" rest "nodes b + 1" "slots b + 0"] room w hb(1) pl f(4)
    by (auto simp: level_nt_def)
  have mz: "made q (1 + length (spell 1 b)) b z q1" by (rule made_ahead [OF f(5) z(2)])
  from made_both [OF q(2) mz made_room [OF z(2) room], of 73 code ?e] code(2) op_codes_small obtain x q' where
    q': "alloc_node 73 code NULL r z q1 = Parsed x q'" "made p (length (spell 2 a) + (1 + length (spell 1 b))) ?e x q'" by auto
  have "parse_conditional_expression (parse_nt n) p = Parsed r q" using q(1) by (simp add: level_parser_def)
  then have "parse_assignment_expression (parse_nt n) p = Parsed x q'"
    using z(1) q'(1) by (simp add: parse_assignment_expression_def pbind_def look_words [OF w] assignment_operator_words [OF w]
        code(1) p_advance_words [OF w])
  then have "reads (level_parser (parse_nt n) 1) p (length (body ?e)) ?e"
    unfolding reads_def be using q'(2) by (auto simp: level_parser_def)
  from reads_lower [OF this _ h(5)] h(2,4) show "reads (level_parser (parse_nt n) k) p (length (body ?e)) ?e" by simp
qed

lemma readable_body_comma:
  assumes "readable a" and "readable b"
  shows "readable_body (E_Comma a b)"
  unfolding readable_body_def
proof (intro allI impI)
  fix n p k rest
  let ?e = "E_Comma a b"
  assume h: "k \<le> 13" "k \<le> rank ?e" "length (body ?e) \<le> n" "words p = body ?e @ rest" "stops k rest" "plain (typedef_names p) ?e"
    "roomy p (nodes ?e) (slots ?e)"
  have be: "body ?e = spell 1 a @ pw '','' # spell 0 b" by (simp add: spell_def wrap_def)
  note hb = h(3,4) [unfolded be]
  have pl: "plain (typedef_names p) a" "plain (typedef_names p) b" using h(6) by simp_all
  obtain r q where q: "level_parser (parse_nt n) 1 p = Parsed r q" "made p (length (spell 1 a)) a r q"
    using readableD [OF assms(1), of 1 n p "pw '','' # spell 0 b @ rest" "nodes ?e" "slots ?e"] hb pl h(7) stops_comma by auto
  note f = made_facts [OF q(2)]
  have w: "words q = pw '','' # spell 0 b @ rest" using f(3) hb(2) by simp
  have room: "roomy (ahead q 1) (nodes b + 1) (slots b + 0)" using made_room [OF q(2), of "nodes b + 1" "slots b"] h(7) by simp
  obtain z q1 where z: "parse_nt n N_Expression (ahead q 1) = Parsed z q1" "made (ahead q 1) (length (spell 0 b)) b z q1"
    using reads_ntD [OF assms(2), of 0 n "ahead q 1" rest "nodes b + 1" "slots b + 0"] room w hb(1) pl f(4) h(2,5)
    by (auto simp: level_nt_def)
  have mz: "made q (1 + length (spell 0 b)) b z q1" by (rule made_ahead [OF f(5) z(2)])
  from made_both [OF q(2) mz made_room [OF z(2) room], of 72 0 ?e] obtain x q' where
    q': "alloc_node 72 0 NULL r z q1 = Parsed x q'" "made p (length (spell 1 a) + (1 + length (spell 0 b))) ?e x q'" by auto
  have "parse_assignment_expression (parse_nt n) p = Parsed r q" using q(1) by (simp add: level_parser_def)
  then have "parse_expression (parse_nt n) p = Parsed x q'"
    using z(1) q'(1) by (simp add: parse_expression_def parse_comma_expression_def pbind_def skip_words_punct [OF w])
  then have "reads (level_parser (parse_nt n) 0) p (length (body ?e)) ?e"
    unfolding reads_def be using q'(2) by (auto simp: level_parser_def)
  then show "reads (level_parser (parse_nt n) k) p (length (body ?e)) ?e" using h(2) by simp
qed

lemma continues_question: "continues (pw ''?'') = Some 2"
  by code_simp

lemma made_cond:
  assumes "made p m c x q" and "made q i a z q1" and "made q1 j b v q2" and "roomy q2 2 0"
  shows "\<exists>w q3 y q4. alloc_node 0 0 NULL z v q2 = Parsed w q3 \<and> alloc_node 66 0 NULL x w q3 = Parsed y q4 \<and>
    made p (m + (i + j)) (E_Cond c a b) y q4"
proof -
  note f = made_facts [OF assms(1)] and g = made_facts [OF assms(2)] and h = made_facts [OF assms(3)]
  have r2: "roomy q2 (Suc 1) 0" using assms(4) by (simp add: numeral_2_eq_2)
  have "z < 4294967296" "v < 4294967296" "x < 4294967296" "mark q2 < 4294967296"
    using roomy_small [OF r2, of z] roomy_small [OF r2, of v] roomy_small [OF r2, of x] roomy_small [OF r2, of "mark q2"] f(1) g(1,2) h(1,2)
    by simp_all
  note small = this
  then obtain q3 where q3: "alloc_node 0 0 NULL z v q2 = Parsed (mark q2) q3" "moved {} q2 0 1 0 q3"
      "node_is (p_arena q3) (mark q2) 0 0 z v"
    using alloc_node_moved [OF r2, of 0 0 z v] by auto
  have r3: "roomy q3 (Suc 0) 0" using moved_room [OF q3(2), of 1 0] r2 by simp
  have m3: "mark q3 = Suc (mark q2)" using moved_mark [OF q3(2)] by simp
  obtain q4 where q4: "alloc_node 66 0 NULL x (mark q2) q3 = Parsed (mark q3) q4" "moved {} q3 0 1 0 q4"
      "node_is (p_arena q4) (mark q3) 66 0 x (mark q2)"
    using alloc_node_moved [OF r3, of 66 0 x "mark q2"] small by auto
  note t3 = moved_trans [OF q3(2) q4(2)] note t2 = moved_trans [OF made_moved [OF assms(3)] t3]
  note t1 = moved_trans [OF made_moved [OF assms(2)] t2]
  have "node_is (p_arena q4) (mark q2) 0 0 z v" using moved_get [OF q4(2), of "mark q2"] q3(3) m3 by simp
  moreover have "built (p_arena q4) (mark p) x NULL c" by (rule made_kept [OF assms(1) t1])
  moreover have "built (p_arena q4) (Suc x) z NULL a" using made_kept [OF assms(2) t2] f(1) by simp
  moreover have "built (p_arena q4) (Suc z) v NULL b" using made_kept [OF assms(3) t3] g(1) by simp
  moreover have "v < mark q2" "mark q2 < mark q3" using h(1) m3 by simp_all
  ultimately have "built (p_arena q4) (mark p) (mark q3) NULL (E_Cond c a b)" using q4(3) unfolding built.simps by blast
  then have "made p (m + (i + j)) (E_Cond c a b) (mark q3) q4"
    using made_then [OF assms(1) t1] moved_mark [OF q4(2)] by simp
  with q3(1) q4(1) show ?thesis by blast
qed

lemma readable_body_cond:
  assumes "readable c" and "readable a" and "readable b"
  shows "readable_body (E_Cond c a b)"
  unfolding readable_body_def
proof (intro allI impI)
  fix n p k rest
  let ?e = "E_Cond c a b"
  assume h: "k \<le> 13" "k \<le> rank ?e" "length (body ?e) \<le> n" "words p = body ?e @ rest" "stops k rest" "plain (typedef_names p) ?e"
    "roomy p (nodes ?e) (slots ?e)"
  have be: "body ?e = spell 3 c @ pw ''?'' # spell 0 a @ pw '':'' # spell 2 b" by (simp add: spell_def wrap_def)
  note hb = h(3,4) [unfolded be]
  have pl: "plain (typedef_names p) c" "plain (typedef_names p) a" "plain (typedef_names p) b" using h(6) by simp_all
  have "stops 3 (pw ''?'' # spell 0 a @ pw '':'' # spell 2 b @ rest)" by (simp add: stops_def continues_question)
  then obtain x q where q: "level_parser (parse_nt n) 3 p = Parsed x q" "made p (length (spell 3 c)) c x q"
    using readableD [OF assms(1), of 3 n p "pw ''?'' # spell 0 a @ pw '':'' # spell 2 b @ rest" "nodes ?e" "slots ?e"] hb pl h(7) by auto
  note f = made_facts [OF q(2)]
  have w: "words q = pw ''?'' # spell 0 a @ pw '':'' # spell 2 b @ rest" using f(3) hb(2) by simp
  have room: "roomy q (nodes a + (nodes b + 2)) (slots a + (slots b + 0))"
    using made_room [OF q(2), of "nodes a + (nodes b + 2)" "slots a + (slots b + 0)"] h(7) by (simp add: add.assoc)
  have "reads (parse_nt n (level_nt 0)) (ahead q 1) (length (spell 0 a)) a"
    using reads_nt [OF assms(2), of 0 n "ahead q 1" "pw '':'' # spell 2 b @ rest" "nodes a + (nodes b + 2)" "slots a + (slots b + 0)"]
      room w hb(1) pl f(4) stops_close by simp
  then have "reads (parse_nt n N_Expression) (ahead q 1) (length (spell 0 a)) a" by (simp add: level_nt_def)
  from closing [where P = "parse_nt n" and p = q, OF this _ f(5), of "'':''" "spell 2 b @ rest"] w obtain z q1 where
    z: "parse_nt n N_Expression (ahead q 1) = Parsed z q1" "expect '':'' q1 = Parsed () (ahead q1 1)"
    "made q (length (spell 0 a) + 2) a z (ahead q1 1)" by auto
  note g = made_facts [OF z(3)]
  have w1: "words (ahead q1 1) = spell 2 b @ rest" using g(3) w by simp
  have room1: "roomy (ahead q1 1) (nodes b + 2) (slots b + 0)" by (rule made_room [OF z(3) room])
  have "stops 2 rest" using stops_at_mono [OF h(5)] h(2) by simp
  then obtain v q2 where v: "parse_nt n N_Conditional (ahead q1 1) = Parsed v q2" "made (ahead q1 1) (length (spell 2 b)) b v q2"
    using reads_ntD [OF assms(3), of 2 n "ahead q1 1" rest "nodes b + 2" "slots b + 0"] room1 w1 hb(1) pl f(4) g(4)
    by (auto simp: level_nt_def)
  from made_cond [OF q(2) z(3) v(2) made_room [OF v(2) room1]] obtain u q3 y q4 where
    q4: "alloc_node 0 0 NULL z v q2 = Parsed u q3" "alloc_node 66 0 NULL x u q3 = Parsed y q4"
    "made p (length (spell 3 c) + (length (spell 0 a) + 2 + length (spell 2 b))) ?e y q4" by blast
  have "parse_binary_op (parse_nt n) 0 p = Parsed x q" using q(1) by (simp add: level_parser_def)
  then have "parse_conditional_expression (parse_nt n) p = Parsed y q4"
    using z(1,2) v(1) q4(1,2)
    by (simp add: parse_conditional_expression_def parse_binary_expression_def pbind_def skip_words_punct [OF w])
  then have "reads (level_parser (parse_nt n) 2) p (length (body ?e)) ?e"
    unfolding reads_def be using q4(3) by (auto simp: level_parser_def)
  from reads_lower [OF this _ h(5)] h(2,4) show "reads (level_parser (parse_nt n) k) p (length (body ?e)) ?e" by simp
qed

section \<open>All trees are readable\<close>

lemma readable_postfix:
  assumes "rank e = 14" and "postfix_readable e"
  shows "readable_body e \<and> (rank e = 14 \<longrightarrow> postfix_readable e) \<and> spinning e"
  using readable_body_postfix [OF assms(2,1)] assms readable_if_body spinning_other by simp

lemma readable_loose:
  assumes "readable_body e" and "rank e < 3 \<or> rank e = 13"
  shows "readable_body e \<and> (rank e = 14 \<longrightarrow> postfix_readable e) \<and> spinning e"
  using assms spinning_other [OF readable_if_body [OF assms(1)]] by auto

lemma postfix_readable_vacuous: "(\<And>T. \<not> plain T e) \<Longrightarrow> postfix_readable e"
  by (simp add: postfix_readable_def)

lemma all_readable: "readable_body e \<and> (rank e = 14 \<longrightarrow> postfix_readable e) \<and> spinning e"
proof (induction e)
  case (E_Name s)
  show ?case by (rule readable_postfix) (simp_all add: postfix_readable_atoms)
next
  case (E_Num s)
  show ?case by (rule readable_postfix) (simp_all add: postfix_readable_atoms)
next
  case (E_Char s)
  show ?case by (rule readable_postfix) (simp_all add: postfix_readable_atoms)
next
  case (E_Index a b)
  have "postfix_readable (E_Index a b)"
    using postfix_readable_index [of a b] E_Index readable_if_body postfix_readable_vacuous [of "E_Index a b"] by auto
  then show ?case by (rule readable_postfix [rotated]) simp
next
  case (E_Call a bs)
  have "\<forall>b \<in> set bs. readable b" using E_Call readable_if_body by blast
  then have "postfix_readable (E_Call a bs)"
    using postfix_readable_call [of a bs] E_Call postfix_readable_vacuous [of "E_Call a bs"] by auto
  then show ?case by (rule readable_postfix [rotated]) simp
next
  case (E_Member arrow a s)
  have "postfix_readable (E_Member arrow a s)"
    using postfix_readable_member [of a arrow s] E_Member postfix_readable_vacuous [of "E_Member arrow a s"] by auto
  then show ?case by (rule readable_postfix [rotated]) simp
next
  case (E_Postfix op a)
  have "postfix_readable (E_Postfix op a)"
    using postfix_readable_incdec [of a op] E_Postfix postfix_readable_vacuous [of "E_Postfix op a"] by auto
  then show ?case by (rule readable_postfix [rotated]) simp
next
  case (E_Prefix op a)
  show ?case by (rule readable_loose) (use E_Prefix readable_body_prefix in simp_all)
next
  case (E_Binary op a b)
  with readable_if_body have r: "spinning a" "readable b" by blast+
  with readable_body_binary [OF r] spinning_binary [OF r] binary_rank_le(2) show ?case by simp
next
  case (E_Cond c a b)
  show ?case by (rule readable_loose) (use E_Cond readable_body_cond readable_if_body in simp_all)
next
  case (E_Assign op a b)
  show ?case by (rule readable_loose) (use E_Assign readable_body_assign readable_if_body in simp_all)
next
  case (E_Comma a b)
  show ?case by (rule readable_loose) (use E_Comma readable_body_comma readable_if_body in simp_all)
qed

end
