(* ===== verification/ExprProps.thy ===== *)
theory ExprProps
  imports ExprParse
begin

text \<open>
  What the expression parser does with the words of a tree, and what the evaluator of constant
  expressions makes of the nodes: the properties of expressions.
\<close>

section \<open>Reading back\<close>

lemma expression_read:
  assumes "plain (typedef_names p) e" and "words p = body e @ rest" and "stops 0 rest" and "length (body e) \<le> n"
    and "room (p_arena p) (nodes e) (slots e)"
  shows "\<exists>r q. parse_expression (parse_nt n) p = Parsed r q \<and> made p (length (body e)) e r q"
proof -
  have s: "spell 0 e = body e" by (simp add: spell_body)
  have "readable e" using all_readable readable_if_body by blast
  from readableD [OF this, of 0 n p rest, OF _ _ _ assms(3,1,5)] assms(2,4) show ?thesis by (simp add: s level_parser_def)
qed


text \<open>A parser at the words of an expression and a semicolon, over an empty arena of eight nodes.\<close>

definition at_words8 :: "word list \<Rightarrow> parser" where
  "at_words8 ws = (parser_new arena8)\<lparr>p_tokens := map (\<lambda>(k, s). ptok k s 1 1) ws\<rparr>"

lemma at_words8_simps [simp]: "words (at_words8 ws) = ws" "p_arena (at_words8 ws) = arena8" "typedef_names (at_words8 ws) = {}"
  by (simp_all add: at_words8_def words_def parser_new_def case_prod_beta comp_def)

lemma arena8_room_nodes: "k \<le> 7 \<Longrightarrow> room arena8 k 0"
  using arena_reach_inv [OF arena8_reach] by (simp add: room_def) (simp add: arena8_def)

definition sum_tree :: cexpr where
  "sum_tree = E_Binary ''+'' (E_Binary ''*'' (E_Num ''1'') (E_Num ''2'')) (E_Num ''3'')"

lemma sum_tree_facts:
  "plain {} sum_tree" "nodes sum_tree = 7" "slots sum_tree = 0" "stops 0 [pw '';'']"
  "spell 0 sum_tree = [(K_IntConstant, ''1''), pw ''*'', (K_IntConstant, ''2''), pw ''+'', (K_IntConstant, ''3'')]"
  by (simp_all add: sum_tree_def binary_ops_def binary_rank_def spell_def wrap_def stops_def continues_def assign_ops_def)


section \<open>Grouping\<close>

text \<open>
  C25: Operators of one precedence group to the right: \<open>a op1 b op2 c\<close> is read as \<open>a op1 (b op2 c)\<close>.
  In C they group to the left, so that \<open>a - b - c\<close>, \<open>a / b * c\<close> and \<open>a << b << c\<close> are misread.
\<close>

theorem same_rank_groups_right:
  assumes "binary_rank op1 = binary_rank op2" and "op1 \<in> fst ` set binary_ops"
    and "plain (typedef_names p) a \<and> plain (typedef_names p) b \<and> plain (typedef_names p) c"
    and "words p = spell 13 a @ pw op1 # spell 13 b @ pw op2 # spell 13 c @ rest" and "stops 0 rest"
    and "length (words p) \<le> n"
    and "room (p_arena p) (nodes a + nodes b + nodes c + 4) (slots a + slots b + slots c)"
    and "rank a \<ge> 13 \<and> rank b \<ge> 13 \<and> rank c \<ge> 13"
  shows "\<exists>r q. parse_expression (parse_nt n) p = Parsed r q \<and> words q = rest \<and>
    built (p_arena q) (node_allocated (p_arena p)) r NULL (E_Binary op1 a (E_Binary op2 b c))"
proof -
  let ?e = "E_Binary op1 a (E_Binary op2 b c)"
  have ops: "0 < binary_rank op1" "op2 \<in> fst ` set binary_ops" "binary_rank op2 \<le> 10"
    using assms(1,2) binary_rank_pos [of op1] binary_rank_pos [of op2] binary_rank_le(1) [of op2] by auto
  have w: "body ?e = spell 13 a @ pw op1 # spell 13 b @ pw op2 # spell 13 c"
    using assms(1,8) ops(3) by (simp add: spell_def wrap_def)
  have "plain (typedef_names p) ?e" using assms(2,3) ops(2) by simp
  moreover have "room (p_arena p) (nodes ?e) (slots ?e)" using room_less [OF assms(7), of "nodes ?e" "slots ?e"] by simp
  moreover have "words p = body ?e @ rest" "length (body ?e) \<le> n" unfolding w using assms(4,6) by simp_all
  ultimately obtain r q where q: "parse_expression (parse_nt n) p = Parsed r q" "made p (length (body ?e)) ?e r q"
    using expression_read [OF _ _ assms(5)] by blast
  have "words q = rest" using made_facts(3) [OF q(2)] assms(4) unfolding w by simp
  with q show ?thesis by (auto simp: made_def mark_def)
qed

lemma minus_words: "words (at_words8 [(K_IntConstant, ''9''), pw ''-'', (K_IntConstant, ''3''), pw ''-'', (K_IntConstant, ''2''), pw '';'']) =
    spell 13 (E_Num ''9'') @ pw ''-'' # spell 13 (E_Num ''3'') @ pw ''-'' # spell 13 (E_Num ''2'') @ [pw '';'']"
  by (simp add: spell_def wrap_def)

theorem same_rank_groups_right_witness:
  "\<exists>r q. parse_expression (parse_nt 6)
      (at_words8 [(K_IntConstant, ''9''), pw ''-'', (K_IntConstant, ''3''), pw ''-'', (K_IntConstant, ''2''), pw '';'']) = Parsed r q \<and>
    built (p_arena q) 1 r NULL (E_Binary ''-'' (E_Num ''9'') (E_Binary ''-'' (E_Num ''3'') (E_Num ''2'')))"
proof -
  let ?p = "at_words8 [(K_IntConstant, ''9''), pw ''-'', (K_IntConstant, ''3''), pw ''-'', (K_IntConstant, ''2''), pw '';'']"
  have "''-'' \<in> fst ` set binary_ops" by (simp add: binary_ops_def)
  then have "\<exists>r q. parse_expression (parse_nt 6) ?p = Parsed r q \<and>
      built (p_arena q) (node_allocated arena8) r NULL (E_Binary ''-'' (E_Num ''9'') (E_Binary ''-'' (E_Num ''3'') (E_Num ''2'')))"
    using same_rank_groups_right [OF refl _ _ minus_words, of 6] arena8_room_nodes [of 7] sum_tree_facts(4) by (auto simp del: built.simps)
  then show ?thesis by (simp add: arena8_def)
qed

section \<open>Increments\<close>

text \<open>
  \<open>x++\<close> and \<open>++x\<close> become the same node: the parser builds for a postfix increment or decrement
  exactly what it builds for the prefix one, so no later pass can tell them apart.
\<close>

theorem increments_confused:
  assumes "op = ''++'' \<or> op = ''--''" and "plain (typedef_names p) a" and "rank a = 14"
    and "words p = body a @ pw op # rest" and "stops 0 rest" and "length (body a) < n"
    and "room (p_arena p) (Suc (nodes a)) (slots a)"
  shows "\<exists>r q. parse_expression (parse_nt n) p = Parsed r q \<and> words q = rest \<and>
    built (p_arena q) (node_allocated (p_arena p)) r NULL (E_Prefix op a)"
proof -
  let ?e = "E_Postfix op a"
  have "op \<in> fst ` set postfix_ops" "op_code postfix_ops op = op_code prefix_ops op"
    using assms(1) by (auto simp: postfix_ops_def prefix_ops_def op_code_def)
  note o = this
  have "plain (typedef_names p) ?e" using o(1) assms(2,3) by simp
  then obtain r q where q: "parse_expression (parse_nt n) p = Parsed r q" "made p (length (body ?e)) ?e r q"
    using expression_read [of p ?e rest n] assms(4-7) by auto
  have "words q = rest" using made_facts(3) [OF q(2)] assms(4) by simp
  with q o(2) show ?thesis by (auto simp: made_def mark_def)
qed

theorem increments_confused_witness:
  "\<exists>r q. parse_expression (parse_nt 2) (at_words8 [(K_IntConstant, ''1''), pw ''++'', pw '';'']) = Parsed r q \<and> words q = [pw '';'']"
  using increments_confused [of "''++''" "at_words8 [(K_IntConstant, ''1''), pw ''++'', pw '';'']" "E_Num ''1''" "[pw '';'']" 2]
    arena8_room_nodes [of 2] sum_tree_facts(4) by (auto simp: numeral_2_eq_2)

section \<open>Parentheses\<close>

lemma postfix_op_passes:
  assumes "words p = pw op # rest" and "op \<in> {''['', ''('', ''.'', ''->'', ''++'', ''--''}" and "parse_cast_expression P p0 = Parsed r p"
  shows "parse_expression P p0 = Parsed r p"
proof -
  have l: "list_all (\<lambda>op. map_of assign_ops op = None \<and> op \<noteq> ''?'' \<and> op \<noteq> '','') [''['', ''('', ''.'', ''->'', ''++'', ''--'']"
    by code_simp
  have o: "binary_rank op = 0" "map_of assign_ops op = None" "op \<noteq> ''?''" "op \<noteq> '',''"
    using binary_rank_other [of op] assms(2) l by auto
  have "binary_round P 0 r p = Parsed (Inr r) p"
    by (simp add: binary_round_def pbind_def look_words [OF assms(1)] get_binary_operator_words [OF assms(1)] o pret_def)
  then have "parse_binary_op P 0 p0 = Parsed r p" using assms(3) by (simp add: parse_binary_op_def pbind_def prepeat_stop)
  then have "parse_conditional_expression P p0 = Parsed r p"
    using o by (simp add: parse_conditional_expression_def parse_binary_expression_def pbind_def skip_words_punct [OF assms(1)] pret_def)
  then have "parse_assignment_expression P p0 = Parsed r p"
    using o by (simp add: parse_assignment_expression_def pbind_def look_words [OF assms(1)] assignment_operator_words [OF assms(1)] pret_def)
  then show ?thesis
    using o by (simp add: parse_expression_def parse_comma_expression_def pbind_def skip_words_punct [OF assms(1)] pret_def)
qed

text \<open>
  No postfix operator applies to a parenthesised expression: an expression statement \<open>(e)\<close> ends
  before \<open>[\<close>, \<open>(\<close>, \<open>.\<close>, \<open>->\<close>, \<open>++\<close> or \<open>--\<close> without an error, since its semicolon is optional. So
  \<open>(f)(x);\<close> becomes the two statements \<open>f;\<close> and \<open>(x);\<close>, and \<open>(*p).x = 1;\<close> loses its left side.
\<close>

theorem parenthesised_takes_no_postfix:
  assumes "plain (typedef_names p) e" and "words p = pw ''('' # body e @ pw '')'' # pw op # rest"
    and "op \<in> {''['', ''('', ''.'', ''->'', ''++'', ''--''}" and "length (body e) + 2 \<le> n"
    and "room (p_arena p) (Suc (nodes e)) (slots e)"
  shows "\<exists>x r q. parse_expression_statement (parse_nt n) p = Parsed r q \<and> words q = pw op # rest \<and>
    node_is (p_arena q) r 45 0 x NULL \<and> built (p_arena q) (node_allocated (p_arena p)) x NULL e"
proof -
  have "roomy p (nodes e) (slots e)" using room_less [OF assms(5), of "nodes e" "slots e"] by simp
  with parens_read(1) [of e n p "pw op # rest"] all_readable assms(1,2,4) obtain x q where
    q: "parse_cast_expression (parse_nt n) p = Parsed x q" "made p (length (body e) + 2) e x q" by (auto simp: reads_def)
  note f = made_facts [OF q(2)]
  have wq: "words q = pw op # rest" using f(3) assms(2) by simp
  have "op \<noteq> '';''" using assms(3) by auto
  then have st: "optional_expression (parse_nt n) '';'' (pret NULL) p = Parsed x q"
    using postfix_op_passes [OF wq assms(3) q(1)]
    by (simp add: optional_expression_def pbind_def skip_words_punct [OF assms(2)] skip_words_punct [OF wq] pret_def)
  have room: "roomy q (Suc 0) 0" using made_room [OF q(2), of 1 0] assms(5) by simp
  have "x < 4294967296" using roomy_small [OF room, of x] f(1) by simp
  then obtain q' where q': "alloc_node 45 0 NULL x NULL q = Parsed (mark q) q'" "moved {} q 0 1 0 q'"
      "node_is (p_arena q') (mark q) 45 0 x NULL"
    using alloc_node_moved [OF room, of 45 0 x NULL] by auto
  have "words q' = pw op # rest" using moved_words [OF q'(2)] wq by simp
  moreover have "built (p_arena q') (node_allocated (p_arena p)) x NULL e" using made_kept [OF q(2) q'(2)] by (simp add: mark_def)
  ultimately show ?thesis using st q'(1,3) by (auto simp: parse_expression_statement_def pbind_def)
qed

theorem parenthesised_takes_no_postfix_witness:
  "\<exists>r q. parse_expression_statement (parse_nt 3)
      (at_words8 [pw ''('', (K_IntConstant, ''1''), pw '')'', pw ''['', (K_IntConstant, ''2''), pw '']'', pw '';'']) = Parsed r q \<and>
    words q = [pw ''['', (K_IntConstant, ''2''), pw '']'', pw '';'']"
  using parenthesised_takes_no_postfix [of
      "at_words8 [pw ''('', (K_IntConstant, ''1''), pw '')'', pw ''['', (K_IntConstant, ''2''), pw '']'', pw '';'']"
      "E_Num ''1''" "''[''" "[(K_IntConstant, ''2''), pw '']'', pw '';'']" 3]
    arena8_room_nodes [of 2] by (auto simp: numeral_2_eq_2)

section \<open>Constant expressions\<close>

text \<open>The value of a tree by the rules of \<open>eval_constant_i64\<close>, without an arena.\<close>

fun const_value :: "(string \<Rightarrow> int option) \<Rightarrow> cexpr \<Rightarrow> int option run" where
  "const_value env (E_Name s) = Done (env s)"
| "const_value env (E_Num s) = Done (Some (int (int_constant_value s)))"
| "const_value env (E_Prefix op a) = when_done (const_value env a) (\<lambda>v. Done (Some (eval_unary_i64 (op_code prefix_ops op) v)))"
| "const_value env (E_Postfix op a) = when_done (const_value env a) (\<lambda>v. Done (Some (eval_unary_i64 (op_code postfix_ops op) v)))"
| "const_value env (E_Binary op a b) =
     when_done (const_value env a) (\<lambda>v. when_done (const_value env b) (\<lambda>w. eval_binary_i64 (binary_code op) v w))"
| "const_value env (E_Cond c a b) =
     when_done (const_value env c) (\<lambda>v. if v \<noteq> 0 then const_value env a else const_value env b)"
| "const_value env (E_Comma a b) = const_value env b"
| "const_value env _ = Done None"

lemma of_run_Done: "of_run (Done v) p = Parsed v p"
  by (simp add: of_run_def)

lemma when_some_run:
  assumes "m p = of_run r p" and "\<And>v. k v p = of_run (k' v) p"
  shows "when_some m k p = of_run (when_done r k') p"
  using assms by (cases r) (auto simp: when_some_def pbind_def of_run_def when_done_def pret_def split: option.splits)

lemma nodes_pos: "0 < nodes e"
  by (cases e) simp_all

lemma fresh_node_simps [simp]:
  "kind (fresh_node k d par c nx) = k" "node_data (fresh_node k d par c nx) = d" "first_child (fresh_node k d par c nx) = c"
  "next_sibling (fresh_node k d par c nx) = nx"
  by (simp_all add: fresh_node_def)

lemma eval_at_node:
  "node_is (p_arena p) x k d c nx \<Longrightarrow> eval_constant_at (Suc n) x p = eval_node (eval_constant_at n) (fresh_node k d NULL c nx) p"
  by (simp add: when_some_def arena_node_def pget_def pbind_def)

lemma eval_built:
  "built (p_arena p) lo x nx e \<Longrightarrow> arena_inv (p_arena p) \<Longrightarrow> 0 < lo \<Longrightarrow> nodes e \<le> n \<Longrightarrow>
     eval_constant_at n x p = of_run (const_value (constant_ints p) e) p"
proof (induction e arbitrary: lo x nx n)
  case (E_Name s)
  obtain m where n: "n = Suc m" using E_Name.prems(4) by (cases n) auto
  obtain off where o: "node_is (p_arena p) x 60 off NULL nx" "stored (p_arena p) off s" using E_Name.prems(1) by auto
  show ?case unfolding n eval_at_node [OF o(1)]
    using stored_get_string [OF E_Name.prems(2) o(2)]
    by (simp add: eval_node_def when_some_def pbind_def text_at_offset_def pget_def of_run_def)
next
  case (E_Num s)
  obtain m where n: "n = Suc m" using E_Num.prems(4) by (cases n) auto
  from E_Num.prems(1) have o: "node_is (p_arena p) x 61 (int_constant_value s) NULL nx" by simp
  show ?case unfolding n eval_at_node [OF o] by (simp add: eval_node_def pret_def of_run_def)
next
  case (E_Char s)
  obtain m where n: "n = Suc m" using E_Char.prems(4) by (cases n) auto
  from E_Char.prems(1) have o: "node_is (p_arena p) x 62 (char_constant_value s) NULL nx" by simp
  show ?case unfolding n eval_at_node [OF o] by (simp add: eval_node_def pret_def of_run_def)
next
  case (E_Prefix op a)
  obtain m where n: "n = Suc m" using E_Prefix.prems(4) by (cases n) auto
  obtain y where o: "built (p_arena p) lo y NULL a" "node_is (p_arena p) x 65 (op_code prefix_ops op) y nx" using E_Prefix.prems(1) by auto
  from E_Prefix.IH [OF o(1) E_Prefix.prems(2,3), of m] E_Prefix.prems(4) n
  show ?case unfolding n eval_at_node [OF o(2)]
    by (simp add: eval_node_def) (rule when_some_run, simp_all add: pret_def of_run_def)
next
  case (E_Postfix op a)
  obtain m where n: "n = Suc m" using E_Postfix.prems(4) by (cases n) auto
  obtain y where o: "built (p_arena p) lo y NULL a" "node_is (p_arena p) x 65 (op_code postfix_ops op) y nx" using E_Postfix.prems(1) by auto
  from E_Postfix.IH [OF o(1) E_Postfix.prems(2,3), of m] E_Postfix.prems(4) n
  show ?case unfolding n eval_at_node [OF o(2)]
    by (simp add: eval_node_def) (rule when_some_run, simp_all add: pret_def of_run_def)
next
  case (E_Binary op a b)
  obtain m where n: "n = Suc m" using E_Binary.prems(4) by (cases n) auto
  obtain y z w where o: "built (p_arena p) lo y NULL a" "built (p_arena p) (Suc y) z NULL b" "z < w" "w < x"
      "node_is (p_arena p) w 0 0 y z" "node_is (p_arena p) x 64 (binary_code op) w nx" using E_Binary.prems(1) by auto
  have "0 < y" "0 < z" using built_least [OF o(1)] built_least [OF o(2)] E_Binary.prems(3) by simp_all
  then have bo: "binary_operands (p_arena p) (fresh_node 64 (binary_code op) NULL w nx) = (y, z)"
    using o(5) by (simp add: binary_operands_def)
  note a = E_Binary.IH(1) [OF o(1) E_Binary.prems(2,3), of m] and b = E_Binary.IH(2) [OF o(2) E_Binary.prems(2), of m]
  show ?case unfolding n eval_at_node [OF o(6)]
    using a b E_Binary.prems(4) n
    by (simp add: eval_node_def pget_def pbind_def bo) (intro when_some_run, simp_all)
next
  case (E_Cond c a b)
  obtain m where n: "n = Suc m" using E_Cond.prems(4) by (cases n) auto
  obtain y z v w where o: "built (p_arena p) lo y NULL c" "built (p_arena p) (Suc y) z NULL a" "built (p_arena p) (Suc z) v NULL b"
      "node_is (p_arena p) w 0 0 z v" "node_is (p_arena p) x 66 0 y w" using E_Cond.prems(1) by auto
  note c = E_Cond.IH(1) [OF o(1) E_Cond.prems(2,3), of m] and a = E_Cond.IH(2) [OF o(2) E_Cond.prems(2), of m]
    and b = E_Cond.IH(3) [OF o(3) E_Cond.prems(2), of m]
  have w: "when_some (arena_node w) k p = k (fresh_node 0 0 NULL z v) p" for k :: "cast_node \<Rightarrow> int option pm"
    using o(4) by (simp add: when_some_def arena_node_def pget_def pbind_def)
  show ?case unfolding n eval_at_node [OF o(5)]
    using c a b E_Cond.prems(4) n by (simp add: eval_node_def) (rule when_some_run, simp_all add: w)
next
  case (E_Comma a b)
  obtain m where n: "n = Suc m" using E_Comma.prems(4) by (cases n) auto
  obtain y z where o: "built (p_arena p) (Suc y) z NULL b" "node_is (p_arena p) x 72 0 y z" using E_Comma.prems(1) by auto
  show ?case unfolding n eval_at_node [OF o(2)]
    using E_Comma.IH(2) [OF o(1) E_Comma.prems(2), of m] E_Comma.prems(4) n by (simp add: eval_node_def)
next
  case (E_Index a b)
  obtain m where n: "n = Suc m" using E_Index.prems(4) by (cases n) auto
  obtain y z where o: "node_is (p_arena p) x 68 0 y z" using E_Index.prems(1) by auto
  show ?case unfolding n eval_at_node [OF o] by (simp add: eval_node_def pret_def of_run_def)
next
  case (E_Call a bs)
  obtain m where n: "n = Suc m" using E_Call.prems(4) by (cases n) auto
  obtain y where o: "node_is (p_arena p) x 67 0 y nx" using E_Call.prems(1) by auto
  show ?case unfolding n eval_at_node [OF o] by (simp add: eval_node_def pret_def of_run_def)
next
  case (E_Member arrow a s)
  obtain m where n: "n = Suc m" using E_Member.prems(4) by (cases n) auto
  obtain y d where o: "node_is (p_arena p) x 69 d y nx" using E_Member.prems(1) by auto
  show ?case unfolding n eval_at_node [OF o] by (simp add: eval_node_def pret_def of_run_def)
next
  case (E_Assign op a b)
  obtain m where n: "n = Suc m" using E_Assign.prems(4) by (cases n) auto
  obtain y z where o: "node_is (p_arena p) x 73 (op_code assign_ops op) y z" using E_Assign.prems(1) by auto
  show ?case unfolding n eval_at_node [OF o] by (simp add: eval_node_def pret_def of_run_def)
qed

lemma constant_expression_parsed:
  assumes "plain (typedef_names p) e" and "words p = spell 2 e @ rest" and "stops 2 rest" and "length (spell 2 e) \<le> n"
    and "room (p_arena p) (nodes e) (slots e)"
  shows "\<exists>r q. parse_constant_expression (parse_nt n) p = Parsed r q \<and> made p (length (spell 2 e)) e r q"
proof -
  have "readable e" using all_readable readable_if_body by blast
  from readableD [OF this _ assms(4,2,3,1,5)] show ?thesis
    by (auto simp: level_parser_def parse_constant_expression_def)
qed

text \<open>
  C5: The evaluator of constant expressions computes on the nodes of a parsed expression the value of
  its tree: it is a function of the tree alone, finds every operand through the wrappers of the
  parser, and never runs out of depth. The value is that of C only up to the rules of
  \<open>const_value\<close>: a minus sign is ignored and \<open>9 - 3 - 2\<close> is 8.
\<close>

theorem constant_expression_value:
  assumes "plain (typedef_names p) e" and "words p = spell 2 e @ rest" and "stops 2 rest" and "length (spell 2 e) \<le> n"
    and "room (p_arena p) (nodes e) (slots e)"
  shows "\<exists>r q. parse_constant_expression (parse_nt n) p = Parsed r q \<and> words q = rest \<and>
    eval_constant_i64 r q = of_run (const_value (constant_ints p) e) q"
proof -
  from constant_expression_parsed [OF assms] obtain r q where
    q: "parse_constant_expression (parse_nt n) p = Parsed r q" "made p (length (spell 2 e)) e r q" by blast
  have c: "constant_ints q = constant_ints p" using moved_same [OF made_moved [OF q(2)]] by simp
  have lo: "0 < mark p" using assms(5) by (simp add: mark_def room_def arena_inv_def)
  have "nodes e \<le> node_rounds q" using made_facts(2) [OF q(2)] by (simp add: node_rounds_def mark_def)
  with eval_built [of q "mark p" r NULL e] q(2) made_facts(5) [OF q(2)] lo
  have "eval_constant_i64 r q = of_run (const_value (constant_ints p) e) q"
    by (simp add: eval_constant_i64_def made_def c)
  with q(1) made_facts(3) [OF q(2)] assms(2) show ?thesis by simp
qed

definition minus_tree :: cexpr where
  "minus_tree = E_Binary ''-'' (E_Num ''9'') (E_Binary ''-'' (E_Num ''3'') (E_Num ''2''))"

lemma minus_tree_facts:
  "plain {} minus_tree" "nodes minus_tree = 7" "slots minus_tree = 0" "stops 2 [pw '','']"
  "spell 2 minus_tree = [(K_IntConstant, ''9''), pw ''-'', (K_IntConstant, ''3''), pw ''-'', (K_IntConstant, ''2'')]"
  by (simp_all add: minus_tree_def binary_ops_def binary_rank_def spell_def wrap_def stops_def continues_def assign_ops_def)

lemma minus_tree_value: "const_value env minus_tree = Done (Some 8)"
proof -
  have "int_constant_value ''9'' = 9" "int_constant_value ''3'' = 3" "int_constant_value ''2'' = 2"
    by (simp_all add: int_constant_value_def Let_def starts_with_def u32_from_str_def or_zero_def radix_value_def digit_value_def)
  moreover have "binary_code ''-'' = 2" by (simp add: binary_code_def binary_ops_def)
  moreover have "eval_binary_i64 2 3 2 = Done (Some 1)" "eval_binary_i64 2 9 1 = Done (Some 8)"
    by (simp_all add: eval_binary_i64_def to_i64_def)
  ultimately show ?thesis by (simp add: minus_tree_def when_done_def)
qed

theorem constant_expression_value_witness:
  "\<exists>r q. parse_constant_expression (parse_nt 5)
      (at_words8 [(K_IntConstant, ''9''), pw ''-'', (K_IntConstant, ''3''), pw ''-'', (K_IntConstant, ''2''), pw '','']) = Parsed r q \<and>
    eval_constant_i64 r q = Parsed (Some 8) q"
  using constant_expression_value [of
      "at_words8 [(K_IntConstant, ''9''), pw ''-'', (K_IntConstant, ''3''), pw ''-'', (K_IntConstant, ''2''), pw '','']"
      minus_tree "[pw '','']" 5]
    arena8_room_nodes [of 7] minus_tree_facts by (auto simp: minus_tree_value of_run_def)

end
