(* ===== verification/ParserSamples.thy ===== *)
theory ParserSamples
  imports ExprParse
begin

text \<open>
  Runs of the parser on small sources, taken step by step, as inputs for the properties of the parser.
\<close>

section \<open>The source \<open>int;\<close>\<close>

lemma chain_end_single: "node_is A x k d c NULL \<Longrightarrow> chain_end (Suc n) A x = Done x"
  by (simp add: fresh_node_def)

lemma int_specifiers:
  assumes "words p = (K_Keyword, ''int'') # pw '';'' # ws" and "roomy p 1 0"
  shows "\<exists>q. parse_declaration_specifiers P p = Parsed (mark p) q \<and> moved {} p 1 1 0 q \<and> node_is (p_arena q) (mark p) 2 0 NULL NULL"
proof -
  note w = words_current [OF assms(1)] and c = at_words [OF assms(1)]
  have "roomy (ahead p 1) 1 0" using assms(2) by simp
  from leaf_reads [OF this, of 2 0] obtain q where
    q: "leaf 2 0 (ahead p 1) = Parsed (mark p) q" "moved {} (ahead p 1) 0 1 0 q" "node_is (p_arena q) (mark p) 2 0 NULL NULL"
    by (auto simp: mark_def)
  have t: "moved {} p 1 1 0 q" using moved_trans [OF moved_ahead [OF roomy_inv [OF assms(2)], where n = 1] q(2)] by simp
  have wq: "words q = pw '';'' # ws" unfolding moved_words [OF t] assms(1) by simp
  note v = words_current [OF wq] and d = at_words [OF wq]
  have pos: "mark p \<noteq> NULL" using roomy_inv [OF assms(2)] by (simp add: mark_def arena_inv_def)
  have "parse_type_specifier P p = Parsed (mark p) q"
    using q(1) by (simp add: parse_type_specifier_def pbind_def current_text_words [OF assms(1)] p_advance_words [OF assms(1)]
        type_specifier_kind_def)
  then have r1: "specifier_round P (False, NULL, NULL) p = Parsed (Inl (True, mark p, mark p)) q"
    using w pos
    by (simp add: specifier_round_def Let_def pif_words [OF assms(1)] at_attribute_def c may_be_specifier_def
        is_storage_class_specifier_def is_type_specifier_def type_specifier_words_def link_next_def pbind_def link_siblings_def pret_def)
  have r2: "specifier_round P (True, mark p, mark p) q = Parsed (Inr (True, mark p)) q"
    by (simp add: specifier_round_def Let_def pif_words [OF wq] at_attribute_def d may_be_specifier_def pret_def)
  have "tokens_left q < tokens_left p" using assms(1) wq by (simp add: words_tokens_left)
  from spins_break [where body = "specifier_round P", OF spins_one [where body = "specifier_round P", OF r1 this] r2] t q(3) pos show ?thesis
    by (simp add: parse_declaration_specifiers_def pbind_def pret_def)
qed

lemma int_declaration:
  assumes "words p = (K_Keyword, ''int'') # pw '';'' # ws" and "roomy p 2 0"
  shows "\<exists>q. parse_external_declaration P p = Parsed (Suc (mark p)) q \<and> moved {} p 2 2 0 q \<and>
    node_is (p_arena q) (Suc (mark p)) 20 0 (mark p) NULL"
proof -
  have room: "roomy p (1 + 1) (0 + 0)" using assms(2) by (simp add: numeral_2_eq_2)
  from int_specifiers [OF assms(1) room_less [OF assms(2)]] obtain q where
    q: "parse_declaration_specifiers P p = Parsed (mark p) q" "moved {} p 1 1 0 q" "node_is (p_arena q) (mark p) 2 0 NULL NULL" by auto
  have wq: "words q = pw '';'' # ws" unfolding moved_words [OF q(2)] assms(1) by simp
  note d = at_words [OF wq]
  have pos: "mark p \<noteq> NULL" using roomy_inv [OF assms(2)] by (simp add: mark_def arena_inv_def)
  have m: "mark q = Suc (mark p)" using moved_mark [OF q(2)] by simp
  have "roomy (ahead q 1) (Suc 0) 0" using moved_room [OF q(2) room] by simp
  moreover from this have "mark p < 4294967296" using roomy_small [of "ahead q 1" "Suc 0" 0 "mark p"] m by (simp add: mark_def)
  ultimately obtain q' where q': "alloc_node 20 0 NULL (mark p) NULL (ahead q 1) = Parsed (Suc (mark p)) q'"
      "moved {} (ahead q 1) 0 1 0 q'" "node_is (p_arena q') (Suc (mark p)) 20 0 (mark p) NULL"
    using alloc_node_moved [of "ahead q 1" 0 0 20 0 "mark p" NULL] m by (auto simp: mark_def)
  have l: "last_sibling (mark p) q = Parsed (mark p) q"
    using chain_end_single [OF q(3)] by (simp add: last_sibling_def node_rounds_def of_run_def)
  have b: "more_declarators_round P (mark p, mark p) q = Parsed (Inr (mark p, mark p)) q"
    by (simp add: more_declarators_round_def pif_words [OF wq] d pret_def)
  have "declaration_end P (mark p, mark p) q = Parsed (Suc (mark p)) q'"
    using q'(1) by (simp add: declaration_end_def pbind_def skip_words_punct [OF wq])
  then have "parse_external_declaration P p = Parsed (Suc (mark p)) q'"
    using q(1) l prepeat_stop [where body = "more_declarators_round P", OF b]
    by (simp add: parse_external_declaration_def pif_words [OF assms(1)] at_words [OF assms(1)] pbind_def pret_def
        look_words [OF assms(1)] pif_words [OF wq] d is_declarator_start_def)
  moreover have "moved {} p 2 2 0 q'"
    using moved_trans [OF moved_trans [OF q(2) moved_ahead [OF moved_inv [OF q(2)], where n = 1]] q'(2)] by (simp add: numeral_2_eq_2)
  ultimately show ?thesis using q'(3) by blast
qed

lemma int_unit:
  assumes "words p = [(K_Keyword, ''int''), pw '';'', (K_EOF, [])]" and "roomy p 2 0"
  shows "\<exists>q. run_parser p = Parsed (Suc (mark p)) q \<and> moved {} p 2 2 0 q"
proof -
  let ?P = "parse_nt (Suc (tokens_left p))"
  from int_declaration [OF assms, of ?P] obtain q where
    q: "parse_external_declaration ?P p = Parsed (Suc (mark p)) q" "moved {} p 2 2 0 q" by blast
  have wq: "words q = [(K_EOF, [])]" unfolding moved_words [OF q(2)] assms(1) by simp
  have r1: "translation_unit_round ?P (NULL, NULL) p = Parsed (Inl (Suc (mark p), Suc (mark p))) q"
    using q(1) words_current [OF assms(1)]
    by (simp add: translation_unit_round_def pif_words [OF assms(1)] is_at_end_def pbind_def pcatch_def pret_def)
  have r2: "translation_unit_round ?P (Suc (mark p), Suc (mark p)) q = Parsed (Inr (Suc (mark p))) q"
    using words_current [OF wq] by (simp add: translation_unit_round_def pif_words [OF wq] is_at_end_def pret_def)
  have "tokens_left q < tokens_left p" using assms(1) wq by (simp add: words_tokens_left)
  from spins_break [where body = "translation_unit_round ?P", OF spins_one [where body = "translation_unit_round ?P", OF r1 this] r2] q(2) show ?thesis
    by (simp add: run_parser_def parse_translation_unit_def)
qed

section \<open>From the text of the source\<close>

lemma lex_int: "lex ''int;'' = [ptok K_Keyword ''int'' 1 1, ptok K_Punctuator '';'' 1 4, ptok K_EOF [] 1 5]"
  by (simp add: lex_def lex_step_def Let_def is_alpha_def is_digit_def punct_length_def parser_is_punctuator_def
      parser_punctuators_def char_is_whitespace_def pp_ident_char_def parser_is_keyword_def parser_keywords_def)

definition int_tokens :: "ctoken list" where
  "int_tokens = [plain_token T_Keyword ''int'', plain_token T_Whitespace '' '', plain_token T_Punctuator '';'']"

lemma arena8_room: "room arena8 2 0"
  using arena_reach_inv [OF arena8_reach] by (simp add: room_def) (simp add: arena8_def)

lemma int_source: "\<exists>q. parse ''int;'' (parser_new arena8) = Parsed 2 q"
proof -
  let ?p = "(parser_new arena8)\<lparr>p_tokens := lex ''int;'', p_current := 0, constant_ints := Map.empty\<rparr>"
  have "words ?p = [(K_Keyword, ''int''), pw '';'', (K_EOF, [])]" "p_arena ?p = arena8"
    by (simp_all add: words_def lex_int parser_new_def)
  with int_unit [of ?p] arena8_room show ?thesis
    by (auto simp: parse_def pbind_def pmodify_def mark_def) (auto simp: arena8_def numeral_2_eq_2)
qed

lemma int_token_list: "\<exists>q. parse_tokens int_tokens (parser_new arena8) = Parsed 2 q"
proof -
  let ?p = "(parser_new arena8)\<lparr>p_tokens := parser_tokens int_tokens, p_current := 0, constant_ints := Map.empty\<rparr>"
  have "words ?p = [(K_Keyword, ''int''), pw '';'', (K_EOF, [])]" "p_arena ?p = arena8"
    by (simp_all add: words_def int_tokens_def parser_tokens_def token_from_pp_def plain_token_def eof_token_def parser_new_def)
  with int_unit [of ?p] arena8_room show ?thesis
    by (auto simp: parse_tokens_def pbind_def pmodify_def mark_def) (auto simp: arena8_def numeral_2_eq_2)
qed

end
