(* ===== verification/ParserProps.thy ===== *)
theory ParserProps
  imports ParserTotal ParserSamples ResolverWalk
begin

text \<open>
  What holds of whole runs of the parser: it ends, builds a forest beside the nodes that were
  there, never reports an error, and what it builds can be resolved. The exception is inline
  assembly, where a loop of the parser may turn for ever.
\<close>

section \<open>Runs that start with new tokens\<close>

definition well_linked :: "arena \<Rightarrow> bool" where
  "well_linked A \<longleftrightarrow> arena_inv A \<and> forest A \<and> nodes_wf A"

definition asm_free :: "ptoken list \<Rightarrow> bool" where
  "asm_free ts \<longleftrightarrow> (\<forall>t \<in> set ts. pk_text t \<notin> set asm_words)"

text \<open>What a run that ends with \<open>root\<close> in the parser \<open>q\<close> leaves of the arena \<open>A\<close> it started with.\<close>

definition grown :: "arena \<Rightarrow> node_offset \<Rightarrow> arena \<Rightarrow> bool" where
  "grown A root B \<longleftrightarrow>
     well_linked B \<and> node_allocated A \<le> node_allocated B \<and>
     (\<forall>x < node_allocated A. arena_get B x = arena_get A x) \<and>
     (root = NULL \<or> node_allocated A \<le> root \<and> root < node_allocated B) \<and>
     (\<forall>x n. node_allocated A \<le> x \<longrightarrow> arena_get B x = Some n \<longrightarrow>
        (\<forall>y \<in> links n. y = NULL \<or> node_allocated A \<le> y \<and> y < node_allocated B))"

lemma asm_free_parser_tokens: "(\<forall>t \<in> set ts. ct_text t \<notin> set asm_words) \<Longrightarrow> asm_free (parser_tokens ts)"
  by (auto simp: asm_free_def parser_tokens_def token_from_pp_def eof_token_def asm_words_def)

lemma parser_tokens_ok: "asm_free (parser_tokens ts) \<Longrightarrow> tokens_ok (parser_tokens ts)"
  by (simp add: tokens_ok_def asm_free_def) (simp add: parser_tokens_def eof_token_def)

lemma lex_loop_last: "lex_loop cs line column \<noteq> [] \<and> pk_kind (last (lex_loop cs line column)) = K_EOF \<and>
    pk_text (last (lex_loop cs line column)) = []"
proof (induction cs line column rule: lex_loop.induct)
  case (2 ch cs line column)
  obtain ts r l k where s: "lex_step ch cs line column = (ts, r, l, k)" by (cases "lex_step ch cs line column") auto
  have "lex_loop (ch # cs) line column = ts @ lex_loop r l k" by (simp only: lex_loop.simps s prod.case)
  with 2 [of ts "(r, l, k)" r "(l, k)" l k] s show ?case by simp
qed simp

lemma lex_ok: "asm_free (lex source) \<Longrightarrow> tokens_ok (lex source)"
  using lex_loop_last [of source 1 1] by (simp add: tokens_ok_def asm_free_def lex_def)

lemma start_inv:
  "well_linked A \<Longrightarrow> tokens_ok ts \<Longrightarrow>
     parser_inv ((parser_new A)\<lparr>p_tokens := ts, p_current := 0, constant_ints := Map.empty\<rparr>)"
  by (simp add: parser_inv_def well_linked_def parser_new_def)

lemma ext_grown:
  assumes "ext p q" and "own p q r"
  shows "grown (p_arena p) r (p_arena q)"
proof -
  have "\<forall>y \<in> links n. y = 0 \<or> mark p \<le> y \<and> y < mark q" if "mark p \<le> x" "arena_get (p_arena q) x = Some n" for x n
  proof -
    have "closed_set (p_arena q) {mark p ..< mark q}" "x \<in> {mark p ..< mark q}"
      using assms(1) that(1) arena_get_bound [OF that(2)] by (auto simp: ext_def mark_def)
    from closed_setD [OF this that(2)] show ?thesis by auto
  qed
  then show ?thesis
    using assms extD(1) [OF assms(1)] by (auto simp: grown_def well_linked_def parser_inv_def ext_def own_def mark_def)
qed

lemma started_run:
  assumes "well_linked A" and "tokens_ok ts"
    and m: "res = run_parser ((parser_new A)\<lparr>p_tokens := ts, p_current := 0, constant_ints := Map.empty\<rparr>)"
  shows "res \<noteq> Stuck OutOfFuel \<and> (\<forall>r q. res = Parsed r q \<longrightarrow> grown A r (p_arena q) \<and> parser_inv q)"
proof -
  let ?p = "(parser_new A)\<lparr>p_tokens := ts, p_current := 0, constant_ints := Map.empty\<rparr>"
  have "p_arena ?p = A" by (simp add: parser_new_def)
  with run_parser_ok [OF start_inv [OF assms(1,2)]] ext_grown [of ?p] extD(1) [of ?p] show ?thesis
    unfolding m runs_def by (auto split: presult.splits)
qed

lemma parse_tokens_run:
  "parse_tokens ts p = run_parser (p\<lparr>p_tokens := parser_tokens ts, p_current := 0, constant_ints := Map.empty\<rparr>)"
  "parse source p = run_parser (p\<lparr>p_tokens := lex source, p_current := 0, constant_ints := Map.empty\<rparr>)"
  by (simp_all add: parse_tokens_def parse_def pbind_def pmodify_def)

lemma parsed_grown:
  "well_linked A \<Longrightarrow> \<forall>t \<in> set ts. ct_text t \<notin> set asm_words \<Longrightarrow> parse_tokens ts (parser_new A) = Parsed r q \<Longrightarrow>
     grown A r (p_arena q) \<and> parser_inv q"
  "well_linked A \<Longrightarrow> asm_free (lex source) \<Longrightarrow> parse source (parser_new A) = Parsed r q \<Longrightarrow>
     grown A r (p_arena q) \<and> parser_inv q"
  using started_run [OF _ parser_tokens_ok [OF asm_free_parser_tokens] parse_tokens_run(1)]
    started_run [OF _ lex_ok parse_tokens_run(2)] by blast+

lemma asm_free_int: "asm_free (lex ''int;'')" "\<forall>t \<in> set int_tokens. ct_text t \<notin> set asm_words"
  by (simp_all add: asm_free_def lex_int int_tokens_def plain_token_def ctoken_new_def asm_words_def)

lemma arena8_well_linked: "well_linked arena8"
proof -
  have none: "arena_get arena8 x = None" for x by (auto simp: arena_get_def arena8_def)
  then have "edges arena8 = {}" by (simp add: edges_def)
  with none arena_reach_inv [OF arena8_reach] show ?thesis
    by (simp add: well_linked_def forest_def nodes_wf_def acyclic_def)
qed

section \<open>The parser ends\<close>

text \<open>
  C3: The parser ends on every list of tokens, well formed or not, unless a token is one of the
  words for inline assembly: neither the recursion through the nonterminals nor any loop runs out
  of the rounds given by the number of tokens, and no walk over the nodes meets a cycle.
\<close>

theorem parser_ends:
  assumes "well_linked A"
  shows "((\<forall>t \<in> set ts. ct_text t \<notin> set asm_words) \<longrightarrow> parse_tokens ts (parser_new A) \<noteq> Stuck OutOfFuel) \<and>
    (asm_free (lex source) \<longrightarrow> parse source (parser_new A) \<noteq> Stuck OutOfFuel)"
  using started_run [OF assms parser_tokens_ok [OF asm_free_parser_tokens] parse_tokens_run(1)]
    started_run [OF assms lex_ok parse_tokens_run(2)] by blast

theorem parser_ends_witness:
  "parse_tokens int_tokens (parser_new arena8) \<noteq> Stuck OutOfFuel \<and> parse ''int;'' (parser_new arena8) \<noteq> Stuck OutOfFuel"
  using parser_ends [OF arena8_well_linked, of int_tokens "''int;''"] asm_free_int by simp

section \<open>No error is reported\<close>

text \<open>A computation that never returns an error.\<close>

definition quiet :: "'a pm \<Rightarrow> bool" where
  "quiet m \<longleftrightarrow> (\<forall>p e q. m p \<noteq> Failed e q)"

lemma quiet_simps [simp]: "quiet (pret v)" "quiet (pstuck s)" "quiet (look c)" "quiet (pget g)" "quiet (pmodify f)"
    "quiet (pcatch m)" "quiet p_advance" "quiet (set_next x y)"
  by (auto simp: quiet_def pret_def pstuck_def look_def pget_def pmodify_def pcatch_def p_advance_def set_next_def
      split: presult.splits)

lemma quiet_bind: "quiet m \<Longrightarrow> (\<And>x. quiet (k x)) \<Longrightarrow> quiet (pbind m k)"
  by (auto simp: quiet_def pbind_def split: presult.splits)

lemma quiet_pif: "quiet a \<Longrightarrow> quiet b \<Longrightarrow> quiet (pif c a b)"
  by (auto simp: pif_def intro!: quiet_bind)

lemma quiet_ploop: "(\<And>s. quiet (round s)) \<Longrightarrow> quiet (ploop n round s)"
  by (induction n arbitrary: s) (auto intro!: quiet_bind split: sum.split)

lemma quiet_translation_unit: "quiet (parse_translation_unit P)"
proof -
  have "quiet (translation_unit_round P ch)" for ch
    by (auto simp: translation_unit_round_def intro!: quiet_pif quiet_bind split: sum.split)
  then have "quiet (ploop n (translation_unit_round P) ch)" for n ch by (rule quiet_ploop)
  then show ?thesis
    unfolding parse_translation_unit_def prepeat_def quiet_def by (simp del: ploop.simps)
qed

text \<open>A translation unit returns only at the end of the tokens.\<close>

definition ends_there :: "'a pm \<Rightarrow> bool" where
  "ends_there m \<longleftrightarrow> (\<forall>p r q. m p = Parsed r q \<longrightarrow> is_at_end q)"

lemma translation_unit_round_end: "translation_unit_round P ch p = Parsed (Inr r) q \<Longrightarrow> is_at_end q"
  by (auto simp: translation_unit_round_def pif_def look_def pbind_def pret_def pcatch_def set_next_def pmodify_def p_advance_def
      split: if_splits presult.splits sum.splits)

lemma ploop_end: "(\<And>s p r q. round s p = Parsed (Inr r) q \<Longrightarrow> is_at_end q) \<Longrightarrow> ploop n round s p = Parsed r q \<Longrightarrow> is_at_end q"
  by (induction n arbitrary: s p) (auto simp: pstuck_def pbind_def pret_def split: presult.splits sum.splits)

lemma run_parser_end: "run_parser p = Parsed r q \<Longrightarrow> is_at_end q"
  unfolding run_parser_def parse_translation_unit_def prepeat_def
  by (rule ploop_end) (rule translation_unit_round_end)


text \<open>
  C21: The parser gets through its whole input: on every source without inline assembly it stops at
  the end of the tokens with a root, whatever errors it met on the way, or the process dies of a
  panic or of an access outside the mapping.
\<close>

theorem parser_reaches_end:
  assumes "well_linked A" and "asm_free (lex source)"
  shows "(\<exists>root q. parse source (parser_new A) = Parsed root q \<and> is_at_end q) \<or>
    parse source (parser_new A) = Stuck Panicked \<or> parse source (parser_new A) = Stuck Faulted"
proof (cases "parse source (parser_new A)")
  case (Failed e q)
  then show ?thesis using quiet_translation_unit unfolding parse_tokens_run run_parser_def quiet_def by blast
next
  case (Stuck s)
  with started_run [OF assms(1) lex_ok [OF assms(2)] parse_tokens_run(2)] show ?thesis by (cases s) auto
qed (use run_parser_end parse_tokens_run(2) in auto)

theorem parser_reaches_end_witness: "\<exists>q. parse ''int;'' (parser_new arena8) = Parsed 2 q \<and> is_at_end q"
  using parser_reaches_end [OF arena8_well_linked asm_free_int(1)] int_source by auto

section \<open>What is built\<close>

text \<open>
  C6: What the parser builds is a forest. When a run returns, the nodes that were in the arena are
  as they were, the root and every link of a new node lead to new nodes or nowhere, and the links of
  all nodes together are free of cycles, although the code relinks nodes it has already linked.
\<close>

theorem parser_builds_forest:
  assumes "well_linked A" and "\<forall>t \<in> set ts. ct_text t \<notin> set asm_words"
    and "parse_tokens ts (parser_new A) = Parsed root q"
  shows "grown A root (p_arena q)"
  using parsed_grown(1) [OF assms] by blast

theorem parser_builds_forest_witness:
  "\<exists>q. parse_tokens int_tokens (parser_new arena8) = Parsed 2 q \<and> grown arena8 2 (p_arena q)"
  using parser_builds_forest [OF arena8_well_linked asm_free_int(2)] int_token_list by blast

text \<open>
  C23: The widths of the fields are kept: after a run every node of the arena has values that fit the
  Rust types of its fields, and so do the kind and the tag recorded for every typedef.
\<close>

theorem parser_state_typed:
  assumes "well_linked A" and "asm_free (lex source)" and "parse source (parser_new A) = Parsed root q"
  shows "(\<forall>x n. arena_get (p_arena q) x = Some n \<longrightarrow> node_wf n) \<and>
    (\<forall>name k t. typedef_kinds q name = Some (k, t) \<longrightarrow> k < 2 ^ 16 \<and> t < 2 ^ 32) \<and> root < 2 ^ 32"
proof -
  from parsed_grown(2) [OF assms] have g: "grown A root (p_arena q)" "parser_inv q" by auto
  then have "root < node_allocated (p_arena q) \<or> root = NULL" "node_allocated (p_arena q) < 2 ^ 32"
    by (auto simp: grown_def parser_inv_def arena_inv_def)
  with g(2) show ?thesis by (auto simp: parser_inv_def nodes_wf_def)
qed

theorem parser_state_typed_witness:
  "\<exists>q. parse ''int;'' (parser_new arena8) = Parsed 2 q \<and> (\<forall>x n. arena_get (p_arena q) x = Some n \<longrightarrow> node_wf n)"
  using parser_state_typed [OF arena8_well_linked asm_free_int(1)] int_source by blast

lemma grown_ranked: "grown A root B \<Longrightarrow> ranked B (height B)"
  by (auto simp: grown_def well_linked_def ranked_def intro: height_first height_next)

text \<open>
  C22: What has been parsed can be resolved: a depth of recursion one above the number of nodes is
  enough for the type resolver on the tree of every source, whatever the state of the resolver.
\<close>

theorem parsed_source_resolves:
  assumes "well_linked A" and "asm_free (lex source)" and "parse source (parser_new A) = Parsed root q"
  shows "resolve (Suc (node_allocated (p_arena q))) (p_arena q) root st \<noteq> NoFuel"
proof -
  have g: "grown A root (p_arena q)" using parsed_grown(2) [OF assms] by blast
  then have "1 \<le> node_allocated (p_arena q)" by (simp add: grown_def well_linked_def arena_inv_def)
  from height_le [OF this, of root] have "height (p_arena q) root < Suc (node_allocated (p_arena q))" by simp
  from ends_belowD [OF resolve_node_ends [OF grown_ranked [OF g]] this]
  show ?thesis by (simp add: resolve_def run_bind_NoFuel)
qed

theorem parsed_source_resolves_witness:
  "\<exists>q. parse ''int;'' (parser_new arena8) = Parsed 2 q \<and>
     resolve (Suc (node_allocated (p_arena q))) (p_arena q) 2 (resolver_new type_system_new) \<noteq> NoFuel"
  using parsed_source_resolves [OF arena8_well_linked asm_free_int(1)] int_source by blast

end
