(* ===== verification/IrTree.thy ===== *)
theory IrTree
  imports ParserForest
begin

text \<open>
  How the backend (\<open>backend/llvm.rs\<close>) reads the tree of the parser: walks over siblings, names of
  declarators, attributes, constants, calls. A walk is a recursion with a number of rounds, since a
  damaged arena may have cycles; on a forest the rounds given are enough.
\<close>

section \<open>Walks over siblings\<close>

text \<open>
  \<open>while off != NULL \{ let Some(node) = arena.get(off) else \{ break \}; ...; off = node.next_sibling; \}\<close>.
  A round ends with \<open>next_round\<close> or leaves the loop with \<open>leave\<close>, by a \<open>break\<close> or a \<open>return\<close>.
\<close>

primrec siblings ::
  "nat \<Rightarrow> arena \<Rightarrow> (node_offset \<Rightarrow> cast_node \<Rightarrow> 's \<Rightarrow> ('s + 's) run) \<Rightarrow> node_offset \<Rightarrow> 's \<Rightarrow> 's run" where
  "siblings 0 A f off s = NoFuel"
| "siblings (Suc n) A f off s =
     (case arena_get A off of
        None \<Rightarrow> Done s
      | Some node \<Rightarrow>
          run_bind (f off node s) (\<lambda>r. case r of
            Inl s' \<Rightarrow> siblings n A f (next_sibling node) s'
          | Inr s' \<Rightarrow> Done s'))"

definition next_round :: "'s \<Rightarrow> ('s + 's) run" where
  "next_round s = Done (Inl s)"

definition leave :: "'s \<Rightarrow> ('s + 's) run" where
  "leave s = Done (Inr s)"

lemma siblings_inv:
  "siblings n A f off s = Done s' \<Longrightarrow> P s \<Longrightarrow>
     (\<And>x node s r. arena_get A x = Some node \<Longrightarrow> P s \<Longrightarrow> f x node s = Done r \<Longrightarrow> P (case r of Inl t \<Rightarrow> t | Inr t \<Rightarrow> t)) \<Longrightarrow> P s'"
proof (induction n arbitrary: off s)
  case (Suc n)
  show ?case
  proof (cases "arena_get A off")
    case (Some node)
    with Suc.prems(1) obtain r where r: "f off node s = Done r"
      "(case r of Inl t \<Rightarrow> siblings n A f (next_sibling node) t | Inr t \<Rightarrow> Done t) = Done s'" by auto
    with Suc.prems(3) [OF Some Suc.prems(2) r(1)] Suc.IH [OF _ _ Suc.prems(3)] show ?thesis by (cases r) auto
  qed (use Suc.prems in simp)
qed simp

definition ir_rounds :: "arena \<Rightarrow> nat" where
  "ir_rounds A = Suc (node_allocated A)"

text \<open>The loops that return the first result they find.\<close>

definition first_found ::
  "arena \<Rightarrow> (node_offset \<Rightarrow> cast_node \<Rightarrow> 'a option run) \<Rightarrow> node_offset \<Rightarrow> 'a option run" where
  "first_found A f off = siblings (ir_rounds A) A
     (\<lambda>x child s. run_bind (f x child) (\<lambda>r. if r = None then next_round None else leave r)) off None"

text \<open>\<open>arena.get_string\<close>; a panic or an access outside the mapping ends the run.\<close>

definition ir_text :: "arena \<Rightarrow> u32 \<Rightarrow> string option run" where
  "ir_text A off = (case get_string A off of Ret s \<Rightarrow> Done s | Panic \<Rightarrow> Crash | Fault \<Rightarrow> Crash)"

definition nonempty :: "string option \<Rightarrow> string option" where
  "nonempty s = (case s of None \<Rightarrow> None | Some t \<Rightarrow> if t = '''' then None else Some t)"

definition ident_text :: "arena \<Rightarrow> cast_node \<Rightarrow> string option run" where
  "ident_text A node = run_bind (ir_text A (node_data node)) (\<lambda>s. Done (nonempty s))"

definition declarator_kind :: "u16 \<Rightarrow> bool" where
  "declarator_kind k \<longleftrightarrow> k = 7 \<or> k = 8 \<or> k = 9"

section \<open>Names\<close>

text \<open>
  An identifier ends the search even when its text is empty; a declarator or an initialised
  declarator (73) without a name does not.
\<close>

primrec find_ident_name :: "nat \<Rightarrow> arena \<Rightarrow> cast_node \<Rightarrow> string option run" where
  "find_ident_name 0 A node = NoFuel"
| "find_ident_name (Suc n) A node = siblings (ir_rounds A) A
     (\<lambda>x child s.
        if kind child = 60 then run_bind (ident_text A child) leave
        else if declarator_kind (kind child) \<or> kind child = 73 then
          run_bind (find_ident_name n A child) (\<lambda>r. if r = None then next_round None else leave r)
        else next_round None) (first_child node) None"

definition ident_name :: "arena \<Rightarrow> cast_node \<Rightarrow> string option run" where
  "ident_name A node = find_ident_name (ir_rounds A) A node"

definition find_ident_name_in :: "arena \<Rightarrow> cast_node \<Rightarrow> string option run" where
  "find_ident_name_in A node =
     (if kind node = 60 then ident_text A node
      else if declarator_kind (kind node) then ident_name A node
      else Done None)"

primrec find_function_declarator_offset :: "nat \<Rightarrow> arena \<Rightarrow> node_offset \<Rightarrow> node_offset option run" where
  "find_function_declarator_offset 0 A off = NoFuel"
| "find_function_declarator_offset (Suc n) A off =
     (case arena_get A off of
        None \<Rightarrow> Done None
      | Some node \<Rightarrow>
          if kind node = 9 then Done (Some off)
          else if kind node \<in> {7, 8, 73, 20, 21, 22, 23, 24, 40} then
            first_found A (\<lambda>x child. find_function_declarator_offset n A x) (first_child node)
          else Done None)"

definition function_declarator :: "arena \<Rightarrow> node_offset \<Rightarrow> node_offset option run" where
  "function_declarator A off = find_function_declarator_offset (ir_rounds A) A off"

primrec find_function_declarator_root_offset :: "nat \<Rightarrow> arena \<Rightarrow> node_offset \<Rightarrow> node_offset option run" where
  "find_function_declarator_root_offset 0 A off = NoFuel"
| "find_function_declarator_root_offset (Suc n) A off =
     (case arena_get A off of
        None \<Rightarrow> Done None
      | Some node \<Rightarrow>
          if declarator_kind (kind node) then Done (Some off)
          else first_found A (\<lambda>x child. find_function_declarator_root_offset n A x) (first_child node))"

definition function_decl_param_offset :: "arena \<Rightarrow> cast_node \<Rightarrow> node_offset" where
  "function_decl_param_offset A func_decl =
     (case arena_get A (first_child func_decl) of Some child \<Rightarrow> next_sibling child | None \<Rightarrow> NULL)"

definition count_function_decl_params :: "arena \<Rightarrow> cast_node \<Rightarrow> nat run" where
  "count_function_decl_params A func_decl = siblings (ir_rounds A) A
     (\<lambda>x param count. next_round (if kind param = 24 then count + 1 else count))
     (function_decl_param_offset A func_decl) 0"

text \<open>A declarator without parameters gives way to one nested in it that has some.\<close>

definition select_callable_function_decl_offset :: "arena \<Rightarrow> node_offset \<Rightarrow> node_offset run" where
  "select_callable_function_decl_offset A func_decl_offset =
     (case arena_get A func_decl_offset of
        None \<Rightarrow> Done func_decl_offset
      | Some func_decl \<Rightarrow>
          run_bind (count_function_decl_params A func_decl) (\<lambda>direct_params.
          run_bind (if function_decl_param_offset A func_decl = NULL
                    then function_declarator A (first_child func_decl) else Done None) (\<lambda>nested.
          case nested of
            None \<Rightarrow> Done func_decl_offset
          | Some nested_off \<Rightarrow>
              if nested_off = func_decl_offset then Done func_decl_offset
              else case arena_get A nested_off of
                None \<Rightarrow> Done func_decl_offset
              | Some nested_decl \<Rightarrow>
                  run_bind (count_function_decl_params A nested_decl) (\<lambda>nested_params.
                  Done (if direct_params < nested_params then nested_off else func_decl_offset)))))"

text \<open>The name of a parameter: into declarators first, then along their siblings.\<close>

primrec find_ident_in_decl :: "nat \<Rightarrow> arena \<Rightarrow> node_offset \<Rightarrow> string option run" where
  "find_ident_in_decl 0 A off = NoFuel"
| "find_ident_in_decl (Suc n) A off =
     (case arena_get A off of
        None \<Rightarrow> Done None
      | Some node \<Rightarrow>
          run_bind (if kind node = 60 then ir_text A (node_data node) else Done (Some '''')) (\<lambda>own.
          if own = None then Done None
          else if nonempty own \<noteq> None then Done own
          else run_bind (if declarator_kind (kind node) \<and> first_child node \<noteq> NULL
                         then find_ident_in_decl n A (first_child node) else Done None) (\<lambda>below.
          if below \<noteq> None then Done below
          else if next_sibling node \<noteq> NULL \<and> (declarator_kind (kind node) \<or> kind node = 60)
          then find_ident_in_decl n A (next_sibling node)
          else Done None)))"

text \<open>The variable at the root of \<open>a.b.c\<close>.\<close>

primrec find_member_access_root_var :: "nat \<Rightarrow> arena \<Rightarrow> cast_node \<Rightarrow> string option run" where
  "find_member_access_root_var 0 A node = NoFuel"
| "find_member_access_root_var (Suc n) A node =
     (case arena_get A (first_child node) of
        None \<Rightarrow> Done None
      | Some base \<Rightarrow>
          if kind base = 60 then ir_text A (node_data base)
          else if kind base = 69 then find_member_access_root_var n A base
          else Done None)"

section \<open>Attributes\<close>

type_synonym ir_attr = "string \<times> string option \<times> u32 option"

definition attr_args ::
  "arena \<Rightarrow> node_offset \<Rightarrow> string option \<times> u32 option \<Rightarrow> (string option \<times> u32 option) run" where
  "attr_args A off = siblings (ir_rounds A) A
     (\<lambda>x arg (str_arg, int_arg).
        if kind arg = 63 then run_bind (ir_text A (node_data arg)) (\<lambda>s. next_round (s, int_arg))
        else if kind arg = 61 then next_round (str_arg, Some (node_data arg))
        else next_round (str_arg, int_arg)) off"

text \<open>One attribute: its name is in the parent field when that is set, else in the child field.\<close>

definition attr_entry :: "arena \<Rightarrow> cast_node \<Rightarrow> ir_attr list run" where
  "attr_entry A node =
     run_bind (ir_text A (if parent node \<noteq> NULL then parent node else first_child node)) (\<lambda>name.
     case nonempty name of
       None \<Rightarrow> Done []
     | Some name \<Rightarrow>
         run_bind (attr_args A (if parent node \<noteq> NULL then first_child node else next_sibling node)
             (None, if node_data node \<noteq> 0 then Some (node_data node) else None)) (\<lambda>(str_arg, int_arg).
         Done [(name, str_arg, int_arg)]))"

primrec collect_attributes_from_chain :: "nat \<Rightarrow> arena \<Rightarrow> node_offset \<Rightarrow> ir_attr list \<Rightarrow> ir_attr list run" where
  "collect_attributes_from_chain 0 A off attrs = NoFuel"
| "collect_attributes_from_chain (Suc n) A off attrs = siblings (ir_rounds A) A
     (\<lambda>x child attrs.
        if kind child = 200 then
          run_bind (siblings (ir_rounds A) A
             (\<lambda>y attr_child attrs. run_bind (attr_entry A attr_child) (\<lambda>new. next_round (attrs @ new)))
             (first_child child) attrs) next_round
        else if first_child child \<noteq> NULL then
          run_bind (collect_attributes_from_chain n A (first_child child) attrs) next_round
        else next_round attrs) off attrs"

definition extract_attributes :: "arena \<Rightarrow> cast_node \<Rightarrow> ir_attr list run" where
  "extract_attributes A node = collect_attributes_from_chain (ir_rounds A) A (first_child node) []"

definition has_attr :: "string list \<Rightarrow> ir_attr list \<Rightarrow> bool" where
  "has_attr names attrs \<longleftrightarrow> (\<exists>a \<in> set attrs. fst a \<in> set names)"

definition node_has_attr :: "arena \<Rightarrow> cast_node \<Rightarrow> string list \<Rightarrow> bool run" where
  "node_has_attr A node names = run_bind (extract_attributes A node) (\<lambda>attrs. Done (has_attr names attrs))"

section \<open>Constants\<close>

text \<open>The operators on \<open>i64\<close>: sums, differences, products and shifts wrap, a negation may overflow.\<close>

definition ir_unary :: "u32 \<Rightarrow> int \<Rightarrow> int option run" where
  "ir_unary op v =
     (if op = 1 then (if v = - (2 ^ 63) then Crash else Done (Some (- v)))
      else if op = 2 then Done (Some (if v = 0 then 1 else 0))
      else if op = 3 then Done (Some (- v - 1))
      else Done None)"

definition ir_binary :: "u32 \<Rightarrow> int \<Rightarrow> int \<Rightarrow> int option" where
  "ir_binary op lhs rhs =
     (if op = 1 then Some (to_i64 (lhs + rhs))
      else if op = 2 then Some (to_i64 (lhs - rhs))
      else if op = 3 then Some (to_i64 (lhs * rhs))
      else if op = 4 then (if rhs = 0 then None else Some (to_i64 (lhs sdiv rhs)))
      else if op = 5 then (if rhs = 0 then None else Some (to_i64 (lhs smod rhs)))
      else if op = 12 \<or> op = 14 then Some (and lhs rhs)
      else if op = 13 \<or> op = 15 then Some (or lhs rhs)
      else if op = 16 then Some (xor lhs rhs)
      else if op = 17 then Some (to_i64 (lhs * 2 ^ nat (rhs mod 64)))
      else if op = 18 then Some (lhs div 2 ^ nat (rhs mod 64))
      else None)"

text \<open>Where the operands are: in the wrapper of the parser, or the right one beside the left or the node.\<close>

definition ir_operands :: "arena \<Rightarrow> cast_node \<Rightarrow> node_offset \<times> node_offset" where
  "ir_operands A node =
     (case arena_get A (first_child node) of
        Some wrapper \<Rightarrow>
          if kind wrapper = 0 \<and> first_child wrapper \<noteq> NULL \<and> next_sibling wrapper \<noteq> NULL
          then (first_child wrapper, next_sibling wrapper)
          else (first_child node,
                if next_sibling wrapper \<noteq> NULL then next_sibling wrapper else next_sibling node)
      | None \<Rightarrow> (first_child node, NULL))"

primrec eval_const_int_expr :: "nat \<Rightarrow> arena \<Rightarrow> node_offset \<Rightarrow> int option run" where
  "eval_const_int_expr 0 A off = NoFuel"
| "eval_const_int_expr (Suc n) A off =
     (case arena_get A off of
        None \<Rightarrow> Done None
      | Some node \<Rightarrow>
          if kind node = 0 \<or> kind node = 74 then
            (if first_child node \<noteq> NULL then eval_const_int_expr n A (first_child node) else Done None)
          else if kind node = 61 \<or> kind node = 80 \<or> kind node = 62 then Done (Some (int (node_data node)))
          else if kind node = 65 then
            when_done (eval_const_int_expr n A (first_child node)) (ir_unary (node_data node))
          else if kind node = 64 then
            when_done (eval_const_int_expr n A (fst (ir_operands A node))) (\<lambda>lhs.
            when_done (eval_const_int_expr n A (snd (ir_operands A node))) (\<lambda>rhs.
            Done (ir_binary (node_data node) lhs rhs)))
          else Done None)"

definition infer_array_declarator_len :: "arena \<Rightarrow> cast_node \<Rightarrow> u32 option run" where
  "infer_array_declarator_len A decl =
     (if kind decl \<noteq> 8 then Done None
      else if 0 < node_data decl then Done (Some (node_data decl))
      else when_done (eval_const_int_expr (ir_rounds A) A (first_child decl)) (\<lambda>v.
        Done (if 0 < v \<and> v < 2 ^ 32 then Some (nat v) else None)))"

primrec lower_builtin_int_constant :: "nat \<Rightarrow> arena \<Rightarrow> node_offset \<Rightarrow> u64 option run" where
  "lower_builtin_int_constant 0 A off = NoFuel"
| "lower_builtin_int_constant (Suc n) A off =
     (case arena_get A off of
        None \<Rightarrow> Done None
      | Some node \<Rightarrow>
          if kind node = 61 then Done (Some (node_data node))
          else if kind node = 74 then lower_builtin_int_constant n A (first_child node)
          else Done None)"

text \<open>\<open>count_init_elements\<close> counts an offset that is no node and stops there.\<close>

primrec count_init_elements :: "nat \<Rightarrow> arena \<Rightarrow> node_offset \<Rightarrow> u32 run" where
  "count_init_elements 0 A off = NoFuel"
| "count_init_elements (Suc n) A off =
     (if off = NULL then Done 0
      else case arena_get A off of
        None \<Rightarrow> Done 1
      | Some node \<Rightarrow> run_bind (count_init_elements n A (next_sibling node)) (\<lambda>c. run_of (chk_add 32 c 1)))"

end
