(* ===== verification/IrTypes.thy ===== *)
theory IrTypes
  imports IrTree TypeSystem "HOL-Library.AList"
begin

text \<open>
  The types the backend (\<open>backend/llvm.rs\<close>) builds for declarations: the fields of structures with
  their bit-fields, the table of tags, and the sizes it computes for \<open>sizeof\<close>.
\<close>

section \<open>LLVM types\<close>

text \<open>
  The variants of \<open>BasicTypeEnum\<close>, with what the code reads of them: the width of an integer or float,
  element and length of an array, packing and fields of a structure. No vector type is ever built.
\<close>

datatype ll_type =
    LL_Int nat
  | LL_Float nat
  | LL_Ptr
  | LL_Array ll_type u32
  | LL_Struct bool "ll_type list"
  | LL_Vector
  | LL_ScalableVector

text \<open>Function types: the result (\<open>None\<close> for \<open>void\<close>), the parameters, and whether more may follow.\<close>

type_synonym ll_fn = "ll_type option \<times> ll_type list \<times> bool"

definition node_kind_to_llvm_type :: "u16 \<Rightarrow> ll_type" where
  "node_kind_to_llvm_type k =
     (if k = 1 then LL_Int 8 else if k = 2 then LL_Int 32 else if k = 3 then LL_Int 8
      else if k = 7 then LL_Ptr else if k = 6 then LL_Int 32 else if k = 10 then LL_Int 16
      else if k = 11 then LL_Int 64 else if k = 12 \<or> k = 13 then LL_Int 32 else if k = 16 then LL_Ptr
      else if k = 83 then LL_Float 32 else if k = 84 then LL_Float 64 else LL_Int 32)"

definition node_kind_bit_width :: "u16 \<Rightarrow> u32" where
  "node_kind_bit_width k =
     (if k = 1 \<or> k = 3 then 8 else if k = 10 then 16 else if k \<in> {2, 6, 12, 13} then 32
      else if k = 11 then 64 else 32)"

text \<open>The types of the type table. The cache of \<open>to_llvm_type\<close> only remembers results.\<close>

fun run_map :: "('a \<Rightarrow> 'b run) \<Rightarrow> 'a list \<Rightarrow> 'b list run" where
  "run_map f [] = Done []"
| "run_map f (x # xs) = run_bind (f x) (\<lambda>y. run_bind (run_map f xs) (\<lambda>ys. Done (y # ys)))"

primrec to_llvm_type :: "nat \<Rightarrow> type_system option \<Rightarrow> type_id \<Rightarrow> ll_type run" where
  "to_llvm_type 0 tys t = NoFuel"
| "to_llvm_type (Suc n) tys t =
     (case tys of
        None \<Rightarrow> Done (LL_Int 32)
      | Some ts \<Rightarrow>
          (case get_type ts t of
             None \<Rightarrow> Done (LL_Int 32)
           | Some ty \<Rightarrow>
               (case ty of
                  TVoid \<Rightarrow> Done (LL_Int 8)
                | TBool \<Rightarrow> Done (LL_Int 1)
                | TChar s \<Rightarrow> Done (LL_Int 8)
                | TShort s \<Rightarrow> Done (LL_Int 16)
                | TInt s \<Rightarrow> Done (LL_Int 32)
                | TLong s \<Rightarrow> Done (LL_Int 64)
                | TLongLong s \<Rightarrow> Done (LL_Int 64)
                | TFloat \<Rightarrow> Done (LL_Float 32)
                | TDouble \<Rightarrow> Done (LL_Float 64)
                | TLongDouble \<Rightarrow> Done (LL_Float 64)
                | TPointer b \<Rightarrow> Done LL_Ptr
                | TArray e sz \<Rightarrow>
                    run_bind (to_llvm_type n tys e) (\<lambda>elem.
                    Done (LL_Array elem ((case sz of Some k \<Rightarrow> k | None \<Rightarrow> 0) mod 2 ^ 32)))
                | TStruct tag members sz align \<Rightarrow>
                    run_bind (run_map (\<lambda>m. to_llvm_type n tys (m_type m)) members) (\<lambda>fs.
                    Done (if fs = [] then LL_Int 8 else LL_Struct (align = 1) fs))
                | TUnion tag members sz align \<Rightarrow> Done (LL_Array (LL_Int 8) 1)
                | TEnum tag b \<Rightarrow> Done (LL_Int 32)
                | TFunction r ps v \<Rightarrow> Done (LL_Int 32)
                | TTypedef name u \<Rightarrow> to_llvm_type n tys u
                | TQualified q b \<Rightarrow> to_llvm_type n tys b)))"

section \<open>Names of the members of a record\<close>

text \<open>The first of these siblings for which \<open>f\<close> yields a name.\<close>

definition own_name :: "arena \<Rightarrow> cast_node \<Rightarrow> string option run" where
  "own_name A node = (if kind node = 60 then ir_text A (node_data node) else Done None)"

definition ident_among :: "arena \<Rightarrow> node_offset \<Rightarrow> string option run" where
  "ident_among A off = first_found A (\<lambda>x node. own_name A node) off"

text \<open>Inside a function declarator: an identifier, or one inside a pointer.\<close>

definition fn_declarator_name :: "arena \<Rightarrow> cast_node \<Rightarrow> string option run" where
  "fn_declarator_name A node =
     first_found A (\<lambda>x c. if kind c = 7 then ident_among A (first_child c) else own_name A c) (first_child node)"

definition member_child_name :: "arena \<Rightarrow> cast_node \<Rightarrow> string option run" where
  "member_child_name A child =
     (if kind child = 60 then own_name A child
      else if kind child = 27 then ident_among A (first_child child)
      else if kind child = 7 \<or> kind child = 8 then
        first_found A (\<lambda>x c. if kind c = 9 then fn_declarator_name A c else own_name A c) (first_child child)
      else if kind child = 9 then fn_declarator_name A child
      else Done None)"

definition unnamed_field :: "nat \<Rightarrow> string" where
  "unnamed_field i = ''_field'' @ digits i"

definition collect_struct_field_names :: "arena \<Rightarrow> cast_node \<Rightarrow> string list run" where
  "collect_struct_field_names A node = siblings (ir_rounds A) A
     (\<lambda>x member names.
        if kind member = 200 then next_round names
        else run_bind (first_found A (\<lambda>y child. member_child_name A child) (first_child member)) (\<lambda>r.
          next_round (names @ [case r of Some name \<Rightarrow> name | None \<Rightarrow> unnamed_field (length names)])))
     (first_child node) []"

section \<open>Types of members\<close>

record struct_tables =
  struct_tag_types :: "string \<rightharpoonup> bool \<times> ll_type list"
  struct_tag_fields :: "string \<rightharpoonup> string list"
  struct_field_fn_types :: "string \<rightharpoonup> (string \<times> ll_fn) list"
  struct_gep_info :: "string \<rightharpoonup> (string \<times> u32 \<times> (u32 \<times> u32) option) list"

text \<open>
  Consecutive bit-fields of one kind share a storage unit of that kind: the kind, the bits used, the
  bits there are. \<open>place_bits\<close> tells whether a new unit is begun, the group after, and the first bit.
\<close>

type_synonym bit_group = "u16 \<times> u32 \<times> u32"

definition place_bits :: "bit_group option \<Rightarrow> u16 \<Rightarrow> u32 \<Rightarrow> (bool \<times> bit_group \<times> u32) option" where
  "place_bits grp base bw =
     (let fresh = (True, (base, bw, node_kind_bit_width base), 0) in
      case grp of
        None \<Rightarrow> Some fresh
      | Some (grp_kind, bits_used, capacity) \<Rightarrow>
          if grp_kind = base then
            case chk_add 32 bits_used bw of
              None \<Rightarrow> None
            | Some s \<Rightarrow> Some (if s \<le> capacity then (False, (grp_kind, s, capacity), bits_used) else fresh)
          else Some fresh)"

text \<open>What a scan of a member finds.\<close>

record member_scan =
  base_kind :: u16
  has_pointer :: bool
  return_has_pointer :: bool
  array_len :: "u32 option"
  bitfield_width :: "u32 option"
  spec_offset :: node_offset
  fn_declarator_off :: node_offset

definition member_scan_start :: member_scan where
  "member_scan_start =
     \<lparr>base_kind = 2, has_pointer = False, return_has_pointer = False, array_len = None, bitfield_width = None,
      spec_offset = NULL, fn_declarator_off = NULL\<rparr>"

definition scan_base :: "node_offset \<Rightarrow> cast_node \<Rightarrow> member_scan \<Rightarrow> member_scan" where
  "scan_base x node s =
     (if kind node = 4 \<or> kind node = 5 then s\<lparr>base_kind := kind node, spec_offset := x\<rparr>
      else s\<lparr>base_kind := kind node\<rparr>)"

definition scan_array :: "arena \<Rightarrow> cast_node \<Rightarrow> member_scan \<Rightarrow> member_scan run" where
  "scan_array A node s = run_bind (infer_array_declarator_len A node) (\<lambda>len.
     Done (if len = None then s else s\<lparr>array_len := len\<rparr>))"

definition scan_width :: "cast_node \<Rightarrow> member_scan \<Rightarrow> member_scan" where
  "scan_width node s = (if 0 < node_data node then s\<lparr>bitfield_width := Some (node_data node)\<rparr> else s)"

text \<open>The type of a record or a basic kind, given the lowering of specifiers.\<close>

definition scanned_type :: "(cast_node \<Rightarrow> ll_type run) \<Rightarrow> arena \<Rightarrow> member_scan \<Rightarrow> ll_type run" where
  "scanned_type spec A s =
     (if (base_kind s = 4 \<or> base_kind s = 5) \<and> spec_offset s \<noteq> NULL then
        (case arena_get A (spec_offset s) of
           Some sn \<Rightarrow> spec sn | None \<Rightarrow> Done (node_kind_to_llvm_type (base_kind s)))
      else Done (node_kind_to_llvm_type (base_kind s)))"

section \<open>Records without an entry in the table\<close>

definition build_scan_step :: "arena \<Rightarrow> node_offset \<Rightarrow> cast_node \<Rightarrow> member_scan \<Rightarrow> member_scan run" where
  "build_scan_step A x cn s =
     (let k = kind cn in
      if 1 \<le> k \<and> k \<le> 6 \<or> 10 \<le> k \<and> k \<le> 13 \<or> k = 83 \<or> k = 84 then Done (scan_base x cn s)
      else if k = 7 \<or> k = 9 then Done (s\<lparr>has_pointer := True\<rparr>)
      else if k = 8 then scan_array A cn s
      else if k = 27 then Done (scan_width cn s)
      else Done s)"

definition build_member ::
  "(cast_node \<Rightarrow> ll_type run) \<Rightarrow> arena \<Rightarrow> cast_node \<Rightarrow> ll_type list \<times> bit_group option \<Rightarrow>
     (ll_type list \<times> bit_group option) run" where
  "build_member spec A member = (\<lambda>(field_types, grp).
     run_bind (siblings (ir_rounds A) A (\<lambda>x cn s. run_bind (build_scan_step A x cn s) next_round)
       (first_child member) member_scan_start) (\<lambda>s.
     case bitfield_width s of
       Some bw \<Rightarrow>
         run_bind (run_of (place_bits grp (base_kind s) bw)) (\<lambda>(new_unit, grp', bit).
         Done (if new_unit then field_types @ [node_kind_to_llvm_type (base_kind s)] else field_types, Some grp'))
     | None \<Rightarrow>
         if has_pointer s then Done (field_types @ [LL_Ptr], None)
         else run_bind (scanned_type spec A s) (\<lambda>ty.
           Done (field_types @ [case array_len s of Some len \<Rightarrow> LL_Array ty len | None \<Rightarrow> ty], None))))"

definition build_struct_llvm_type :: "(cast_node \<Rightarrow> ll_type run) \<Rightarrow> arena \<Rightarrow> cast_node \<Rightarrow> ll_type run" where
  "build_struct_llvm_type spec A node =
     run_bind (siblings (ir_rounds A) A
       (\<lambda>x member st. if kind member = 200 then next_round st else run_bind (build_member spec A member st) next_round)
       (first_child node) ([], None)) (\<lambda>(field_types, grp).
     if field_types = [] then Done (LL_Int 8)
     else run_bind (node_has_attr A node [''packed'', ''__packed__'']) (\<lambda>packed.
       Done (LL_Struct packed field_types)))"

definition tag_text :: "arena \<Rightarrow> cast_node \<Rightarrow> string option run" where
  "tag_text A spec = (if node_data spec \<noteq> 0 then ir_text A (node_data spec) else Done None)"

definition tag_lookup :: "(string \<rightharpoonup> 'a) \<Rightarrow> string option \<Rightarrow> 'a option" where
  "tag_lookup m tag = (case tag of Some t \<Rightarrow> m t | None \<Rightarrow> None)"

definition struct_info_with ::
  "(cast_node \<Rightarrow> ll_type run) \<Rightarrow> struct_tables \<Rightarrow> arena \<Rightarrow> cast_node \<Rightarrow>
     ((bool \<times> ll_type list) \<times> string list) option run" where
  "struct_info_with spec T A node =
     (if kind node = 60 then
        when_done (ir_text A (node_data node)) (\<lambda>name.
        case struct_tag_types T name of
          None \<Rightarrow> Done None
        | Some st \<Rightarrow> Done (Some (st, case struct_tag_fields T name of Some fs \<Rightarrow> fs | None \<Rightarrow> [])))
      else if \<not> (kind node = 4 \<or> kind node = 5) then Done None
      else
        run_bind (tag_text A node) (\<lambda>tag.
        when_done
          (case tag_lookup (struct_tag_types T) tag of
             Some st \<Rightarrow> Done (Some st)
           | None \<Rightarrow> run_bind (build_struct_llvm_type spec A node) (\<lambda>ty.
               Done (case ty of LL_Struct packed fs \<Rightarrow> Some (packed, fs) | _ \<Rightarrow> None))) (\<lambda>st.
        run_bind
          (case tag_lookup (struct_tag_fields T) tag of
             Some names \<Rightarrow> Done names
           | None \<Rightarrow> collect_struct_field_names A node) (\<lambda>names.
        Done (Some (st, names))))))"

text \<open>A record specifier gives its record type or \<open>i32\<close>, a typedef name the record of that tag.\<close>

primrec specifier_type_at :: "nat \<Rightarrow> struct_tables \<Rightarrow> arena \<Rightarrow> cast_node \<Rightarrow> ll_type run" where
  "specifier_type_at 0 T A node = NoFuel"
| "specifier_type_at (Suc n) T A node =
     (if kind node = 4 \<or> kind node = 5 then
        run_bind (struct_info_with (specifier_type_at n T A) T A node) (\<lambda>r.
        Done (case r of Some ((packed, fs), names) \<Rightarrow> LL_Struct packed fs | None \<Rightarrow> LL_Int 32))
      else if kind node = 60 then
        run_bind (ir_text A (node_data node)) (\<lambda>name.
        Done (case tag_lookup (struct_tag_types T) name of
          Some (packed, fs) \<Rightarrow> LL_Struct packed fs | None \<Rightarrow> node_kind_to_llvm_type (kind node)))
      else Done (node_kind_to_llvm_type (kind node)))"

definition specifier_to_llvm_type :: "struct_tables \<Rightarrow> arena \<Rightarrow> cast_node \<Rightarrow> ll_type run" where
  "specifier_to_llvm_type T A = specifier_type_at (ir_rounds A) T A"

definition struct_info_for_spec ::
  "struct_tables \<Rightarrow> arena \<Rightarrow> cast_node option \<Rightarrow> ((bool \<times> ll_type list) \<times> string list) option run" where
  "struct_info_for_spec T A spec_node =
     (case spec_node of None \<Rightarrow> Done None | Some node \<Rightarrow> struct_info_with (specifier_to_llvm_type T A) T A node)"

section \<open>Declarators and parameters\<close>

definition contains_pointer :: "arena \<Rightarrow> node_offset \<Rightarrow> bool run" where
  "contains_pointer A off = siblings (ir_rounds A) A
     (\<lambda>x node s. if kind node = 7 then leave True else next_round False) off False"

definition declarator_llvm_type :: "arena \<Rightarrow> cast_node option \<Rightarrow> ll_type \<Rightarrow> ll_type run" where
  "declarator_llvm_type A declarator base_type =
     (case declarator of
        None \<Rightarrow> Done base_type
      | Some decl \<Rightarrow>
          if kind decl = 7 then Done LL_Ptr
          else if kind decl = 8 then Done (LL_Array base_type (node_data decl))
          else if kind decl = 9 then
            run_bind (contains_pointer A (first_child decl)) (\<lambda>p. Done (if p then LL_Ptr else base_type))
          else Done base_type)"

text \<open>The parameters of a function declarator; an offset that is no node makes the type unknown.\<close>

primrec param_types :: "nat \<Rightarrow> (cast_node \<Rightarrow> ll_type run) \<Rightarrow> arena \<Rightarrow> node_offset \<Rightarrow> ll_type list \<Rightarrow> ll_type list option run" where
  "param_types 0 param A off ps = NoFuel"
| "param_types (Suc n) param A off ps =
     (if off = NULL then Done (Some ps)
      else case arena_get A off of
        None \<Rightarrow> Done None
      | Some node \<Rightarrow>
          run_bind (if kind node = 24 then run_bind (param node) (\<lambda>t. Done (ps @ [t])) else Done ps) (\<lambda>ps.
          param_types n param A (next_sibling node) ps))"

definition function_type_with ::
  "(cast_node \<Rightarrow> ll_type run) \<Rightarrow> arena \<Rightarrow> cast_node option \<Rightarrow> ll_type \<Rightarrow> u16 \<Rightarrow> ll_fn option run" where
  "function_type_with param A declarator base_type base =
     (case declarator of
        None \<Rightarrow> Done None
      | Some decl \<Rightarrow>
          if kind decl \<noteq> 9 then Done None
          else case arena_get A (first_child decl) of
            None \<Rightarrow> Done None
          | Some pointer_decl \<Rightarrow>
              if kind pointer_decl \<noteq> 7 then Done None
              else when_done (param_types (ir_rounds A) param A (next_sibling pointer_decl) []) (\<lambda>ps.
                Done (Some (if base = 1 then None else Some base_type, ps, node_data decl = 1))))"

text \<open>The name of a parameter, \<open>p\<close> if there is none, and the last declarator met on the way.\<close>

definition param_name :: "arena \<Rightarrow> node_offset \<Rightarrow> (string \<times> node_offset) run" where
  "param_name A off = siblings (ir_rounds A) A
     (\<lambda>x node (name, decl).
        let decl' = (if declarator_kind (kind node) \<or> kind node = 60 then x else decl) in
        run_bind (if kind node = 60 then ident_text A node
                  else if declarator_kind (kind node) \<and> first_child node \<noteq> NULL
                  then find_ident_in_decl (ir_rounds A) A (first_child node) else Done None) (\<lambda>found.
        case found of Some s \<Rightarrow> leave (s, decl') | None \<Rightarrow> next_round (name, decl')))
     off (''p'', NULL)"

definition param_llvm_type :: "arena \<Rightarrow> node_offset \<Rightarrow> ll_type \<Rightarrow> ll_type run" where
  "param_llvm_type A decl base_type =
     (case arena_get A decl of
        None \<Rightarrow> Done base_type
      | Some decl_node \<Rightarrow>
          if kind decl_node = 9 then
            run_bind (contains_pointer A (first_child decl_node)) (\<lambda>has_ptr.
            if has_ptr then Done LL_Ptr else declarator_llvm_type A (Some decl_node) base_type)
          else declarator_llvm_type A (Some decl_node) base_type)"

type_synonym param_info =
  "ll_type \<times> string \<times> ((bool \<times> ll_type list) \<times> string list) option \<times> ll_fn option"

primrec extract_param_type_name :: "nat \<Rightarrow> struct_tables \<Rightarrow> arena \<Rightarrow> cast_node \<Rightarrow> param_info run" where
  "extract_param_type_name 0 T A param = NoFuel"
| "extract_param_type_name (Suc n) T A param =
     (let spec_node = arena_get A (first_child param);
          type_kind = (case spec_node of Some sn \<Rightarrow> kind sn | None \<Rightarrow> 2) in
      run_bind (case spec_node of Some sn \<Rightarrow> specifier_to_llvm_type T A sn | None \<Rightarrow> Done (LL_Int 32)) (\<lambda>base_type.
      run_bind (param_name A (first_child param)) (\<lambda>(name, decl).
      run_bind (param_llvm_type A decl base_type) (\<lambda>llvm_type.
      run_bind (function_type_with (\<lambda>p. run_bind (extract_param_type_name n T A p) (\<lambda>r. Done (fst r)))
          A (arena_get A decl) base_type type_kind) (\<lambda>function_type.
      run_bind (struct_info_for_spec T A spec_node) (\<lambda>info.
      Done (llvm_type, name, info, function_type)))))))"

definition function_type_from_declarator ::
  "struct_tables \<Rightarrow> arena \<Rightarrow> cast_node option \<Rightarrow> ll_type \<Rightarrow> u16 \<Rightarrow> ll_fn option run" where
  "function_type_from_declarator T A =
     function_type_with (\<lambda>p. run_bind (extract_param_type_name (ir_rounds A) T A p) (\<lambda>r. Done (fst r))) A"

section \<open>Registration of tagged records\<close>

text \<open>
  The scan over the whole subtree of a member with a stack of offsets: siblings are walked first, the
  children of each are pushed.
\<close>

primrec subtree_scan ::
  "nat \<Rightarrow> arena \<Rightarrow> (node_offset \<Rightarrow> cast_node \<Rightarrow> 's \<Rightarrow> 's run) \<Rightarrow> node_offset list \<Rightarrow> 's \<Rightarrow> 's run" where
  "subtree_scan 0 A f stack s = NoFuel"
| "subtree_scan (Suc n) A f stack s =
     (case stack of
        [] \<Rightarrow> Done s
      | off # rest \<Rightarrow>
          run_bind (siblings (ir_rounds A) A
            (\<lambda>x node (s, st). run_bind (f x node s) (\<lambda>s'.
               next_round (s', if first_child node \<noteq> NULL then first_child node # st else st)))
            off (s, rest)) (\<lambda>(s, st). subtree_scan n A f st s))"

definition register_scan_step :: "arena \<Rightarrow> node_offset \<Rightarrow> cast_node \<Rightarrow> member_scan \<Rightarrow> member_scan run" where
  "register_scan_step A x cn s =
     (let k = kind cn in
      if 1 \<le> k \<and> k \<le> 6 \<or> 10 \<le> k \<and> k \<le> 13 \<or> k = 16 \<or> k = 83 \<or> k = 84 then Done (scan_base x cn s)
      else if k = 7 then
        Done (case arena_get A (first_child cn) of
          Some inner \<Rightarrow>
            if kind inner = 9
            then s\<lparr>has_pointer := True, fn_declarator_off := first_child cn, return_has_pointer := True\<rparr>
            else s\<lparr>has_pointer := True\<rparr>
        | None \<Rightarrow> s\<lparr>has_pointer := True\<rparr>)
      else if k = 9 then Done (s\<lparr>has_pointer := True, fn_declarator_off := x\<rparr>)
      else if k = 8 then scan_array A cn s
      else if k = 27 then Done (scan_width cn s)
      else Done s)"

text \<open>The kind of the last specifier before the declarator.\<close>

definition declared_base_kind :: "arena \<Rightarrow> cast_node \<Rightarrow> u16 run" where
  "declared_base_kind A member = siblings (ir_rounds A) A
     (\<lambda>x dn k.
        if 1 \<le> kind dn \<and> kind dn \<le> 6 \<or> 10 \<le> kind dn \<and> kind dn \<le> 13 \<or> kind dn = 16 \<or> kind dn = 83 \<or> kind dn = 84
        then next_round (kind dn)
        else if declarator_kind (kind dn) \<or> kind dn = 60 then leave k
        else next_round k) (first_child member) 2"

record field_state =
  fs_types :: "ll_type list"
  fs_fns :: "(string \<times> ll_fn) list"
  fs_gep :: "(string \<times> u32 \<times> (u32 \<times> u32) option) list"
  fs_index :: u32
  fs_group :: "bit_group option"
  fs_name_index :: nat

text \<open>The type of the function a member points to.\<close>

definition member_fn_type :: "struct_tables \<Rightarrow> arena \<Rightarrow> u16 \<Rightarrow> member_scan \<Rightarrow> ll_fn option run" where
  "member_fn_type T A declared s =
     (if fn_declarator_off s = NULL then Done None
      else if return_has_pointer s
      then function_type_from_declarator T A (arena_get A (fn_declarator_off s)) LL_Ptr 7
      else function_type_from_declarator T A (arena_get A (fn_declarator_off s)) (node_kind_to_llvm_type declared) declared)"

definition add_field :: "ll_type \<Rightarrow> string \<Rightarrow> (u32 \<times> u32) option \<Rightarrow> bit_group option \<Rightarrow> field_state \<Rightarrow> field_state" where
  "add_field ty name bits grp fs =
     fs\<lparr>fs_types := fs_types fs @ [ty], fs_gep := AList.update name (fs_index fs, bits) (fs_gep fs),
        fs_index := fs_index fs + 1, fs_group := grp\<rparr>"

definition add_bitfield :: "u16 \<Rightarrow> u32 \<Rightarrow> string \<Rightarrow> field_state \<Rightarrow> field_state run" where
  "add_bitfield base bw name fs =
     run_bind (run_of (place_bits (fs_group fs) base bw)) (\<lambda>(new_unit, grp, bit).
     if new_unit then Done (add_field (node_kind_to_llvm_type base) name (Some (bit, bw)) (Some grp) fs)
     else run_bind (run_of (chk_sub (fs_index fs) 1)) (\<lambda>i.
       Done (fs\<lparr>fs_gep := AList.update name (i, Some (bit, bw)) (fs_gep fs), fs_group := Some grp\<rparr>)))"

definition register_member ::
  "nat \<Rightarrow> struct_tables \<Rightarrow> arena \<Rightarrow> string list \<Rightarrow> cast_node \<Rightarrow> field_state \<Rightarrow> field_state run" where
  "register_member pops T A names m fs =
     run_bind (declared_base_kind A m) (\<lambda>declared.
     run_bind (subtree_scan pops A (register_scan_step A) [first_child m] member_scan_start) (\<lambda>s.
     let name = (if fs_name_index fs < length names then names ! fs_name_index fs
                 else unnamed_field (fs_name_index fs)) in
     run_bind (scanned_type (specifier_to_llvm_type T A) A s) (\<lambda>base_type.
     run_bind (member_fn_type T A declared s) (\<lambda>fn.
     let fs = fs\<lparr>fs_name_index := fs_name_index fs + 1,
                 fs_fns := (case fn of Some ft \<Rightarrow> AList.update name ft (fs_fns fs) | None \<Rightarrow> fs_fns fs)\<rparr> in
     case bitfield_width s of
       Some bw \<Rightarrow> add_bitfield (base_kind s) bw name fs
     | None \<Rightarrow>
         let elem = (if has_pointer s then LL_Ptr else base_type) in
         Done (add_field (case array_len s of Some len \<Rightarrow> LL_Array elem len | None \<Rightarrow> elem) name None None fs)))))"

definition field_state_start :: field_state where
  "field_state_start = \<lparr>fs_types = [], fs_fns = [], fs_gep = [], fs_index = 0, fs_group = None, fs_name_index = 0\<rparr>"

definition has_bitfield :: "field_state \<Rightarrow> bool" where
  "has_bitfield fs \<longleftrightarrow> (\<exists>e \<in> set (fs_gep fs). snd (snd e) \<noteq> None)"

definition enter_record :: "string \<Rightarrow> bool \<Rightarrow> string list \<Rightarrow> field_state \<Rightarrow> struct_tables \<Rightarrow> struct_tables" where
  "enter_record tag packed names fs T =
     T\<lparr>struct_tag_types := (struct_tag_types T)(tag \<mapsto> (packed, fs_types fs)),
       struct_tag_fields := (struct_tag_fields T)(tag \<mapsto> names),
       struct_field_fn_types :=
         (if fs_fns fs \<noteq> [] then (struct_field_fn_types T)(tag \<mapsto> fs_fns fs) else struct_field_fn_types T),
       struct_gep_info := (if has_bitfield fs then (struct_gep_info T)(tag \<mapsto> fs_gep fs) else struct_gep_info T)\<rparr>"

text \<open>A record specifier with a tag and members.\<close>

definition defines_record :: "cast_node \<Rightarrow> bool" where
  "defines_record node \<longleftrightarrow> (kind node = 4 \<or> kind node = 5) \<and> node_data node \<noteq> 0 \<and> first_child node \<noteq> NULL"

definition register_record :: "nat \<Rightarrow> arena \<Rightarrow> string \<Rightarrow> cast_node \<Rightarrow> string list \<Rightarrow> struct_tables \<Rightarrow> struct_tables run" where
  "register_record pops A tag child names T =
     run_bind (siblings (ir_rounds A) A
       (\<lambda>x m fs. if kind m = 200 then next_round fs else run_bind (register_member pops T A names m fs) next_round)
       (first_child child) field_state_start) (\<lambda>fs.
     if fs_types fs = [] then Done T
     else run_bind (node_has_attr A child [''packed'', ''__packed__'']) (\<lambda>packed.
       Done (enter_record tag packed names fs T)))"

text \<open>Records nested in the members are registered first.\<close>

primrec register_struct_types_in_node :: "nat \<Rightarrow> nat \<Rightarrow> arena \<Rightarrow> cast_node \<Rightarrow> struct_tables \<Rightarrow> struct_tables run" where
  "register_struct_types_in_node 0 pops A node T = NoFuel"
| "register_struct_types_in_node (Suc n) pops A node T = siblings (ir_rounds A) A
     (\<lambda>x child T.
        run_bind
          (if \<not> defines_record child then Done T
           else run_bind (ir_text A (node_data child)) (\<lambda>tag.
             case tag of
               None \<Rightarrow> Done T
             | Some tag \<Rightarrow>
                 if struct_tag_types T tag \<noteq> None then Done T
                 else
                   run_bind (collect_struct_field_names A child) (\<lambda>names.
                   run_bind (siblings (ir_rounds A) A
                     (\<lambda>y m T. run_bind (siblings (ir_rounds A) A
                        (\<lambda>z sn T. if defines_record sn then run_bind (register_struct_types_in_node n pops A m T) next_round
                                  else next_round T) (first_child m) T) next_round) (first_child child) T) (\<lambda>T.
                   register_record pops A tag child names T)))) (\<lambda>T.
        run_bind (register_struct_types_in_node n pops A child T) next_round)) (first_child node) T"

section \<open>Sizes\<close>

text \<open>Sizes are \<open>u64\<close>; \<open>None\<close> is an overflow.\<close>

definition align_up :: "u64 \<Rightarrow> u64 \<Rightarrow> u64 option" where
  "align_up value align = (if align \<le> 1 then Some value else chk_round_up 64 value align)"

text \<open>
  The state of a walk over fields: offset, largest alignment, largest size. \<open>place_field\<close> is the end of
  a round, \<open>record_size\<close> what follows the loop.
\<close>

type_synonym size_state = "u64 \<times> u64 \<times> u64"

definition place_field :: "bool \<Rightarrow> bool \<Rightarrow> u64 \<times> u64 \<Rightarrow> size_state \<Rightarrow> size_state option" where
  "place_field packed is_union = (\<lambda>(field_size, field_align) (offset, max_align, max_size).
     let align = (if packed then 1 else max field_align 1); max_align = max max_align align in
     if is_union then Some (offset, max_align, max max_size field_size)
     else do {
       offset \<leftarrow> align_up offset align;
       offset \<leftarrow> chk_add 64 offset field_size;
       Some (offset, max_align, max_size) })"

definition record_size :: "bool \<Rightarrow> bool \<Rightarrow> size_state \<Rightarrow> (u64 \<times> u64) option" where
  "record_size packed is_union = (\<lambda>(offset, max_align, max_size). do {
     size \<leftarrow> (if is_union then (if packed then Some max_size else align_up max_size max_align)
             else if packed then Some offset else align_up offset max_align);
     Some (size, if packed then 1 else max_align) })"

text \<open>
  The fields of an LLVM type. The size of a float is asked from LLVM as a constant; \<open>fc\<close> is its answer,
  if it has one for that width.
\<close>

fun ll_elem_size_align :: "(nat \<Rightarrow> u64 option) \<Rightarrow> ll_type \<Rightarrow> (u64 \<times> u64) option"
  and ll_fields_size_align :: "(nat \<Rightarrow> u64 option) \<Rightarrow> bool \<Rightarrow> bool \<Rightarrow> ll_type list \<Rightarrow> size_state \<Rightarrow> size_state option" where
  "ll_elem_size_align fc (LL_Int w) = Some (max w 8 div 8, max w 8 div 8)"
| "ll_elem_size_align fc (LL_Float w) = (case fc w of Some s \<Rightarrow> Some (s, s) | None \<Rightarrow> Some (4, 4))"
| "ll_elem_size_align fc LL_Ptr = Some (8, 8)"
| "ll_elem_size_align fc (LL_Struct packed fs) = do {
     st \<leftarrow> ll_fields_size_align fc packed False fs (0, 1, 0);
     record_size packed False st }"
| "ll_elem_size_align fc (LL_Array elem n) = Some (4, 4)"
| "ll_elem_size_align fc LL_Vector = Some (4, 4)"
| "ll_elem_size_align fc LL_ScalableVector = Some (4, 4)"
| "ll_fields_size_align fc packed is_union [] st = Some st"
| "ll_fields_size_align fc packed is_union (f # fs) st = do {
     sa \<leftarrow> (case f of
       LL_Array elem n \<Rightarrow> do {
         sa \<leftarrow> ll_elem_size_align fc elem;
         size \<leftarrow> chk_mul 64 (fst sa) n;
         Some (size, snd sa) }
     | _ \<Rightarrow> ll_elem_size_align fc f);
     st \<leftarrow> place_field packed is_union sa st;
     ll_fields_size_align fc packed is_union fs st }"

definition ast_record_size_align_from_llvm :: "(nat \<Rightarrow> u64 option) \<Rightarrow> bool \<Rightarrow> ll_type list \<Rightarrow> (u64 \<times> u64) option" where
  "ast_record_size_align_from_llvm fc packed fs = do {
     st \<leftarrow> ll_fields_size_align fc packed False fs (0, 1, 0);
     record_size packed False st }"

fun llvm_type_size_bytes :: "(nat \<Rightarrow> u64 option) \<Rightarrow> u64 option \<Rightarrow> ll_type \<Rightarrow> u64 option" where
  "llvm_type_size_bytes fc vc (LL_Int w) = Some (max w 8 div 8)"
| "llvm_type_size_bytes fc vc (LL_Float w) = (case fc w of Some s \<Rightarrow> Some s | None \<Rightarrow> Some 8)"
| "llvm_type_size_bytes fc vc LL_Ptr = Some 8"
| "llvm_type_size_bytes fc vc (LL_Array elem n) = do {
     s \<leftarrow> llvm_type_size_bytes fc vc elem;
     chk_mul 64 s n }"
| "llvm_type_size_bytes fc vc (LL_Struct packed fs) = map_option fst (ast_record_size_align_from_llvm fc packed fs)"
| "llvm_type_size_bytes fc vc LL_Vector = (case vc of Some s \<Rightarrow> Some s | None \<Rightarrow> Some 16)"
| "llvm_type_size_bytes fc vc LL_ScalableVector = Some 16"

text \<open>The size of a record with an entry in the table, by the fields of its LLVM type.\<close>

definition tagged_size_align ::
  "(nat \<Rightarrow> u64 option) \<Rightarrow> bool \<Rightarrow> bool \<times> ll_type list \<Rightarrow> (u64 \<times> u64) option" where
  "tagged_size_align fc is_union = (\<lambda>(packed, fields).
     if fields = [] then Some (0, 1)
     else do {
       st \<leftarrow> ll_fields_size_align fc packed is_union fields (0, 1, 0);
       record_size packed is_union st })"

text \<open>What the loop over the children of a member finds: size, alignment, pointer, array, bit-field.\<close>

record size_scan =
  field_size :: u64
  field_align :: u64
  sc_pointer :: bool
  sc_array :: "u32 option"
  sc_bits :: "u32 option"

definition size_scan_step ::
  "(cast_node \<Rightarrow> (u64 \<times> u64) option run) \<Rightarrow> arena \<Rightarrow> cast_node \<Rightarrow> size_scan \<Rightarrow> size_scan run" where
  "size_scan_step sizer A child s =
     (let k = kind child in
      if 1 \<le> k \<and> k \<le> 5 \<or> 10 \<le> k \<and> k \<le> 14 \<or> k = 83 \<or> k = 84 then
        run_bind (sizer child) (\<lambda>r. Done (case r of
          Some (sz, al) \<Rightarrow> s\<lparr>field_size := sz, field_align := al\<rparr> | None \<Rightarrow> s))
      else if k = 7 then Done (s\<lparr>sc_pointer := True\<rparr>)
      else if k = 8 then run_bind (infer_array_declarator_len A child) (\<lambda>len.
        Done (if len = None then s else s\<lparr>sc_array := len\<rparr>))
      else if k = 27 then Done (s\<lparr>sc_bits := Some (node_data child)\<rparr>)
      else Done s)"

definition scanned_size :: "size_scan \<Rightarrow> (u64 \<times> u64) option" where
  "scanned_size s =
     (let sz = (if sc_pointer s then 8 else field_size s);
          align = (if sc_pointer s then 8 else field_align s) in
      do {
        sz \<leftarrow> (case sc_array s of Some len \<Rightarrow> chk_mul 64 sz len | None \<Rightarrow> Some sz);
        Some (case sc_bits s of Some width \<Rightarrow> min ((width + 7) div 8) (max sz 1) | None \<Rightarrow> sz, align) })"

definition size_scan_start :: size_scan where
  "size_scan_start = \<lparr>field_size = 4, field_align = 4, sc_pointer = False, sc_array = None, sc_bits = None\<rparr>"

definition member_size ::
  "(cast_node \<Rightarrow> (u64 \<times> u64) option run) \<Rightarrow> arena \<Rightarrow> cast_node \<Rightarrow> (u64 \<times> u64) run" where
  "member_size sizer A member =
     run_bind (siblings (ir_rounds A) A (\<lambda>x child s. run_bind (size_scan_step sizer A child s) next_round)
       (first_child member) size_scan_start) (\<lambda>s.
     run_of (scanned_size s))"

definition members_size ::
  "(cast_node \<Rightarrow> (u64 \<times> u64) option run) \<Rightarrow> arena \<Rightarrow> bool \<Rightarrow> bool \<Rightarrow> node_offset \<Rightarrow> size_state \<Rightarrow> size_state run" where
  "members_size sizer A packed is_union = siblings (ir_rounds A) A
     (\<lambda>x member st.
        if kind member = 200 then next_round st
        else run_bind (member_size sizer A member) (\<lambda>sa. run_bind (run_of (place_field packed is_union sa st)) next_round))"

definition record_size_with ::
  "(cast_node \<Rightarrow> (u64 \<times> u64) option run) \<Rightarrow> (nat \<Rightarrow> u64 option) \<Rightarrow> struct_tables \<Rightarrow> arena \<Rightarrow> cast_node \<Rightarrow>
     (u64 \<times> u64) option run" where
  "record_size_with sizer fc T A node =
     (let is_union = (kind node = 5) in
      run_bind (if first_child node = NULL then tag_text A node else Done None) (\<lambda>tag.
      case tag_lookup (struct_tag_types T) tag of
        Some st \<Rightarrow> run_bind (run_of (tagged_size_align fc is_union st)) (\<lambda>sa. Done (Some sa))
      | None \<Rightarrow>
          run_bind (node_has_attr A node [''packed'', ''__packed__'']) (\<lambda>packed.
          run_bind (members_size sizer A packed is_union (first_child node) (0, 1, 0)) (\<lambda>st.
          run_bind (run_of (record_size packed is_union st)) (\<lambda>sa. Done (Some sa))))))"

primrec ast_type_size_align ::
  "nat \<Rightarrow> (nat \<Rightarrow> u64 option) \<Rightarrow> struct_tables \<Rightarrow> arena \<Rightarrow> cast_node \<Rightarrow> (u64 \<times> u64) option run" where
  "ast_type_size_align 0 fc T A node = NoFuel"
| "ast_type_size_align (Suc n) fc T A node =
     (let k = kind node in
      if k = 1 then Done (Some (0, 1))
      else if k = 2 \<or> k = 12 \<or> k = 13 \<or> k = 83 then Done (Some (4, 4))
      else if k = 3 \<or> k = 14 then Done (Some (1, 1))
      else if k = 7 then Done (Some (8, 8))
      else if k = 10 then Done (Some (2, 2))
      else if k = 11 \<or> k = 84 then Done (Some (8, 8))
      else if k = 16 then Done (Some (8, 8))
      else if k = 4 \<or> k = 5 then record_size_with (ast_type_size_align n fc T A) fc T A node
      else case arena_get A (first_child node) of
        None \<Rightarrow> Done None
      | Some child \<Rightarrow> ast_type_size_align n fc T A child)"

definition ast_record_size_align ::
  "(nat \<Rightarrow> u64 option) \<Rightarrow> struct_tables \<Rightarrow> arena \<Rightarrow> cast_node \<Rightarrow> (u64 \<times> u64) option run" where
  "ast_record_size_align fc T A node =
     (if kind node = 4 \<or> kind node = 5
      then record_size_with (ast_type_size_align (ir_rounds A) fc T A) fc T A node else Done None)"

text \<open>The operand of \<open>sizeof\<close>.\<close>

primrec sizeof_type_from_ast ::
  "nat \<Rightarrow> (nat \<Rightarrow> u64 option) \<Rightarrow> struct_tables \<Rightarrow> arena \<Rightarrow> node_offset \<Rightarrow> u64 run" where
  "sizeof_type_from_ast 0 fc T A off = NoFuel"
| "sizeof_type_from_ast (Suc n) fc T A off =
     (case arena_get A off of
        None \<Rightarrow> Done 4
      | Some node \<Rightarrow>
          let k = kind node in
          if k = 1 then (if first_child node \<noteq> NULL then sizeof_type_from_ast n fc T A (first_child node) else Done 0)
          else if k = 2 \<or> k = 12 \<or> k = 13 \<or> k = 83 then Done 4
          else if k = 3 \<or> k = 14 then Done 1
          else if k = 10 then Done 2
          else if k = 11 \<or> k = 84 then Done 8
          else if k = 4 \<or> k = 5 then
            run_bind (ast_record_size_align fc T A node) (\<lambda>r. Done (case r of Some (sz, al) \<Rightarrow> sz | None \<Rightarrow> 0))
          else
            run_bind (if first_child node \<noteq> NULL then sizeof_type_from_ast n fc T A (first_child node) else Done 0) (\<lambda>nested.
            if nested \<noteq> 0 then Done nested
            else run_bind (if next_sibling node \<noteq> NULL then sizeof_type_from_ast n fc T A (next_sibling node) else Done 0) (\<lambda>nested.
              Done (if nested \<noteq> 0 then nested else 8))))"

section \<open>Signatures of types\<close>

text \<open>The text by which \<open>__builtin_types_compatible_p\<close> compares types.\<close>

primrec lower_builtin_type_signature :: "nat \<Rightarrow> arena \<Rightarrow> node_offset \<Rightarrow> string option run" where
  "lower_builtin_type_signature 0 A off = NoFuel"
| "lower_builtin_type_signature (Suc n) A off =
     (case arena_get A off of
        None \<Rightarrow> Done None
      | Some node \<Rightarrow>
          let k = kind node; inner = lower_builtin_type_signature n A (first_child node) in
          if k = 60 then ir_text A (node_data node)
          else if k = 1 then Done (Some ''void'')
          else if k = 2 \<or> k = 12 \<or> k = 13 then Done (Some ''int'')
          else if k = 3 then Done (Some ''char'')
          else if k = 10 then Done (Some ''short'')
          else if k = 11 then Done (Some ''long'')
          else if k = 14 then Done (Some ''_Bool'')
          else if k = 83 then Done (Some ''float'')
          else if k = 84 then Done (Some ''double'')
          else if k = 4 \<or> k = 5 then
            run_bind (tag_text A node) (\<lambda>tag.
            Done (Some ((if k = 4 then ''struct:'' else ''union:'') @ (case tag of Some t \<Rightarrow> t | None \<Rightarrow> []))))
          else if k = 7 then when_done inner (\<lambda>s. Done (Some (''*'' @ s)))
          else if k = 8 then when_done inner (\<lambda>s. Done (Some (''['' @ s @ '';'' @ digits (node_data node) @ '']'')))
          else inner)"

end
