(* ===== verification/IrScan.thy ===== *)
theory IrScan
  imports IrTree "HOL-Library.AList"
begin

text \<open>
  What the backend (\<open>backend/llvm.rs\<close>) finds out about a translation unit before it emits code: the
  signatures of functions, which functions are needed, the names of typedefs and static functions, the
  shape of global variables; and the bookkeeping that does not touch LLVM: scopes of variables,
  constructors and destructors, symbols to keep, errors.
\<close>

section \<open>Errors\<close>

datatype backend_error =
    UnknownNodeKind u16
  | InvalidNode
  | UndefinedVariable string
  | UndefinedFunction string
  | InvalidOperator u32
  | VerificationFailed string
  | BackendIoError string

fun backend_error_display :: "backend_error \<Rightarrow> string" where
  "backend_error_display (UnknownNodeKind k) = ''Unknown AST node kind: '' @ digits k"
| "backend_error_display InvalidNode = ''Invalid AST node''"
| "backend_error_display (UndefinedVariable name) = ''Undefined variable: '' @ name"
| "backend_error_display (UndefinedFunction name) = ''Undefined function: '' @ name"
| "backend_error_display (InvalidOperator op) = ''Invalid operator code: '' @ digits op"
| "backend_error_display (VerificationFailed msg) = ''LLVM verification failed: '' @ msg"
| "backend_error_display (BackendIoError msg) = ''I/O error: '' @ msg"

section \<open>Signatures of functions\<close>

record signature_info =
  sig_name :: string
  sig_static :: bool
  sig_inline :: bool
  sig_body :: node_offset

text \<open>The name below a declarator, when it is a function declarator that starts with an identifier.\<close>

definition declared_function_name :: "arena \<Rightarrow> node_offset \<Rightarrow> string option run" where
  "declared_function_name A off =
     run_bind (function_declarator A off) (\<lambda>r.
     case r of
       None \<Rightarrow> Done None
     | Some func_decl_offset \<Rightarrow>
         (case arena_get A func_decl_offset of
            None \<Rightarrow> Done None
          | Some func_decl \<Rightarrow>
              (case arena_get A (first_child func_decl) of
                 None \<Rightarrow> Done None
               | Some id_node \<Rightarrow> if kind id_node = 60 then ir_text A (node_data id_node) else Done None)))"

definition function_signature_info :: "arena \<Rightarrow> cast_node \<Rightarrow> signature_info run" where
  "function_signature_info A node = siblings (ir_rounds A) A
     (\<lambda>x child s.
        if kind child = 103 then next_round (s\<lparr>sig_static := True\<rparr>)
        else if kind child = 93 then next_round (s\<lparr>sig_inline := True\<rparr>)
        else if declarator_kind (kind child) then
          run_bind (declared_function_name A x) (\<lambda>r. next_round (case r of Some name \<Rightarrow> s\<lparr>sig_name := name\<rparr> | None \<Rightarrow> s))
        else if kind child = 40 then next_round (s\<lparr>sig_body := x\<rparr>)
        else next_round s)
     (first_child node) \<lparr>sig_name = ''func'', sig_static = False, sig_inline = False, sig_body = NULL\<rparr>"

section \<open>Functions that are needed\<close>

definition builtin_prefix :: string where
  "builtin_prefix = ''__builtin_''"

text \<open>The names a node adds to the set: the callee of a call, and every identifier.\<close>

definition called_name :: "arena \<Rightarrow> cast_node \<Rightarrow> string option run" where
  "called_name A node =
     (if kind node = 67 then
        (case arena_get A (first_child node) of
           None \<Rightarrow> Done None
         | Some callee \<Rightarrow>
             run_bind (find_ident_name_in A callee) (\<lambda>r.
             if r \<noteq> None then Done r else ident_name A callee))
      else if kind node = 60 then ident_text A node
      else Done None)"

definition add_called :: "string option \<Rightarrow> string list \<Rightarrow> string list" where
  "add_called name out =
     (case name of Some s \<Rightarrow> if starts_with builtin_prefix s then out else List.insert s out | None \<Rightarrow> out)"

primrec collect_direct_callees :: "nat \<Rightarrow> arena \<Rightarrow> node_offset \<Rightarrow> string list \<Rightarrow> string list run" where
  "collect_direct_callees 0 A off out = NoFuel"
| "collect_direct_callees (Suc n) A off out = siblings (ir_rounds A) A
     (\<lambda>x node out. run_bind (called_name A node) (\<lambda>name.
        if first_child node \<noteq> NULL
        then run_bind (collect_direct_callees n A (first_child node) (add_called name out)) next_round
        else next_round (add_called name out))) off out"

text \<open>
  The definitions of the unit: name, whether the function is a root, the names its body mentions. A set
  of the code is a list without repetitions, a table an association list; \<open>iter\<close> gives the order in
  which a hash table yields its entries.
\<close>

type_synonym function_defs = "(string \<times> bool \<times> string list) list"

definition kept_attributes :: "string list" where
  "kept_attributes =
     [''section'', ''__section__'', ''constructor'', ''__constructor__'', ''destructor'', ''__destructor__'',
      ''used'', ''__used__'']"

definition function_def :: "arena \<Rightarrow> cast_node \<Rightarrow> (string \<times> bool \<times> string list) run" where
  "function_def A node =
     run_bind (function_signature_info A node) (\<lambda>s.
     run_bind (extract_attributes A node) (\<lambda>attrs.
     run_bind (if sig_body s \<noteq> NULL then collect_direct_callees (ir_rounds A) A (sig_body s) [] else Done []) (\<lambda>callees.
     Done (sig_name s, \<not> sig_static s \<or> has_attr kept_attributes attrs, callees))))"

definition collect_function_defs :: "arena \<Rightarrow> node_offset \<Rightarrow> function_defs run" where
  "collect_function_defs A off = siblings (ir_rounds A) A
     (\<lambda>x node defs.
        if kind node = 23 then run_bind (function_def A node) (\<lambda>(name, entry). next_round (AList.update name entry defs))
        else next_round defs) off []"

text \<open>The inner loop: callees that are defined and not yet reached are reached and queued.\<close>

fun visit_callees :: "function_defs \<Rightarrow> string list \<Rightarrow> string list \<times> string list \<Rightarrow> string list \<times> string list" where
  "visit_callees defs [] (reachable, worklist) = (reachable, worklist)"
| "visit_callees defs (callee # callees) (reachable, worklist) =
     visit_callees defs callees
       (if map_of defs callee \<noteq> None \<and> callee \<notin> set reachable then (callee # reachable, callee # worklist)
        else (reachable, worklist))"

primrec visit_functions ::
  "nat \<Rightarrow> (string list \<Rightarrow> string list) \<Rightarrow> function_defs \<Rightarrow> string list \<Rightarrow> string list \<Rightarrow> string list run" where
  "visit_functions 0 iter defs reachable worklist = NoFuel"
| "visit_functions (Suc n) iter defs reachable worklist =
     (case worklist of
        [] \<Rightarrow> Done reachable
      | name # rest \<Rightarrow>
          (case map_of defs name of
             None \<Rightarrow> visit_functions n iter defs reachable rest
           | Some (is_root, callees) \<Rightarrow>
               (case visit_callees defs (iter callees) (reachable, rest) of
                  (reachable, worklist) \<Rightarrow> visit_functions n iter defs reachable worklist)))"

definition root_functions :: "(string list \<Rightarrow> string list) \<Rightarrow> function_defs \<Rightarrow> string list" where
  "root_functions iter defs = filter (\<lambda>name. case map_of defs name of Some (is_root, callees) \<Rightarrow> is_root | None \<Rightarrow> False)
     (iter (map fst defs))"

definition compute_reachable_functions ::
  "(string list \<Rightarrow> string list) \<Rightarrow> arena \<Rightarrow> node_offset \<Rightarrow> string list run" where
  "compute_reachable_functions iter A off =
     run_bind (collect_function_defs A off) (\<lambda>defs.
     let roots = root_functions iter defs in visit_functions (Suc (length defs)) iter defs roots (rev roots))"

text \<open>The test before a function is emitted: an empty set means that nothing is known.\<close>

definition emits_function :: "string list \<Rightarrow> string \<Rightarrow> bool" where
  "emits_function reachable name \<longleftrightarrow> reachable = [] \<or> name \<in> set reachable"

section \<open>Typedef names and static functions\<close>

definition collect_typedef_aliases :: "arena \<Rightarrow> node_offset \<Rightarrow> string set \<Rightarrow> string set run" where
  "collect_typedef_aliases A off = siblings (ir_rounds A) A
     (\<lambda>x node aliases.
        if kind node = 20 then
          run_bind (siblings (ir_rounds A) A
            (\<lambda>y child (is_typedef, aliases).
               if kind child = 101 then next_round (True, aliases)
               else if is_typedef then
                 run_bind (ident_name A child) (\<lambda>r.
                 next_round (is_typedef, case r of Some name \<Rightarrow> insert name aliases | None \<Rightarrow> aliases))
               else next_round (is_typedef, aliases)) (first_child node) (False, aliases)) (\<lambda>r. next_round (snd r))
        else next_round aliases) off"

definition collect_static_function_names :: "arena \<Rightarrow> node_offset \<Rightarrow> string set \<Rightarrow> string set run" where
  "collect_static_function_names A off = siblings (ir_rounds A) A
     (\<lambda>x node names.
        if kind node = 20 \<or> kind node = 22 \<or> kind node = 23 then
          run_bind (function_signature_info A node) (\<lambda>s.
          if sig_static s then
            run_bind (ident_name A node) (\<lambda>r. next_round (case r of Some name \<Rightarrow> insert name names | None \<Rightarrow> names))
          else next_round names)
        else next_round names) off"

section \<open>Global variables\<close>

record global_shape =
  g_name :: "string option"
  g_pointer :: bool
  g_array :: bool
  g_len :: u32
  g_static :: bool
  g_thread_local :: bool
  g_init :: node_offset

definition note_init :: "cast_node \<Rightarrow> global_shape \<Rightarrow> global_shape" where
  "note_init node g =
     (if next_sibling node \<noteq> NULL \<and> g_init g = NULL then g\<lparr>g_init := next_sibling node\<rparr> else g)"

definition shape_node :: "arena \<Rightarrow> cast_node \<Rightarrow> global_shape \<Rightarrow> global_shape run" where
  "shape_node A node g =
     (let k = kind node in
      if k = 60 then
        run_bind (if g_name g = None then ident_text A node else Done (g_name g)) (\<lambda>name.
        Done (note_init node (g\<lparr>g_name := name\<rparr>)))
      else if k = 7 then Done (note_init node (g\<lparr>g_pointer := True\<rparr>))
      else if k = 8 then
        run_bind (if g_len g = 0 then infer_array_declarator_len A node else Done None) (\<lambda>len.
        Done (note_init node (g\<lparr>g_array := True, g_len := (case len of Some l \<Rightarrow> l | None \<Rightarrow> g_len g)\<rparr>)))
      else if k = 103 then Done (g\<lparr>g_static := True\<rparr>)
      else if k = 106 then Done (g\<lparr>g_thread_local := True\<rparr>)
      else Done g)"

primrec scan_global_var_shape :: "nat \<Rightarrow> arena \<Rightarrow> node_offset \<Rightarrow> global_shape \<Rightarrow> global_shape run" where
  "scan_global_var_shape 0 A off g = NoFuel"
| "scan_global_var_shape (Suc n) A off g = siblings (ir_rounds A) A
     (\<lambda>x node g. run_bind (shape_node A node g) (\<lambda>g.
        if first_child node \<noteq> NULL \<and> \<not> (1 \<le> kind node \<and> kind node \<le> 6 \<or> kind node = 83)
        then run_bind (scan_global_var_shape n A (first_child node) g) next_round
        else next_round g)) off g"

text \<open>Whether an expression mentions a byte pointer: a known one, or any name that starts with \<open>z\<close>.\<close>

primrec subtree_has_byte_pointer_ident :: "nat \<Rightarrow> arena \<Rightarrow> string set \<Rightarrow> node_offset \<Rightarrow> bool run" where
  "subtree_has_byte_pointer_ident 0 A vars off = NoFuel"
| "subtree_has_byte_pointer_ident (Suc n) A vars off =
     (case arena_get A off of
        None \<Rightarrow> Done False
      | Some node \<Rightarrow>
          run_bind (if kind node = 60 then ir_text A (node_data node) else Done None) (\<lambda>name.
          if (case name of Some s \<Rightarrow> s \<in> vars \<or> starts_with ''z'' s | None \<Rightarrow> False) then Done True
          else run_bind (subtree_has_byte_pointer_ident n A vars (first_child node)) (\<lambda>r.
            if r then Done True else subtree_has_byte_pointer_ident n A vars (next_sibling node))))"

section \<open>Scopes of variables\<close>

text \<open>
  The variables in force, and for every open block the bindings it overwrote, innermost first. A
  binding is an LLVM value and its types, of which nothing is used here.
\<close>

record 'v scopes =
  variables :: "string \<rightharpoonup> 'v"
  scope_stack :: "(string \<rightharpoonup> 'v option) list"

definition push_scope :: "'v scopes \<Rightarrow> 'v scopes" where
  "push_scope s = s\<lparr>scope_stack := Map.empty # scope_stack s\<rparr>"

definition pop_scope :: "'v scopes \<Rightarrow> 'v scopes" where
  "pop_scope s =
     (case scope_stack s of
        [] \<Rightarrow> s
      | saved # rest \<Rightarrow>
          s\<lparr>variables := (\<lambda>x. case saved x of Some prev_binding \<Rightarrow> prev_binding | None \<Rightarrow> variables s x),
            scope_stack := rest\<rparr>)"

definition insert_scoped_variable :: "string \<Rightarrow> 'v \<Rightarrow> 'v scopes \<Rightarrow> 'v scopes" where
  "insert_scoped_variable name binding s =
     s\<lparr>scope_stack :=
         (case scope_stack s of
            [] \<Rightarrow> []
          | scope # rest \<Rightarrow> (if scope name = None then scope(name \<mapsto> variables s name) else scope) # rest),
       variables := (variables s)(name \<mapsto> binding)\<rparr>"

section \<open>Constructors, destructors and kept symbols\<close>

text \<open>Functions are known by their names here, which is how the code compares them.\<close>

definition record_lifecycle_function :: "(string \<times> u32) list \<Rightarrow> string \<Rightarrow> u32 \<Rightarrow> (string \<times> u32) list" where
  "record_lifecycle_function entries function priority =
     (if (function, priority) \<in> set entries then entries else entries @ [(function, priority)])"

definition register_lifecycle_attribute ::
  "string \<Rightarrow> ir_attr \<Rightarrow> (string \<times> u32) list \<times> (string \<times> u32) list \<Rightarrow> (string \<times> u32) list \<times> (string \<times> u32) list" where
  "register_lifecycle_attribute function = (\<lambda>(name, str_arg, int_arg) (ctors, dtors).
     let priority = (case int_arg of Some p \<Rightarrow> p | None \<Rightarrow> 65535) in
     if name = ''constructor'' \<or> name = ''__constructor__''
     then (record_lifecycle_function ctors function priority, dtors)
     else if name = ''destructor'' \<or> name = ''__destructor__''
     then (ctors, record_lifecycle_function dtors function priority)
     else (ctors, dtors))"

definition register_lifecycle_attributes ::
  "string \<Rightarrow> ir_attr list \<Rightarrow> (string \<times> u32) list \<times> (string \<times> u32) list \<Rightarrow> (string \<times> u32) list \<times> (string \<times> u32) list" where
  "register_lifecycle_attributes function attrs st = fold (register_lifecycle_attribute function) attrs st"

text \<open>The rows of the table \<open>llvm.global_ctors\<close> or \<open>llvm.global_dtors\<close>; there is no table without rows.\<close>

definition global_lifecycle_table :: "(string \<times> u32) list \<Rightarrow> (u32 \<times> string) list option" where
  "global_lifecycle_table entries =
     (if entries = [] then None else Some (map (\<lambda>(function, priority). (priority, function)) (sort_key snd entries)))"

definition record_used_symbol :: "'p list \<Rightarrow> 'p \<Rightarrow> 'p list" where
  "record_used_symbol used value = (if value \<in> set used then used else used @ [value])"

definition register_used_attributes :: "'p list \<Rightarrow> 'p \<Rightarrow> ir_attr list \<Rightarrow> 'p list" where
  "register_used_attributes used value attrs =
     (if has_attr [''used'', ''__used__''] attrs then record_used_symbol used value else used)"

end
