(* ===== verification/IrEnds.thy ===== *)
theory IrEnds
  imports IrTypes IrScan ParserProps
begin

text \<open>
  The walks of the backend end on every forest: a loop over siblings goes down in height, and so does
  every recursion.
\<close>

named_theorems ends

definition walkable :: "arena \<Rightarrow> bool" where
  "walkable A \<longleftrightarrow> forest A \<and> 1 \<le> node_allocated A"

lemma walkable_height:
  "walkable A \<Longrightarrow> height A x < ir_rounds A"
  "walkable A \<Longrightarrow> arena_get A x = Some n \<Longrightarrow> height A (first_child n) < height A x"
  "walkable A \<Longrightarrow> arena_get A x = Some n \<Longrightarrow> height A (next_sibling n) < height A x"
  by (simp_all add: walkable_def ir_rounds_def height_first height_next le_imp_less_Suc height_le)

lemma well_linked_walkable: "well_linked A \<Longrightarrow> walkable A"
  by (simp add: well_linked_def walkable_def arena_inv_def)

text \<open>A run that does not run out of rounds.\<close>

definition ended :: "'a run \<Rightarrow> bool" where
  "ended r \<longleftrightarrow> r \<noteq> NoFuel"

lemma ended_simps [simp]: "ended (Done x)" "ended Crash" "\<not> ended NoFuel" "ended (run_of r)"
  by (simp_all add: ended_def)

lemma round_ends [simp]: "ended (next_round s)" "ended (leave s)"
  by (simp_all add: next_round_def leave_def)

lemma run_bind_ends [ends]: "ended (m)\<Longrightarrow> (\<And>x. m = Done x \<Longrightarrow> ended (f x)) \<Longrightarrow> ended (run_bind m f)"
  by (auto simp: ended_def run_bind_NoFuel)

lemma when_done_ends [ends]: "ended (m)\<Longrightarrow> (\<And>x. ended (f x)) \<Longrightarrow> ended (when_done m f)"
  by (auto simp: when_done_def ended_def run_bind_NoFuel split: option.splits)

lemma siblings_ends:
  "walkable A \<Longrightarrow> height A off < n \<Longrightarrow>
     (\<And>x node s. arena_get A x = Some node \<Longrightarrow> height A x \<le> height A off \<Longrightarrow> ended (f x node s)) \<Longrightarrow>
     ended (siblings n A f off s)"
proof (induction n arbitrary: off s)
  case (Suc n)
  show ?case
  proof (cases "arena_get A off")
    case (Some node)
    note h = walkable_height(3) [OF Suc.prems(1) Some]
    have "ended (siblings n A f (next_sibling node) s')" for s'
      using h Suc.prems by (intro Suc.IH) auto
    with Suc.prems(3) [OF Some] Some show ?thesis by (auto simp: ended_def run_bind_NoFuel split: sum.split)
  qed simp
qed simp

lemma siblings_rounds [ends]:
  "walkable A \<Longrightarrow>
     (\<And>x node s. arena_get A x = Some node \<Longrightarrow> height A x \<le> height A off \<Longrightarrow> ended (f x node s)) \<Longrightarrow>
     ended (siblings (ir_rounds A) A f off s)"
  by (rule siblings_ends) (simp_all add: walkable_height)

lemma first_found_ends [ends]:
  "walkable A \<Longrightarrow>
     (\<And>x node. arena_get A x = Some node \<Longrightarrow> height A x \<le> height A off \<Longrightarrow> ended (f x node)) \<Longrightarrow>
     ended (first_found A f off)"
  unfolding first_found_def by (intro ends) auto

lemma text_ends [simp]: "ended (ir_text A off)" "ended (ident_text A node)"
  by (auto simp: ir_text_def ident_text_def ended_def run_bind_NoFuel split: outcome.splits)

lemma find_ident_name_ends:
  "walkable A \<Longrightarrow> height A (first_child node) < n \<Longrightarrow> ended (find_ident_name n A node)"
proof (induction n arbitrary: node)
  case (Suc n)
  have "ended (find_ident_name n A child)" if "arena_get A x = Some child" "height A x \<le> height A (first_child node)" for x child
    using walkable_height(2) [OF Suc.prems(1) that(1)] that(2) Suc.prems by (intro Suc.IH) auto
  with Suc.prems(1) show ?case by (auto intro!: ends)
qed simp

lemma ident_name_ends [simp]: "walkable A \<Longrightarrow> ended (ident_name A node)"
  by (simp add: ident_name_def find_ident_name_ends walkable_height)

lemma find_function_declarator_ends:
  "walkable A \<Longrightarrow> height A off < n \<Longrightarrow> ended (find_function_declarator_offset n A off)"
proof (induction n arbitrary: off)
  case (Suc n)
  show ?case
  proof (cases "arena_get A off")
    case (Some node)
    have "ended (find_function_declarator_offset n A x)" if "height A x \<le> height A (first_child node)" for x
      using walkable_height(2) [OF Suc.prems(1) Some] that Suc.prems by (intro Suc.IH) auto
    with Suc.prems(1) Some show ?thesis by (auto intro!: ends)
  qed simp
qed simp

lemma function_declarator_ends [simp]: "walkable A \<Longrightarrow> ended (function_declarator A off)"
  by (simp add: function_declarator_def find_function_declarator_ends walkable_height)

lemma attr_entry_ends [simp]: "walkable A \<Longrightarrow> ended (attr_entry A node)"
  unfolding attr_entry_def attr_args_def by (auto intro!: ends split: option.split)

lemma collect_attributes_ends:
  "walkable A \<Longrightarrow> height A off < n \<Longrightarrow> ended (collect_attributes_from_chain n A off attrs)"
proof (induction n arbitrary: off attrs)
  case (Suc n)
  have "ended (collect_attributes_from_chain n A (first_child child) as)"
    if "arena_get A x = Some child" "height A x \<le> height A off" for x child as
    using walkable_height(2) [OF Suc.prems(1) that(1)] that(2) Suc.prems by (intro Suc.IH) auto
  with Suc.prems(1) show ?case by (auto intro!: ends)
qed simp

lemma extract_attributes_ends [simp]: "walkable A \<Longrightarrow> ended (extract_attributes A node)"
  by (simp add: extract_attributes_def collect_attributes_ends walkable_height)

lemma node_has_attr_ends [simp]: "walkable A \<Longrightarrow> ended (node_has_attr A node names)"
  unfolding node_has_attr_def by (auto intro!: ends)

lemma ir_operands_below:
  assumes "walkable A" and "arena_get A x = Some node"
  shows "height A (fst (ir_operands A node)) < height A x" "height A (snd (ir_operands A node)) < height A x"
proof -
  note h = walkable_height(2,3) [OF assms]
  have n: "height A NULL = 0" by (simp add: height_def arena_get_def)
  show "height A (fst (ir_operands A node)) < height A x"
    using h walkable_height(2) [OF assms(1), of "first_child node"]
    by (fastforce simp: ir_operands_def split: option.splits)
  show "height A (snd (ir_operands A node)) < height A x"
    using h n walkable_height(3) [OF assms(1), of "first_child node"]
    by (fastforce simp: ir_operands_def split: option.splits)
qed

lemma eval_const_ends:
  "walkable A \<Longrightarrow> height A off < n \<Longrightarrow> ended (eval_const_int_expr n A off)"
proof (induction n arbitrary: off)
  case (Suc n)
  show ?case
  proof (cases "arena_get A off")
    case (Some node)
    have "ended (eval_const_int_expr n A y)" if "height A y < height A off" for y
      using that Suc.prems by (intro Suc.IH) auto
    with walkable_height(2) [OF Suc.prems(1) Some] ir_operands_below [OF Suc.prems(1) Some] Some
    show ?thesis by (auto simp: ir_unary_def intro!: ends)
  qed simp
qed simp

lemma infer_array_ends [simp]: "walkable A \<Longrightarrow> ended (infer_array_declarator_len A node)"
  unfolding infer_array_declarator_len_def by (auto intro!: ends simp: eval_const_ends walkable_height)

section \<open>Scans of the unit\<close>

lemma function_signature_ends [simp]: "walkable A \<Longrightarrow> ended (function_signature_info A node)"
  unfolding function_signature_info_def declared_function_name_def by (auto intro!: ends split: option.split)

lemma called_name_ends [simp]: "walkable A \<Longrightarrow> ended (called_name A node)"
  by (auto simp: called_name_def find_ident_name_in_def intro!: ends split: option.split)

lemma callees_end: "walkable A \<Longrightarrow> height A off < n \<Longrightarrow> ended (collect_direct_callees n A off out)"
proof (induction n arbitrary: off out)
  case (Suc n)
  have "ended (collect_direct_callees n A (first_child child) out)"
    if "arena_get A x = Some child" "height A x \<le> height A off" for x child out
    using walkable_height(2) [OF Suc.prems(1) that(1)] that(2) Suc.prems by (intro Suc.IH) auto
  with Suc.prems(1) show ?case by (auto intro!: ends)
qed simp

lemma function_defs_end [simp]: "walkable A \<Longrightarrow> ended (collect_function_defs A off)"
  unfolding collect_function_defs_def function_def_def by (auto intro!: ends simp: callees_end walkable_height)

lemma typedef_aliases_end: "walkable A \<Longrightarrow> ended (collect_typedef_aliases A off names)"
  unfolding collect_typedef_aliases_def by (auto intro!: ends)

lemma static_names_end: "walkable A \<Longrightarrow> ended (collect_static_function_names A off names)"
  unfolding collect_static_function_names_def by (auto intro!: ends)

lemma shape_node_ends [simp]: "walkable A \<Longrightarrow> ended (shape_node A node g)"
  by (auto simp: shape_node_def Let_def intro!: ends)

lemma global_shape_ends: "walkable A \<Longrightarrow> height A off < n \<Longrightarrow> ended (scan_global_var_shape n A off g)"
proof (induction n arbitrary: off g)
  case (Suc n)
  have "ended (scan_global_var_shape n A (first_child child) g)"
    if "arena_get A x = Some child" "height A x \<le> height A off" for x child g
    using walkable_height(2) [OF Suc.prems(1) that(1)] that(2) Suc.prems by (intro Suc.IH) auto
  with Suc.prems(1) show ?case by (auto intro!: ends)
qed simp

lemma byte_pointer_ends: "walkable A \<Longrightarrow> height A off < n \<Longrightarrow> ended (subtree_has_byte_pointer_ident n A vars off)"
proof (induction n arbitrary: off)
  case (Suc n)
  show ?case
  proof (cases "arena_get A off")
    case (Some node)
    note h = walkable_height(2,3) [OF Suc.prems(1) Some]
    with Suc have "ended (subtree_has_byte_pointer_ident n A vars (first_child node))"
      "ended (subtree_has_byte_pointer_ident n A vars (next_sibling node))" by auto
    with Some show ?thesis by (auto intro!: ends)
  qed simp
qed simp

section \<open>Sizes and types\<close>

lemma tag_text_ends [simp]: "ended (tag_text A node)"
  by (simp add: tag_text_def)

lemma record_size_ends:
  assumes "walkable A"
    and "\<And>x child. arena_get A x = Some child \<Longrightarrow> height A x < height A off \<Longrightarrow> ended (sizer child)"
    and "arena_get A off = Some node"
  shows "ended (record_size_with sizer fc T A node)"
proof -
  have "ended (member_size sizer A member)"
    if m: "arena_get A x = Some member" "height A x \<le> height A (first_child node)" for x member
  proof -
    have "ended (sizer child)" if "arena_get A y = Some child" "height A y \<le> height A (first_child member)" for y child
      using walkable_height(2) [OF assms(1) assms(3)] walkable_height(2) [OF assms(1) m(1)] m(2) that by (intro assms(2) [OF that(1)]) auto
    with assms(1) show ?thesis unfolding member_size_def size_scan_step_def Let_def by (auto intro!: ends)
  qed
  with assms(1) show ?thesis
    unfolding record_size_with_def members_size_def Let_def by (auto intro!: ends split: option.split)
qed

lemma type_size_ends:
  "walkable A \<Longrightarrow> arena_get A off = Some node \<Longrightarrow> height A off \<le> n \<Longrightarrow> ended (ast_type_size_align n fc T A node)"
proof (induction n arbitrary: off node)
  case 0
  then show ?case by (simp add: height_def)
next
  case (Suc n)
  have IH: "ended (ast_type_size_align n fc T A child)" if "arena_get A x = Some child" "height A x < height A off" for x child
    using that Suc.prems by (intro Suc.IH [OF Suc.prems(1) that(1)]) auto
  note rec = record_size_ends [OF Suc.prems(1) IH Suc.prems(2)]
  have "ended (ast_type_size_align n fc T A child)" if "arena_get A (first_child node) = Some child" for child
    using IH [OF that] walkable_height(2) [OF Suc.prems(1,2)] by blast
  then show ?case using rec by (simp add: Let_def split: option.split)
qed

lemma ast_record_size_ends: "walkable A \<Longrightarrow> arena_get A off = Some node \<Longrightarrow> ended (ast_record_size_align fc T A node)"
  unfolding ast_record_size_align_def
  by (auto intro!: record_size_ends intro: type_size_ends dest: walkable_height(1) less_imp_le)

lemma sizeof_ends: "walkable A \<Longrightarrow> height A off < n \<Longrightarrow> ended (sizeof_type_from_ast n fc T A off)"
proof (induction n arbitrary: off)
  case (Suc n)
  show ?case
  proof (cases "arena_get A off")
    case (Some node)
    note h = walkable_height(2,3) [OF Suc.prems(1) Some]
    with Suc have "ended (sizeof_type_from_ast n fc T A (first_child node))"
      "ended (sizeof_type_from_ast n fc T A (next_sibling node))" by auto
    with Some ast_record_size_ends [OF Suc.prems(1) Some] show ?thesis by (auto simp: Let_def intro!: ends)
  qed simp
qed simp

lemma name_ends [simp]:
  "walkable A \<Longrightarrow> ended (own_name A node)" "walkable A \<Longrightarrow> ended (ident_among A off)"
  "walkable A \<Longrightarrow> ended (fn_declarator_name A node)" "walkable A \<Longrightarrow> ended (member_child_name A node)"
  unfolding member_child_name_def fn_declarator_name_def ident_among_def own_name_def by (auto intro!: ends)

lemma field_names_end [simp]: "walkable A \<Longrightarrow> ended (collect_struct_field_names A node)"
  unfolding collect_struct_field_names_def by (auto intro!: ends)

lemma scan_ends [simp]: "walkable A \<Longrightarrow> ended (build_scan_step A x node s)"
  unfolding build_scan_step_def scan_array_def Let_def by (auto intro!: ends)

end
