(* ===== verification/IrReach.thy ===== *)
theory IrReach
  imports IrEnds "HOL-Library.Multiset"
begin

text \<open>
  Which functions of a translation unit the backend emits: the walk with a worklist computes exactly
  the definitions that the roots reach, whatever the order of the hash tables.
\<close>

section \<open>The graph of mentions\<close>

definition mentions :: "function_defs \<Rightarrow> (string \<times> string) set" where
  "mentions defs = {(f, g). \<exists>r cs. map_of defs f = Some (r, cs) \<and> g \<in> set cs \<and> map_of defs g \<noteq> None}"

definition is_root :: "function_defs \<Rightarrow> string \<Rightarrow> bool" where
  "is_root defs f \<longleftrightarrow> (\<exists>cs. map_of defs f = Some (True, cs))"

lemma visit_callees_adds:
  "visit_callees defs cs (R, W) = (R', W') \<Longrightarrow>
     \<exists>new. R' = new @ R \<and> W' = new @ W \<and> distinct new \<and> set new \<inter> set R = {} \<and>
       set new \<union> set R = {g \<in> set cs. map_of defs g \<noteq> None} \<union> set R"
proof (induction defs cs "(R, W)" arbitrary: R W rule: visit_callees.induct)
  case (2 defs c cs R W)
  show ?case
  proof (cases "map_of defs c \<noteq> None \<and> c \<notin> set R")
    case True
    with 2(2) have "visit_callees defs cs (c # R, c # W) = (R', W')" by simp
    with 2(1) [of "c # R" "c # W"] True obtain new where
      "R' = new @ c # R" "W' = new @ c # W" "distinct new" "set new \<inter> set (c # R) = {}"
      "set new \<union> set (c # R) = {g \<in> set cs. map_of defs g \<noteq> None} \<union> set (c # R)" by auto
    with True show ?thesis by (intro exI [of _ "new @ [c]"]) auto
  next
    case False
    with 2(2) have "visit_callees defs cs (R, W) = (R', W')" by auto
    with 2(1) [of R W] False obtain new where
      "R' = new @ R" "W' = new @ W" "distinct new" "set new \<inter> set R = {}"
      "set new \<union> set R = {g \<in> set cs. map_of defs g \<noteq> None} \<union> set R" by auto
    with False show ?thesis by (intro exI [of _ new]) auto
  qed
qed simp

text \<open>
  The invariant of the worklist: what is queued has been reached, and what has been reached and is no
  longer queued has its mentions reached.
\<close>

definition worklist_inv :: "function_defs \<Rightarrow> string list \<Rightarrow> string list \<Rightarrow> bool" where
  "worklist_inv defs R W \<longleftrightarrow>
     distinct W \<and> set W \<subseteq> set R \<and> set R \<subseteq> dom (map_of defs) \<and>
     (\<forall>f \<in> set R - set W. mentions defs `` {f} \<subseteq> set R)"

lemma worklist_step:
  assumes "worklist_inv defs R (f # W)" and "map_of defs f = Some (r, cs)" and "set cs' = set cs"
    and "visit_callees defs cs' (R, W) = (R', W')"
  shows "worklist_inv defs R' W'" "set R' - set W' = insert f (set R - set (f # W))"
    "set R \<subseteq> set R'" "set R' \<subseteq> set R \<union> mentions defs `` {f}"
proof -
  obtain new where n: "R' = new @ R" "W' = new @ W" "distinct new" "set new \<inter> set R = {}"
    "set new \<union> set R = {g \<in> set cs. map_of defs g \<noteq> None} \<union> set R"
    using visit_callees_adds [OF assms(4)] assms(3) by auto
  have m: "mentions defs `` {f} = {g \<in> set cs. map_of defs g \<noteq> None}" using assms(2) by (auto simp: mentions_def)
  note i = assms(1) [unfolded worklist_inv_def]
  show d: "set R' - set W' = insert f (set R - set (f # W))" using n i by auto
  show "set R \<subseteq> set R'" "set R' \<subseteq> set R \<union> mentions defs `` {f}" using n m by auto
  have "\<forall>x \<in> set R' - set W'. mentions defs `` {x} \<subseteq> set R'"
    unfolding d using i m n by auto
  moreover have "distinct W'" "set W' \<subseteq> set R'" "set R' \<subseteq> dom (map_of defs)" using n i by auto
  ultimately show "worklist_inv defs R' W'" by (simp add: worklist_inv_def)
qed

lemma visit_functions_reach:
  assumes iter: "\<And>xs. set (iter xs) = set xs"
  shows "worklist_inv defs R W \<Longrightarrow> card (dom (map_of defs) - (set R - set W)) < n \<Longrightarrow>
    \<exists>S. visit_functions n iter defs R W = Done S \<and> set S = (mentions defs)\<^sup>* `` set R"
proof (induction n arbitrary: R W)
  case (Suc n)
  show ?case
  proof (cases W)
    case Nil
    with Suc.prems(1) have "mentions defs `` set R \<subseteq> set R" by (auto simp: worklist_inv_def)
    then have "(mentions defs)\<^sup>* `` set R = set R" by (rule Image_closed_trancl)
    with Nil show ?thesis by simp
  next
    case (Cons f W0)
    obtain r cs where f: "map_of defs f = Some (r, cs)" using Suc.prems(1) Cons by (auto simp: worklist_inv_def)
    obtain R' W' where v: "visit_callees defs (iter cs) (R, W0) = (R', W')" by fastforce
    note st = worklist_step [OF Suc.prems(1) [unfolded Cons] f iter v]
    let ?D = "dom (map_of defs)"
    have "f \<in> ?D - (set R - set W)" using f Cons by auto
    moreover have "?D - (set R' - set W') = ?D - (set R - set W) - {f}" using st(2) Cons by auto
    ultimately have "card (?D - (set R' - set W')) < card (?D - (set R - set W))"
      using finite_dom_map_of [of defs] by (metis card_Diff1_less finite_Diff)
    then obtain S where S: "visit_functions n iter defs R' W' = Done S" "set S = (mentions defs)\<^sup>* `` set R'"
      using Suc.IH [OF st(1)] Suc.prems(2) by fastforce
    have "f \<in> set R" using Suc.prems(1) Cons by (simp add: worklist_inv_def)
    then have "set R' \<subseteq> (mentions defs)\<^sup>* `` set R" using st(4) by blast
    then have "(mentions defs)\<^sup>* `` set R' \<subseteq> (mentions defs)\<^sup>* `` set R"
      by (auto dest!: subsetD intro: rtrancl_trans)
    with st(3) have "(mentions defs)\<^sup>* `` set R' = (mentions defs)\<^sup>* `` set R" by blast
    with S f v Cons show ?thesis by simp
  qed
qed simp

section \<open>The definitions of a unit\<close>

lemma collect_function_defs_distinct:
  assumes "collect_function_defs A off = Done defs"
  shows "distinct (map fst defs)"
  using assms unfolding collect_function_defs_def
  by (rule siblings_inv) (auto simp: next_round_def distinct_update split: if_splits)

lemma root_functions_set:
  assumes "\<And>xs. mset (iter xs) = mset xs" and "distinct (map fst defs)"
  shows "distinct (root_functions iter defs)" "set (root_functions iter defs) = {f. is_root defs f}"
proof -
  have "distinct (iter (map fst defs))" using mset_eq_imp_distinct_iff [OF assms(1)] assms(2) by simp
  then show "distinct (root_functions iter defs)" by (simp add: root_functions_def)
  have "set (iter (map fst defs)) = fst ` set defs" using assms(1) by (metis set_mset_mset list.set_map)
  then show "set (root_functions iter defs) = {f. is_root defs f}"
    by (auto simp: root_functions_def is_root_def split: option.splits dest: map_of_SomeD intro: rev_image_eqI)
qed

section \<open>Mentioned names are collected\<close>

abbreviation callee_round :: "(node_offset \<Rightarrow> string list \<Rightarrow> string list run) \<Rightarrow> arena \<Rightarrow>
    node_offset \<Rightarrow> cast_node \<Rightarrow> string list \<Rightarrow> (string list + string list) run" where
  "callee_round sub A \<equiv> \<lambda>x node out. run_bind (called_name A node) (\<lambda>name.
     if first_child node \<noteq> NULL then run_bind (sub (first_child node) (add_called name out)) next_round
     else next_round (add_called name out))"

text \<open>\<open>s\<close> is the text of an identifier that the links lead to from \<open>off\<close>.\<close>

definition names_below :: "arena \<Rightarrow> node_offset \<Rightarrow> string set" where
  "names_below A off =
     {s. \<exists>y node. (off, y) \<in> (edges A)\<^sup>* \<and> arena_get A y = Some node \<and> kind node = 60 \<and>
        ident_text A node = Done (Some s) \<and> \<not> starts_with builtin_prefix s}"

lemma names_below_cases:
  assumes "s \<in> names_below A off" and "arena_get A off = Some node"
  obtains (here) "kind node = 60" "ident_text A node = Done (Some s)" "\<not> starts_with builtin_prefix s"
  | (child) "s \<in> names_below A (first_child node)" "first_child node \<noteq> NULL"
  | (sibling) "s \<in> names_below A (next_sibling node)"
proof -
  from assms(1) obtain y m where y: "(off, y) \<in> (edges A)\<^sup>*" "arena_get A y = Some m" "kind m = 60"
    "ident_text A m = Done (Some s)" "\<not> starts_with builtin_prefix s" by (auto simp: names_below_def)
  from y(1) show ?thesis
  proof (cases rule: converse_rtranclE)
    case base
    with y assms(2) here show ?thesis by simp
  next
    case (step z)
    then have "s \<in> names_below A z" using y by (auto simp: names_below_def)
    moreover have "z = first_child node \<or> z = next_sibling node" "z \<noteq> 0"
      using step(1) assms(2) by (auto simp: edges_def links_def arena_get_def split: if_splits)
    ultimately show ?thesis using child sibling by auto
  qed
qed

lemma names_below_none: "arena_get A off = None \<Longrightarrow> names_below A off = {}"
  by (auto simp: names_below_def edges_def elim: converse_rtranclE)

lemma add_called_set: "set (add_called name out) =
    set out \<union> (case name of Some s \<Rightarrow> if starts_with builtin_prefix s then {} else {s} | None \<Rightarrow> {})"
  by (auto simp: add_called_def split: option.split)

lemma callee_rounds:
  assumes sub: "\<And>x out out'. sub x out = Done out' \<Longrightarrow> set out \<union> names_below A x \<subseteq> set out'"
  shows "siblings n A (callee_round sub A) off out = Done out' \<Longrightarrow> set out \<union> names_below A off \<subseteq> set out'"
proof (induction n arbitrary: off out)
  case (Suc n)
  show ?case
  proof (cases "arena_get A off")
    case (Some node)
    with Suc.prems obtain name where n: "called_name A node = Done name"
      and r: "siblings (Suc n) A (callee_round sub A) off out = Done out'" by auto
    have "\<exists>mid. siblings n A (callee_round sub A) (next_sibling node) mid = Done out' \<and>
        (if first_child node \<noteq> NULL then sub (first_child node) (add_called name out) = Done mid else mid = add_called name out)"
    proof (cases "first_child node \<noteq> NULL")
      case True
      with r Some n show ?thesis by (simp add: next_round_def) auto
    qed (use r Some n in \<open>simp add: next_round_def\<close>)
    then obtain mid where m: "siblings n A (callee_round sub A) (next_sibling node) mid = Done out'"
      "if first_child node \<noteq> NULL then sub (first_child node) (add_called name out) = Done mid else mid = add_called name out"
      by blast
    have mid: "set (add_called name out) \<subseteq> set mid" "first_child node \<noteq> NULL \<Longrightarrow> names_below A (first_child node) \<subseteq> set mid"
      using m(2) sub by (auto split: if_splits)
    note out = Suc.IH [OF m(1)]
    have "s \<in> set out'" if "s \<in> names_below A off" for s
      using that Some
    proof (cases rule: names_below_cases)
      case here
      then have "name = Some s" using n by (simp add: called_name_def)
      with here(3) mid(1) out show ?thesis by (auto simp: add_called_set)
    qed (use mid out in auto)
    with mid(1) out show ?thesis by (auto simp: add_called_set)
  qed (use Suc.prems in \<open>simp add: names_below_none\<close>)
qed simp

lemma callees_cover:
  "collect_direct_callees n A off out = Done out' \<Longrightarrow> set out \<union> names_below A off \<subseteq> set out'"
proof (induction n arbitrary: off out out')
  case (Suc n)
  from callee_rounds [of "collect_direct_callees n A" A, OF Suc.IH] Suc.prems show ?case by simp
qed simp

end
