(* ===== verification/IrSamples.thy ===== *)
theory IrSamples
  imports IrReach ExprProps
begin

text \<open>Small trees, stored in an arena with their names, on which the walks of the backend are run.\<close>

section \<open>Arenas with names and nodes\<close>

definition arena400 :: arena where
  "arena400 = \<lparr>mmap = (\<lambda>_. 0), mmap_len = 500 * slot_size, node_capacity = 400, node_allocated = 1,
     string_start = 401, string_capacity = 100, string_allocated = 0\<rparr>"

lemma arena400_new: "arena_new None 400 = Ret (Inr arena400)"
  using arena_new_ok [of 400] by (simp add: arena400_def)

lemma arena400_room: "k < 399 \<Longrightarrow> s < 99 \<Longrightarrow> room arena400 k s"
  using arena_reach_inv [of arena400] arena400_new by (simp add: room_def arena_reach_def) (auto simp: arena400_def)

definition short_name :: "string \<Rightarrow> bool" where
  "short_name s \<longleftrightarrow> s \<noteq> [] \<and> length s \<le> 48 \<and> utf8_ok (str_bytes s)"

lemma names_stored:
  "room A k (length ss + s) \<Longrightarrow> list_all short_name ss \<Longrightarrow>
     \<exists>B offs. grew {} A 0 (length ss) B \<and> list_all2 (stored B) offs ss \<and> list_all (\<lambda>off. off < 2 ^ 32) offs"
proof (induction ss arbitrary: A)
  case Nil
  then show ?case using grew_refl by (intro exI [of _ A] exI [of _ "[]"]) (auto simp: room_def)
next
  case (Cons n ss)
  have p: "pool_slots (length n) = 1" using Cons.prems(2) by (auto simp: short_name_def pool_slots_def slot_size_def)
  have "room A k (pool_slots (length n) + (length ss + s))" using Cons.prems(1) p by simp
  from store_string_room [OF this] Cons.prems(2) p obtain B off where
    B: "grew {} A 0 1 B" "stored B off n" "off < 2 ^ 32" by (auto simp: short_name_def)
  have "room B k (length ss + s)" using room_grew [of A 0 k 1 "length ss + s", OF _ B(1)] Cons.prems(1) by simp
  from Cons.IH [OF this] Cons.prems(2) obtain C offs where
    C: "grew {} B 0 (length ss) C" "list_all2 (stored C) offs ss" "list_all (\<lambda>off. off < 2 ^ 32) offs" by auto
  with grew_trans [OF B(1) C(1)] grew_stored [OF C(1) B(2)] B(3)
  show ?case by (intro exI [of _ C] exI [of _ "off # offs"]) simp
qed

lemma nodes_allocated_after:
  "room A (length ns + k) s \<Longrightarrow> list_all node_wf ns \<Longrightarrow>
     \<exists>B. grew {} A (length ns) 0 B \<and> (\<forall>i < length ns. arena_get B (node_allocated A + i) = Some (ns ! i))"
proof (induction ns arbitrary: A)
  case Nil
  then show ?case using grew_refl by (auto simp: room_def)
next
  case (Cons n ns)
  from arena_alloc_roomy [of A "length ns + k" s n] Cons.prems obtain B where
    B: "grew {} A 1 0 B" "arena_get B (node_allocated A) = Some n" by auto
  have "room B (length ns + k) s" using room_grew [of A 1 "length ns + k" 0 s, OF _ B(1)] Cons.prems(1) by simp
  from Cons.IH [OF this] Cons.prems(2) obtain C where
    C: "grew {} B (length ns) 0 C" "\<forall>i < length ns. arena_get C (node_allocated B + i) = Some (ns ! i)" by auto
  have "arena_get C (node_allocated A) = Some n" using grew_get [OF C(1)] grew_mark [OF B(1)] B(2) by simp
  with C(2) grew_mark [OF B(1)] have "\<forall>i < length (n # ns). arena_get C (node_allocated A + i) = Some ((n # ns) ! i)"
    by (auto simp: less_Suc_eq_0_disj)
  with grew_trans [OF B(1) C(1)] show ?case by auto
qed

lemma sample_arena:
  assumes "list_all short_name ss" and "length ss < 90" and "\<And>offs. length (ns offs) < 390"
    and "\<And>offs. length offs = length ss \<Longrightarrow> list_all (\<lambda>off. off < 2 ^ 32) offs \<Longrightarrow> list_all node_wf (ns offs)"
  shows "\<exists>A offs. arena_inv A \<and> list_all2 (stored A) offs ss \<and> holds_nodes A (ns offs) \<and>
    node_allocated A = Suc (length (ns offs))"
proof -
  from names_stored [of arena400 390 ss 0] arena400_room [of 390 "length ss"] assms(1,2) obtain B offs where
    B: "grew {} arena400 0 (length ss) B" "list_all2 (stored B) offs ss" "list_all (\<lambda>off. off < 2 ^ 32) offs" by auto
  have len: "length offs = length ss" using B(2) by (rule list_all2_lengthD)
  have "room B (length (ns offs) + 0) 0"
    using room_grew [of arena400 0 390 "length ss" 0, OF _ B(1)] arena400_room [of 390 "length ss"] assms(2) assms(3) [of offs]
    by (auto elim: room_less)
  from nodes_allocated_after [OF this assms(4) [OF len B(3)]] obtain C where
    C: "grew {} B (length (ns offs)) 0 C" "\<forall>i < length (ns offs). arena_get C (node_allocated B + i) = Some (ns offs ! i)" by blast
  have one: "node_allocated B = 1" using grew_mark [OF B(1)] by (simp add: arena400_def)
  have all: "node_allocated C = Suc (length (ns offs))" using grew_mark [OF C(1)] one by simp
  have "arena_get C i = (if 1 \<le> i \<and> i \<le> length (ns offs) then Some (ns offs ! (i - 1)) else None)" for i
    using C(2) [rule_format, of "i - 1"] one all by (cases i) (auto simp: arena_get_def)
  then have "holds_nodes C (ns offs)" by (simp add: holds_nodes_def)
  moreover have "list_all2 (stored C) offs ss"
    using B(2) grew_stored [OF C(1)] by (auto elim: list_all2_mono)
  moreover have "arena_inv C" using C(1) by (simp add: grew_def)
  ultimately show ?thesis using all by blast
qed

lemma ir_text_stored: "arena_inv A \<Longrightarrow> stored A off s \<Longrightarrow> ir_text A off = Done (Some s)"
  by (simp add: ir_text_def stored_get_string)

lemma siblings_at:
  "arena_get A off = Some node \<Longrightarrow> siblings (Suc n) A f off s =
     run_bind (f off node s) (\<lambda>r. case r of Inl s' \<Rightarrow> siblings n A f (next_sibling node) s' | Inr s' \<Rightarrow> Done s')"
  "siblings (Suc n) A f 0 s = Done s"
  by (simp_all add: arena_get_def)

lemmas walk_simps = siblings_at next_round_def leave_def first_found_def nonempty_def ident_text_def declarator_kind_def

section \<open>A unit with an unused static function\<close>

text \<open>
  \<open>static void f(void) \{\}\<close>, then \<open>void (*g)(void) = f;\<close>, then \<open>int main(void) \{\}\<close>. The names stand at
  the offsets \<open>offs\<close>.
\<close>

definition unit_nodes :: "node_offset list \<Rightarrow> cast_node list" where
  "unit_nodes offs =
     [fresh_node 60 (offs ! 0) NULL NULL NULL, fresh_node 9 0 NULL 1 3, fresh_node 40 0 NULL NULL NULL,
      fresh_node 103 0 NULL NULL 2, fresh_node 23 0 NULL 4 8,
      fresh_node 60 (offs ! 0) NULL NULL NULL, fresh_node 60 (offs ! 1) NULL NULL 6, fresh_node 20 0 NULL 7 12,
      fresh_node 60 (offs ! 2) NULL NULL NULL, fresh_node 9 0 NULL 9 11, fresh_node 40 0 NULL NULL NULL,
      fresh_node 23 0 NULL 10 NULL]"

definition unit_arena :: "arena \<Rightarrow> node_offset list \<Rightarrow> bool" where
  "unit_arena A offs \<longleftrightarrow> arena_inv A \<and> list_all2 (stored A) offs [''f'', ''g'', ''main''] \<and> holds_nodes A (unit_nodes offs) \<and>
     (\<exists>m. ir_rounds A = Suc (Suc (Suc (Suc m))))"

lemma unit_arena_exists: "\<exists>A offs. unit_arena A offs"
proof -
  have short: "list_all short_name [''f'', ''g'', ''main'']" by code_simp
  have len: "length (unit_nodes offs) = 12" for offs by (simp add: unit_nodes_def)
  have wf: "list_all node_wf (unit_nodes offs)"
    if "length offs = length [''f'', ''g'', ''main'']" "list_all (\<lambda>off. off < 2 ^ 32) offs" for offs
  proof -
    from that(1) obtain a b c where "offs = [a, b, c]" by (auto simp: length_Suc_conv)
    with that(2) show ?thesis by (simp add: unit_nodes_def node_wf_def fresh_node_def source_unknown_def)
  qed
  from sample_arena [where ns = unit_nodes, OF short _ _ wf] obtain A offs where A: "arena_inv A" "list_all2 (stored A) offs [''f'', ''g'', ''main'']"
    "holds_nodes A (unit_nodes offs)" "node_allocated A = Suc (length (unit_nodes offs))"
    by (auto simp: len)
  have "ir_rounds A = Suc (Suc (Suc (Suc 10)))" using A(4) by (simp add: ir_rounds_def len)
  with A show ?thesis unfolding unit_arena_def by blast
qed

lemma unit_get:
  assumes "unit_arena A offs"
  shows "arena_get A 1 = Some (unit_nodes offs ! 0)" "arena_get A 2 = Some (unit_nodes offs ! 1)"
    "arena_get A 3 = Some (unit_nodes offs ! 2)" "arena_get A 4 = Some (unit_nodes offs ! 3)"
    "arena_get A 5 = Some (unit_nodes offs ! 4)" "arena_get A 8 = Some (unit_nodes offs ! 7)"
    "arena_get A 9 = Some (unit_nodes offs ! 8)" "arena_get A 10 = Some (unit_nodes offs ! 9)"
    "arena_get A 11 = Some (unit_nodes offs ! 10)" "arena_get A 12 = Some (unit_nodes offs ! 11)"
    "arena_get A 0 = None"
  using assms by (simp_all add: unit_arena_def holds_nodes_def unit_nodes_def)

lemma unit_defs:
  assumes "unit_arena A offs"
  shows "collect_function_defs A 5 = Done [(''f'', False, []), (''main'', True, [])]"
proof -
  obtain a b c where o: "offs = [a, b, c]" "ir_text A a = Done (Some ''f'')" "ir_text A c = Done (Some ''main'')"
    using assms by (auto simp: unit_arena_def list_all2_Cons2 ir_text_stored)
  obtain m where r: "ir_rounds A = Suc (Suc (Suc (Suc m)))" using assms by (auto simp: unit_arena_def)
  note g = unit_get [OF assms, unfolded unit_nodes_def o(1), simplified]
  note w = walk_simps g r o(2,3)
  have sig5: "function_signature_info A (fresh_node 23 0 NULL 4 8) =
      Done \<lparr>sig_name = ''f'', sig_static = True, sig_inline = False, sig_body = 3\<rparr>"
    by (simp add: function_signature_info_def w declared_function_name_def function_declarator_def)
  have sig12: "function_signature_info A (fresh_node 23 0 NULL 10 0) =
      Done \<lparr>sig_name = ''main'', sig_static = False, sig_inline = False, sig_body = 11\<rparr>"
    by (simp add: function_signature_info_def w declared_function_name_def function_declarator_def)
  have attrs: "extract_attributes A (fresh_node 23 0 NULL 4 8) = Done []" "extract_attributes A (fresh_node 23 0 NULL 10 0) = Done []"
    by (simp_all add: extract_attributes_def w)
  have callees: "collect_direct_callees (ir_rounds A) A 3 [] = Done []" "collect_direct_callees (ir_rounds A) A 11 [] = Done []"
    by (simp_all add: w called_name_def add_called_def)
  have "function_def A (fresh_node 23 0 NULL 4 8) = Done (''f'', False, [])"
      "function_def A (fresh_node 23 0 NULL 10 0) = Done (''main'', True, [])"
    by (simp_all add: function_def_def sig5 sig12 attrs callees has_attr_def)
  then show ?thesis by (simp add: collect_function_defs_def w)
qed

end
