(* ===== verification/IrConst.thy ===== *)
theory IrConst
  imports IrEnds ExprProps PpIfGrammar
begin

text \<open>
  The backend evaluates integer constants (lengths of arrays) on the tree itself. Its value for a
  parsed expression is compared with the value of the expression in C, which \<open>PpIfGrammar\<close> defines for
  the expressions of \<open>#if\<close>.
\<close>

section \<open>The C expression of a tree\<close>

definition binop_names :: "(string \<times> c_binop) list" where
  "binop_names =
     [(''*'', Mul), (''/'', Div), (''%'', Mod), (''+'', Add), (''-'', Sub), (''<<'', Shl), (''>>'', Shr), (''<'', Less),
      (''>'', Greater), (''<='', LessEq), (''>='', GreaterEq), (''=='', Equal), (''!='', NotEqual), (''&'', BitAnd),
      (''^'', BitXor), (''|'', BitOr), (''&&'', LogAnd), (''||'', LogOr)]"

definition unop_names :: "(string \<times> c_unop) list" where
  "unop_names = [(''!'', LogNot), (''~'', BitNot), (''-'', Neg), (''+'', Plus)]"

abbreviation binop_named :: "string \<Rightarrow> c_binop option" where
  "binop_named \<equiv> map_of binop_names"

abbreviation unop_named :: "string \<Rightarrow> c_unop option" where
  "unop_named \<equiv> map_of unop_names"

fun c_meaning :: "cexpr \<Rightarrow> c_expr option" where
  "c_meaning (E_Num s) = Some (Leaf (int (int_constant_value s)))"
| "c_meaning (E_Char s) = Some (Leaf (int (char_constant_value s)))"
| "c_meaning (E_Prefix op a) =
     (case (unop_named op, c_meaning a) of (Some u, Some x) \<Rightarrow> Some (Unary u x) | _ \<Rightarrow> None)"
| "c_meaning (E_Binary op a b) =
     (case (binop_named op, c_meaning a, c_meaning b) of (Some f, Some x, Some y) \<Rightarrow> Some (Binary f x y) | _ \<Rightarrow> None)"
| "c_meaning (E_Cond c a b) =
     (case (c_meaning c, c_meaning a, c_meaning b) of (Some z, Some x, Some y) \<Rightarrow> Some (Conditional z x y) | _ \<Rightarrow> None)"
| "c_meaning _ = None"

text \<open>The operators the backend evaluates in the sense of C.\<close>

fun lowers :: "c_expr \<Rightarrow> bool" where
  "lowers (Leaf v) = True"
| "lowers (Unary u a) = (u \<noteq> Plus \<and> lowers a)"
| "lowers (Binary b x y) = (b \<in> {Mul, Div, Mod, Add, Sub, Shl, Shr, BitAnd, BitXor, BitOr} \<and> lowers x \<and> lowers y)"
| "lowers (Conditional c x y) = False"

definition binop_codes :: "(c_binop \<times> u32) list" where
  "binop_codes =
    [(Mul, 3), (Div, 4), (Mod, 5), (Add, 1), (Sub, 2), (Shl, 17), (Shr, 18), (Less, 8), (Greater, 9), (LessEq, 10),
     (GreaterEq, 11), (Equal, 6), (NotEqual, 7), (BitAnd, 14), (BitXor, 16), (BitOr, 15), (LogAnd, 12), (LogOr, 13)]"

definition unop_codes :: "(c_unop \<times> u32) list" where
  "unop_codes = [(LogNot, 2), (BitNot, 3), (Neg, 1), (Plus, 0)]"

lemma op_named_codes:
  "list_all (\<lambda>(s, b). (b, binary_code s) \<in> set binop_codes) binop_names"
  "list_all (\<lambda>(s, u). (u, op_code prefix_ops s) \<in> set unop_codes) unop_names"
  by code_simp+

lemma binop_named_code: "binop_named op = Some b \<Longrightarrow> (b, binary_code op) \<in> set binop_codes"
  and unop_named_code: "unop_named op = Some u \<Longrightarrow> (u, op_code prefix_ops op) \<in> set unop_codes"
  using op_named_codes by (auto simp only: list_all_iff dest!: map_of_SomeD)

lemma ir_binary_value:
  assumes "binop_named op = Some b" and "b \<in> {Mul, Div, Mod, Add, Sub, Shl, Shr, BitAnd, BitXor, BitOr}"
    and "binop_value b x y = Some v"
  shows "ir_binary (binary_code op) x y = Some v"
  using binop_named_code [OF assms(1)] assms(2,3)
  by (auto simp: binop_codes_def ir_binary_def fits_Some to_i64_fits split: if_splits)

lemma ir_unary_value:
  assumes "unop_named op = Some u" and "u \<noteq> Plus" and "unop_value u x = Some v"
  shows "ir_unary (op_code prefix_ops op) x = Done (Some v)"
  using unop_named_code [OF assms(1)] assms(2,3)
  by (auto simp: unop_codes_def ir_unary_def fits_Some in_i64_def not_int_def int_of_bool_def split: if_splits)

section \<open>The value of a parsed constant\<close>

lemma c_meaning_prefix: "c_meaning (E_Prefix op a) = Some c \<Longrightarrow>
    \<exists>u x. unop_named op = Some u \<and> c_meaning a = Some x \<and> c = Unary u x"
  by (auto split: option.splits)

lemma c_meaning_binary: "c_meaning (E_Binary op a b) = Some c \<Longrightarrow>
    \<exists>f x y. binop_named op = Some f \<and> c_meaning a = Some x \<and> c_meaning b = Some y \<and> c = Binary f x y"
  by (auto split: option.splits)

lemma eval_at_const:
  "node_is A x k d c nx \<Longrightarrow> k \<notin> {0, 74} \<Longrightarrow> eval_const_int_expr (Suc n) A x =
     (if k = 61 \<or> k = 80 \<or> k = 62 then Done (Some (int d))
      else if k = 65 then when_done (eval_const_int_expr n A c) (ir_unary d)
      else if k = 64 then
        when_done (eval_const_int_expr n A (fst (ir_operands A (fresh_node k d NULL c nx)))) (\<lambda>lhs.
        when_done (eval_const_int_expr n A (snd (ir_operands A (fresh_node k d NULL c nx)))) (\<lambda>rhs.
        Done (ir_binary d lhs rhs)))
      else Done None)"
  by simp

lemma when_done_Some: "when_done (Done (Some v)) k = k v"
  by (simp add: when_done_def)

lemma lowered_value:
  "built A lo x nx e \<Longrightarrow> 0 < lo \<Longrightarrow> nodes e \<le> n \<Longrightarrow> c_meaning e = Some c \<Longrightarrow> lowers c \<Longrightarrow> all_defined c \<Longrightarrow>
     \<exists>v. c_value c = Some v \<and> eval_const_int_expr n A x = Done (Some v)"
proof (induction e arbitrary: lo x nx n c)
  case (E_Num s)
  obtain m where n: "n = Suc m" using E_Num.prems(3) by (cases n) auto
  from E_Num.prems(1) have o: "node_is A x 61 (int_constant_value s) NULL nx" by simp
  show ?case unfolding n using eval_at_const [OF o] E_Num.prems(4) by auto
next
  case (E_Char s)
  obtain m where n: "n = Suc m" using E_Char.prems(3) by (cases n) auto
  from E_Char.prems(1) have o: "node_is A x 62 (char_constant_value s) NULL nx" by simp
  show ?case unfolding n using eval_at_const [OF o] E_Char.prems(4) by auto
next
  case (E_Prefix op a)
  obtain m where n: "n = Suc m" using E_Prefix.prems(3) by (cases n) auto
  obtain y where o: "built A lo y NULL a" "node_is A x 65 (op_code prefix_ops op) y nx" using E_Prefix.prems(1) by auto
  obtain u z where u: "unop_named op = Some u" "c_meaning a = Some z" "c = Unary u z"
    using c_meaning_prefix [OF E_Prefix.prems(4)] by blast
  obtain v w where v: "c_value z = Some v" "eval_const_int_expr m A y = Done (Some v)" "unop_value u v = Some w"
    using E_Prefix.IH [OF o(1) E_Prefix.prems(2) _ u(2), of m] E_Prefix.prems(3,5,6) n u(3) by auto
  with ir_unary_value [OF u(1) _ v(3)] E_Prefix.prems(5) u(3)
  show ?case unfolding n using eval_at_const [OF o(2)] by (simp add: when_done_Some)
next
  case (E_Binary op a b)
  obtain m where n: "n = Suc m" using E_Binary.prems(3) by (cases n) auto
  obtain y z w where o: "built A lo y NULL a" "built A (Suc y) z NULL b" "z < w" "w < x"
      "node_is A w 0 0 y z" "node_is A x 64 (binary_code op) w nx" using E_Binary.prems(1) by auto
  have "0 < y" "0 < z" using built_least [OF o(1)] built_least [OF o(2)] E_Binary.prems(2) by simp_all
  then have bo: "ir_operands A (fresh_node 64 (binary_code op) NULL w nx) = (y, z)"
    using o(5) by (simp add: ir_operands_def)
  obtain f c1 c2 where f: "binop_named op = Some f" "c_meaning a = Some c1" "c_meaning b = Some c2" "c = Binary f c1 c2"
    using c_meaning_binary [OF E_Binary.prems(4)] by blast
  obtain v1 v2 v where v: "all_defined c1" "all_defined c2" "c_value c1 = Some v1" "c_value c2 = Some v2"
      "c_value c = Some v" "binop_value f v1 v2 = Some v"
    using binary_defined E_Binary.prems(6) f(4) by metis
  have "eval_const_int_expr m A y = Done (Some v1)" "eval_const_int_expr m A z = Done (Some v2)"
    using E_Binary.IH(1) [OF o(1) E_Binary.prems(2) _ f(2) _ v(1), of m] E_Binary.IH(2) [OF o(2) _ _ f(3) _ v(2), of m]
      E_Binary.prems(3,5) n f(4) v(3,4) by auto
  with ir_binary_value [OF f(1) _ v(6)] E_Binary.prems(5) f(4) v(5)
  show ?case unfolding n using eval_at_const [OF o(6)] bo by (simp add: when_done_Some)
qed (auto split: option.splits)


text \<open>\<open>-9\<close>, where the evaluator of the parser ignores the sign.\<close>

definition negative_tree :: cexpr where
  "negative_tree = E_Prefix ''-'' (E_Num ''9'')"

lemma negative_tree_facts:
  "plain {} negative_tree" "nodes negative_tree = 2" "slots negative_tree = 0" "ExprParse.stops 2 [pw '','']"
  "spell 2 negative_tree = [pw ''-'', (K_IntConstant, ''9'')]" "c_meaning negative_tree = Some (Unary Neg (Leaf 9))"
proof -
  have "int_constant_value ''9'' = 9"
    by (simp add: int_constant_value_def Let_def starts_with_def u32_from_str_def or_zero_def radix_value_def digit_value_def)
  moreover have "unop_named ''-'' = Some Neg" by code_simp
  ultimately show "c_meaning negative_tree = Some (Unary Neg (Leaf 9))" by (simp add: negative_tree_def)
qed (simp_all add: negative_tree_def prefix_ops_def spell_def wrap_def ExprParse.stops_def continues_def assign_ops_def
    binary_rank_def binary_ops_def)


end
