(* ===== verification/IrProps.thy ===== *)
theory IrProps
  imports IrSamples
begin

text \<open>
  What holds of the parts of the backend that do not emit code: which functions are emitted, the values
  of constants, scopes of variables, sizes of records.
\<close>

section \<open>The functions that are emitted\<close>

lemma defs_from_nodes:
  assumes "collect_function_defs A off = Done defs" and "map_of defs f = Some e"
  shows "\<exists>x node. arena_get A x = Some node \<and> kind node = 23 \<and> function_def A node = Done (f, e)"
proof -
  have "\<forall>f e. map_of defs f = Some e \<longrightarrow> (\<exists>x node. arena_get A x = Some node \<and> kind node = 23 \<and> function_def A node = Done (f, e))"
    using assms(1) unfolding collect_function_defs_def
    by (rule siblings_inv) (auto simp: next_round_def update_conv' split: if_splits, blast)
  with assms(2) show ?thesis by blast
qed

lemma def_mentions:
  assumes "function_def A node = Done (f, r, cs)"
  shows "\<exists>sig. function_signature_info A node = Done sig \<and> sig_name sig = f \<and> names_below A (sig_body sig) \<subseteq> set cs"
proof -
  from assms obtain sig where s: "function_signature_info A node = Done sig" "sig_name sig = f"
    and c: "(if sig_body sig \<noteq> NULL then collect_direct_callees (ir_rounds A) A (sig_body sig) [] else Done []) = Done cs"
    by (auto simp: function_def_def)
  have "names_below A (sig_body sig) \<subseteq> set cs"
    using c callees_cover [of "ir_rounds A" A "sig_body sig" "[]" cs] names_below_none [of A 0]
    by (cases "sig_body sig = NULL") (simp_all add: arena_get_def)
  with s show ?thesis by blast
qed

lemma reachable_run:
  assumes "\<forall>xs. mset (iter xs) = mset xs" and "collect_function_defs A off = Done defs"
  shows "\<exists>R. compute_reachable_functions iter A off = Done R \<and> set R = (mentions defs)\<^sup>* `` {f. is_root defs f}"
proof -
  let ?roots = "root_functions iter defs"
  have iter: "set (iter xs) = set xs" for xs using assms(1) by (metis set_mset_mset)
  have dist: "distinct (map fst defs)" by (rule collect_function_defs_distinct [OF assms(2)])
  have roots: "distinct ?roots" "set ?roots = {f. is_root defs f}"
    by (rule root_functions_set [OF assms(1) [rule_format] dist])+
  then have inv: "worklist_inv defs ?roots (rev ?roots)" by (auto simp: worklist_inv_def is_root_def)
  have "card (dom (map_of defs)) \<le> length defs" by (metis card_image_le card_length dom_map_of_conv_image_fst finite_set le_trans)
  then have "card (dom (map_of defs) - (set ?roots - set (rev ?roots))) < Suc (length defs)" by simp
  from visit_functions_reach [OF iter inv this] roots(2) assms(2) show ?thesis
    by (auto simp: compute_reachable_functions_def)
qed

text \<open>
  C7: The functions the backend emits are exactly the definitions of the unit that can be reached from
  the functions that are not static (or are kept by an attribute) through mentions of their names,
  in whatever order the hash tables are walked, and the walk with its worklist ends. So every
  function that is defined in the unit and named in the body of an emitted function is emitted. (If
  there are none, the backend emits all definitions.) Only bodies count: a static function whose
  address is only in the initialiser of a global variable is not among them.
\<close>

theorem emitted_functions_exact:
  assumes "\<forall>xs. mset (iter xs) = mset xs" and "collect_function_defs A off = Done defs"
  shows "\<exists>R. compute_reachable_functions iter A off = Done R \<and> set R = (mentions defs)\<^sup>* `` {f. is_root defs f} \<and>
    (\<forall>f \<in> set R. \<exists>x node sig. arena_get A x = Some node \<and> kind node = 23 \<and>
       function_signature_info A node = Done sig \<and> sig_name sig = f \<and>
       (\<forall>g \<in> names_below A (sig_body sig). map_of defs g \<noteq> None \<longrightarrow> g \<in> set R))"
proof -
  from reachable_run [OF assms] obtain R where
    R: "compute_reachable_functions iter A off = Done R" "set R = (mentions defs)\<^sup>* `` {f. is_root defs f}" by blast
  have "\<exists>x node sig. arena_get A x = Some node \<and> kind node = 23 \<and> function_signature_info A node = Done sig \<and>
      sig_name sig = f \<and> (\<forall>g \<in> names_below A (sig_body sig). map_of defs g \<noteq> None \<longrightarrow> g \<in> set R)" if f: "f \<in> set R" for f
  proof -
    from f R(2) obtain h where h: "is_root defs h" "(h, f) \<in> (mentions defs)\<^sup>*" by auto
    then have "map_of defs f \<noteq> None" by (auto simp: is_root_def mentions_def elim: rtranclE)
    then obtain r cs where d: "map_of defs f = Some (r, cs)" by auto
    obtain x node where x: "arena_get A x = Some node" "kind node = 23" "function_def A node = Done (f, r, cs)"
      using defs_from_nodes [OF assms(2) d] by blast
    obtain sig where sig: "function_signature_info A node = Done sig" "sig_name sig = f" "names_below A (sig_body sig) \<subseteq> set cs"
      using def_mentions [OF x(3)] by blast
    have "g \<in> set R" if "g \<in> names_below A (sig_body sig)" "map_of defs g \<noteq> None" for g
    proof -
      have "(f, g) \<in> mentions defs" using d that sig(3) by (auto simp: mentions_def)
      with h R(2) show ?thesis by (blast intro: rtrancl_into_rtrancl)
    qed
    with x sig show ?thesis by blast
  qed
  with R show ?thesis by blast
qed

theorem emitted_functions_exact_witness:
  "\<exists>A offs R. unit_arena A offs \<and> compute_reachable_functions rev A 5 = Done R \<and> emits_function R ''main'' \<and> \<not> emits_function R ''f''"
proof -
  obtain A offs where A: "unit_arena A offs" using unit_arena_exists by blast
  define D :: function_defs where "D = [(''f'', False, []), (''main'', True, [])]"
  have D: "collect_function_defs A 5 = Done D" using unit_defs [OF A] by (simp add: D_def)
  from emitted_functions_exact [OF _ D, of rev] obtain R where
    R: "compute_reachable_functions rev A 5 = Done R" "set R = (mentions D)\<^sup>* `` {f. is_root D f}" by auto
  have d: "cs = []" "r \<Longrightarrow> f = ''main''" if "map_of D f = Some (r, cs)" for f r cs
    using map_of_SomeD [OF that] unfolding D_def by auto
  have "mentions D = {}" using d(1) by (fastforce simp: mentions_def)
  moreover have "is_root D f \<longleftrightarrow> f = ''main''" for f
  proof
    show "f = ''main''" if "is_root D f" using that unfolding is_root_def by (elim exE) (erule d(2), rule TrueI)
    have "map_of D ''main'' = Some (True, [])" by (simp add: D_def)
    then show "is_root D f" if "f = ''main''" unfolding that is_root_def by blast
  qed
  ultimately have R': "set R = {''main''}" using R(2) by simp
  have "''main'' \<in> set R" unfolding R' by (rule singletonI)
  moreover have "''f'' \<notin> set R" unfolding R' by simp
  moreover from calculation(1) have "R \<noteq> []" by (metis empty_iff list.set(1))
  ultimately have "emits_function R ''main''" "\<not> emits_function R ''f''" unfolding emits_function_def by blast+
  with A R(1) show ?thesis by blast
qed

section \<open>The scans end\<close>

lemma reachable_ends:
  assumes "walkable A" and "\<forall>xs. mset (iter xs) = mset xs"
  shows "ended (compute_reachable_functions iter A off)"
proof (cases "collect_function_defs A off")
  case (Done defs)
  from reachable_run [OF assms(2) this] show ?thesis by auto
next
  case NoFuel
  with function_defs_end [OF assms(1), of off] show ?thesis by simp
qed (simp add: compute_reachable_functions_def)

text \<open>
  C20: On every translation unit the parser builds, the scans of the backend end within the number of
  its nodes: which functions to emit, typedef names and static functions, the shapes of global
  variables, constants, sizes, attributes, names of members. No scan meets a cycle and no recursion is
  deeper than the tree.
\<close>

theorem backend_scans_end:
  assumes "well_linked A" and "\<forall>t \<in> set ts. ct_text t \<notin> set asm_words"
    and "parse_tokens ts (parser_new A) = Parsed root q" and "B = p_arena q" and "\<forall>xs. mset (iter xs) = mset xs"
  shows "compute_reachable_functions iter B root \<noteq> NoFuel \<and>
    collect_typedef_aliases B root names \<noteq> NoFuel \<and> collect_static_function_names B root names \<noteq> NoFuel \<and>
    (\<forall>off g. scan_global_var_shape (ir_rounds B) B off g \<noteq> NoFuel \<and> eval_const_int_expr (ir_rounds B) B off \<noteq> NoFuel \<and>
       sizeof_type_from_ast (ir_rounds B) fc T B off \<noteq> NoFuel \<and> subtree_has_byte_pointer_ident (ir_rounds B) B names off \<noteq> NoFuel) \<and>
    (\<forall>node. extract_attributes B node \<noteq> NoFuel \<and> collect_struct_field_names B node \<noteq> NoFuel)"
proof -
  from parsed_grown(1) [OF assms(1-3)] have w: "walkable B"
    unfolding assms(4) grown_def by (auto intro: well_linked_walkable)
  from reachable_ends [OF w assms(5)] w show ?thesis
    unfolding ended_def [symmetric]
    by (simp add: typedef_aliases_end static_names_end global_shape_ends eval_const_ends sizeof_ends byte_pointer_ends walkable_height)
qed

theorem backend_scans_end_witness:
  "\<exists>q. parse_tokens int_tokens (parser_new arena8) = Parsed 2 q \<and> compute_reachable_functions rev (p_arena q) 2 \<noteq> NoFuel"
  using backend_scans_end [OF arena8_well_linked asm_free_int(2) _ refl, of 2 _ rev] int_token_list by auto

section \<open>Scopes\<close>

datatype 'v scope_op = Open_Block | Close_Block | Declare string 'v

fun scope_step :: "'v scope_op \<Rightarrow> 'v scopes \<Rightarrow> 'v scopes" where
  "scope_step Open_Block s = push_scope s"
| "scope_step Close_Block s = pop_scope s"
| "scope_step (Declare name v) s = insert_scoped_variable name v s"

text \<open>
  The environment of C: a map for each open block, innermost first, above the map of the variables
  outside; a name means its innermost binding.
\<close>

fun env_step :: "'v scope_op \<Rightarrow> (string \<rightharpoonup> 'v) list \<Rightarrow> (string \<rightharpoonup> 'v) list" where
  "env_step Open_Block env = Map.empty # env"
| "env_step Close_Block (m # m' # env) = m' # env"
| "env_step Close_Block env = env"
| "env_step (Declare name v) (m # env) = m(name \<mapsto> v) # env"
| "env_step (Declare name v) [] = []"

fun env_lookup :: "(string \<rightharpoonup> 'v) list \<Rightarrow> string \<rightharpoonup> 'v" where
  "env_lookup [] = Map.empty"
| "env_lookup (m # env) = env_lookup env ++ m"

text \<open>The maps of saved bindings hold what the names of each block meant outside it.\<close>

fun saves :: "(string \<rightharpoonup> 'v) list \<Rightarrow> (string \<rightharpoonup> 'v option) list \<Rightarrow> bool" where
  "saves [m] [] = True"
| "saves (m # m' # env) (saved # st) =
     (saved = (\<lambda>x. if m x = None then None else Some (env_lookup (m' # env) x)) \<and> saves (m' # env) st)"
| "saves _ _ = False"

definition env_of :: "(string \<rightharpoonup> 'v) list \<Rightarrow> 'v scopes \<Rightarrow> bool" where
  "env_of env s \<longleftrightarrow> variables s = env_lookup env \<and> saves env (scope_stack s)"

lemma saves_cases:
  assumes "saves env st"
  obtains (outer) m where "env = [m]" "st = []"
  | (block) m m' env' saved st' where "env = m # m' # env'" "st = saved # st'"
    "saved = (\<lambda>x. if m x = None then None else Some (env_lookup (m' # env') x))" "saves (m' # env') st'"
  using assms by (cases "(env, st)" rule: saves.cases) auto

lemma env_step_refined:
  assumes "env_of env s"
  shows "env_of (env_step op env) (scope_step op s)"
proof -
  have v: "variables s = env_lookup env" and st: "saves env (scope_stack s)" using assms by (simp_all add: env_of_def)
  from st show ?thesis
  proof (cases rule: saves_cases)
    case outer
    with v show ?thesis
      by (cases op) (auto simp: env_of_def push_scope_def pop_scope_def insert_scoped_variable_def)
  next
    case (block m m' env' saved st')
    show ?thesis
    proof (cases op)
      case Open_Block
      with block v st show ?thesis by (simp add: env_of_def push_scope_def)
    next
      case Close_Block
      have "(\<lambda>x. case saved x of None \<Rightarrow> variables s x | Some b \<Rightarrow> b) = env_lookup (m' # env')"
        unfolding v block(1,3) by (rule ext) (auto simp: map_add_def split: option.splits)
      with Close_Block block(1,2,4) show ?thesis by (simp add: env_of_def pop_scope_def)
    next
      case (Declare name val)
      have "(if saved name = None then saved(name \<mapsto> variables s name) else saved) =
          (\<lambda>x. if (m(name \<mapsto> val)) x = None then None else Some (env_lookup (m' # env') x))"
        unfolding v block(1,3) by (rule ext) (auto simp: map_add_def split: option.splits)
      with Declare block(1,2,4) v show ?thesis by (simp add: env_of_def insert_scoped_variable_def)
    qed
  qed
qed

lemma saves_unique: "saves env a \<Longrightarrow> saves env b \<Longrightarrow> a = b"
proof (induction env arbitrary: a b)
  case (Cons m env)
  from Cons.prems(1) show ?case
  proof (cases rule: saves_cases)
    case outer
    with Cons.prems(2) show ?thesis by (cases b) simp_all
  next
    case (block m1 m' env' saved st')
    then show ?thesis using Cons.prems(2) Cons.IH by (cases b) simp_all
  qed
qed simp

text \<open>What happens in a block: declarations and whole blocks.\<close>

inductive block_ops :: "'v scope_op list \<Rightarrow> bool" where
  none: "block_ops []"
| binding: "block_ops ops \<Longrightarrow> block_ops (Declare name v # ops)"
| nested: "block_ops inner \<Longrightarrow> block_ops ops \<Longrightarrow> block_ops (Open_Block # inner @ Close_Block # ops)"

lemma block_keeps_outer: "block_ops ops \<Longrightarrow> \<exists>m'. fold env_step ops (m # env) = m' # env"
proof (induction ops arbitrary: m env rule: block_ops.induct)
  case (nested inner ops)
  obtain m' where "fold env_step inner (Map.empty # m # env) = m' # m # env" using nested.IH(1) by blast
  with nested.IH(2) show ?case by simp
qed auto

text \<open>
  C11: Scopes of variables implement the nested environments of C: after any sequence of opening and
  closing blocks and declaring variables, started with the variables \<open>m\<close>, the table of variables gives
  each name its innermost binding. In particular a block, whatever it declares and however blocks
  are nested in it, leaves the table and the saved bindings as they were.
\<close>

theorem scopes_refine_environments:
  fixes ops :: "'v scope_op list"
  shows "variables (fold scope_step ops \<lparr>variables = m, scope_stack = []\<rparr>) = env_lookup (fold env_step ops [m]) \<and>
    (block_ops inner \<longrightarrow>
       fold scope_step (Open_Block # inner @ [Close_Block]) (fold scope_step ops \<lparr>variables = m, scope_stack = []\<rparr>) =
       fold scope_step ops \<lparr>variables = m, scope_stack = []\<rparr>)"
proof -
  let ?start = "\<lparr>variables = m, scope_stack = []\<rparr>"
  have run: "env_of env s \<Longrightarrow> env_of (fold env_step xs env) (fold scope_step xs s)" for env s and xs :: "'v scope_op list"
    by (induction xs arbitrary: env s) (simp_all add: env_step_refined)
  have same: "s = t" if "env_of env s" "env_of env t" for env and s t :: "'v scopes"
  proof -
    from that have "scope_stack s = scope_stack t" unfolding env_of_def by (blast intro: saves_unique)
    with that show ?thesis by (simp add: env_of_def)
  qed
  have start: "env_of [m] ?start" by (simp add: env_of_def)
  obtain n env where ne: "fold env_step ops [m] = n # env"
    using run [OF start, of ops] by (cases "fold env_step ops [m]") (auto simp: env_of_def)
  have "fold scope_step (Open_Block # inner @ [Close_Block]) (fold scope_step ops ?start) = fold scope_step ops ?start"
    if b: "block_ops inner"
  proof -
    obtain m' where "fold env_step inner (Map.empty # n # env) = m' # n # env" using block_keeps_outer [OF b] by blast
    then have "fold env_step (Open_Block # inner @ [Close_Block]) (n # env) = n # env" by simp
    with run [OF run [OF start, of ops], of "Open_Block # inner @ [Close_Block]"] run [OF start, of ops] ne show ?thesis
      by (intro same) simp_all
  qed
  with run [OF start, of ops] show ?thesis by (simp add: env_of_def)
qed

theorem scopes_refine_environments_witness:
  "fold scope_step [Open_Block, Declare ''x'' (2 :: nat), Open_Block, Declare ''x'' 3, Close_Block, Close_Block]
     \<lparr>variables = [''x'' \<mapsto> 1], scope_stack = []\<rparr> = \<lparr>variables = [''x'' \<mapsto> 1], scope_stack = []\<rparr>"
proof -
  have b: "block_ops (Declare ''x'' (2 :: nat) # Open_Block # [Declare ''x'' 3] @ Close_Block # [])"
    by (intro block_ops.intros)
  show ?thesis
    using mp [OF conjunct2 [OF scopes_refine_environments [of "[]" "[''x'' \<mapsto> 1]"]] b] by simp
qed

end
