(* ===== verification/IrSizes.thy ===== *)
theory IrSizes
  imports IrSamples TypeLayout
begin

text \<open>
  The sizes the backend computes for \<open>sizeof\<close> against the layout of the type table.
\<close>

section \<open>Chains of siblings as lists\<close>

fun chain_nodes :: "arena \<Rightarrow> node_offset \<Rightarrow> cast_node list \<Rightarrow> bool" where
  "chain_nodes A off [] = (arena_get A off = None)"
| "chain_nodes A off (n # ns) = (arena_get A off = Some n \<and> chain_nodes A (next_sibling n) ns)"

fun fold_run :: "('a \<Rightarrow> 's \<Rightarrow> 's run) \<Rightarrow> 'a list \<Rightarrow> 's \<Rightarrow> 's run" where
  "fold_run g [] s = Done s"
| "fold_run g (n # ns) s = run_bind (g n s) (fold_run g ns)"

lemma siblings_chain:
  "chain_nodes A off ns \<Longrightarrow> length ns < n \<Longrightarrow> (\<And>x node s. node \<in> set ns \<Longrightarrow> f x node s = run_bind (g node s) next_round) \<Longrightarrow>
     siblings n A f off s = fold_run g ns s"
proof (induction ns arbitrary: off n s)
  case Nil
  then show ?case by (cases n) simp_all
next
  case (Cons a ns)
  obtain m where n: "n = Suc m" using Cons.prems(2) by (cases n) auto
  have IH: "siblings m A f (next_sibling a) t = fold_run g ns t" for t
    using Cons.prems n by (intro Cons.IH) auto
  show ?case
  proof (cases "g a s")
    case (Done t)
    with Cons.prems(1) Cons.prems(3) [of a] n IH show ?thesis by (simp add: next_round_def)
  qed (use Cons.prems(1) Cons.prems(3) [of a] n in simp_all)
qed

lemma run_bind_assoc: "run_bind (run_bind m f) g = run_bind m (\<lambda>x. run_bind (f x) g)"
  by (cases m) simp_all

section \<open>Records without bit-fields\<close>

lemma align_up_round: "0 < a \<Longrightarrow> x + a < 2 ^ 64 \<Longrightarrow> align_up x a = Some (round_up x a)"
  by (cases "a = 1") (simp_all add: align_up_def chk_round_up_Some round_up_def)

lemma place_field_natural:
  assumes "0 < al" and "off + al < 2 ^ 64" and "round_up off al + sz < 2 ^ 64"
  shows "place_field False False (sz, al) (off, mx, ms) = Some (round_up off al + sz, max mx al, ms)"
  using assms align_up_round [OF assms(1,2)] by (simp add: place_field_def Let_def chk_add_def max_absorb1)

lemma members_natural:
  "list_all2 (\<lambda>n m. kind n \<noteq> 200 \<and> member_size sizer A n = Done (size0 ts (m_type m), align0 ts (m_type m))) ns ms \<Longrightarrow>
     \<forall>m \<in> set ms. sized ts m \<Longrightarrow> natural_end ts off ms + max_align ts mx ms < 2 ^ 64 \<Longrightarrow>
     fold_run (\<lambda>n st. if kind n = 200 then Done st
        else run_bind (member_size sizer A n) (\<lambda>sa. run_of (place_field False False sa st))) ns (off, mx, z) =
     Done (natural_end ts off ms, max_align ts mx ms, z)"
proof (induction ns ms arbitrary: off mx rule: list_all2_induct)
  case (Cons n ns m ms)
  let ?al = "align0 ts (m_type m)" and ?sz = "size0 ts (m_type m)"
  let ?stop = "round_up off ?al + ?sz"
  have pos: "0 < ?al" using Cons.prems(1) by (simp add: sized_def)
  have "?stop \<le> natural_end ts ?stop ms" using Cons.prems(1) by (intro natural_end_ge) simp
  moreover have "?al \<le> max_align ts (max mx ?al) ms" using max_align_ge [of "max mx ?al" ts ms] by simp
  moreover have "off \<le> round_up off ?al" by (rule round_up_ge [OF pos])
  ultimately have b: "off + ?al < 2 ^ 64" "?stop < 2 ^ 64" using Cons.prems(2) by simp_all
  from Cons.IH [of ?stop "max mx ?al"] Cons.prems place_field_natural [OF pos b] Cons.hyps(1) show ?case by simp
qed simp

lemma natural_layout:
  assumes "\<forall>m \<in> set ms. plain_member m \<and> sized ts m" and "natural_end ts 0 ms + max_align ts 1 ms < 2 ^ 64"
  shows "compute_layout_info ts ms False = Some \<lparr>li_size = round_up (natural_end ts 0 ms) (max_align ts 1 ms),
    li_align = max_align ts 1 ms, li_members = natural ts 0 ms\<rparr>"
  using layout_members_plain [OF assms(1), of layout_start] assms(2) max_align_ge [of 1 ts ms]
  by (simp add: compute_layout_info_def close_unit_def layout_start_def chk_round_up_Some del: One_nat_def)


section \<open>Specifiers and declarators of a member\<close>

text \<open>The sizes of the basic specifiers; the alignment is the same, that of \<open>void\<close> apart.\<close>

definition basic_specifier :: "u16 \<Rightarrow> bool" where
  "basic_specifier k \<longleftrightarrow> k \<in> {2, 3, 10, 11, 12, 13, 14, 83, 84}"

definition specifier_size :: "u16 \<Rightarrow> u64" where
  "specifier_size k = (if k = 3 \<or> k = 14 then 1 else if k = 10 then 2 else if k = 11 \<or> k = 84 then 8 else 4)"

lemma basic_size_align: "basic_specifier (kind node) \<Longrightarrow>
    ast_type_size_align (Suc n) fc T A node = Done (Some (specifier_size (kind node), specifier_size (kind node)))"
  by (auto simp: basic_specifier_def specifier_size_def Let_def)

lemma specifiers_scanned:
  "\<forall>n \<in> set specs. basic_specifier (kind n) \<Longrightarrow> specs \<noteq> [] \<Longrightarrow>
     fold_run (size_scan_step (ast_type_size_align (Suc m) fc T A) A) specs s =
     Done (s\<lparr>field_size := specifier_size (kind (last specs)), field_align := specifier_size (kind (last specs))\<rparr>)"
proof (induction specs arbitrary: s)
  case (Cons a specs)
  have k: "1 \<le> kind a \<and> kind a \<le> 5 \<or> 10 \<le> kind a \<and> kind a \<le> 14 \<or> kind a = 83 \<or> kind a = 84"
    using Cons.prems(1) by (auto simp: basic_specifier_def)
  have sz: "ast_type_size_align (Suc m) fc T A a = Done (Some (specifier_size (kind a), specifier_size (kind a)))"
    using Cons.prems(1) by (intro basic_size_align) simp
  have "size_scan_step (ast_type_size_align (Suc m) fc T A) A a s =
      Done (s\<lparr>field_size := specifier_size (kind a), field_align := specifier_size (kind a)\<rparr>)"
    unfolding size_scan_step_def Let_def sz by (simp only: k if_True simp_thms run_bind.simps option.case prod.case)
  then have step: "fold_run (size_scan_step (ast_type_size_align (Suc m) fc T A) A) (a # specs) s =
      fold_run (size_scan_step (ast_type_size_align (Suc m) fc T A) A) specs
        (s\<lparr>field_size := specifier_size (kind a), field_align := specifier_size (kind a)\<rparr>)"
    unfolding fold_run.simps by (simp only: run_bind.simps)
  show ?case
  proof (cases "specs = []")
    case False
    with Cons.prems(1) show ?thesis unfolding step by (subst Cons.IH) simp_all
  next
    case True
    with step show ?thesis by (simp del: ast_type_size_align.simps)
  qed
qed simp

lemma fold_run_append: "fold_run g (xs @ ys) s = run_bind (fold_run g xs s) (fold_run g ys)"
proof (induction xs arbitrary: s)
  case (Cons x xs)
  then have "fold_run g (xs @ ys) = (\<lambda>s. run_bind (fold_run g xs s) (fold_run g ys))" by blast
  then show ?case by (simp add: run_bind_assoc)
qed simp

lemma member_size_specifiers:
  assumes "chain_nodes A (first_child member) (specs @ names)" and "length (specs @ names) < ir_rounds A"
    and "specs \<noteq> []" and "\<forall>n \<in> set specs. basic_specifier (kind n)" and "\<forall>n \<in> set names. kind n = 60"
  shows "member_size (ast_type_size_align (ir_rounds A) fc T A) A member =
    Done (specifier_size (kind (last specs)), specifier_size (kind (last specs)))"
proof -
  let ?step = "size_scan_step (ast_type_size_align (ir_rounds A) fc T A) A"
  have r: "ir_rounds A = Suc (node_allocated A)" by (simp add: ir_rounds_def)
  have "fold_run ?step names s = Done s" for s
    using assms(5) by (induction names) (simp_all add: size_scan_step_def)
  then have "fold_run ?step (specs @ names) size_scan_start =
      Done (size_scan_start\<lparr>field_size := specifier_size (kind (last specs)), field_align := specifier_size (kind (last specs))\<rparr>)"
    unfolding fold_run_append r specifiers_scanned [OF assms(4,3)] by (simp add: r)
  moreover have "siblings (ir_rounds A) A (\<lambda>x child s. run_bind (?step child s) next_round) (first_child member) size_scan_start =
      fold_run ?step (specs @ names) size_scan_start"
    by (rule siblings_chain [OF assms(1,2)]) simp
  ultimately show ?thesis by (simp add: member_size_def scanned_size_def size_scan_start_def)
qed


section \<open>Samples\<close>

definition no_structs :: struct_tables where
  "no_structs = \<lparr>struct_tag_types = Map.empty, struct_tag_fields = Map.empty, struct_field_fn_types = Map.empty,
     struct_gep_info = Map.empty\<rparr>"

text \<open>The members \<open>long int n\<close> with a second name, \<open>char c\<close> and \<open>short s\<close>, and a struct of the last two.\<close>

definition member_nodes :: "cast_node list" where
  "member_nodes =
     [fresh_node 11 0 NULL NULL 2, fresh_node 2 0 NULL NULL 3, fresh_node 60 0 NULL NULL 4, fresh_node 60 0 NULL NULL NULL,
      fresh_node 25 0 NULL 1 NULL,
      fresh_node 3 0 NULL NULL NULL, fresh_node 25 0 NULL 6 9, fresh_node 10 0 NULL NULL NULL, fresh_node 25 0 NULL 8 NULL,
      fresh_node 4 0 NULL 7 NULL]"

definition member_arena :: "arena \<Rightarrow> bool" where
  "member_arena A \<longleftrightarrow> holds_nodes A member_nodes \<and> node_allocated A = 11"

lemma member_arena_exists: "\<exists>A. member_arena A"
proof -
  have "list_all node_wf member_nodes"
    by (simp add: member_nodes_def node_wf_def fresh_node_def source_unknown_def)
  with sample_arena [of "[]" "\<lambda>offs. member_nodes"] show ?thesis
    by (auto simp: member_arena_def) (auto simp: member_nodes_def)
qed

lemma member_get:
  assumes "member_arena A"
  shows "arena_get A 1 = Some (member_nodes ! 0)" "arena_get A 2 = Some (member_nodes ! 1)"
    "arena_get A 3 = Some (member_nodes ! 2)" "arena_get A 4 = Some (member_nodes ! 3)" "arena_get A 5 = Some (member_nodes ! 4)"
    "arena_get A 6 = Some (member_nodes ! 5)" "arena_get A 7 = Some (member_nodes ! 6)" "arena_get A 8 = Some (member_nodes ! 7)"
    "arena_get A 9 = Some (member_nodes ! 8)" "arena_get A 10 = Some (member_nodes ! 9)" "arena_get A 0 = None"
  using assms by (simp_all add: member_arena_def holds_nodes_def member_nodes_def)

lemma member_rounds: "member_arena A \<Longrightarrow> n < 12 \<Longrightarrow> n < ir_rounds A"
  by (simp add: member_arena_def ir_rounds_def)



end
